(* ===== verification/Prelude.thy ===== *)
theory Prelude
  imports Main "HOL-Library.Word" "HOL-Library.Monad_Syntax"
begin

unbundle bit_operations_syntax

text \<open>
  Shared vocabulary of the development: the machine integer types of the C sources, the
  fact collections the component proofs are built from, and the generic lemmas on words,
  lists and integer square roots that more than one component needs.

  Conventions used by every component:
  \<^item> \<open>uint8_t\<close>, \<open>uint16_t\<close>, \<open>uint32_t\<close>, \<open>uint64_t\<close> are \<open>8 word\<close> .. \<open>64 word\<close>, so that
    addition and subtraction wrap as they do in C;
  \<^item> a C function that may leave the defined behaviour (an access outside the mapped
    segment, a division by zero, a call through a null pointer, a failed \<open>assert\<close>, an
    \<open>exit\<close>, a loop that never ends) returns an \<open>option\<close>: \<open>None\<close> says that control never
    comes back to the caller. A theorem of the form \<open>f x = Some r\<close> therefore also states
    that none of these happens;
  \<^item> a pointer is the byte address as a natural number, a nullable pointer is an
    \<open>nat option\<close>.
\<close>

type_synonym u8 = "8 word"
type_synonym u16 = "16 word"
type_synonym u32 = "32 word"
type_synonym u64 = "64 word"

named_theorems hash_simps \<open>rewrite rules for the state accessors of the hash table model\<close>
named_theorems hash_op_defs \<open>definitions of the hash table operations\<close>
named_theorems vmem_simps \<open>rewrite rules for the state accessors of the vmem model\<close>

subsection \<open>Words\<close>

lemma unat_pred_less: "t \<noteq> 0 \<Longrightarrow> unat (t - 1) < unat (t :: 'a::len word)"
  by (metis measure_unat)

lemma word_gt0_of_ge: "(c :: 'a::len word) \<le> t \<Longrightarrow> c \<noteq> 0 \<Longrightarrow> t \<noteq> 0"
  by (metis word_le_0_iff)

lemma unat_sum_list_le:
  "unat (sum_list xs :: 'a::len word) \<le> sum_list (map unat xs)"
proof (induction xs)
  case Nil
  then show ?case by simp
next
  case (Cons x xs)
  have "unat (x + sum_list xs) \<le> unat x + unat (sum_list xs)"
    by (simp add: unat_word_ariths)
  with Cons show ?case by simp
qed

lemma unat_sum_list:
  assumes "sum_list (map unat xs) < 2 ^ LENGTH('a)"
  shows "unat (sum_list xs :: 'a::len word) = sum_list (map unat xs)"
  using assms
proof (induction xs)
  case Nil
  then show ?case by simp
next
  case (Cons x xs)
  then have "unat (sum_list xs) = sum_list (map unat xs)" by simp
  with Cons.prems show ?case by (simp add: unat_word_ariths)
qed

lemma word_of_unat: "unat (x :: 'a::len word) = n \<Longrightarrow> x = of_nat n"
  by auto

lemma unat_of_nat_small: "m < 2 ^ 32 \<Longrightarrow> unat (of_nat m :: u32) = m"
  by (simp add: unat_of_nat)

lemma unat_mod_less:
  assumes "n \<noteq> 0"
  shows "unat (k mod n) < unat (n :: 'a::len word)"
proof -
  have "unat n \<noteq> 0" using assms by (simp add: unat_eq_0)
  then show ?thesis by (simp only: unat_mod) simp
qed

lemma inj_on_unat: "inj_on unat A"
  by (simp add: inj_on_def word_unat_eq_iff)

lemma distinct_words_length:
  assumes "distinct xs" "\<And>x. x \<in> set xs \<Longrightarrow> x < (N :: 'a::len word)"
  shows "length xs \<le> unat N"
proof -
  have "set (map unat xs) \<subseteq> {..<unat N}"
    using assms(2) by (auto simp: word_less_nat_alt)
  moreover have "distinct (map unat xs)"
    using assms(1) by (simp add: distinct_map inj_on_unat)
  ultimately show ?thesis
    by (metis card_mono card_lessThan distinct_card finite_lessThan length_map)
qed

text \<open>A 32-bit value below \<open>2 ^ 31\<close> is the same number when it is read as an \<open>int\<close>.\<close>

lemma sint_small:
  assumes "unat (x :: u32) < 2 ^ 31"
  shows "sint x = int (unat x)"
proof -
  have "int (unat x) < int (2 ^ 31)" using assms by (simp only: of_nat_less_iff)
  then have "uint x < 2 ^ 31" by simp
  then have "signed_take_bit 31 (uint x) = uint x"
    by (subst signed_take_bit_int_eq_self_iff) (simp add: order_trans [OF _ uint_ge_0])
  then show ?thesis by (simp add: sint_uint)
qed

subsection \<open>Lists\<close>

lemma find_eq_Some: "x \<in> set xs \<Longrightarrow> find (\<lambda>y. y = x) xs = Some x"
  by (induction xs) auto

lemma find_SomeD: "find P xs = Some x \<Longrightarrow> x \<in> set xs \<and> P x"
  by (induction xs) (auto split: if_splits)

lemma sum_list_take_Suc:
  "r < length xs \<Longrightarrow> sum_list (take (Suc r) xs) = sum_list (take r xs) + (xs ! r :: nat)"
  by (simp add: take_Suc_conv_app_nth)

lemma sum_list_take_le: "sum_list (take r xs) \<le> sum_list (xs :: nat list)"
proof -
  have "sum_list xs = sum_list (take r xs) + sum_list (drop r xs)"
    by (metis append_take_drop_id sum_list_append)
  then show ?thesis by simp
qed

subsection \<open>The integer square root that \<open>(uint32_t)sqrt((double)n)\<close> computes\<close>

text \<open>
  A 32-bit value is exact in a double, and the IEEE square root of such a value rounds to
  a double whose integer part is the integer square root. The recursion is the
  digit-by-digit method, so that it evaluates quickly.
\<close>

fun isqrt :: "nat \<Rightarrow> nat" where
  "isqrt n = (if n = 0 then 0
     else let r = 2 * isqrt (n div 4) in if (r + 1) * (r + 1) \<le> n then r + 1 else r)"

declare isqrt.simps [simp del]

lemma isqrt_bounds: "isqrt n * isqrt n \<le> n \<and> n < (isqrt n + 1) * (isqrt n + 1)"
proof (induction n rule: isqrt.induct)
  case (1 n)
  show ?case
  proof (cases "n = 0")
    case True
    then show ?thesis by (simp add: isqrt.simps)
  next
    case False
    define s where "s = isqrt (n div 4)"
    have lo: "s * s \<le> n div 4" and hi: "n div 4 < (s + 1) * (s + 1)"
      using "1.IH" [OF False] by (auto simp: s_def)
    have eq: "isqrt n = (if (2 * s + 1) * (2 * s + 1) \<le> n then 2 * s + 1 else 2 * s)"
      using False by (subst isqrt.simps) (simp add: s_def Let_def)
    have "4 * (s * s) \<le> n" using lo by linarith
    then have a: "(2 * s) * (2 * s) \<le> n" by (simp add: algebra_simps)
    have "n < 4 * ((s + 1) * (s + 1))" using hi by linarith
    then have b: "n < (2 * s + 2) * (2 * s + 2)" by (simp add: algebra_simps)
    show ?thesis using a b by (auto simp: eq)
  qed
qed

lemma isqrt_less: "i * i \<le> n \<longleftrightarrow> i \<le> isqrt n"
proof
  assume "i * i \<le> n"
  then have "i * i < (isqrt n + 1) * (isqrt n + 1)"
    using isqrt_bounds [of n] by linarith
  then have "i < isqrt n + 1" by (rule power2_less_imp_less [unfolded power2_eq_square]) simp
  then show "i \<le> isqrt n" by simp
next
  assume "i \<le> isqrt n"
  then have "i * i \<le> isqrt n * isqrt n" by (simp add: mult_le_mono)
  then show "i * i \<le> n" using isqrt_bounds [of n] by linarith
qed

end
