(* ===== verification/Hash_Layout.thy ===== *)
theory Hash_Layout
  imports Prelude
begin

text \<open>
  Data of the shared-memory hash table (\<open>language/c_cpp/mt_shared_hash.h\<close>): the table
  head and the node heads that live in the shared segment, the per-process table
  descriptor, the pointer macros that turn node indices into addresses and back, and the
  computation of the row sizes that every initialisation function shares.

  A shared segment is viewed through its typed layout: one table head, then \<open>seg_slots\<close>
  slots, each a node head followed by the payload of type \<open>'d\<close>. The address arithmetic of
  the macros is kept: an operation computes a byte address as the code does, and an address
  that is not the start of a slot, or that lies behind the last slot, is a fault
  (\<open>slot_of\<close> is \<open>None\<close>).
\<close>

subsection \<open>Structures\<close>

record HashNodeHead =
  bIsUsed :: u8
  dwNodePreIndex :: u32
  dwNodeNextIndex :: u32

record HashTableHead =
  dwNodeStartIndex :: u32
  dwNodeEndIndex :: u32
  dwNodeUseCount :: u32
  th_dwNodeSize :: u32
  th_dwNodeCount :: u32
  dwWriteProcessId :: u32
  dwLastUseTimeSec :: u32
  bHashUseFlag :: u8

text \<open>
  \<open>fun_cmp\<close> is \<open>None\<close> for a null function pointer. \<open>fun_war\<close> records whether a warning
  callback is installed; what the callback does is outside the table, so a call is an
  event of the run (below). \<open>dwNodeNums\<close> is the array of \<open>STATIC_HASH_ROW_MAX\<close> entries.
\<close>

record 'd SharedHashTable =
  dwNodeSize :: u32
  dwNodeCount :: u32
  dwRealNodeCount :: u32
  dwShareMemBytes :: u32
  dwNodeNums :: "u32 list"
  dwLastUpdateTime :: u32
  bInitSuccess :: u8
  bAccessCheck :: u8
  dwCurIndex :: u32
  dwCurIndexRevers :: u32
  fun_cmp :: "('d \<Rightarrow> 'd \<Rightarrow> int) option"
  fun_war :: bool
  pHash :: nat

record 'd HashSeg =
  seg_head :: HashTableHead
  seg_nodes :: "u32 \<Rightarrow> HashNodeHead"
  seg_data :: "u32 \<Rightarrow> 'd"
  seg_slots :: nat

definition STATIC_HASH_ROW_MAX :: nat where
  "STATIC_HASH_ROW_MAX = 10"

definition STATIC_HASH_ROW_WARN :: nat where
  "STATIC_HASH_ROW_WARN = 7"

text \<open>Sizes of the packed structures: seven 32-bit words and a byte; a byte and two words.\<close>

definition sizeof_HashTableHead :: nat where
  "sizeof_HashTableHead = 29"

definition sizeof_HashNodeHead :: nat where
  "sizeof_HashNodeHead = 9"

definition zero_node_head :: HashNodeHead where
  "zero_node_head = \<lparr>bIsUsed = 0, dwNodePreIndex = 0, dwNodeNextIndex = 0\<rparr>"

definition zero_table_head :: HashTableHead where
  "zero_table_head = \<lparr>dwNodeStartIndex = 0, dwNodeEndIndex = 0, dwNodeUseCount = 0,
     th_dwNodeSize = 0, th_dwNodeCount = 0, dwWriteProcessId = 0, dwLastUseTimeSec = 0,
     bHashUseFlag = 0\<rparr>"

subsection \<open>Pointer macros\<close>

definition node_stride :: "'d SharedHashTable \<Rightarrow> nat" where
  "node_stride t = sizeof_HashNodeHead + unat (dwNodeSize t)"

definition NODE_TO_NODE_HEAD :: "nat \<Rightarrow> nat" where
  "NODE_TO_NODE_HEAD p = p - sizeof_HashNodeHead"

definition NODE_TO_INDEX :: "'d SharedHashTable \<Rightarrow> nat \<Rightarrow> u32" where
  "NODE_TO_INDEX t p =
     of_nat ((p - pHash t - sizeof_HashNodeHead - sizeof_HashTableHead) div node_stride t)"

definition INDEX_TO_NODE_HEAD :: "'d SharedHashTable \<Rightarrow> u32 \<Rightarrow> nat" where
  "INDEX_TO_NODE_HEAD t i = pHash t + sizeof_HashTableHead + unat i * node_stride t"

definition INDEX_TO_NODE :: "'d SharedHashTable \<Rightarrow> u32 \<Rightarrow> nat" where
  "INDEX_TO_NODE t i =
     pHash t + sizeof_HashTableHead + unat i * node_stride t + sizeof_HashNodeHead"

text \<open>The slot a node-head address denotes, if it is one.\<close>

definition slot_of :: "'d SharedHashTable \<Rightarrow> nat \<Rightarrow> nat \<Rightarrow> u32 option" where
  "slot_of t slots a =
     (let base = pHash t + sizeof_HashTableHead; off = a - base
      in if base \<le> a \<and> off mod node_stride t = 0 \<and> off div node_stride t < slots
         then Some (of_nat (off div node_stride t)) else None)"

lemma node_stride_pos [simp]: "0 < node_stride t" "node_stride t \<noteq> 0"
  by (simp_all add: node_stride_def sizeof_HashNodeHead_def)

lemma NODE_TO_NODE_HEAD_INDEX [simp, hash_simps]:
  "NODE_TO_NODE_HEAD (INDEX_TO_NODE t i) = INDEX_TO_NODE_HEAD t i"
  by (simp add: NODE_TO_NODE_HEAD_def INDEX_TO_NODE_def INDEX_TO_NODE_HEAD_def)

lemma INDEX_TO_NODE_eq_head: "INDEX_TO_NODE t i = INDEX_TO_NODE_HEAD t i + sizeof_HashNodeHead"
  by (simp add: INDEX_TO_NODE_def INDEX_TO_NODE_HEAD_def)

lemma NODE_TO_INDEX_INDEX_TO_NODE [simp, hash_simps]: "NODE_TO_INDEX t (INDEX_TO_NODE t i) = i"
proof -
  have "INDEX_TO_NODE t i - pHash t - sizeof_HashNodeHead - sizeof_HashTableHead
      = unat i * node_stride t"
    by (simp add: INDEX_TO_NODE_def)
  then show ?thesis by (simp add: NODE_TO_INDEX_def)
qed

lemma slot_of_INDEX [simp, hash_simps]:
  "unat i < slots \<Longrightarrow> slot_of t slots (INDEX_TO_NODE_HEAD t i) = Some i"
  by (simp add: slot_of_def INDEX_TO_NODE_HEAD_def Let_def)

lemma slot_of_INDEX_fault:
  "slots \<le> unat i \<Longrightarrow> slot_of t slots (INDEX_TO_NODE_HEAD t i) = None"
  by (simp add: slot_of_def INDEX_TO_NODE_HEAD_def Let_def)

lemma INDEX_TO_NODE_HEAD_inject [simp, hash_simps]:
  "INDEX_TO_NODE_HEAD t i = INDEX_TO_NODE_HEAD t j \<longleftrightarrow> i = j"
  by (simp add: INDEX_TO_NODE_HEAD_def word_unat_eq_iff)

lemma INDEX_TO_NODE_inject [simp, hash_simps]:
  "INDEX_TO_NODE t i = INDEX_TO_NODE t j \<longleftrightarrow> i = j"
  by (simp add: INDEX_TO_NODE_eq_head)

text \<open>The macros depend on the base address and the payload size only.\<close>

lemma macros_cong:
  assumes "pHash t' = pHash t" "dwNodeSize t' = dwNodeSize t"
  shows "node_stride t' = node_stride t"
    and "NODE_TO_INDEX t' = NODE_TO_INDEX t"
    and "INDEX_TO_NODE_HEAD t' = INDEX_TO_NODE_HEAD t"
    and "INDEX_TO_NODE t' = INDEX_TO_NODE t"
    and "slot_of t' = slot_of t"
  using assms
  by (auto simp: node_stride_def NODE_TO_INDEX_def INDEX_TO_NODE_HEAD_def INDEX_TO_NODE_def
      slot_of_def fun_eq_iff Let_def)

subsection \<open>Row sizes\<close>

text \<open>
  \<open>IsPrime\<close> tries every divisor up to the integer square root. The divisor is bounded by
  65535, so the \<open>uint32_t\<close> counter of the loop cannot wrap and is a natural number here.
\<close>

function is_prime_from :: "nat \<Rightarrow> nat \<Rightarrow> nat \<Rightarrow> bool" where
  "is_prime_from n mx i =
     (if i \<le> mx then (if n mod i = 0 then False else is_prime_from n mx (i + 1)) else True)"
  by pat_completeness auto
termination
  by (relation "measure (\<lambda>(n, mx, i). Suc mx - i)") auto

declare is_prime_from.simps [simp del]

definition IsPrime :: "u32 \<Rightarrow> bool" where
  "IsPrime dwNum = is_prime_from (unat dwNum) (isqrt (unat dwNum)) 2"

text \<open>The inner loop of the row computation: \<open>for(; dwTmp >= 1002; dwTmp--) if(IsPrime(dwTmp)) break;\<close>\<close>

function prime_down :: "u32 \<Rightarrow> u32" where
  "prime_down t = (if 1002 \<le> t then (if IsPrime t then t else prime_down (t - 1)) else t)"
  by pat_completeness auto
termination
proof (relation "measure unat")
  fix t :: u32
  assume "1002 \<le> t"
  then have "t \<noteq> 0" by (rule word_gt0_of_ge) simp
  then show "(t - 1, t) \<in> measure unat" by (simp add: unat_pred_less)
qed simp

declare prime_down.simps [simp del]

text \<open>
  The rows of a linked table: every row starts one below the previous one
  (\<open>for(dwTmp--; ...)\<close>). The subtraction wraps, as the \<open>uint32_t\<close> does.
\<close>

fun hash_rows :: "nat \<Rightarrow> u32 \<Rightarrow> u32 list" where
  "hash_rows 0 t = []"
| "hash_rows (Suc k) t = (let t' = prime_down (t - 1) in t' # hash_rows k t')"

text \<open>The rows of a table without list: the counter is not decremented between rows.\<close>

fun hash_rows_NoList :: "nat \<Rightarrow> u32 \<Rightarrow> u32 list" where
  "hash_rows_NoList 0 t = []"
| "hash_rows_NoList (Suc k) t = (let t' = prime_down t in t' # hash_rows_NoList k t')"

subsection \<open>Properties of the row sizes\<close>

lemma is_prime_from_iff:
  "is_prime_from n mx i \<longleftrightarrow> (\<forall>d. i \<le> d \<and> d \<le> mx \<longrightarrow> n mod d \<noteq> 0)"
proof (induction n mx i rule: is_prime_from.induct)
  case (1 n mx i)
  show ?case
  proof (cases "i \<le> mx \<and> n mod i \<noteq> 0")
    case True
    then have "is_prime_from n mx i \<longleftrightarrow> (\<forall>d. i + 1 \<le> d \<and> d \<le> mx \<longrightarrow> n mod d \<noteq> 0)"
      using "1.IH" by (simp add: is_prime_from.simps [of n mx i])
    also have "\<dots> \<longleftrightarrow> (\<forall>d. i \<le> d \<and> d \<le> mx \<longrightarrow> n mod d \<noteq> 0)"
      using True by (metis Suc_eq_plus1 Suc_leI le_neq_implies_less Suc_leD)
    finally show ?thesis .
  next
    case False
    then show ?thesis by (auto simp: is_prime_from.simps [of n mx i])
  qed
qed

lemma small_divisor:
  assumes "d dvd (n::nat)" "1 < d" "d < n"
  obtains e where "e dvd n" "1 < e" "e * e \<le> n"
proof -
  from assms(1) obtain k where k: "n = d * k" by (elim dvdE)
  have "1 < k" using assms k by (cases k) auto
  show thesis
  proof (cases "d * d \<le> n")
    case True
    then show thesis using assms that by blast
  next
    case False
    then have "k < d" using k by simp
    then have "k * k \<le> n" using k by simp
    then show thesis using that [of k] k \<open>1 < k\<close> by simp
  qed
qed

lemma IsPrime_iff:
  assumes "2 \<le> unat n"
  shows "IsPrime n \<longleftrightarrow> (\<forall>d. d dvd unat n \<longrightarrow> d = 1 \<or> d = unat n)"
proof
  assume p: "IsPrime n"
  show "\<forall>d. d dvd unat n \<longrightarrow> d = 1 \<or> d = unat n"
  proof (intro allI impI)
    fix d assume d: "d dvd unat n"
    show "d = 1 \<or> d = unat n"
    proof (rule ccontr)
      assume no: "\<not> (d = 1 \<or> d = unat n)"
      have "d \<noteq> 0" using d assms by (metis dvd_0_left_iff not_numeral_le_zero)
      moreover have "d \<le> unat n" using d assms by (auto dest: dvd_imp_le)
      ultimately have "1 < d" "d < unat n" using no by auto
      with d obtain e where "e dvd unat n" "1 < e" "e * e \<le> unat n" by (rule small_divisor)
      moreover from this have "2 \<le> e" by simp
      ultimately have "unat n mod e \<noteq> 0"
        using p unfolding IsPrime_def is_prime_from_iff isqrt_less by blast
      with \<open>e dvd unat n\<close> show False by simp
    qed
  qed
next
  assume p: "\<forall>d. d dvd unat n \<longrightarrow> d = 1 \<or> d = unat n"
  have "False" if d: "2 \<le> d" "d \<le> isqrt (unat n)" "unat n mod d = 0" for d
  proof -
    have "d = unat n" using p d by (auto simp: mod_eq_0_iff_dvd)
    moreover have "d * d \<le> unat n" using d by (simp add: isqrt_less)
    moreover have "2 * d \<le> d * d" using d(1) by simp
    ultimately show False using d(1) by linarith
  qed
  then show "IsPrime n" by (auto simp: IsPrime_def is_prime_from_iff)
qed

lemma prime_down_le: "prime_down t \<le> t"
proof (induction t rule: prime_down.induct)
  case (1 t)
  show ?case
  proof (cases "1002 \<le> t \<and> \<not> IsPrime t")
    case True
    then have "prime_down (t - 1) \<le> t - 1" using "1.IH" by blast
    moreover have "t \<noteq> 0" using True by (auto dest: word_gt0_of_ge)
    then have "t - 1 \<le> t" by (simp add: unat_pred_less word_le_nat_alt less_imp_le)
    ultimately show ?thesis using True by (simp add: prime_down.simps [of t])
  next
    case False
    then show ?thesis by (auto simp: prime_down.simps [of t])
  qed
qed

lemma prime_down_small: "t < 1002 \<Longrightarrow> prime_down t = t"
  by (auto simp: prime_down.simps [of t])

lemma prime_down_prime: "1002 \<le> prime_down t \<Longrightarrow> IsPrime (prime_down t)"
proof (induction t rule: prime_down.induct)
  case (1 t)
  then show ?case by (cases "1002 \<le> t \<and> \<not> IsPrime t") (auto simp: prime_down.simps [of t])
qed

lemma prime_down_ge: "min (unat t) 1001 \<le> unat (prime_down t)"
proof (induction t rule: prime_down.induct)
  case (1 t)
  show ?case
  proof (cases "1002 \<le> t \<and> \<not> IsPrime t")
    case True
    then have IH: "min (unat (t - 1)) 1001 \<le> unat (prime_down (t - 1))" using "1.IH" by blast
    have "1002 \<le> unat t" using True by (simp add: word_le_nat_alt)
    then have "1001 \<le> unat (t - 1)" by (subst unat_minus_one) auto
    with IH True show ?thesis by (simp add: prime_down.simps [of t])
  next
    case False
    then show ?thesis by (auto simp: prime_down.simps [of t])
  qed
qed

lemma length_hash_rows [simp]: "length (hash_rows k t) = k"
  by (induction k arbitrary: t) (auto simp: Let_def)

lemma length_hash_rows_NoList [simp]: "length (hash_rows_NoList k t) = k"
  by (induction k arbitrary: t) (auto simp: Let_def)

lemma hash_row_step:
  assumes "k < unat t" "k \<le> 1001"
  shows "unat (prime_down (t - 1)) < unat t" and "k \<le> unat (prime_down (t - 1))"
proof -
  have ne: "t \<noteq> 0" using assms(1) by auto
  have p: "unat (t - 1) = unat t - 1" using ne by (simp add: unat_minus_one)
  have "unat (prime_down (t - 1)) \<le> unat (t - 1)" by (simp add: prime_down_le word_le_nat_alt [symmetric])
  then show "unat (prime_down (t - 1)) < unat t" using p ne assms(1) by linarith
  show "k \<le> unat (prime_down (t - 1))" using prime_down_ge [of "t - 1"] p assms by linarith
qed

lemma hash_rows_facts:
  assumes "k < unat t" "k \<le> 1001"
  shows "(\<forall>n\<in>set (hash_rows k t). 0 < n \<and> n < t) \<and> sorted_wrt (>) (hash_rows k t)
    \<and> (\<forall>n\<in>set (hash_rows k t). 1002 \<le> n \<longrightarrow> IsPrime n)"
  using assms
proof (induction k arbitrary: t)
  case 0
  then show ?case by simp
next
  case (Suc k)
  let ?u = "prime_down (t - 1)"
  have lt: "unat ?u < unat t" and ge: "Suc k \<le> unat ?u"
    using hash_row_step [OF Suc.prems] by auto
  have IH: "(\<forall>n\<in>set (hash_rows k ?u). 0 < n \<and> n < ?u) \<and> sorted_wrt (>) (hash_rows k ?u)
    \<and> (\<forall>n\<in>set (hash_rows k ?u). 1002 \<le> n \<longrightarrow> IsPrime n)"
    using ge Suc.prems(2) by (intro Suc.IH) auto
  have "0 < ?u" using ge by (simp add: word_less_nat_alt)
  moreover have "?u < t" using lt by (simp add: word_less_nat_alt)
  ultimately show ?case
    using IH prime_down_prime [of "t - 1"] by (auto simp: Let_def dest: less_trans)
qed

lemma hash_rows_sum:
  assumes "k < unat t" "k \<le> 1001"
  shows "sum_list (map unat (hash_rows k t)) \<le> k * (unat t - 1)"
proof -
  have "\<forall>n\<in>set (map unat (hash_rows k t)). n \<le> unat t - 1"
    using hash_rows_facts [OF assms] by (auto simp: word_less_nat_alt)
  then have "sum_list (map unat (hash_rows k t)) \<le> (\<Sum>n\<leftarrow>hash_rows k t. unat t - 1)"
    by (intro sum_list_mono) auto
  then show ?thesis by (simp add: sum_list_triv)
qed

lemma hash_rows_NoList_const: "hash_rows_NoList k t = replicate k (prime_down t)"
proof (induction k arbitrary: t)
  case 0
  then show ?case by simp
next
  case (Suc k)
  have "prime_down (prime_down t) = prime_down t"
    using prime_down_prime [of t] by (auto simp: prime_down.simps [of "prime_down t"])
  with Suc show ?case by (simp add: Let_def)
qed

end
