(* ===== verification/Dll.thy ===== *)
theory Dll
  imports Hash_Layout
begin

text \<open>
  Doubly linked chains in a memory of node heads, the shape the hash table keeps in shared
  memory. \<open>links h p xs q\<close> says that the nodes \<open>xs\<close>, in this order, are used, that the
  previous index of each is its predecessor (\<open>p\<close> for the first) and the next index its
  successor (\<open>q\<close> for the last). \<open>dll\<close> adds what the table head stores and that the used
  nodes are exactly those of the chain. The lemmas are the ones every pointer operation
  needs: splitting a chain, updating a node outside it, unlinking and splicing a node.
\<close>

fun links :: "(u32 \<Rightarrow> HashNodeHead) \<Rightarrow> u32 \<Rightarrow> u32 list \<Rightarrow> u32 \<Rightarrow> bool" where
  "links h p [] q = True"
| "links h p (x # xs) q =
     (bIsUsed (h x) \<noteq> 0 \<and> dwNodePreIndex (h x) = p \<and>
      dwNodeNextIndex (h x) = (if xs = [] then q else hd xs) \<and> links h x xs q)"

definition hd_or :: "u32 \<Rightarrow> u32 list \<Rightarrow> u32" where
  "hd_or d xs = (if xs = [] then d else hd xs)"

definition last_or :: "u32 \<Rightarrow> u32 list \<Rightarrow> u32" where
  "last_or d xs = (if xs = [] then d else last xs)"

definition dll :: "(u32 \<Rightarrow> HashNodeHead) \<Rightarrow> u32 \<Rightarrow> u32 list \<Rightarrow> bool" where
  "dll h N xs \<longleftrightarrow> links h N xs N \<and> distinct xs \<and> (\<forall>x\<in>set xs. x < N) \<and>
     (\<forall>x. x < N \<longrightarrow> (bIsUsed (h x) \<noteq> 0 \<longleftrightarrow> x \<in> set xs))"

lemma hd_or_simps [simp]: "hd_or d [] = d" "hd_or d (x # xs) = x"
  by (simp_all add: hd_or_def)

lemma last_or_simps [simp]:
  "last_or d [] = d" "last_or d [x] = x" "last_or d (x # xs) = last_or x xs"
  by (simp_all add: last_or_def)

lemma last_or_snoc [simp]: "last_or d (xs @ [x]) = x" "last_or d (xs @ x # ys) = last_or x ys"
  by (simp_all add: last_or_def)

lemma hd_or_Cons_append [simp]: "hd_or d (xs @ x # ys) = hd_or x xs"
  by (simp add: hd_or_def)

lemma hd_or_append: "hd_or d (xs @ ys) = hd_or (hd_or d ys) xs"
  by (simp add: hd_or_def)

lemma last_or_append: "last_or d (xs @ ys) = last_or (last_or d xs) ys"
  by (simp add: last_or_def)

lemma links_Cons: "links h p (x # xs) q \<longleftrightarrow>
    bIsUsed (h x) \<noteq> 0 \<and> dwNodePreIndex (h x) = p \<and> dwNodeNextIndex (h x) = hd_or q xs \<and> links h x xs q"
  by (simp add: hd_or_def)

lemma links_append:
  "links h p (xs @ ys) q \<longleftrightarrow> links h p xs (hd_or q ys) \<and> links h (last_or p xs) ys q"
  by (induction xs arbitrary: p) (auto simp: hd_or_def)

lemma links_cong:
  "(\<And>x. x \<in> set xs \<Longrightarrow> h' x = h x) \<Longrightarrow> links h' p xs q = links h p xs q"
  by (induction xs arbitrary: p) auto

lemma links_upd_outside [simp]: "i \<notin> set xs \<Longrightarrow> links (h(i := v)) p xs q = links h p xs q"
  by (rule links_cong) auto

lemma links_used: "links h p xs q \<Longrightarrow> x \<in> set xs \<Longrightarrow> bIsUsed (h x) \<noteq> 0"
  by (induction xs arbitrary: p) auto

text \<open>
  A chain survives a change of memory in which only its two outer pointers are redirected.
\<close>

lemma links_transfer:
  assumes "links h p xs q" "distinct xs"
    and "\<And>x. x \<in> set xs \<Longrightarrow> bIsUsed (h' x) \<noteq> 0"
    and "\<And>x. x \<in> set xs \<Longrightarrow> dwNodePreIndex (h' x) = (if x = hd xs then p' else dwNodePreIndex (h x))"
    and "\<And>x. x \<in> set xs \<Longrightarrow> dwNodeNextIndex (h' x) = (if x = last xs then q' else dwNodeNextIndex (h x))"
  shows "links h' p' xs q'"
  using assms
proof (induction xs arbitrary: p p')
  case Nil
  then show ?case by simp
next
  case (Cons x xs)
  have "links h' x xs q'"
  proof (cases xs)
    case Nil
    then show ?thesis by simp
  next
    case (Cons y ys)
    have pre_y: "dwNodePreIndex (h y) = x" using Cons.prems(1) Cons by simp
    show ?thesis
      using Cons.prems Cons pre_y by (intro Cons.IH [of x]) (auto split: if_splits)
  qed
  with Cons.prems show ?case by (auto split: if_splits)
qed

lemma dll_empty: "dll h N [] \<longleftrightarrow> (\<forall>x. x < N \<longrightarrow> bIsUsed (h x) = 0)"
  by (simp add: dll_def)

lemma dll_range: "dll h N xs \<Longrightarrow> x \<in> set xs \<Longrightarrow> x < N"
  by (simp add: dll_def)

lemma dll_used: "dll h N xs \<Longrightarrow> x < N \<Longrightarrow> bIsUsed (h x) \<noteq> 0 \<longleftrightarrow> x \<in> set xs"
  by (simp add: dll_def)

lemma dll_length: "dll h N xs \<Longrightarrow> length xs \<le> unat N"
  by (rule distinct_words_length) (auto simp: dll_def)

lemma dll_length_free:
  assumes "dll h N xs" "x < N" "x \<notin> set xs"
  shows "length xs < unat N"
proof -
  have "length (x # xs) \<le> unat N"
    using assms by (intro distinct_words_length) (auto simp: dll_def)
  then show ?thesis by simp
qed

text \<open>Reading a node in the middle of a chain.\<close>

lemma dll_split:
  assumes "dll h N (as @ x # bs)"
  shows "bIsUsed (h x) \<noteq> 0" "dwNodePreIndex (h x) = last_or N as"
    "dwNodeNextIndex (h x) = hd_or N bs" "x < N" "x \<notin> set as" "x \<notin> set bs"
  using assms by (auto simp: dll_def links_append hd_or_def)

lemma dll_next_last: "dll h N (as @ bs) \<Longrightarrow> as \<noteq> [] \<Longrightarrow> dwNodeNextIndex (h (last as)) = hd_or N bs"
  by (cases as rule: rev_cases) (auto dest: dll_split(3))

lemma dll_pre_hd: "dll h N (as @ bs) \<Longrightarrow> bs \<noteq> [] \<Longrightarrow> dwNodePreIndex (h (hd bs)) = last_or N as"
  by (cases bs) (auto dest: dll_split(2))

text \<open>
  Linking a free node \<open>i\<close> in between \<open>as\<close> and \<open>bs\<close>, and unlinking a node: the new memory is
  described by its fields, so that the lemmas apply to the writes of every operation.
\<close>

lemma dll_link:
  assumes dll: "dll h N (as @ bs)" and i: "i < N" "i \<notin> set (as @ bs)"
    and used: "\<And>x. bIsUsed (h' x) = (if x = i then 1 else bIsUsed (h x))"
    and pre: "\<And>x. x = i \<or> x \<in> set (as @ bs) \<Longrightarrow> dwNodePreIndex (h' x) =
      (if x = i then last_or N as else if bs \<noteq> [] \<and> x = hd bs then i else dwNodePreIndex (h x))"
    and nxt: "\<And>x. x = i \<or> x \<in> set (as @ bs) \<Longrightarrow> dwNodeNextIndex (h' x) =
      (if x = i then hd_or N bs else if as \<noteq> [] \<and> x = last as then i else dwNodeNextIndex (h x))"
  shows "dll h' N (as @ i # bs)"
proof -
  have d: "distinct (as @ bs)" and la: "links h N as (hd_or N bs)" and lb: "links h (last_or N as) bs N"
    using dll by (auto simp: dll_def links_append)
  have "links h' N as i"
  proof (rule links_transfer [OF la])
    fix x assume x: "x \<in> set as"
    then have "x \<noteq> i" "bs \<noteq> [] \<Longrightarrow> x \<noteq> hd bs" using d i by auto
    then show "bIsUsed (h' x) \<noteq> 0" using x links_used [OF la] used by simp
    have "dwNodePreIndex (h (hd as)) = N" using la x by (cases as) auto
    then show "dwNodePreIndex (h' x) = (if x = hd as then N else dwNodePreIndex (h x))"
      using x \<open>x \<noteq> i\<close> \<open>bs \<noteq> [] \<Longrightarrow> x \<noteq> hd bs\<close> pre by auto
    show "dwNodeNextIndex (h' x) = (if x = last as then i else dwNodeNextIndex (h x))"
      using x \<open>x \<noteq> i\<close> nxt by auto
  qed (use d in simp)
  moreover have "links h' i bs N"
  proof (rule links_transfer [OF lb])
    fix x assume x: "x \<in> set bs"
    then have "x \<noteq> i" "as \<noteq> [] \<Longrightarrow> x \<noteq> last as" using d i by (auto dest: last_in_set)
    then show "bIsUsed (h' x) \<noteq> 0" using x links_used [OF lb] used by simp
    show "dwNodePreIndex (h' x) = (if x = hd bs then i else dwNodePreIndex (h x))"
      using x \<open>x \<noteq> i\<close> pre by auto
    have "dwNodeNextIndex (h (last bs)) = N"
      using lb x by (cases bs rule: rev_cases) (auto simp: links_append)
    then show "dwNodeNextIndex (h' x) = (if x = last bs then N else dwNodeNextIndex (h x))"
      using x \<open>x \<noteq> i\<close> \<open>as \<noteq> [] \<Longrightarrow> x \<noteq> last as\<close> nxt by auto
  qed (use d in simp)
  ultimately have "links h' N (as @ i # bs) N"
    using used [of i] pre [of i] nxt [of i] by (simp add: links_append hd_or_def)
  then show ?thesis using dll i used by (auto simp: dll_def)
qed

lemma dll_unlink:
  assumes dll: "dll h N (as @ i # bs)"
    and used: "\<And>x. bIsUsed (h' x) = (if x = i then 0 else bIsUsed (h x))"
    and pre: "\<And>x. x \<in> set (as @ bs) \<Longrightarrow> dwNodePreIndex (h' x) =
      (if bs \<noteq> [] \<and> x = hd bs then last_or N as else dwNodePreIndex (h x))"
    and nxt: "\<And>x. x \<in> set (as @ bs) \<Longrightarrow> dwNodeNextIndex (h' x) =
      (if as \<noteq> [] \<and> x = last as then hd_or N bs else dwNodeNextIndex (h x))"
  shows "dll h' N (as @ bs)"
proof -
  have d: "distinct (as @ i # bs)" and la: "links h N as i" and lb: "links h i bs N"
    using dll by (auto simp: dll_def links_append)
  have "links h' N as (hd_or N bs)"
  proof (rule links_transfer [OF la])
    fix x assume x: "x \<in> set as"
    then have "x \<noteq> i" "bs \<noteq> [] \<Longrightarrow> x \<noteq> hd bs" using d by auto
    then show "bIsUsed (h' x) \<noteq> 0" using x links_used [OF la] used by simp
    have "dwNodePreIndex (h (hd as)) = N" using la x by (cases as) auto
    then show "dwNodePreIndex (h' x) = (if x = hd as then N else dwNodePreIndex (h x))"
      using x \<open>bs \<noteq> [] \<Longrightarrow> x \<noteq> hd bs\<close> pre by auto
    show "dwNodeNextIndex (h' x) = (if x = last as then hd_or N bs else dwNodeNextIndex (h x))"
      using x nxt by auto
  qed (use d in simp)
  moreover have "links h' (last_or N as) bs N"
  proof (rule links_transfer [OF lb])
    fix x assume x: "x \<in> set bs"
    then have "x \<noteq> i" "as \<noteq> [] \<Longrightarrow> x \<noteq> last as" using d by (auto dest: last_in_set)
    then show "bIsUsed (h' x) \<noteq> 0" using x links_used [OF lb] used by simp
    show "dwNodePreIndex (h' x) = (if x = hd bs then last_or N as else dwNodePreIndex (h x))"
      using x pre by auto
    have "dwNodeNextIndex (h (last bs)) = N"
      using lb x by (cases bs rule: rev_cases) (auto simp: links_append)
    then show "dwNodeNextIndex (h' x) = (if x = last bs then N else dwNodeNextIndex (h x))"
      using x \<open>as \<noteq> [] \<Longrightarrow> x \<noteq> last as\<close> nxt by auto
  qed (use d in simp)
  ultimately have "links h' N (as @ bs) N" by (simp add: links_append)
  then show ?thesis using dll used by (auto simp: dll_def)
qed

end
