(* ===== verification/Hash_Ops.thy ===== *)
theory Hash_Ops
  imports Dll
begin

text \<open>
  The operations of \<open>language/c_cpp/mt_shared_hash.c\<close> on a table that is attached: the use
  flag that serialises writers, \<open>ResetHashTable\<close>, \<open>CheckHashTable\<close>, the three insertions,
  the removal and the two traversals. Every operation takes and returns the whole state of
  the calling process (\<open>HashWorld\<close>): its table descriptor, the shared segment, how many
  times the environment was consulted, and the calls it made to code outside the table.
\<close>

subsection \<open>State and environment\<close>

text \<open>
  Calls that leave the component are recorded in order: \<open>MtReport_Attr_Spec\<close> (defined in
  \<open>mt_attr.c\<close>, which applies them to the attribute store) and the warning callback.
\<close>

datatype hash_event = AttrSpec int int | Warned u32 u32

record 'd HashWorld =
  hw_tab :: "'d SharedHashTable"
  hw_seg :: "'d HashSeg"
  hw_tick :: nat
  hw_events :: "hash_event list"

text \<open>
  What the code asks of the operating system: the result of the n-th clock reading, the
  process id, what the other processes do to the segment while this one sleeps in its n-th
  \<open>usleep\<close>, and the all-zero payload that \<open>memset\<close> leaves in a node. All of it is a
  parameter of the model.
\<close>

record 'd HashEnv =
  env_time :: "nat \<Rightarrow> u32"
  env_pid :: u32
  env_sleep :: "nat \<Rightarrow> 'd HashSeg \<Rightarrow> 'd HashSeg"
  env_zero :: 'd

abbreviation thead :: "'d HashWorld \<Rightarrow> HashTableHead" where
  "thead w \<equiv> seg_head (hw_seg w)"

definition upd_tab :: "('d SharedHashTable \<Rightarrow> 'd SharedHashTable) \<Rightarrow> 'd HashWorld \<Rightarrow> 'd HashWorld" where
  "upd_tab f w = w\<lparr>hw_tab := f (hw_tab w)\<rparr>"

definition upd_thead :: "(HashTableHead \<Rightarrow> HashTableHead) \<Rightarrow> 'd HashWorld \<Rightarrow> 'd HashWorld" where
  "upd_thead f w = w\<lparr>hw_seg := (hw_seg w)\<lparr>seg_head := f (thead w)\<rparr>\<rparr>"

definition upd_node :: "u32 \<Rightarrow> (HashNodeHead \<Rightarrow> HashNodeHead) \<Rightarrow> 'd HashWorld \<Rightarrow> 'd HashWorld" where
  "upd_node i f w = w\<lparr>hw_seg := (hw_seg w)\<lparr>seg_nodes :=
     (seg_nodes (hw_seg w))(i := f (seg_nodes (hw_seg w) i))\<rparr>\<rparr>"

definition emit :: "hash_event \<Rightarrow> 'd HashWorld \<Rightarrow> 'd HashWorld" where
  "emit e w = w\<lparr>hw_events := hw_events w @ [e]\<rparr>"

definition time_now :: "'d HashEnv \<Rightarrow> 'd HashWorld \<Rightarrow> u32 \<times> 'd HashWorld" where
  "time_now env w = (env_time env (hw_tick w), w\<lparr>hw_tick := Suc (hw_tick w)\<rparr>)"

definition usleep :: "'d HashEnv \<Rightarrow> 'd HashWorld \<Rightarrow> 'd HashWorld" where
  "usleep env w = w\<lparr>hw_seg := env_sleep env (hw_tick w) (hw_seg w), hw_tick := Suc (hw_tick w)\<rparr>"

text \<open>Memory accesses through a node-head address and through a node address.\<close>

definition rdHead :: "'d HashWorld \<Rightarrow> nat \<Rightarrow> HashNodeHead option" where
  "rdHead w a = map_option (seg_nodes (hw_seg w)) (slot_of (hw_tab w) (seg_slots (hw_seg w)) a)"

definition updHead :: "nat \<Rightarrow> (HashNodeHead \<Rightarrow> HashNodeHead) \<Rightarrow> 'd HashWorld \<Rightarrow> 'd HashWorld option" where
  "updHead a f w = map_option (\<lambda>i. upd_node i f w) (slot_of (hw_tab w) (seg_slots (hw_seg w)) a)"

definition rdData :: "'d HashWorld \<Rightarrow> nat \<Rightarrow> 'd option" where
  "rdData w p = map_option (seg_data (hw_seg w))
     (slot_of (hw_tab w) (seg_slots (hw_seg w)) (NODE_TO_NODE_HEAD p))"

definition updData :: "nat \<Rightarrow> ('d \<Rightarrow> 'd) \<Rightarrow> 'd HashWorld \<Rightarrow> 'd HashWorld option" where
  "updData p f w = map_option (\<lambda>i. w\<lparr>hw_seg := (hw_seg w)\<lparr>seg_data :=
       (seg_data (hw_seg w))(i := f (seg_data (hw_seg w) i))\<rparr>\<rparr>)
     (slot_of (hw_tab w) (seg_slots (hw_seg w)) (NODE_TO_NODE_HEAD p))"

subsection \<open>The use flag\<close>

text \<open>
  \<open>for(i = 0; i < n; i++) { if(CAS(&flag, 0, 1)) { dwLastUseTimeSec = time(NULL); break; } usleep(1000); }\<close>
\<close>

fun try_lock :: "nat \<Rightarrow> 'd HashEnv \<Rightarrow> 'd HashWorld \<Rightarrow> bool \<times> 'd HashWorld" where
  "try_lock 0 env w = (False, w)"
| "try_lock (Suc n) env w =
     (if bHashUseFlag (thead w) = 0
      then (let (t, w1) = time_now env (upd_thead (\<lambda>h. h\<lparr>bHashUseFlag := 1\<rparr>) w)
            in (True, upd_thead (\<lambda>h. h\<lparr>dwLastUseTimeSec := t\<rparr>) w1))
      else try_lock n env (usleep env w))"

text \<open>
  The loop around it in \<open>CheckHashTable\<close> and \<open>ResetHashTable\<close>: retry for ever, break the
  flag when more than two seconds have passed since the start, and \<open>exit(-1)\<close> when it is
  more than three. \<open>wait_round\<close> is one round of it (ten tries and the clock tests): \<open>Inl\<close> when
  the round ends the wait, \<open>Inr\<close> when the code jumps back. The result keeps the state in
  which the process exits.
\<close>

datatype 'd lock_result = Locked "'d HashWorld" | Exited "'d HashWorld"

definition wait_round :: "'d HashEnv \<Rightarrow> u32 \<Rightarrow> 'd HashWorld \<Rightarrow> 'd lock_result + 'd HashWorld" where
  "wait_round env start w =
     (case try_lock 10 env w of
        (True, w1) \<Rightarrow> Inl (Locked w1)
      | (False, w1) \<Rightarrow>
          (let (t1, w2) = time_now env (emit (AttrSpec 91 1) w1) in
           if start + 3 < t1 then Inl (Exited (upd_thead (\<lambda>h. h\<lparr>bHashUseFlag := 0\<rparr>) w2))
           else let (t2, w3) = time_now env w2 in
             Inr (if start + 2 < t2 then upd_thead (\<lambda>h. h\<lparr>bHashUseFlag := 0\<rparr>) w3 else w3)))"

partial_function (option) wait_lock ::
    "'d HashEnv \<Rightarrow> u32 \<Rightarrow> 'd HashWorld \<Rightarrow> 'd lock_result option" where
  "wait_lock env start w =
     (case wait_round env start w of
        Inl r \<Rightarrow> Some r
      | Inr w' \<Rightarrow> wait_lock env start w')"

definition locked :: "'d lock_result \<Rightarrow> 'd HashWorld option" where
  "locked r = (case r of Locked w \<Rightarrow> Some w | Exited w \<Rightarrow> None)"

subsection \<open>Reset and check\<close>

text \<open>
  \<open>memset(pNodes, 0, dwShareMemBytes - sizeof(_HashTableHead))\<close>: the slots that the byte
  count covers are zeroed. A count that does not fit the mapped slots is a fault; so is one
  that ends inside a slot, which the typed segment cannot express (it only arises when the
  32-bit size computation wrapped).
\<close>

definition memset_nodes :: "'d HashEnv \<Rightarrow> 'd HashWorld \<Rightarrow> 'd HashWorld option" where
  "memset_nodes env w =
     (let bytes = unat (dwShareMemBytes (hw_tab w)) - sizeof_HashTableHead;
          n = bytes div node_stride (hw_tab w)
      in if sizeof_HashTableHead \<le> unat (dwShareMemBytes (hw_tab w))
            \<and> bytes mod node_stride (hw_tab w) = 0 \<and> n \<le> seg_slots (hw_seg w)
         then Some (w\<lparr>hw_seg := (hw_seg w)\<lparr>
           seg_nodes := (\<lambda>i. if unat i < n then zero_node_head else seg_nodes (hw_seg w) i),
           seg_data := (\<lambda>i. if unat i < n then env_zero env else seg_data (hw_seg w) i)\<rparr>\<rparr>)
         else None)"

definition ResetHashTable :: "'d HashEnv \<Rightarrow> 'd HashWorld \<Rightarrow> 'd HashWorld option" where
  "ResetHashTable env w =
     (if bInitSuccess (hw_tab w) = 0 then Some w
      else (let (start, w) = time_now env w in do {
        r \<leftarrow> wait_lock env start w;
        w \<leftarrow> locked r;
        w \<leftarrow> memset_nodes env w;
        let N = dwRealNodeCount (hw_tab w);
        Some (emit (AttrSpec 239 1) (upd_thead (\<lambda>h. h\<lparr>dwNodeStartIndex := N,
          dwNodeEndIndex := N, dwNodeUseCount := 0, dwLastUseTimeSec := 0,
          bHashUseFlag := 0\<rparr>) w))
      }))"

definition SHARED_HASH_ACCESS_CHECK_FAILED :: "'d HashEnv \<Rightarrow> 'd HashWorld \<Rightarrow> 'd HashWorld option" where
  "SHARED_HASH_ACCESS_CHECK_FAILED env w =
     ResetHashTable env (upd_thead (\<lambda>h. h\<lparr>bHashUseFlag := 0\<rparr>) w)"

definition SHARED_HASH_ASSERT :: "bool \<Rightarrow> 'd HashEnv \<Rightarrow> 'd HashWorld \<Rightarrow> 'd HashWorld option" where
  "SHARED_HASH_ASSERT b env w = (if \<not> b then SHARED_HASH_ACCESS_CHECK_FAILED env w else Some w)"

text \<open>
  The counting loops of \<open>CheckHashTable\<close>. The loop variable is an \<open>int\<close>, so the bounds are
  compared as signed values; a cyclic chain makes the loop run for ever (\<open>None\<close>).
\<close>

partial_function (option) check_walk ::
    "(HashNodeHead \<Rightarrow> u32) \<Rightarrow> 'd HashWorld \<Rightarrow> u32 \<Rightarrow> u32 \<Rightarrow> u32 option" where
  "check_walk nxt w i c =
     (if 0 \<le> sint i \<and> sint i < sint (dwRealNodeCount (hw_tab w))
      then do {
        h \<leftarrow> rdHead w (INDEX_TO_NODE_HEAD (hw_tab w) i);
        if bIsUsed h \<noteq> 0 then check_walk nxt w (nxt h) (c + 1) else Some c
      }
      else Some c)"

definition CheckHashTable :: "'d HashEnv \<Rightarrow> 'd HashWorld \<Rightarrow> (int \<times> 'd HashWorld) option" where
  "CheckHashTable env w =
     (if bInitSuccess (hw_tab w) = 0 then Some (-1, w)
      else (let (start, w) = time_now env w in do {
        r \<leftarrow> wait_lock env start w;
        w \<leftarrow> locked r;
        c \<leftarrow> check_walk dwNodeNextIndex w (dwNodeStartIndex (thead w)) 0;
        if c \<noteq> dwNodeUseCount (thead w)
        then Some (-1, upd_thead (\<lambda>h. h\<lparr>bHashUseFlag := 0\<rparr>) w)
        else do {
          c \<leftarrow> check_walk dwNodePreIndex w (dwNodeEndIndex (thead w)) 0;
          if c \<noteq> dwNodeUseCount (thead w)
          then Some (-2, upd_thead (\<lambda>h. h\<lparr>bHashUseFlag := 0\<rparr>) w)
          else Some (0, upd_thead (\<lambda>h. h\<lparr>bHashUseFlag := 0\<rparr>) w)
        }
      }))"

subsection \<open>Entering and leaving a write\<close>

text \<open>
  The block every writer starts with: when a write process is registered the caller must be
  it (the failed assertion resets the table and the operation goes on); otherwise the flag
  is tried ten times. \<open>False\<close> is the return with code \<open>-33\<close>.
\<close>

definition write_enter :: "'d HashEnv \<Rightarrow> 'd HashWorld \<Rightarrow> (bool \<times> 'd HashWorld) option" where
  "write_enter env w =
     (if dwWriteProcessId (thead w) \<noteq> 0
      then map_option (Pair True)
             (SHARED_HASH_ASSERT (env_pid env = dwWriteProcessId (thead w)) env w)
      else (case try_lock 10 env w of
          (True, w) \<Rightarrow> Some (True, w)
        | (False, w) \<Rightarrow>
            (let (t, w) = time_now env w;
                 w = (if dwLastUseTimeSec (thead w) + 2 < t
                      then upd_thead (\<lambda>h. h\<lparr>bHashUseFlag := 0\<rparr>) w else w)
             in Some (False, emit (AttrSpec 237 1) w))))"

definition write_leave :: "'d HashWorld \<Rightarrow> 'd HashWorld" where
  "write_leave w = upd_thead (\<lambda>h. h\<lparr>bHashUseFlag := 0, dwLastUseTimeSec := 0\<rparr>) w"

end
