(* ===== verification/Hash_Nodes.thy ===== *)
theory Hash_Nodes
  imports Hash_Ops
begin

text \<open>
  The node operations of \<open>language/c_cpp/mt_shared_hash.c\<close>: forward and backward traversal,
  the three insertions and the removal. An argument \<open>pNode\<close> is a node address; an
  operation that returns a node returns its address, \<open>None\<close> being the null pointer. Writes
  happen in the order of the source.
\<close>

subsection \<open>Traversal\<close>

definition GetFirstIndex :: "'d HashWorld \<Rightarrow> u32" where
  "GetFirstIndex w = dwNodeStartIndex (thead w)"

definition GetLastIndex :: "'d HashWorld \<Rightarrow> u32" where
  "GetLastIndex w = dwNodeEndIndex (thead w)"

definition GetCurIndex :: "'d HashWorld \<Rightarrow> u32" where
  "GetCurIndex w = dwCurIndex (hw_tab w)"

definition GetCurIndexRevers :: "'d HashWorld \<Rightarrow> u32" where
  "GetCurIndexRevers w = dwCurIndexRevers (hw_tab w)"

definition GetSharedMemBytes :: "'d HashWorld \<Rightarrow> u32" where
  "GetSharedMemBytes w = dwShareMemBytes (hw_tab w)"

definition MtReport_GetHashTableHead :: "'d HashWorld \<Rightarrow> HashTableHead" where
  "MtReport_GetHashTableHead w = thead w"

definition GetNodeUsed :: "'d HashWorld \<Rightarrow> u32" where
  "GetNodeUsed w = dwNodeUseCount (thead w)"

definition GetNodeTotal :: "'d HashWorld \<Rightarrow> u32" where
  "GetNodeTotal w = dwRealNodeCount (hw_tab w)"

definition IsValidIndex :: "'d HashWorld \<Rightarrow> u32 \<Rightarrow> bool" where
  "IsValidIndex w dwIndex = (dwIndex < dwRealNodeCount (hw_tab w))"

definition GetNextIndex :: "'d HashWorld \<Rightarrow> u32 \<Rightarrow> u32 option" where
  "GetNextIndex w dwIndex =
     (if dwRealNodeCount (hw_tab w) \<le> dwIndex then Some (dwRealNodeCount (hw_tab w))
      else map_option dwNodeNextIndex (rdHead w (INDEX_TO_NODE_HEAD (hw_tab w) dwIndex)))"

text \<open>
  The tail shared by the access-checked readers: with \<open>bAccessCheck\<close> set, the node heads
  \<open>as\<close> must be marked used, else the table is reset and the result is null.
\<close>

fun check_used :: "'d HashEnv \<Rightarrow> nat list \<Rightarrow> nat \<Rightarrow> 'd HashWorld \<Rightarrow> (nat option \<times> 'd HashWorld) option" where
  "check_used env [] pNode w = Some (Some pNode, w)"
| "check_used env (a # as) pNode w = do {
     h \<leftarrow> rdHead w a;
     if bIsUsed h = 0 then map_option (Pair None) (SHARED_HASH_ACCESS_CHECK_FAILED env w)
     else check_used env as pNode w
   }"

definition access_checked ::
    "'d HashEnv \<Rightarrow> nat list \<Rightarrow> nat \<Rightarrow> 'd HashWorld \<Rightarrow> (nat option \<times> 'd HashWorld) option" where
  "access_checked env as pNode w =
     (if bAccessCheck (hw_tab w) \<noteq> 0 then check_used env as pNode w else Some (Some pNode, w))"

definition GetCurNode :: "'d HashEnv \<Rightarrow> 'd HashWorld \<Rightarrow> (nat option \<times> 'd HashWorld) option" where
  "GetCurNode env w =
     (let t = hw_tab w; i = dwCurIndex t in
      if i = dwRealNodeCount t then Some (None, w)
      else if bAccessCheck t \<noteq> 0 then do {
        h \<leftarrow> rdHead w (INDEX_TO_NODE_HEAD t i);
        if bIsUsed h = 0
        then map_option (Pair None) (SHARED_HASH_ACCESS_CHECK_FAILED env
               (upd_tab (\<lambda>t. t\<lparr>dwCurIndex := dwRealNodeCount t\<rparr>) w))
        else Some (Some (INDEX_TO_NODE t i), w)
      }
      else Some (Some (INDEX_TO_NODE t i), w))"

definition GetFirstNode :: "'d HashEnv \<Rightarrow> 'd HashWorld \<Rightarrow> (nat option \<times> 'd HashWorld) option" where
  "GetFirstNode env w =
     (let i = dwNodeStartIndex (thead w);
          w = upd_tab (\<lambda>t. t\<lparr>dwCurIndex := i\<rparr>) w; t = hw_tab w
      in if i = dwRealNodeCount t then Some (None, w)
         else access_checked env [INDEX_TO_NODE_HEAD t i] (INDEX_TO_NODE t i) w)"

definition GetNextNodeByIndex ::
    "'d HashEnv \<Rightarrow> u32 \<Rightarrow> 'd HashWorld \<Rightarrow> (nat option \<times> 'd HashWorld) option" where
  "GetNextNodeByIndex env dwIndex w =
     (let t = hw_tab w; a = INDEX_TO_NODE_HEAD t dwIndex in do {
        h \<leftarrow> rdHead w a;
        let n = dwNodeNextIndex h;
        if n = dwRealNodeCount t then Some (None, w)
        else access_checked env [a, INDEX_TO_NODE_HEAD t n] (INDEX_TO_NODE t n) w
      })"

definition GetNextNodeByNode ::
    "'d HashEnv \<Rightarrow> nat \<Rightarrow> 'd HashWorld \<Rightarrow> (nat option \<times> 'd HashWorld) option" where
  "GetNextNodeByNode env pnode w =
     (let t = hw_tab w; a = NODE_TO_NODE_HEAD pnode in do {
        h \<leftarrow> rdHead w a;
        let n = dwNodeNextIndex h;
        if n = dwRealNodeCount t then Some (None, w)
        else access_checked env [a, INDEX_TO_NODE_HEAD t n] (INDEX_TO_NODE t n) w
      })"

definition GetNextNode :: "'d HashEnv \<Rightarrow> 'd HashWorld \<Rightarrow> (nat option \<times> 'd HashWorld) option" where
  "GetNextNode env w =
     (let t = hw_tab w; a = INDEX_TO_NODE_HEAD t (dwCurIndex t) in
      if dwCurIndex t = dwRealNodeCount t then Some (None, w)
      else do {
        h \<leftarrow> rdHead w a;
        let n = dwNodeNextIndex h;
        let w = upd_tab (\<lambda>t. t\<lparr>dwCurIndex := n\<rparr>) w;
        if n = dwRealNodeCount t then Some (None, w)
        else access_checked env [a, INDEX_TO_NODE_HEAD t n] (INDEX_TO_NODE t n) w
      })"

definition GetCurNodeRevers :: "'d HashEnv \<Rightarrow> 'd HashWorld \<Rightarrow> (nat option \<times> 'd HashWorld) option" where
  "GetCurNodeRevers env w =
     (let t = hw_tab w; i = dwCurIndexRevers t in
      if i = dwRealNodeCount t then Some (None, w)
      else access_checked env [INDEX_TO_NODE_HEAD t i] (INDEX_TO_NODE t i) w)"

definition GetFirstNodeRevers :: "'d HashEnv \<Rightarrow> 'd HashWorld \<Rightarrow> (nat option \<times> 'd HashWorld) option" where
  "GetFirstNodeRevers env w =
     (let i = dwNodeEndIndex (thead w);
          w = upd_tab (\<lambda>t. t\<lparr>dwCurIndexRevers := i\<rparr>) w; t = hw_tab w
      in if i = dwRealNodeCount t then Some (None, w)
         else access_checked env [INDEX_TO_NODE_HEAD t i] (INDEX_TO_NODE t i) w)"

definition GetNextNodeByIndexRevers ::
    "'d HashEnv \<Rightarrow> u32 \<Rightarrow> 'd HashWorld \<Rightarrow> (nat option \<times> 'd HashWorld) option" where
  "GetNextNodeByIndexRevers env dwIndex w =
     (let t = hw_tab w; a = INDEX_TO_NODE_HEAD t dwIndex in do {
        h \<leftarrow> rdHead w a;
        let n = dwNodePreIndex h;
        if n = dwRealNodeCount t then Some (None, w)
        else access_checked env [a, INDEX_TO_NODE_HEAD t n] (INDEX_TO_NODE t n) w
      })"

definition GetNextNodeByNodeRevers ::
    "'d HashEnv \<Rightarrow> nat \<Rightarrow> 'd HashWorld \<Rightarrow> (nat option \<times> 'd HashWorld) option" where
  "GetNextNodeByNodeRevers env pnode w =
     (let t = hw_tab w; a = NODE_TO_NODE_HEAD pnode in do {
        h \<leftarrow> rdHead w a;
        let n = dwNodePreIndex h;
        if n = dwRealNodeCount t then Some (None, w)
        else access_checked env [a, INDEX_TO_NODE_HEAD t n] (INDEX_TO_NODE t n) w
      })"

definition GetNextNodeRevers :: "'d HashEnv \<Rightarrow> 'd HashWorld \<Rightarrow> (nat option \<times> 'd HashWorld) option" where
  "GetNextNodeRevers env w =
     (let t = hw_tab w; a = INDEX_TO_NODE_HEAD t (dwCurIndexRevers t) in
      if dwCurIndexRevers t = dwRealNodeCount t then Some (None, w)
      else do {
        h \<leftarrow> rdHead w a;
        let n = dwNodePreIndex h;
        let w = upd_tab (\<lambda>t. t\<lparr>dwCurIndexRevers := n\<rparr>) w;
        if n = dwRealNodeCount t then Some (None, w)
        else access_checked env [a, INDEX_TO_NODE_HEAD t n] (INDEX_TO_NODE t n) w
      })"

subsection \<open>Insertion\<close>

definition InsertHashNode :: "'d HashEnv \<Rightarrow> nat \<Rightarrow> 'd HashWorld \<Rightarrow> (int \<times> 'd HashWorld) option" where
  "InsertHashNode env pNode w =
     (if bInitSuccess (hw_tab w) = 0 then Some (-1, w)
      else let pNew = NODE_TO_NODE_HEAD pNode; dwNodeIndex = NODE_TO_INDEX (hw_tab w) pNode in do {
        (ok, w) \<leftarrow> write_enter env w;
        if \<not> ok then Some (-33, w)
        else let N = dwRealNodeCount (hw_tab w) in do {
          w \<leftarrow> (if 0 < dwNodeUseCount (thead w)
            then do {
              let w = upd_thead (\<lambda>h. h\<lparr>dwNodeUseCount := dwNodeUseCount h + 1\<rparr>) w;
              w \<leftarrow> updHead (INDEX_TO_NODE_HEAD (hw_tab w) (dwNodeEndIndex (thead w)))
                     (\<lambda>n. n\<lparr>dwNodeNextIndex := dwNodeIndex\<rparr>) w;
              w \<leftarrow> updHead pNew (\<lambda>n. n\<lparr>dwNodePreIndex := dwNodeEndIndex (thead w)\<rparr>) w;
              w \<leftarrow> updHead pNew (\<lambda>n. n\<lparr>dwNodeNextIndex := N\<rparr>) w;
              Some (upd_thead (\<lambda>h. h\<lparr>dwNodeEndIndex := dwNodeIndex\<rparr>) w)
            }
            else do {
              let w = upd_thead (\<lambda>h. h\<lparr>dwNodeUseCount := 1\<rparr>) w;
              w \<leftarrow> updHead pNew (\<lambda>n. n\<lparr>dwNodePreIndex := N\<rparr>) w;
              w \<leftarrow> updHead pNew (\<lambda>n. n\<lparr>dwNodeNextIndex := N\<rparr>) w;
              Some (upd_thead (\<lambda>h. h\<lparr>dwNodeEndIndex := dwNodeIndex, dwNodeStartIndex := dwNodeIndex\<rparr>) w)
            });
          w \<leftarrow> updHead pNew (\<lambda>n. n\<lparr>bIsUsed := 1\<rparr>) w;
          Some (0, write_leave w)
        }
      })"

text \<open>
  The backward scan of \<open>InsertHashNodeSort\<close>: from node head \<open>a\<close> towards the start of the
  list, to the first node that does not compare greater than the new one (\<open>True\<close>), or to
  the head of the list (\<open>False\<close>: \<open>pNodeInsert\<close> is null).
\<close>

partial_function (option) sort_scan ::
    "('d \<Rightarrow> 'd \<Rightarrow> int) \<Rightarrow> 'd \<Rightarrow> 'd HashWorld \<Rightarrow> nat \<Rightarrow> (bool \<times> nat) option" where
  "sort_scan cmp new w a = do {
     d \<leftarrow> rdData w (a + sizeof_HashNodeHead);
     if \<not> (cmp d new > 0) then Some (True, a)
     else do {
       h \<leftarrow> rdHead w a;
       if dwNodePreIndex h = dwRealNodeCount (hw_tab w) then Some (False, a)
       else sort_scan cmp new w (INDEX_TO_NODE_HEAD (hw_tab w) (dwNodePreIndex h))
     }
   }"

text \<open>The consistency failure of \<open>InsertHashNodeSort\<close>: the table is reset twice.\<close>

definition sort_failed :: "'d HashEnv \<Rightarrow> int \<Rightarrow> 'd HashWorld \<Rightarrow> (int \<times> 'd HashWorld) option" where
  "sort_failed env code w = do {
     w \<leftarrow> SHARED_HASH_ASSERT False env w;
     w \<leftarrow> ResetHashTable env (upd_thead (\<lambda>h. h\<lparr>bHashUseFlag := 0\<rparr>) w);
     Some (code, w)
   }"

definition InsertHashNodeSort :: "'d HashEnv \<Rightarrow> nat \<Rightarrow> 'd HashWorld \<Rightarrow> (int \<times> 'd HashWorld) option" where
  "InsertHashNodeSort env pNode w =
     (if bInitSuccess (hw_tab w) = 0 then Some (-1, w)
      else let pNew = NODE_TO_NODE_HEAD pNode; dwNodeIndex = NODE_TO_INDEX (hw_tab w) pNode in do {
        (ok, w) \<leftarrow> write_enter env w;
        if \<not> ok then Some (-33, w)
        else let N = dwRealNodeCount (hw_tab w);
                 finish = (\<lambda>w. do {
                   w \<leftarrow> updHead pNew (\<lambda>n. n\<lparr>bIsUsed := 1\<rparr>) w;
                   Some (0, write_leave w) })
        in if 0 < dwNodeUseCount (thead w)
          then do {
            let w = upd_thead (\<lambda>h. h\<lparr>dwNodeUseCount := dwNodeUseCount h + 1\<rparr>) w;
            cmp \<leftarrow> fun_cmp (hw_tab w);
            new \<leftarrow> rdData w pNode;
            (found, pLast) \<leftarrow> sort_scan cmp new w
              (INDEX_TO_NODE_HEAD (hw_tab w) (dwNodeEndIndex (thead w)));
            last \<leftarrow> rdHead w pLast;
            if \<not> found then
              (if INDEX_TO_NODE_HEAD (hw_tab w) (dwNodeStartIndex (thead w)) \<noteq> pLast
               then sort_failed env (-3) w
               else do {
                 w \<leftarrow> updHead pLast (\<lambda>n. n\<lparr>dwNodePreIndex := dwNodeIndex\<rparr>) w;
                 w \<leftarrow> updHead pNew (\<lambda>n. n\<lparr>dwNodePreIndex := N\<rparr>) w;
                 w \<leftarrow> updHead pNew (\<lambda>n. n\<lparr>dwNodeNextIndex := dwNodeStartIndex (thead w)\<rparr>) w;
                 finish (upd_thead (\<lambda>h. h\<lparr>dwNodeStartIndex := dwNodeIndex\<rparr>) w)
               })
            else if dwNodeNextIndex last = N then
              (if INDEX_TO_NODE_HEAD (hw_tab w) (dwNodeEndIndex (thead w)) \<noteq> pLast
               then sort_failed env (-4) w
               else do {
                 w \<leftarrow> updHead pLast (\<lambda>n. n\<lparr>dwNodeNextIndex := dwNodeIndex\<rparr>) w;
                 w \<leftarrow> updHead pNew (\<lambda>n. n\<lparr>dwNodeNextIndex := N\<rparr>) w;
                 w \<leftarrow> updHead pNew (\<lambda>n. n\<lparr>dwNodePreIndex := dwNodeEndIndex (thead w)\<rparr>) w;
                 finish (upd_thead (\<lambda>h. h\<lparr>dwNodeEndIndex := dwNodeIndex\<rparr>) w)
               })
            else do {
              w \<leftarrow> updHead pNew (\<lambda>n. n\<lparr>dwNodeNextIndex := dwNodeNextIndex last\<rparr>) w;
              w \<leftarrow> updHead pNew (\<lambda>n. n\<lparr>dwNodePreIndex :=
                     NODE_TO_INDEX (hw_tab w) (pLast + sizeof_HashNodeHead)\<rparr>) w;
              last \<leftarrow> rdHead w pLast;
              w \<leftarrow> updHead (INDEX_TO_NODE_HEAD (hw_tab w) (dwNodeNextIndex last))
                     (\<lambda>n. n\<lparr>dwNodePreIndex := dwNodeIndex\<rparr>) w;
              w \<leftarrow> updHead pLast (\<lambda>n. n\<lparr>dwNodeNextIndex := dwNodeIndex\<rparr>) w;
              finish w
            }
          }
          else do {
            let w = upd_thead (\<lambda>h. h\<lparr>dwNodeUseCount := 1\<rparr>) w;
            w \<leftarrow> updHead pNew (\<lambda>n. n\<lparr>dwNodePreIndex := N\<rparr>) w;
            w \<leftarrow> updHead pNew (\<lambda>n. n\<lparr>dwNodeNextIndex := N\<rparr>) w;
            finish (upd_thead (\<lambda>h. h\<lparr>dwNodeEndIndex := dwNodeIndex, dwNodeStartIndex := dwNodeIndex\<rparr>) w)
          }
      })"

definition InsertHashNodeAfter ::
    "'d HashEnv \<Rightarrow> nat \<Rightarrow> u32 \<Rightarrow> 'd HashWorld \<Rightarrow> (int \<times> 'd HashWorld) option" where
  "InsertHashNodeAfter env pNode dwIndex w =
     (if bInitSuccess (hw_tab w) = 0 then Some (-1, w)
      else if dwRealNodeCount (hw_tab w) \<le> dwIndex then Some (-2, w)
      else do {
        (ok, w) \<leftarrow> write_enter env w;
        if \<not> ok then Some (-33, w)
        else let t = hw_tab w; pNew = NODE_TO_NODE_HEAD pNode; pHead = INDEX_TO_NODE_HEAD t dwIndex in do {
          let w = upd_thead (\<lambda>h. h\<lparr>dwNodeUseCount := dwNodeUseCount h + 1\<rparr>) w;
          node \<leftarrow> rdHead w pHead;
          let dwOldNextIndex = dwNodeNextIndex node;
          w \<leftarrow> updHead pNew (\<lambda>n. n\<lparr>dwNodeNextIndex := dwOldNextIndex\<rparr>) w;
          w \<leftarrow> updHead pNew (\<lambda>n. n\<lparr>dwNodePreIndex := dwIndex\<rparr>) w;
          w \<leftarrow> updHead pHead (\<lambda>n. n\<lparr>dwNodeNextIndex := NODE_TO_INDEX t pNode\<rparr>) w;
          w \<leftarrow> (if dwRealNodeCount t \<le> dwOldNextIndex
            then Some (upd_thead (\<lambda>h. h\<lparr>dwNodeEndIndex := dwIndex\<rparr>) w)
            else updHead (INDEX_TO_NODE_HEAD t dwOldNextIndex)
                   (\<lambda>n. n\<lparr>dwNodePreIndex := NODE_TO_INDEX t pNode\<rparr>) w);
          w \<leftarrow> updHead pNew (\<lambda>n. n\<lparr>bIsUsed := 1\<rparr>) w;
          Some (0, write_leave w)
        }
      })"

subsection \<open>Removal\<close>

text \<open>A cursor of the calling process that stands on the node to be removed moves on first.\<close>

definition move_cursors :: "'d HashEnv \<Rightarrow> u32 \<Rightarrow> 'd HashWorld \<Rightarrow> 'd HashWorld option" where
  "move_cursors env dwIndex w = do {
     w \<leftarrow> (if dwCurIndex (hw_tab w) = dwIndex
           then map_option snd (GetNextNode env w) else Some w);
     (if dwCurIndexRevers (hw_tab w) = dwIndex
      then map_option snd (GetNextNodeRevers env w) else Some w)
   }"

definition RemoveHashNode :: "'d HashEnv \<Rightarrow> nat \<Rightarrow> 'd HashWorld \<Rightarrow> (int \<times> 'd HashWorld) option" where
  "RemoveHashNode env pNode w =
     (if bInitSuccess (hw_tab w) = 0 then Some (-1, w)
      else let pHead = NODE_TO_NODE_HEAD pNode in do {
        (ok, w) \<leftarrow> write_enter env w;
        if \<not> ok then Some (-33, w)
        else let dwIndex = NODE_TO_INDEX (hw_tab w) pNode; N = dwRealNodeCount (hw_tab w);
                 finish = (\<lambda>w. do {
                   w \<leftarrow> updHead pHead (\<lambda>n. n\<lparr>bIsUsed := 0, dwNodeNextIndex := N, dwNodePreIndex := N\<rparr>) w;
                   Some (0, write_leave w) });
                 failed = (\<lambda>code w. map_option (Pair code) (SHARED_HASH_ACCESS_CHECK_FAILED env w))
        in do {
          w \<leftarrow> move_cursors env dwIndex w;
          let w = upd_thead (\<lambda>h. h\<lparr>dwNodeUseCount := dwNodeUseCount h - 1\<rparr>) w;
          node \<leftarrow> rdHead w pHead;
          let pPrev = INDEX_TO_NODE_HEAD (hw_tab w) (dwNodePreIndex node);
          let pNext = INDEX_TO_NODE_HEAD (hw_tab w) (dwNodeNextIndex node);
          if dwNodeUseCount (thead w) = 0
          then finish (upd_thead (\<lambda>h. h\<lparr>dwNodeStartIndex := N, dwNodeEndIndex := N\<rparr>) w)
          else if dwNodeNextIndex node = N then do {
            prev \<leftarrow> rdHead w pPrev;
            if bIsUsed prev = 0 then failed (-2) w
            else do {
              w \<leftarrow> updHead pPrev (\<lambda>n. n\<lparr>dwNodeNextIndex := N\<rparr>) w;
              finish (upd_thead (\<lambda>h. h\<lparr>dwNodeEndIndex := dwNodePreIndex node\<rparr>) w)
            }
          }
          else if dwNodePreIndex node = N then do {
            next \<leftarrow> rdHead w pNext;
            if bIsUsed next = 0 then failed (-3) w
            else do {
              w \<leftarrow> updHead pNext (\<lambda>n. n\<lparr>dwNodePreIndex := N\<rparr>) w;
              finish (upd_thead (\<lambda>h. h\<lparr>dwNodeStartIndex := dwNodeNextIndex node\<rparr>) w)
            }
          }
          else do {
            prev \<leftarrow> rdHead w pPrev;
            if bIsUsed prev = 0 then failed (-4) w
            else do {
              next \<leftarrow> rdHead w pNext;
              if bIsUsed next = 0 then failed (-4) w
              else do {
                w \<leftarrow> updHead pPrev (\<lambda>n. n\<lparr>dwNodeNextIndex := dwNodeNextIndex node\<rparr>) w;
                w \<leftarrow> updHead pNext (\<lambda>n. n\<lparr>dwNodePreIndex := dwNodePreIndex node\<rparr>) w;
                finish w
              }
            }
          }
        }
      })"

definition RemoveHashNodeByIndex ::
    "'d HashEnv \<Rightarrow> u32 \<Rightarrow> 'd HashWorld \<Rightarrow> (int \<times> 'd HashWorld) option" where
  "RemoveHashNodeByIndex env dwIndex w =
     (if dwRealNodeCount (hw_tab w) \<le> dwIndex then Some (-101, w)
      else RemoveHashNode env (INDEX_TO_NODE (hw_tab w) dwIndex) w)"

end
