(* ===== verification/Hash_Correct.thy ===== *)
theory Hash_Correct
  imports Hash_Nodes
begin

text \<open>
  Correctness of the node operations. \<open>table_wf w xs\<close> is the representation invariant: the
  process is attached, all nodes lie in the segment, the node heads form the doubly linked
  chain \<open>xs\<close> that the table head describes, and the use counter is the length of \<open>xs\<close>. The
  list \<open>xs\<close> of node indices is the abstract state; each operation is shown to act on it as
  the corresponding list operation does.
\<close>

definition table_wf :: "'d HashWorld \<Rightarrow> u32 list \<Rightarrow> bool" where
  "table_wf w xs \<longleftrightarrow>
     bInitSuccess (hw_tab w) \<noteq> 0 \<and>
     unat (dwRealNodeCount (hw_tab w)) \<le> seg_slots (hw_seg w) \<and>
     dll (seg_nodes (hw_seg w)) (dwRealNodeCount (hw_tab w)) xs \<and>
     dwNodeStartIndex (thead w) = hd_or (dwRealNodeCount (hw_tab w)) xs \<and>
     dwNodeEndIndex (thead w) = last_or (dwRealNodeCount (hw_tab w)) xs \<and>
     unat (dwNodeUseCount (thead w)) = length xs"

text \<open>A caller that gets past the write guard at once.\<close>

definition writable :: "'d HashEnv \<Rightarrow> 'd HashWorld \<Rightarrow> bool" where
  "writable env w \<longleftrightarrow>
     (if dwWriteProcessId (thead w) \<noteq> 0 then env_pid env = dwWriteProcessId (thead w)
      else bHashUseFlag (thead w) = 0)"

text \<open>The cursors of the process point at nodes of the list or at the end mark.\<close>

definition cursors_wf :: "'d HashWorld \<Rightarrow> u32 list \<Rightarrow> bool" where
  "cursors_wf w xs \<longleftrightarrow>
     dwCurIndex (hw_tab w) \<in> insert (dwRealNodeCount (hw_tab w)) (set xs) \<and>
     dwCurIndexRevers (hw_tab w) \<in> insert (dwRealNodeCount (hw_tab w)) (set xs)"

subsection \<open>Accessors\<close>

lemma upd_thead_sel [simp, hash_simps]:
  "hw_tab (upd_thead f w) = hw_tab w" "seg_head (hw_seg (upd_thead f w)) = f (thead w)"
  "seg_nodes (hw_seg (upd_thead f w)) = seg_nodes (hw_seg w)"
  "seg_data (hw_seg (upd_thead f w)) = seg_data (hw_seg w)"
  "seg_slots (hw_seg (upd_thead f w)) = seg_slots (hw_seg w)"
  "hw_tick (upd_thead f w) = hw_tick w" "hw_events (upd_thead f w) = hw_events w"
  by (simp_all add: upd_thead_def)

lemma upd_node_sel [simp, hash_simps]:
  "hw_tab (upd_node i f w) = hw_tab w" "seg_head (hw_seg (upd_node i f w)) = thead w"
  "seg_nodes (hw_seg (upd_node i f w)) = (seg_nodes (hw_seg w))(i := f (seg_nodes (hw_seg w) i))"
  "seg_data (hw_seg (upd_node i f w)) = seg_data (hw_seg w)"
  "seg_slots (hw_seg (upd_node i f w)) = seg_slots (hw_seg w)"
  "hw_tick (upd_node i f w) = hw_tick w" "hw_events (upd_node i f w) = hw_events w"
  by (simp_all add: upd_node_def)

lemma upd_tab_sel [simp, hash_simps]:
  "hw_tab (upd_tab f w) = f (hw_tab w)" "hw_seg (upd_tab f w) = hw_seg w"
  "hw_tick (upd_tab f w) = hw_tick w" "hw_events (upd_tab f w) = hw_events w"
  by (simp_all add: upd_tab_def)

lemma emit_sel [simp, hash_simps]:
  "hw_tab (emit e w) = hw_tab w" "hw_seg (emit e w) = hw_seg w"
  "hw_tick (emit e w) = hw_tick w" "hw_events (emit e w) = hw_events w @ [e]"
  by (simp_all add: emit_def)

lemma write_leave_sel [simp, hash_simps]:
  "hw_tab (write_leave w) = hw_tab w"
  "seg_head (hw_seg (write_leave w)) = (thead w)\<lparr>bHashUseFlag := 0, dwLastUseTimeSec := 0\<rparr>"
  "seg_nodes (hw_seg (write_leave w)) = seg_nodes (hw_seg w)"
  "seg_data (hw_seg (write_leave w)) = seg_data (hw_seg w)"
  "seg_slots (hw_seg (write_leave w)) = seg_slots (hw_seg w)"
  "hw_tick (write_leave w) = hw_tick w" "hw_events (write_leave w) = hw_events w"
  by (simp_all add: write_leave_def)

lemma macros_cursor [simp, hash_simps]:
  "INDEX_TO_NODE_HEAD (t\<lparr>dwCurIndex := x\<rparr>) = INDEX_TO_NODE_HEAD t"
  "INDEX_TO_NODE_HEAD (t\<lparr>dwCurIndexRevers := x\<rparr>) = INDEX_TO_NODE_HEAD t"
  "INDEX_TO_NODE (t\<lparr>dwCurIndex := x\<rparr>) = INDEX_TO_NODE t"
  "INDEX_TO_NODE (t\<lparr>dwCurIndexRevers := x\<rparr>) = INDEX_TO_NODE t"
  "NODE_TO_INDEX (t\<lparr>dwCurIndex := x\<rparr>) = NODE_TO_INDEX t"
  "NODE_TO_INDEX (t\<lparr>dwCurIndexRevers := x\<rparr>) = NODE_TO_INDEX t"
  "slot_of (t\<lparr>dwCurIndex := x\<rparr>) = slot_of t"
  "slot_of (t\<lparr>dwCurIndexRevers := x\<rparr>) = slot_of t"
  by (rule macros_cong; simp)+

lemma rdHead_INDEX [simp, hash_simps]:
  assumes "slot_of (hw_tab w) = slot_of t" "unat i < seg_slots (hw_seg w)"
  shows "rdHead w (INDEX_TO_NODE_HEAD t i) = Some (seg_nodes (hw_seg w) i)"
  using assms by (simp add: rdHead_def)

lemma updHead_INDEX [simp, hash_simps]:
  assumes "slot_of (hw_tab w) = slot_of t" "unat i < seg_slots (hw_seg w)"
  shows "updHead (INDEX_TO_NODE_HEAD t i) f w = Some (upd_node i f w)"
  using assms by (simp add: updHead_def)

lemma rdData_INDEX [simp, hash_simps]:
  assumes "slot_of (hw_tab w) = slot_of t" "unat i < seg_slots (hw_seg w)"
  shows "rdData w (INDEX_TO_NODE t i) = Some (seg_data (hw_seg w) i)"
  using assms by (simp add: rdData_def)

lemma rdData_INDEX_HEAD [simp, hash_simps]:
  assumes "slot_of (hw_tab w) = slot_of t" "unat i < seg_slots (hw_seg w)"
  shows "rdData w (INDEX_TO_NODE_HEAD t i + sizeof_HashNodeHead) = Some (seg_data (hw_seg w) i)"
  using assms by (simp add: INDEX_TO_NODE_eq_head [symmetric])

lemma NODE_TO_INDEX_HEAD [simp, hash_simps]:
  "NODE_TO_INDEX t (INDEX_TO_NODE_HEAD t i + sizeof_HashNodeHead) = i"
  by (simp add: INDEX_TO_NODE_eq_head [symmetric])

subsection \<open>The write guard\<close>

text \<open>The state in which a writer that passed the guard goes on.\<close>

definition entered :: "'d HashEnv \<Rightarrow> 'd HashWorld \<Rightarrow> 'd HashWorld" where
  "entered env w =
     (if dwWriteProcessId (thead w) \<noteq> 0 then w
      else upd_thead (\<lambda>h. h\<lparr>bHashUseFlag := 1, dwLastUseTimeSec := env_time env (hw_tick w)\<rparr>)
             (w\<lparr>hw_tick := Suc (hw_tick w)\<rparr>))"

lemma try_lock_free:
  assumes "bHashUseFlag (thead w) = 0" "0 < n"
  shows "try_lock n env w = (True,
    upd_thead (\<lambda>h. h\<lparr>bHashUseFlag := 1, dwLastUseTimeSec := env_time env (hw_tick w)\<rparr>)
      (w\<lparr>hw_tick := Suc (hw_tick w)\<rparr>))"
  using assms by (cases n) (auto simp: time_now_def upd_thead_def)

lemma write_enter_writable: "writable env w \<Longrightarrow> write_enter env w = Some (True, entered env w)"
  by (auto simp: writable_def write_enter_def entered_def SHARED_HASH_ASSERT_def try_lock_free
      split: if_splits)

lemma entered_sel [simp, hash_simps]:
  "hw_tab (entered env w) = hw_tab w"
  "seg_nodes (hw_seg (entered env w)) = seg_nodes (hw_seg w)"
  "seg_data (hw_seg (entered env w)) = seg_data (hw_seg w)"
  "seg_slots (hw_seg (entered env w)) = seg_slots (hw_seg w)"
  "hw_events (entered env w) = hw_events w"
  "dwNodeStartIndex (seg_head (hw_seg (entered env w))) = dwNodeStartIndex (thead w)"
  "dwWriteProcessId (seg_head (hw_seg (entered env w))) = dwWriteProcessId (thead w)"
  "dwNodeEndIndex (seg_head (hw_seg (entered env w))) = dwNodeEndIndex (thead w)"
  "dwNodeUseCount (seg_head (hw_seg (entered env w))) = dwNodeUseCount (thead w)"
  by (simp_all add: entered_def)

subsection \<open>Insertion at the end\<close>

lemma table_wf_bound:
  assumes "table_wf w xs" "i < dwRealNodeCount (hw_tab w)"
  shows "unat i < seg_slots (hw_seg w)"
  using assms by (auto simp: table_wf_def word_less_nat_alt)

lemma table_wf_bound_set:
  assumes "table_wf w xs" "i \<in> set xs"
  shows "unat i < seg_slots (hw_seg w)" "i < dwRealNodeCount (hw_tab w)"
  using assms table_wf_bound by (auto simp: table_wf_def dest: dll_range)

lemma unat_succ_count:
  assumes "unat u = n" "n < unat (N :: 'a::len word)"
  shows "unat (u + 1 :: 'a word) = Suc n"
proof -
  have "Suc n < 2 ^ LENGTH('a)" using assms unsigned_less [of N, where 'a = nat] by linarith
  then show ?thesis using assms by (simp add: unat_word_ariths)
qed

lemma InsertHashNode_dll:
  assumes wf: "table_wf w xs" and ok: "writable env w"
    and i: "i < dwRealNodeCount (hw_tab w)" "i \<notin> set xs"
  shows "\<exists>w'. InsertHashNode env (INDEX_TO_NODE (hw_tab w) i) w = Some (0, w') \<and>
    table_wf w' (xs @ [i]) \<and> hw_tab w' = hw_tab w \<and>
    seg_data (hw_seg w') = seg_data (hw_seg w) \<and> bHashUseFlag (thead w') = 0"
proof (cases "xs = []")
  case True
  have slot: "unat i < seg_slots (hw_seg w)" using table_wf_bound [OF wf i(1)] .
  have "dwNodeUseCount (thead w) = 0" using wf True by (simp add: table_wf_def unat_eq_0)
  then show ?thesis
    using wf slot True i
    by (auto simp: InsertHashNode_def write_enter_writable [OF ok] table_wf_def Let_def
        intro!: dll_link [where as = "[]" and bs = "[]", simplified])
next
  case False
  have slot: "unat i < seg_slots (hw_seg w)" using table_wf_bound [OF wf i(1)] .
  have slot_last: "unat (last xs) < seg_slots (hw_seg w)"
    using table_wf_bound_set [OF wf] False by simp
  have "0 < dwNodeUseCount (thead w)"
    using wf False by (auto simp: table_wf_def word_gt_0 unat_eq_0)
  moreover have "last_or N xs = last xs" for N using False by (simp add: last_or_def)
  moreover have "last xs \<noteq> i" using i False by auto
  moreover have "unat (dwNodeUseCount (thead w) + 1) = Suc (length xs)"
    using wf i by (intro unat_succ_count dll_length_free) (auto simp: table_wf_def)
  ultimately show ?thesis
    using wf slot slot_last i False
    by (auto simp: InsertHashNode_def write_enter_writable [OF ok] table_wf_def Let_def hd_or_def
        intro!: dll_link [where bs = "[]", simplified])
qed

subsection \<open>Sorted insertion\<close>

text \<open>
  Where \<open>InsertHashNodeSort\<close> puts a node: behind the last element that does not compare
  greater than it.
\<close>

definition sort_before :: "('d \<Rightarrow> 'd \<Rightarrow> int) \<Rightarrow> (u32 \<Rightarrow> 'd) \<Rightarrow> u32 \<Rightarrow> u32 list \<Rightarrow> u32 list" where
  "sort_before cmp f i xs = rev (dropWhile (\<lambda>j. cmp (f j) (f i) > 0) (rev xs))"

definition sort_after :: "('d \<Rightarrow> 'd \<Rightarrow> int) \<Rightarrow> (u32 \<Rightarrow> 'd) \<Rightarrow> u32 \<Rightarrow> u32 list \<Rightarrow> u32 list" where
  "sort_after cmp f i xs = rev (takeWhile (\<lambda>j. cmp (f j) (f i) > 0) (rev xs))"

lemma sort_before_after: "sort_before cmp f i xs @ sort_after cmp f i xs = xs"
  by (simp add: sort_before_def sort_after_def flip: rev_append)

lemma sort_scan_list:
  assumes "dll (seg_nodes (hw_seg w)) (dwRealNodeCount (hw_tab w)) (zs @ ys)" "zs \<noteq> []"
    and "unat (dwRealNodeCount (hw_tab w)) \<le> seg_slots (hw_seg w)"
  shows "sort_scan cmp (seg_data (hw_seg w) i) w (INDEX_TO_NODE_HEAD (hw_tab w) (last zs)) =
    (let as = sort_before cmp (seg_data (hw_seg w)) i zs in
     Some (if as = [] then (False, INDEX_TO_NODE_HEAD (hw_tab w) (hd zs))
           else (True, INDEX_TO_NODE_HEAD (hw_tab w) (last as))))"
  using assms
proof (induction zs arbitrary: ys rule: rev_induct)
  case Nil
  then show ?case by simp
next
  case (snoc z zs)
  note sp = dll_split [of "seg_nodes (hw_seg w)" "dwRealNodeCount (hw_tab w)" zs z ys]
  have slot: "unat z < seg_slots (hw_seg w)"
    using sp(4) snoc.prems by (simp add: word_less_nat_alt)
  show ?case
  proof (cases "cmp (seg_data (hw_seg w) z) (seg_data (hw_seg w) i) > 0")
    case False
    then show ?thesis
      using slot by (simp add: sort_scan.simps sort_before_def)
  next
    case True
    show ?thesis
    proof (cases "zs = []")
      case True
      then show ?thesis
        using slot sp(2) snoc.prems \<open>cmp _ _ > 0\<close> by (simp add: sort_scan.simps sort_before_def)
    next
      case False
      have "last zs < dwRealNodeCount (hw_tab w)"
        using snoc.prems(1) False by (auto simp: dll_def)
      moreover have "dwNodePreIndex (seg_nodes (hw_seg w) z) = last zs"
        using sp(2) snoc.prems(1) False by (simp add: last_or_def)
      ultimately have "sort_scan cmp (seg_data (hw_seg w) i) w (INDEX_TO_NODE_HEAD (hw_tab w) z)
          = sort_scan cmp (seg_data (hw_seg w) i) w (INDEX_TO_NODE_HEAD (hw_tab w) (last zs))"
        using slot True by (subst sort_scan.simps) auto
      also have "\<dots> = (let as = sort_before cmp (seg_data (hw_seg w)) i zs in
          Some (if as = [] then (False, INDEX_TO_NODE_HEAD (hw_tab w) (hd zs))
                else (True, INDEX_TO_NODE_HEAD (hw_tab w) (last as))))"
        using snoc.prems False by (intro snoc.IH [of "z # ys"]) auto
      finally show ?thesis using True False by (simp add: sort_before_def)
    qed
  qed
qed

lemma InsertHashNodeSort_empty:
  assumes wf: "table_wf w []" and ok: "writable env w" and i: "i < dwRealNodeCount (hw_tab w)"
  shows "\<exists>w'. InsertHashNodeSort env (INDEX_TO_NODE (hw_tab w) i) w = Some (0, w') \<and>
    table_wf w' [i] \<and> hw_tab w' = hw_tab w \<and>
    seg_data (hw_seg w') = seg_data (hw_seg w) \<and> bHashUseFlag (thead w') = 0"
proof -
  have slot: "unat i < seg_slots (hw_seg w)" using table_wf_bound [OF wf i] .
  have "dwNodeUseCount (thead w) = 0" using wf by (simp add: table_wf_def unat_eq_0)
  then show ?thesis
    using wf slot i
    by (auto simp: InsertHashNodeSort_def write_enter_writable [OF ok] table_wf_def Let_def
        intro!: dll_link [where as = "[]" and bs = "[]", simplified])
qed

lemma InsertHashNodeSort_nonempty:
  assumes wf: "table_wf w (as @ bs)" and ne: "as @ bs \<noteq> []" and ok: "writable env w"
    and i: "i < dwRealNodeCount (hw_tab w)" "i \<notin> set (as @ bs)"
    and cmp: "fun_cmp (hw_tab w) = Some cmp"
    and as: "as = sort_before cmp (seg_data (hw_seg w)) i (as @ bs)"
  shows "\<exists>w'. InsertHashNodeSort env (INDEX_TO_NODE (hw_tab w) i) w = Some (0, w') \<and>
    table_wf w' (as @ i # bs) \<and> hw_tab w' = hw_tab w \<and>
    seg_data (hw_seg w') = seg_data (hw_seg w) \<and> bHashUseFlag (thead w') = 0"
proof -
  let ?N = "dwRealNodeCount (hw_tab w)" and ?h = "seg_nodes (hw_seg w)"
  let ?w = "upd_thead (\<lambda>h. h\<lparr>dwNodeUseCount := dwNodeUseCount h + 1\<rparr>) (entered env w)"
  have slot: "unat i < seg_slots (hw_seg w)" using table_wf_bound [OF wf i(1)] .
  have slots: "unat x < seg_slots (hw_seg w)" if "x \<in> set (as @ bs)" for x
    using table_wf_bound_set [OF wf that] by simp
  have dll: "dll ?h ?N (as @ bs)" and le: "unat ?N \<le> seg_slots (hw_seg w)"
    and st: "dwNodeStartIndex (thead w) = hd_or ?N (as @ bs)"
    and en: "dwNodeEndIndex (thead w) = last (as @ bs)"
    using wf ne by (auto simp: table_wf_def last_or_def)
  have use: "0 < dwNodeUseCount (thead w)"
    using wf ne by (auto simp: table_wf_def word_gt_0 unat_eq_0)
  have use': "unat (dwNodeUseCount (thead w) + 1) = Suc (length (as @ bs))"
    using wf i by (intro unat_succ_count dll_length_free) (auto simp: table_wf_def)
  have scan: "sort_scan cmp (seg_data (hw_seg w) i) ?w (INDEX_TO_NODE_HEAD (hw_tab w) (last (as @ bs))) =
      Some (if as = [] then (False, INDEX_TO_NODE_HEAD (hw_tab w) (hd (as @ bs)))
            else (True, INDEX_TO_NODE_HEAD (hw_tab w) (last as)))"
    using sort_scan_list [of ?w "as @ bs" "[]" cmp i] dll ne le as by (simp add: Let_def)
  note nxt = dll_next_last [OF dll]
  consider (at_head) "as = []" "bs \<noteq> []" | (at_tail) "as \<noteq> []" "bs = []"
    | (inside) "as \<noteq> []" "bs \<noteq> []" using ne by auto
  then show ?thesis
  proof cases
    case at_head
    then show ?thesis
      using scan use use' st en slot slots [of "hd bs"] i le wf cmp dll
      by (auto simp: InsertHashNodeSort_def write_enter_writable [OF ok] table_wf_def Let_def hd_or_def
          last_or_def intro!: dll_link [where as = "[]", simplified])
  next
    case at_tail
    then show ?thesis
      using scan use use' st en slot slots [of "last as"] i le wf cmp dll nxt
      by (auto simp: InsertHashNodeSort_def write_enter_writable [OF ok] table_wf_def Let_def
          hd_or_def last_or_def intro!: dll_link [where bs = "[]", simplified])
  next
    case inside
    have "hd bs \<noteq> ?N" using dll_range [OF dll, of "hd bs"] inside by auto
    moreover have "last as \<noteq> hd bs"
      using dll inside by (auto simp: dll_def dest: last_in_set)
    ultimately show ?thesis
      using inside scan use use' st en slot slots [of "last as"] slots [of "hd bs"] i le wf cmp dll nxt
      by (auto simp: InsertHashNodeSort_def write_enter_writable [OF ok] table_wf_def Let_def
          hd_or_def last_or_def intro!: dll_link)
  qed
qed

text \<open>Both cases together, and that a sorted list stays sorted.\<close>

lemma InsertHashNodeSort_dll:
  assumes wf: "table_wf w xs" and ok: "writable env w"
    and i: "i < dwRealNodeCount (hw_tab w)" "i \<notin> set xs"
    and cmp: "fun_cmp (hw_tab w) = Some cmp"
  shows "\<exists>w'. InsertHashNodeSort env (INDEX_TO_NODE (hw_tab w) i) w = Some (0, w') \<and>
    table_wf w' (sort_before cmp (seg_data (hw_seg w)) i xs @ i # sort_after cmp (seg_data (hw_seg w)) i xs) \<and>
    hw_tab w' = hw_tab w \<and> seg_data (hw_seg w') = seg_data (hw_seg w) \<and> bHashUseFlag (thead w') = 0"
proof (cases "xs = []")
  case True
  then show ?thesis
    using InsertHashNodeSort_empty [OF wf [unfolded True] ok i(1)]
    by (simp add: sort_before_def sort_after_def)
next
  case False
  show ?thesis
    using InsertHashNodeSort_nonempty [where as = "sort_before cmp (seg_data (hw_seg w)) i xs"
        and bs = "sort_after cmp (seg_data (hw_seg w)) i xs", unfolded sort_before_after,
        OF wf False ok i cmp refl] .
qed

lemma sort_insert_sorted:
  fixes key :: "'d \<Rightarrow> 'k::linorder"
  assumes cmp: "\<And>a b. cmp a b > 0 \<longleftrightarrow> key b < key a"
    and srt: "sorted (map (key \<circ> f) xs)"
  shows "sorted (map (key \<circ> f) (sort_before cmp f i xs @ i # sort_after cmp f i xs))"
proof -
  let ?as = "sort_before cmp f i xs" and ?bs = "sort_after cmp f i xs"
  have srt': "sorted (map (key \<circ> f) (?as @ ?bs))" using srt by (simp add: sort_before_after)
  have after: "key (f i) < key (f b)" if "b \<in> set ?bs" for b
    using that cmp by (auto simp: sort_after_def dest: set_takeWhileD)
  have before: "key (f a) \<le> key (f i)" if a: "a \<in> set ?as" for a
  proof -
    obtain us v where uv: "?as = us @ [v]" using a by (cases ?as rule: rev_cases) auto
    then have "dropWhile (\<lambda>j. cmp (f j) (f i) > 0) (rev xs) = v # rev us"
      by (simp add: sort_before_def rev_swap)
    then have "\<not> cmp (f v) (f i) > 0"
      using hd_dropWhile [of "\<lambda>j. cmp (f j) (f i) > 0" "rev xs"] by simp
    then have "key (f v) \<le> key (f i)" using cmp by (simp add: not_less)
    moreover have "key (f a) \<le> key (f v)"
      using srt' a unfolding uv by (auto simp: sorted_append)
    ultimately show ?thesis by simp
  qed
  show ?thesis
    using srt' after before by (fastforce simp: sorted_append less_imp_le)
qed

end
