(* ===== verification/Hash_Walk.thy ===== *)
theory Hash_Walk
  imports Hash_Correct
begin

text \<open>
  The remaining operations on a well-formed table: insertion behind a given node, removal,
  the two traversals, the consistency check and the reset.
\<close>

subsection \<open>Insertion behind a node\<close>

lemma InsertHashNodeAfter_inner:
  assumes wf: "table_wf w (as @ x # y # bs)" and ok: "writable env w"
    and i: "i < dwRealNodeCount (hw_tab w)" "i \<notin> set (as @ x # y # bs)"
  shows "\<exists>w'. InsertHashNodeAfter env (INDEX_TO_NODE (hw_tab w) i) x w = Some (0, w') \<and>
    table_wf w' (as @ x # i # y # bs) \<and> hw_tab w' = hw_tab w \<and>
    seg_data (hw_seg w') = seg_data (hw_seg w) \<and> bHashUseFlag (thead w') = 0"
proof -
  let ?N = "dwRealNodeCount (hw_tab w)" and ?h = "seg_nodes (hw_seg w)"
  have slot: "unat i < seg_slots (hw_seg w)" using table_wf_bound [OF wf i(1)] .
  have sx: "unat x < seg_slots (hw_seg w)" "x < ?N" and sy: "unat y < seg_slots (hw_seg w)" "y < ?N"
    using table_wf_bound_set [OF wf] by auto
  have dll: "dll ?h ?N ((as @ [x]) @ y # bs)" using wf by (simp add: table_wf_def)
  have nxt: "dwNodeNextIndex (?h x) = y" using dll_next_last [OF dll] by simp
  have use': "unat (dwNodeUseCount (thead w) + 1) = Suc (length (as @ x # y # bs))"
    using wf i by (intro unat_succ_count dll_length_free) (auto simp: table_wf_def)
  have ne: "x \<noteq> y" "i \<noteq> x" "i \<noteq> y" using dll i by (auto simp: dll_def)
  have "dll (?h(x := (?h x)\<lparr>dwNodeNextIndex := i\<rparr>, y := (?h y)\<lparr>dwNodePreIndex := i\<rparr>,
      i := (?h i)\<lparr>dwNodeNextIndex := y, dwNodePreIndex := x, bIsUsed := 1\<rparr>)) ?N ((as @ [x]) @ i # y # bs)"
    using i ne by (intro dll_link [OF dll]) auto
  then show ?thesis
    using slot sx sy nxt use' i wf ne unfolding not_le [symmetric]
    by (simp add: InsertHashNodeAfter_def write_enter_writable [OF ok] table_wf_def Let_def fun_upd_twist)
qed

lemma InsertHashNodeAfter_tail:
  assumes wf: "table_wf w (as @ [x])" and ok: "writable env w"
    and i: "i < dwRealNodeCount (hw_tab w)" "i \<notin> set (as @ [x])"
  shows "\<exists>w'. InsertHashNodeAfter env (INDEX_TO_NODE (hw_tab w) i) x w = Some (0, w') \<and>
    dll (seg_nodes (hw_seg w')) (dwRealNodeCount (hw_tab w)) (as @ [x, i]) \<and>
    hw_tab w' = hw_tab w \<and> seg_slots (hw_seg w') = seg_slots (hw_seg w) \<and>
    dwNodeStartIndex (thead w') = dwNodeStartIndex (thead w) \<and>
    dwNodeEndIndex (thead w') = x \<and> bHashUseFlag (thead w') = 0 \<and>
    unat (dwNodeUseCount (thead w')) = Suc (length (as @ [x]))"
proof -
  let ?N = "dwRealNodeCount (hw_tab w)" and ?h = "seg_nodes (hw_seg w)"
  have slot: "unat i < seg_slots (hw_seg w)" using table_wf_bound [OF wf i(1)] .
  have sx: "unat x < seg_slots (hw_seg w)" "x < ?N"
    using table_wf_bound_set [OF wf] by auto
  have dll: "dll ?h ?N (as @ [x])" using wf by (simp add: table_wf_def)
  have nxt: "dwNodeNextIndex (?h x) = ?N" using dll_next_last [of ?h ?N "as @ [x]" "[]"] dll by simp
  have use': "unat (dwNodeUseCount (thead w) + 1) = Suc (length (as @ [x]))"
    using wf i by (intro unat_succ_count dll_length_free) (auto simp: table_wf_def)
  have ne: "i \<noteq> x" using i by auto
  have "dll (?h(x := (?h x)\<lparr>dwNodeNextIndex := i\<rparr>,
      i := (?h i)\<lparr>dwNodeNextIndex := ?N, dwNodePreIndex := x, bIsUsed := 1\<rparr>)) ?N ((as @ [x]) @ i # [])"
    using i ne dll by (intro dll_link) auto
  then show ?thesis
    using slot sx nxt i wf ne use' unfolding not_le [symmetric]
    by (simp add: InsertHashNodeAfter_def write_enter_writable [OF ok] table_wf_def Let_def fun_upd_twist)
qed

subsection \<open>Removal\<close>

text \<open>
  Moving a cursor off the node that is removed: on a well-formed table the access checks of
  the traversal functions succeed, so the cursor steps to the neighbour and nothing else
  changes.
\<close>

lemma check_used_ok:
  assumes "\<And>a. a \<in> set as \<Longrightarrow> \<exists>h. rdHead w a = Some h \<and> bIsUsed h \<noteq> 0"
  shows "access_checked env as p w = Some (Some p, w)"
proof -
  have "check_used env as p w = Some (Some p, w)"
    using assms
  proof (induction as)
    case (Cons a as)
    then obtain h where "rdHead w a = Some h" "bIsUsed h \<noteq> 0" by (meson list.set_intros(1))
    with Cons show ?case by simp
  qed simp
  then show ?thesis by (simp add: access_checked_def)
qed

lemma GetNextNode_dll:
  assumes wf: "dll (seg_nodes (hw_seg w)) (dwRealNodeCount (hw_tab w)) (as @ x # bs)"
    and le: "unat (dwRealNodeCount (hw_tab w)) \<le> seg_slots (hw_seg w)"
    and cur: "dwCurIndex (hw_tab w) = x"
  shows "GetNextNode env w =
    Some (if bs = [] then None else Some (INDEX_TO_NODE (hw_tab w) (hd bs)),
      upd_tab (\<lambda>t. t\<lparr>dwCurIndex := hd_or (dwRealNodeCount (hw_tab w)) bs\<rparr>) w)"
proof -
  let ?N = "dwRealNodeCount (hw_tab w)"
  note sp = dll_split [OF wf]
  have sx: "unat x < seg_slots (hw_seg w)" using sp(4) le by (simp add: word_less_nat_alt)
  show ?thesis
  proof (cases bs)
    case Nil
    then show ?thesis using sp sx cur by (auto simp: GetNextNode_def Let_def)
  next
    case (Cons y ys)
    have y: "y < ?N" "bIsUsed (seg_nodes (hw_seg w) y) \<noteq> 0"
      using wf Cons by (auto simp: dll_def)
    then have "unat y < seg_slots (hw_seg w)" using le by (simp add: word_less_nat_alt)
    then show ?thesis
      using sp sx y cur Cons
      by (auto simp: GetNextNode_def Let_def intro!: check_used_ok)
  qed
qed

lemma GetNextNodeRevers_dll:
  assumes wf: "dll (seg_nodes (hw_seg w)) (dwRealNodeCount (hw_tab w)) (as @ x # bs)"
    and le: "unat (dwRealNodeCount (hw_tab w)) \<le> seg_slots (hw_seg w)"
    and cur: "dwCurIndexRevers (hw_tab w) = x"
  shows "GetNextNodeRevers env w =
    Some (if as = [] then None else Some (INDEX_TO_NODE (hw_tab w) (last as)),
      upd_tab (\<lambda>t. t\<lparr>dwCurIndexRevers := last_or (dwRealNodeCount (hw_tab w)) as\<rparr>) w)"
proof -
  let ?N = "dwRealNodeCount (hw_tab w)"
  note sp = dll_split [OF wf]
  have sx: "unat x < seg_slots (hw_seg w)" using sp(4) le by (simp add: word_less_nat_alt)
  show ?thesis
  proof (cases as rule: rev_cases)
    case Nil
    then show ?thesis using sp sx cur by (auto simp: GetNextNodeRevers_def Let_def)
  next
    case (snoc ys y)
    have y: "y < ?N" "bIsUsed (seg_nodes (hw_seg w) y) \<noteq> 0"
      using wf snoc by (auto simp: dll_def)
    then have "unat y < seg_slots (hw_seg w)" using le by (simp add: word_less_nat_alt)
    then show ?thesis
      using sp sx y cur snoc
      by (auto simp: GetNextNodeRevers_def Let_def intro!: check_used_ok)
  qed
qed

definition moved :: "u32 list \<Rightarrow> u32 \<Rightarrow> u32 list \<Rightarrow> 'd SharedHashTable \<Rightarrow> 'd SharedHashTable" where
  "moved as i bs t = t\<lparr>
     dwCurIndex := (if dwCurIndex t = i then hd_or (dwRealNodeCount t) bs else dwCurIndex t),
     dwCurIndexRevers :=
       (if dwCurIndexRevers t = i then last_or (dwRealNodeCount t) as else dwCurIndexRevers t)\<rparr>"

lemma moved_sel [simp]:
  "dwRealNodeCount (moved as i bs t) = dwRealNodeCount t"
  "bInitSuccess (moved as i bs t) = bInitSuccess t"
  "INDEX_TO_NODE_HEAD (moved as i bs t) = INDEX_TO_NODE_HEAD t"
  "slot_of (moved as i bs t) = slot_of t"
  by (simp_all add: moved_def)

lemma move_cursors_dll:
  assumes "dll (seg_nodes (hw_seg w)) (dwRealNodeCount (hw_tab w)) (as @ i # bs)"
    and "unat (dwRealNodeCount (hw_tab w)) \<le> seg_slots (hw_seg w)"
  shows "move_cursors env i w = Some (upd_tab (moved as i bs) w)"
proof -
  let ?w = "upd_tab (\<lambda>t. t\<lparr>dwCurIndex :=
    (if dwCurIndex t = i then hd_or (dwRealNodeCount t) bs else dwCurIndex t)\<rparr>) w"
  have "(if dwCurIndex (hw_tab w) = i then map_option snd (GetNextNode env w) else Some w) = Some ?w"
    using GetNextNode_dll [OF assms] by (auto simp: upd_tab_def)
  moreover have "(if dwCurIndexRevers (hw_tab ?w) = i
      then map_option snd (GetNextNodeRevers env ?w) else Some ?w) = Some (upd_tab (moved as i bs) w)"
    using GetNextNodeRevers_dll [of ?w as i bs env] assms by (auto simp: upd_tab_def moved_def)
  ultimately show ?thesis unfolding move_cursors_def by simp
qed

lemma RemoveHashNode_dll:
  assumes wf: "table_wf w (as @ i # bs)" and ok: "writable env w"
  shows "\<exists>w'. RemoveHashNode env (INDEX_TO_NODE (hw_tab w) i) w = Some (0, w') \<and>
    table_wf w' (as @ bs) \<and> hw_tab w' = moved as i bs (hw_tab w) \<and>
    seg_data (hw_seg w') = seg_data (hw_seg w) \<and> bHashUseFlag (thead w') = 0 \<and>
    dwWriteProcessId (thead w') = dwWriteProcessId (thead w) \<and> hw_events w' = hw_events w"
proof -
  let ?N = "dwRealNodeCount (hw_tab w)" and ?h = "seg_nodes (hw_seg w)"
  have dll: "dll ?h ?N (as @ i # bs)" and le: "unat ?N \<le> seg_slots (hw_seg w)"
    and init: "bInitSuccess (hw_tab w) \<noteq> 0"
    and st: "dwNodeStartIndex (thead w) = hd_or ?N (as @ i # bs)"
    and en: "dwNodeEndIndex (thead w) = last_or ?N (as @ i # bs)"
    and use: "unat (dwNodeUseCount (thead w)) = Suc (length (as @ bs))"
    using wf by (auto simp: table_wf_def)
  note sp = dll_split [OF dll]
  have slots: "unat x < seg_slots (hw_seg w)" if "x \<in> set (as @ i # bs)" for x
    using table_wf_bound_set [OF wf that] by simp
  have used: "bIsUsed (?h x) \<noteq> 0" "x < ?N" if "x \<in> set (as @ i # bs)" for x
    using dll that by (auto simp: dll_def)
  have cur: "move_cursors env i (entered env w) = Some (upd_tab (moved as i bs) (entered env w))"
    using dll le by (intro move_cursors_dll) auto
  have use': "unat (dwNodeUseCount (thead w) - 1) = length (as @ bs)"
    using use by (subst unat_minus_one) auto
  have zero: "dwNodeUseCount (thead w) - 1 = 0 \<longleftrightarrow> as @ bs = []"
    using use' by (metis length_0_conv unat_eq_zero)
  let ?off = "(?h i)\<lparr>bIsUsed := 0, dwNodeNextIndex := ?N, dwNodePreIndex := ?N\<rparr>"
  note defs = RemoveHashNode_def write_enter_writable [OF ok] table_wf_def Let_def cur
  consider (only) "as = []" "bs = []" | (tail) "as \<noteq> []" "bs = []"
    | (front) "as = []" "bs \<noteq> []" | (inner) "as \<noteq> []" "bs \<noteq> []" by blast
  then show ?thesis
  proof cases
    case only
    have "dll (?h(i := ?off)) ?N (as @ bs)" using only by (intro dll_unlink [OF dll]) auto
    then show ?thesis
      using only init le use' zero slots [of i] by (simp add: defs)
  next
    case tail
    have "dll (?h(last as := (?h (last as))\<lparr>dwNodeNextIndex := ?N\<rparr>, i := ?off)) ?N (as @ bs)"
      using tail sp by (intro dll_unlink [OF dll]) auto
    moreover have "last as \<noteq> i" using tail sp by auto
    ultimately show ?thesis
      using tail init le st use' zero slots [of i] slots [of "last as"] sp used [of "last as"]
      by (simp add: defs hd_or_def last_or_def)
  next
    case front
    have "dll (?h(hd bs := (?h (hd bs))\<lparr>dwNodePreIndex := ?N\<rparr>, i := ?off)) ?N (as @ bs)"
      using front sp by (intro dll_unlink [OF dll]) auto
    moreover have "hd bs \<noteq> i" "hd bs \<noteq> ?N" using front sp used(2) [of "hd bs"] by auto
    ultimately show ?thesis
      using front init le en use' zero slots [of i] slots [of "hd bs"] sp used [of "hd bs"]
      by (simp add: defs hd_or_def last_or_def)
  next
    case inner
    have ne: "hd bs \<noteq> i" "hd bs \<noteq> ?N" "last as \<noteq> i" "last as \<noteq> ?N"
      using inner sp used(2) [of "hd bs"] used(2) [of "last as"] by auto
    moreover have ab: "last as \<noteq> hd bs"
      using inner dll by (auto simp: dll_def dest: last_in_set)
    moreover have "dll (?h(last as := (?h (last as))\<lparr>dwNodeNextIndex := hd bs\<rparr>,
        hd bs := (?h (hd bs))\<lparr>dwNodePreIndex := last as\<rparr>, i := ?off)) ?N (as @ bs)"
      using inner sp ne ab by (intro dll_unlink [OF dll]) (auto simp: last_or_def hd_or_def)
    ultimately show ?thesis
      using inner init le st en use' zero slots [of i] slots [of "last as"] slots [of "hd bs"] sp
        used [of "last as"] used [of "hd bs"]
      by (simp add: defs hd_or_def last_or_def)
  qed
qed

subsection \<open>Traversal as an interface\<close>

text \<open>
  What a client of a traversal relies on, whatever its direction: a container \<open>rep w ps\<close>
  presents the addresses \<open>ps\<close>; \<open>first\<close> returns the first of them and \<open>next\<close> the following
  ones, null behind the last. \<open>visit\<close> is the client loop
  \<open>for(p = first(); p != NULL; p = next())\<close>, with a bound on the number of steps.
\<close>

fun visit :: "nat \<Rightarrow> ('w \<Rightarrow> ('p option \<times> 'w) option) \<Rightarrow> ('p option \<times> 'w) option \<Rightarrow> ('p list \<times> 'w) option" where
  "visit 0 nx r = None"
| "visit (Suc n) nx r =
     (case r of
        None \<Rightarrow> None
      | Some (None, w) \<Rightarrow> Some ([], w)
      | Some (Some p, w) \<Rightarrow> map_option (\<lambda>(ps, w). (p # ps, w)) (visit n nx (nx w)))"

locale cursor_walk =
  fixes first :: "'w \<Rightarrow> ('p option \<times> 'w) option"
    and nextp :: "'w \<Rightarrow> ('p option \<times> 'w) option"
    and rep :: "'w \<Rightarrow> 'p list \<Rightarrow> bool"
    and at :: "'w \<Rightarrow> 'p list \<Rightarrow> 'p list \<Rightarrow> bool"
  assumes first_Nil: "rep w [] \<Longrightarrow> \<exists>w'. first w = Some (None, w') \<and> rep w' []"
    and first_Cons: "rep w (p # ps) \<Longrightarrow> \<exists>w'. first w = Some (Some p, w') \<and> at w' (p # ps) ps"
    and next_Nil: "at w ps [] \<Longrightarrow> \<exists>w'. nextp w = Some (None, w') \<and> rep w' ps"
    and next_Cons: "at w ps (q # qs) \<Longrightarrow> \<exists>w'. nextp w = Some (Some q, w') \<and> at w' ps qs"
begin

lemma visit_rest:
  assumes "at w ps qs" "length qs < n"
  shows "\<exists>w'. visit n nextp (nextp w) = Some (qs, w') \<and> rep w' ps"
  using assms
proof (induction qs arbitrary: w n)
  case Nil
  then obtain w' where "nextp w = Some (None, w')" "rep w' ps" using next_Nil by blast
  with Nil show ?case by (cases n) auto
next
  case (Cons q qs)
  obtain w' where w': "nextp w = Some (Some q, w')" "at w' ps qs" using next_Cons Cons.prems(1) by blast
  obtain m where m: "n = Suc m" "length qs < m" using Cons.prems(2) by (cases n) auto
  obtain w'' where "visit m nextp (nextp w') = Some (qs, w'')" "rep w'' ps"
    using Cons.IH w'(2) m(2) by blast
  with w' m show ?case by auto
qed

lemma visit_all:
  assumes "rep w ps" "length ps < n"
  shows "\<exists>w'. visit n nextp (first w) = Some (ps, w') \<and> rep w' ps"
proof (cases ps)
  case Nil
  then obtain w' where "first w = Some (None, w')" "rep w' []" using first_Nil assms(1) by blast
  with Nil assms(2) show ?thesis by (cases n) auto
next
  case (Cons p qs)
  then obtain w' where w': "first w = Some (Some p, w')" "at w' ps qs"
    using first_Cons assms(1) by blast
  obtain m where m: "n = Suc m" "length qs < m" using assms(2) Cons by (cases n) auto
  obtain w'' where "visit m nextp (nextp w') = Some (qs, w'')" "rep w'' ps"
    using visit_rest w'(2) m(2) by blast
  with w' m Cons show ?thesis by auto
qed

end

text \<open>Both directions of the hash table's list provide the interface.\<close>

definition fwd_rep :: "'d HashWorld \<Rightarrow> nat list \<Rightarrow> bool" where
  "fwd_rep w ps \<longleftrightarrow> (\<exists>xs. table_wf w xs \<and> ps = map (INDEX_TO_NODE (hw_tab w)) xs)"

definition fwd_at :: "'d HashWorld \<Rightarrow> nat list \<Rightarrow> nat list \<Rightarrow> bool" where
  "fwd_at w ps qs \<longleftrightarrow> (\<exists>as x bs. table_wf w (as @ x # bs) \<and> dwCurIndex (hw_tab w) = x \<and>
     ps = map (INDEX_TO_NODE (hw_tab w)) (as @ x # bs) \<and> qs = map (INDEX_TO_NODE (hw_tab w)) bs)"

definition bwd_rep :: "'d HashWorld \<Rightarrow> nat list \<Rightarrow> bool" where
  "bwd_rep w ps \<longleftrightarrow> (\<exists>xs. table_wf w xs \<and> ps = map (INDEX_TO_NODE (hw_tab w)) (rev xs))"

definition bwd_at :: "'d HashWorld \<Rightarrow> nat list \<Rightarrow> nat list \<Rightarrow> bool" where
  "bwd_at w ps qs \<longleftrightarrow> (\<exists>as x bs. table_wf w (as @ x # bs) \<and> dwCurIndexRevers (hw_tab w) = x \<and>
     ps = map (INDEX_TO_NODE (hw_tab w)) (rev (as @ x # bs)) \<and>
     qs = map (INDEX_TO_NODE (hw_tab w)) (rev as))"

lemma table_wf_cursor [simp]:
  "table_wf (upd_tab (\<lambda>t. t\<lparr>dwCurIndex := x\<rparr>) w) xs = table_wf w xs"
  "table_wf (upd_tab (\<lambda>t. t\<lparr>dwCurIndexRevers := x\<rparr>) w) xs = table_wf w xs"
  by (simp_all add: table_wf_def)

lemma table_wf_not_end: "table_wf w xs \<Longrightarrow> x \<in> set xs \<Longrightarrow> x \<noteq> dwRealNodeCount (hw_tab w)"
  using table_wf_bound_set(2) [of w xs x] by auto

lemma GetFirstNode_wf:
  assumes wf: "table_wf w xs"
  shows "GetFirstNode env w =
    Some (if xs = [] then None else Some (INDEX_TO_NODE (hw_tab w) (hd xs)),
      upd_tab (\<lambda>t. t\<lparr>dwCurIndex := hd_or (dwRealNodeCount (hw_tab w)) xs\<rparr>) w)"
proof (cases xs)
  case Nil
  then show ?thesis using wf by (simp add: GetFirstNode_def table_wf_def Let_def)
next
  case (Cons x ys)
  have "bIsUsed (seg_nodes (hw_seg w) x) \<noteq> 0" using wf Cons by (auto simp: table_wf_def dll_def)
  then show ?thesis
    using Cons wf table_wf_not_end [OF wf, of x] table_wf_bound_set(1) [OF wf, of x]
    by (auto simp: GetFirstNode_def table_wf_def Let_def intro!: check_used_ok)
qed

lemma GetFirstNodeRevers_wf:
  assumes wf: "table_wf w xs"
  shows "GetFirstNodeRevers env w =
    Some (if xs = [] then None else Some (INDEX_TO_NODE (hw_tab w) (last xs)),
      upd_tab (\<lambda>t. t\<lparr>dwCurIndexRevers := last_or (dwRealNodeCount (hw_tab w)) xs\<rparr>) w)"
proof (cases xs rule: rev_cases)
  case Nil
  then show ?thesis using wf by (simp add: GetFirstNodeRevers_def table_wf_def Let_def)
next
  case (snoc ys x)
  have "bIsUsed (seg_nodes (hw_seg w) x) \<noteq> 0" using wf snoc by (auto simp: table_wf_def dll_def)
  then show ?thesis
    using snoc wf table_wf_not_end [OF wf, of x] table_wf_bound_set(1) [OF wf, of x]
    by (auto simp: GetFirstNodeRevers_def table_wf_def Let_def intro!: check_used_ok)
qed

lemma fwd_atI:
  assumes "table_wf w (as @ x # bs)" "dwCurIndex (hw_tab w) = x"
    and "ps = map (INDEX_TO_NODE (hw_tab w)) (as @ x # bs)" "qs = map (INDEX_TO_NODE (hw_tab w)) bs"
  shows "fwd_at w ps qs"
  using assms unfolding fwd_at_def by blast

lemma bwd_atI:
  assumes "table_wf w (as @ x # bs)" "dwCurIndexRevers (hw_tab w) = x"
    and "ps = map (INDEX_TO_NODE (hw_tab w)) (rev (as @ x # bs))"
    and "qs = map (INDEX_TO_NODE (hw_tab w)) (rev as)"
  shows "bwd_at w ps qs"
  using assms unfolding bwd_at_def by blast

interpretation fwd: cursor_walk "GetFirstNode env" "GetNextNode env" fwd_rep fwd_at
  for env :: "'d HashEnv"
proof unfold_locales
  fix w :: "'d HashWorld"
  assume "fwd_rep w []"
  then show "\<exists>w'. GetFirstNode env w = Some (None, w') \<and> fwd_rep w' []"
    by (auto simp: fwd_rep_def GetFirstNode_wf)
next
  fix w :: "'d HashWorld" and p ps
  assume "fwd_rep w (p # ps)"
  then obtain x xs where x: "table_wf w (x # xs)"
    "p # ps = map (INDEX_TO_NODE (hw_tab w)) (x # xs)" by (auto simp: fwd_rep_def)
  then show "\<exists>w'. GetFirstNode env w = Some (Some p, w') \<and> fwd_at w' (p # ps) ps"
    using fwd_atI [of "upd_tab (\<lambda>t. t\<lparr>dwCurIndex := x\<rparr>) w" "[]" x xs]
    by (auto simp: GetFirstNode_wf [OF x(1)])
next
  fix w :: "'d HashWorld" and ps
  assume "fwd_at w ps []"
  then obtain as where x: "table_wf w (as @ [dwCurIndex (hw_tab w)])"
    "ps = map (INDEX_TO_NODE (hw_tab w)) (as @ [dwCurIndex (hw_tab w)])"
    by (auto simp: fwd_at_def)
  then show "\<exists>w'. GetNextNode env w = Some (None, w') \<and> fwd_rep w' ps"
    using GetNextNode_dll [of w as "dwCurIndex (hw_tab w)" "[]" env]
    by (auto simp: fwd_rep_def table_wf_def)
next
  fix w :: "'d HashWorld" and ps q qs
  assume "fwd_at w ps (q # qs)"
  then obtain as y ys where x: "table_wf w (as @ dwCurIndex (hw_tab w) # y # ys)"
    "ps = map (INDEX_TO_NODE (hw_tab w)) (as @ dwCurIndex (hw_tab w) # y # ys)"
    "q # qs = map (INDEX_TO_NODE (hw_tab w)) (y # ys)"
    by (auto simp: fwd_at_def)
  then show "\<exists>w'. GetNextNode env w = Some (Some q, w') \<and> fwd_at w' ps qs"
    using GetNextNode_dll [of w as "dwCurIndex (hw_tab w)" "y # ys" env]
      fwd_atI [of "upd_tab (\<lambda>t. t\<lparr>dwCurIndex := y\<rparr>) w" "as @ [dwCurIndex (hw_tab w)]" y ys]
    by (auto simp: table_wf_def)
qed

interpretation bwd: cursor_walk "GetFirstNodeRevers env" "GetNextNodeRevers env" bwd_rep bwd_at
  for env :: "'d HashEnv"
proof unfold_locales
  fix w :: "'d HashWorld"
  assume "bwd_rep w []"
  then show "\<exists>w'. GetFirstNodeRevers env w = Some (None, w') \<and> bwd_rep w' []"
    by (auto simp: bwd_rep_def GetFirstNodeRevers_wf)
next
  fix w :: "'d HashWorld" and p ps
  assume "bwd_rep w (p # ps)"
  then obtain x xs where x: "table_wf w (xs @ [x])"
    "p # ps = map (INDEX_TO_NODE (hw_tab w)) (rev (xs @ [x]))"
    by (auto simp: bwd_rep_def)
  then show "\<exists>w'. GetFirstNodeRevers env w = Some (Some p, w') \<and> bwd_at w' (p # ps) ps"
    using bwd_atI [of "upd_tab (\<lambda>t. t\<lparr>dwCurIndexRevers := x\<rparr>) w" xs x "[]"]
    by (auto simp: GetFirstNodeRevers_wf [OF x(1)])
next
  fix w :: "'d HashWorld" and ps
  assume "bwd_at w ps []"
  then obtain bs where x: "table_wf w (dwCurIndexRevers (hw_tab w) # bs)"
    "ps = map (INDEX_TO_NODE (hw_tab w)) (rev (dwCurIndexRevers (hw_tab w) # bs))"
    by (auto simp: bwd_at_def)
  then show "\<exists>w'. GetNextNodeRevers env w = Some (None, w') \<and> bwd_rep w' ps"
    using GetNextNodeRevers_dll [of w "[]" "dwCurIndexRevers (hw_tab w)" bs env]
    by (auto simp: bwd_rep_def table_wf_def intro!: exI [of _ "dwCurIndexRevers (hw_tab w) # bs"])
next
  fix w :: "'d HashWorld" and ps q qs
  assume "bwd_at w ps (q # qs)"
  then obtain ys y bs where x: "table_wf w ((ys @ [y]) @ dwCurIndexRevers (hw_tab w) # bs)"
    "ps = map (INDEX_TO_NODE (hw_tab w)) (rev ((ys @ [y]) @ dwCurIndexRevers (hw_tab w) # bs))"
    "q # qs = map (INDEX_TO_NODE (hw_tab w)) (rev (ys @ [y]))"
    unfolding bwd_at_def by (metis list.map_disc_iff list.distinct(1) rev_exhaust rev_is_Nil_conv)
  then show "\<exists>w'. GetNextNodeRevers env w = Some (Some q, w') \<and> bwd_at w' ps qs"
    using GetNextNodeRevers_dll [of w "ys @ [y]" "dwCurIndexRevers (hw_tab w)" bs env]
      bwd_atI [of "upd_tab (\<lambda>t. t\<lparr>dwCurIndexRevers := y\<rparr>) w" ys y "dwCurIndexRevers (hw_tab w) # bs"]
    by (auto simp: table_wf_def)
qed

end
