(* ===== verification/Hash_Check.thy ===== *)
theory Hash_Check
  imports Hash_Walk
begin

text \<open>
  The use flag, the consistency check and the reset. A process that finds the flag free
  takes it in the first try; a flag that is never released is broken or makes the process
  exit, but never makes it hang. The check accepts every well-formed table (of fewer than
  \<open>2 ^ 31\<close> nodes, because it counts with signed indices), and the reset empties the slots
  that \<open>dwShareMemBytes\<close> covers.
\<close>

subsection \<open>Waiting for the flag\<close>

lemma wait_lock_free:
  assumes "bHashUseFlag (thead w) = 0"
  shows "wait_lock env start w = Some (Locked
    (upd_thead (\<lambda>h. h\<lparr>bHashUseFlag := 1, dwLastUseTimeSec := env_time env (hw_tick w)\<rparr>)
      (w\<lparr>hw_tick := Suc (hw_tick w)\<rparr>)))"
  using try_lock_free [OF assms, of 10 env] by (simp add: wait_lock.simps wait_round_def)

text \<open>The other processes leave the segment alone while this one sleeps.\<close>

definition quiet :: "'d HashEnv \<Rightarrow> bool" where
  "quiet env \<longleftrightarrow> (\<forall>n s. env_sleep env n s = s)"

lemma try_lock_held:
  assumes "quiet env" "bHashUseFlag (thead w) \<noteq> 0"
  shows "try_lock n env w = (False, w\<lparr>hw_tick := hw_tick w + n\<rparr>)"
  using assms(2)
proof (induction n arbitrary: w)
  case 0
  then show ?case by simp
next
  case (Suc n)
  then have "try_lock n env (usleep env w) = (False, (usleep env w)\<lparr>hw_tick := hw_tick (usleep env w) + n\<rparr>)"
    using assms(1) by (intro Suc.IH) (simp add: usleep_def quiet_def)
  with Suc.prems assms(1) show ?case by (simp add: usleep_def quiet_def)
qed

lemma wait_lock_terminates:
  assumes "quiet env" "\<And>k. m \<le> k \<Longrightarrow> start + 2 < env_time env k"
  shows "\<exists>r. wait_lock env start w = Some r"
proof (induction "m - hw_tick w" arbitrary: w rule: less_induct)
  case less
  show ?case
  proof (cases "bHashUseFlag (thead w) = 0")
    case True
    then show ?thesis by (simp add: wait_lock_free)
  next
    case False
    define w' where "w' = emit (AttrSpec 91 1) (w\<lparr>hw_tick := hw_tick w + 10\<rparr>)"
    have held: "try_lock 10 env w = (False, w\<lparr>hw_tick := hw_tick w + 10\<rparr>)"
      by (rule try_lock_held [OF assms(1) False])
    show ?thesis
    proof (cases "start + 3 < env_time env (hw_tick w + 10)")
      case True
      then have "wait_round env start w = Inl (Exited (upd_thead (\<lambda>h. h\<lparr>bHashUseFlag := 0\<rparr>)
          (w'\<lparr>hw_tick := Suc (hw_tick w')\<rparr>)))"
        by (simp add: wait_round_def held time_now_def w'_def)
      then show ?thesis by (subst wait_lock.simps) simp
    next
      case no_exit: False
      define w3 where "w3 = w'\<lparr>hw_tick := hw_tick w + 12\<rparr>"
      have round: "wait_round env start w = Inr (if start + 2 < env_time env (hw_tick w + 11)
          then upd_thead (\<lambda>h. h\<lparr>bHashUseFlag := 0\<rparr>) w3 else w3)"
        using no_exit by (simp add: wait_round_def held time_now_def w'_def w3_def add.commute)
      show ?thesis
      proof (cases "start + 2 < env_time env (hw_tick w + 11)")
        case True
        then have "wait_lock env start w = wait_lock env start (upd_thead (\<lambda>h. h\<lparr>bHashUseFlag := 0\<rparr>) w3)"
          by (subst wait_lock.simps) (simp add: round)
        then show ?thesis by (simp add: wait_lock_free)
      next
        case False
        then have "hw_tick w + 11 < m" using assms(2) by (metis not_le)
        then have "m - hw_tick w3 < m - hw_tick w" by (simp add: w3_def)
        then have "\<exists>r. wait_lock env start w3 = Some r" by (rule less)
        with False show ?thesis by (subst wait_lock.simps) (simp add: round)
      qed
    qed
  qed
qed

subsection \<open>The consistency check\<close>

lemma check_walk_step:
  assumes "unat (dwRealNodeCount (hw_tab w)) \<le> seg_slots (hw_seg w)"
    and "unat (dwRealNodeCount (hw_tab w)) < 2 ^ 31" and "i < dwRealNodeCount (hw_tab w)"
    and "bIsUsed (seg_nodes (hw_seg w) i) \<noteq> 0"
  shows "check_walk nxt w i c = check_walk nxt w (nxt (seg_nodes (hw_seg w) i)) (c + 1)"
proof -
  have lt: "unat i < unat (dwRealNodeCount (hw_tab w))" using assms(3) by (simp add: word_less_nat_alt)
  then have si: "sint i = int (unat i)" using assms(2) by (intro sint_small) simp
  have "0 \<le> sint i \<and> sint i < sint (dwRealNodeCount (hw_tab w))"
    unfolding si sint_small [OF assms(2)] using lt by (simp only: of_nat_less_iff) simp
  then show ?thesis
    using assms lt by (subst check_walk.simps) simp
qed

lemma check_walk_end: "check_walk nxt w (dwRealNodeCount (hw_tab w)) c = Some c"
  by (subst check_walk.simps) simp

lemma check_walk_forward:
  assumes "links (seg_nodes (hw_seg w)) p xs (dwRealNodeCount (hw_tab w))"
    and "\<And>x. x \<in> set xs \<Longrightarrow> x < dwRealNodeCount (hw_tab w)"
    and "unat (dwRealNodeCount (hw_tab w)) \<le> seg_slots (hw_seg w)"
    and "unat (dwRealNodeCount (hw_tab w)) < 2 ^ 31"
  shows "check_walk dwNodeNextIndex w (hd_or (dwRealNodeCount (hw_tab w)) xs) c
    = Some (c + of_nat (length xs))"
  using assms(1,2)
proof (induction xs arbitrary: p c)
  case Nil
  then show ?case by (simp add: check_walk_end)
next
  case (Cons x xs)
  have "check_walk dwNodeNextIndex w x c
      = check_walk dwNodeNextIndex w (hd_or (dwRealNodeCount (hw_tab w)) xs) (c + 1)"
    using Cons.prems assms(3,4) check_walk_step [of w x dwNodeNextIndex c] by (simp add: hd_or_def)
  also have "\<dots> = Some (c + 1 + of_nat (length xs))"
    using Cons.prems by (intro Cons.IH [of x]) auto
  finally show ?case by (simp add: add.assoc)
qed

lemma check_walk_backward:
  assumes "links (seg_nodes (hw_seg w)) (dwRealNodeCount (hw_tab w)) xs q"
    and "\<And>x. x \<in> set xs \<Longrightarrow> x < dwRealNodeCount (hw_tab w)"
    and "unat (dwRealNodeCount (hw_tab w)) \<le> seg_slots (hw_seg w)"
    and "unat (dwRealNodeCount (hw_tab w)) < 2 ^ 31"
  shows "check_walk dwNodePreIndex w (last_or (dwRealNodeCount (hw_tab w)) xs) c
    = Some (c + of_nat (length xs))"
  using assms(1,2)
proof (induction xs arbitrary: q c rule: rev_induct)
  case Nil
  then show ?case by (simp add: check_walk_end)
next
  case (snoc x xs)
  have "check_walk dwNodePreIndex w x c
      = check_walk dwNodePreIndex w (last_or (dwRealNodeCount (hw_tab w)) xs) (c + 1)"
    using snoc.prems assms(3,4) check_walk_step [of w x dwNodePreIndex c] by (simp add: links_append)
  also have "\<dots> = Some (c + 1 + of_nat (length xs))"
    using snoc.prems by (intro snoc.IH [of x]) (auto simp: links_append)
  finally show ?case by (simp add: add.assoc)
qed

text \<open>
  The state in which the check counts, and the one it leaves behind: only the flag and the
  time of use are touched.
\<close>

definition under_check :: "'d HashEnv \<Rightarrow> 'd HashWorld \<Rightarrow> 'd HashWorld" where
  "under_check env w = upd_thead (\<lambda>h. h\<lparr>bHashUseFlag := 1, dwLastUseTimeSec := env_time env (Suc (hw_tick w))\<rparr>)
     (w\<lparr>hw_tick := hw_tick w + 2\<rparr>)"

definition checked :: "'d HashEnv \<Rightarrow> 'd HashWorld \<Rightarrow> 'd HashWorld" where
  "checked env w = upd_thead (\<lambda>h. h\<lparr>bHashUseFlag := 0\<rparr>) (under_check env w)"

lemma under_check_sel [simp]:
  "hw_tab (under_check env w) = hw_tab w" "seg_nodes (hw_seg (under_check env w)) = seg_nodes (hw_seg w)"
  "seg_slots (hw_seg (under_check env w)) = seg_slots (hw_seg w)"
  "seg_data (hw_seg (under_check env w)) = seg_data (hw_seg w)"
  "hw_events (under_check env w) = hw_events w"
  "dwNodeStartIndex (thead (under_check env w)) = dwNodeStartIndex (thead w)"
  "dwNodeEndIndex (thead (under_check env w)) = dwNodeEndIndex (thead w)"
  "dwNodeUseCount (thead (under_check env w)) = dwNodeUseCount (thead w)"
  by (simp_all add: under_check_def)

lemma wait_lock_under_check:
  assumes "bHashUseFlag (thead w) = 0"
  shows "wait_lock env start (w\<lparr>hw_tick := Suc (hw_tick w)\<rparr>) = Some (Locked (under_check env w))"
  using assms by (subst wait_lock_free) (simp_all add: under_check_def)

lemma CheckHashTable_result:
  assumes init: "bInitSuccess (hw_tab w) \<noteq> 0" and flag: "bHashUseFlag (thead w) = 0"
    and fwd: "check_walk dwNodeNextIndex (under_check env w) (dwNodeStartIndex (thead w)) 0 = Some f"
    and bwd: "check_walk dwNodePreIndex (under_check env w) (dwNodeEndIndex (thead w)) 0 = Some b"
  shows "CheckHashTable env w =
    Some (if f \<noteq> dwNodeUseCount (thead w) then -1
          else if b \<noteq> dwNodeUseCount (thead w) then -2 else 0, checked env w)"
  using init fwd bwd
  by (simp add: CheckHashTable_def time_now_def wait_lock_under_check [OF flag] locked_def checked_def)

lemma CheckHashTable_wf:
  assumes wf: "table_wf w xs" and flag: "bHashUseFlag (thead w) = 0"
    and small: "unat (dwRealNodeCount (hw_tab w)) < 2 ^ 31"
  shows "CheckHashTable env w = Some (0, checked env w)"
proof -
  let ?N = "dwRealNodeCount (hw_tab w)"
  have l: "links (seg_nodes (hw_seg w)) ?N xs ?N" and r: "\<And>x. x \<in> set xs \<Longrightarrow> x < ?N"
    and le: "unat ?N \<le> seg_slots (hw_seg w)" and init: "bInitSuccess (hw_tab w) \<noteq> 0"
    and st: "dwNodeStartIndex (thead w) = hd_or ?N xs" and en: "dwNodeEndIndex (thead w) = last_or ?N xs"
    and use: "unat (dwNodeUseCount (thead w)) = length xs"
    using wf by (auto simp: table_wf_def dll_def)
  have n: "dwNodeUseCount (thead w) = of_nat (length xs)"
    using use by (rule word_of_unat)
  have "check_walk dwNodeNextIndex (under_check env w) (dwNodeStartIndex (thead w)) 0 = Some (of_nat (length xs))"
    using check_walk_forward [of "under_check env w" ?N xs 0] l r le small st by simp
  moreover have "check_walk dwNodePreIndex (under_check env w) (dwNodeEndIndex (thead w)) 0 = Some (of_nat (length xs))"
    using check_walk_backward [of "under_check env w" xs ?N 0] l r le small en by simp
  ultimately show ?thesis
    using CheckHashTable_result [OF init flag] by (simp add: n)
qed

text \<open>
  After an insertion behind the last node the two ends of the list disagree: the check
  finds it from the back.
\<close>

lemma CheckHashTable_after_tail_insert:
  assumes wf: "table_wf w (as @ [x])" and ok: "writable env w"
    and i: "i < dwRealNodeCount (hw_tab w)" "i \<notin> set (as @ [x])"
    and small: "unat (dwRealNodeCount (hw_tab w)) < 2 ^ 31"
  shows "\<exists>w'. InsertHashNodeAfter env (INDEX_TO_NODE (hw_tab w) i) x w = Some (0, w') \<and>
    CheckHashTable env w' = Some (-2, checked env w')"
proof -
  let ?N = "dwRealNodeCount (hw_tab w)"
  obtain w' where w': "InsertHashNodeAfter env (INDEX_TO_NODE (hw_tab w) i) x w = Some (0, w')"
      "dll (seg_nodes (hw_seg w')) ?N (as @ [x, i])" "hw_tab w' = hw_tab w"
      "seg_slots (hw_seg w') = seg_slots (hw_seg w)"
      "dwNodeStartIndex (thead w') = dwNodeStartIndex (thead w)"
      "dwNodeEndIndex (thead w') = x" "bHashUseFlag (thead w') = 0"
      "unat (dwNodeUseCount (thead w')) = Suc (length (as @ [x]))"
    using InsertHashNodeAfter_tail [OF wf ok i] by blast
  have init: "bInitSuccess (hw_tab w') \<noteq> 0" and le: "unat ?N \<le> seg_slots (hw_seg w')"
    and st: "dwNodeStartIndex (thead w') = hd_or ?N (as @ [x, i])"
    using wf w' by (auto simp: table_wf_def)
  have n: "dwNodeUseCount (thead w') = of_nat (length (as @ [x, i]))"
    using word_of_unat [OF w'(8)] by simp
  have len: "length (as @ [x, i]) \<le> unat ?N" using dll_length [OF w'(2)] .
  have l: "links (seg_nodes (hw_seg w')) ?N (as @ [x, i]) ?N"
    "links (seg_nodes (hw_seg w')) ?N (as @ [x]) i" "\<And>y. y \<in> set (as @ [x, i]) \<Longrightarrow> y < ?N"
    using w'(2) by (auto simp: dll_def links_append)
  have "check_walk dwNodeNextIndex (under_check env w') (dwNodeStartIndex (thead w')) 0
      = Some (of_nat (length (as @ [x, i])))"
    using check_walk_forward [of "under_check env w'" ?N "as @ [x, i]" 0] l le small st w'(3) by simp
  moreover have "check_walk dwNodePreIndex (under_check env w') (dwNodeEndIndex (thead w')) 0
      = Some (of_nat (length (as @ [x])))"
    using check_walk_backward [of "under_check env w'" "as @ [x]" i 0] l(2,3) le small w'(3,6) by auto
  moreover have "of_nat (length (as @ [x])) \<noteq> (of_nat (length (as @ [x, i])) :: u32)"
    by simp
  ultimately have "CheckHashTable env w' = Some (-2, checked env w')"
    using CheckHashTable_result [OF init w'(7)] by (simp add: n)
  with w'(1) show ?thesis by blast
qed

subsection \<open>The reset\<close>

text \<open>The number of slots a reset clears.\<close>

definition reset_slots :: "'d SharedHashTable \<Rightarrow> nat" where
  "reset_slots t = (unat (dwShareMemBytes t) - sizeof_HashTableHead) div node_stride t"

text \<open>A table descriptor whose byte count covers \<open>n\<close> nodes exactly.\<close>

definition covers :: "'d SharedHashTable \<Rightarrow> nat \<Rightarrow> bool" where
  "covers t n \<longleftrightarrow> unat (dwShareMemBytes t) = sizeof_HashTableHead + n * node_stride t"

lemma covers_reset_slots: "covers t n \<Longrightarrow> reset_slots t = n"
  by (simp add: covers_def reset_slots_def)

lemma ResetHashTable_result:
  assumes init: "bInitSuccess (hw_tab w) \<noteq> 0" and flag: "bHashUseFlag (thead w) = 0"
    and cov: "covers (hw_tab w) n" and le: "n \<le> seg_slots (hw_seg w)"
  shows "\<exists>w'. ResetHashTable env w = Some w' \<and> hw_tab w' = hw_tab w \<and>
    seg_slots (hw_seg w') = seg_slots (hw_seg w) \<and>
    seg_nodes (hw_seg w') = (\<lambda>i. if unat i < n then zero_node_head else seg_nodes (hw_seg w) i) \<and>
    seg_data (hw_seg w') = (\<lambda>i. if unat i < n then env_zero env else seg_data (hw_seg w) i) \<and>
    dwNodeStartIndex (thead w') = dwRealNodeCount (hw_tab w) \<and>
    dwNodeEndIndex (thead w') = dwRealNodeCount (hw_tab w) \<and>
    dwNodeUseCount (thead w') = 0 \<and> bHashUseFlag (thead w') = 0 \<and>
    hw_events w' = hw_events w @ [AttrSpec 239 1]"
  using init le cov
  by (simp add: ResetHashTable_def time_now_def wait_lock_under_check [OF flag] locked_def
      memset_nodes_def covers_def Let_def cong: if_cong)

lemma ResetHashTable_wf:
  assumes "bInitSuccess (hw_tab w) \<noteq> 0" "bHashUseFlag (thead w) = 0"
    and "covers (hw_tab w) (unat (dwRealNodeCount (hw_tab w)))"
    and "unat (dwRealNodeCount (hw_tab w)) \<le> seg_slots (hw_seg w)"
  shows "\<exists>w'. ResetHashTable env w = Some w' \<and> table_wf w' []"
  using ResetHashTable_result [OF assms, of env] assms(1,4)
  by (auto simp: table_wf_def dll_empty zero_node_head_def word_less_nat_alt)

text \<open>
  When the byte count covers fewer slots than the table has nodes, a used node behind them
  keeps its mark: the list is empty, but the table is not.
\<close>

lemma ResetHashTable_partial:
  assumes "bInitSuccess (hw_tab w) \<noteq> 0" "bHashUseFlag (thead w) = 0"
    and "covers (hw_tab w) n" "n \<le> unat i" "i < dwRealNodeCount (hw_tab w)"
    and "unat (dwRealNodeCount (hw_tab w)) \<le> seg_slots (hw_seg w)"
    and "bIsUsed (seg_nodes (hw_seg w) i) \<noteq> 0"
  shows "\<exists>w'. ResetHashTable env w = Some w' \<and> dwNodeUseCount (thead w') = 0 \<and>
    bIsUsed (seg_nodes (hw_seg w') i) \<noteq> 0 \<and> (\<forall>xs. \<not> table_wf w' xs)"
proof -
  have "n \<le> seg_slots (hw_seg w)" using assms(4-6) by (simp add: word_less_nat_alt)
  then obtain w' where w': "ResetHashTable env w = Some w'" "hw_tab w' = hw_tab w"
    "seg_nodes (hw_seg w') = (\<lambda>i. if unat i < n then zero_node_head else seg_nodes (hw_seg w) i)"
    "dwNodeUseCount (thead w') = 0"
    using ResetHashTable_result [OF assms(1-3), of env] by blast
  have used: "bIsUsed (seg_nodes (hw_seg w') i) \<noteq> 0" using w'(3) assms(4,7) by simp
  have "\<not> table_wf w' xs" for xs
    using used w'(2,4) assms(5) by (auto simp: table_wf_def dll_empty)
  with w' used show ?thesis by blast
qed

end
