(* ===== verification/Hash_Search.thy ===== *)
theory Hash_Search
  imports Hash_Check
begin

text \<open>
  Lookup (\<open>HashTableSearch\<close>, \<open>HashTableSearchEx\<close>) and the enumeration of all slots
  (\<open>GetAllHashNode\<close>) of \<open>language/c_cpp/mt_shared_hash.c\<close>. A short key has one candidate
  slot in each row; the lookups examine them in row order. A row of size zero is a division
  by zero (\<open>None\<close>), a null comparison function a call through a null pointer (\<open>None\<close>).
\<close>

subsection \<open>The lookups\<close>

fun search_rows :: "'d HashWorld \<Rightarrow> 'd \<Rightarrow> u32 \<Rightarrow> nat \<Rightarrow> u32 list \<Rightarrow> nat option option" where
  "search_rows w pKey dwShortKey pRow [] = Some None"
| "search_rows w pKey dwShortKey pRow (n # ns) =
     (if n = 0 then None
      else let a = pRow + node_stride (hw_tab w) * unat (dwShortKey mod n);
               pRow' = pRow + node_stride (hw_tab w) * unat n in do {
        h \<leftarrow> rdHead w a;
        if bIsUsed h \<noteq> 0 then do {
          cmp \<leftarrow> fun_cmp (hw_tab w);
          d \<leftarrow> rdData w (a + sizeof_HashNodeHead);
          if cmp pKey d = 0 then Some (Some (a + sizeof_HashNodeHead))
          else search_rows w pKey dwShortKey pRow' ns
        }
        else search_rows w pKey dwShortKey pRow' ns
      })"

definition HashTableSearch :: "'d \<Rightarrow> u32 \<Rightarrow> 'd HashWorld \<Rightarrow> nat option option" where
  "HashTableSearch pKey dwShortKey w =
     (if bInitSuccess (hw_tab w) = 0 then Some None
      else search_rows w pKey dwShortKey (pHash (hw_tab w) + sizeof_HashTableHead)
             (take STATIC_HASH_ROW_MAX (dwNodeNums (hw_tab w))))"

text \<open>
  \<open>pdwIsFind\<close> is \<open>None\<close> for a null pointer and \<open>Some v\<close> for a pointer to a variable with
  value \<open>v\<close>; the new value is part of the result. \<open>i\<close> is the row number, \<open>pEmptyNode\<close> the
  first free candidate seen so far.
\<close>

fun search_rows_ex :: "'d \<Rightarrow> u32 \<Rightarrow> nat \<Rightarrow> nat \<Rightarrow> nat option \<Rightarrow> u32 option \<Rightarrow> u32 list \<Rightarrow> 'd HashWorld
    \<Rightarrow> (nat option \<times> u32 option \<times> 'd HashWorld) option" where
  "search_rows_ex pKey dwShortKey i pRow pEmptyNode pdwIsFind [] w = Some (pEmptyNode, pdwIsFind, w)"
| "search_rows_ex pKey dwShortKey i pRow pEmptyNode pdwIsFind (n # ns) w =
     (if n = 0 then None
      else let a = pRow + node_stride (hw_tab w) * unat (dwShortKey mod n);
               pRow' = pRow + node_stride (hw_tab w) * unat n;
               pNode = a + sizeof_HashNodeHead in do {
        h \<leftarrow> rdHead w a;
        found \<leftarrow> (if bIsUsed h \<noteq> 0 then do {
             cmp \<leftarrow> fun_cmp (hw_tab w);
             d \<leftarrow> rdData w pNode;
             Some (cmp pKey d = 0)
           } else Some False);
        if found then Some (Some pNode, map_option (\<lambda>_. 1) pdwIsFind, w)
        else if pEmptyNode = None \<and> bIsUsed h = 0 then
          search_rows_ex pKey dwShortKey (Suc i) pRow' (Some pNode) pdwIsFind ns
            (if STATIC_HASH_ROW_WARN \<le> i \<and> fun_war (hw_tab w)
             then emit (Warned (dwNodeUseCount (thead w)) (dwRealNodeCount (hw_tab w))) w else w)
        else search_rows_ex pKey dwShortKey (Suc i) pRow' pEmptyNode pdwIsFind ns w
      })"

definition HashTableSearchEx :: "'d \<Rightarrow> u32 \<Rightarrow> u32 option \<Rightarrow> 'd HashWorld
    \<Rightarrow> (nat option \<times> u32 option \<times> 'd HashWorld) option" where
  "HashTableSearchEx pKey dwShortKey pdwIsFind w =
     (if bInitSuccess (hw_tab w) = 0 then Some (None, pdwIsFind, w)
      else search_rows_ex pKey dwShortKey 0 (pHash (hw_tab w) + sizeof_HashTableHead) None
             (map_option (\<lambda>_. 0) pdwIsFind) (take STATIC_HASH_ROW_MAX (dwNodeNums (hw_tab w))) w)"

subsection \<open>Enumeration of the slots\<close>

text \<open>The three static variables of the enumeration.\<close>

record GetAllState =
  s_iGetAllNodeRowIdx :: u32
  s_iGetAllNodeColIdx :: u32
  s_pRow :: "nat option"

definition InitGetAllHashNode :: "GetAllState \<Rightarrow> GetAllState" where
  "InitGetAllHashNode s = s\<lparr>s_iGetAllNodeRowIdx := 0, s_iGetAllNodeColIdx := 0, s_pRow := None\<rparr>"

definition GetAllHashNode :: "'d SharedHashTable \<Rightarrow> GetAllState \<Rightarrow> nat option \<times> GetAllState" where
  "GetAllHashNode t s =
     (if bInitSuccess t = 0 then (None, s)
      else if STATIC_HASH_ROW_MAX \<le> unat (s_iGetAllNodeRowIdx s) then (None, s)
      else let row = (case s_pRow s of None \<Rightarrow> pHash t + sizeof_HashTableHead | Some p \<Rightarrow> p);
               pNode = row + node_stride t * unat (s_iGetAllNodeColIdx s) + sizeof_HashNodeHead;
               n = dwNodeNums t ! unat (s_iGetAllNodeRowIdx s);
               col = s_iGetAllNodeColIdx s + 1
        in (Some pNode,
            if n \<le> col
            then s\<lparr>s_pRow := Some (row + node_stride t * unat n),
                   s_iGetAllNodeRowIdx := s_iGetAllNodeRowIdx s + 1, s_iGetAllNodeColIdx := 0\<rparr>
            else s\<lparr>s_pRow := Some row, s_iGetAllNodeColIdx := col\<rparr>))"

subsection \<open>Candidate slots\<close>

text \<open>
  The slot indices a short key may occupy, one per row, where \<open>b\<close> nodes precede the first
  row of the list.
\<close>

fun probes :: "u32 \<Rightarrow> nat \<Rightarrow> u32 list \<Rightarrow> u32 list" where
  "probes sk b [] = []"
| "probes sk b (n # ns) = of_nat (b + unat (sk mod n)) # probes sk (b + unat n) ns"

text \<open>The row table of a descriptor is sound: ten rows, none empty, which add up to the node count.\<close>

definition rows_wf :: "'d SharedHashTable \<Rightarrow> bool" where
  "rows_wf t \<longleftrightarrow> length (dwNodeNums t) = STATIC_HASH_ROW_MAX \<and> 0 \<notin> set (dwNodeNums t) \<and>
     sum_list (map unat (dwNodeNums t)) = unat (dwRealNodeCount t)"

definition candidates :: "'d SharedHashTable \<Rightarrow> u32 \<Rightarrow> u32 list" where
  "candidates t sk = probes sk 0 (dwNodeNums t)"

lemma probes_range:
  assumes "0 \<notin> set ns" "b + sum_list (map unat ns) < 2 ^ 32"
  shows "\<forall>p\<in>set (probes sk b ns). b \<le> unat p \<and> unat p < b + sum_list (map unat ns)"
  using assms
proof (induction ns arbitrary: b)
  case Nil
  then show ?case by simp
next
  case (Cons n ns)
  have IH: "\<forall>p\<in>set (probes sk (b + unat n) ns). b + unat n \<le> unat p \<and>
      unat p < b + unat n + sum_list (map unat ns)"
    using Cons.prems by (intro Cons.IH) (auto simp: add.assoc)
  have lt: "unat (sk mod n) < unat n" using Cons.prems(1) by (intro unat_mod_less) auto
  then have "b + unat (sk mod n) < 2 ^ 32" using Cons.prems(2) by simp
  then have "unat (of_nat (b + unat (sk mod n)) :: u32) = b + unat (sk mod n)"
    by (rule unat_of_nat_small)
  then show ?case using IH lt by auto
qed

lemma probes_sorted:
  assumes "0 \<notin> set ns" "b + sum_list (map unat ns) < 2 ^ 32"
  shows "sorted_wrt (<) (probes sk b ns)"
  using assms
proof (induction ns arbitrary: b)
  case Nil
  then show ?case by simp
next
  case (Cons n ns)
  have lt: "unat (sk mod n) < unat n" using Cons.prems(1) by (intro unat_mod_less) auto
  then have "b + unat (sk mod n) < 2 ^ 32" using Cons.prems(2) by simp
  then have "unat (of_nat (b + unat (sk mod n)) :: u32) = b + unat (sk mod n)"
    by (rule unat_of_nat_small)
  moreover have "\<forall>p\<in>set (probes sk (b + unat n) ns). b + unat n \<le> unat p"
    using probes_range [of ns "b + unat n" sk] Cons.prems by auto
  moreover have "sorted_wrt (<) (probes sk (b + unat n) ns)"
    using Cons.prems by (intro Cons.IH) auto
  ultimately have "\<forall>p\<in>set (probes sk (b + unat n) ns). of_nat (b + unat (sk mod n)) < p"
    using lt by (auto simp: word_less_nat_alt simp del: of_nat_add)
  then show ?case using \<open>sorted_wrt (<) _\<close> by (simp del: of_nat_add)
qed

lemma rows_total: "rows_wf t \<Longrightarrow> sum_list (map unat (dwNodeNums t)) < 2 ^ 32"
  using unsigned_less [of "dwRealNodeCount t", where 'a = nat] by (simp add: rows_wf_def)

lemma candidates_range:
  assumes "rows_wf t" "i \<in> set (candidates t sk)"
  shows "i < dwRealNodeCount t"
  using probes_range [of "dwNodeNums t" 0 sk] rows_total [OF assms(1)] assms
  by (auto simp: candidates_def rows_wf_def word_less_nat_alt)

lemma candidates_distinct: "rows_wf t \<Longrightarrow> distinct (candidates t sk)"
  using probes_sorted [of "dwNodeNums t" 0 sk] rows_total [of t]
  by (auto simp: candidates_def rows_wf_def strict_sorted_iff)

lemma length_probes [simp]: "length (probes sk b ns) = length ns"
  by (induction ns arbitrary: b) auto

subsection \<open>Correctness of the lookups\<close>

text \<open>A slot that holds the key.\<close>

definition holds :: "('d \<Rightarrow> 'd \<Rightarrow> int) \<Rightarrow> 'd \<Rightarrow> 'd HashWorld \<Rightarrow> u32 \<Rightarrow> bool" where
  "holds cmp key w i \<longleftrightarrow> bIsUsed (seg_nodes (hw_seg w) i) \<noteq> 0 \<and> cmp key (seg_data (hw_seg w) i) = 0"

definition vacant :: "'d HashWorld \<Rightarrow> u32 \<Rightarrow> bool" where
  "vacant w i \<longleftrightarrow> bIsUsed (seg_nodes (hw_seg w) i) = 0"

lemma probe_address:
  assumes "b + unat (sk mod n) < 2 ^ 32"
  shows "pHash t + sizeof_HashTableHead + node_stride t * b + node_stride t * unat (sk mod n)
    = INDEX_TO_NODE_HEAD t (of_nat (b + unat (sk mod n)))"
  using unat_of_nat_small [OF assms]
  by (simp add: INDEX_TO_NODE_HEAD_def algebra_simps del: of_nat_add)

lemma search_rows_find:
  assumes "0 \<notin> set ns" "b + sum_list (map unat ns) \<le> seg_slots (hw_seg w)"
    and "b + sum_list (map unat ns) < 2 ^ 32" and "fun_cmp (hw_tab w) = Some cmp"
  shows "search_rows w key sk (pHash (hw_tab w) + sizeof_HashTableHead + node_stride (hw_tab w) * b) ns
    = Some (map_option (INDEX_TO_NODE (hw_tab w)) (find (holds cmp key w) (probes sk b ns)))"
  using assms(1-3)
proof (induction ns arbitrary: b)
  case Nil
  then show ?case by simp
next
  case (Cons n ns)
  let ?i = "of_nat (b + unat (sk mod n)) :: u32"
  have lt: "unat (sk mod n) < unat n" using Cons.prems(1) by (intro unat_mod_less) auto
  then have small: "b + unat (sk mod n) < 2 ^ 32" using Cons.prems(3) by simp
  have slot: "unat ?i < seg_slots (hw_seg w)"
    unfolding unat_of_nat_small [OF small] using lt Cons.prems(2) by simp
  have IH: "search_rows w key sk (pHash (hw_tab w) + sizeof_HashTableHead
        + node_stride (hw_tab w) * b + node_stride (hw_tab w) * unat n) ns
      = Some (map_option (INDEX_TO_NODE (hw_tab w)) (find (holds cmp key w) (probes sk (b + unat n) ns)))"
    using Cons.IH [of "b + unat n"] Cons.prems by (simp add: algebra_simps)
  show ?case
    using Cons.prems(1) slot IH assms(4)
    by (simp add: Let_def probe_address [OF small] holds_def [of cmp key w ?i]
        INDEX_TO_NODE_eq_head [symmetric] del: of_nat_add)
qed

lemma HashTableSearch_find:
  assumes "bInitSuccess (hw_tab w) \<noteq> 0" "rows_wf (hw_tab w)"
    and "unat (dwRealNodeCount (hw_tab w)) \<le> seg_slots (hw_seg w)" "fun_cmp (hw_tab w) = Some cmp"
  shows "HashTableSearch key sk w
    = Some (map_option (INDEX_TO_NODE (hw_tab w)) (find (holds cmp key w) (candidates (hw_tab w) sk)))"
  using search_rows_find [of "dwNodeNums (hw_tab w)" 0 w cmp key sk] assms rows_total [OF assms(2)]
  by (simp add: HashTableSearch_def candidates_def rows_wf_def)

text \<open>
  The extended lookup: the slot that holds the key if there is one, else the first vacant
  candidate. The warning is raised at most once, when that candidate lies in a late row.
\<close>

definition same_but_events :: "'d HashWorld \<Rightarrow> 'd HashWorld \<Rightarrow> bool" where
  "same_but_events w w' \<longleftrightarrow> hw_tab w' = hw_tab w \<and> hw_seg w' = hw_seg w \<and> hw_tick w' = hw_tick w"

lemma search_rows_ex_find:
  assumes "0 \<notin> set ns" "b + sum_list (map unat ns) \<le> seg_slots (hw_seg w)"
    and "b + sum_list (map unat ns) < 2 ^ 32" and "fun_cmp (hw_tab w) = Some cmp"
  shows "\<exists>w'. search_rows_ex key sk k (pHash (hw_tab w) + sizeof_HashTableHead + node_stride (hw_tab w) * b)
      e f ns w
    = Some (case find (holds cmp key w) (probes sk b ns) of
        Some i \<Rightarrow> (Some (INDEX_TO_NODE (hw_tab w) i), map_option (\<lambda>_. 1) f, w')
      | None \<Rightarrow> ((if e = None then map_option (INDEX_TO_NODE (hw_tab w)) (find (vacant w) (probes sk b ns))
                 else e), f, w')) \<and> same_but_events w w'"
  using assms
proof (induction ns arbitrary: b k e w)
  case Nil
  then show ?case by (simp add: same_but_events_def)
next
  case (Cons n ns)
  let ?i = "of_nat (b + unat (sk mod n)) :: u32"
  have lt: "unat (sk mod n) < unat n" using Cons.prems(1) by (intro unat_mod_less) auto
  then have small: "b + unat (sk mod n) < 2 ^ 32" using Cons.prems(3) by simp
  have slot: "unat ?i < seg_slots (hw_seg w)"
    unfolding unat_of_nat_small [OF small] using lt Cons.prems(2) by simp
  show ?case
  proof (cases "holds cmp key w ?i")
    case True
    then show ?thesis
      using Cons.prems(1,4) slot
      by (auto simp: Let_def probe_address [OF small] holds_def INDEX_TO_NODE_eq_head same_but_events_def
          simp del: of_nat_add)
  next
    case False
    define w1 where "w1 = (if e = None \<and> vacant w ?i \<and> STATIC_HASH_ROW_WARN \<le> k \<and> fun_war (hw_tab w)
      then emit (Warned (dwNodeUseCount (thead w)) (dwRealNodeCount (hw_tab w))) w else w)"
    define e1 where "e1 = (if e = None \<and> vacant w ?i then Some (INDEX_TO_NODE (hw_tab w) ?i) else e)"
    have same: "hw_tab w1 = hw_tab w" "hw_seg w1 = hw_seg w" "hw_tick w1 = hw_tick w"
      by (simp_all add: w1_def)
    have eq: "holds cmp key w1 = holds cmp key w" "vacant w1 = vacant w"
      by (simp_all add: fun_eq_iff holds_def vacant_def same)
    have adv: "pHash (hw_tab w) + sizeof_HashTableHead + node_stride (hw_tab w) * (b + unat n)
      = pHash (hw_tab w) + sizeof_HashTableHead + node_stride (hw_tab w) * b + node_stride (hw_tab w) * unat n"
      by (simp add: algebra_simps)
    have step: "search_rows_ex key sk k (pHash (hw_tab w) + sizeof_HashTableHead + node_stride (hw_tab w) * b)
        e f (n # ns) w
      = search_rows_ex key sk (Suc k) (pHash (hw_tab w1) + sizeof_HashTableHead
          + node_stride (hw_tab w1) * (b + unat n)) e1 f ns w1"
      using Cons.prems(1,4) slot False
      by (auto simp: Let_def probe_address [OF small] holds_def vacant_def INDEX_TO_NODE_eq_head
          same adv w1_def e1_def simp del: of_nat_add)
    obtain w' where "search_rows_ex key sk (Suc k) (pHash (hw_tab w1) + sizeof_HashTableHead
          + node_stride (hw_tab w1) * (b + unat n)) e1 f ns w1
      = Some (case find (holds cmp key w) (probes sk (b + unat n) ns) of
          Some i \<Rightarrow> (Some (INDEX_TO_NODE (hw_tab w) i), map_option (\<lambda>_. 1) f, w')
        | None \<Rightarrow> ((if e1 = None then map_option (INDEX_TO_NODE (hw_tab w))
            (find (vacant w) (probes sk (b + unat n) ns)) else e1), f, w'))" "same_but_events w1 w'"
      using Cons.IH [of "b + unat n" w1 "Suc k" e1, unfolded same eq] Cons.prems
      unfolding same by (auto simp: add.assoc)
    then show ?thesis
      using False step by (auto simp: e1_def same same_but_events_def split: option.splits)
  qed
qed

lemma HashTableSearchEx_find:
  assumes "bInitSuccess (hw_tab w) \<noteq> 0" "rows_wf (hw_tab w)"
    and "unat (dwRealNodeCount (hw_tab w)) \<le> seg_slots (hw_seg w)" "fun_cmp (hw_tab w) = Some cmp"
  shows "\<exists>w'. HashTableSearchEx key sk f w
    = Some (case find (holds cmp key w) (candidates (hw_tab w) sk) of
        Some i \<Rightarrow> (Some (INDEX_TO_NODE (hw_tab w) i), map_option (\<lambda>_. 1) f, w')
      | None \<Rightarrow> (map_option (INDEX_TO_NODE (hw_tab w)) (find (vacant w) (candidates (hw_tab w) sk)),
          map_option (\<lambda>_. 0) f, w')) \<and> same_but_events w w'"
  using search_rows_ex_find [of "dwNodeNums (hw_tab w)" 0 w cmp key sk 0 None "map_option (\<lambda>_. 0) f"]
    assms rows_total [OF assms(2)]
  by (cases "find (holds cmp key w) (candidates (hw_tab w) sk)")
    (auto simp: HashTableSearchEx_def candidates_def rows_wf_def option.map_comp o_def)

subsection \<open>Insertion of a missing key\<close>

text \<open>
  The way a client adds a key: \<open>HashTableSearchEx\<close> returned the vacant candidate \<open>i\<close>, the
  client fills in the payload \<open>d\<close> and calls \<open>InsertHashNode\<close>. Afterwards the key is found
  at \<open>i\<close>, and every other key is found where it was.
\<close>

definition fill :: "u32 \<Rightarrow> 'd \<Rightarrow> 'd HashWorld \<Rightarrow> 'd HashWorld" where
  "fill i d w = w\<lparr>hw_seg := (hw_seg w)\<lparr>seg_data := (seg_data (hw_seg w))(i := d)\<rparr>\<rparr>"

lemma fill_sel [simp]:
  "hw_tab (fill i d w) = hw_tab w" "seg_nodes (hw_seg (fill i d w)) = seg_nodes (hw_seg w)"
  "seg_slots (hw_seg (fill i d w)) = seg_slots (hw_seg w)" "thead (fill i d w) = thead w"
  "seg_data (hw_seg (fill i d w)) = (seg_data (hw_seg w))(i := d)"
  "hw_tick (fill i d w) = hw_tick w" "hw_events (fill i d w) = hw_events w"
  by (simp_all add: fill_def)

lemma updData_fill [simp]:
  assumes "slot_of (hw_tab w) = slot_of t" "unat i < seg_slots (hw_seg w)"
  shows "updData (INDEX_TO_NODE t i) f w = Some (fill i (f (seg_data (hw_seg w) i)) w)"
  using assms by (simp add: updData_def fill_def)

lemma fill_wf [simp]: "table_wf (fill i d w) xs = table_wf w xs" "writable env (fill i d w) = writable env w"
  by (simp_all add: table_wf_def writable_def)

lemma dll_used_set: "table_wf w xs \<Longrightarrow> i < dwRealNodeCount (hw_tab w) \<Longrightarrow> vacant w i \<longleftrightarrow> i \<notin> set xs"
  using dll_used [of "seg_nodes (hw_seg w)" "dwRealNodeCount (hw_tab w)" xs i]
  by (auto simp: table_wf_def vacant_def)

lemma vacant_candidate:
  assumes "table_wf w xs" "rows_wf (hw_tab w)" "find (vacant w) (candidates (hw_tab w) sk) = Some i"
  shows "i < dwRealNodeCount (hw_tab w)" "i \<notin> set xs" "i \<in> set (candidates (hw_tab w) sk)"
proof -
  have i: "i \<in> set (candidates (hw_tab w) sk)" "vacant w i"
    using assms(3) by (auto simp: find_Some_iff)
  then show "i < dwRealNodeCount (hw_tab w)" "i \<in> set (candidates (hw_tab w) sk)"
    using candidates_range assms(2) by auto
  then show "i \<notin> set xs" using dll_used_set assms(1) i(2) by blast
qed

lemma holds_insert:
  assumes wf: "table_wf w xs" "table_wf w' (xs @ [i])" "hw_tab w' = hw_tab w"
    and data: "seg_data (hw_seg w') = (seg_data (hw_seg w))(i := d)"
    and j: "j < dwRealNodeCount (hw_tab w)"
  shows "holds cmp key w' j = (if j = i then cmp key d = 0 else holds cmp key w j)"
  using dll_used_set [OF wf(1) j] dll_used_set [OF wf(2), of j] j wf(3) data
  by (auto simp: holds_def vacant_def)

lemma insert_missing:
  assumes wf: "table_wf w xs" and ok: "writable env w" and rows: "rows_wf (hw_tab w)"
    and cmp: "fun_cmp (hw_tab w) = Some cmp"
    and missing: "find (holds cmp key w) (candidates (hw_tab w) sk) = None"
    and free: "find (vacant w) (candidates (hw_tab w) sk) = Some i"
    and d: "cmp key d = 0"
  shows "\<exists>w'. InsertHashNode env (INDEX_TO_NODE (hw_tab w) i) (fill i d w) = Some (0, w') \<and>
    table_wf w' (xs @ [i]) \<and> hw_tab w' = hw_tab w \<and> bHashUseFlag (thead w') = 0 \<and>
    seg_data (hw_seg w') = (seg_data (hw_seg w))(i := d) \<and>
    HashTableSearch key sk w' = Some (Some (INDEX_TO_NODE (hw_tab w) i)) \<and>
    (\<forall>key2 sk2. cmp key2 d \<noteq> 0 \<longrightarrow> HashTableSearch key2 sk2 w' = HashTableSearch key2 sk2 w)"
proof -
  note i = vacant_candidate [OF wf rows free]
  obtain w' where w': "InsertHashNode env (INDEX_TO_NODE (hw_tab w) i) (fill i d w) = Some (0, w')"
    "table_wf w' (xs @ [i])" "hw_tab w' = hw_tab w" "bHashUseFlag (thead w') = 0"
    "seg_data (hw_seg w') = (seg_data (hw_seg w))(i := d)"
    using InsertHashNode_dll [of "fill i d w" xs env i] wf ok i by auto
  have len: "unat (dwRealNodeCount (hw_tab w)) \<le> seg_slots (hw_seg w)"
    "unat (dwRealNodeCount (hw_tab w)) \<le> seg_slots (hw_seg w')"
    "bInitSuccess (hw_tab w) \<noteq> 0"
    using wf w'(2,3) by (auto simp: table_wf_def)
  have eq: "holds cmp k w' j = (if j = i then cmp k d = 0 else holds cmp k w j)"
    if "j \<in> set (candidates (hw_tab w) s)" for k j s
    using that holds_insert [OF wf w'(2,3,5)] candidates_range [OF rows] by blast
  have S': "HashTableSearch k s w' = Some (map_option (INDEX_TO_NODE (hw_tab w))
      (find (holds cmp k w') (candidates (hw_tab w) s)))" for k s
    using HashTableSearch_find [of w' cmp k s] len rows cmp w'(3) by simp
  have S: "HashTableSearch k s w = Some (map_option (INDEX_TO_NODE (hw_tab w))
      (find (holds cmp k w) (candidates (hw_tab w) s)))" for k s
    using HashTableSearch_find [of w cmp k s] len rows cmp by simp
  have "find (holds cmp key w') (candidates (hw_tab w) sk)
      = find (\<lambda>j. j = i) (candidates (hw_tab w) sk)"
    using missing eq d by (intro find_cong) (auto simp: find_None_iff)
  also have "\<dots> = Some i" using i(3) by (rule find_eq_Some)
  finally have "HashTableSearch key sk w' = Some (Some (INDEX_TO_NODE (hw_tab w) i))" by (simp add: S')
  moreover have "HashTableSearch key2 sk2 w' = HashTableSearch key2 sk2 w" if "cmp key2 d \<noteq> 0" for key2 sk2
  proof -
    have nh: "\<not> holds cmp key2 w i"
      using dll_used_set [OF wf i(1)] i(2) by (simp add: holds_def vacant_def)
    have "find (holds cmp key2 w') (candidates (hw_tab w) sk2) = find (holds cmp key2 w) (candidates (hw_tab w) sk2)"
      using eq that nh by (intro find_cong) auto
    then show ?thesis by (simp add: S S')
  qed
  ultimately show ?thesis using w' by blast
qed

subsection \<open>The enumeration visits every slot\<close>

text \<open>
  Started by \<open>InitGetAllHashNode\<close>, \<open>GetAllHashNode\<close> returns the addresses of all slots, row
  by row, and then null. It provides the traversal interface with the static variables as
  state; the two predicates describe their values.
\<close>

definition all_nodes :: "'d SharedHashTable \<Rightarrow> nat list" where
  "all_nodes t = map (\<lambda>k. INDEX_TO_NODE t (of_nat k)) [0..<unat (dwRealNodeCount t)]"

definition row_start :: "'d SharedHashTable \<Rightarrow> nat \<Rightarrow> nat" where
  "row_start t r = sum_list (take r (map unat (dwNodeNums t)))"

definition enum_rep :: "'d SharedHashTable \<Rightarrow> GetAllState \<Rightarrow> nat list \<Rightarrow> bool" where
  "enum_rep t s ps \<longleftrightarrow> bInitSuccess t \<noteq> 0 \<and> rows_wf t \<and> ps = all_nodes t"

definition enum_at :: "'d SharedHashTable \<Rightarrow> GetAllState \<Rightarrow> nat list \<Rightarrow> nat list \<Rightarrow> bool" where
  "enum_at t s ps qs \<longleftrightarrow> enum_rep t s ps \<and>
     (\<exists>r c. s_iGetAllNodeRowIdx s = of_nat r \<and> s_iGetAllNodeColIdx s = of_nat c \<and> r \<le> STATIC_HASH_ROW_MAX \<and>
        (r < STATIC_HASH_ROW_MAX \<longrightarrow> c < unat (dwNodeNums t ! r)) \<and> (r = STATIC_HASH_ROW_MAX \<longrightarrow> c = 0) \<and>
        s_pRow s = Some (pHash t + sizeof_HashTableHead + node_stride t * row_start t r) \<and>
        qs = drop (row_start t r + c) ps)"

definition start_enum :: "'d SharedHashTable \<Rightarrow> GetAllState \<Rightarrow> (nat option \<times> GetAllState) option" where
  "start_enum t s = Some (GetAllHashNode t (InitGetAllHashNode s))"

definition next_enum :: "'d SharedHashTable \<Rightarrow> GetAllState \<Rightarrow> (nat option \<times> GetAllState) option" where
  "next_enum t s = Some (GetAllHashNode t s)"

lemma row_start_Suc:
  assumes "rows_wf t" "r < STATIC_HASH_ROW_MAX"
  shows "row_start t (Suc r) = row_start t r + unat (dwNodeNums t ! r)"
  using assms sum_list_take_Suc [of r "map unat (dwNodeNums t)"] by (simp add: row_start_def rows_wf_def)

lemma row_start_le: "rows_wf t \<Longrightarrow> row_start t r \<le> unat (dwRealNodeCount t)"
  using sum_list_take_le [of r "map unat (dwNodeNums t)"] by (simp add: row_start_def rows_wf_def)

lemma row_start_max: "rows_wf t \<Longrightarrow> row_start t STATIC_HASH_ROW_MAX = unat (dwRealNodeCount t)"
  by (simp add: row_start_def rows_wf_def)

lemma rows_pos: "rows_wf t \<Longrightarrow> r < STATIC_HASH_ROW_MAX \<Longrightarrow> 0 < unat (dwNodeNums t ! r)"
  by (metis nth_mem rows_wf_def unat_eq_0 neq0_conv)

text \<open>One step from row \<open>r\<close>, column \<open>c\<close>.\<close>

lemma GetAllHashNode_step:
  assumes t: "bInitSuccess t \<noteq> 0" "rows_wf t" and r: "r < STATIC_HASH_ROW_MAX" "c < unat (dwNodeNums t ! r)"
    and s: "s_iGetAllNodeRowIdx s = of_nat r" "s_iGetAllNodeColIdx s = of_nat c"
    and row: "(case s_pRow s of None \<Rightarrow> pHash t + sizeof_HashTableHead | Some p \<Rightarrow> p)
      = pHash t + sizeof_HashTableHead + node_stride t * row_start t r"
  shows "\<exists>s'. GetAllHashNode t s = (Some (all_nodes t ! (row_start t r + c)), s') \<and>
    enum_at t s' (all_nodes t) (drop (Suc (row_start t r + c)) (all_nodes t))"
proof -
  have cs: "c < 2 ^ 32" "r < 2 ^ 32"
    using r unsigned_less [of "dwNodeNums t ! r", where 'a = nat] by (auto simp: STATIC_HASH_ROW_MAX_def)
  note un = unat_of_nat_small [OF cs(1)] unat_of_nat_small [OF cs(2)]
  have kN: "row_start t r + c < unat (dwRealNodeCount t)"
    using row_start_le [OF t(2), of "Suc r"] row_start_Suc [OF t(2) r(1)] r(2) by simp
  then have k: "row_start t r + c < 2 ^ 32"
    using unsigned_less [of "dwRealNodeCount t", where 'a = nat] by simp
  have node: "pHash t + sizeof_HashTableHead + node_stride t * row_start t r + node_stride t * c
      + sizeof_HashNodeHead = all_nodes t ! (row_start t r + c)"
    using kN unat_of_nat_small [OF k]
    by (simp add: all_nodes_def INDEX_TO_NODE_def algebra_simps del: of_nat_add)
  have le: "dwNodeNums t ! r \<le> of_nat c + 1 \<longleftrightarrow> unat (dwNodeNums t ! r) = Suc c"
  proof -
    have "unat (of_nat c + 1 :: u32) = Suc c"
      using un(1) r(2) by (intro unat_succ_count) auto
    then show ?thesis using r(2) by (auto simp: word_le_nat_alt)
  qed
  let ?s' = "snd (GetAllHashNode t s)"
  have g: "GetAllHashNode t s = (Some (all_nodes t ! (row_start t r + c)), ?s')"
    using t(1) r s row un node by (simp add: GetAllHashNode_def Let_def)
  show ?thesis
  proof (cases "unat (dwNodeNums t ! r) = Suc c")
    case True
    then have "row_start t (Suc r) = Suc (row_start t r + c)" using row_start_Suc [OF t(2) r(1)] by simp
    moreover have "s_iGetAllNodeRowIdx ?s' = of_nat (Suc r)" "s_iGetAllNodeColIdx ?s' = of_nat 0"
      "s_pRow ?s' = Some (pHash t + sizeof_HashTableHead + node_stride t * row_start t (Suc r))"
      using t r s row un le True row_start_Suc [OF t(2) r(1)]
      by (simp_all add: GetAllHashNode_def Let_def algebra_simps)
    moreover have "Suc r < STATIC_HASH_ROW_MAX \<longrightarrow> 0 < unat (dwNodeNums t ! Suc r)"
      using rows_pos [OF t(2)] by blast
    ultimately have "enum_at t ?s' (all_nodes t) (drop (Suc (row_start t r + c)) (all_nodes t))"
      unfolding enum_at_def enum_rep_def using t r(1)
      by (intro conjI exI [of _ "Suc r"] exI [of _ 0]) auto
    with g show ?thesis by blast
  next
    case False
    moreover have "s_iGetAllNodeRowIdx ?s' = of_nat r" "s_iGetAllNodeColIdx ?s' = of_nat (Suc c)"
      "s_pRow ?s' = Some (pHash t + sizeof_HashTableHead + node_stride t * row_start t r)"
      using t r s row un le False by (simp_all add: GetAllHashNode_def Let_def)
    ultimately have "enum_at t ?s' (all_nodes t) (drop (Suc (row_start t r + c)) (all_nodes t))"
      unfolding enum_at_def enum_rep_def using t r
      by (intro conjI exI [of _ r] exI [of _ "Suc c"]) auto
    with g show ?thesis by blast
  qed
qed

lemma length_all_nodes [simp]: "length (all_nodes t) = unat (dwRealNodeCount t)"
  by (simp add: all_nodes_def)

lemma drop_Cons_nth: "drop n xs = q # qs \<Longrightarrow> q = xs ! n \<and> qs = drop (Suc n) xs \<and> n < length xs"
  by (metis Cons_nth_drop_Suc drop_eq_Nil leI list.distinct(1) list.inject)

interpretation enum: cursor_walk "start_enum t" "next_enum t" "enum_rep t" "enum_at t"
  for t :: "'d SharedHashTable"
proof unfold_locales
  fix s
  assume "enum_rep t s []"
  then have t: "rows_wf t" "unat (dwRealNodeCount t) = 0"
    by (auto simp: enum_rep_def all_nodes_def)
  then show "\<exists>s'. start_enum t s = Some (None, s') \<and> enum_rep t s' []"
    using rows_pos [OF t(1), of 0] row_start_Suc [OF t(1), of 0] row_start_le [OF t(1), of "Suc 0"]
    by (simp add: STATIC_HASH_ROW_MAX_def)
next
  fix s p ps
  assume "enum_rep t s (p # ps)"
  then have t: "bInitSuccess t \<noteq> 0" "rows_wf t" "p # ps = all_nodes t" by (auto simp: enum_rep_def)
  have "row_start t 0 = 0" by (simp add: row_start_def)
  then show "\<exists>s'. start_enum t s = Some (Some p, s') \<and> enum_at t s' (p # ps) ps"
    using GetAllHashNode_step [OF t(1,2), of 0 0 "InitGetAllHashNode s"] rows_pos [OF t(2), of 0]
    by (auto simp: start_enum_def InitGetAllHashNode_def STATIC_HASH_ROW_MAX_def simp flip: t(3))
next
  fix s ps
  assume "enum_at t s ps []"
  then obtain r c where t: "enum_rep t s ps" and s: "s_iGetAllNodeRowIdx s = of_nat r"
    and r: "r \<le> STATIC_HASH_ROW_MAX" "r < STATIC_HASH_ROW_MAX \<longrightarrow> c < unat (dwNodeNums t ! r)"
    and d: "[] = drop (row_start t r + c) ps"
    unfolding enum_at_def by metis
  have e: "unat (dwRealNodeCount t) \<le> row_start t r + c" using d t by (simp add: enum_rep_def)
  have "r = STATIC_HASH_ROW_MAX"
    using r e row_start_Suc [of t r] row_start_le [of t "Suc r"] t
    by (force simp: enum_rep_def)
  then show "\<exists>s'. next_enum t s = Some (None, s') \<and> enum_rep t s' ps"
    using t s by (simp add: next_enum_def GetAllHashNode_def enum_rep_def STATIC_HASH_ROW_MAX_def)
next
  fix s ps q qs
  assume "enum_at t s ps (q # qs)"
  then obtain r c where t: "bInitSuccess t \<noteq> 0" "rows_wf t" "ps = all_nodes t"
    and s: "s_iGetAllNodeRowIdx s = of_nat r" "s_iGetAllNodeColIdx s = of_nat c"
      "s_pRow s = Some (pHash t + sizeof_HashTableHead + node_stride t * row_start t r)"
    and r: "r \<le> STATIC_HASH_ROW_MAX" "r < STATIC_HASH_ROW_MAX \<longrightarrow> c < unat (dwNodeNums t ! r)"
    and d: "drop (row_start t r + c) ps = q # qs"
    unfolding enum_at_def enum_rep_def by metis
  note dq = drop_Cons_nth [OF d]
  then have "r \<noteq> STATIC_HASH_ROW_MAX" using t row_start_max [OF t(2)] by auto
  then have "r < STATIC_HASH_ROW_MAX" using r by simp
  with GetAllHashNode_step [OF t(1,2) this, of c s] r s dq t(3)
  show "\<exists>s'. next_enum t s = Some (Some q, s') \<and> enum_at t s' ps qs"
    by (auto simp: next_enum_def)
qed

end
