(* ===== verification/Shm.thy ===== *)
theory Shm
  imports Prelude
begin

text \<open>
  \<open>language/c_cpp/mt_shm.c\<close>: attaching System V segments and the guard strings around the
  payload of a segment. The kernel is a parameter (\<open>ShmOS\<close>): \<open>shmget\<close> may change its state,
  \<open>shmat\<close> yields the address and the bytes that become visible there. Sizes, keys and flags
  are C \<open>int\<close>s that stay far from their bounds; they are integers here. A size is not negative: the callers
  pass sums of \<open>sizeof\<close> values.
\<close>

record 'k ShmOS =
  os_shmget :: "int \<Rightarrow> int \<Rightarrow> int \<Rightarrow> 'k \<Rightarrow> int \<times> 'k"
  os_shmat :: "int \<Rightarrow> 'k \<Rightarrow> (nat \<times> u8 list) option"

record 'k Proc =
  pr_kernel :: 'k
  pr_mem :: "nat \<Rightarrow> u8"

definition IPC_CREAT :: int where
  "IPC_CREAT = 512"

definition MT_ATTACH_SHM_TRY_MAX :: nat where
  "MT_ATTACH_SHM_TRY_MAX = 100"

subsection \<open>Bytes\<close>

definition mem_put :: "nat \<Rightarrow> u8 list \<Rightarrow> (nat \<Rightarrow> u8) \<Rightarrow> nat \<Rightarrow> u8" where
  "mem_put a bs m = (\<lambda>x. if a \<le> x \<and> x < a + length bs then bs ! (x - a) else m x)"

definition mem_get :: "nat \<Rightarrow> nat \<Rightarrow> (nat \<Rightarrow> u8) \<Rightarrow> u8 list" where
  "mem_get a n m = map m [a..<a + n]"

lemma length_mem_get [simp]: "length (mem_get a n m) = n"
  by (simp add: mem_get_def)

lemma mem_get_put [simp]: "length bs = n \<Longrightarrow> mem_get a n (mem_put a bs m) = bs"
  by (rule nth_equalityI) (auto simp: mem_get_def mem_put_def)

lemma mem_get_put_other:
  "a + n \<le> b \<or> b + length bs \<le> a \<Longrightarrow> mem_get a n (mem_put b bs m) = mem_get a n m"
  by (auto simp: mem_get_def mem_put_def)

lemma mem_get_put_inside:
  assumes "k + n \<le> length bs"
  shows "mem_get (a + k) n (mem_put a bs m) = take n (drop k bs)"
  using assms by (intro nth_equalityI) (auto simp: mem_get_def mem_put_def)

lemma mem_get_add: "mem_get a (m + n) f = mem_get a m f @ mem_get (a + m) n f"
  unfolding mem_get_def add.assoc [symmetric] by (subst upt_add_eq_append) simp_all

subsection \<open>Attaching\<close>

definition MtReportGetShm :: "'k ShmOS \<Rightarrow> int \<Rightarrow> int \<Rightarrow> int \<Rightarrow> 'k Proc \<Rightarrow> nat option \<times> 'k Proc" where
  "MtReportGetShm os iKey iSize iFlag p =
     (let (iShmID, k) = os_shmget os iKey iSize iFlag (pr_kernel p); p = p\<lparr>pr_kernel := k\<rparr> in
      if iShmID < 0 then (None, p)
      else case os_shmat os iShmID k of
          None \<Rightarrow> (None, p)
        | Some (a, bs) \<Rightarrow> (Some a, p\<lparr>pr_mem := mem_put a bs (pr_mem p)\<rparr>))"

text \<open>
  The result is the return code, the value stored through \<open>pstShm\<close> (\<open>None\<close>: not stored) and
  the process.
\<close>

definition MtReport_GetShm ::
    "'k ShmOS \<Rightarrow> int \<Rightarrow> int \<Rightarrow> int \<Rightarrow> u8 list \<Rightarrow> 'k Proc \<Rightarrow> int \<times> nat option \<times> 'k Proc" where
  "MtReport_GetShm os iShmID iSize iFlag pcheckstr p =
     (let iCheckSize = int (length pcheckstr) in
      case MtReportGetShm os iShmID (iSize + iCheckSize * 2) (iFlag AND NOT IPC_CREAT) p of
        (None, p) \<Rightarrow>
          (if iFlag AND IPC_CREAT = 0 then (-1, None, p)
           else case MtReportGetShm os iShmID (iSize + iCheckSize * 2) iFlag p of
               (None, p) \<Rightarrow> (-1, None, p)
             | (Some sShm, p) \<Rightarrow>
                 (let m = mem_put sShm pcheckstr (pr_mem p);
                      m = mem_put (sShm + length pcheckstr + nat iSize) pcheckstr m;
                      m = mem_put (sShm + length pcheckstr) (replicate (nat iSize) 0) m
                  in (1, Some (sShm + length pcheckstr), p\<lparr>pr_mem := m\<rparr>)))
      | (Some sShm, p) \<Rightarrow>
          (if mem_get sShm (length pcheckstr) (pr_mem p) \<noteq> pcheckstr
              \<or> mem_get (sShm + length pcheckstr + nat iSize) (length pcheckstr) (pr_mem p) \<noteq> pcheckstr
           then (-2, None, p)
           else (0, Some (sShm + length pcheckstr), p)))"

subsection \<open>Guards\<close>

text \<open>A segment image of the expected shape.\<close>

definition guarded :: "u8 list \<Rightarrow> u8 list \<Rightarrow> u8 list \<Rightarrow> bool" where
  "guarded chk payload bs \<longleftrightarrow> bs = chk @ payload @ chk"

lemma GetShm_created:
  assumes "MtReport_GetShm os key sz flag chk p = (1, q, p')" "0 \<le> sz"
  shows "\<exists>s. q = Some (s + length chk) \<and>
    guarded chk (replicate (nat sz) 0) (mem_get s (length chk + nat sz + length chk) (pr_mem p'))"
proof -
  obtain s m where q: "q = Some (s + length chk)"
    and m: "pr_mem p' = mem_put (s + length chk) (replicate (nat sz) 0)
      (mem_put (s + length chk + nat sz) chk (mem_put s chk m))"
    using assms(1) by (auto simp: MtReport_GetShm_def Let_def split: prod.splits option.splits if_splits)
  have "mem_get s (length chk) (pr_mem p') = chk"
    "mem_get (s + length chk) (nat sz) (pr_mem p') = replicate (nat sz) 0"
    "mem_get (s + length chk + nat sz) (length chk) (pr_mem p') = chk"
    by (simp_all add: m mem_get_put_other)
  then show ?thesis by (simp add: q guarded_def mem_get_add add.assoc)
qed

text \<open>
  Attaching a segment whose image is \<open>bs\<close>: accepted exactly when both guards are intact,
  and then the payload is visible at the returned address.
\<close>

lemma GetShm_attach:
  assumes os: "MtReportGetShm os key (sz + int (length chk) * 2) (flag AND NOT IPC_CREAT) p
      = (Some s, p')" "mem_get s (length bs) (pr_mem p') = bs"
    and len: "length bs = length chk + nat sz + length chk"
  shows "MtReport_GetShm os key sz flag chk p =
    (if \<exists>pl. guarded chk pl bs then (0, Some (s + length chk), p') else (-2, None, p'))"
proof -
  let ?a = "mem_get s (length chk) (pr_mem p')"
  let ?b = "mem_get (s + length chk) (nat sz) (pr_mem p')"
  let ?c = "mem_get (s + length chk + nat sz) (length chk) (pr_mem p')"
  have bs: "bs = ?a @ ?b @ ?c"
    using os(2) unfolding len by (simp add: mem_get_add add.assoc)
  have "(\<exists>pl. guarded chk pl bs) \<longleftrightarrow> ?a = chk \<and> ?c = chk"
  proof
    assume "\<exists>pl. guarded chk pl bs"
    then obtain pl where pl: "?a @ ?b @ ?c = chk @ pl @ chk" using bs by (auto simp: guarded_def)
    then have a: "?a = chk" "?b @ ?c = pl @ chk" by (auto simp: append_eq_append_conv)
    then have "length ?b = length pl" using arg_cong [OF a(2), of length] by simp
    with a show "?a = chk \<and> ?c = chk" by (simp add: append_eq_append_conv)
  next
    assume "?a = chk \<and> ?c = chk"
    then show "\<exists>pl. guarded chk pl bs" using bs unfolding guarded_def by metis
  qed
  then show ?thesis by (simp add: MtReport_GetShm_def os(1) Let_def)
qed

end
