(* ===== verification/Hash_Init.thy ===== *)
theory Hash_Init
  imports Hash_Search Shm
begin

text \<open>
  Setting a table up: the four initialisation functions of linked tables in
  \<open>language/c_cpp/mt_shared_hash.c\<close>. The bytes of an attached segment are read as a table
  through the parameter \<open>view\<close> (the cast to \<open>_HashTableHead*\<close> and to the node structures).
\<close>

subsection \<open>The functions\<close>

text \<open>The assignments all of them start with: sizes, rows, callbacks.\<close>

definition init_tab :: "u32 \<Rightarrow> u32 \<Rightarrow> ('d \<Rightarrow> 'd \<Rightarrow> int) \<Rightarrow> bool \<Rightarrow> 'd SharedHashTable \<Rightarrow> 'd SharedHashTable" where
  "init_tab sz cnt cmp warn t =
     (let rows = hash_rows STATIC_HASH_ROW_MAX cnt in
      t\<lparr>dwNodeSize := sz, dwNodeCount := cnt, dwNodeNums := rows, dwRealNodeCount := sum_list rows,
        fun_cmp := Some cmp, fun_war := warn\<rparr>)"

text \<open>
  \<open>sizeof(_HashTableHead) + n * (dwNodeSize + sizeof(_HashNodeHead))\<close>, computed in
  \<open>size_t\<close> and stored in a \<open>uint32_t\<close>.
\<close>

definition table_bytes :: "u32 \<Rightarrow> u32 \<Rightarrow> u32" where
  "table_bytes n sz = of_nat (sizeof_HashTableHead + unat n * (unat sz + sizeof_HashNodeHead))"

definition init_done :: "'d SharedHashTable \<Rightarrow> 'd SharedHashTable" where
  "init_done t = t\<lparr>bInitSuccess := 1, dwCurIndex := dwRealNodeCount t, dwCurIndexRevers := dwRealNodeCount t\<rparr>"

text \<open>\<open>pShm\<close> is the address and \<open>seg\<close> the memory it points to.\<close>

definition MtReport_CreateHashTable :: "'d HashEnv \<Rightarrow> nat \<Rightarrow> 'd HashSeg \<Rightarrow> int \<Rightarrow> u32 \<Rightarrow> u32
    \<Rightarrow> ('d \<Rightarrow> 'd \<Rightarrow> int) option \<Rightarrow> bool \<Rightarrow> 'd HashWorld \<Rightarrow> (int \<times> 'd HashWorld) option" where
  "MtReport_CreateHashTable env pShm seg cShmInit sz cnt cmpo warn w =
     (if bInitSuccess (hw_tab w) \<noteq> 0 then Some (0, w)
      else case cmpo of None \<Rightarrow> Some (-1, w) | Some cmp \<Rightarrow>
        if sz = 0 \<or> cnt = 0 then Some (-1, w)
        else let w = upd_tab (\<lambda>t. (init_tab sz cnt cmp warn t)\<lparr>dwShareMemBytes := table_bytes cnt sz,
                       pHash := pShm\<rparr>) w;
                 w = w\<lparr>hw_seg := seg\<rparr>; N = dwRealNodeCount (hw_tab w)
        in if cShmInit = 1 \<and> (th_dwNodeSize (thead w) \<noteq> sz \<or> th_dwNodeCount (thead w) \<noteq> cnt)
           then Some (-3, w)
           else let w = (if cShmInit = 1 then w
                         else upd_thead (\<lambda>h. h\<lparr>dwNodeStartIndex := N, dwNodeEndIndex := N,
                                th_dwNodeSize := sz, th_dwNodeCount := cnt\<rparr>) w);
                    w = upd_tab init_done w
             in if bAccessCheck (hw_tab w) \<noteq> 0
                then do {
                  (rc, w) \<leftarrow> CheckHashTable env w;
                  if rc \<noteq> 0 then map_option (Pair 0) (ResetHashTable env w) else Some (0, w)
                }
                else Some (0, w))"

text \<open>
  The attach loop of \<open>MtReport_InitHashTable\<close>: \<open>n\<close> keys are left, starting at \<open>key\<close>. The
  result is the key that worked and the address.
\<close>

fun attach_loop :: "'k ShmOS \<Rightarrow> nat \<Rightarrow> int \<Rightarrow> int \<Rightarrow> u8 list \<Rightarrow> 'k Proc \<Rightarrow> (int \<times> nat) option \<times> 'k Proc" where
  "attach_loop os 0 key sz chk p = (None, p)"
| "attach_loop os (Suc n) key sz chk p =
     (case MtReport_GetShm os key sz 438 chk p of
        (rc, Some a, p) \<Rightarrow>
          (if rc = 0 then (Some (key, a), p) else attach_loop os n (key + 1) sz chk p)
      | (rc, None, p) \<Rightarrow> attach_loop os n (key + 1) sz chk p)"

text \<open>
  \<open>chk\<close> is \<open>MTREPORT_SHARED_HASH_CHECK_STR\<close>. The result holds the return code, the value of
  \<open>*piSharedKey\<close>, the table and the process.
\<close>

definition MtReport_InitHashTable :: "'k ShmOS \<Rightarrow> ((nat \<Rightarrow> u8) \<Rightarrow> nat \<Rightarrow> 'd HashSeg) \<Rightarrow> u8 list
    \<Rightarrow> u32 \<Rightarrow> u32 \<Rightarrow> int \<Rightarrow> ('d \<Rightarrow> 'd \<Rightarrow> int) option \<Rightarrow> bool \<Rightarrow> 'd HashWorld \<Rightarrow> 'k Proc
    \<Rightarrow> int \<times> int \<times> 'd HashWorld \<times> 'k Proc" where
  "MtReport_InitHashTable os view chk sz cnt piSharedKey cmpo warn w p =
     (if bInitSuccess (hw_tab w) \<noteq> 0 then (0, piSharedKey, w, p)
      else case cmpo of None \<Rightarrow> (-1, piSharedKey, w, p) | Some cmp \<Rightarrow>
        if sz = 0 \<or> cnt = 0 \<or> piSharedKey = 0 then (-1, piSharedKey, w, p)
        else let w = upd_tab (\<lambda>t. let t = init_tab sz cnt cmp warn t in
                       t\<lparr>dwShareMemBytes := table_bytes (dwRealNodeCount t) sz\<rparr>) w
        in case attach_loop os MT_ATTACH_SHM_TRY_MAX piSharedKey
                  (sint (dwShareMemBytes (hw_tab w))) chk p of
            (None, p) \<Rightarrow> (-1, piSharedKey, w, p)
          | (Some (key, a), p) \<Rightarrow>
              (let w = (upd_tab (\<lambda>t. t\<lparr>pHash := a\<rparr>) w)\<lparr>hw_seg := view (pr_mem p) a\<rparr> in
               if th_dwNodeSize (thead w) \<noteq> sz \<or> th_dwNodeCount (thead w) \<noteq> cnt
               then (-3, key, w, p) else (0, key, upd_tab init_done w, p)))"

text \<open>\<open>memset(pHash, 0, dwShareMemBytes)\<close>: the head and the covered slots.\<close>

definition memset_table :: "'d HashEnv \<Rightarrow> 'd HashWorld \<Rightarrow> 'd HashWorld option" where
  "memset_table env w = memset_nodes env (upd_thead (\<lambda>_. zero_table_head) w)"

definition InitHashTable :: "'d HashEnv \<Rightarrow> 'k ShmOS \<Rightarrow> ((nat \<Rightarrow> u8) \<Rightarrow> nat \<Rightarrow> 'd HashSeg) \<Rightarrow> u32 \<Rightarrow> u32 \<Rightarrow> u32
    \<Rightarrow> ('d \<Rightarrow> 'd \<Rightarrow> int) option \<Rightarrow> bool \<Rightarrow> 'd HashWorld \<Rightarrow> 'k Proc \<Rightarrow> (int \<times> 'd HashWorld \<times> 'k Proc) option" where
  "InitHashTable env os view sz cnt dwSharedKey cmpo warn w p =
     (if bInitSuccess (hw_tab w) \<noteq> 0 then Some (0, w, p)
      else case cmpo of None \<Rightarrow> Some (-1, w, p) | Some cmp \<Rightarrow>
        if sz = 0 \<or> cnt = 0 \<or> dwSharedKey = 0 then Some (-1, w, p)
        else let w = upd_tab (\<lambda>t. let t = init_tab sz cnt cmp warn t in
                       t\<lparr>dwShareMemBytes := table_bytes (dwRealNodeCount t) sz\<rparr>) w;
                 bytes = sint (dwShareMemBytes (hw_tab w)); key = sint dwSharedKey;
                 attach = (\<lambda>a p. (upd_tab (\<lambda>t. t\<lparr>pHash := a\<rparr>) w)\<lparr>hw_seg := view (pr_mem p) a\<rparr>);
                 finish = (\<lambda>w p. if th_dwNodeSize (thead w) \<noteq> sz \<or> th_dwNodeCount (thead w) \<noteq> cnt
                   then Some (-3, w, p) else Some (0, upd_tab init_done w, p))
        in case MtReportGetShm os key bytes 438 p of
            (Some a, p) \<Rightarrow> finish (attach a p) p
          | (None, p) \<Rightarrow>
              (case MtReportGetShm os key bytes (438 OR IPC_CREAT) p of
                 (None, p) \<Rightarrow> Some (-2, upd_tab (\<lambda>t. t\<lparr>pHash := 0\<rparr>) w, p)
               | (Some a, p) \<Rightarrow> do {
                   w \<leftarrow> memset_table env (attach a p);
                   let N = dwRealNodeCount (hw_tab w);
                   finish (upd_thead (\<lambda>h. h\<lparr>dwNodeStartIndex := N, dwNodeEndIndex := N,
                     th_dwNodeSize := sz, th_dwNodeCount := cnt\<rparr>) w) p
                 }))"

definition InitHashTableForWrite :: "'d HashEnv \<Rightarrow> 'k ShmOS \<Rightarrow> ((nat \<Rightarrow> u8) \<Rightarrow> nat \<Rightarrow> 'd HashSeg) \<Rightarrow> u32 \<Rightarrow> u32 \<Rightarrow> u32
    \<Rightarrow> ('d \<Rightarrow> 'd \<Rightarrow> int) option \<Rightarrow> bool \<Rightarrow> 'd HashWorld \<Rightarrow> 'k Proc \<Rightarrow> (int \<times> 'd HashWorld \<times> 'k Proc) option" where
  "InitHashTableForWrite env os view sz cnt dwSharedKey cmpo warn w p = do {
     (iRet, w, p) \<leftarrow> InitHashTable env os view sz cnt dwSharedKey cmpo warn w p;
     if iRet \<noteq> 0 then Some (iRet, w, p)
     else Some (0, upd_thead (\<lambda>h. h\<lparr>dwWriteProcessId := 0\<rparr>) w, p)
   }"

subsection \<open>The row table of an initialised descriptor\<close>

text \<open>
  With at least eleven nodes and fewer than \<open>2 ^ 28\<close> the rows are ten different positive
  sizes whose sum does not wrap.
\<close>

lemma init_tab_sel [simp]:
  "dwNodeSize (init_tab sz cnt cmp warn t) = sz" "dwNodeCount (init_tab sz cnt cmp warn t) = cnt"
  "dwNodeNums (init_tab sz cnt cmp warn t) = hash_rows STATIC_HASH_ROW_MAX cnt"
  "dwRealNodeCount (init_tab sz cnt cmp warn t) = sum_list (hash_rows STATIC_HASH_ROW_MAX cnt)"
  "fun_cmp (init_tab sz cnt cmp warn t) = Some cmp" "fun_war (init_tab sz cnt cmp warn t) = warn"
  "bInitSuccess (init_tab sz cnt cmp warn t) = bInitSuccess t"
  "bAccessCheck (init_tab sz cnt cmp warn t) = bAccessCheck t"
  "pHash (init_tab sz cnt cmp warn t) = pHash t"
  by (simp_all add: init_tab_def Let_def)

lemma hash_rows_total:
  assumes "10 < unat cnt" "unat cnt \<le> 2 ^ 28"
  shows "sum_list (map unat (hash_rows STATIC_HASH_ROW_MAX cnt)) < 2 ^ 32"
proof -
  have "sum_list (map unat (hash_rows STATIC_HASH_ROW_MAX cnt)) \<le> STATIC_HASH_ROW_MAX * (unat cnt - 1)"
    using assms by (intro hash_rows_sum) (auto simp: STATIC_HASH_ROW_MAX_def)
  then show ?thesis using assms by (simp add: STATIC_HASH_ROW_MAX_def)
qed

lemma rows_wf_hash_rows:
  assumes "10 < unat cnt" "unat cnt \<le> 2 ^ 28"
    and "dwNodeNums t = hash_rows STATIC_HASH_ROW_MAX cnt" "dwRealNodeCount t = sum_list (dwNodeNums t)"
  shows "rows_wf t"
proof -
  have "0 \<notin> set (hash_rows STATIC_HASH_ROW_MAX cnt)"
    using hash_rows_facts [of STATIC_HASH_ROW_MAX cnt] assms(1) by (auto simp: STATIC_HASH_ROW_MAX_def)
  then show ?thesis
    using unat_sum_list [of "hash_rows STATIC_HASH_ROW_MAX cnt"] hash_rows_total [OF assms(1,2)] assms(3,4)
    by (simp add: rows_wf_def)
qed

lemma covers_table_bytes:
  assumes "sizeof_HashTableHead + unat n * (unat (dwNodeSize t) + sizeof_HashNodeHead) < 2 ^ 32"
    and "dwShareMemBytes t = table_bytes n (dwNodeSize t)"
  shows "covers t (unat n)"
  using unat_of_nat_small [OF assms(1)] assms(2)
  by (simp add: covers_def table_bytes_def node_stride_def add.commute)

subsection \<open>What the functions establish\<close>

text \<open>The number of nodes a table for \<open>cnt\<close> requested nodes really has, and its size.\<close>

definition real_count :: "u32 \<Rightarrow> u32" where
  "real_count cnt = sum_list (hash_rows STATIC_HASH_ROW_MAX cnt)"

definition fits :: "u32 \<Rightarrow> u32 \<Rightarrow> bool" where
  "fits sz cnt \<longleftrightarrow> 10 < unat cnt \<and> unat cnt \<le> 2 ^ 28 \<and>
     sizeof_HashTableHead + unat (real_count cnt) * (unat sz + sizeof_HashNodeHead) < 2 ^ 32"

lemma fits_pos: "fits sz cnt \<Longrightarrow> cnt \<noteq> 0"
  by (auto simp: fits_def)

lemma init_done_sel [simp]:
  "dwNodeSize (init_done t) = dwNodeSize t" "dwNodeNums (init_done t) = dwNodeNums t"
  "dwRealNodeCount (init_done t) = dwRealNodeCount t" "dwShareMemBytes (init_done t) = dwShareMemBytes t"
  "fun_cmp (init_done t) = fun_cmp t" "bInitSuccess (init_done t) = 1" "pHash (init_done t) = pHash t"
  "bAccessCheck (init_done t) = bAccessCheck t"
  "dwCurIndex (init_done t) = dwRealNodeCount t" "dwCurIndexRevers (init_done t) = dwRealNodeCount t"
  by (simp_all add: init_done_def)

text \<open>The descriptor an initialisation leaves behind.\<close>

definition ready :: "u32 \<Rightarrow> u32 \<Rightarrow> ('d \<Rightarrow> 'd \<Rightarrow> int) \<Rightarrow> 'd HashWorld \<Rightarrow> bool" where
  "ready sz cnt cmp w \<longleftrightarrow> bInitSuccess (hw_tab w) = 1 \<and> rows_wf (hw_tab w) \<and>
     dwRealNodeCount (hw_tab w) = real_count cnt \<and> dwNodeSize (hw_tab w) = sz \<and>
     fun_cmp (hw_tab w) = Some cmp \<and> cursors_wf w []"

lemma InitHashTable_creates:
  assumes init: "bInitSuccess (hw_tab w) = 0" and sz: "sz \<noteq> 0" "fits sz cnt" "key \<noteq> 0"
    and miss: "MtReportGetShm os (sint key) (sint (table_bytes (real_count cnt) sz)) 438 p = (None, p1)"
    and hit: "MtReportGetShm os (sint key) (sint (table_bytes (real_count cnt) sz)) (438 OR IPC_CREAT) p1
      = (Some a, p2)"
    and slots: "unat (real_count cnt) \<le> seg_slots (view (pr_mem p2) a)"
  shows "\<exists>w'. InitHashTable env os view sz cnt key (Some cmp) warn w p = Some (0, w', p2) \<and>
    table_wf w' [] \<and> ready sz cnt cmp w' \<and> covers (hw_tab w') (unat (real_count cnt)) \<and>
    bHashUseFlag (thead w') = 0 \<and> dwWriteProcessId (thead w') = 0"
proof -
  define t where "t = (init_tab sz cnt cmp warn (hw_tab w))\<lparr>dwShareMemBytes := table_bytes (real_count cnt) sz\<rparr>"
  define t' where "t' = init_done (t\<lparr>pHash := a\<rparr>)"
  let ?w1 = "(upd_tab (\<lambda>_. t\<lparr>pHash := a\<rparr>) w)\<lparr>hw_seg := view (pr_mem p2) a\<rparr>"
  have cov: "covers t' (unat (real_count cnt))"
    using sz(2) by (intro covers_table_bytes) (simp_all add: t'_def t_def fits_def)
  then have cov1: "covers (t\<lparr>pHash := a\<rparr>) (unat (real_count cnt))"
    by (simp add: covers_def t'_def node_stride_def)
  obtain w2 where w2: "memset_table env ?w1 = Some w2" "hw_tab w2 = t\<lparr>pHash := a\<rparr>"
    "thead w2 = zero_table_head" "seg_slots (hw_seg w2) = seg_slots (view (pr_mem p2) a)"
    "\<And>i. unat i < unat (real_count cnt) \<Longrightarrow> seg_nodes (hw_seg w2) i = zero_node_head"
    using slots cov1 by (simp add: memset_table_def memset_nodes_def Let_def covers_def upd_tab_def)
  let ?w' = "upd_tab init_done (upd_thead (\<lambda>h. h\<lparr>dwNodeStartIndex := real_count cnt,
    dwNodeEndIndex := real_count cnt, th_dwNodeSize := sz, th_dwNodeCount := cnt\<rparr>) w2)"
  have N: "dwRealNodeCount t = real_count cnt" by (simp add: t_def real_count_def)
  have run: "InitHashTable env os view sz cnt key (Some cmp) warn w p = Some (0, ?w', p2)"
    using init sz fits_pos [OF sz(2)] miss hit w2 N
    by (simp add: InitHashTable_def Let_def upd_tab_def t_def real_count_def)
  have rows: "rows_wf t'"
    using sz(2) by (intro rows_wf_hash_rows [of cnt]) (simp_all add: t'_def t_def fits_def)
  have "dll (seg_nodes (hw_seg w2)) (real_count cnt) []"
    using w2(5) by (auto simp: dll_empty zero_node_head_def word_less_nat_alt)
  then have "table_wf ?w' []"
    using w2 slots N by (simp add: table_wf_def zero_table_head_def)
  moreover have "ready sz cnt cmp ?w'"
    using rows w2(2) N by (simp add: ready_def t'_def cursors_wf_def) (simp add: t_def)
  moreover have "covers (hw_tab ?w') (unat (real_count cnt))" using cov w2(2) by (simp add: t'_def)
  ultimately show ?thesis using run w2(3) by (auto simp: zero_table_head_def)
qed

text \<open>
  A process that attaches a segment in which another process keeps the list \<open>xs\<close> (at
  whatever address) sees the same list.
\<close>

lemma InitHashTable_attaches:
  assumes init: "bInitSuccess (hw_tab w) = 0" and sz: "sz \<noteq> 0" "fits sz cnt" "key \<noteq> 0"
    and hit: "MtReportGetShm os (sint key) (sint (table_bytes (real_count cnt) sz)) 438 p = (Some a, p1)"
    and seg: "view (pr_mem p1) a = hw_seg v"
    and head: "th_dwNodeSize (thead v) = sz" "th_dwNodeCount (thead v) = cnt"
  shows "\<exists>w'. InitHashTable env os view sz cnt key (Some cmp) warn w p = Some (0, w', p1) \<and>
    ready sz cnt cmp w' \<and> hw_seg w' = hw_seg v \<and>
    (\<forall>xs. table_wf v xs \<and> dwRealNodeCount (hw_tab v) = real_count cnt \<longrightarrow> table_wf w' xs)"
proof -
  define t where "t = (init_tab sz cnt cmp warn (hw_tab w))\<lparr>dwShareMemBytes := table_bytes (real_count cnt) sz,
    pHash := a\<rparr>"
  let ?w' = "(upd_tab (\<lambda>_. init_done t) w)\<lparr>hw_seg := hw_seg v\<rparr>"
  have run: "InitHashTable env os view sz cnt key (Some cmp) warn w p = Some (0, ?w', p1)"
    using init sz fits_pos [OF sz(2)] hit seg head
    by (simp add: InitHashTable_def Let_def upd_tab_def t_def real_count_def)
  have "rows_wf (init_done t)"
    using sz(2) by (intro rows_wf_hash_rows [of cnt]) (simp_all add: t_def fits_def)
  moreover have N: "dwRealNodeCount t = real_count cnt" by (simp add: t_def real_count_def)
  moreover have "dwNodeSize t = sz" "fun_cmp t = Some cmp" by (simp_all add: t_def)
  ultimately have "ready sz cnt cmp ?w'" by (simp add: ready_def cursors_wf_def)
  moreover have "\<forall>xs. table_wf v xs \<and> dwRealNodeCount (hw_tab v) = real_count cnt \<longrightarrow> table_wf ?w' xs" using N by (auto simp: table_wf_def)
  ultimately show ?thesis using run by auto
qed

lemma InitHashTable_mismatch:
  assumes "bInitSuccess (hw_tab w) = 0" "sz \<noteq> 0" "cnt \<noteq> 0" "key \<noteq> 0"
    and "MtReportGetShm os (sint key) (sint (table_bytes (real_count cnt) sz)) 438 p = (Some a, p1)"
    and "th_dwNodeSize (seg_head (view (pr_mem p1) a)) \<noteq> sz \<or> th_dwNodeCount (seg_head (view (pr_mem p1) a)) \<noteq> cnt"
  shows "\<exists>w'. InitHashTable env os view sz cnt key (Some cmp) warn w p = Some (-3, w', p1) \<and>
    bInitSuccess (hw_tab w') = 0"
  using assms by (auto simp: InitHashTable_def Let_def real_count_def upd_tab_def)

subsection \<open>Tables in foreign memory\<close>

text \<open>
  \<open>MtReport_CreateHashTable\<close> on fresh memory also yields an empty table, but records the
  byte count of \<open>cnt\<close> nodes, although the table has \<open>real_count cnt\<close> of them.
\<close>

lemma MtReport_CreateHashTable_fresh:
  assumes init: "bInitSuccess (hw_tab w) = 0" "bAccessCheck (hw_tab w) = 0"
    and sz: "sz \<noteq> 0" "fits sz cnt" "cshm \<noteq> 1"
    and seg: "unat (real_count cnt) \<le> seg_slots seg" "dwNodeUseCount (seg_head seg) = 0"
      "\<And>i. i < real_count cnt \<Longrightarrow> bIsUsed (seg_nodes seg i) = 0"
    and bytes: "sizeof_HashTableHead + unat cnt * (unat sz + sizeof_HashNodeHead) < 2 ^ 32"
  shows "\<exists>w'. MtReport_CreateHashTable env a seg cshm sz cnt (Some cmp) warn w = Some (0, w') \<and>
    table_wf w' [] \<and> ready sz cnt cmp w' \<and> covers (hw_tab w') (unat cnt) \<and>
    bHashUseFlag (thead w') = bHashUseFlag (seg_head seg) \<and>
    dwWriteProcessId (thead w') = dwWriteProcessId (seg_head seg)"
proof -
  define t where "t = (init_tab sz cnt cmp warn (hw_tab w))\<lparr>dwShareMemBytes := table_bytes cnt sz, pHash := a\<rparr>"
  let ?w' = "upd_tab init_done (upd_thead (\<lambda>h. h\<lparr>dwNodeStartIndex := real_count cnt,
    dwNodeEndIndex := real_count cnt, th_dwNodeSize := sz, th_dwNodeCount := cnt\<rparr>)
    ((upd_tab (\<lambda>_. t) w)\<lparr>hw_seg := seg\<rparr>))"
  have N: "dwRealNodeCount t = real_count cnt" by (simp add: t_def real_count_def)
  have run: "MtReport_CreateHashTable env a seg cshm sz cnt (Some cmp) warn w = Some (0, ?w')"
    using init sz fits_pos [OF sz(2)]
    by (simp add: MtReport_CreateHashTable_def Let_def upd_tab_def t_def real_count_def upd_thead_def)
  have "covers (init_done t) (unat cnt)"
    using bytes by (intro covers_table_bytes) (simp_all add: t_def)
  moreover have "rows_wf (init_done t)"
    using sz(2) by (intro rows_wf_hash_rows [of cnt]) (simp_all add: t_def fits_def)
  moreover have "dwNodeSize t = sz" "fun_cmp t = Some cmp" by (simp_all add: t_def)
  ultimately show ?thesis
    using run seg N by (simp add: table_wf_def dll_empty ready_def cursors_wf_def)
qed

end
