(* ===== verification/Hash_NoList.thy ===== *)
theory Hash_NoList
  imports Hash_Init
begin

text \<open>
  The tables without list of \<open>language/c_cpp/mt_shared_hash.c\<close> (\<open>SharedHashTableNoList\<close>):
  initialisation in shared or heap memory, lookup, and enumeration. A node is its payload
  only; a free node is one that compares equal to the client's empty key. The memory of the
  table is given by the payload at each address.
\<close>

record 'd SharedHashTableNoList =
  nl_dwNodeSize :: u32
  nl_dwNodeCount :: u32
  nl_dwRealNodeCount :: u32
  nl_dwShareMemBytes :: u32
  nl_dwNodeNums :: "u32 list"
  nl_bInitSuccess :: u8
  nl_fun_cmp :: "('d \<Rightarrow> 'd \<Rightarrow> int) option"
  nl_fun_war :: bool
  nl_pHash :: nat

subsection \<open>Initialisation\<close>

text \<open>\<open>memset(phash, 0, sizeof *phash)\<close> and the assignments that follow.\<close>

definition init_NoList :: "u32 \<Rightarrow> u32 \<Rightarrow> ('d \<Rightarrow> 'd \<Rightarrow> int) \<Rightarrow> bool \<Rightarrow> 'd SharedHashTableNoList" where
  "init_NoList sz cnt cmp warn =
     (let rows = hash_rows_NoList STATIC_HASH_ROW_MAX cnt; N = sum_list rows in
      \<lparr>nl_dwNodeSize = sz, nl_dwNodeCount = cnt, nl_dwRealNodeCount = N, nl_dwShareMemBytes = N * sz,
       nl_dwNodeNums = rows, nl_bInitSuccess = 0, nl_fun_cmp = Some cmp, nl_fun_war = warn, nl_pHash = 0\<rparr>)"

definition InitHashTable_NoList :: "'k ShmOS \<Rightarrow> u32 \<Rightarrow> u32 \<Rightarrow> u32 \<Rightarrow> ('d \<Rightarrow> 'd \<Rightarrow> int) option \<Rightarrow> bool
    \<Rightarrow> 'd SharedHashTableNoList \<Rightarrow> 'k Proc \<Rightarrow> int \<times> 'd SharedHashTableNoList \<times> 'k Proc" where
  "InitHashTable_NoList os sz cnt dwSharedKey cmpo warn t p =
     (if nl_bInitSuccess t \<noteq> 0 then (0, t, p)
      else case cmpo of None \<Rightarrow> (-1, t, p) | Some cmp \<Rightarrow>
        if sz = 0 \<or> cnt = 0 \<or> dwSharedKey = 0 then (-1, t, p)
        else let t = init_NoList sz cnt cmp warn; bytes = nl_dwShareMemBytes t in
          case MtReportGetShm os (sint dwSharedKey) (sint bytes) 438 p of
            (Some a, p) \<Rightarrow> (0, t\<lparr>nl_pHash := a, nl_bInitSuccess := 1\<rparr>, p)
          | (None, p) \<Rightarrow>
              (case MtReportGetShm os (sint dwSharedKey) (sint bytes) (438 OR IPC_CREAT) p of
                 (None, p) \<Rightarrow> (-2, t, p)
               | (Some a, p) \<Rightarrow> (0, t\<lparr>nl_pHash := a, nl_bInitSuccess := 1\<rparr>,
                   p\<lparr>pr_mem := mem_put a (replicate (unat bytes) 0) (pr_mem p)\<rparr>)))"

text \<open>\<open>alloc\<close> is the result of \<open>malloc\<close>; a null result fails the assertion.\<close>

definition InitHashTable_NoList_Heap :: "(u32 \<Rightarrow> nat option) \<Rightarrow> u32 \<Rightarrow> u32 \<Rightarrow> ('d \<Rightarrow> 'd \<Rightarrow> int) option \<Rightarrow> bool
    \<Rightarrow> 'd SharedHashTableNoList \<Rightarrow> 'k Proc \<Rightarrow> (int \<times> 'd SharedHashTableNoList \<times> 'k Proc) option" where
  "InitHashTable_NoList_Heap alloc sz cnt cmpo warn t p =
     (if nl_bInitSuccess t \<noteq> 0 then Some (0, t, p)
      else case cmpo of None \<Rightarrow> Some (-1, t, p) | Some cmp \<Rightarrow>
        if sz = 0 \<or> cnt = 0 then Some (-1, t, p)
        else let t = init_NoList sz cnt cmp warn; bytes = nl_dwShareMemBytes t in do {
          a \<leftarrow> alloc bytes;
          Some (0, t\<lparr>nl_pHash := a, nl_bInitSuccess := 1\<rparr>,
            p\<lparr>pr_mem := mem_put a (replicate (unat bytes) 0) (pr_mem p)\<rparr>)
        })"

subsection \<open>Lookup\<close>

text \<open>The offsets are computed in 32 bits: \<open>dwNodeSize * (dwShortKey % n)\<close> wraps.\<close>

fun search_rows_NoList :: "(nat \<Rightarrow> 'd) \<Rightarrow> 'd SharedHashTableNoList \<Rightarrow> 'd \<Rightarrow> u32 \<Rightarrow> nat \<Rightarrow> u32 list \<Rightarrow> nat option option" where
  "search_rows_NoList m t pKey dwShortKey pRow [] = Some None"
| "search_rows_NoList m t pKey dwShortKey pRow (n # ns) =
     (if n = 0 then None
      else let pNode = pRow + unat (nl_dwNodeSize t * (dwShortKey mod n)) in do {
        cmp \<leftarrow> nl_fun_cmp t;
        if cmp pKey (m pNode) = 0 then Some (Some pNode)
        else search_rows_NoList m t pKey dwShortKey (pRow + unat (nl_dwNodeSize t * n)) ns
      })"

definition HashTableSearch_NoList :: "(nat \<Rightarrow> 'd) \<Rightarrow> 'd SharedHashTableNoList \<Rightarrow> 'd \<Rightarrow> u32 \<Rightarrow> nat option option" where
  "HashTableSearch_NoList m t pKey dwShortKey =
     (if nl_bInitSuccess t = 0 then Some None
      else search_rows_NoList m t pKey dwShortKey (nl_pHash t) (take STATIC_HASH_ROW_MAX (nl_dwNodeNums t)))"

fun search_rows_ex_NoList :: "(nat \<Rightarrow> 'd) \<Rightarrow> 'd SharedHashTableNoList \<Rightarrow> 'd \<Rightarrow> 'd \<Rightarrow> u32 \<Rightarrow> nat \<Rightarrow> nat
    \<Rightarrow> nat option \<Rightarrow> u32 option \<Rightarrow> u32 list \<Rightarrow> hash_event list \<Rightarrow> (nat option \<times> u32 option \<times> hash_event list) option" where
  "search_rows_ex_NoList m t pKey pEmptyKey dwShortKey i pRow pEmptyNode pdwIsFind [] ev =
     Some (pEmptyNode, pdwIsFind, ev)"
| "search_rows_ex_NoList m t pKey pEmptyKey dwShortKey i pRow pEmptyNode pdwIsFind (n # ns) ev =
     (if n = 0 then None
      else let pNode = pRow + unat (nl_dwNodeSize t * (dwShortKey mod n));
               pRow' = pRow + unat (nl_dwNodeSize t * n) in do {
        cmp \<leftarrow> nl_fun_cmp t;
        if cmp pKey (m pNode) = 0 then Some (Some pNode, map_option (\<lambda>_. 1) pdwIsFind, ev)
        else if pEmptyNode = None \<and> cmp pEmptyKey (m pNode) = 0 then
          search_rows_ex_NoList m t pKey pEmptyKey dwShortKey (Suc i) pRow' (Some pNode) pdwIsFind ns
            (if STATIC_HASH_ROW_WARN \<le> i \<and> nl_fun_war t
             then ev @ [Warned (of_nat i) (of_nat STATIC_HASH_ROW_MAX)] else ev)
        else search_rows_ex_NoList m t pKey pEmptyKey dwShortKey (Suc i) pRow' pEmptyNode pdwIsFind ns ev
      })"

definition HashTableSearchEx_NoList :: "(nat \<Rightarrow> 'd) \<Rightarrow> 'd SharedHashTableNoList \<Rightarrow> 'd \<Rightarrow> 'd \<Rightarrow> u32 \<Rightarrow> u32 option
    \<Rightarrow> (nat option \<times> u32 option \<times> hash_event list) option" where
  "HashTableSearchEx_NoList m t pKey pEmptyKey dwShortKey pdwIsFind =
     (let pdwIsFind = map_option (\<lambda>_. 0) pdwIsFind in
      if nl_bInitSuccess t = 0 then Some (None, pdwIsFind, [])
      else search_rows_ex_NoList m t pKey pEmptyKey dwShortKey 0 (nl_pHash t) None pdwIsFind
             (take STATIC_HASH_ROW_MAX (nl_dwNodeNums t)) [])"

definition GetAllHashNode_NoList :: "'d SharedHashTableNoList \<Rightarrow> GetAllState \<Rightarrow> nat option \<times> GetAllState" where
  "GetAllHashNode_NoList t s =
     (if nl_bInitSuccess t = 0 then (None, s)
      else if STATIC_HASH_ROW_MAX \<le> unat (s_iGetAllNodeRowIdx s) then (None, s)
      else let row = (case s_pRow s of None \<Rightarrow> nl_pHash t | Some p \<Rightarrow> p);
               pNode = row + unat (nl_dwNodeSize t * s_iGetAllNodeColIdx s);
               n = nl_dwNodeNums t ! unat (s_iGetAllNodeRowIdx s);
               col = s_iGetAllNodeColIdx s + 1
        in (Some pNode,
            if n \<le> col
            then s\<lparr>s_pRow := Some (row + unat (nl_dwNodeSize t * n)),
                   s_iGetAllNodeRowIdx := s_iGetAllNodeRowIdx s + 1, s_iGetAllNodeColIdx := 0\<rparr>
            else s\<lparr>s_pRow := Some row, s_iGetAllNodeColIdx := col\<rparr>))"

subsection \<open>Candidates\<close>

text \<open>
  All rows of an initialised table have the same size, so a short key has the same column
  in every row: its candidates are equally spaced.
\<close>

definition row_size :: "u32 \<Rightarrow> u32" where
  "row_size cnt = prime_down cnt"

lemma init_NoList_rows:
  "nl_dwNodeNums (init_NoList sz cnt cmp warn) = replicate STATIC_HASH_ROW_MAX (row_size cnt)"
  "nl_dwRealNodeCount (init_NoList sz cnt cmp warn) = of_nat STATIC_HASH_ROW_MAX * row_size cnt"
  by (simp_all add: init_NoList_def Let_def hash_rows_NoList_const row_size_def sum_list_replicate)

definition candidate :: "'d SharedHashTableNoList \<Rightarrow> u32 \<Rightarrow> nat \<Rightarrow> nat" where
  "candidate t sk r = nl_pHash t + unat (nl_dwNodeSize t) * (r * unat (hd (nl_dwNodeNums t))
     + unat (sk mod hd (nl_dwNodeNums t)))"

lemma unat_mult_small:
  assumes "unat a * unat b < 2 ^ 32"
  shows "unat (a * b :: u32) = unat a * unat b"
  using assms by (simp add: unat_word_ariths)

lemma search_rows_NoList_find:
  assumes n: "n \<noteq> 0" and cmp: "nl_fun_cmp t = Some cmp" and small: "unat (nl_dwNodeSize t) * unat n < 2 ^ 32"
  shows "search_rows_NoList m t key sk b (replicate k n)
    = Some (find (\<lambda>a. cmp key (m a) = 0)
        (map (\<lambda>r. b + unat (nl_dwNodeSize t) * (r * unat n + unat (sk mod n))) [0..<k]))"
proof (induction k arbitrary: b)
  case 0
  then show ?case by simp
next
  case (Suc k)
  let ?s = "unat (nl_dwNodeSize t)"
  have "?s * unat (sk mod n) \<le> ?s * unat n" using unat_mod_less [OF n, of sk] by simp
  then have off: "unat (nl_dwNodeSize t * (sk mod n)) = ?s * unat (sk mod n)"
    using small by (intro unat_mult_small le_less_trans [OF _ small])
  have row: "unat (nl_dwNodeSize t * n) = ?s * unat n" using small by (rule unat_mult_small)
  have "map (\<lambda>r. b + ?s * (r * unat n + unat (sk mod n))) [0..<Suc k]
    = (b + ?s * unat (sk mod n)) # map (\<lambda>r. b + ?s * unat n + ?s * (r * unat n + unat (sk mod n))) [0..<k]"
    by (simp add: upt_conv_Cons map_Suc_upt [symmetric] algebra_simps del: upt_Suc)
  then show ?case
    using n Suc.IH [of "b + ?s * unat n"] by (simp add: Let_def off row cmp del: upt_Suc)
qed

lemma HashTableSearch_NoList_find:
  assumes "nl_bInitSuccess t \<noteq> 0" "nl_dwNodeNums t = replicate STATIC_HASH_ROW_MAX n" "n \<noteq> 0"
    and "nl_fun_cmp t = Some cmp" "unat (nl_dwNodeSize t) * unat n < 2 ^ 32"
  shows "HashTableSearch_NoList m t key sk
    = Some (find (\<lambda>a. cmp key (m a) = 0) (map (candidate t sk) [0..<STATIC_HASH_ROW_MAX]))"
proof -
  have "hd (nl_dwNodeNums t) = n" using assms(2) by (simp add: STATIC_HASH_ROW_MAX_def)
  then have "candidate t sk = (\<lambda>r. nl_pHash t + unat (nl_dwNodeSize t) * (r * unat n + unat (sk mod n)))"
    by (simp add: fun_eq_iff candidate_def)
  then show ?thesis
    using search_rows_NoList_find [OF assms(3-5), of m key sk "nl_pHash t" STATIC_HASH_ROW_MAX] assms(1,2)
    by (simp add: HashTableSearch_NoList_def)
qed

lemma search_rows_ex_NoList_found:
  assumes n: "0 \<notin> set ns" and cmp: "nl_fun_cmp t = Some cmp"
  shows "case search_rows_NoList m t key sk b ns of
      Some (Some a) \<Rightarrow> \<exists>ev'. search_rows_ex_NoList m t key ek sk i b e f ns ev = Some (Some a, map_option (\<lambda>_. 1) f, ev')
    | Some None \<Rightarrow> \<exists>q ev'. search_rows_ex_NoList m t key ek sk i b e f ns ev = Some (q, f, ev') \<and>
        (\<forall>a. q = Some a \<longrightarrow> e = Some a \<or> cmp ek (m a) = 0)
    | None \<Rightarrow> False"
  using n
proof (induction ns arbitrary: i b e ev)
  case Nil
  then show ?case by simp
next
  case (Cons n ns)
  have n0: "n \<noteq> 0" and ns: "0 \<notin> set ns" using Cons.prems by auto
  show ?case
  proof (cases "cmp key (m (b + unat (nl_dwNodeSize t * (sk mod n)))) = 0")
    case True
    then show ?thesis using n0 cmp by (simp add: Let_def)
  next
    case False
    let ?p = "b + unat (nl_dwNodeSize t * (sk mod n))" and ?b = "b + unat (nl_dwNodeSize t * n)"
    define e1 where "e1 = (if e = None \<and> cmp ek (m ?p) = 0 then Some ?p else e)"
    define ev1 where "ev1 = (if e = None \<and> cmp ek (m ?p) = 0 \<and> STATIC_HASH_ROW_WARN \<le> i \<and> nl_fun_war t
      then ev @ [Warned (of_nat i) (of_nat STATIC_HASH_ROW_MAX)] else ev)"
    have step: "search_rows_ex_NoList m t key ek sk i b e f (n # ns) ev
        = search_rows_ex_NoList m t key ek sk (Suc i) ?b e1 f ns ev1"
      using False n0 cmp by (simp add: Let_def e1_def ev1_def)
    have plain: "search_rows_NoList m t key sk b (n # ns) = search_rows_NoList m t key sk ?b ns"
      using False n0 cmp by (simp add: Let_def)
    have e1: "e1 = Some a \<Longrightarrow> e = Some a \<or> cmp ek (m a) = 0" for a
      by (auto simp: e1_def split: if_splits)
    show ?thesis
      unfolding step plain using Cons.IH [OF ns, of "Suc i" ?b e1 ev1] e1
      by (cases "search_rows_NoList m t key sk ?b ns" rule: option.exhaust) (auto split: option.splits)
  qed
qed

end
