(* ===== verification/Hash_Demo.thy ===== *)
theory Hash_Demo
  imports Hash_NoList
begin

text \<open>
  Concrete tables for the witnesses of the hash table properties: a descriptor for eleven
  requested nodes with a payload of four bytes (ten rows of 10, 9, .., 1 nodes, 55 in all),
  an empty table, and tables with the lists \<open>[3, 7]\<close> and \<open>[3]\<close>. Payloads are naturals
  compared as numbers; the environment has a fixed clock and no other process.
\<close>

definition demo_env :: "nat HashEnv" where
  "demo_env = \<lparr>env_time = (\<lambda>n. of_nat n), env_pid = 17, env_sleep = (\<lambda>n s. s), env_zero = 0\<rparr>"

definition demo_cmp :: "nat \<Rightarrow> nat \<Rightarrow> int" where
  "demo_cmp a b = int a - int b"

definition demo_tab :: "nat SharedHashTable" where
  "demo_tab = \<lparr>dwNodeSize = 4, dwNodeCount = 11, dwRealNodeCount = 55, dwShareMemBytes = 744,
     dwNodeNums = [10, 9, 8, 7, 6, 5, 4, 3, 2, 1], dwLastUpdateTime = 0, bInitSuccess = 1,
     bAccessCheck = 1, dwCurIndex = 55, dwCurIndexRevers = 55, fun_cmp = Some demo_cmp,
     fun_war = True, pHash = 1000\<rparr>"

definition demo_world :: "u32 \<Rightarrow> u32 \<Rightarrow> u32 \<Rightarrow> (u32 \<Rightarrow> HashNodeHead) \<Rightarrow> nat HashWorld" where
  "demo_world s e n nodes = \<lparr>hw_tab = demo_tab,
     hw_seg = \<lparr>seg_head = \<lparr>dwNodeStartIndex = s, dwNodeEndIndex = e, dwNodeUseCount = n,
                 th_dwNodeSize = 4, th_dwNodeCount = 11, dwWriteProcessId = 0, dwLastUseTimeSec = 0,
                 bHashUseFlag = 0\<rparr>,
               seg_nodes = nodes, seg_data = (\<lambda>i. 10 * unat i), seg_slots = 55\<rparr>,
     hw_tick = 0, hw_events = []\<rparr>"

definition demo_empty :: "nat HashWorld" where
  "demo_empty = demo_world 55 55 0 (\<lambda>_. zero_node_head)"

definition demo_one :: "nat HashWorld" where
  "demo_one = demo_world 3 3 1 ((\<lambda>_. zero_node_head)
     (3 := \<lparr>bIsUsed = 1, dwNodePreIndex = 55, dwNodeNextIndex = 55\<rparr>))"

definition demo_two :: "nat HashWorld" where
  "demo_two = demo_world 3 7 2 ((\<lambda>_. zero_node_head)
     (3 := \<lparr>bIsUsed = 1, dwNodePreIndex = 55, dwNodeNextIndex = 7\<rparr>,
      7 := \<lparr>bIsUsed = 1, dwNodePreIndex = 3, dwNodeNextIndex = 55\<rparr>))"

lemmas demo_defs = demo_env_def demo_tab_def demo_world_def demo_empty_def demo_one_def demo_two_def

lemma demo_sel [simp]:
  "hw_tab demo_empty = demo_tab" "hw_tab demo_one = demo_tab" "hw_tab demo_two = demo_tab"
  "dwRealNodeCount demo_tab = 55" "fun_cmp demo_tab = Some demo_cmp" "dwNodeSize demo_tab = 4"
  "bInitSuccess demo_tab = 1" "dwNodeNums demo_tab = [10, 9, 8, 7, 6, 5, 4, 3, 2, 1]"
  "thead demo_empty = \<lparr>dwNodeStartIndex = 55, dwNodeEndIndex = 55, dwNodeUseCount = 0,
     th_dwNodeSize = 4, th_dwNodeCount = 11, dwWriteProcessId = 0, dwLastUseTimeSec = 0, bHashUseFlag = 0\<rparr>"
  "bHashUseFlag (thead demo_one) = 0" "bHashUseFlag (thead demo_two) = 0"
  "dwWriteProcessId (thead demo_one) = 0" "dwWriteProcessId (thead demo_two) = 0"
  "seg_slots (hw_seg demo_empty) = 55" "seg_slots (hw_seg demo_one) = 55" "seg_slots (hw_seg demo_two) = 55"
  "seg_data (hw_seg demo_two) = (\<lambda>i. 10 * unat i)" "seg_data (hw_seg demo_one) = (\<lambda>i. 10 * unat i)"
  "seg_nodes (hw_seg demo_empty) i = zero_node_head"
  "th_dwNodeSize (thead demo_two) = 4" "th_dwNodeCount (thead demo_two) = 11"
  by (simp_all add: demo_defs)

lemma demo_wf: "table_wf demo_empty []" "table_wf demo_one [3]" "table_wf demo_two [3, 7]"
  by (auto simp: table_wf_def dll_def demo_defs zero_node_head_def)

lemma demo_writable: "writable demo_env demo_empty" "writable demo_env demo_one" "writable demo_env demo_two"
  by (simp_all add: writable_def)

lemma demo_rows_wf: "rows_wf demo_tab"
  by (simp add: rows_wf_def STATIC_HASH_ROW_MAX_def)

lemma demo_quiet: "quiet demo_env"
  by (simp add: quiet_def demo_env_def)

lemma demo_covers: "covers demo_tab 55"
  by (simp add: covers_def demo_tab_def node_stride_def sizeof_HashNodeHead_def sizeof_HashTableHead_def)

end
