(* ===== verification/Hash_Props.thy ===== *)
theory Hash_Props
  imports Hash_Demo
begin

text \<open>
  The properties of the shared-memory hash table, each followed by a witness on a concrete
  table where it has hypotheses.
\<close>

subsection \<open>Operations as operations on the list of nodes\<close>

text \<open>
  C1. \<open>InsertHashNode\<close> refines appending: on a table that represents the list \<open>xs\<close>, inserting a
  free node \<open>i\<close> returns 0, and the new table represents \<open>xs @ [i]\<close>, with payloads and
  descriptor unchanged and the use flag free.
\<close>

theorem InsertHashNode_appends:
  assumes "table_wf w xs" "writable env w" "i < dwRealNodeCount (hw_tab w)" "i \<notin> set xs"
  shows "\<exists>w'. InsertHashNode env (INDEX_TO_NODE (hw_tab w) i) w = Some (0, w') \<and>
    table_wf w' (xs @ [i]) \<and> hw_tab w' = hw_tab w \<and>
    seg_data (hw_seg w') = seg_data (hw_seg w) \<and> bHashUseFlag (thead w') = 0"
  using assms by (rule InsertHashNode_dll)

theorem InsertHashNode_appends_witness:
  "\<exists>w'. InsertHashNode demo_env (INDEX_TO_NODE demo_tab 20) demo_two = Some (0, w') \<and> table_wf w' [3, 7, 20]"
  using InsertHashNode_appends [OF demo_wf(3) demo_writable(3), of 20] by auto

text \<open>
  C2. \<open>InsertHashNodeSort\<close> keeps a sorted list sorted: when the comparison orders payloads by a
  key and the list is ascending, the new list is the old one with the node put in, and it is
  ascending again.
\<close>

theorem InsertHashNodeSort_keeps_sorted:
  fixes key :: "'d \<Rightarrow> int"
  assumes "table_wf w xs" "writable env w" "i < dwRealNodeCount (hw_tab w)" "i \<notin> set xs"
    and "fun_cmp (hw_tab w) = Some cmp" "\<And>a b. cmp a b > 0 \<longleftrightarrow> key b < key a"
    and "sorted (map (key \<circ> seg_data (hw_seg w)) xs)"
  shows "\<exists>w' ys. InsertHashNodeSort env (INDEX_TO_NODE (hw_tab w) i) w = Some (0, w') \<and>
    table_wf w' ys \<and> i \<in> set ys \<and> filter (\<lambda>x. x \<noteq> i) ys = xs \<and>
    sorted (map (key \<circ> seg_data (hw_seg w')) ys)"
proof -
  let ?as = "sort_before cmp (seg_data (hw_seg w)) i xs" and ?bs = "sort_after cmp (seg_data (hw_seg w)) i xs"
  obtain w' where w': "InsertHashNodeSort env (INDEX_TO_NODE (hw_tab w) i) w = Some (0, w')"
    "table_wf w' (?as @ i # ?bs)" "seg_data (hw_seg w') = seg_data (hw_seg w)"
    using InsertHashNodeSort_dll [OF assms(1-5)] by blast
  have "filter (\<lambda>x. x \<noteq> i) (?as @ i # ?bs) = filter (\<lambda>x. x \<noteq> i) (?as @ ?bs)" by simp
  also have "\<dots> = xs" using assms(4) by (auto simp: sort_before_after intro: filter_True)
  finally show ?thesis
    using w' sort_insert_sorted [where key = key, OF assms(6,7), of i] by (metis in_set_conv_decomp)
qed

theorem InsertHashNodeSort_keeps_sorted_witness:
  "\<exists>w' ys. InsertHashNodeSort demo_env (INDEX_TO_NODE demo_tab 5) demo_two = Some (0, w') \<and>
    table_wf w' ys \<and> 5 \<in> set ys \<and> filter (\<lambda>x. x \<noteq> 5) ys = [3, 7] \<and>
    sorted (map (int \<circ> seg_data (hw_seg w')) ys)"
  using InsertHashNodeSort_keeps_sorted [OF demo_wf(3) demo_writable(3), of 5 demo_cmp int]
  by (auto simp: demo_cmp_def)

text \<open>
  \<open>InsertHashNodeAfter\<close> behind a node that is not the last one puts the new node between it
  and its successor.
\<close>

theorem InsertHashNodeAfter_middle:
  assumes "table_wf w (as @ x # y # bs)" "writable env w" "i < dwRealNodeCount (hw_tab w)"
    and "i \<notin> set (as @ x # y # bs)"
  shows "\<exists>w'. InsertHashNodeAfter env (INDEX_TO_NODE (hw_tab w) i) x w = Some (0, w') \<and>
    table_wf w' (as @ x # i # y # bs) \<and> hw_tab w' = hw_tab w \<and> seg_data (hw_seg w') = seg_data (hw_seg w)"
  using InsertHashNodeAfter_inner [OF assms] by blast

theorem InsertHashNodeAfter_middle_witness:
  "\<exists>w'. InsertHashNodeAfter demo_env (INDEX_TO_NODE demo_tab 20) 3 demo_two = Some (0, w') \<and>
    table_wf w' [3, 20, 7]"
  using InsertHashNodeAfter_middle [of demo_two "[]" 3 7 "[]" demo_env 20] demo_wf(3) demo_writable(3) by auto

text \<open>
  Behind the last node it goes wrong: the call returns 0, but the end index names the old
  last node, so the result represents no list at all, and the consistency check finds the
  damage from the back (code \<open>-2\<close>).
\<close>

theorem InsertHashNodeAfter_last_breaks:
  assumes "table_wf w (as @ [x])" "writable env w" "i < dwRealNodeCount (hw_tab w)" "i \<notin> set (as @ [x])"
    and "unat (dwRealNodeCount (hw_tab w)) < 2 ^ 31"
  shows "\<exists>w'. InsertHashNodeAfter env (INDEX_TO_NODE (hw_tab w) i) x w = Some (0, w') \<and>
    (\<forall>ys. \<not> table_wf w' ys) \<and> (\<exists>w''. CheckHashTable env w' = Some (-2, w''))"
proof -
  obtain w' where w': "InsertHashNodeAfter env (INDEX_TO_NODE (hw_tab w) i) x w = Some (0, w')"
    "hw_tab w' = hw_tab w" "bHashUseFlag (thead w') = 0"
    using InsertHashNodeAfter_tail [OF assms(1-4)] by blast
  then have chk: "CheckHashTable env w' = Some (-2, checked env w')"
    using CheckHashTable_after_tail_insert [OF assms] by auto
  then have "\<not> table_wf w' ys" for ys
    using CheckHashTable_wf [of w' ys env] w' assms(5) by auto
  with w' chk show ?thesis by blast
qed

theorem InsertHashNodeAfter_last_breaks_witness:
  "\<exists>w'. InsertHashNodeAfter demo_env (INDEX_TO_NODE demo_tab 20) 7 demo_two = Some (0, w') \<and>
    (\<forall>ys. \<not> table_wf w' ys) \<and> (\<exists>w''. CheckHashTable demo_env w' = Some (-2, w''))"
  using InsertHashNodeAfter_last_breaks [of demo_two "[3]" 7 demo_env 20] demo_wf(3) demo_writable(3) by simp

text \<open>
  C5. \<open>RemoveHashNode\<close> refines deletion: the node leaves the list and is marked free, and both
  cursors of the process, which may stand on it, are on nodes of the remaining list or at
  its end.
\<close>

theorem RemoveHashNode_deletes:
  assumes "table_wf w (as @ i # bs)" "writable env w" "cursors_wf w (as @ i # bs)"
  shows "\<exists>w'. RemoveHashNode env (INDEX_TO_NODE (hw_tab w) i) w = Some (0, w') \<and>
    table_wf w' (as @ bs) \<and> cursors_wf w' (as @ bs) \<and> bIsUsed (seg_nodes (hw_seg w') i) = 0 \<and>
    seg_data (hw_seg w') = seg_data (hw_seg w) \<and> bHashUseFlag (thead w') = 0"
proof -
  obtain w' where w': "RemoveHashNode env (INDEX_TO_NODE (hw_tab w) i) w = Some (0, w')"
    "table_wf w' (as @ bs)" "hw_tab w' = moved as i bs (hw_tab w)"
    "seg_data (hw_seg w') = seg_data (hw_seg w)" "bHashUseFlag (thead w') = 0"
    using RemoveHashNode_dll [OF assms(1,2)] by blast
  have i: "i < dwRealNodeCount (hw_tab w')" "i \<notin> set (as @ bs)"
    using assms(1) w'(3) by (auto simp: table_wf_def moved_def dest: dll_split)
  have "vacant w' i" using dll_used_set [OF w'(2) i(1)] i(2) by simp
  moreover have "cursors_wf w' (as @ bs)"
    using assms(3) w'(3) by (auto simp: cursors_wf_def moved_def hd_or_def last_or_def)
  ultimately show ?thesis using w' by (auto simp: vacant_def)
qed

theorem RemoveHashNode_deletes_witness:
  "\<exists>w'. RemoveHashNode demo_env (INDEX_TO_NODE demo_tab 3) demo_two = Some (0, w') \<and> table_wf w' [7]"
  using RemoveHashNode_deletes [of demo_two "[]" 3 "[7]" demo_env] demo_wf(3) demo_writable(3)
  by (auto simp: cursors_wf_def demo_tab_def)

text \<open>
  C6. The forward loop \<open>GetFirstNode\<close>, \<open>GetNextNode\<close> .. visits exactly the nodes of the list in
  order and ends, leaving the list as it was.
\<close>

theorem forward_traversal:
  assumes "table_wf w xs" "length xs < n"
  shows "\<exists>w'. visit n (GetNextNode env) (GetFirstNode env w)
    = Some (map (INDEX_TO_NODE (hw_tab w)) xs, w') \<and> (\<exists>ys. table_wf w' ys \<and>
      map (INDEX_TO_NODE (hw_tab w')) ys = map (INDEX_TO_NODE (hw_tab w)) xs)"
proof -
  have "fwd_rep w (map (INDEX_TO_NODE (hw_tab w)) xs)" using assms(1) by (auto simp: fwd_rep_def)
  from fwd.visit_all [OF this, of n env] assms(2) show ?thesis by (fastforce simp: fwd_rep_def)
qed

theorem forward_traversal_witness:
  "\<exists>w'. visit 3 (GetNextNode demo_env) (GetFirstNode demo_env demo_two)
    = Some ([INDEX_TO_NODE demo_tab 3, INDEX_TO_NODE demo_tab 7], w')"
  using forward_traversal [OF demo_wf(3), of 3 demo_env] by auto

text \<open>The backward loop \<open>GetFirstNodeRevers\<close>, \<open>GetNextNodeRevers\<close> .. visits them in reverse order.\<close>

theorem backward_traversal:
  assumes "table_wf w xs" "length xs < n"
  shows "\<exists>w'. visit n (GetNextNodeRevers env) (GetFirstNodeRevers env w)
    = Some (map (INDEX_TO_NODE (hw_tab w)) (rev xs), w') \<and> (\<exists>ys. table_wf w' ys \<and>
      map (INDEX_TO_NODE (hw_tab w')) (rev ys) = map (INDEX_TO_NODE (hw_tab w)) (rev xs))"
proof -
  have "bwd_rep w (map (INDEX_TO_NODE (hw_tab w)) (rev xs))" using assms(1) by (auto simp: bwd_rep_def)
  from bwd.visit_all [OF this, of n env] assms(2) show ?thesis by (fastforce simp: bwd_rep_def)
qed

theorem backward_traversal_witness:
  "\<exists>w'. visit 3 (GetNextNodeRevers demo_env) (GetFirstNodeRevers demo_env demo_two)
    = Some ([INDEX_TO_NODE demo_tab 7, INDEX_TO_NODE demo_tab 3], w')"
  using backward_traversal [OF demo_wf(3), of 3 demo_env] by auto

subsection \<open>The flag, the check and the reset\<close>

text \<open>
  \<open>CheckHashTable\<close> terminates with 0 on every well-formed table of fewer than \<open>2 ^ 31\<close> nodes
  whose flag is free, and leaves the list and the free flag.
\<close>

theorem CheckHashTable_accepts:
  assumes "table_wf w xs" "bHashUseFlag (thead w) = 0" "unat (dwRealNodeCount (hw_tab w)) < 2 ^ 31"
  shows "\<exists>w'. CheckHashTable env w = Some (0, w') \<and> table_wf w' xs \<and> bHashUseFlag (thead w') = 0"
  using CheckHashTable_wf [OF assms] assms(1) by (simp add: checked_def table_wf_def)

theorem CheckHashTable_accepts_witness:
  "\<exists>w'. CheckHashTable demo_env demo_two = Some (0, w') \<and> table_wf w' [3, 7]"
  using CheckHashTable_accepts [OF demo_wf(3), of demo_env] by auto

text \<open>
  C9. Waiting for the flag never hangs: even if no other process ever releases it, once the
  clock passes the start by more than two seconds the wait ends, with the flag taken or
  with the process exiting.
\<close>

theorem wait_lock_ends:
  assumes "quiet env" "\<And>k. m \<le> k \<Longrightarrow> start + 2 < env_time env k"
  shows "\<exists>r. wait_lock env start w = Some r"
  using assms by (rule wait_lock_terminates)

theorem wait_lock_ends_witness:
  "\<exists>r. wait_lock (demo_env\<lparr>env_time := (\<lambda>n. if n < 40 then 0 else 3)\<rparr>) 0
    (upd_thead (\<lambda>h. h\<lparr>bHashUseFlag := 1\<rparr>) demo_two) = Some r"
  by (rule wait_lock_ends [of _ 40]) (auto simp: quiet_def demo_env_def)

text \<open>
  \<open>ResetHashTable\<close> on a table whose byte count covers all its nodes ends in the empty table,
  whatever state the list was in, and reports the reset.
\<close>

theorem ResetHashTable_empties:
  assumes "bInitSuccess (hw_tab w) \<noteq> 0" "bHashUseFlag (thead w) = 0"
    and "covers (hw_tab w) (unat (dwRealNodeCount (hw_tab w)))"
    and "unat (dwRealNodeCount (hw_tab w)) \<le> seg_slots (hw_seg w)"
  shows "\<exists>w'. ResetHashTable env w = Some w' \<and> table_wf w' [] \<and> hw_events w' = hw_events w @ [AttrSpec 239 1]"
  using ResetHashTable_result [OF assms, of env] ResetHashTable_wf [OF assms, of env] by auto

theorem ResetHashTable_empties_witness:
  "\<exists>w'. ResetHashTable demo_env demo_two = Some w' \<and> table_wf w' [] \<and>
    hw_events w' = hw_events demo_two @ [AttrSpec 239 1]"
  using ResetHashTable_empties [of demo_two demo_env] demo_covers by simp

text \<open>
  A table set up by \<open>MtReport_CreateHashTable\<close> records too few bytes: a node behind the
  first \<open>dwNodeCount\<close> slots that is inserted keeps its used mark over a reset, so the reset
  table represents no list, although its counter says that it is empty.
\<close>

theorem CreateHashTable_reset_incomplete:
  assumes "bInitSuccess (hw_tab w) = 0" "bAccessCheck (hw_tab w) = 0" "sz \<noteq> 0" "fits sz cnt" "cshm \<noteq> 1"
    and "unat (real_count cnt) \<le> seg_slots seg" "dwNodeUseCount (seg_head seg) = 0"
    and "\<And>i. i < real_count cnt \<Longrightarrow> bIsUsed (seg_nodes seg i) = 0"
    and "bHashUseFlag (seg_head seg) = 0" "dwWriteProcessId (seg_head seg) = 0"
    and "sizeof_HashTableHead + unat cnt * (unat sz + sizeof_HashNodeHead) < 2 ^ 32"
    and "cnt \<le> i" "i < real_count cnt"
  shows "\<exists>w1 w2 w3. MtReport_CreateHashTable env a seg cshm sz cnt (Some cmp) warn w = Some (0, w1) \<and>
    InsertHashNode env (INDEX_TO_NODE (hw_tab w1) i) w1 = Some (0, w2) \<and> table_wf w2 [i] \<and>
    ResetHashTable env w2 = Some w3 \<and> dwNodeUseCount (thead w3) = 0 \<and>
    bIsUsed (seg_nodes (hw_seg w3) i) \<noteq> 0 \<and> (\<forall>xs. \<not> table_wf w3 xs)"
proof -
  obtain w1 where w1: "MtReport_CreateHashTable env a seg cshm sz cnt (Some cmp) warn w = Some (0, w1)"
    "table_wf w1 []" "ready sz cnt cmp w1" "covers (hw_tab w1) (unat cnt)"
    "bHashUseFlag (thead w1) = 0" "dwWriteProcessId (thead w1) = 0"
    using MtReport_CreateHashTable_fresh [OF assms(1-8,11)] assms(9,10) by metis
  have N: "dwRealNodeCount (hw_tab w1) = real_count cnt" using w1(3) by (simp add: ready_def)
  obtain w2 where w2: "InsertHashNode env (INDEX_TO_NODE (hw_tab w1) i) w1 = Some (0, w2)"
    "table_wf w2 [i]" "hw_tab w2 = hw_tab w1" "bHashUseFlag (thead w2) = 0"
    using InsertHashNode_dll [OF w1(2), of env i] w1(5,6) N assms(13) by (auto simp: writable_def)
  have "bIsUsed (seg_nodes (hw_seg w2) i) \<noteq> 0" "bInitSuccess (hw_tab w2) \<noteq> 0"
    "unat (dwRealNodeCount (hw_tab w2)) \<le> seg_slots (hw_seg w2)"
    using w2(2) by (auto simp: table_wf_def dll_def)
  then have "\<exists>w3. ResetHashTable env w2 = Some w3 \<and> dwNodeUseCount (thead w3) = 0 \<and>
      bIsUsed (seg_nodes (hw_seg w3) i) \<noteq> 0 \<and> (\<forall>xs. \<not> table_wf w3 xs)"
    using w2(3,4) w1(4) N assms(12,13)
    by (intro ResetHashTable_partial [of w2 "unat cnt"]) (auto simp: word_le_nat_alt)
  with w1(1) w2(1,2) show ?thesis by blast
qed

lemma real_count_11: "real_count 11 = 55"
  by (simp add: real_count_def STATIC_HASH_ROW_MAX_def eval_nat_numeral Let_def) (simp add: prime_down_small)

lemma fits_demo: "fits 4 11"
  by (simp add: fits_def real_count_11 sizeof_HashTableHead_def sizeof_HashNodeHead_def)

theorem CreateHashTable_reset_incomplete_witness:
  "\<exists>w1 w2 w3. MtReport_CreateHashTable demo_env 1000 (hw_seg demo_empty) 0 4 11 (Some demo_cmp) False
      (demo_empty\<lparr>hw_tab := demo_tab\<lparr>bInitSuccess := 0, bAccessCheck := 0\<rparr>\<rparr>) = Some (0, w1) \<and>
    InsertHashNode demo_env (INDEX_TO_NODE (hw_tab w1) 20) w1 = Some (0, w2) \<and> table_wf w2 [20] \<and>
    ResetHashTable demo_env w2 = Some w3 \<and> dwNodeUseCount (thead w3) = 0 \<and>
    bIsUsed (seg_nodes (hw_seg w3) 20) \<noteq> 0 \<and> (\<forall>xs. \<not> table_wf w3 xs)"
  by (rule CreateHashTable_reset_incomplete)
    (simp_all add: fits_demo real_count_11 zero_node_head_def sizeof_HashTableHead_def sizeof_HashNodeHead_def)

end
