(* ===== verification/Hash_Props2.thy ===== *)
theory Hash_Props2
  imports Hash_Props
begin

text \<open>
  Properties of row sizes, lookup, enumeration, initialisation, of the tables without list,
  and of the guarded shared memory segments, with their witnesses.
\<close>

subsection \<open>Rows\<close>

text \<open>For numbers from 2 on \<open>IsPrime\<close> decides primality.\<close>

theorem IsPrime_correct:
  assumes "2 \<le> unat n"
  shows "IsPrime n \<longleftrightarrow> (\<forall>d. d dvd unat n \<longrightarrow> d = 1 \<or> d = unat n)"
  using assms by (rule IsPrime_iff)

theorem IsPrime_correct_witness: "IsPrime 7 \<longleftrightarrow> (\<forall>d. d dvd unat (7 :: u32) \<longrightarrow> d = 1 \<or> d = unat (7 :: u32))"
  by (rule IsPrime_correct) simp

text \<open>
  The rows of a linked table for 11 to \<open>2 ^ 28\<close> requested nodes: ten positive sizes below the
  request, strictly decreasing, prime from 1002 on, and their sum does not wrap.
\<close>

theorem hash_rows_sound:
  assumes "10 < unat cnt" "unat cnt \<le> 2 ^ 28"
  shows "length (hash_rows STATIC_HASH_ROW_MAX cnt) = STATIC_HASH_ROW_MAX \<and>
    (\<forall>n\<in>set (hash_rows STATIC_HASH_ROW_MAX cnt). 0 < n \<and> n < cnt \<and> (1002 \<le> n \<longrightarrow> IsPrime n)) \<and>
    sorted_wrt (>) (hash_rows STATIC_HASH_ROW_MAX cnt) \<and>
    unat (real_count cnt) = sum_list (map unat (hash_rows STATIC_HASH_ROW_MAX cnt))"
  using hash_rows_facts [of STATIC_HASH_ROW_MAX cnt] assms
    unat_sum_list [of "hash_rows STATIC_HASH_ROW_MAX cnt"] hash_rows_total [OF assms]
  by (simp add: real_count_def STATIC_HASH_ROW_MAX_def)

theorem hash_rows_sound_witness:
  "sorted_wrt (>) (hash_rows STATIC_HASH_ROW_MAX 2000) \<and> length (hash_rows STATIC_HASH_ROW_MAX 2000) = 10"
  using hash_rows_sound [of 2000] by (simp add: STATIC_HASH_ROW_MAX_def)

subsection \<open>Lookup\<close>

text \<open>
  C14. \<open>HashTableSearchEx\<close> returns a node that holds the key and reports 1 exactly when
  \<open>HashTableSearch\<close> finds one, and then they return the same node; otherwise it reports 0 and
  returns a free candidate, or null only when all ten candidates are in use.
\<close>

theorem HashTableSearchEx_correct:
  assumes "table_wf w xs" "rows_wf (hw_tab w)" "fun_cmp (hw_tab w) = Some cmp"
  shows "\<exists>r w'. HashTableSearch key sk w = Some r \<and>
    (case r of
       Some p \<Rightarrow> HashTableSearchEx key sk (Some v) w = Some (Some p, Some 1, w') \<and>
         (\<exists>i\<in>set xs. p = INDEX_TO_NODE (hw_tab w) i \<and> cmp key (seg_data (hw_seg w) i) = 0)
     | None \<Rightarrow> (\<exists>q. HashTableSearchEx key sk (Some v) w = Some (q, Some 0, w') \<and>
         (case q of
            Some p \<Rightarrow> \<exists>i\<in>set (candidates (hw_tab w) sk). p = INDEX_TO_NODE (hw_tab w) i \<and> i \<notin> set xs
          | None \<Rightarrow> set (candidates (hw_tab w) sk) \<subseteq> set xs)))"
proof -
  have w: "bInitSuccess (hw_tab w) \<noteq> 0" "unat (dwRealNodeCount (hw_tab w)) \<le> seg_slots (hw_seg w)"
    using assms(1) by (auto simp: table_wf_def)
  have used: "vacant w i \<longleftrightarrow> i \<notin> set xs" if "i \<in> set (candidates (hw_tab w) sk)" for i
    using dll_used_set [OF assms(1)] candidates_range [OF assms(2) that] by blast
  note S = HashTableSearch_find [OF w(1) assms(2) w(2) assms(3), of key sk]
  obtain w' where X: "HashTableSearchEx key sk (Some v) w
    = Some (case find (holds cmp key w) (candidates (hw_tab w) sk) of
        Some i \<Rightarrow> (Some (INDEX_TO_NODE (hw_tab w) i), Some 1, w')
      | None \<Rightarrow> (map_option (INDEX_TO_NODE (hw_tab w)) (find (vacant w) (candidates (hw_tab w) sk)), Some 0, w'))"
    using HashTableSearchEx_find [OF w(1) assms(2) w(2) assms(3), of key sk "Some v"]
    unfolding option.map by blast
  show ?thesis
  proof (cases "find (holds cmp key w) (candidates (hw_tab w) sk)")
    case None
    note S' = S [unfolded None option.map] and X' = X [unfolded None option.case]
    show ?thesis
    proof (cases "find (vacant w) (candidates (hw_tab w) sk)")
      case None
      then have "set (candidates (hw_tab w) sk) \<subseteq> set xs" using used by (auto simp: find_None_iff)
      then show ?thesis using S' X' None by auto
    next
      case (Some i)
      then have "i \<in> set (candidates (hw_tab w) sk)" "vacant w i" by (auto simp: find_Some_iff)
      then show ?thesis using S' X' Some used by auto
    qed
  next
    case (Some i)
    then have "i \<in> set (candidates (hw_tab w) sk)" "holds cmp key w i" by (auto simp: find_Some_iff)
    then have "i \<in> set xs" "cmp key (seg_data (hw_seg w) i) = 0" using used [of i] by (auto simp: holds_def vacant_def)
    then show ?thesis using S X Some by auto
  qed
qed

theorem HashTableSearchEx_correct_witness:
  "\<exists>r w'. HashTableSearch 70 7 demo_two = Some r \<and>
    (case r of
       Some p \<Rightarrow> HashTableSearchEx 70 7 (Some 9) demo_two = Some (Some p, Some 1, w') \<and>
         (\<exists>i\<in>set [3, 7]. p = INDEX_TO_NODE demo_tab i \<and> demo_cmp 70 (seg_data (hw_seg demo_two) i) = 0)
     | None \<Rightarrow> (\<exists>q. HashTableSearchEx 70 7 (Some 9) demo_two = Some (q, Some 0, w') \<and>
         (case q of
            Some p \<Rightarrow> \<exists>i\<in>set (candidates demo_tab 7). p = INDEX_TO_NODE demo_tab i \<and> i \<notin> set [3, 7]
          | None \<Rightarrow> set (candidates demo_tab 7) \<subseteq> set [3, 7])))"
  using HashTableSearchEx_correct [OF demo_wf(3), unfolded demo_sel(3), OF demo_rows_wf demo_sel(5)] .

text \<open>
  C15. Adding a key: when \<open>HashTableSearchEx\<close> reports 0 with node \<open>p\<close>, writing a payload with that
  key into \<open>p\<close> and calling \<open>InsertHashNode\<close> succeeds; \<open>HashTableSearch\<close> then finds the key at
  \<open>p\<close>, and every other key exactly where it was.
\<close>

theorem add_then_found:
  assumes "table_wf w xs" "writable env w" "rows_wf (hw_tab w)" "fun_cmp (hw_tab w) = Some cmp"
    and "HashTableSearchEx key sk (Some v) w = Some (Some p, Some 0, w1)" "cmp key d = 0"
  shows "\<exists>w2 w3. updData p (\<lambda>_. d) w1 = Some w2 \<and> InsertHashNode env p w2 = Some (0, w3) \<and>
    HashTableSearch key sk w3 = Some (Some p) \<and>
    (\<forall>key2 sk2. cmp key2 d \<noteq> 0 \<longrightarrow> HashTableSearch key2 sk2 w3 = HashTableSearch key2 sk2 w)"
proof -
  have w: "bInitSuccess (hw_tab w) \<noteq> 0" "unat (dwRealNodeCount (hw_tab w)) \<le> seg_slots (hw_seg w)"
    using assms(1) by (auto simp: table_wf_def)
  obtain w' where X: "HashTableSearchEx key sk (Some v) w
    = Some (case find (holds cmp key w) (candidates (hw_tab w) sk) of
        Some i \<Rightarrow> (Some (INDEX_TO_NODE (hw_tab w) i), Some 1, w')
      | None \<Rightarrow> (map_option (INDEX_TO_NODE (hw_tab w)) (find (vacant w) (candidates (hw_tab w) sk)), Some 0, w'))"
    "same_but_events w w'"
    using HashTableSearchEx_find [OF w(1) assms(3) w(2) assms(4), of key sk "Some v"]
    unfolding option.map by blast
  have none: "find (holds cmp key w) (candidates (hw_tab w) sk) = None"
    using X(1) assms(5) by (cases "find (holds cmp key w) (candidates (hw_tab w) sk)") auto
  obtain i where i: "find (vacant w) (candidates (hw_tab w) sk) = Some i" "p = INDEX_TO_NODE (hw_tab w) i"
    and same: "same_but_events w w1"
    using X assms(5) none by (cases "find (vacant w) (candidates (hw_tab w) sk)") auto
  then have s: "hw_tab w1 = hw_tab w" "hw_seg w1 = hw_seg w" by (auto simp: same_but_events_def)
  have eq: "table_wf w1 xs" "writable env w1" "rows_wf (hw_tab w1)" "fun_cmp (hw_tab w1) = Some cmp"
    "find (holds cmp key w1) (candidates (hw_tab w1) sk) = None"
    "find (vacant w1) (candidates (hw_tab w1) sk) = Some i"
    using assms(1-4) none i(1) s
    by (simp_all add: table_wf_def writable_def holds_def [abs_def] vacant_def [abs_def])
  obtain w3 where w3: "InsertHashNode env p (fill i d w1) = Some (0, w3)"
    "HashTableSearch key sk w3 = Some (Some p)"
    "\<forall>key2 sk2. cmp key2 d \<noteq> 0 \<longrightarrow> HashTableSearch key2 sk2 w3 = HashTableSearch key2 sk2 w1"
    using insert_missing [OF eq assms(6)] i(2) s by auto
  have "unat i < seg_slots (hw_seg w1)"
    using vacant_candidate [OF eq(1,3,6)] eq(1) by (intro table_wf_bound) auto
  then have "updData p (\<lambda>_. d) w1 = Some (fill i d w1)" using i(2) s by simp
  moreover have "HashTableSearch k s w1 = HashTableSearch k s w" for k s
    using HashTableSearch_find [OF w(1) assms(3) w(2) assms(4), of k s]
      HashTableSearch_find [of w1 cmp k s] w assms(3,4) \<open>hw_tab w1 = hw_tab w\<close> \<open>hw_seg w1 = hw_seg w\<close>
    by (simp add: holds_def [abs_def])
  ultimately show ?thesis using w3 by auto
qed

lemma demo_search_20:
  "\<exists>w1. HashTableSearchEx 200 20 (Some 9) demo_two = Some (Some (INDEX_TO_NODE demo_tab 0), Some 0, w1)"
proof -
  have c: "candidates demo_tab 20 = [0, 12, 23, 33, 36, 40, 45, 51, 52, 54]"
    by (simp add: candidates_def)
  have h: "find (holds demo_cmp 200 demo_two) (candidates demo_tab 20) = None"
    by (simp add: c holds_def demo_two_def demo_world_def zero_node_head_def)
  have "find (vacant demo_two) (candidates demo_tab 20) = Some 0"
    by (simp add: c vacant_def demo_two_def demo_world_def zero_node_head_def)
  then show ?thesis
    using HashTableSearchEx_find [of demo_two demo_cmp 200 20 "Some 9"] demo_rows_wf h by auto
qed

theorem add_then_found_witness:
  "\<exists>w1 w2 w3. HashTableSearchEx 200 20 (Some 9) demo_two = Some (Some (INDEX_TO_NODE demo_tab 0), Some 0, w1) \<and>
    updData (INDEX_TO_NODE demo_tab 0) (\<lambda>_. 200) w1 = Some w2 \<and>
    InsertHashNode demo_env (INDEX_TO_NODE demo_tab 0) w2 = Some (0, w3) \<and>
    HashTableSearch 200 20 w3 = Some (Some (INDEX_TO_NODE demo_tab 0)) \<and>
    (\<forall>key2 sk2. demo_cmp key2 200 \<noteq> 0 \<longrightarrow> HashTableSearch key2 sk2 w3 = HashTableSearch key2 sk2 demo_two)"
proof -
  obtain w1 where w1: "HashTableSearchEx 200 20 (Some 9) demo_two = Some (Some (INDEX_TO_NODE demo_tab 0), Some 0, w1)"
    using demo_search_20 by blast
  have "demo_cmp 200 200 = 0" by (simp add: demo_cmp_def)
  from add_then_found [OF demo_wf(3) demo_writable(3), of demo_cmp, OF _ _ w1 this] demo_rows_wf w1
  show ?thesis by auto
qed

text \<open>
  \<open>InitGetAllHashNode\<close> followed by repeated \<open>GetAllHashNode\<close> returns the address of every slot
  of the table once, in order, and then null.
\<close>

theorem GetAllHashNode_enumerates:
  assumes "bInitSuccess t \<noteq> 0" "rows_wf t" "unat (dwRealNodeCount t) < n"
  shows "\<exists>s'. visit n (\<lambda>s. Some (GetAllHashNode t s)) (Some (GetAllHashNode t (InitGetAllHashNode s)))
    = Some (map (\<lambda>k. INDEX_TO_NODE t (of_nat k)) [0..<unat (dwRealNodeCount t)], s')"
proof -
  have "enum_rep t s (all_nodes t)" using assms by (simp add: enum_rep_def)
  from enum.visit_all [OF this, of n] assms(3) show ?thesis
    by (auto simp: all_nodes_def start_enum_def next_enum_def [abs_def])
qed

theorem GetAllHashNode_enumerates_witness:
  "\<exists>s'. visit 56 (\<lambda>s. Some (GetAllHashNode demo_tab s)) (Some (GetAllHashNode demo_tab
      (InitGetAllHashNode \<lparr>s_iGetAllNodeRowIdx = 3, s_iGetAllNodeColIdx = 1, s_pRow = None\<rparr>)))
    = Some (map (\<lambda>k. INDEX_TO_NODE demo_tab (of_nat k)) [0..<55], s')"
  using GetAllHashNode_enumerates [of demo_tab 56 "\<lparr>s_iGetAllNodeRowIdx = 3, s_iGetAllNodeColIdx = 1, s_pRow = None\<rparr>"]
    demo_rows_wf by simp

subsection \<open>Initialisation\<close>

text \<open>A kernel with at most one segment, of 744 bytes at address 5000.\<close>

definition demo_os :: "bool ShmOS" where
  "demo_os = \<lparr>os_shmget = (\<lambda>key sz flag k. if k \<or> flag AND IPC_CREAT \<noteq> 0 then (1, True) else (-1, k)),
     os_shmat = (\<lambda>i k. Some (5000, replicate 744 0))\<rparr>"

definition demo_proc :: "bool Proc" where
  "demo_proc = \<lparr>pr_kernel = False, pr_mem = (\<lambda>_. 7)\<rparr>"

definition demo_raw :: "nat HashWorld" where
  "demo_raw = demo_empty\<lparr>hw_tab := demo_tab\<lparr>bInitSuccess := 0\<rparr>\<rparr>"

lemma demo_os_flags: "(438 AND IPC_CREAT :: int) = 0" "(438 OR IPC_CREAT) AND IPC_CREAT \<noteq> (0::int)"
  by (simp_all add: IPC_CREAT_def)

text \<open>
  C17. \<open>InitHashTable\<close> when the segment does not exist yet: it is created, and the table in it is
  empty and well-formed, with sound rows, a byte count that covers all nodes, the flag free
  and both cursors at the end.
\<close>

theorem InitHashTable_fresh:
  assumes "bInitSuccess (hw_tab w) = 0" "sz \<noteq> 0" "fits sz cnt" "key \<noteq> 0"
    and "MtReportGetShm os (sint key) (sint (table_bytes (real_count cnt) sz)) 438 p = (None, p1)"
    and "MtReportGetShm os (sint key) (sint (table_bytes (real_count cnt) sz)) (438 OR IPC_CREAT) p1 = (Some a, p2)"
    and "unat (real_count cnt) \<le> seg_slots (view (pr_mem p2) a)"
  shows "\<exists>w'. InitHashTable env os view sz cnt key (Some cmp) warn w p = Some (0, w', p2) \<and>
    table_wf w' [] \<and> cursors_wf w' [] \<and> rows_wf (hw_tab w') \<and>
    covers (hw_tab w') (unat (dwRealNodeCount (hw_tab w'))) \<and> writable env w'"
proof -
  from InitHashTable_creates [where view = view, OF assms, of env cmp warn]
  obtain w' where w': "InitHashTable env os view sz cnt key (Some cmp) warn w p = Some (0, w', p2)"
    "table_wf w' []" "ready sz cnt cmp w'" "covers (hw_tab w') (unat (real_count cnt))"
    "bHashUseFlag (thead w') = 0" "dwWriteProcessId (thead w') = 0" by blast
  then show ?thesis by (intro exI [of _ w']) (simp add: ready_def writable_def)
qed

theorem InitHashTable_fresh_witness:
  "\<exists>w' p2. InitHashTable demo_env demo_os (\<lambda>m a. hw_seg demo_two) 4 11 9 (Some demo_cmp) True demo_raw demo_proc
      = Some (0, w', p2) \<and> table_wf w' [] \<and> rows_wf (hw_tab w')"
proof -
  have "MtReportGetShm demo_os (sint (9 :: u32)) (sint (table_bytes (real_count 11) 4)) 438 demo_proc = (None, demo_proc)"
    by (simp add: MtReportGetShm_def demo_os_def demo_proc_def demo_os_flags)
  moreover have "MtReportGetShm demo_os (sint (9 :: u32)) (sint (table_bytes (real_count 11) 4)) (438 OR IPC_CREAT) demo_proc
      = (Some 5000, \<lparr>pr_kernel = True, pr_mem = mem_put 5000 (replicate 744 0) (\<lambda>_. 7)\<rparr>)"
    unfolding MtReportGetShm_def by (simp add: demo_os_def demo_proc_def demo_os_flags)
  ultimately show ?thesis
    using InitHashTable_fresh [where sz = 4 and cnt = 11 and key = 9 and w = demo_raw and os = demo_os
        and p = demo_proc and ?p1.0 = demo_proc and a = 5000
        and ?p2.0 = "\<lparr>pr_kernel = True, pr_mem = mem_put 5000 (replicate 744 0) (\<lambda>_. 7)\<rparr>"
        and view = "\<lambda>m a. hw_seg demo_two" and cmp = demo_cmp and warn = True and env = demo_env]
    by (auto simp: demo_raw_def fits_demo real_count_11)
qed

text \<open>
  C18. A process that finds the segment of a table, at any address, is given the segment as it is. When
  the head of the segment has the sizes the process asks for, the initialisation succeeds, and the process sees the list of every
  well-formed table with as many nodes that another process has there. A segment made for another node size or another node
  count, whatever else it holds, is refused with \<open>-3\<close> and the table stays uninitialised.
\<close>

theorem InitHashTable_shares:
  assumes "bInitSuccess (hw_tab w) = 0" "sz \<noteq> 0" "fits sz cnt" "key \<noteq> 0"
    and "MtReportGetShm os (sint key) (sint (table_bytes (real_count cnt) sz)) 438 p = (Some a, p1)"
    and "view (pr_mem p1) a = hw_seg v"
  shows "\<exists>rc w'. InitHashTable env os view sz cnt key (Some cmp) warn w p = Some (rc, w', p1) \<and>
    (if th_dwNodeSize (thead v) = sz \<and> th_dwNodeCount (thead v) = cnt
     then rc = 0 \<and> hw_seg w' = hw_seg v \<and> (\<forall>xs. table_wf v xs \<and> dwRealNodeCount (hw_tab v) = real_count cnt \<longrightarrow> table_wf w' xs)
     else rc = -3 \<and> bInitSuccess (hw_tab w') = 0)"
proof (cases "th_dwNodeSize (thead v) = sz \<and> th_dwNodeCount (thead v) = cnt")
  case True
  then show ?thesis using InitHashTable_attaches [where view = view, OF assms, of env cmp warn] by auto
next
  case False
  then show ?thesis
    using InitHashTable_mismatch [of w sz cnt key os p a p1 view env cmp warn] assms fits_pos [OF assms(3)] by auto
qed

text \<open>The segment of \<open>demo_two\<close> as a process finds it that asks for 11 nodes, and one that was made for 22.\<close>

theorem InitHashTable_shares_witness:
  "(\<exists>rc w' p1. InitHashTable demo_env demo_os (\<lambda>m a. hw_seg demo_two) 4 11 9 (Some demo_cmp) True demo_raw
      (demo_proc\<lparr>pr_kernel := True\<rparr>) = Some (rc, w', p1) \<and> rc = 0 \<and> table_wf w' [3, 7]) \<and>
   (\<exists>rc w' p1. InitHashTable demo_env demo_os (\<lambda>m a. hw_seg (upd_thead (\<lambda>h. h\<lparr>th_dwNodeCount := 22\<rparr>) demo_two)) 4 11 9 (Some demo_cmp) True demo_raw
      (demo_proc\<lparr>pr_kernel := True\<rparr>) = Some (rc, w', p1) \<and> rc = -3 \<and> bInitSuccess (hw_tab w') = 0)"
proof -
  have hit: "MtReportGetShm demo_os (sint (9 :: u32)) (sint (table_bytes (real_count 11) 4)) 438 (demo_proc\<lparr>pr_kernel := True\<rparr>)
      = (Some 5000, \<lparr>pr_kernel = True, pr_mem = mem_put 5000 (replicate 744 0) (\<lambda>_. 7)\<rparr>)"
    unfolding MtReportGetShm_def by (simp add: demo_os_def demo_proc_def)
  have "th_dwNodeSize (thead demo_two) = 4" "th_dwNodeCount (thead demo_two) = 11" "dwRealNodeCount (hw_tab demo_two) = real_count 11"
    by (simp_all add: real_count_11)
  with hit show ?thesis
    using InitHashTable_shares [where sz = 4 and cnt = 11 and key = 9 and w = demo_raw and os = demo_os
        and p = "demo_proc\<lparr>pr_kernel := True\<rparr>" and a = 5000
        and ?p1.0 = "\<lparr>pr_kernel = True, pr_mem = mem_put 5000 (replicate 744 0) (\<lambda>_. 7)\<rparr>" and v = demo_two
        and view = "\<lambda>m a. hw_seg demo_two" and cmp = demo_cmp and warn = True and env = demo_env]
      InitHashTable_shares [where sz = 4 and cnt = 11 and key = 9 and w = demo_raw and os = demo_os
        and p = "demo_proc\<lparr>pr_kernel := True\<rparr>" and a = 5000
        and ?p1.0 = "\<lparr>pr_kernel = True, pr_mem = mem_put 5000 (replicate 744 0) (\<lambda>_. 7)\<rparr>" and v = "upd_thead (\<lambda>h. h\<lparr>th_dwNodeCount := 22\<rparr>) demo_two"
        and view = "\<lambda>m a. hw_seg (upd_thead (\<lambda>h. h\<lparr>th_dwNodeCount := 22\<rparr>) demo_two)" and cmp = demo_cmp and warn = True and env = demo_env]
    by (auto simp: demo_raw_def fits_demo demo_wf)
qed

subsection \<open>Tables without list\<close>

text \<open>
  All ten rows of a table without list have the same size, contrary to the header, which says
  that the row sizes differ: the largest prime up to the request, or the request itself below
  1002.
\<close>

theorem NoList_rows_equal:
  "nl_dwNodeNums (init_NoList sz cnt cmp warn) = replicate 10 (prime_down cnt) \<and>
   (unat cnt < 1002 \<longrightarrow> prime_down cnt = cnt)"
  by (simp add: init_NoList_rows row_size_def STATIC_HASH_ROW_MAX_def prime_down_small word_less_nat_alt)

theorem NoList_rows_equal_witness:
  "nl_dwNodeNums (init_NoList 4 11 demo_cmp True) = replicate 10 (prime_down 11)"
  using NoList_rows_equal [of 4 11 demo_cmp True] by simp

text \<open>
  \<open>HashTableSearch_NoList\<close> examines the candidates of the short key in row order and returns
  the first that matches; \<open>HashTableSearchEx_NoList\<close> agrees with it, and otherwise returns an
  empty node or null.
\<close>

theorem HashTableSearch_NoList_correct:
  assumes "nl_bInitSuccess t \<noteq> 0" "nl_dwNodeNums t = replicate STATIC_HASH_ROW_MAX n" "n \<noteq> 0"
    and "nl_fun_cmp t = Some cmp" "unat (nl_dwNodeSize t) * unat n < 2 ^ 32"
  shows "\<exists>r. HashTableSearch_NoList m t key sk = Some r \<and>
    r = find (\<lambda>a. cmp key (m a) = 0) (map (candidate t sk) [0..<STATIC_HASH_ROW_MAX]) \<and>
    (\<exists>q f ev. HashTableSearchEx_NoList m t key ek sk (Some v) = Some (q, Some f, ev) \<and>
      (case r of Some a \<Rightarrow> q = Some a \<and> f = 1
       | None \<Rightarrow> f = 0 \<and> (\<forall>a. q = Some a \<longrightarrow> cmp ek (m a) = 0)))"
proof -
  have "0 \<notin> set (take STATIC_HASH_ROW_MAX (nl_dwNodeNums t))" using assms(2,3) by simp
  from search_rows_ex_NoList_found [OF this assms(4), where m = m and key = key and sk = sk and b = "nl_pHash t" and ek = ek
      and i = 0 and e = None and f = "Some 0" and ev = "[]"]
  show ?thesis
    using HashTableSearch_NoList_find [OF assms, of m key sk] assms(1)
    by (auto simp: HashTableSearch_NoList_def HashTableSearchEx_NoList_def split: option.splits)
qed

definition demo_nolist :: "nat SharedHashTableNoList" where
  "demo_nolist = (init_NoList 4 11 demo_cmp True)\<lparr>nl_bInitSuccess := 1, nl_pHash := 5000\<rparr>"

theorem HashTableSearch_NoList_correct_witness:
  "\<exists>r. HashTableSearch_NoList (\<lambda>a. a) demo_nolist 5012 3 = Some r \<and> r = Some 5012"
proof -
  have t: "nl_bInitSuccess demo_nolist \<noteq> 0" "nl_dwNodeNums demo_nolist = replicate STATIC_HASH_ROW_MAX 11"
    "nl_fun_cmp demo_nolist = Some demo_cmp" "nl_dwNodeSize demo_nolist = 4" "nl_pHash demo_nolist = 5000"
    by (simp_all add: demo_nolist_def init_NoList_rows row_size_def prime_down_small)
      (simp_all add: init_NoList_def Let_def)
  show ?thesis
    using HashTableSearch_NoList_correct [OF t(1,2) _ t(3), of "\<lambda>a. a" 5012 3 0 0] t
    by (simp add: STATIC_HASH_ROW_MAX_def candidate_def demo_cmp_def upt_conv_Cons)
qed

subsection \<open>Guarded segments\<close>

text \<open>
  A segment \<open>MtReport_GetShm\<close> creates (result 1) carries the guard string before and behind a
  zeroed payload, and the caller gets the address of the payload.
\<close>

theorem GetShm_creates_guards:
  assumes "MtReport_GetShm os key sz flag chk p = (1, q, p')" "0 \<le> sz"
  shows "\<exists>s. q = Some (s + length chk) \<and>
    mem_get s (length chk + nat sz + length chk) (pr_mem p') = chk @ replicate (nat sz) 0 @ chk"
  using GetShm_created [OF assms] by (simp add: guarded_def)

lemma demo_GetShm: "\<exists>q p'. MtReport_GetShm demo_os 9 10 (438 OR IPC_CREAT) [1, 2] demo_proc = (1, q, p')"
proof -
  have f: "((438 OR IPC_CREAT) AND NOT IPC_CREAT) AND IPC_CREAT = (0::int)" by (simp add: IPC_CREAT_def)
  show ?thesis
    by (simp add: MtReport_GetShm_def MtReportGetShm_def demo_os_def demo_proc_def demo_os_flags f Let_def)
qed

theorem GetShm_creates_guards_witness:
  "\<exists>s q p'. MtReport_GetShm demo_os 9 10 (438 OR IPC_CREAT) [1, 2] demo_proc = (1, q, p') \<and> q = Some (s + 2) \<and>
    mem_get s 14 (pr_mem p') = [1, 2] @ replicate 10 0 @ [1, 2]"
proof -
  obtain q p' where r: "MtReport_GetShm demo_os 9 10 (438 OR IPC_CREAT) [1, 2] demo_proc = (1, q, p')"
    using demo_GetShm by blast
  from GetShm_creates_guards [OF r] r show ?thesis by auto
qed

text \<open>
  C22. An existing segment is accepted (result 0) exactly when both guard strings are intact, and
  refused with \<open>-2\<close> otherwise.
\<close>

theorem GetShm_accepts_iff_guarded:
  assumes "MtReportGetShm os key (sz + int (length chk) * 2) (flag AND NOT IPC_CREAT) p = (Some s, p')"
    and "mem_get s (length bs) (pr_mem p') = bs" "length bs = length chk + nat sz + length chk"
  shows "MtReport_GetShm os key sz flag chk p =
    (if \<exists>pl. bs = chk @ pl @ chk then (0, Some (s + length chk), p') else (-2, None, p'))"
  using GetShm_attach [OF assms] by (simp add: guarded_def)

theorem GetShm_accepts_iff_guarded_witness:
  "MtReport_GetShm (demo_os\<lparr>os_shmat := (\<lambda>i k. Some (5000, [1, 2, 8, 8, 8, 1, 2]))\<rparr>) 9 3 438 [1, 2]
     (demo_proc\<lparr>pr_kernel := True\<rparr>)
   = (0, Some 5002, \<lparr>pr_kernel = True, pr_mem = mem_put 5000 [1, 2, 8, 8, 8, 1, 2] (\<lambda>_. 7)\<rparr>)"
proof -
  have g: "\<exists>pl. [1, 2, 8, 8, 8, 1, 2] = [1, 2] @ pl @ [1, 2 :: u8]" by (rule exI [of _ "[8, 8, 8]"]) simp
  have a: "MtReportGetShm (demo_os\<lparr>os_shmat := (\<lambda>i k. Some (5000, [1, 2, 8, 8, 8, 1, 2]))\<rparr>) 9
      (3 + int (length [1, 2 :: u8]) * 2) (438 AND NOT IPC_CREAT) (demo_proc\<lparr>pr_kernel := True\<rparr>)
    = (Some 5000, \<lparr>pr_kernel = True, pr_mem = mem_put 5000 [1, 2, 8, 8, 8, 1, 2] (\<lambda>_. 7)\<rparr>)"
    by (simp add: MtReportGetShm_def demo_os_def demo_proc_def)
  show ?thesis
    using GetShm_accepts_iff_guarded [OF a, of "[1, 2, 8, 8, 8, 1, 2]"] unfolding if_P [OF g] by simp
qed

end
