(* ===== verification/Vmem.thy ===== *)
theory Vmem
  imports Prelude
begin

text \<open>
  \<open>language/c_cpp/mt_vmem.c\<close>: the store for byte strings of varying length. For each node
  length (16, 32, 64, 128, 255) there are five pools; a pool is an array of nodes whose first
  slot holds the counters (\<open>VmemBufNodeFirst\<close>), a free list through the nodes, and chains of
  nodes that hold one string each. A string is named by a 32-bit index that packs pool
  number, node length and first node.

  Slot 0 of a pool is overlaid by the counters: reading its next index reads \<open>wNodeCount\<close>.
  Any other access to slot 0, and any access behind the last slot, leaves the model (\<open>None\<close>).
\<close>

subsection \<open>Pools\<close>

record VmemBufNode =
  wNextNodeIndex :: u16
  bDataLen :: u8
  sDataBuf :: "u8 list"

text \<open>\<open>vp_slots\<close> is the number of array elements, \<open>vp_nodes\<close> the array.\<close>

record VmemPool =
  wNodeCount :: u16
  wNodeUsed :: u16
  wFreeNodeIndex :: u16
  bUseFlag :: u8
  wScanFreeIndex :: u16
  dwUseFlagStartTime :: u32
  vp_slots :: nat
  vp_nodes :: "u16 \<Rightarrow> VmemBufNode"

definition VMEM_SHM_COUNT :: nat where
  "VMEM_SHM_COUNT = 5"

definition VMEM_MAX_DATA_LEN :: nat where
  "VMEM_MAX_DATA_LEN = 65000"

text \<open>The node lengths and the numbers of nodes per pool.\<close>

definition vmem_lens :: "nat list" where
  "vmem_lens = [16, 32, 64, 128, 255]"

definition node_count :: "nat \<Rightarrow> nat" where
  "node_count len = (if len = 16 then 20000 else if len = 32 then 20000 else if len = 64 then 60000
     else if len = 128 then 20000 else 15000)"

definition node_ok :: "VmemPool \<Rightarrow> u16 \<Rightarrow> bool" where
  "node_ok p i \<longleftrightarrow> i \<noteq> 0 \<and> unat i < vp_slots p"

definition upd_vnode :: "u16 \<Rightarrow> (VmemBufNode \<Rightarrow> VmemBufNode) \<Rightarrow> VmemPool \<Rightarrow> VmemPool" where
  "upd_vnode i f p = p\<lparr>vp_nodes := (vp_nodes p)(i := f (vp_nodes p i))\<rparr>"

definition rd_next :: "VmemPool \<Rightarrow> u16 \<Rightarrow> u16 option" where
  "rd_next p i = (if i = 0 then Some (wNodeCount p)
     else if node_ok p i then Some (wNextNodeIndex (vp_nodes p i)) else None)"

definition rd_node :: "VmemPool \<Rightarrow> u16 \<Rightarrow> VmemBufNode option" where
  "rd_node p i = (if node_ok p i then Some (vp_nodes p i) else None)"

definition wr_node :: "u16 \<Rightarrow> (VmemBufNode \<Rightarrow> VmemBufNode) \<Rightarrow> VmemPool \<Rightarrow> VmemPool option" where
  "wr_node i f p = (if node_ok p i then Some (upd_vnode i f p) else None)"

text \<open>\<open>memcpy(pNode[i].sDataBuf, d, n)\<close> for a buffer of \<open>len\<close> bytes.\<close>

definition copy_in :: "nat \<Rightarrow> u16 \<Rightarrow> u8 list \<Rightarrow> VmemPool \<Rightarrow> VmemPool option" where
  "copy_in len i d p =
     (if length d \<le> len
      then wr_node i (\<lambda>n. n\<lparr>sDataBuf := d @ drop (length d) (sDataBuf n)\<rparr>) p else None)"

text \<open>
  \<open>VARMEM_CAS_GET(&bUseFlag) || _MtReport_Flag_IsTimeout(pFirst)\<close>: \<open>clk n\<close> is the n-th clock
  reading, \<open>n\<close> how many were made.
\<close>

definition take_flag :: "(nat \<Rightarrow> u32) \<Rightarrow> nat \<times> VmemPool \<Rightarrow> bool \<times> nat \<times> VmemPool" where
  "take_flag clk np = (case np of (n, p) \<Rightarrow>
     if bUseFlag p = 0 then (True, n, p\<lparr>bUseFlag := 1\<rparr>)
     else (dwUseFlagStartTime p + 2 < clk n, Suc n, p))"

definition stamp_flag :: "(nat \<Rightarrow> u32) \<Rightarrow> nat \<times> VmemPool \<Rightarrow> nat \<times> VmemPool" where
  "stamp_flag clk np = (case np of (n, p) \<Rightarrow> (Suc n, p\<lparr>dwUseFlagStartTime := clk n\<rparr>))"

text \<open>A node marked for delayed release has the next index \<open>wNodeCount + 1\<close> (computed as an \<open>int\<close>).\<close>

definition is_dead :: "VmemPool \<Rightarrow> u16 \<Rightarrow> bool" where
  "is_dead p nxt \<longleftrightarrow> unat nxt = unat (wNodeCount p) + 1"

definition push_free :: "u16 \<Rightarrow> VmemPool \<Rightarrow> VmemPool option" where
  "push_free i p = do {
     p \<leftarrow> wr_node i (\<lambda>n. n\<lparr>wNextNodeIndex := wFreeNodeIndex p\<rparr>) p;
     Some (p\<lparr>wFreeNodeIndex := i, wNodeUsed := wNodeUsed p - 1\<rparr>)
   }"

lemma push_free_count: "push_free i p = Some q \<Longrightarrow> wNodeCount q = wNodeCount p"
  by (auto simp: push_free_def wr_node_def upd_vnode_def split: if_splits)

text \<open>\<open>SCAN_FREE_NODE\<close>: the next \<open>k\<close> nodes are looked at, dead ones go to the free list.\<close>

fun SCAN_FREE_NODE :: "nat \<Rightarrow> VmemPool \<Rightarrow> VmemPool option" where
  "SCAN_FREE_NODE 0 p = Some p"
| "SCAN_FREE_NODE (Suc k) p = (let
     p = (if wNodeCount p \<le> wScanFreeIndex p then p\<lparr>wScanFreeIndex := 1\<rparr> else p);
     s = wScanFreeIndex p in do {
     nxt \<leftarrow> rd_next p s;
     p \<leftarrow> (if is_dead p nxt then push_free s p else Some p);
     SCAN_FREE_NODE k (p\<lparr>wScanFreeIndex := wScanFreeIndex p + 1\<rparr>)
   })"

definition VMEM_GET_FREE_NODE :: "VmemPool \<Rightarrow> (u16 \<times> VmemPool) option" where
  "VMEM_GET_FREE_NODE p = do {
     nxt \<leftarrow> rd_next p (wFreeNodeIndex p);
     Some (wFreeNodeIndex p, p\<lparr>wFreeNodeIndex := nxt\<rparr>)
   }"

subsection \<open>Saving\<close>

text \<open>\<open>while(wNeedCount > 1)\<close>: \<open>k\<close> full nodes are filled; \<open>f\<close> is the node taken last.\<close>

fun save_loop :: "nat \<Rightarrow> nat \<Rightarrow> u8 list \<Rightarrow> u16 \<Rightarrow> VmemPool \<Rightarrow> (u16 \<times> u8 list \<times> VmemPool) option" where
  "save_loop len 0 d f p = Some (f, d, p)"
| "save_loop len (Suc k) d f p = do {
     p \<leftarrow> copy_in len f (take len d) p;
     p \<leftarrow> wr_node f (\<lambda>n. n\<lparr>bDataLen := of_nat len\<rparr>) p;
     (g, p) \<leftarrow> VMEM_GET_FREE_NODE p;
     p \<leftarrow> wr_node f (\<lambda>n. n\<lparr>wNextNodeIndex := g\<rparr>) p;
     save_loop len k (drop len d) g p
   }"

text \<open>The part of the save functions behind the space checks, up to the release of the flag.\<close>

definition save_in_pool :: "nat \<Rightarrow> nat \<Rightarrow> u8 list \<Rightarrow> VmemPool \<Rightarrow> (u16 \<times> VmemPool) option" where
  "save_in_pool len need d p = do {
     p \<leftarrow> SCAN_FREE_NODE 50 p;
     (first, p) \<leftarrow> VMEM_GET_FREE_NODE p;
     let p = p\<lparr>wNodeUsed := wNodeUsed p + of_nat need\<rparr>;
     (f, d, p) \<leftarrow> save_loop len (need - 1) d first p;
     p \<leftarrow> wr_node f (\<lambda>n. n\<lparr>wNextNodeIndex := wNodeCount p\<rparr>) p;
     p \<leftarrow> copy_in len f d p;
     p \<leftarrow> wr_node f (\<lambda>n. n\<lparr>bDataLen := of_nat (length d)\<rparr>) p;
     Some (first, p\<lparr>bUseFlag := 0\<rparr>)
   }"

definition need_count :: "nat \<Rightarrow> nat \<Rightarrow> nat" where
  "need_count len n = n div len + (if n mod len \<noteq> 0 then 1 else 0)"

definition enough :: "VmemPool \<Rightarrow> nat \<Rightarrow> bool" where
  "enough p need \<longleftrightarrow> \<not> unat (wNodeCount p) < unat (wNodeUsed p) + need"

definition VMEM_MAKE_IDEX32 :: "nat \<Rightarrow> nat \<Rightarrow> u16 \<Rightarrow> u32" where
  "VMEM_MAKE_IDEX32 len t_idx n_idx =
     push_bit 16 (push_bit 8 (0 OR of_nat t_idx) OR of_nat len) OR ucast n_idx"

text \<open>
  The state: the flags of the process and of the segment, and the pools by node length and
  number. \<open>vm_tick\<close> counts the clock readings.
\<close>

record Vmem =
  cIsInit :: u8
  cIsVmemInit :: u8
  vm_attached :: bool
  shm_cIsVmemInit :: u8
  vm_pool :: "nat \<Rightarrow> nat \<Rightarrow> VmemPool"
  vm_tick :: nat

definition set_pool :: "nat \<Rightarrow> nat \<Rightarrow> nat \<times> VmemPool \<Rightarrow> Vmem \<Rightarrow> Vmem" where
  "set_pool len i np v = v\<lparr>vm_pool := (vm_pool v)(len := (vm_pool v len)(i := snd np)), vm_tick := fst np\<rparr>"

text \<open>
  The loop of the five functions \<open>_SaveToVmem16\<close> .. \<open>_SaveToVmem255\<close> that the macro
  \<open>__SAVE_DATA_TO_VMEM\<close> generates, over the pools from \<open>i\<close> on. The result is an \<open>int32_t\<close>:
  \<open>-101\<close> when no pool can take the data.
\<close>

fun save_pools :: "(nat \<Rightarrow> u32) \<Rightarrow> nat \<Rightarrow> u8 list \<Rightarrow> nat list \<Rightarrow> Vmem \<Rightarrow> (int \<times> Vmem) option" where
  "save_pools clk len d [] v = Some (-101, v)"
| "save_pools clk len d (i # is) v =
     (let need = need_count len (length d) in
      case take_flag clk (vm_tick v, vm_pool v len i) of
        (False, np) \<Rightarrow> save_pools clk len d is (set_pool len i np v)
      | (True, np) \<Rightarrow> (case stamp_flag clk np of (n, p) \<Rightarrow> do {
          p \<leftarrow> (if enough p need then Some p else SCAN_FREE_NODE 50 p);
          if enough p need
          then do {
            (first, p) \<leftarrow> save_in_pool len need d p;
            Some (sint (VMEM_MAKE_IDEX32 len i first), set_pool len i (n, p) v)
          }
          else save_pools clk len d is (set_pool len i (n, p\<lparr>bUseFlag := 0\<rparr>) v)
        }))"

definition SAVE_DATA_TO_VMEM :: "(nat \<Rightarrow> u32) \<Rightarrow> nat \<Rightarrow> u8 list \<Rightarrow> Vmem \<Rightarrow> (int \<times> Vmem) option" where
  "SAVE_DATA_TO_VMEM clk len d v = save_pools clk len d [0..<VMEM_SHM_COUNT] v"

text \<open>
  \<open>MtReport_SaveToVmem\<close> tries the lengths that fit the data best (descending) and then the
  remaining ones (ascending) until one succeeds.
\<close>

fun try_lens :: "(nat \<Rightarrow> u32) \<Rightarrow> u8 list \<Rightarrow> nat list \<Rightarrow> int \<Rightarrow> Vmem \<Rightarrow> (int \<times> Vmem) option" where
  "try_lens clk d [] r v = Some (r, v)"
| "try_lens clk d (len # lens) r v =
     (if r < 0 then do { (r, v) \<leftarrow> SAVE_DATA_TO_VMEM clk len d v; try_lens clk d lens r v }
      else Some (r, v))"

definition save_order :: "nat \<Rightarrow> nat list" where
  "save_order n = filter (\<lambda>len. len \<le> n) (rev vmem_lens) @ filter (\<lambda>len. \<not> len \<le> n) vmem_lens"

definition MtReport_SaveToVmem :: "(nat \<Rightarrow> u32) \<Rightarrow> u8 list \<Rightarrow> Vmem \<Rightarrow> (int \<times> Vmem) option" where
  "MtReport_SaveToVmem clk d v =
     (if cIsInit v = 0 then Some (-101, v)
      else if length d = 0 \<or> VMEM_MAX_DATA_LEN < length d then Some (-1, v)
      else try_lens clk d (save_order (length d)) (-1) v)"

subsection \<open>Reading and releasing\<close>

definition VMEM_PARSE_IDEX32 :: "u32 \<Rightarrow> nat \<times> nat \<times> u16" where
  "VMEM_PARSE_IDEX32 idx =
     (unat (drop_bit 16 idx AND 0xff), unat (drop_bit 24 idx AND 0xff), ucast (idx AND 0xffff))"

text \<open>
  The chain walk of \<open>VMEM_GET_DATA\<close>: \<open>out\<close> is what was copied to the buffer so far, \<open>room\<close>
  what is left of it. \<open>Inl\<close> is the return \<open>-4\<close>.
\<close>

partial_function (option) get_chain ::
    "nat \<Rightarrow> VmemPool \<Rightarrow> u16 \<Rightarrow> nat \<Rightarrow> u8 list \<Rightarrow> (u8 list + u8 list) option" where
  "get_chain len p i room out = do {
     n \<leftarrow> rd_node p i;
     if room < unat (bDataLen n) then Some (Inl out)
     else if len < unat (bDataLen n) then None
     else let out = out @ take (unat (bDataLen n)) (sDataBuf n) in
       if wNextNodeIndex n < wNodeCount p
       then get_chain len p (wNextNodeIndex n) (room - unat (bDataLen n)) out
       else Some (Inr out)
   }"

text \<open>
  The result is the return code and the bytes written to the buffer; on success their number
  is stored in \<open>*piBufLen\<close>. A pool number equal to \<open>VMEM_SHM_COUNT\<close> passes the test of the
  code and reads behind the array of pool pointers (\<open>None\<close>).
\<close>

definition MtReport_GetFromVmem :: "u32 \<Rightarrow> nat \<Rightarrow> Vmem \<Rightarrow> (int \<times> u8 list) option" where
  "MtReport_GetFromVmem index iBufLen v =
     (if cIsInit v = 0 then Some (-101, [])
      else case VMEM_PARSE_IDEX32 index of (len, tIdx, nIdx) \<Rightarrow>
        if VMEM_SHM_COUNT < tIdx then Some (-1, [])
        else if len \<notin> set vmem_lens then Some (-3, [])
        else if tIdx = VMEM_SHM_COUNT then None
        else let p = vm_pool v len tIdx in
          if wNodeCount p \<le> nIdx then Some (-2, [])
          else do {
            r \<leftarrow> get_chain len p nIdx iBufLen [];
            Some (case r of Inl out \<Rightarrow> (-4, out) | Inr out \<Rightarrow> (0, out))
          })"

definition MtReport_GetFromVmem_Local :: "u32 \<Rightarrow> Vmem \<Rightarrow> u8 list option option" where
  "MtReport_GetFromVmem_Local index v = do {
     (rc, out) \<leftarrow> MtReport_GetFromVmem index VMEM_MAX_DATA_LEN v;
     Some (if rc = 0 then Some out else None)
   }"

text \<open>
  The release loop of \<open>VMEM_FREE_NODE\<close>. With the flag the nodes go to the free list (a use
  count of zero is an assertion failure), without it they are marked dead.
\<close>

partial_function (option) free_chain :: "bool \<Rightarrow> u16 \<Rightarrow> VmemPool \<Rightarrow> VmemPool option" where
  "free_chain flag i p = do {
     n \<leftarrow> rd_node p i;
     let nxt = wNextNodeIndex n;
     p \<leftarrow> wr_node i (\<lambda>n. n\<lparr>bDataLen := 0\<rparr>) p;
     p \<leftarrow> (if flag then do { p \<leftarrow> push_free i p; if wNodeUsed p = 0 then None else Some p }
           else wr_node i (\<lambda>n. n\<lparr>wNextNodeIndex := wNodeCount p + 1\<rparr>) p);
     if nxt < wNodeCount p then free_chain flag nxt p else Some p
   }"

definition MtReport_FreeVmem :: "(nat \<Rightarrow> u32) \<Rightarrow> u32 \<Rightarrow> Vmem \<Rightarrow> (int \<times> Vmem) option" where
  "MtReport_FreeVmem clk index v =
     (if cIsInit v = 0 then Some (-101, v)
      else case VMEM_PARSE_IDEX32 index of (len, tIdx, nIdx) \<Rightarrow>
        if VMEM_SHM_COUNT \<le> tIdx then Some (-1, v)
        else if len \<notin> set vmem_lens then Some (-3, v)
        else let p = vm_pool v len tIdx in
          if wNodeCount p \<le> nIdx then Some (-2, v)
          else (case take_flag clk (vm_tick v, p) of (flag, np) \<Rightarrow>
            (case (if flag then stamp_flag clk np else np) of (n, p) \<Rightarrow> do {
               p \<leftarrow> free_chain flag nIdx p;
               Some (0, set_pool len tIdx (n, if flag then p\<lparr>bUseFlag := 0\<rparr> else p) v)
             })))"

definition MtReport_GetAndFreeVmem :: "(nat \<Rightarrow> u32) \<Rightarrow> u32 \<Rightarrow> nat \<Rightarrow> Vmem \<Rightarrow> (int \<times> u8 list \<times> Vmem) option" where
  "MtReport_GetAndFreeVmem clk index iBufLen v = do {
     (rc, out) \<leftarrow> MtReport_GetFromVmem index iBufLen v;
     if rc < 0 then Some (-1, out, v)
     else do { (_, v) \<leftarrow> MtReport_FreeVmem clk index v; Some (0, out, v) }
   }"

subsection \<open>Collecting dead nodes\<close>

text \<open>\<open>CHECK_VMEM_FREE_NODE\<close> on one pool, from node \<open>i\<close> on; \<open>c\<close> counts the nodes collected.\<close>

function check_pool :: "nat \<Rightarrow> nat \<Rightarrow> VmemPool \<Rightarrow> (nat \<times> VmemPool) option" where
  "check_pool i c p =
     (if unat (wNodeCount p) \<le> i then Some (c, p)
      else do {
        n \<leftarrow> rd_node p (of_nat i);
        if bDataLen n = 0 \<and> is_dead p (wNextNodeIndex n)
        then if bUseFlag p = 0
          then case push_free (of_nat i) (p\<lparr>bUseFlag := 1\<rparr>) of
              None \<Rightarrow> None
            | Some q \<Rightarrow> if wNodeUsed q = 0 then None
                else check_pool (Suc i) (Suc c) (q\<lparr>bUseFlag := 0\<rparr>)
          else Some (c, p)
        else check_pool (Suc i) c p
      })"
  by pat_completeness auto
termination
  by (relation "measure (\<lambda>(i, c, p). unat (wNodeCount p) - i)")
    (auto dest!: push_free_count)

declare check_pool.simps [simp del]

fun check_pools :: "(nat \<times> nat) list \<Rightarrow> nat \<Rightarrow> Vmem \<Rightarrow> (nat \<times> Vmem) option" where
  "check_pools [] c v = Some (c, v)"
| "check_pools ((len, j) # xs) c v = do {
     (c, p) \<leftarrow> check_pool 1 c (vm_pool v len j);
     check_pools xs c (set_pool len j (vm_tick v, p) v)
   }"

definition all_pools :: "(nat \<times> nat) list" where
  "all_pools = List.product vmem_lens [0..<VMEM_SHM_COUNT]"

definition MtReport_CheckVmem :: "Vmem \<Rightarrow> (int \<times> Vmem) option" where
  "MtReport_CheckVmem v =
     (if cIsInit v = 0 \<or> cIsVmemInit v = 0 \<or> \<not> vm_attached v then Some (-101, v)
      else map_option (\<lambda>(c, v). (int c, v)) (check_pools all_pools 0 v))"

text \<open>The scan loop of \<open>MA_SCAN_FREE_NODE\<close>: at most \<open>k\<close> nodes from \<open>i\<close> on.\<close>

fun scan_loop :: "nat \<Rightarrow> nat \<Rightarrow> VmemPool \<Rightarrow> (nat \<times> VmemPool) option" where
  "scan_loop 0 i p = Some (i, p)"
| "scan_loop (Suc k) i p =
     (if i < unat (wNodeCount p) then do {
        nxt \<leftarrow> rd_next p (of_nat i);
        p \<leftarrow> (if is_dead p nxt
              then do { p \<leftarrow> push_free (of_nat i) p; if wNodeUsed p = 0 then None else Some p }
              else Some p);
        scan_loop k (Suc i) p
      }
      else Some (i, p))"

definition MtReport_ScanNode_Inner :: "(nat \<Rightarrow> u32) \<Rightarrow> nat \<Rightarrow> nat \<Rightarrow> nat \<Rightarrow> nat \<Rightarrow> Vmem \<Rightarrow> (int \<times> Vmem) option" where
  "MtReport_ScanNode_Inner clk iNodeLen iArrIdx iNodeIdx iScanCount v =
     (if iNodeLen \<notin> set vmem_lens then Some (int iNodeIdx, v)
      else if VMEM_SHM_COUNT \<le> iArrIdx then Some (-2, v)
      else case take_flag clk (vm_tick v, vm_pool v iNodeLen iArrIdx) of
        (False, np) \<Rightarrow> Some (-1, set_pool iNodeLen iArrIdx np v)
      | (True, np) \<Rightarrow> (case stamp_flag clk np of (n, p) \<Rightarrow> do {
          (i, p) \<leftarrow> scan_loop iScanCount iNodeIdx p;
          let v = set_pool iNodeLen iArrIdx (n, p\<lparr>bUseFlag := 0\<rparr>) v;
          Some (if unat (wNodeCount p) \<le> i then -2 else int i, v)
        }))"

definition MtReport_GetNextNodeLen :: "nat \<Rightarrow> nat" where
  "MtReport_GetNextNodeLen n =
     (if n = 16 then 32 else if n = 32 then 64 else if n = 64 then 128 else if n = 128 then 255 else 16)"

text \<open>The static variables of \<open>MtReport_ScanNode\<close>.\<close>

record ScanState =
  iCurScanLen :: nat
  iCurScanArrIdx :: nat
  iNodeIdx :: nat

definition MtReport_ScanNode :: "(nat \<Rightarrow> u32) \<Rightarrow> nat \<Rightarrow> ScanState \<Rightarrow> Vmem \<Rightarrow> (int \<times> ScanState \<times> Vmem) option" where
  "MtReport_ScanNode clk iScanCount s v = do {
     let iScanCount = (if iScanCount < 1000 then 1000 else iScanCount);
     (iRet, v) \<leftarrow> MtReport_ScanNode_Inner clk (iCurScanLen s) (iCurScanArrIdx s) (iNodeIdx s) iScanCount v;
     if iRet = -2 then
       let s = s\<lparr>iNodeIdx := 0, iCurScanArrIdx := iCurScanArrIdx s + 1\<rparr> in
       if VMEM_SHM_COUNT \<le> iCurScanArrIdx s then
         let s = s\<lparr>iCurScanArrIdx := 0, iCurScanLen := MtReport_GetNextNodeLen (iCurScanLen s)\<rparr> in
         Some (if iCurScanLen s = 16 then 0 else 1, s, v)
       else Some (1, s, v)
     else if 0 \<le> iRet then Some (1, s\<lparr>iNodeIdx := nat iRet\<rparr>, v)
     else Some (1, s, v)
   }"

subsection \<open>Initialisation\<close>

text \<open>\<open>VMEM_CREATE_INIT_SHM\<close> on one pool of \<open>n\<close> nodes.\<close>

definition VMEM_CREATE_INIT_SHM :: "nat \<Rightarrow> VmemPool \<Rightarrow> VmemPool" where
  "VMEM_CREATE_INIT_SHM n p = p\<lparr>
     vp_nodes := (\<lambda>i. if unat i < n then (vp_nodes p i)\<lparr>wNextNodeIndex := of_nat (unat i + 1)\<rparr> else vp_nodes p i),
     wNodeCount := of_nat n, wNodeUsed := 1, wFreeNodeIndex := 1\<rparr>"

definition MtReport_InitVmem :: "Vmem \<Rightarrow> int \<times> Vmem" where
  "MtReport_InitVmem v =
     (if cIsVmemInit v \<noteq> 0 then (1, v)
      else if \<not> vm_attached v then (-1, v)
      else let v = (if shm_cIsVmemInit v = 0
                    then v\<lparr>vm_pool := (\<lambda>len j. if len \<in> set vmem_lens \<and> j < VMEM_SHM_COUNT
                             then VMEM_CREATE_INIT_SHM (node_count len) (vm_pool v len j) else vm_pool v len j)\<rparr>
                    else v)
        in (0, v\<lparr>shm_cIsVmemInit := 1, cIsVmemInit := 1\<rparr>))"

end
