(* ===== verification/Vmem_Pool.thy ===== *)
theory Vmem_Pool
  imports Vmem
begin

text \<open>
  Correctness of one pool of \<open>mt_vmem.c\<close>. \<open>pool_wf len p fl bl dead\<close> is the invariant: the free
  list of \<open>p\<close> is \<open>fl\<close>, the strings stored in it are the chains \<open>bl\<close>, the nodes in \<open>dead\<close>
  wait for collection, all of them are different nodes of the array, and the use counter
  counts what is not free.
\<close>

subsection \<open>Chains and the invariant\<close>

definition first_or :: "'a \<Rightarrow> 'a list \<Rightarrow> 'a" where
  "first_or e xs = (case xs of [] \<Rightarrow> e | x # _ \<Rightarrow> x)"

lemma first_or_simps [simp]: "first_or e [] = e" "first_or e (x # xs) = x"
  by (simp_all add: first_or_def)

fun nchain :: "(u16 \<Rightarrow> VmemBufNode) \<Rightarrow> u16 list \<Rightarrow> u16 \<Rightarrow> bool" where
  "nchain h [] e = True"
| "nchain h (x # xs) e = (wNextNodeIndex (h x) = first_or e xs \<and> nchain h xs e)"

lemma nchain_cong: "(\<And>x. x \<in> set xs \<Longrightarrow> h' x = h x) \<Longrightarrow> nchain h' xs e = nchain h xs e"
  by (induction xs) auto

lemma nchain_upd_outside [simp]: "i \<notin> set xs \<Longrightarrow> nchain (h(i := v)) xs e = nchain h xs e"
  by (rule nchain_cong) auto

lemma nchain_next_cong:
  "(\<And>x. x \<in> set xs \<Longrightarrow> wNextNodeIndex (h' x) = wNextNodeIndex (h x)) \<Longrightarrow> nchain h' xs e = nchain h xs e"
  by (induction xs) auto

definition pool_nodes :: "u16 list \<Rightarrow> u16 list list \<Rightarrow> u16 list \<Rightarrow> u16 list" where
  "pool_nodes fl bl dead = fl @ concat bl @ dead"

definition pool_end :: "VmemPool \<Rightarrow> u16" where
  "pool_end p = of_nat (vp_slots p)"

definition pool_wf :: "nat \<Rightarrow> VmemPool \<Rightarrow> u16 list \<Rightarrow> u16 list list \<Rightarrow> u16 list \<Rightarrow> bool" where
  "pool_wf len p fl bl dead \<longleftrightarrow>
     2 \<le> vp_slots p \<and> vp_slots p + 1 < 2 ^ 16 \<and> wNodeCount p = pool_end p \<and>
     wFreeNodeIndex p = first_or (pool_end p) fl \<and> nchain (vp_nodes p) fl (pool_end p) \<and>
     (\<forall>xs\<in>set bl. xs \<noteq> [] \<and> nchain (vp_nodes p) xs (pool_end p)) \<and>
     (\<forall>x. node_ok p x \<longrightarrow> (wNextNodeIndex (vp_nodes p x) = pool_end p + 1 \<longleftrightarrow> x \<in> set dead)) \<and>
     distinct (pool_nodes fl bl dead) \<and> (\<forall>x\<in>set (pool_nodes fl bl dead). node_ok p x) \<and>
     unat (wNodeUsed p) + length fl = vp_slots p \<and>
     (\<forall>x. node_ok p x \<longrightarrow> length (sDataBuf (vp_nodes p x)) = len) \<and>
     (\<forall>x\<in>set (concat bl). unat (bDataLen (vp_nodes p x)) \<le> len)"

text \<open>The string a chain holds.\<close>

definition node_data :: "VmemBufNode \<Rightarrow> u8 list" where
  "node_data n = take (unat (bDataLen n)) (sDataBuf n)"

definition blob_data :: "VmemPool \<Rightarrow> u16 list \<Rightarrow> u8 list" where
  "blob_data p xs = concat (map (\<lambda>x. node_data (vp_nodes p x)) xs)"

lemma blob_data_simps [simp]:
  "blob_data p [] = []" "blob_data p (x # xs) = node_data (vp_nodes p x) @ blob_data p xs"
  by (simp_all add: blob_data_def)

lemma blob_data_cong:
  "(\<And>x. x \<in> set xs \<Longrightarrow> vp_nodes p' x = vp_nodes p x) \<Longrightarrow> blob_data p' xs = blob_data p xs"
  by (auto simp: blob_data_def intro!: arg_cong [where f = concat])

lemma upd_vnode_sel [simp, vmem_simps]:
  "wNodeCount (upd_vnode i f p) = wNodeCount p" "wNodeUsed (upd_vnode i f p) = wNodeUsed p"
  "wFreeNodeIndex (upd_vnode i f p) = wFreeNodeIndex p" "bUseFlag (upd_vnode i f p) = bUseFlag p"
  "wScanFreeIndex (upd_vnode i f p) = wScanFreeIndex p" "vp_slots (upd_vnode i f p) = vp_slots p"
  "dwUseFlagStartTime (upd_vnode i f p) = dwUseFlagStartTime p"
  "vp_nodes (upd_vnode i f p) = (vp_nodes p)(i := f (vp_nodes p i))"
  "node_ok (upd_vnode i f p) = node_ok p"
  by (simp_all add: upd_vnode_def node_ok_def fun_eq_iff)

lemma unat_pool_end:
  assumes "vp_slots p + 1 < 2 ^ 16"
  shows "unat (pool_end p) = vp_slots p" "unat (pool_end p + 1) = vp_slots p + 1"
proof -
  show a: "unat (pool_end p) = vp_slots p"
    using assms unfolding pool_end_def by (subst unat_of_nat) simp
  show "unat (pool_end p + 1) = vp_slots p + 1"
    using assms a by (simp add: unat_word_ariths)
qed

lemma node_ok_ne_end:
  assumes "vp_slots p + 1 < 2 ^ 16" "node_ok p x"
  shows "x \<noteq> pool_end p" "x \<noteq> pool_end p + 1" "x < pool_end p"
  using unat_pool_end [OF assms(1)] assms(2) by (auto simp: node_ok_def word_less_nat_alt)

lemma is_dead_iff:
  assumes "vp_slots p + 1 < 2 ^ 16" "wNodeCount p = pool_end p"
  shows "is_dead p x \<longleftrightarrow> x = pool_end p + 1"
  using unat_pool_end [OF assms(1)] assms(2) by (auto simp: is_dead_def word_unat_eq_iff)

lemma pool_wf_basic:
  assumes "pool_wf len p fl bl dead"
  shows "2 \<le> vp_slots p" "vp_slots p + 1 < 2 ^ 16" "wNodeCount p = pool_end p"
    "wFreeNodeIndex p = first_or (pool_end p) fl" "unat (wNodeUsed p) + length fl = vp_slots p"
  using assms by (auto simp: pool_wf_def)

lemma pool_wf_node_ok:
  assumes "pool_wf len p fl bl dead" "x \<in> set fl \<union> set (concat bl) \<union> set dead"
  shows "node_ok p x"
  using assms by (auto simp: pool_wf_def pool_nodes_def)

text \<open>The free list leaves room for the counters, so the use counter is never zero.\<close>

lemma pool_free_length:
  assumes "pool_wf len p fl bl dead"
  shows "length fl < vp_slots p"
proof -
  have ok: "node_ok p x" if "x \<in> set fl" for x using pool_wf_node_ok [OF assms] that by blast
  have "distinct (0 # fl)"
    using assms ok [of 0] by (auto simp: pool_wf_def pool_nodes_def node_ok_def)
  moreover have "x < pool_end p" if "x \<in> set (0 # fl)" for x
    using that ok node_ok_ne_end(3) [OF pool_wf_basic(2) [OF assms]] unat_pool_end [OF pool_wf_basic(2) [OF assms]]
      pool_wf_basic(1) [OF assms] by (auto simp: word_less_nat_alt)
  ultimately have "length (0 # fl) \<le> unat (pool_end p)" by (intro distinct_words_length)
  then show ?thesis using unat_pool_end(1) [OF pool_wf_basic(2) [OF assms]] by simp
qed

text \<open>Fields the invariant does not mention may change freely.\<close>

lemma pool_wf_cong:
  assumes "vp_slots p' = vp_slots p" "vp_nodes p' = vp_nodes p" "wNodeCount p' = wNodeCount p"
    "wFreeNodeIndex p' = wFreeNodeIndex p" "wNodeUsed p' = wNodeUsed p"
  shows "pool_wf len p' fl bl dead = pool_wf len p fl bl dead"
  using assms by (simp add: pool_wf_def pool_end_def node_ok_def)

lemma pool_wf_fields [simp]:
  "pool_wf len (p\<lparr>bUseFlag := a\<rparr>) fl bl dead = pool_wf len p fl bl dead"
  "pool_wf len (p\<lparr>wScanFreeIndex := b\<rparr>) fl bl dead = pool_wf len p fl bl dead"
  "pool_wf len (p\<lparr>dwUseFlagStartTime := c\<rparr>) fl bl dead = pool_wf len p fl bl dead"
  by (rule pool_wf_cong; simp)+

lemma pool_wf_mset:
  assumes "set bl = set bl'" "distinct (pool_nodes fl bl' dead)"
  shows "pool_wf len p fl bl dead \<Longrightarrow> pool_wf len p fl bl' dead"
  using assms by (auto simp: pool_wf_def pool_nodes_def)

subsection \<open>Returning nodes to the free list\<close>

text \<open>
  A used counter above zero keeps its count. The lemma serves the collection of dead nodes
  (\<open>x\<close> is dead) and the release of a chain (\<open>x\<close> is its first node, cut off already).
\<close>

lemma push_free_run:
  assumes "node_ok p x"
  shows "push_free x p = Some (upd_vnode x (\<lambda>n. n\<lparr>wNextNodeIndex := wFreeNodeIndex p\<rparr>) p
    \<lparr>wFreeNodeIndex := x, wNodeUsed := wNodeUsed p - 1\<rparr>)"
  using assms by (simp add: push_free_def wr_node_def)

lemma used_pred:
  assumes "unat u + k = n" "Suc k < n"
  shows "unat (u - 1 :: u16) + Suc k = n" "u - 1 \<noteq> 0"
proof -
  have "u \<noteq> 0" using assms by auto
  then have "unat (u - 1) = unat u - 1" by (simp add: unat_minus_one)
  then show "unat (u - 1 :: u16) + Suc k = n" using assms by simp
  then show "u - 1 \<noteq> 0" using assms(2) by auto
qed

lemma distinct_slots_less:
  assumes "vp_slots p + 1 < 2 ^ 16" "2 \<le> vp_slots p" "distinct xs" "\<And>x. x \<in> set xs \<Longrightarrow> node_ok p x"
  shows "length xs < vp_slots p"
proof -
  have "distinct (0 # xs)" using assms(3,4) by (auto simp: node_ok_def)
  moreover have "x < pool_end p" if "x \<in> set (0 # xs)" for x
    using that assms(2,4) node_ok_ne_end(3) [OF assms(1)] unat_pool_end [OF assms(1)]
    by (auto simp: word_less_nat_alt)
  ultimately have "length (0 # xs) \<le> unat (pool_end p)" by (intro distinct_words_length)
  then show ?thesis using unat_pool_end(1) [OF assms(1)] by simp
qed

lemma push_dead:
  assumes wf: "pool_wf len p fl bl dead" and x: "x \<in> set dead"
  shows "\<exists>p'. push_free x p = Some p' \<and> pool_wf len p' (x # fl) bl (remove1 x dead) \<and> wNodeUsed p' \<noteq> 0 \<and>
    vp_slots p' = vp_slots p \<and> wScanFreeIndex p' = wScanFreeIndex p \<and> bUseFlag p' = bUseFlag p \<and>
    (\<forall>y. y \<noteq> x \<longrightarrow> vp_nodes p' y = vp_nodes p y)"
proof -
  note b = pool_wf_basic [OF wf]
  have ok: "node_ok p x" using pool_wf_node_ok [OF wf] x by blast
  have dist: "distinct (pool_nodes fl bl dead)" using wf by (simp add: pool_wf_def)
  have notin: "x \<notin> set fl" "x \<notin> set (concat bl)" using dist x by (auto simp: pool_nodes_def)
  have "length (x # fl) < vp_slots p"
    using dist notin ok pool_wf_node_ok [OF wf] b(1,2)
    by (intro distinct_slots_less) (auto simp: pool_nodes_def)
  then have used: "unat (wNodeUsed p - 1) + Suc (length fl) = vp_slots p" "wNodeUsed p - 1 \<noteq> 0"
    using used_pred [OF b(5)] by auto
  define p' where "p' = upd_vnode x (\<lambda>n. n\<lparr>wNextNodeIndex := wFreeNodeIndex p\<rparr>) p
    \<lparr>wFreeNodeIndex := x, wNodeUsed := wNodeUsed p - 1\<rparr>"
  have pe: "pool_end p' = pool_end p" "node_ok p' = node_ok p"
    by (simp_all add: p'_def pool_end_def node_ok_def fun_eq_iff)
  have fe: "first_or (pool_end p) fl \<noteq> pool_end p + 1"
    using node_ok_ne_end(2) [OF b(2)] pool_wf_node_ok [OF wf] unat_pool_end [OF b(2)]
    by (cases fl) auto
  have "nchain (vp_nodes p') fl (pool_end p)" "\<forall>xs\<in>set bl. nchain (vp_nodes p') xs (pool_end p)"
    using wf notin by (auto simp: p'_def pool_wf_def)
  then have "pool_wf len p' (x # fl) bl (remove1 x dead)"
    using wf b used fe ok dist x notin
    unfolding pool_wf_def pe by (auto simp: p'_def pool_nodes_def pool_end_def distinct_remove1)
  moreover have "push_free x p = Some p'" unfolding p'_def by (rule push_free_run [OF ok])
  ultimately show ?thesis using used(2) by (auto simp: p'_def)
qed

text \<open>
  What an operation that only moves nodes from \<open>dead\<close> to the free list preserves.
\<close>

definition collects :: "nat \<Rightarrow> VmemPool \<Rightarrow> u16 list \<Rightarrow> u16 list list \<Rightarrow> u16 list \<Rightarrow> VmemPool \<Rightarrow> u16 list \<Rightarrow> u16 list \<Rightarrow> bool" where
  "collects len p fl bl dead p' fl' dead' \<longleftrightarrow> pool_wf len p' fl' bl dead' \<and>
     (\<exists>ds. fl' = ds @ fl \<and> set dead = set ds \<union> set dead') \<and> vp_slots p' = vp_slots p \<and>
     bUseFlag p' = bUseFlag p \<and> (\<forall>y. y \<notin> set dead \<longrightarrow> vp_nodes p' y = vp_nodes p y)"

lemma collects_refl: "pool_wf len p fl bl dead \<Longrightarrow> collects len p fl bl dead p fl dead"
  by (simp add: collects_def)

lemma collects_trans:
  assumes "collects len p fl bl dead p1 fl1 dead1" "collects len p1 fl1 bl dead1 p2 fl2 dead2"
  shows "collects len p fl bl dead p2 fl2 dead2"
proof -
  obtain ds1 ds2 where d: "fl1 = ds1 @ fl" "set dead = set ds1 \<union> set dead1" "fl2 = ds2 @ fl1"
    "set dead1 = set ds2 \<union> set dead2" using assms by (auto simp: collects_def)
  then have "\<exists>ds. fl2 = ds @ fl \<and> set dead = set ds \<union> set dead2"
    by (intro exI [of _ "ds2 @ ds1"]) auto
  with assms d show ?thesis unfolding collects_def by simp
qed

lemma collects_push:
  assumes wf: "pool_wf len p fl bl dead" and x: "x \<in> set dead"
  shows "\<exists>p'. push_free x p = Some p' \<and> collects len p fl bl dead p' (x # fl) (remove1 x dead) \<and>
    wNodeUsed p' \<noteq> 0 \<and> wScanFreeIndex p' = wScanFreeIndex p"
proof -
  have d: "distinct dead" using wf by (auto simp: pool_wf_def pool_nodes_def)
  obtain p' where p': "push_free x p = Some p'" "pool_wf len p' (x # fl) bl (remove1 x dead)" "wNodeUsed p' \<noteq> 0"
    "vp_slots p' = vp_slots p" "wScanFreeIndex p' = wScanFreeIndex p" "bUseFlag p' = bUseFlag p"
    "\<forall>y. y \<noteq> x \<longrightarrow> vp_nodes p' y = vp_nodes p y"
    using push_dead [OF wf x] by blast
  have "set dead = set [x] \<union> set (remove1 x dead)" using d x by (auto simp: set_remove1_eq)
  then have "\<exists>ds. x # fl = ds @ fl \<and> set dead = set ds \<union> set (remove1 x dead)"
    by (intro exI [of _ "[x]"]) auto
  moreover have "\<forall>y. y \<notin> set dead \<longrightarrow> vp_nodes p' y = vp_nodes p y" using p'(7) x by metis
  ultimately have "collects len p fl bl dead p' (x # fl) (remove1 x dead)"
    unfolding collects_def using p'(2,4,6) by simp
  with p'(1,3,5) show ?thesis by blast
qed

lemma collects_fields [simp]:
  "collects len p fl bl dead (p'\<lparr>wScanFreeIndex := s\<rparr>) fl' dead' = collects len p fl bl dead p' fl' dead'"
  "collects len (p\<lparr>wScanFreeIndex := s\<rparr>) fl bl dead p' fl' dead' = collects len p fl bl dead p' fl' dead'"
  by (simp_all add: collects_def)

text \<open>One look at node \<open>s\<close>, the step that both scans share.\<close>

lemma collects_look:
  assumes wf: "pool_wf len p fl bl dead" and s: "unat s < vp_slots p"
  shows "\<exists>nxt p' fl' dead'. rd_next p s = Some nxt \<and>
    (if is_dead p nxt then push_free s p else Some p) = Some p' \<and>
    collects len p fl bl dead p' fl' dead' \<and> (is_dead p nxt \<longrightarrow> wNodeUsed p' \<noteq> 0) \<and>
    wScanFreeIndex p' = wScanFreeIndex p"
proof (cases "s = 0")
  case True
  note b = pool_wf_basic [OF wf]
  have "\<not> is_dead p (wNodeCount p)" by (simp add: is_dead_def)
  then show ?thesis using True collects_refl [OF wf] by (auto simp: rd_next_def)
next
  case False
  note b = pool_wf_basic [OF wf]
  have ok: "node_ok p s" using False s by (simp add: node_ok_def)
  then have dead: "is_dead p (wNextNodeIndex (vp_nodes p s)) \<longleftrightarrow> s \<in> set dead"
    using wf is_dead_iff [OF b(2,3)] by (simp add: pool_wf_def)
  show ?thesis
    using collects_push [OF wf, of s] collects_refl [OF wf] ok dead False
    by (cases "s \<in> set dead") (auto simp: rd_next_def)
qed

lemma SCAN_FREE_NODE_collects:
  assumes "pool_wf len p fl bl dead"
  shows "\<exists>p' fl' dead'. SCAN_FREE_NODE k p = Some p' \<and> collects len p fl bl dead p' fl' dead'"
  using assms
proof (induction k arbitrary: p fl dead)
  case 0
  show ?case using collects_refl [OF 0] by auto
next
  case (Suc k)
  note b = pool_wf_basic [OF Suc.prems]
  define q where "q = (if wNodeCount p \<le> wScanFreeIndex p then p\<lparr>wScanFreeIndex := 1\<rparr> else p)"
  have wf: "pool_wf len q fl bl dead" using Suc.prems by (simp add: q_def)
  have "unat (wScanFreeIndex q) < vp_slots q"
    using b unat_pool_end [OF b(2)] by (auto simp: q_def word_le_nat_alt)
  then obtain nxt p1 fl1 dead1 where p1: "rd_next q (wScanFreeIndex q) = Some nxt"
    "(if is_dead q nxt then push_free (wScanFreeIndex q) q else Some q) = Some p1"
    "collects len q fl bl dead p1 fl1 dead1" "wScanFreeIndex p1 = wScanFreeIndex q"
    using collects_look [OF wf] by blast
  let ?p2 = "p1\<lparr>wScanFreeIndex := wScanFreeIndex p1 + 1\<rparr>"
  have "pool_wf len ?p2 fl1 bl dead1" using p1(3) by (simp add: collects_def)
  then obtain p' fl' dead' where p': "SCAN_FREE_NODE k ?p2 = Some p'" "collects len ?p2 fl1 bl dead1 p' fl' dead'"
    using Suc.IH by blast
  have "SCAN_FREE_NODE (Suc k) p = SCAN_FREE_NODE k ?p2"
    using p1(1,2) by (simp add: Let_def flip: q_def)
  moreover have "collects len q fl bl dead p' fl' dead'"
    using collects_trans [OF p1(3)] p'(2) by simp
  then have "collects len p fl bl dead p' fl' dead'" by (cases "wNodeCount p \<le> wScanFreeIndex p") (simp_all add: q_def)
  ultimately show ?case using p'(1) by auto
qed

lemma collects_blob_data:
  assumes wf: "pool_wf len p fl bl dead" and c: "collects len p fl bl dead p' fl' dead'" and xs: "xs \<in> set bl"
  shows "blob_data p' xs = blob_data p xs"
proof (rule blob_data_cong)
  fix x assume "x \<in> set xs"
  then have "x \<notin> set dead" using wf xs by (auto simp: pool_wf_def pool_nodes_def)
  then show "vp_nodes p' x = vp_nodes p x" using c by (simp add: collects_def)
qed

subsection \<open>Saving\<close>

text \<open>The last three writes of a save.\<close>

definition save_last :: "nat \<Rightarrow> u16 \<Rightarrow> u8 list \<Rightarrow> VmemPool \<Rightarrow> VmemPool option" where
  "save_last len f d p = do {
     p \<leftarrow> wr_node f (\<lambda>n. n\<lparr>wNextNodeIndex := wNodeCount p\<rparr>) p;
     p \<leftarrow> copy_in len f d p;
     wr_node f (\<lambda>n. n\<lparr>bDataLen := of_nat (length d)\<rparr>) p
   }"

definition buf_ok :: "nat \<Rightarrow> VmemPool \<Rightarrow> bool" where
  "buf_ok len p \<longleftrightarrow> (\<forall>x. node_ok p x \<longrightarrow> length (sDataBuf (vp_nodes p x)) = len)"

text \<open>Everything but the free-list head and the nodes.\<close>

definition pool_meta :: "VmemPool \<Rightarrow> u16 \<times> u16 \<times> u8 \<times> u16 \<times> u32 \<times> nat" where
  "pool_meta p = (wNodeCount p, wNodeUsed p, bUseFlag p, wScanFreeIndex p, dwUseFlagStartTime p, vp_slots p)"

lemma pool_meta_sel: "pool_meta q = pool_meta p \<Longrightarrow>
    wNodeCount q = wNodeCount p \<and> wNodeUsed q = wNodeUsed p \<and> bUseFlag q = bUseFlag p \<and>
    vp_slots q = vp_slots p \<and> node_ok q = node_ok p \<and> pool_end q = pool_end p"
  by (simp add: pool_meta_def node_ok_def pool_end_def fun_eq_iff)

lemma save_last_run:
  assumes "node_ok p f" "length d \<le> len" "len < 256" "buf_ok len p"
  shows "\<exists>p'. save_last len f d p = Some p' \<and> pool_meta p' = pool_meta p \<and>
    wFreeNodeIndex p' = wFreeNodeIndex p \<and> (\<forall>x. x \<noteq> f \<longrightarrow> vp_nodes p' x = vp_nodes p x) \<and>
    wNextNodeIndex (vp_nodes p' f) = wNodeCount p \<and> node_data (vp_nodes p' f) = d \<and>
    unat (bDataLen (vp_nodes p' f)) \<le> len \<and> buf_ok len p'"
proof -
  have l: "unat (of_nat (length d) :: u8) = length d" using assms(2,3) by (subst unat_of_nat) simp
  have buf: "length (sDataBuf (vp_nodes p f)) = len" using assms(1,4) by (simp add: buf_ok_def)
  show ?thesis
    using assms l buf
    by (auto simp: save_last_def copy_in_def wr_node_def pool_meta_def node_data_def buf_ok_def)
qed

text \<open>One full node of \<open>save_loop\<close>.\<close>

definition fill_node :: "nat \<Rightarrow> u8 list \<Rightarrow> u16 \<Rightarrow> u16 \<Rightarrow> VmemPool \<Rightarrow> VmemPool" where
  "fill_node len d f g p = upd_vnode f (\<lambda>n. n\<lparr>sDataBuf := take len d @ drop len (sDataBuf n),
     bDataLen := of_nat len, wNextNodeIndex := g\<rparr>) (p\<lparr>wFreeNodeIndex := wNextNodeIndex (vp_nodes p g)\<rparr>)"

lemma save_loop_step:
  assumes "node_ok p f" "node_ok p g" "f \<noteq> g" "wFreeNodeIndex p = g" "len \<le> length d"
  shows "save_loop len (Suc k) d f p = save_loop len k (drop len d) g (fill_node len d f g p)"
proof -
  have "g \<noteq> 0" using assms(2) by (simp add: node_ok_def)
  then show ?thesis
    using assms
    by (simp add: copy_in_def wr_node_def VMEM_GET_FREE_NODE_def rd_next_def fill_node_def)
      (simp add: upd_vnode_def node_ok_def)
qed

lemma fill_node_sel:
  assumes "node_ok p f" "len \<le> length d" "len < 256" "buf_ok len p"
  shows "pool_meta (fill_node len d f g p) = pool_meta p" "buf_ok len (fill_node len d f g p)"
    "wFreeNodeIndex (fill_node len d f g p) = wNextNodeIndex (vp_nodes p g)"
    "\<And>x. x \<noteq> f \<Longrightarrow> vp_nodes (fill_node len d f g p) x = vp_nodes p x"
    "wNextNodeIndex (vp_nodes (fill_node len d f g p) f) = g"
    "node_data (vp_nodes (fill_node len d f g p) f) = take len d"
    "unat (bDataLen (vp_nodes (fill_node len d f g p) f)) = len"
proof -
  have l: "unat (of_nat len :: u8) = len" using assms(3) by (subst unat_of_nat) simp
  have "length (sDataBuf (vp_nodes p f)) = len" using assms(1,4) by (simp add: buf_ok_def)
  then show "pool_meta (fill_node len d f g p) = pool_meta p" "buf_ok len (fill_node len d f g p)"
    "wFreeNodeIndex (fill_node len d f g p) = wNextNodeIndex (vp_nodes p g)"
    "\<And>x. x \<noteq> f \<Longrightarrow> vp_nodes (fill_node len d f g p) x = vp_nodes p x"
    "wNextNodeIndex (vp_nodes (fill_node len d f g p) f) = g"
    "node_data (vp_nodes (fill_node len d f g p) f) = take len d"
    "unat (bDataLen (vp_nodes (fill_node len d f g p) f)) = len"
    using assms l
    by (auto simp: fill_node_def pool_meta_def buf_ok_def node_data_def node_ok_def)
qed

text \<open>
  The loop and the last writes together: the \<open>k\<close> first nodes of the free list follow \<open>f\<close>, and
  the chain holds the data.
\<close>

lemma save_run:
  assumes "nchain (vp_nodes p) fl (wNodeCount p)" "wFreeNodeIndex p = first_or (wNodeCount p) fl"
    and "k \<le> length fl" "distinct (f # fl)" "\<And>x. x \<in> set (f # fl) \<Longrightarrow> node_ok p x"
    and "buf_ok len p" "k * len \<le> length d" "length d \<le> Suc k * len" "len < 256"
  shows "\<exists>p'. (save_loop len k d f p \<bind> (\<lambda>(f, d, p). save_last len f d p)) = Some p' \<and>
    pool_meta p' = pool_meta p \<and> wFreeNodeIndex p' = first_or (wNodeCount p) (drop k fl) \<and>
    (\<forall>x. x \<notin> set (f # take k fl) \<longrightarrow> vp_nodes p' x = vp_nodes p x) \<and>
    nchain (vp_nodes p') (f # take k fl) (wNodeCount p) \<and> blob_data p' (f # take k fl) = d \<and>
    (\<forall>x\<in>set (f # take k fl). unat (bDataLen (vp_nodes p' x)) \<le> len) \<and> buf_ok len p' \<and>
    (\<forall>x\<in>set (butlast (f # take k fl)). unat (bDataLen (vp_nodes p' x)) = len)"
  using assms
proof (induction k arbitrary: p f fl d)
  case 0
  then obtain p' where "save_last len f d p = Some p'" "pool_meta p' = pool_meta p"
    "wFreeNodeIndex p' = wFreeNodeIndex p" "\<forall>x. x \<noteq> f \<longrightarrow> vp_nodes p' x = vp_nodes p x"
    "wNextNodeIndex (vp_nodes p' f) = wNodeCount p" "node_data (vp_nodes p' f) = d"
    "unat (bDataLen (vp_nodes p' f)) \<le> len" "buf_ok len p'"
    using save_last_run [of p f d len] by auto
  then show ?case using "0.prems"(2) by auto
next
  case (Suc k)
  from Suc.prems(3) obtain g fl' where fl: "fl = g # fl'" by (cases fl) auto
  have ok: "node_ok p f" "node_ok p g" "f \<noteq> g" using Suc.prems(4,5) fl by auto
  have ld: "len \<le> length d" using Suc.prems(7) by simp
  let ?q = "fill_node len d f g p"
  note q = fill_node_sel [OF ok(1) ld Suc.prems(9,6), where g = g]
  note qm = pool_meta_sel [OF q(1)]
  have "vp_nodes ?q x = vp_nodes p x" if "x \<in> set fl'" for x
    using that Suc.prems(4) fl by (intro q(4)) auto
  then have nc: "nchain (vp_nodes ?q) fl' (wNodeCount p)"
    using Suc.prems(1) fl nchain_cong [of fl' "vp_nodes ?q" "vp_nodes p"] by simp
  have "\<exists>p'. (save_loop len k (drop len d) g ?q \<bind> (\<lambda>(f, d, p). save_last len f d p)) = Some p' \<and>
    pool_meta p' = pool_meta ?q \<and> wFreeNodeIndex p' = first_or (wNodeCount ?q) (drop k fl') \<and>
    (\<forall>x. x \<notin> set (g # take k fl') \<longrightarrow> vp_nodes p' x = vp_nodes ?q x) \<and>
    nchain (vp_nodes p') (g # take k fl') (wNodeCount ?q) \<and> blob_data p' (g # take k fl') = drop len d \<and>
    (\<forall>x\<in>set (g # take k fl'). unat (bDataLen (vp_nodes p' x)) \<le> len) \<and> buf_ok len p' \<and>
    (\<forall>x\<in>set (butlast (g # take k fl')). unat (bDataLen (vp_nodes p' x)) = len)"
  proof (rule Suc.IH)
    show "wFreeNodeIndex ?q = first_or (wNodeCount ?q) fl'" using Suc.prems(1) fl q(3) qm by simp
    show "k * len \<le> length (drop len d)" "length (drop len d) \<le> Suc k * len" using Suc.prems(7,8) by auto
  qed (use nc qm q(2) Suc.prems fl in auto)
  then obtain p' where p': "(save_loop len k (drop len d) g ?q \<bind> (\<lambda>(f, d, p). save_last len f d p)) = Some p'"
    "pool_meta p' = pool_meta ?q" "wFreeNodeIndex p' = first_or (wNodeCount p) (drop k fl')"
    "\<forall>x. x \<notin> set (g # take k fl') \<longrightarrow> vp_nodes p' x = vp_nodes ?q x"
    "nchain (vp_nodes p') (g # take k fl') (wNodeCount p)" "blob_data p' (g # take k fl') = drop len d"
    "\<forall>x\<in>set (g # take k fl'). unat (bDataLen (vp_nodes p' x)) \<le> len" "buf_ok len p'"
    "\<forall>x\<in>set (butlast (g # take k fl')). unat (bDataLen (vp_nodes p' x)) = len"
    using qm by metis
  have f: "vp_nodes p' f = vp_nodes ?q f"
    using p'(4) Suc.prems(4) fl by (auto dest: in_set_takeD)
  have run: "save_loop len (Suc k) d f p = save_loop len k (drop len d) g ?q"
    using Suc.prems(2) fl by (intro save_loop_step [OF ok _ ld]) simp
  show ?case
    unfolding run fl
    using p' q(1,4-7) f by (intro exI [of _ p']) auto
qed

lemma need_count_bounds:
  assumes "0 < len" "0 < n"
  shows "0 < need_count len n" "(need_count len n - 1) * len \<le> n" "n \<le> Suc (need_count len n - 1) * len"
proof -
  have n: "n = n div len * len + n mod len" by simp
  have m: "n mod len < len" using assms(1) by simp
  show pos: "0 < need_count len n" using assms n by (cases "n mod len = 0") (auto simp: need_count_def)
  show "(need_count len n - 1) * len \<le> n"
    using n by (cases "n mod len = 0") (auto simp: need_count_def algebra_simps)
  have "n \<le> need_count len n * len"
  proof (cases "n mod len = 0")
    case False
    then have "need_count len n * len = n div len * len + len" by (simp add: need_count_def)
    then show ?thesis using n m by linarith
  qed (use n in \<open>simp add: need_count_def\<close>)
  then show "n \<le> Suc (need_count len n - 1) * len" using pos by simp
qed

text \<open>
  The nodes \<open>xs\<close> move from the front of the free list to a new chain; the other nodes are
  not written.
\<close>

lemma alloc_wf:
  assumes wf: "pool_wf len p (xs @ rest) bl dead" and xs: "xs \<noteq> []"
    and meta: "vp_slots q = vp_slots p" "wNodeCount q = wNodeCount p"
      "unat (wNodeUsed q) = unat (wNodeUsed p) + length xs" "wFreeNodeIndex q = first_or (pool_end p) rest"
    and same: "\<And>x. x \<notin> set xs \<Longrightarrow> vp_nodes q x = vp_nodes p x"
    and chain: "nchain (vp_nodes q) xs (pool_end p)"
    and lens: "\<And>x. x \<in> set xs \<Longrightarrow> unat (bDataLen (vp_nodes q x)) \<le> len" "buf_ok len q"
  shows "pool_wf len q rest (xs # bl) dead" and "\<And>ys. ys \<in> set bl \<Longrightarrow> blob_data q ys = blob_data p ys"
proof -
  note b = pool_wf_basic [OF wf]
  have dist: "distinct (xs @ rest @ concat bl @ dead)" using wf by (simp add: pool_wf_def pool_nodes_def)
  have keep: "vp_nodes q x = vp_nodes p x" if "x \<in> set rest \<union> set (concat bl) \<union> set dead" for x
    using dist that by (intro same) auto
  have eq: "pool_end q = pool_end p" "node_ok q = node_ok p"
    using meta by (simp_all add: pool_end_def node_ok_def fun_eq_iff)
  have ok: "node_ok p x" if "x \<in> set xs" for x using pool_wf_node_ok [OF wf] that by simp
  have nd: "wNextNodeIndex (vp_nodes q x) \<noteq> pool_end p + 1" if "x \<in> set ys" "nchain (vp_nodes q) ys (pool_end p)"
      "set ys \<subseteq> set xs" for x ys
    using that
  proof (induction ys)
    case (Cons y ys)
    then show ?case
      using ok node_ok_ne_end(2) [OF b(2)] unat_pool_end [OF b(2)] by (cases ys) auto
  qed simp
  have dead: "wNextNodeIndex (vp_nodes q x) = pool_end p + 1 \<longleftrightarrow> x \<in> set dead" if "node_ok p x" for x
  proof (cases "x \<in> set xs")
    case True
    then show ?thesis using nd [OF True chain] dist by auto
  next
    case False
    then show ?thesis using wf that same by (simp add: pool_wf_def)
  qed
  have bl: "nchain (vp_nodes q) ys (pool_end p)" if "ys \<in> set bl" for ys
  proof -
    have "nchain (vp_nodes p) ys (pool_end p)" using wf that by (simp add: pool_wf_def)
    moreover have "vp_nodes q x = vp_nodes p x" if "x \<in> set ys" for x using keep \<open>ys \<in> set bl\<close> that by auto
    ultimately show ?thesis using nchain_cong [of ys "vp_nodes q" "vp_nodes p"] by simp
  qed
  have chs: "nchain h (as @ bs) e \<Longrightarrow> nchain h bs e" for h as bs e by (induction as) auto
  have rest: "nchain (vp_nodes q) rest (pool_end p)"
    using wf keep nchain_cong [of rest "vp_nodes q" "vp_nodes p"] chs by (auto simp: pool_wf_def)
  have bd: "unat (bDataLen (vp_nodes q x)) \<le> len" if "x \<in> set (concat bl)" for x
    using wf that keep by (auto simp: pool_wf_def)
  have "distinct (pool_nodes rest (xs # bl) dead)" using dist by (auto simp: pool_nodes_def)
  moreover have "\<forall>x\<in>set (pool_nodes rest (xs # bl) dead). node_ok p x"
    using wf by (auto simp: pool_wf_def pool_nodes_def)
  moreover have "\<forall>ys\<in>set (xs # bl). ys \<noteq> [] \<and> nchain (vp_nodes q) ys (pool_end p)"
    using wf bl chain xs by (simp add: pool_wf_def)
  moreover have "\<forall>x\<in>set (concat (xs # bl)). unat (bDataLen (vp_nodes q x)) \<le> len"
    using bd lens(1) by (simp only: concat.simps set_append ball_Un) blast
  ultimately show "pool_wf len q rest (xs # bl) dead"
    unfolding pool_wf_def eq
    using b meta dead rest lens(2) by (simp add: buf_ok_def eq)
  show "blob_data q ys = blob_data p ys" if "ys \<in> set bl" for ys
    using that keep by (intro blob_data_cong) auto
qed

text \<open>
  A successful save: the new chain joins the stored ones, holds the data, and nothing that
  was stored changes.
\<close>

lemma save_after_scan:
  assumes wf: "pool_wf len p (f # fl) bl dead" and d: "0 < length d" and len: "0 < len" "len < 256"
    and need: "need = need_count len (length d)" "need \<le> length (f # fl)"
  defines "q \<equiv> p\<lparr>wFreeNodeIndex := first_or (pool_end p) fl, wNodeUsed := wNodeUsed p + of_nat need\<rparr>"
  shows "\<exists>p' xs rest. (save_loop len (need - 1) d f q \<bind> (\<lambda>(f, d, p). save_last len f d p)) = Some p' \<and>
    hd xs = f \<and> pool_wf len p' rest (xs # bl) dead \<and> blob_data p' xs = d \<and>
    (\<forall>ys\<in>set bl. blob_data p' ys = blob_data p ys) \<and> vp_slots p' = vp_slots p \<and> length xs = need \<and>
    (\<forall>x\<in>set (butlast xs). unat (bDataLen (vp_nodes p' x)) = len) \<and> (\<forall>x. x \<notin> set xs \<longrightarrow> vp_nodes p' x = vp_nodes p x)"
proof -
  note b = pool_wf_basic [OF wf] and nb = need_count_bounds [OF len(1) d]
  let ?k = "need - 1"
  let ?xs = "f # take ?k fl" and ?rest = "drop ?k fl"
  have q: "vp_nodes q = vp_nodes p" "wNodeCount q = pool_end p" "node_ok q = node_ok p" "vp_slots q = vp_slots p"
    using b(3) by (simp_all add: q_def node_ok_def fun_eq_iff)
  have chain: "nchain (vp_nodes q) fl (wNodeCount q)" using wf q by (simp add: pool_wf_def)
  have dist: "distinct (f # fl)" using wf by (auto simp: pool_wf_def pool_nodes_def)
  have ok: "node_ok q x" if "x \<in> set (f # fl)" for x using pool_wf_node_ok [OF wf, of x] that q by auto
  have buf: "buf_ok len q" using wf q by (simp add: buf_ok_def pool_wf_def)
  have k: "?k \<le> length fl" using need(2) by simp
  have kl: "?k * len \<le> length d" "length d \<le> Suc ?k * len" using nb need(1) by auto
  have fr: "wFreeNodeIndex q = first_or (wNodeCount q) fl" using q(2) by (simp add: q_def)
  obtain p' where p': "(save_loop len ?k d f q \<bind> (\<lambda>(f, d, p). save_last len f d p)) = Some p'"
    "pool_meta p' = pool_meta q" "wFreeNodeIndex p' = first_or (pool_end p) ?rest"
    "\<forall>x. x \<notin> set ?xs \<longrightarrow> vp_nodes p' x = vp_nodes p x"
    "nchain (vp_nodes p') ?xs (pool_end p)" "blob_data p' ?xs = d"
    "\<forall>x\<in>set ?xs. unat (bDataLen (vp_nodes p' x)) \<le> len" "buf_ok len p'"
    "\<forall>x\<in>set (butlast ?xs). unat (bDataLen (vp_nodes p' x)) = len"
    using save_run [OF chain fr k dist ok buf kl len(2)] unfolding q by blast
  note m = pool_meta_sel [OF p'(2)]
  have len_xs: "length ?xs = need" using nb(1) need by (auto simp: min_def)
  have "unat (wNodeUsed p) + need < 2 ^ 16" "need < 2 ^ 16" using b(2,5) need(2) by auto
  then have "unat (wNodeUsed p + of_nat need) = unat (wNodeUsed p) + need"
    by (simp add: unat_word_ariths unat_of_nat)
  then have used: "unat (wNodeUsed p') = unat (wNodeUsed p) + length ?xs" using m len_xs by (simp add: q_def)
  have "pool_wf len p (?xs @ ?rest) bl dead" using wf by simp
  note al = alloc_wf [OF this, of p']
  have "pool_wf len p' ?rest (?xs # bl) dead" "\<forall>ys\<in>set bl. blob_data p' ys = blob_data p ys"
    using al p'(3-8) m q b(3) used by auto
  then show ?thesis using p'(1,4,6,9) m q len_xs by (intro exI [of _ p'] exI [of _ ?xs] exI [of _ ?rest]) simp
qed

lemma save_in_pool_run:
  assumes wf: "pool_wf len p fl bl dead" and d: "0 < length d" and len: "0 < len" "len < 256"
    and need: "need = need_count len (length d)" "enough p need"
  shows "\<exists>p' xs fl' dead'. save_in_pool len need d p = Some (hd xs, p') \<and>
    pool_wf len p' fl' (xs # bl) dead' \<and> blob_data p' xs = d \<and>
    (\<forall>ys\<in>set bl. blob_data p' ys = blob_data p ys) \<and> bUseFlag p' = 0 \<and> vp_slots p' = vp_slots p"
proof -
  obtain p1 fl1 dead1 where scan: "SCAN_FREE_NODE 50 p = Some p1" and c: "collects len p fl bl dead p1 fl1 dead1"
    using SCAN_FREE_NODE_collects [OF wf] by blast
  have wf1: "pool_wf len p1 fl1 bl dead1" and sl: "vp_slots p1 = vp_slots p" and fl: "length fl \<le> length fl1"
    using c by (auto simp: collects_def)
  note b = pool_wf_basic [OF wf] and b1 = pool_wf_basic [OF wf1]
  have "need \<le> length fl" using need(2) b(3,5) unat_pool_end(1) [OF b(2)] by (simp add: enough_def)
  then have nf: "need \<le> length fl1" using fl by simp
  then obtain f fl2 where f: "fl1 = f # fl2"
    using need_count_bounds(1) [OF len(1) d] need(1) by (cases fl1) auto
  have ok: "node_ok p1 f" using pool_wf_node_ok [OF wf1, of f] f by simp
  then have get: "VMEM_GET_FREE_NODE p1 = Some (f, p1\<lparr>wFreeNodeIndex := first_or (pool_end p1) fl2\<rparr>)"
    using wf1 f b1(4) by (auto simp: VMEM_GET_FREE_NODE_def rd_next_def pool_wf_def node_ok_def)
  obtain p' xs rest where p': "(save_loop len (need - 1) d f (p1\<lparr>wFreeNodeIndex := first_or (pool_end p1) fl2,
      wNodeUsed := wNodeUsed p1 + of_nat need\<rparr>) \<bind> (\<lambda>(f, d, p). save_last len f d p)) = Some p'"
    "hd xs = f" "pool_wf len p' rest (xs # bl) dead1" "blob_data p' xs = d"
    "\<forall>ys\<in>set bl. blob_data p' ys = blob_data p1 ys" "vp_slots p' = vp_slots p1"
    using save_after_scan [OF wf1 [unfolded f] d len need(1)] nf f by blast
  obtain f' d' q where "save_loop len (need - 1) d f (p1\<lparr>wFreeNodeIndex := first_or (pool_end p1) fl2,
      wNodeUsed := wNodeUsed p1 + of_nat need\<rparr>) = Some (f', d', q)" "save_last len f' d' q = Some p'"
    using p'(1) by (auto simp: bind_eq_Some_conv)
  then have "save_in_pool len need d p = Some (hd xs, p'\<lparr>bUseFlag := 0\<rparr>)"
    using scan get p'(2) by (auto simp: save_in_pool_def save_last_def bind_eq_Some_conv)
  moreover have "blob_data (p'\<lparr>bUseFlag := 0\<rparr>) ys = blob_data p' ys" for ys by (rule blob_data_cong) simp
  ultimately show ?thesis
    using p'(3-6) sl collects_blob_data [OF wf c]
    by (intro exI [of _ "p'\<lparr>bUseFlag := 0\<rparr>"] exI [of _ xs] exI [of _ rest] exI [of _ dead1]) auto
qed

subsection \<open>Reading\<close>

definition readable :: "nat \<Rightarrow> VmemPool \<Rightarrow> u16 list \<Rightarrow> bool" where
  "readable len p xs \<longleftrightarrow> nchain (vp_nodes p) xs (pool_end p) \<and> vp_slots p + 1 < 2 ^ 16 \<and>
     wNodeCount p = pool_end p \<and> (\<forall>x\<in>set xs. node_ok p x \<and> unat (bDataLen (vp_nodes p x)) \<le> len \<and>
       length (sDataBuf (vp_nodes p x)) = len)"

lemma readable_tl: "readable len p (x # xs) \<Longrightarrow> readable len p xs"
  by (simp add: readable_def)

lemma get_chain_step:
  assumes r: "readable len p (x # xs)"
  shows "get_chain len p x room out = (if room < unat (bDataLen (vp_nodes p x)) then Some (Inl out)
      else if xs = [] then Some (Inr (out @ node_data (vp_nodes p x)))
      else get_chain len p (hd xs) (room - unat (bDataLen (vp_nodes p x))) (out @ node_data (vp_nodes p x)))"
    and "length (node_data (vp_nodes p x)) = unat (bDataLen (vp_nodes p x))"
proof -
  have ok: "node_ok p x" "unat (bDataLen (vp_nodes p x)) \<le> len" "length (sDataBuf (vp_nodes p x)) = len"
    and nx: "wNextNodeIndex (vp_nodes p x) = first_or (pool_end p) xs"
    using r by (auto simp: readable_def)
  then show "length (node_data (vp_nodes p x)) = unat (bDataLen (vp_nodes p x))" by (simp add: node_data_def)
  have lt: "wNextNodeIndex (vp_nodes p x) < wNodeCount p \<longleftrightarrow> xs \<noteq> []"
    using nx r node_ok_ne_end(3) [of p] by (cases xs) (auto simp: readable_def)
  show "get_chain len p x room out = (if room < unat (bDataLen (vp_nodes p x)) then Some (Inl out)
      else if xs = [] then Some (Inr (out @ node_data (vp_nodes p x)))
      else get_chain len p (hd xs) (room - unat (bDataLen (vp_nodes p x))) (out @ node_data (vp_nodes p x)))"
    using ok lt nx by (subst get_chain.simps) (cases xs, auto simp: rd_node_def node_data_def Let_def)
qed

lemma get_chain_fits:
  assumes "readable len p xs" "xs \<noteq> []" "length (blob_data p xs) \<le> room"
  shows "get_chain len p (hd xs) room out = Some (Inr (out @ blob_data p xs))"
  using assms
proof (induction xs arbitrary: room out)
  case (Cons x xs)
  note st = get_chain_step [OF Cons.prems(1)]
  show ?case
    using Cons.prems(3) Cons.IH [OF readable_tl [OF Cons.prems(1)]] by (auto simp: st)
qed simp

lemma get_chain_overflow:
  assumes "readable len p xs" "xs \<noteq> []" "room < length (blob_data p xs)"
  shows "\<exists>r. get_chain len p (hd xs) room out = Some (Inl r)"
  using assms
proof (induction xs arbitrary: room out)
  case (Cons x xs)
  note st = get_chain_step [OF Cons.prems(1)]
  show ?case
    using Cons.prems(3) Cons.IH [OF readable_tl [OF Cons.prems(1)]] by (auto simp: st)
qed simp

lemma pool_wf_readable: "pool_wf len p fl bl dead \<Longrightarrow> xs \<in> set bl \<Longrightarrow> readable len p xs"
  by (auto simp: pool_wf_def readable_def pool_nodes_def)

end
