(* ===== verification/Vmem_Free.thy ===== *)
theory Vmem_Free
  imports Vmem_Pool
begin

text \<open>
  Release of a chain, with and without the flag, collection of dead nodes, and the fresh
  pools of \<open>MtReport_InitVmem\<close>.
\<close>

subsection \<open>Releasing one node\<close>

definition chains :: "u16 list \<Rightarrow> u16 list list \<Rightarrow> u16 list list" where
  "chains xs bl = (if xs = [] then bl else xs # bl)"

lemma concat_chains [simp]: "concat (chains xs bl) = xs @ concat bl"
  by (simp add: chains_def)

text \<open>
  The first node of a chain leaves it, its next index is redirected to \<open>v\<close> and its length
  cleared; the rest of the chain and the other nodes are as before.
\<close>

lemma release_node:
  assumes wf: "pool_wf len p fl ((x # xs) # bl) dead"
    and q: "vp_slots q = vp_slots p" "vp_nodes q = (vp_nodes p)(x := (vp_nodes p x)\<lparr>bDataLen := 0, wNextNodeIndex := v\<rparr>)"
      "wNodeCount q = wNodeCount p"
    and dist: "set fl' \<union> set dead' = insert x (set fl \<union> set dead)" "distinct (fl' @ dead')"
    and free: "nchain (vp_nodes q) fl' (pool_end p)" "wFreeNodeIndex q = first_or (pool_end p) fl'"
      "unat (wNodeUsed q) + length fl' = vp_slots p"
    and dead: "v = pool_end p + 1 \<longleftrightarrow> x \<in> set dead'" "set dead' - {x} = set dead"
  shows "pool_wf len q fl' (chains xs bl) dead'"
proof -
  note b = pool_wf_basic [OF wf]
  have d: "distinct (pool_nodes fl ((x # xs) # bl) dead)" using wf by (simp add: pool_wf_def)
  have ok: "node_ok p x" using pool_wf_node_ok [OF wf, of x] by simp
  have eq: "pool_end q = pool_end p" "node_ok q = node_ok p" using q by (simp_all add: pool_end_def node_ok_def fun_eq_iff)
  have nx: "x \<notin> set xs" "x \<notin> set (concat bl)" using d by (auto simp: pool_nodes_def)
  have "(set xs \<union> set (concat bl)) \<inter> insert x (set fl \<union> set dead) = {}" "distinct (xs @ concat bl)"
    using d by (auto simp: pool_nodes_def)
  then have "distinct (pool_nodes fl' (chains xs bl) dead')"
    using dist(2) unfolding dist(1) [symmetric] by (simp add: pool_nodes_def) blast
  moreover have "\<forall>y\<in>set (pool_nodes fl' (chains xs bl) dead'). node_ok p y"
  proof
    fix y assume "y \<in> set (pool_nodes fl' (chains xs bl) dead')"
    then have "y \<in> insert x (set fl \<union> set (concat ((x # xs) # bl)) \<union> set dead)"
      using dist(1) by (auto simp: pool_nodes_def)
    then show "node_ok p y" using pool_wf_node_ok [OF wf] ok by blast
  qed
  moreover have "\<forall>ys\<in>set (chains xs bl). ys \<noteq> [] \<and> nchain (vp_nodes q) ys (pool_end p)"
    using wf nx q(2) by (auto simp: pool_wf_def chains_def split: if_splits)
  moreover have "wNextNodeIndex (vp_nodes q y) = pool_end p + 1 \<longleftrightarrow> y \<in> set dead'" if "node_ok p y" for y
    using wf dead q(2) that by (cases "y = x") (auto simp: pool_wf_def)
  moreover have "\<forall>y\<in>set (concat (chains xs bl)). unat (bDataLen (vp_nodes q y)) \<le> len"
    using wf nx q(2) by (auto simp: pool_wf_def)
  moreover have "\<forall>y. node_ok p y \<longrightarrow> length (sDataBuf (vp_nodes q y)) = len"
    using wf q(2) by (auto simp: pool_wf_def)
  ultimately show ?thesis
    unfolding pool_wf_def eq using b q free by simp
qed

text \<open>One round of the release loop.\<close>

definition free_node :: "bool \<Rightarrow> u16 \<Rightarrow> VmemPool \<Rightarrow> VmemPool option" where
  "free_node flag i p = do {
     p \<leftarrow> wr_node i (\<lambda>n. n\<lparr>bDataLen := 0\<rparr>) p;
     if flag then do { p \<leftarrow> push_free i p; if wNodeUsed p = 0 then None else Some p }
     else wr_node i (\<lambda>n. n\<lparr>wNextNodeIndex := wNodeCount p + 1\<rparr>) p
   }"

lemma free_node_run:
  assumes wf: "pool_wf len p fl ((x # xs) # bl) dead"
  shows "\<exists>q. free_node flag x p = Some q \<and> vp_slots q = vp_slots p \<and> bUseFlag q = bUseFlag p \<and>
    wNodeCount q = wNodeCount p \<and> (\<forall>y. y \<noteq> x \<longrightarrow> vp_nodes q y = vp_nodes p y) \<and>
    pool_wf len q (if flag then x # fl else fl) (chains xs bl) (if flag then dead else x # dead)"
proof -
  note b = pool_wf_basic [OF wf]
  have ok: "node_ok p x" using pool_wf_node_ok [OF wf, of x] by simp
  have d: "distinct (x # fl @ dead)" using wf by (auto simp: pool_wf_def pool_nodes_def)
  let ?n = "(vp_nodes p x)\<lparr>bDataLen := 0\<rparr>"
  show ?thesis
  proof (cases flag)
    case True
    have "length (x # fl) < vp_slots p"
      using d ok pool_wf_node_ok [OF wf] b(1,2) by (intro distinct_slots_less) auto
    then have used: "unat (wNodeUsed p - 1) + Suc (length fl) = vp_slots p" "wNodeUsed p - 1 \<noteq> 0"
      using used_pred [OF b(5)] by auto
    define q where "q = p\<lparr>vp_nodes := (vp_nodes p)(x := ?n\<lparr>wNextNodeIndex := wFreeNodeIndex p\<rparr>),
      wFreeNodeIndex := x, wNodeUsed := wNodeUsed p - 1\<rparr>"
    have run: "free_node flag x p = Some q"
      using True ok used(2)
      by (simp add: free_node_def wr_node_def push_free_def q_def upd_vnode_def node_ok_def)
    have fe: "first_or (pool_end p) fl \<noteq> pool_end p + 1"
      using node_ok_ne_end(2) [OF b(2)] pool_wf_node_ok [OF wf] unat_pool_end [OF b(2)] by (cases fl) auto
    have "pool_wf len q (x # fl) (chains xs bl) dead"
    proof (rule release_node [OF wf, where v = "wFreeNodeIndex p"])
      show "nchain (vp_nodes q) (x # fl) (pool_end p)" using wf d b(4) by (auto simp: q_def pool_wf_def)
      show "wFreeNodeIndex p = pool_end p + 1 \<longleftrightarrow> x \<in> set dead" using fe b(4) d by auto
    qed (use d used in \<open>auto simp: q_def\<close>)
    with run True show ?thesis by (auto simp: q_def)
  next
    case False
    define q where "q = p\<lparr>vp_nodes := (vp_nodes p)(x := ?n\<lparr>wNextNodeIndex := wNodeCount p + 1\<rparr>)\<rparr>"
    have run: "free_node flag x p = Some q"
      using False ok by (simp add: free_node_def wr_node_def q_def upd_vnode_def node_ok_def)
    have "pool_wf len q fl (chains xs bl) (x # dead)"
    proof (rule release_node [OF wf, where v = "wNodeCount p + 1"])
      show "nchain (vp_nodes q) fl (pool_end p)" using wf d by (simp add: q_def pool_wf_def)
      show "wNodeCount p + 1 = pool_end p + 1 \<longleftrightarrow> x \<in> set (x # dead)" using b(3) by simp
    qed (use d b in \<open>auto simp: q_def\<close>)
    with run False show ?thesis by (auto simp: q_def)
  qed
qed

lemma free_chain_unfold:
  assumes "node_ok p i"
  shows "free_chain flag i p = do {
    q \<leftarrow> free_node flag i p;
    if wNextNodeIndex (vp_nodes p i) < wNodeCount q then free_chain flag (wNextNodeIndex (vp_nodes p i)) q else Some q }"
  using assms by (subst free_chain.simps) (simp add: rd_node_def free_node_def Let_def)

text \<open>
  The release of a whole chain: its nodes end on the free list (flag taken) or among the
  dead nodes, and the other strings are untouched.
\<close>

lemma free_chain_run:
  assumes "pool_wf len p fl ((x # xs) # bl) dead"
  shows "\<exists>q. free_chain flag x p = Some q \<and> vp_slots q = vp_slots p \<and> bUseFlag q = bUseFlag p \<and>
    (\<forall>y. y \<notin> set (x # xs) \<longrightarrow> vp_nodes q y = vp_nodes p y) \<and>
    pool_wf len q (if flag then rev (x # xs) @ fl else fl) bl (if flag then dead else rev (x # xs) @ dead)"
  using assms
proof (induction xs arbitrary: x p fl dead)
  case Nil
  have ok: "node_ok p x" using pool_wf_node_ok [OF Nil, of x] by simp
  have nx: "wNextNodeIndex (vp_nodes p x) = wNodeCount p" using Nil by (auto simp: pool_wf_def)
  obtain q where "free_node flag x p = Some q" "vp_slots q = vp_slots p" "bUseFlag q = bUseFlag p"
    "wNodeCount q = wNodeCount p" "\<forall>y. y \<noteq> x \<longrightarrow> vp_nodes q y = vp_nodes p y"
    "pool_wf len q (if flag then x # fl else fl) bl (if flag then dead else x # dead)"
    using free_node_run [OF Nil, of flag] by (auto simp: chains_def)
  then show ?case using nx by (auto simp: free_chain_unfold [OF ok])
next
  case (Cons y ys)
  note b = pool_wf_basic [OF Cons.prems]
  have ok: "node_ok p x" "node_ok p y" using pool_wf_node_ok [OF Cons.prems] by auto
  have nx: "wNextNodeIndex (vp_nodes p x) = y" using Cons.prems by (auto simp: pool_wf_def)
  obtain q where q: "free_node flag x p = Some q" "vp_slots q = vp_slots p" "bUseFlag q = bUseFlag p"
    "wNodeCount q = wNodeCount p" "\<forall>z. z \<noteq> x \<longrightarrow> vp_nodes q z = vp_nodes p z"
    "pool_wf len q (if flag then x # fl else fl) ((y # ys) # bl) (if flag then dead else x # dead)"
    using free_node_run [OF Cons.prems, of flag] by (auto simp: chains_def)
  have lt: "y < wNodeCount q" using node_ok_ne_end(3) [OF b(2) ok(2)] b(3) q(4) by simp
  obtain r where r: "free_chain flag y q = Some r" "vp_slots r = vp_slots q" "bUseFlag r = bUseFlag q"
    "\<forall>z. z \<notin> set (y # ys) \<longrightarrow> vp_nodes r z = vp_nodes q z"
    "pool_wf len r (if flag then rev (y # ys) @ (if flag then x # fl else fl) else (if flag then x # fl else fl)) bl
      (if flag then (if flag then dead else x # dead) else rev (y # ys) @ (if flag then dead else x # dead))"
    using Cons.IH [OF q(6)] by blast
  have "free_chain flag x p = Some r" using q(1) r(1) nx lt by (simp add: free_chain_unfold [OF ok(1)])
  then show ?case using q r by (intro exI [of _ r]) (auto split: if_splits)
qed

subsection \<open>Collecting\<close>

text \<open>The scan of \<open>MtReport_ScanNode\<close> collects dead nodes and never fails its assertion.\<close>

lemma scan_loop_collects:
  assumes "pool_wf len p fl bl dead"
  shows "\<exists>j p' fl' dead'. scan_loop k i p = Some (j, p') \<and> collects len p fl bl dead p' fl' dead'"
  using assms
proof (induction k arbitrary: i p fl dead)
  case 0
  show ?case using collects_refl [OF 0] by auto
next
  case (Suc k)
  note b = pool_wf_basic [OF Suc.prems]
  show ?case
  proof (cases "i < unat (wNodeCount p)")
    case False
    then show ?thesis using collects_refl [OF Suc.prems] by auto
  next
    case True
    then have "unat (of_nat i :: u16) < vp_slots p"
      using b unat_pool_end [OF b(2)] by (simp add: unat_of_nat)
    then obtain nxt p1 fl1 dead1 where p1: "rd_next p (of_nat i) = Some nxt"
      "(if is_dead p nxt then push_free (of_nat i) p else Some p) = Some p1"
      "collects len p fl bl dead p1 fl1 dead1" "is_dead p nxt \<longrightarrow> wNodeUsed p1 \<noteq> 0"
      using collects_look [OF Suc.prems] by blast
    have "pool_wf len p1 fl1 bl dead1" using p1(3) by (simp add: collects_def)
    then obtain j p' fl' dead' where p': "scan_loop k (Suc i) p1 = Some (j, p')"
      "collects len p1 fl1 bl dead1 p' fl' dead'" using Suc.IH by blast
    have "scan_loop (Suc k) i p = Some (j, p')"
      using True p1(1,2,4) p'(1) by (auto split: if_splits)
    then show ?thesis using collects_trans [OF p1(3) p'(2)] by blast
  qed
qed

subsection \<open>Fresh pools\<close>

lemma nchain_upt:
  assumes "\<And>i. a \<le> i \<Longrightarrow> i < n \<Longrightarrow> wNextNodeIndex (h (of_nat i)) = of_nat (Suc i)"
  shows "a \<le> n \<Longrightarrow> nchain h (map of_nat [a..<n]) (of_nat n)"
  using assms
proof (induction "n - a" arbitrary: a)
  case 0
  then show ?case by simp
next
  case (Suc k)
  then have an: "a < n" by simp
  have "nchain h (map of_nat [Suc a..<n]) (of_nat n)" using Suc by (intro Suc.hyps(1)) auto
  moreover have "wNextNodeIndex (h (of_nat a)) = first_or (of_nat n) (map of_nat [Suc a..<n])"
  proof (cases "Suc a < n")
    case False
    then have "n = Suc a" using an by simp
    then show ?thesis using Suc.prems(2) [of a] by simp
  qed (use Suc.prems(2) [of a] in \<open>simp add: upt_conv_Cons\<close>)
  ultimately show ?case using an by (simp add: upt_conv_Cons)
qed

lemma VMEM_CREATE_INIT_SHM_wf:
  assumes "vp_slots p = n" "2 \<le> n" "n + 1 < 2 ^ 16" "buf_ok len p"
  shows "pool_wf len (VMEM_CREATE_INIT_SHM n p) (map of_nat [1..<n]) [] []"
proof -
  let ?q = "VMEM_CREATE_INIT_SHM n p"
  have un: "unat (of_nat i :: u16) = i" if "i < n" for i using that assms(3) by (subst unat_of_nat) simp
  have nxt: "wNextNodeIndex (vp_nodes ?q (of_nat i)) = of_nat (Suc i)" if "i < n" for i
    using that un by (simp add: VMEM_CREATE_INIT_SHM_def)
  have chain: "nchain (vp_nodes ?q) (map of_nat [1..<n]) (of_nat n)"
    using assms(2) nxt by (intro nchain_upt) auto
  have slots: "vp_slots ?q = n" "pool_end ?q = of_nat n" "node_ok ?q = node_ok p"
    using assms(1) by (simp_all add: VMEM_CREATE_INIT_SHM_def pool_end_def node_ok_def fun_eq_iff)
  have dead: "wNextNodeIndex (vp_nodes ?q x) \<noteq> of_nat n + 1" if "node_ok p x" for x
  proof -
    have x: "unat x < n" using that assms(1) by (simp add: node_ok_def)
    then have "wNextNodeIndex (vp_nodes ?q x) = of_nat (Suc (unat x))" using nxt [of "unat x"] by simp
    moreover have "unat (of_nat (Suc (unat x)) :: u16) = Suc (unat x)" using x assms(3) by (subst unat_of_nat) simp
    moreover have "unat (of_nat n + 1 :: u16) = n + 1" using unat_pool_end(2) [of ?q] slots assms(3) by simp
    ultimately have "unat (wNextNodeIndex (vp_nodes ?q x)) \<noteq> unat (of_nat n + 1 :: u16)" using x by simp
    then show ?thesis by auto
  qed
  have "distinct (map (of_nat :: nat \<Rightarrow> u16) [1..<n])"
    using un by (auto simp: distinct_map inj_on_def) (metis)
  moreover have "node_ok p (of_nat i)" if "1 \<le> i" "i < n" for i
    using un [OF that(2)] that assms(1) by (auto simp: node_ok_def)
  moreover have "first_or (of_nat n) (map of_nat [1..<n]) = (1 :: u16)"
    using assms(2) by (simp add: upt_conv_Cons)
  ultimately show ?thesis
    unfolding pool_wf_def slots
    using assms chain dead
    by (auto simp: pool_nodes_def buf_ok_def) (auto simp: VMEM_CREATE_INIT_SHM_def)
qed

end
