(* ===== verification/Vmem_Family.thy ===== *)
theory Vmem_Family
  imports Vmem_Free
begin

text \<open>
  A family of pools, by node length and number, read as a partial map from indices to byte strings. Nothing here depends
  on a program: the client's store (five pools of each length) and the server's (ten) are such families.
\<close>

subsection \<open>Packing\<close>

lemma and_mask_take: "x AND 0xff = take_bit 8 x" "x AND 0xffff = take_bit 16 (x :: u32)"
  by (simp_all add: take_bit_eq_mask mask_eq_exp_minus_1)

lemma nat_high_bits: "n < 2 ^ k \<Longrightarrow> k \<le> j \<Longrightarrow> \<not> bit (n :: nat) j"
  by (metis bit_take_bit_iff take_bit_nat_eq_self not_le)

lemma VMEM_PARSE_MAKE:
  assumes "len < 256" "t < 256"
  shows "VMEM_PARSE_IDEX32 (VMEM_MAKE_IDEX32 len t f) = (len, t, f)"
proof -
  let ?h = "VMEM_MAKE_IDEX32 len t f"
  have L: "8 \<le> j \<Longrightarrow> \<not> bit len j" for j using nat_high_bits [of len 8 j] assms by simp
  have T: "8 \<le> j \<Longrightarrow> \<not> bit t j" for j using nat_high_bits [of t 8 j] assms by simp
  have F: "16 \<le> j \<Longrightarrow> \<not> bit f j" for j using bit_imp_le_length [of f j] by auto
  have T': "bit t j \<Longrightarrow> j < 8" for j using T not_le by blast
  have "drop_bit 16 ?h AND 0xff = of_nat len"
    unfolding and_mask_take
    by (rule bit_word_eqI) (auto simp: VMEM_MAKE_IDEX32_def bit_simps L F)
  moreover have "drop_bit 24 ?h AND 0xff = of_nat t"
    unfolding and_mask_take
    by (rule bit_word_eqI) (auto simp: VMEM_MAKE_IDEX32_def bit_simps L T F dest: T')
  moreover have "ucast (?h AND 0xffff) = f"
    unfolding and_mask_take
    by (rule bit_word_eqI) (auto simp: VMEM_MAKE_IDEX32_def bit_simps)
  moreover have "unat (of_nat len :: u32) = len" "unat (of_nat t :: u32) = t"
    using assms by (auto simp: unat_of_nat)
  ultimately show ?thesis by (simp add: VMEM_PARSE_IDEX32_def)
qed

lemma VMEM_MAKE_PARSE:
  "VMEM_PARSE_IDEX32 h = (len, t, f) \<Longrightarrow> VMEM_MAKE_IDEX32 len t f = h"
proof -
  assume "VMEM_PARSE_IDEX32 h = (len, t, f)"
  then have p: "len = unat (take_bit 8 (drop_bit 16 h))" "t = unat (take_bit 8 (drop_bit 24 h))" "f = ucast (take_bit 16 h)"
    by (auto simp: VMEM_PARSE_IDEX32_def and_mask_take)
  show "VMEM_MAKE_IDEX32 len t f = h"
  proof (rule bit_word_eqI)
    fix j assume j: "j < LENGTH(32)"
    consider "j < 16" | "16 \<le> j" "j < 24" | "24 \<le> j" by linarith
    then show "bit (VMEM_MAKE_IDEX32 len t f) j = bit h j"
      using j by cases (auto simp: p VMEM_MAKE_IDEX32_def bit_simps)
  qed
qed

lemma VMEM_MAKE_small:
  assumes "len < 256" "t < 16"
  shows "unat (VMEM_MAKE_IDEX32 len t f) < 2 ^ 28"
proof -
  let ?h = "VMEM_MAKE_IDEX32 len t f"
  have L: "8 \<le> j \<Longrightarrow> \<not> bit len j" for j using nat_high_bits [of len 8 j] assms by simp
  have T: "4 \<le> j \<Longrightarrow> \<not> bit t j" for j using nat_high_bits [of t 4 j] assms by simp
  have F: "16 \<le> j \<Longrightarrow> \<not> bit f j" for j using bit_imp_le_length [of f j] by auto
  have "take_bit 28 ?h = ?h"
    by (rule bit_word_eqI) (auto simp: VMEM_MAKE_IDEX32_def bit_simps L T F)
  then show ?thesis by (metis take_bit_nat_less_exp unsigned_take_bit_eq)
qed

text \<open>An index is a positive \<open>int32_t\<close>: its node length is not zero.\<close>

lemma VMEM_MAKE_sint:
  assumes "len < 256" "t < 16"
  shows "0 \<le> sint (VMEM_MAKE_IDEX32 len t f)" "0 < len \<Longrightarrow> 0 < sint (VMEM_MAKE_IDEX32 len t f)"
proof -
  let ?h = "VMEM_MAKE_IDEX32 len t f"
  have "unat ?h < 2 ^ 31" using VMEM_MAKE_small [OF assms, of f] by simp
  then show pos: "0 \<le> sint ?h" using sint_small [of ?h] by simp
  show "0 < sint ?h" if "0 < len"
  proof -
    have "VMEM_PARSE_IDEX32 ?h = (len, t, f)" using assms by (intro VMEM_PARSE_MAKE) simp_all
    moreover have "fst (VMEM_PARSE_IDEX32 0) = 0" by (simp add: VMEM_PARSE_IDEX32_def)
    ultimately have "?h \<noteq> 0" using that by auto
    then have "sint ?h \<noteq> 0" by (metis signed_0 signed_word_eqI)
    then show ?thesis using pos by simp
  qed
qed

subsection \<open>The strings of a pool\<close>

definition lookup :: "VmemPool \<Rightarrow> u16 list list \<Rightarrow> u16 \<Rightarrow> u8 list option" where
  "lookup p bl f = map_option (blob_data p) (find (\<lambda>xs. hd xs = f) bl)"

lemma vmem_lens_bounds: "len \<in> set vmem_lens \<Longrightarrow> 0 < len \<and> len < 256"
  by (auto simp: vmem_lens_def)

text \<open>The heads of different chains differ, so the first node identifies a string.\<close>

lemma find_hd:
  assumes "distinct (concat bl)" "\<forall>xs\<in>set bl. xs \<noteq> []" "xs \<in> set bl"
  shows "find (\<lambda>ys. hd ys = hd xs) bl = Some xs"
  using assms
proof (induction bl)
  case (Cons ys bl)
  show ?case
  proof (cases "xs = ys")
    case False
    then have "xs \<in> set bl" using Cons.prems(3) by simp
    moreover have "hd ys \<noteq> hd xs"
      using Cons.prems calculation by (auto dest!: disjoint_iff [THEN iffD1] bspec) (metis hd_in_set)
    ultimately show ?thesis using Cons by simp
  qed simp
qed simp

lemma lookup_hd:
  assumes "pool_wf len p fl bl dead" "xs \<in> set bl"
  shows "lookup p bl (hd xs) = Some (blob_data p xs)"
  using assms find_hd [of bl xs] by (auto simp: lookup_def pool_wf_def pool_nodes_def)

lemma lookup_Some:
  assumes "lookup p bl f = Some d"
  obtains xs where "xs \<in> set bl" "hd xs = f" "d = blob_data p xs"
  using assms by (auto simp: lookup_def dest!: find_SomeD)

lemma lookup_cong:
  "(\<And>xs. xs \<in> set bl \<Longrightarrow> blob_data p' xs = blob_data p xs) \<Longrightarrow> lookup p' bl f = lookup p bl f"
  by (cases "find (\<lambda>xs. hd xs = f) bl") (auto simp: lookup_def dest!: find_SomeD)

lemma pool_wf_pick:
  assumes wf: "pool_wf len p fl bl dead" and xs: "xs \<in> set bl"
  shows "pool_wf len p fl (xs # remove1 xs bl) dead"
proof (rule pool_wf_mset [OF _ _ wf])
  have d: "distinct (concat bl)" "\<forall>ys\<in>set bl. ys \<noteq> []" "distinct (pool_nodes fl bl dead)"
    using wf by (auto simp: pool_wf_def pool_nodes_def)
  then have db: "distinct bl" using distinct_concat_iff removeAll_id by (metis (no_types, lifting))
  show s: "set bl = set (xs # remove1 xs bl)" using xs db by auto
  have "distinct (concat (xs # remove1 xs bl))"
    using d(1) db xs by (auto simp: distinct_concat_iff distinct_removeAll distinct_remove1)
  moreover have "set (concat (xs # remove1 xs bl)) = set (concat bl)" using s by simp
  ultimately show "distinct (pool_nodes fl (xs # remove1 xs bl) dead)"
    using d(3) unfolding pool_nodes_def distinct_append set_append by simp
qed

text \<open>What is found in a pool after the chain \<open>xs\<close> has left it.\<close>

lemma lookup_remove:
  assumes wf: "pool_wf len p fl bl dead" and xs: "xs \<in> set bl"
    and same: "\<And>y. y \<notin> set xs \<Longrightarrow> vp_nodes q y = vp_nodes p y"
    and wfq: "pool_wf len q fl' (remove1 xs bl) dead'"
  shows "lookup q (remove1 xs bl) f = (if f = hd xs then None else lookup p bl f)"
proof -
  have pick: "pool_wf len p fl (xs # remove1 xs bl) dead" by (rule pool_wf_pick [OF wf xs])
  have disj: "set xs \<inter> set ys = {}" "ys \<noteq> []" "xs \<noteq> []" if "ys \<in> set (remove1 xs bl)" for ys
    using pick that by (auto simp: pool_wf_def pool_nodes_def)
  have data: "blob_data q ys = blob_data p ys" if "ys \<in> set (remove1 xs bl)" for ys
    using disj(1) [OF that] same by (intro blob_data_cong) auto
  have orig: "ys \<in> set bl" if "ys \<in> set (remove1 xs bl)" for ys using that by (meson notin_set_remove1)
  show ?thesis
  proof (cases "lookup q (remove1 xs bl) f")
    case (Some d)
    then obtain ys where ys: "ys \<in> set (remove1 xs bl)" "hd ys = f" "d = blob_data q ys" by (rule lookup_Some)
    then have "f \<noteq> hd xs" using disj [OF ys(1)] by (metis disjoint_iff hd_in_set)
    moreover have "lookup p bl (hd ys) = Some (blob_data p ys)" by (rule lookup_hd [OF wf orig [OF ys(1)]])
    ultimately show ?thesis using Some ys data by simp
  next
    case None
    have "lookup p bl f = None" if "f \<noteq> hd xs"
    proof (rule ccontr)
      assume "lookup p bl f \<noteq> None"
      then obtain d ys where "ys \<in> set bl" "hd ys = f" using lookup_Some by (metis not_None_eq)
      moreover from this have "ys \<noteq> xs" using that by auto
      then have "ys \<in> set (remove1 xs bl)" using \<open>ys \<in> set bl\<close> by simp
      ultimately show False using None lookup_hd [OF wfq] by auto
    qed
    then show ?thesis using None by simp
  qed
qed

subsection \<open>The strings of a family\<close>

type_synonym ghost = "nat \<Rightarrow> nat \<Rightarrow> u16 list \<times> u16 list list \<times> u16 list"

type_synonym family = "nat \<Rightarrow> nat \<Rightarrow> VmemPool"

definition fam_contents :: "nat \<Rightarrow> family \<Rightarrow> ghost \<Rightarrow> u32 \<Rightarrow> u8 list option" where
  "fam_contents n P g h = (case VMEM_PARSE_IDEX32 h of (len, t, f) \<Rightarrow>
     if len \<in> set vmem_lens \<and> t < n then lookup (P len t) (fst (snd (g len t))) f else None)"

definition upd_ghost :: "nat \<Rightarrow> nat \<Rightarrow> u16 list \<times> u16 list list \<times> u16 list \<Rightarrow> ghost \<Rightarrow> ghost" where
  "upd_ghost len i x g = g(len := (g len)(i := x))"

definition upd_fam :: "nat \<Rightarrow> nat \<Rightarrow> VmemPool \<Rightarrow> family \<Rightarrow> family" where
  "upd_fam len i p P = P(len := (P len)(i := p))"

lemma upd_fam_sel [simp]: "upd_fam len i p P len' i' = (if len' = len \<and> i' = i then p else P len' i')"
  by (simp add: upd_fam_def)

lemma fam_update:
  assumes "len \<in> set vmem_lens" "i < n"
  shows "fam_contents n (upd_fam len i p P) (upd_ghost len i (fl, bl, dead) g) h =
    (case VMEM_PARSE_IDEX32 h of (len', t, f) \<Rightarrow>
       if len' = len \<and> t = i then lookup p bl f else fam_contents n P g h)"
  using assms by (auto simp: fam_contents_def upd_ghost_def split: prod.splits)

text \<open>An operation on one pool that keeps its strings keeps the contents of the family.\<close>

lemma fam_same:
  assumes "len \<in> set vmem_lens" "i < n" "g len i = (fl, bl, dead)"
    and "\<And>xs. xs \<in> set bl \<Longrightarrow> blob_data p xs = blob_data (P len i) xs"
  shows "fam_contents n (upd_fam len i p P) (upd_ghost len i (fl', bl, dead') g) = fam_contents n P g"
proof
  fix h
  obtain len' t f where h: "VMEM_PARSE_IDEX32 h = (len', t, f)" by (metis prod_cases3)
  show "fam_contents n (upd_fam len i p P) (upd_ghost len i (fl', bl, dead') g) h = fam_contents n P g h"
    using lookup_cong [of bl p "P len i" f] assms h
    by (simp add: fam_update) (simp add: fam_contents_def)
qed

text \<open>A new chain in one pool is one new string under a fresh index.\<close>

lemma fam_saved:
  assumes li: "len \<in> set vmem_lens" "i < n" "i < 256" and g: "g len i = (fl, bl, dead)"
    and q: "pool_wf len q fl' (xs # bl) dead'" "blob_data q xs = d"
      "\<And>ys. ys \<in> set bl \<Longrightarrow> blob_data q ys = blob_data (P len i) ys"
  defines "h \<equiv> VMEM_MAKE_IDEX32 len i (hd xs)"
  shows "fam_contents n P g h = None"
    and "fam_contents n (upd_fam len i q P) (upd_ghost len i (fl', xs # bl, dead') g) = (fam_contents n P g)(h \<mapsto> d)"
proof -
  have ph: "VMEM_PARSE_IDEX32 h = (len, i, hd xs)"
    unfolding h_def using vmem_lens_bounds [OF li(1)] li(3) by (intro VMEM_PARSE_MAKE) auto
  have hd: "hd ys \<noteq> hd xs" if "ys \<in> set bl" for ys
  proof -
    have "set xs \<inter> set ys = {}" "xs \<noteq> []" "ys \<noteq> []"
      using q(1) that by (auto simp: pool_wf_def pool_nodes_def)
    then show ?thesis by (metis disjoint_iff hd_in_set)
  qed
  have eq: "lookup q (xs # bl) f = (if f = hd xs then Some d else lookup (P len i) bl f)" for f
    using q(2,3) lookup_cong [of bl q "P len i" f] by (auto simp: lookup_def)
  show "fam_contents n P g h = None"
    using hd ph g li by (auto simp: fam_contents_def lookup_def find_None_iff)
  have "fam_contents n (upd_fam len i q P) (upd_ghost len i (fl', xs # bl, dead') g) k = ((fam_contents n P g)(h \<mapsto> d)) k" for k
  proof -
    obtain len' t f where k: "VMEM_PARSE_IDEX32 k = (len', t, f)" by (metis prod_cases3)
    have iff: "k = h \<longleftrightarrow> len' = len \<and> t = i \<and> f = hd xs"
      using VMEM_MAKE_PARSE [OF k] VMEM_MAKE_PARSE [OF ph] k ph by (metis prod.inject)
    show ?thesis
    proof (cases "len' = len \<and> t = i")
      case True
      then have "fam_contents n P g k = lookup (P len i) bl f" using k g li by (simp add: fam_contents_def)
      then show ?thesis using True iff k eq by (simp add: fam_update [OF li(1,2)])
    next
      case False
      then show ?thesis using iff k by (auto simp: fam_update [OF li(1,2)])
    qed
  qed
  then show "fam_contents n (upd_fam len i q P) (upd_ghost len i (fl', xs # bl, dead') g) = (fam_contents n P g)(h \<mapsto> d)" by blast
qed

text \<open>A chain that leaves its pool is one string less.\<close>

lemma fam_freed:
  assumes h: "VMEM_PARSE_IDEX32 h = (len, t, f)" "len \<in> set vmem_lens" "t < n" and g: "g len t = (fl, bl, dead)"
    and p: "pool_wf len (P len t) fl bl dead" "xs \<in> set bl" "hd xs = f"
    and q: "pool_wf len q fl' (remove1 xs bl) dead'" "\<And>y. y \<notin> set xs \<Longrightarrow> vp_nodes q y = vp_nodes (P len t) y"
  shows "fam_contents n (upd_fam len t q P) (upd_ghost len t (fl', remove1 xs bl, dead') g) = (fam_contents n P g)(h := None)"
proof
  fix k
  obtain len' t' f' where k: "VMEM_PARSE_IDEX32 k = (len', t', f')" by (metis prod_cases3)
  have iff: "k = h \<longleftrightarrow> len' = len \<and> t' = t \<and> f' = f"
    using VMEM_MAKE_PARSE [OF k] VMEM_MAKE_PARSE [OF h(1)] k h(1) by (metis prod.inject)
  show "fam_contents n (upd_fam len t q P) (upd_ghost len t (fl', remove1 xs bl, dead') g) k = ((fam_contents n P g)(h := None)) k"
  proof (cases "len' = len \<and> t' = t")
    case True
    then have "fam_contents n P g k = lookup (P len t) bl f'" using k h g by (simp add: fam_contents_def)
    then show ?thesis
      using True iff k p(3) lookup_remove [OF p(1,2) q(2,1), of f']
      by (simp add: fam_update [OF h(2,3)])
  next
    case False
    then show ?thesis using iff k by (auto simp: fam_update [OF h(2,3)])
  qed
qed

text \<open>The pool and the chain behind an index that is in use.\<close>

lemma fam_chain:
  assumes wf: "\<And>len i fl bl dead. len \<in> set vmem_lens \<Longrightarrow> i < n \<Longrightarrow> g len i = (fl, bl, dead) \<Longrightarrow> pool_wf len (P len i) fl bl dead"
    and c: "fam_contents n P g h = Some d"
  obtains len t f fl bl dead xs where "VMEM_PARSE_IDEX32 h = (len, t, f)" "len \<in> set vmem_lens" "t < n"
    "g len t = (fl, bl, dead)" "pool_wf len (P len t) fl bl dead" "xs \<in> set bl" "hd xs = f"
    "d = blob_data (P len t) xs" "xs \<noteq> []" "f < wNodeCount (P len t)"
proof -
  obtain len t f where h: "VMEM_PARSE_IDEX32 h = (len, t, f)" by (metis prod_cases3)
  have lt: "len \<in> set vmem_lens" "t < n" using c h by (auto simp: fam_contents_def split: if_splits)
  obtain fl bl dead where g: "g len t = (fl, bl, dead)" by (metis prod_cases3)
  note pw = wf [OF lt g]
  obtain xs where xs: "xs \<in> set bl" "hd xs = f" "d = blob_data (P len t) xs"
    using c h g lt by (auto simp: fam_contents_def elim: lookup_Some)
  have ne: "xs \<noteq> []" using pw xs(1) by (auto simp: pool_wf_def)
  then have "hd xs \<in> set xs" by simp
  then have "f \<in> set (concat bl)" using xs by auto
  then have "f < wNodeCount (P len t)"
    using pool_wf_node_ok [OF pw] node_ok_ne_end(3) [OF pool_wf_basic(2) [OF pw]] pool_wf_basic(3) [OF pw] by auto
  then show thesis using that h lt g pw xs ne by blast
qed

end
