(* ===== verification/Vmem_Store.thy ===== *)
theory Vmem_Store
  imports Vmem_Family
begin

text \<open>
  The whole store as a partial map from indices to byte strings, the interface its clients
  rely on, and its implementation by the functions of \<open>mt_vmem.c\<close>.
\<close>

subsection \<open>The abstract store\<close>

text \<open>
  The interface of a store for strings: saving either fails and changes nothing that is
  visible, or names a fresh key; a stored string is fetched as it was saved, and stays until
  it is released.
\<close>

fun save_all :: "('b \<Rightarrow> 's \<Rightarrow> (int \<times> 's) option) \<Rightarrow> 'b list \<Rightarrow> 's \<Rightarrow> (int list \<times> 's) option" where
  "save_all save [] s = Some ([], s)"
| "save_all save (b # bs) s = do {
     (r, s) \<leftarrow> save b s;
     (rs, s) \<leftarrow> save_all save bs s;
     Some (r # rs, s)
   }"

locale blob_store =
  fixes save :: "'b \<Rightarrow> 's \<Rightarrow> (int \<times> 's) option"
    and fetch :: "int \<Rightarrow> 's \<Rightarrow> 'b option option"
    and release :: "int \<Rightarrow> 's \<Rightarrow> 's option"
    and rep :: "'s \<Rightarrow> (int \<Rightarrow> 'b option) \<Rightarrow> bool"
    and storable :: "'b \<Rightarrow> bool"
  assumes save_law: "rep s m \<Longrightarrow> storable b \<Longrightarrow> \<exists>r s'. save b s = Some (r, s') \<and>
      (if r < 0 then rep s' m else m r = None \<and> rep s' (m(r \<mapsto> b)))"
    and fetch_law: "rep s m \<Longrightarrow> m r = Some b \<Longrightarrow> storable b \<Longrightarrow> fetch r s = Some (Some b)"
    and release_law: "rep s m \<Longrightarrow> m r = Some b \<Longrightarrow> \<exists>s'. release r s = Some s' \<and> rep s' (m(r := None))"
begin

lemma save_then_fetch:
  assumes "rep s m" "storable b" "save b s = Some (r, s')" "0 \<le> r"
  shows "fetch r s' = Some (Some b)" and "rep s' (m(r \<mapsto> b))"
proof -
  show rep': "rep s' (m(r \<mapsto> b))" using save_law [OF assms(1,2)] assms(3,4) by auto
  show "fetch r s' = Some (Some b)" using fetch_law [OF rep' _ assms(2)] by simp
qed

lemma save_all_fetch:
  assumes "rep s m" "\<forall>b\<in>set bs. storable b"
  shows "\<exists>rs s' m'. save_all save bs s = Some (rs, s') \<and> length rs = length bs \<and> rep s' m' \<and>
    (\<forall>i<length bs. 0 \<le> rs ! i \<longrightarrow> m' (rs ! i) = Some (bs ! i)) \<and> (\<forall>r b. m r = Some b \<longrightarrow> m' r = Some b)"
  using assms
proof (induction bs arbitrary: s m)
  case Nil
  then show ?case by auto
next
  case (Cons b bs)
  obtain r s1 m1 where 1: "save b s = Some (r, s1)" "rep s1 m1" "0 \<le> r \<longrightarrow> m1 r = Some b"
    "\<forall>q c. m q = Some c \<longrightarrow> m1 q = Some c"
    using save_law [OF Cons.prems(1), of b] Cons.prems(2) by (fastforce split: if_splits)
  obtain rs s' m' where 2: "save_all save bs s1 = Some (rs, s')" "length rs = length bs" "rep s' m'"
    "\<forall>i<length bs. 0 \<le> rs ! i \<longrightarrow> m' (rs ! i) = Some (bs ! i)" "\<forall>r b. m1 r = Some b \<longrightarrow> m' r = Some b"
    using Cons.IH [OF 1(2)] Cons.prems(2) by auto
  have "\<forall>i<length (b # bs). 0 \<le> (r # rs) ! i \<longrightarrow> m' ((r # rs) ! i) = Some ((b # bs) ! i)"
    using 1(3) 2(4,5) by (auto simp: nth_Cons split: nat.splits)
  then show ?case using 1 2 by (intro exI [of _ "r # rs"] exI [of _ s'] exI [of _ m']) auto
qed

lemma release_keeps_others:
  assumes "rep s m" "m r = Some b" "m q = Some c" "q \<noteq> r" "storable c" "release r s = Some s'"
  shows "fetch q s' = Some (Some c)"
  using release_law [OF assms(1,2)] fetch_law [of s' "m(r := None)" q c] assms(3-6) by auto

end

subsection \<open>What the pools hold\<close>

definition pool_rep :: "nat \<Rightarrow> VmemPool \<Rightarrow> u16 list \<times> u16 list list \<times> u16 list \<Rightarrow> bool" where
  "pool_rep len p g = (case g of (fl, bl, dead) \<Rightarrow> pool_wf len p fl bl dead)"

definition vmem_wf :: "Vmem \<Rightarrow> ghost \<Rightarrow> bool" where
  "vmem_wf v g \<longleftrightarrow> cIsInit v \<noteq> 0 \<and>
     (\<forall>len\<in>set vmem_lens. \<forall>i<VMEM_SHM_COUNT. pool_rep len (vm_pool v len i) (g len i))"

definition contents :: "Vmem \<Rightarrow> ghost \<Rightarrow> u32 \<Rightarrow> u8 list option" where
  "contents v g = fam_contents VMEM_SHM_COUNT (vm_pool v) g"

text \<open>Indices are \<open>int32_t\<close>: the map is over the integers that are such values.\<close>

definition vmem_rep :: "Vmem \<Rightarrow> (int \<Rightarrow> u8 list option) \<Rightarrow> bool" where
  "vmem_rep v m \<longleftrightarrow> (\<exists>g. vmem_wf v g \<and>
     m = (\<lambda>r. if sint (word_of_int r :: u32) = r then contents v g (word_of_int r) else None))"

definition storable :: "u8 list \<Rightarrow> bool" where
  "storable d \<longleftrightarrow> 0 < length d \<and> length d \<le> VMEM_MAX_DATA_LEN"

lemma set_pool_sel [simp]:
  "vm_pool (set_pool len i np v) len' i' = (if len' = len \<and> i' = i then snd np else vm_pool v len' i')"
  "cIsInit (set_pool len i np v) = cIsInit v" "vm_tick (set_pool len i np v) = fst np"
  by (auto simp: set_pool_def)

lemma vmem_wf_pool: "vmem_wf v g \<Longrightarrow> len \<in> set vmem_lens \<Longrightarrow> i < VMEM_SHM_COUNT \<Longrightarrow> g len i = (fl, bl, dead) \<Longrightarrow>
    pool_wf len (vm_pool v len i) fl bl dead"
  by (auto simp: vmem_wf_def pool_rep_def split: prod.splits)

lemma vmem_wf_update:
  assumes "vmem_wf v g" "pool_wf len p fl bl dead"
  shows "vmem_wf (set_pool len i (n, p) v) (upd_ghost len i (fl, bl, dead) g)"
  using assms by (auto simp: vmem_wf_def upd_ghost_def pool_rep_def)

lemma contents_set_pool:
  "contents (set_pool len i (n, p) v) g = fam_contents VMEM_SHM_COUNT (upd_fam len i p (vm_pool v)) g"
  by (simp add: contents_def set_pool_def upd_fam_def)

text \<open>An operation on one pool that keeps its strings keeps the contents of the store.\<close>

lemma contents_same:
  assumes "len \<in> set vmem_lens" "i < VMEM_SHM_COUNT" "g len i = (fl, bl, dead)"
    and "\<And>xs. xs \<in> set bl \<Longrightarrow> blob_data p xs = blob_data (vm_pool v len i) xs"
  shows "contents (set_pool len i (n, p) v) (upd_ghost len i (fl', bl, dead') g) = contents v g"
  unfolding contents_set_pool using fam_same [where g = g and P = "vm_pool v", OF assms] by (simp add: contents_def)

subsection \<open>Saving into the store\<close>

definition save_outcome :: "Vmem \<Rightarrow> ghost \<Rightarrow> u8 list \<Rightarrow> int \<Rightarrow> Vmem \<Rightarrow> bool" where
  "save_outcome v g d r v' \<longleftrightarrow> (\<exists>g'. vmem_wf v' g' \<and>
     (r < 0 \<and> contents v' g' = contents v g \<or>
      (\<exists>h. r = sint h \<and> 0 \<le> r \<and> contents v g h = None \<and> contents v' g' = (contents v g)(h \<mapsto> d))))"

lemma take_flag_wf:
  assumes "take_flag clk (n, p) = (b, n', p')"
  shows "pool_wf len p' fl bl dead = pool_wf len p fl bl dead" "blob_data p' xs = blob_data p xs"
    "vp_nodes p' = vp_nodes p"
  using assms by (auto simp: take_flag_def blob_data_def split: if_splits)

lemma save_into_pool:
  assumes wf: "vmem_wf v g" and li: "len \<in> set vmem_lens" "i < VMEM_SHM_COUNT" and d: "0 < length d"
    and g: "g len i = (fl0, bl, dead0)" and p: "pool_wf len p fl bl dead"
    and bl: "\<And>xs. xs \<in> set bl \<Longrightarrow> blob_data p xs = blob_data (vm_pool v len i) xs"
    and need: "enough p (need_count len (length d))"
  shows "\<exists>first q. save_in_pool len (need_count len (length d)) d p = Some (first, q) \<and>
    save_outcome v g d (sint (VMEM_MAKE_IDEX32 len i first)) (set_pool len i (n, q) v)"
proof -
  obtain q xs fl' dead' where q: "save_in_pool len (need_count len (length d)) d p = Some (hd xs, q)"
    "pool_wf len q fl' (xs # bl) dead'" "blob_data q xs = d" "\<forall>ys\<in>set bl. blob_data q ys = blob_data p ys"
    using save_in_pool_run [OF p d _ _ refl need] vmem_lens_bounds [OF li(1)] by blast
  let ?h = "VMEM_MAKE_IDEX32 len i (hd xs)" and ?g = "upd_ghost len i (fl', xs # bl, dead') g"
  have i: "i < 256" "i < 16" using li(2) by (simp_all add: VMEM_SHM_COUNT_def)
  have "blob_data q ys = blob_data (vm_pool v len i) ys" if "ys \<in> set bl" for ys using q(4) bl that by simp
  note new = fam_saved [where g = g and P = "vm_pool v", OF li i(1) g q(2,3) this]
  have "contents v g ?h = None" "contents (set_pool len i (n, q) v) ?g = (contents v g)(?h \<mapsto> d)"
    unfolding contents_set_pool using new by (simp_all add: contents_def)
  moreover have "0 \<le> sint ?h" using vmem_lens_bounds [OF li(1)] i(2) by (intro VMEM_MAKE_sint) auto
  ultimately have "save_outcome v g d (sint ?h) (set_pool len i (n, q) v)"
    unfolding save_outcome_def using vmem_wf_update [OF wf q(2)] by blast
  with q(1) show ?thesis by blast
qed

lemma save_outcome_step:
  assumes "vmem_wf v1 g1" "contents v1 g1 = contents v g" "save_outcome v1 g1 d r v'"
  shows "save_outcome v g d r v'"
  using assms by (auto simp: save_outcome_def)

text \<open>A pool may refuse data only because its flag is held or because it has too few free nodes.\<close>

definition refuses :: "Vmem \<Rightarrow> u8 list \<Rightarrow> nat \<Rightarrow> nat \<Rightarrow> bool" where
  "refuses v d len i \<longleftrightarrow> bUseFlag (vm_pool v len i) \<noteq> 0 \<or>
     \<not> enough (vm_pool v len i) (need_count len (length d))"

definition tried :: "Vmem \<Rightarrow> u8 list \<Rightarrow> nat \<Rightarrow> nat list \<Rightarrow> int \<Rightarrow> Vmem \<Rightarrow> bool" where
  "tried v d len is r v' \<longleftrightarrow> (r < 0 \<longrightarrow> (\<forall>i\<in>set is. refuses v d len i)) \<and>
     (\<forall>len'. len' \<noteq> len \<longrightarrow> vm_pool v' len' = vm_pool v len')"

lemma tried_skip:
  assumes "tried (set_pool len i np v) d len js r v'" "refuses v d len i"
  shows "tried v d len (i # js) r v'"
  using assms by (auto simp: tried_def refuses_def set_pool_def split: if_splits)

lemma save_pools_outcome:
  assumes "vmem_wf v g" "len \<in> set vmem_lens" "set is \<subseteq> {..<VMEM_SHM_COUNT}" "0 < length d"
  shows "\<exists>r v'. save_pools clk len d is v = Some (r, v') \<and> save_outcome v g d r v' \<and> tried v d len is r v'"
  using assms
proof (induction "is" arbitrary: v g)
  case Nil
  then show ?case by (auto simp: save_outcome_def tried_def)
next
  case (Cons i js)
  have i: "i < VMEM_SHM_COUNT" and js: "set js \<subseteq> {..<VMEM_SHM_COUNT}" using Cons.prems(3) by auto
  let ?need = "need_count len (length d)"
  obtain fl bl dead where g: "g len i = (fl, bl, dead)" by (metis prod_cases3)
  note pw = vmem_wf_pool [OF Cons.prems(1,2) i g]
  obtain b n p where tf: "take_flag clk (vm_tick v, vm_pool v len i) = (b, n, p)" by (metis prod_cases3)
  note tw = take_flag_wf [OF tf]
  have skip: "\<exists>r v'. save_pools clk len d js (set_pool len i (n', q) v) = Some (r, v') \<and> save_outcome v g d r v' \<and>
      tried v d len (i # js) r v'"
    if q: "pool_wf len q fl' bl dead'" "\<And>xs. xs \<in> set bl \<Longrightarrow> blob_data q xs = blob_data (vm_pool v len i) xs"
      and "refuses v d len i"
    for n' q fl' dead'
  proof -
    let ?v = "set_pool len i (n', q) v" and ?g = "upd_ghost len i (fl', bl, dead') g"
    have wf: "vmem_wf ?v ?g" by (rule vmem_wf_update [OF Cons.prems(1) q(1)])
    have same: "contents ?v ?g = contents v g" by (rule contents_same [where g = g, OF Cons.prems(2) i g q(2)])
    from Cons.IH [OF wf Cons.prems(2) js Cons.prems(4)] save_outcome_step [OF wf same]
      tried_skip [OF _ \<open>refuses v d len i\<close>] show ?thesis by blast
  qed
  show ?case
  proof (cases b)
    case False
    have "refuses v d len i" using tf False by (auto simp: take_flag_def refuses_def split: if_splits)
    then have "\<exists>r v'. save_pools clk len d js (set_pool len i (n, p) v) = Some (r, v') \<and> save_outcome v g d r v' \<and>
        tried v d len (i # js) r v'"
      using tw pw by (intro skip) auto
    then show ?thesis using False tf by simp
  next
    case True
    define p1 where "p1 = p\<lparr>dwUseFlagStartTime := clk n\<rparr>"
    have p1: "pool_wf len p1 fl bl dead" "\<And>xs. blob_data p1 xs = blob_data (vm_pool v len i) xs"
      using tw pw by (auto simp: p1_def blob_data_def)
    obtain p2 fl2 dead2 where p2: "(if enough p1 ?need then Some p1 else SCAN_FREE_NODE 50 p1) = Some p2"
      "pool_wf len p2 fl2 bl dead2" "\<And>xs. xs \<in> set bl \<Longrightarrow> blob_data p2 xs = blob_data (vm_pool v len i) xs"
    proof (cases "enough p1 ?need")
      case True
      then show ?thesis using that [of p1] p1 by auto
    next
      case False
      obtain q fl' dead' where "SCAN_FREE_NODE 50 p1 = Some q" "collects len p1 fl bl dead q fl' dead'"
        using SCAN_FREE_NODE_collects [OF p1(1)] by blast
      moreover from this have "pool_wf len q fl' bl dead'" by (simp add: collects_def)
      ultimately show ?thesis
        using that [of q fl' dead'] False p1(2) collects_blob_data [OF p1(1)] by simp
    qed
    show ?thesis
    proof (cases "enough p2 ?need")
      case True
      obtain first q where q: "save_in_pool len ?need d p2 = Some (first, q)"
        "save_outcome v g d (sint (VMEM_MAKE_IDEX32 len i first)) (set_pool len i (Suc n, q) v)"
        using save_into_pool [OF Cons.prems(1,2) i Cons.prems(4) g p2(2,3) True] by blast
      have "0 \<le> sint (VMEM_MAKE_IDEX32 len i first)"
        using vmem_lens_bounds [OF Cons.prems(2)] i by (intro VMEM_MAKE_sint) (auto simp: VMEM_SHM_COUNT_def)
      then have "tried v d len (i # js) (sint (VMEM_MAKE_IDEX32 len i first)) (set_pool len i (Suc n, q) v)"
        by (auto simp: tried_def set_pool_def)
      then show ?thesis using q \<open>b\<close> tf p2(1) True by (auto simp: stamp_flag_def p1_def [symmetric])
    next
      case False
      have "\<not> enough p1 ?need" using p2(1) False by (auto split: if_splits)
      then have "refuses v d len i"
        using tf by (auto simp: p1_def take_flag_def refuses_def enough_def split: if_splits)
      then have "\<exists>r v'. save_pools clk len d js (set_pool len i (Suc n, p2\<lparr>bUseFlag := 0\<rparr>) v) = Some (r, v') \<and>
          save_outcome v g d r v' \<and> tried v d len (i # js) r v'"
        using p2(2,3) by (intro skip [of _ fl2 dead2]) (auto simp: blob_data_def)
      then show ?thesis using \<open>b\<close> tf p2(1) False by (auto simp: stamp_flag_def p1_def [symmetric])
    qed
  qed
qed

lemma try_lens_outcome:
  assumes "vmem_wf v g" "set lens \<subseteq> set vmem_lens" "distinct lens" "0 < length d" "r < 0"
  shows "\<exists>r' v'. try_lens clk d lens r v = Some (r', v') \<and> save_outcome v g d r' v' \<and>
    (r' < 0 \<longrightarrow> (\<forall>len\<in>set lens. \<forall>i<VMEM_SHM_COUNT. refuses v d len i))"
  using assms
proof (induction lens arbitrary: v g r)
  case Nil
  then show ?case by (auto simp: save_outcome_def)
next
  case (Cons len lens)
  obtain r1 v1 where 1: "SAVE_DATA_TO_VMEM clk len d v = Some (r1, v1)" "save_outcome v g d r1 v1"
    "tried v d len [0..<VMEM_SHM_COUNT] r1 v1"
    using save_pools_outcome [OF Cons.prems(1), of len "[0..<VMEM_SHM_COUNT]" d clk] Cons.prems
    by (auto simp: SAVE_DATA_TO_VMEM_def atLeast0LessThan)
  show ?case
  proof (cases "r1 < 0")
    case True
    then obtain g1 where g1: "vmem_wf v1 g1" "contents v1 g1 = contents v g"
      using 1(2) by (auto simp: save_outcome_def)
    obtain r' v' where 2: "try_lens clk d lens r1 v1 = Some (r', v')" "save_outcome v1 g1 d r' v'"
      "r' < 0 \<longrightarrow> (\<forall>len\<in>set lens. \<forall>i<VMEM_SHM_COUNT. refuses v1 d len i)"
      using Cons.IH [OF g1(1), of r1] Cons.prems True by auto
    have "refuses v1 d len' i = refuses v d len' i" if "len' \<in> set lens" for len' i
      using 1(3) that Cons.prems(3) by (auto simp: tried_def refuses_def)
    then show ?thesis
      using 1 2 True Cons.prems(5) save_outcome_step [OF g1] by (auto simp: tried_def)
  next
    case False
    then show ?thesis using 1 Cons.prems(5) by (cases lens) auto
  qed
qed

lemma set_save_order: "set (save_order n) = set vmem_lens"
  by (auto simp: save_order_def)

lemma distinct_save_order: "distinct (save_order n)"
  by (simp add: save_order_def vmem_lens_def)

lemma MtReport_SaveToVmem_outcome:
  assumes "vmem_wf v g" "storable d"
  shows "\<exists>r v'. MtReport_SaveToVmem clk d v = Some (r, v') \<and> save_outcome v g d r v' \<and>
    (r < 0 \<longrightarrow> (\<forall>len\<in>set vmem_lens. \<forall>i<VMEM_SHM_COUNT. refuses v d len i))"
  using try_lens_outcome [OF assms(1), of "save_order (length d)" d "-1" clk] assms
  by (auto simp: MtReport_SaveToVmem_def storable_def vmem_wf_def set_save_order distinct_save_order)

subsection \<open>Reading and releasing\<close>

text \<open>The pool and the chain behind an index that is in use.\<close>

lemma contents_chain:
  assumes wf: "vmem_wf v g" and c: "contents v g h = Some d"
  obtains len t f fl bl dead xs where "VMEM_PARSE_IDEX32 h = (len, t, f)" "len \<in> set vmem_lens" "t < VMEM_SHM_COUNT"
    "g len t = (fl, bl, dead)" "pool_wf len (vm_pool v len t) fl bl dead" "xs \<in> set bl" "hd xs = f"
    "d = blob_data (vm_pool v len t) xs" "xs \<noteq> []" "f < wNodeCount (vm_pool v len t)"
proof (rule fam_chain [where P = "vm_pool v" and g = g and n = VMEM_SHM_COUNT])
  show "fam_contents VMEM_SHM_COUNT (vm_pool v) g h = Some d" using c by (simp add: contents_def)
qed (use vmem_wf_pool [OF wf] that in blast)+

lemma MtReport_GetFromVmem_contents:
  assumes wf: "vmem_wf v g" and c: "contents v g h = Some d"
  shows "length d \<le> room \<Longrightarrow> MtReport_GetFromVmem h room v = Some (0, d)"
    and "room < length d \<Longrightarrow> \<exists>out. MtReport_GetFromVmem h room v = Some (-4, out)"
proof -
  obtain len t f fl bl dead xs where h: "VMEM_PARSE_IDEX32 h = (len, t, f)" "len \<in> set vmem_lens"
    "t < VMEM_SHM_COUNT" "pool_wf len (vm_pool v len t) fl bl dead" "xs \<in> set bl" "hd xs = f"
    "d = blob_data (vm_pool v len t) xs" "xs \<noteq> []" "f < wNodeCount (vm_pool v len t)"
    using contents_chain [OF wf c] by metis
  have init: "cIsInit v \<noteq> 0" using wf by (simp add: vmem_wf_def)
  note rd = pool_wf_readable [OF h(4,5)]
  show "MtReport_GetFromVmem h room v = Some (0, d)" if "length d \<le> room"
    using get_chain_fits [OF rd h(8)] that h init
    by (simp add: MtReport_GetFromVmem_def Let_def)
  show "\<exists>out. MtReport_GetFromVmem h room v = Some (-4, out)" if "room < length d"
    using get_chain_overflow [OF rd h(8), of room "[]"] that h init
    by (auto simp: MtReport_GetFromVmem_def Let_def)
qed

lemma MtReport_FreeVmem_contents:
  assumes wf: "vmem_wf v g" and c: "contents v g h = Some d"
  shows "\<exists>v' g'. MtReport_FreeVmem clk h v = Some (0, v') \<and> vmem_wf v' g' \<and> contents v' g' = (contents v g)(h := None)"
proof -
  obtain len t f fl bl dead xs where h: "VMEM_PARSE_IDEX32 h = (len, t, f)" "len \<in> set vmem_lens"
    "t < VMEM_SHM_COUNT" "g len t = (fl, bl, dead)" "pool_wf len (vm_pool v len t) fl bl dead" "xs \<in> set bl" "hd xs = f"
    "xs \<noteq> []" "f < wNodeCount (vm_pool v len t)"
    using contents_chain [OF wf c] by metis
  let ?p = "vm_pool v len t"
  obtain x ys where xs: "xs = x # ys" using h(8) by (cases xs) auto
  obtain b n p where tf: "take_flag clk (vm_tick v, ?p) = (b, n, p)" by (metis prod_cases3)
  obtain m p1 where st: "(if b then stamp_flag clk (n, p) else (n, p)) = (m, p1)" by (metis surj_pair)
  have p1: "vp_nodes p1 = vp_nodes ?p" "pool_wf len p1 fl bl' dead = pool_wf len ?p fl bl' dead" for bl'
    using take_flag_wf [OF tf] st by (auto simp: stamp_flag_def split: if_splits)
  have "pool_wf len p1 fl ((x # ys) # remove1 xs bl) dead"
    using pool_wf_pick [OF h(5,6)] p1(2) xs by simp
  then obtain q where q: "free_chain b x p1 = Some q" "\<forall>y. y \<notin> set xs \<longrightarrow> vp_nodes q y = vp_nodes p1 y"
    "pool_wf len q (if b then rev xs @ fl else fl) (remove1 xs bl) (if b then dead else rev xs @ dead)"
    using free_chain_run [where flag = b] xs by blast
  define q' where "q' = (if b then q\<lparr>bUseFlag := 0\<rparr> else q)"
  have q': "pool_wf len q' (if b then rev xs @ fl else fl) (remove1 xs bl) (if b then dead else rev xs @ dead)"
    "\<And>y. y \<notin> set xs \<Longrightarrow> vp_nodes q' y = vp_nodes ?p y"
    using q p1(1) by (auto simp: q'_def)
  let ?v = "set_pool len t (m, q') v" and ?g = "upd_ghost len t (if b then rev xs @ fl else fl, remove1 xs bl,
    if b then dead else rev xs @ dead) g"
  have run: "MtReport_FreeVmem clk h v = Some (0, ?v)"
    using wf h tf st q(1) xs by (simp add: MtReport_FreeVmem_def vmem_wf_def Let_def q'_def not_le [symmetric])
  have "contents ?v ?g = (contents v g)(h := None)"
    unfolding contents_set_pool
    using fam_freed [where P = "vm_pool v" and g = g, OF h(1-7) q'] by (simp add: contents_def)
  then show ?thesis using run vmem_wf_update [OF wf q'(1)] by blast
qed

subsection \<open>The functions implement the store\<close>

lemma word_of_sint [simp]: "word_of_int (sint (h :: u32)) = h"
  by simp

interpretation vm: blob_store "MtReport_SaveToVmem clk" "\<lambda>r. MtReport_GetFromVmem_Local (word_of_int r)"
  "\<lambda>r v. map_option snd (MtReport_FreeVmem clk (word_of_int r) v)" vmem_rep storable
  for clk :: "nat \<Rightarrow> u32"
proof unfold_locales
  fix s m b
  assume rep: "vmem_rep s m" and b: "storable b"
  let ?m = "\<lambda>v g r. if sint (word_of_int r :: u32) = r then contents v g (word_of_int r) else None"
  obtain g where g: "vmem_wf s g" "m = ?m s g" using rep by (auto simp: vmem_rep_def)
  obtain r s' g' where r: "MtReport_SaveToVmem clk b s = Some (r, s')" "vmem_wf s' g'"
    "r < 0 \<and> contents s' g' = contents s g \<or>
     (\<exists>h. r = sint h \<and> 0 \<le> r \<and> contents s g h = None \<and> contents s' g' = (contents s g)(h \<mapsto> b))"
    using MtReport_SaveToVmem_outcome [OF g(1) b, of clk] by (auto simp: save_outcome_def)
  have rep': "vmem_rep s' (?m s' g')" using r(2) by (auto simp: vmem_rep_def)
  have "if r < 0 then vmem_rep s' m else m r = None \<and> vmem_rep s' (m(r \<mapsto> b))"
    using r(3)
  proof
    assume "r < 0 \<and> contents s' g' = contents s g"
    then have "?m s' g' = m" "r < 0" using g(2) by auto
    then show ?thesis using rep' by simp
  next
    assume "\<exists>h. r = sint h \<and> 0 \<le> r \<and> contents s g h = None \<and> contents s' g' = (contents s g)(h \<mapsto> b)"
    then obtain h where h: "r = sint h" "0 \<le> r" "contents s g h = None" "contents s' g' = (contents s g)(h \<mapsto> b)"
      by blast
    then have "m r = None" "?m s' g' = m(r \<mapsto> b)" by (auto simp: g(2) fun_eq_iff)
    then show ?thesis using rep' h(2) by simp
  qed
  then show "\<exists>r s'. MtReport_SaveToVmem clk b s = Some (r, s') \<and>
      (if r < 0 then vmem_rep s' m else m r = None \<and> vmem_rep s' (m(r \<mapsto> b)))" using r(1) by blast
next
  fix s m r b
  assume "vmem_rep s m" "m r = Some b" "storable b"
  then show "MtReport_GetFromVmem_Local (word_of_int r) s = Some (Some b)"
    using MtReport_GetFromVmem_contents(1)
    by (auto simp: vmem_rep_def MtReport_GetFromVmem_Local_def storable_def split: if_splits)
next
  fix s m r b
  assume rep: "vmem_rep s m" and m: "m r = Some b"
  let ?m = "\<lambda>v g r. if sint (word_of_int r :: u32) = r then contents v g (word_of_int r) else None"
  obtain g where g: "vmem_wf s g" "m = ?m s g" using rep by (auto simp: vmem_rep_def)
  then have r: "sint (word_of_int r :: u32) = r" "contents s g (word_of_int r) = Some b"
    using m by (auto split: if_splits)
  obtain s' g' where s': "MtReport_FreeVmem clk (word_of_int r) s = Some (0, s')" "vmem_wf s' g'"
    "contents s' g' = (contents s g)(word_of_int r := None)"
    using MtReport_FreeVmem_contents [OF g(1) r(2)] by blast
  have "?m s' g' = m(r := None)"
  proof
    fix k
    have "word_of_int k \<noteq> (word_of_int r :: u32)" if "sint (word_of_int k :: u32) = k" "k \<noteq> r"
      using that r(1) by metis
    then show "?m s' g' k = (m(r := None)) k" using s'(3) r(1) by (auto simp: g(2))
  qed
  moreover have "vmem_rep s' (?m s' g')" using s'(2) by (auto simp: vmem_rep_def)
  ultimately have "vmem_rep s' (m(r := None))" by simp
  then show "\<exists>s'. map_option snd (MtReport_FreeVmem clk (word_of_int r) s) = Some s' \<and> vmem_rep s' (m(r := None))"
    using s'(1) by simp
qed

end
