(* ===== verification/Vmem_Props.thy ===== *)
theory Vmem_Props
  imports Vmem_Store
begin

text \<open>
  The properties of the string store of \<open>mt_vmem.c\<close>, with witnesses on a store whose pools
  have four slots each.
\<close>

definition demo_pool :: "nat \<Rightarrow> VmemPool" where
  "demo_pool len = VMEM_CREATE_INIT_SHM 4 \<lparr>wNodeCount = 0, wNodeUsed = 0, wFreeNodeIndex = 0, bUseFlag = 0,
     wScanFreeIndex = 0, dwUseFlagStartTime = 0, vp_slots = 4,
     vp_nodes = (\<lambda>_. \<lparr>wNextNodeIndex = 0, bDataLen = 0, sDataBuf = replicate len 0\<rparr>)\<rparr>"

definition demo_vmem :: Vmem where
  "demo_vmem = \<lparr>cIsInit = 1, cIsVmemInit = 1, vm_attached = True, shm_cIsVmemInit = 1,
     vm_pool = (\<lambda>len i. demo_pool len), vm_tick = 0\<rparr>"

definition demo_clk :: "nat \<Rightarrow> u32" where
  "demo_clk n = 7"

definition demo_ghost :: ghost where
  "demo_ghost len i = ([1, 2, 3], [], [])"

lemma demo_pool_wf: "pool_wf len (demo_pool len) [1, 2, 3] [] []"
  unfolding demo_pool_def
  using VMEM_CREATE_INIT_SHM_wf [of "\<lparr>wNodeCount = 0, wNodeUsed = 0, wFreeNodeIndex = 0, bUseFlag = 0,
     wScanFreeIndex = 0, dwUseFlagStartTime = 0, vp_slots = 4,
     vp_nodes = (\<lambda>_. \<lparr>wNextNodeIndex = 0, bDataLen = 0, sDataBuf = replicate len 0\<rparr>)\<rparr>" 4 len]
  by (simp add: buf_ok_def upt_conv_Cons)

lemma demo_vmem_wf: "vmem_wf demo_vmem demo_ghost"
  by (simp add: vmem_wf_def demo_vmem_def pool_rep_def demo_ghost_def demo_pool_wf)

lemma contents_empty:
  assumes "\<And>len i. len \<in> set vmem_lens \<Longrightarrow> i < VMEM_SHM_COUNT \<Longrightarrow> fst (snd (g len i)) = []"
  shows "contents v g h = None"
  using assms by (auto simp: contents_def fam_contents_def lookup_def split: prod.splits)

lemma demo_vmem_rep: "vmem_rep demo_vmem (\<lambda>_. None)"
proof -
  have "contents demo_vmem demo_ghost h = None" for h by (rule contents_empty) (simp add: demo_ghost_def)
  then show ?thesis
    unfolding vmem_rep_def using demo_vmem_wf by (intro exI [of _ demo_ghost]) (simp add: fun_eq_iff)
qed

lemma demo_storable: "storable [1, 2, 3]" "storable (replicate 20 9)"
  by (simp_all add: storable_def VMEM_MAX_DATA_LEN_def)

subsection \<open>The store\<close>

text \<open>
  C23. \<open>MtReport_SaveToVmem\<close> always returns for data of 1 to 65000 bytes. A negative result leaves
  everything stored as it was; otherwise the result is an index that was not in use, under
  which \<open>MtReport_GetFromVmem_Local\<close> returns exactly the saved bytes, and every string stored
  before is still there.
\<close>

theorem SaveToVmem_stores:
  assumes "vmem_rep v m" "storable d"
  shows "\<exists>r v'. MtReport_SaveToVmem clk d v = Some (r, v') \<and>
    (if r < 0 then vmem_rep v' m
     else m r = None \<and> vmem_rep v' (m(r \<mapsto> d)) \<and> MtReport_GetFromVmem_Local (word_of_int r) v' = Some (Some d))"
  using vm.save_law [OF assms, of clk] vm.save_then_fetch [OF assms, of clk] by force

theorem SaveToVmem_stores_witness:
  "\<exists>r v'. MtReport_SaveToVmem demo_clk [1, 2, 3] demo_vmem = Some (r, v') \<and>
    (if r < 0 then vmem_rep v' (\<lambda>_. None)
     else vmem_rep v' [r \<mapsto> [1, 2, 3]] \<and>
       MtReport_GetFromVmem_Local (word_of_int r) v' = Some (Some [1, 2, 3]))"
  using SaveToVmem_stores [OF demo_vmem_rep demo_storable(1), of demo_clk] by metis

text \<open>
  C24. Saving fails for lack of space or contention only: when some pool of some length has its
  flag free and enough free nodes for the data, the result is an index.
\<close>

theorem SaveToVmem_succeeds:
  assumes "vmem_wf v g" "storable d" "len \<in> set vmem_lens" "i < VMEM_SHM_COUNT"
    and "bUseFlag (vm_pool v len i) = 0" "enough (vm_pool v len i) (need_count len (length d))"
  shows "\<exists>r v'. MtReport_SaveToVmem clk d v = Some (r, v') \<and> 0 \<le> r"
  using MtReport_SaveToVmem_outcome [OF assms(1,2), of clk] assms(3-6) by (force simp: refuses_def)

theorem SaveToVmem_succeeds_witness:
  "\<exists>r v'. MtReport_SaveToVmem demo_clk [1, 2, 3] demo_vmem = Some (r, v') \<and> 0 \<le> r"
  by (rule SaveToVmem_succeeds [OF demo_vmem_wf demo_storable(1), of 16 0])
    (simp_all add: vmem_lens_def VMEM_SHM_COUNT_def demo_vmem_def demo_pool_def VMEM_CREATE_INIT_SHM_def
      enough_def need_count_def)

text \<open>
  C25. \<open>MtReport_FreeVmem\<close> on an index in use returns, never fails its assertion, whether it gets
  the pool's flag or not, and removes exactly that string: every other one can still be read.
\<close>

theorem FreeVmem_removes:
  assumes "vmem_rep v m" "m r = Some d"
  shows "\<exists>v'. map_option snd (MtReport_FreeVmem clk (word_of_int r) v) = Some v' \<and> vmem_rep v' (m(r := None)) \<and>
    (\<forall>q c. q \<noteq> r \<longrightarrow> m q = Some c \<longrightarrow> storable c \<longrightarrow> MtReport_GetFromVmem_Local (word_of_int q) v' = Some (Some c))"
  using vm.release_law [OF assms, of clk] vm.release_keeps_others [OF assms, of _ _ clk] by fastforce

theorem FreeVmem_removes_witness:
  "\<exists>r v v'. MtReport_SaveToVmem demo_clk [1, 2, 3] demo_vmem = Some (r, v) \<and>
    map_option snd (MtReport_FreeVmem demo_clk (word_of_int r) v) = Some v' \<and> vmem_rep v' (\<lambda>_. None)"
proof -
  obtain r v where 1: "MtReport_SaveToVmem demo_clk [1, 2, 3] demo_vmem = Some (r, v)" "\<not> r < 0"
    using MtReport_SaveToVmem_outcome [OF demo_vmem_wf demo_storable(1), of demo_clk]
    by (force simp: refuses_def vmem_lens_def VMEM_SHM_COUNT_def demo_vmem_def demo_pool_def
        VMEM_CREATE_INIT_SHM_def enough_def need_count_def)
  have "vmem_rep v [r \<mapsto> [1, 2, 3]]"
    using vm.save_then_fetch(2) [OF demo_vmem_rep demo_storable(1) 1(1)] 1(2) by simp
  from FreeVmem_removes [OF this, of r "[1, 2, 3]" demo_clk] 1 show ?thesis by fastforce
qed

text \<open>
  A buffer that is too short for the string is reported with \<open>-4\<close>; a long enough one gets the
  string with return code 0.
\<close>

theorem GetFromVmem_buffer:
  assumes "vmem_wf v g" "contents v g h = Some d"
  shows "if length d \<le> room then MtReport_GetFromVmem h room v = Some (0, d)
    else \<exists>out. MtReport_GetFromVmem h room v = Some (-4, out)"
  using MtReport_GetFromVmem_contents [OF assms, of room] by simp

lemma demo_saved:
  "\<exists>v g h. vmem_wf v g \<and> contents v g h = Some [1, 2, 3]"
  using MtReport_SaveToVmem_outcome [OF demo_vmem_wf demo_storable(1), of demo_clk]
  by (force simp: save_outcome_def refuses_def vmem_lens_def VMEM_SHM_COUNT_def demo_vmem_def demo_pool_def
      VMEM_CREATE_INIT_SHM_def enough_def need_count_def)

theorem GetFromVmem_buffer_witness:
  "\<exists>v h out. MtReport_GetFromVmem h 3 v = Some (0, [1, 2, 3]) \<and> MtReport_GetFromVmem h 2 v = Some (-4, out)"
proof -
  obtain v g h where v: "vmem_wf v g" "contents v g h = Some [1, 2, 3]" using demo_saved by blast
  from GetFromVmem_buffer [OF v, of 3] GetFromVmem_buffer [OF v, of 2] show ?thesis by auto
qed

text \<open>
  The pool number of an index is checked with \<open>>\<close> where \<open>>=\<close> is meant: for the number
  \<open>VMEM_SHM_COUNT\<close> and a valid node length \<open>MtReport_GetFromVmem\<close> reads behind the pool table,
  while \<open>MtReport_FreeVmem\<close> refuses the same index with \<open>-1\<close>.
\<close>

theorem GetFromVmem_pool_off_by_one:
  assumes "cIsInit v \<noteq> 0" "len \<in> set vmem_lens"
  shows "MtReport_GetFromVmem (VMEM_MAKE_IDEX32 len VMEM_SHM_COUNT f) room v = None \<and>
    MtReport_FreeVmem clk (VMEM_MAKE_IDEX32 len VMEM_SHM_COUNT f) v = Some (-1, v)"
proof -
  have "VMEM_PARSE_IDEX32 (VMEM_MAKE_IDEX32 len VMEM_SHM_COUNT f) = (len, VMEM_SHM_COUNT, f)"
    using vmem_lens_bounds [OF assms(2)] by (intro VMEM_PARSE_MAKE) (auto simp: VMEM_SHM_COUNT_def)
  then show ?thesis using assms by (simp add: MtReport_GetFromVmem_def MtReport_FreeVmem_def)
qed

theorem GetFromVmem_pool_off_by_one_witness:
  "MtReport_GetFromVmem (VMEM_MAKE_IDEX32 16 VMEM_SHM_COUNT 1) 10 demo_vmem = None \<and>
   MtReport_FreeVmem demo_clk (VMEM_MAKE_IDEX32 16 VMEM_SHM_COUNT 1) demo_vmem = Some (-1, demo_vmem)"
  by (rule GetFromVmem_pool_off_by_one) (simp_all add: demo_vmem_def vmem_lens_def)

text \<open>Packing and unpacking an index are inverse to each other, and a packed index is not negative.\<close>

theorem index_packing:
  assumes "len < 256" "t < VMEM_SHM_COUNT"
  shows "VMEM_PARSE_IDEX32 (VMEM_MAKE_IDEX32 len t f) = (len, t, f) \<and>
    0 \<le> sint (VMEM_MAKE_IDEX32 len t f) \<and>
    (\<forall>h. VMEM_PARSE_IDEX32 h = (len, t, f) \<longrightarrow> h = VMEM_MAKE_IDEX32 len t f)"
proof (intro conjI allI impI)
  show "VMEM_PARSE_IDEX32 (VMEM_MAKE_IDEX32 len t f) = (len, t, f)"
    using assms by (intro VMEM_PARSE_MAKE) (simp_all add: VMEM_SHM_COUNT_def)
  show "0 \<le> sint (VMEM_MAKE_IDEX32 len t f)" using assms by (intro VMEM_MAKE_sint) (simp_all add: VMEM_SHM_COUNT_def)
  show "h = VMEM_MAKE_IDEX32 len t f" if "VMEM_PARSE_IDEX32 h = (len, t, f)" for h
    using VMEM_MAKE_PARSE [OF that] by (rule sym)
qed

theorem index_packing_witness: "VMEM_PARSE_IDEX32 (VMEM_MAKE_IDEX32 64 4 777) = (64, 4, 777)"
  using index_packing [of 64 4 777] by (simp add: VMEM_SHM_COUNT_def)

text \<open>
  C29. \<open>MtReport_InitVmem\<close> in a process that has attached a new segment and has not initialised the store (the pools
  have the sizes of the layout, whatever bytes are in them) returns 0 and marks process and segment. It makes the pools an empty
  store: once \<open>MtReport_Init_ByKey\<close> has set \<open>cIsInit\<close>, which it does afterwards and without which every operation is
  refused, no index is in use, and every pool of \<open>n\<close> slots has its \<open>n - 1\<close> nodes free.
\<close>

theorem InitVmem_empty:
  assumes "cIsVmemInit v = 0" "vm_attached v" "shm_cIsVmemInit v = 0"
    and "\<And>len i. len \<in> set vmem_lens \<Longrightarrow> i < VMEM_SHM_COUNT \<Longrightarrow>
      vp_slots (vm_pool v len i) = node_count len \<and> buf_ok len (vm_pool v len i)"
  shows "\<exists>v'. MtReport_InitVmem v = (0, v') \<and> cIsVmemInit v' = 1 \<and> shm_cIsVmemInit v' = 1 \<and> cIsInit v' = cIsInit v \<and>
    vmem_rep (v'\<lparr>cIsInit := 1\<rparr>) (\<lambda>_. None) \<and>
    (\<forall>len\<in>set vmem_lens. \<forall>i<VMEM_SHM_COUNT. unat (wNodeUsed (vm_pool v' len i)) = 1)"
proof -
  define g :: ghost where "g len i = (map of_nat [1..<node_count len], [], [])" for len i
  let ?v = "snd (MtReport_InitVmem v)"
  have run: "MtReport_InitVmem v = (0, ?v)" "cIsVmemInit ?v = 1" "shm_cIsVmemInit ?v = 1" "cIsInit ?v = cIsInit v"
    using assms(1-3) by (simp_all add: MtReport_InitVmem_def Let_def)
  have pool: "vm_pool ?v len i = VMEM_CREATE_INIT_SHM (node_count len) (vm_pool v len i)"
    if "len \<in> set vmem_lens" "i < VMEM_SHM_COUNT" for len i
    using assms(1-3) that by (simp add: MtReport_InitVmem_def Let_def)
  have nc: "2 \<le> node_count len" "node_count len + 1 < 2 ^ 16" for len by (simp_all add: node_count_def)
  have wf: "vmem_wf (?v\<lparr>cIsInit := 1\<rparr>) g"
    unfolding vmem_wf_def using assms(4) pool VMEM_CREATE_INIT_SHM_wf [OF _ nc] by (auto simp: pool_rep_def g_def)
  have "contents (?v\<lparr>cIsInit := 1\<rparr>) g h = None" for h by (rule contents_empty) (simp add: g_def)
  then have "vmem_rep (?v\<lparr>cIsInit := 1\<rparr>) (\<lambda>_. None)"
    unfolding vmem_rep_def using wf by (intro exI [of _ g]) (simp add: fun_eq_iff)
  moreover have "unat (wNodeUsed (vm_pool ?v len i)) = 1" if "len \<in> set vmem_lens" "i < VMEM_SHM_COUNT" for len i
    using pool [OF that] by (simp add: VMEM_CREATE_INIT_SHM_def)
  ultimately show ?thesis using run by auto
qed

definition demo_raw_vmem :: Vmem where
  "demo_raw_vmem = \<lparr>cIsInit = 0, cIsVmemInit = 0, vm_attached = True, shm_cIsVmemInit = 0,
     vm_pool = (\<lambda>len i. (demo_pool len)\<lparr>vp_slots := node_count len\<rparr>), vm_tick = 0\<rparr>"

lemma demo_raw_pool:
  "vp_slots (vm_pool demo_raw_vmem len i) = node_count len \<and> buf_ok len (vm_pool demo_raw_vmem len i)"
  by (simp add: demo_raw_vmem_def demo_pool_def VMEM_CREATE_INIT_SHM_def buf_ok_def)

theorem InitVmem_empty_witness:
  "\<exists>v'. MtReport_InitVmem demo_raw_vmem = (0, v') \<and> cIsInit v' = 0 \<and> vmem_rep (v'\<lparr>cIsInit := 1\<rparr>) (\<lambda>_. None)"
proof -
  have flags: "cIsInit demo_raw_vmem = 0" "cIsVmemInit demo_raw_vmem = 0" "vm_attached demo_raw_vmem"
    "shm_cIsVmemInit demo_raw_vmem = 0"
    by (simp_all add: demo_raw_vmem_def)
  show ?thesis using InitVmem_empty [OF flags(2-4) demo_raw_pool] flags(1) by auto
qed

text \<open>
  C30. A scan step of \<open>MtReport_ScanNode\<close> returns, never fails its assertion, and keeps every stored
  string.
\<close>

theorem ScanNode_Inner_keeps:
  assumes "vmem_wf v g" "iNodeLen \<in> set vmem_lens"
  shows "\<exists>r v' g'. MtReport_ScanNode_Inner clk iNodeLen iArrIdx ni iScanCount v = Some (r, v') \<and>
    vmem_wf v' g' \<and> contents v' g' = contents v g"
proof (cases "VMEM_SHM_COUNT \<le> iArrIdx")
  case True
  then show ?thesis using assms by (auto simp: MtReport_ScanNode_Inner_def)
next
  case False
  then have i: "iArrIdx < VMEM_SHM_COUNT" by simp
  obtain fl bl dead where g: "g iNodeLen iArrIdx = (fl, bl, dead)" by (metis prod_cases3)
  note pw = vmem_wf_pool [OF assms i g]
  obtain b n p where tf: "take_flag clk (vm_tick v, vm_pool v iNodeLen iArrIdx) = (b, n, p)" by (metis prod_cases3)
  note tw = take_flag_wf [OF tf]
  have upd: "\<exists>g'. vmem_wf (set_pool iNodeLen iArrIdx (n', q) v) g' \<and>
      contents (set_pool iNodeLen iArrIdx (n', q) v) g' = contents v g"
    if q: "pool_wf iNodeLen q fl' bl dead'"
      "\<And>xs. xs \<in> set bl \<Longrightarrow> blob_data q xs = blob_data (vm_pool v iNodeLen iArrIdx) xs" for n' q fl' dead'
    using vmem_wf_update [OF assms(1) q(1)] contents_same [where g = g, OF assms(2) i g q(2)] by blast
  let ?p = "p\<lparr>dwUseFlagStartTime := clk n\<rparr>"
  have p: "pool_wf iNodeLen ?p fl bl dead" using tw pw by simp
  obtain j q fl' dead' where q: "scan_loop iScanCount ni ?p = Some (j, q)"
    "collects iNodeLen ?p fl bl dead q fl' dead'"
    using scan_loop_collects [OF p] by blast
  have "blob_data (q\<lparr>bUseFlag := 0\<rparr>) xs = blob_data (vm_pool v iNodeLen iArrIdx) xs" if "xs \<in> set bl" for xs
    using collects_blob_data [OF p q(2) that] tw(3) by (simp add: blob_data_def)
  moreover have "pool_wf iNodeLen (q\<lparr>bUseFlag := 0\<rparr>) fl' bl dead'" using q(2) by (simp add: collects_def)
  ultimately show ?thesis
    using upd [of "q\<lparr>bUseFlag := 0\<rparr>" fl' dead' "Suc n"] upd [of p fl dead n] tw pw q(1) tf assms False
    by (cases b) (auto simp: MtReport_ScanNode_Inner_def stamp_flag_def Let_def)
qed

theorem ScanNode_Inner_keeps_witness:
  "\<exists>r v' g'. MtReport_ScanNode_Inner demo_clk 16 0 0 1000 demo_vmem = Some (r, v') \<and>
    vmem_wf v' g' \<and> contents v' g' = contents demo_vmem demo_ghost"
  by (rule ScanNode_Inner_keeps [OF demo_vmem_wf]) (simp add: vmem_lens_def)

end
