(* ===== verification/Plugin.thy ===== *)
theory Plugin
  imports Prelude
begin

text \<open>
  The plugin table of the shared segment (\<open>TInnerPlusInfo\<close> in \<open>language/c_cpp/mt_log.h\<close>), the
  entry of the calling process, and byte buffers that hold C strings. Attribute reports and
  log writes stamp the entry; \<open>MtReport_Plus_Hello\<close> is the plugin's sign of life.
\<close>

subsection \<open>C strings in buffers\<close>

text \<open>The string a buffer holds: its bytes in front of the first NUL.\<close>

definition c_str :: "u8 list \<Rightarrow> u8 list" where
  "c_str b = takeWhile (\<lambda>c. c \<noteq> 0) b"

text \<open>
  \<open>strncpy(b, s, n)\<close> for a NUL-free string \<open>s\<close> and a buffer of more than \<open>n\<close> bytes: at most
  \<open>n\<close> bytes, padded with NULs up to \<open>n\<close>.
\<close>

definition strncpy :: "nat \<Rightarrow> u8 list \<Rightarrow> u8 list \<Rightarrow> u8 list" where
  "strncpy n s b = take n s @ replicate (n - length s) 0 @ drop n b"

text \<open>\<open>strcpy(b, s)\<close>: the string and its NUL have to fit.\<close>

definition strcpy :: "u8 list \<Rightarrow> u8 list \<Rightarrow> u8 list option" where
  "strcpy s b = (if length s < length b then Some (s @ 0 # drop (Suc (length s)) b) else None)"

lemma c_str_nul_free:
  assumes "0 \<notin> set s"
  shows "c_str (s @ 0 # r) = s" "c_str s = s"
proof -
  have s: "\<forall>c\<in>set s. c \<noteq> 0" using assms by metis
  show "c_str (s @ 0 # r) = s" using s by (simp add: c_str_def takeWhile_append2)
  show "c_str s = s" using s by (simp add: c_str_def takeWhile_eq_all_conv)
qed

lemma nul_free_take: "0 \<notin> set s \<Longrightarrow> 0 \<notin> set (take n s)"
  by (meson in_set_takeD)

lemma c_str_strncpy:
  assumes "0 \<notin> set s" "n < length b" "b ! n = 0"
  shows "c_str (strncpy n s b) = take n s" "length (strncpy n s b) = length b" "strncpy n s b ! n = 0"
proof -
  have b: "drop n b = 0 # drop (Suc n) b" using assms by (metis Cons_nth_drop_Suc)
  have "\<exists>r. replicate (n - length s) 0 @ drop n b = 0 # r" using b by (cases "n - length s") auto
  then show "c_str (strncpy n s b) = take n s"
    using c_str_nul_free(1) [OF nul_free_take [OF assms(1)]] by (auto simp: strncpy_def)
  show "length (strncpy n s b) = length b" using assms(2) by (simp add: strncpy_def)
  have "n = length (take n s @ replicate (n - length s) (0 :: u8))" by simp
  then show "strncpy n s b ! n = 0" unfolding strncpy_def b by (metis append.assoc nth_append_length)
qed

subsection \<open>Plugins\<close>

record TInnerPlusInfo =
  szPlusName :: string
  iPluginId :: u32
  szVersion :: string
  iLogConfigId :: u32
  iLibVerNum :: u32
  dwLastReportAttrTime :: u32
  dwLastReportLogTime :: u32
  dwPluginStartTime :: u32
  dwLastReportSelfInfoTime :: u32
  dwLastHelloTime :: u32
  bCheckRet :: u8
  dwCfgFileLastModTime :: u32

definition MAX_INNER_PLUS_COUNT :: nat where
  "MAX_INNER_PLUS_COUNT = 200"

text \<open>
  \<open>if(iPluginIndex >= 0 && iPluginIndex < MAX_INNER_PLUS_COUNT)\<close>: the entry the process owns; the
  index is an \<open>int\<close>.
\<close>

definition plugin_slot :: "u32 \<Rightarrow> nat option" where
  "plugin_slot idx = (if 0 \<le> sint idx \<and> sint idx < int MAX_INNER_PLUS_COUNT then Some (nat (sint idx)) else None)"

definition upd_plugin :: "u32 \<Rightarrow> (TInnerPlusInfo \<Rightarrow> TInnerPlusInfo) \<Rightarrow> TInnerPlusInfo list \<Rightarrow> TInnerPlusInfo list" where
  "upd_plugin idx f ps = (case plugin_slot idx of
       Some i \<Rightarrow> if iPluginId (ps ! i) \<noteq> 0 then ps[i := f (ps ! i)] else ps
     | None \<Rightarrow> ps)"

text \<open>\<open>now\<close> is what \<open>time(NULL)\<close> returns.\<close>

definition MtReport_Plus_Hello :: "u32 \<Rightarrow> u32 \<Rightarrow> u32 \<Rightarrow> TInnerPlusInfo list \<Rightarrow> int \<times> TInnerPlusInfo list" where
  "MtReport_Plus_Hello now idx dwTime ps = (case plugin_slot idx of
       Some i \<Rightarrow>
         if iPluginId (ps ! i) \<noteq> 0 then
           if bCheckRet (ps ! i) \<noteq> 0 then (1, ps)
           else (0, ps[i := (ps ! i)\<lparr>dwLastHelloTime := (if dwTime = 0 then now else dwTime)\<rparr>])
         else (2, ps)
     | None \<Rightarrow> (3, ps))"

lemma length_upd_plugin [simp]: "length (upd_plugin idx f ps) = length ps"
  by (simp add: upd_plugin_def split: option.split)

end
