(* ===== verification/Attr.thy ===== *)
theory Attr
  imports Hash_Init Plugin
begin

text \<open>
  \<open>language/c_cpp/mt_attr.c\<close>: counters that programs report under a number (attributes) or under a
  number and a string. Attributes live in five hash tables of the shared segment, with a list
  of 200 entries (\<open>spec\<close>) for what the tables cannot take; string attributes live in one table.

  Counter values are \<open>int32_t\<close>; \<open>+=\<close> on them is the 32-bit addition of the machine.
\<close>

subsection \<open>Nodes\<close>

record AttrNode =
  bSyncProcess :: u8
  iAttrID :: u32
  iCurValue :: u32

record StrAttrNode =
  sa_bSyncProcess :: u8
  szStrInfo :: "u8 list"
  iStrAttrId :: u32
  iStrVal :: u32

definition MTATTR_HASH_NODE :: u32 where
  "MTATTR_HASH_NODE = 2000"

definition MTATTR_SHM_DEF_COUNT :: nat where
  "MTATTR_SHM_DEF_COUNT = 5"

definition MTATTR_SPECIAL_COUNT :: nat where
  "MTATTR_SPECIAL_COUNT = 200"

text \<open>\<open>sizeof\<close> of the packed structures.\<close>

definition sizeof_AttrNode :: nat where
  "sizeof_AttrNode = 9"

definition sizeof_StrAttrNode :: nat where
  "sizeof_StrAttrNode = 74"

definition mtreport_str_attr_cmp :: "StrAttrNode \<Rightarrow> StrAttrNode \<Rightarrow> int" where
  "mtreport_str_attr_cmp pKey pNode =
     (if iStrAttrId pKey = iStrAttrId pNode \<and> c_str (szStrInfo pKey) = c_str (szStrInfo pNode) then 0 else 1)"

definition mtreport_attr_cmp :: "AttrNode \<Rightarrow> AttrNode \<Rightarrow> int" where
  "mtreport_attr_cmp pKey pNode = (if iAttrID pKey = iAttrID pNode then 0 else 1)"

text \<open>
  The part of \<open>g_mtReport\<close> and of the segment that attributes use. Each hash table is the
  descriptor of the process with the memory behind it; \<open>szAttrList\<close> and \<open>szStrAttrBuf\<close> are the
  addresses of the table memory in the segment.
\<close>

record MtAttr =
  at_attached :: bool
  cIsAttrInit :: u8
  shm_cIsAttrInit :: int
  shm_cIsStrAttrInit :: int
  szAttrList :: nat
  szStrAttrBuf :: nat
  stAttrHash :: "AttrNode HashWorld list"
  stStrAttrHash :: "StrAttrNode HashWorld"
  iAttrSpecialCount :: u32
  sArrtListSpec :: "AttrNode list"
  wAttrReportFailed :: u16
  dwAttrReportBySpecCount :: u32
  dwAttrReportCount :: u32
  iPluginIndex :: u32
  stPluginInfo :: "TInnerPlusInfo list"

text \<open>What the operating system does during a call on table \<open>j\<close> and on the string table.\<close>

record AttrEnv =
  ae_tab :: "nat \<Rightarrow> AttrNode HashEnv"
  ae_str :: "StrAttrNode HashEnv"
  ae_now :: u32

subsection \<open>Initialisation\<close>

definition attr_table_bytes :: nat where
  "attr_table_bytes = sizeof_HashTableHead
     + unat MTATTR_HASH_NODE * STATIC_HASH_ROW_MAX * (sizeof_HashNodeHead + sizeof_AttrNode)"

text \<open>The loop over the five tables from table \<open>i\<close> on; \<open>False\<close> when one of them failed.\<close>

fun init_tables :: "AttrEnv \<Rightarrow> nat \<Rightarrow> int \<Rightarrow> nat \<Rightarrow> AttrNode HashWorld list \<Rightarrow> (bool \<times> AttrNode HashWorld list) option" where
  "init_tables env base shmInit i [] = Some (True, [])"
| "init_tables env base shmInit i (w # ws) = do {
     (rc, w) \<leftarrow> MtReport_CreateHashTable (ae_tab env i) (base + i * attr_table_bytes) (hw_seg w) shmInit
       (of_nat sizeof_AttrNode) MTATTR_HASH_NODE (Some mtreport_attr_cmp) False w;
     if rc < 0 then Some (False, w # ws)
     else do {
       (ok, ws) \<leftarrow> init_tables env base shmInit (Suc i) ws;
       Some (ok, w # ws)
     }
   }"

definition MtReport_InitAttr :: "AttrEnv \<Rightarrow> MtAttr \<Rightarrow> (int \<times> MtAttr) option" where
  "MtReport_InitAttr env s =
     (if cIsAttrInit s \<noteq> 0 then Some (1, s)
      else if \<not> at_attached s then Some (-101, s)
      else do {
        (ok, ws) \<leftarrow> init_tables env (szAttrList s) (shm_cIsAttrInit s) 0 (stAttrHash s);
        let s = s\<lparr>stAttrHash := ws\<rparr>;
        if \<not> ok then Some (-1, s)
        else do {
          let s = s\<lparr>shm_cIsAttrInit := 1\<rparr>;
          (rc, w) \<leftarrow> MtReport_CreateHashTable (ae_str env) (szStrAttrBuf s) (hw_seg (stStrAttrHash s))
            (shm_cIsStrAttrInit s) (of_nat sizeof_StrAttrNode) MTATTR_HASH_NODE (Some mtreport_str_attr_cmp) False
            (stStrAttrHash s);
          let s = s\<lparr>stStrAttrHash := w\<rparr>;
          if rc < 0 then Some (-2, s)
          else Some (0, s\<lparr>shm_cIsStrAttrInit := 1, cIsAttrInit := 1\<rparr>)
        }
      })"

subsection \<open>The list for special reports\<close>

text \<open>
  The search loop, from entry \<open>i\<close> of \<open>n\<close> on. The count in the segment may exceed the array; the
  loop then reads behind it (\<open>None\<close>).
\<close>

function spec_find :: "u32 \<Rightarrow> nat \<Rightarrow> nat \<Rightarrow> AttrNode list \<Rightarrow> nat option" where
  "spec_find attr i n xs =
     (if i < n then
        if length xs \<le> i then None
        else if iAttrID (xs ! i) = attr then Some i else spec_find attr (Suc i) n xs
      else Some i)"
  by pat_completeness auto
termination
  by (relation "measure (\<lambda>(attr, i, n, xs). n - i)") auto

declare spec_find.simps [simp del]

definition upd_spec :: "int \<Rightarrow> (AttrNode \<Rightarrow> AttrNode) \<Rightarrow> AttrNode list \<Rightarrow> AttrNode list option" where
  "upd_spec i f xs = (if 0 \<le> i \<and> nat i < length xs then Some (xs[nat i := f (xs ! nat i)]) else None)"

text \<open>\<open>MtReport_Attr_Spec\<close> behind its guard.\<close>

definition attr_spec_body :: "u32 \<Rightarrow> u32 \<Rightarrow> MtAttr \<Rightarrow> (int \<times> MtAttr) option" where
  "attr_spec_body attr iValue s =
     (let s = s\<lparr>dwAttrReportBySpecCount := dwAttrReportBySpecCount s + 1\<rparr>; c = sint (iAttrSpecialCount s) in do {
        i \<leftarrow> spec_find attr 0 (nat c) (sArrtListSpec s);
        if c \<le> int i then
          let s = s\<lparr>iAttrSpecialCount := iAttrSpecialCount s + 1\<rparr> in
          if int MTATTR_SPECIAL_COUNT \<le> c then Some (-1, s\<lparr>wAttrReportFailed := wAttrReportFailed s + 1\<rparr>)
          else do {
            xs \<leftarrow> upd_spec c (\<lambda>n. n\<lparr>iAttrID := attr, iCurValue := iValue\<rparr>) (sArrtListSpec s);
            Some (0, s\<lparr>sArrtListSpec := xs\<rparr>)
          }
        else do {
          xs \<leftarrow> upd_spec (int i) (\<lambda>n. n\<lparr>iCurValue := iCurValue n + iValue\<rparr>) (sArrtListSpec s);
          Some (0, s\<lparr>sArrtListSpec := xs\<rparr>)
        }
      })"

definition MtReport_Attr_Spec :: "AttrEnv \<Rightarrow> u32 \<Rightarrow> u32 \<Rightarrow> MtAttr \<Rightarrow> (int \<times> MtAttr) option" where
  "MtReport_Attr_Spec env attr iValue s = do {
     (rc, s) \<leftarrow> MtReport_InitAttr env s;
     if rc < 0 \<or> sint attr \<le> 0 \<or> sint iValue \<le> 0 then Some (-1, s)
     else attr_spec_body attr iValue s
   }"

text \<open>
  The hash functions report trouble of their own by calling \<open>MtReport_Attr_Spec\<close>. Their model
  records these calls; here they take effect. They touch nothing the hash function reads.
\<close>

fun apply_events :: "AttrEnv \<Rightarrow> hash_event list \<Rightarrow> MtAttr \<Rightarrow> MtAttr option" where
  "apply_events env [] s = Some s"
| "apply_events env (AttrSpec a v # es) s = do {
     (rc, s) \<leftarrow> MtReport_Attr_Spec env (word_of_int a) (word_of_int v) s;
     apply_events env es s
   }"
| "apply_events env (Warned u n # es) s = apply_events env es s"

subsection \<open>Reporting into one table\<close>

text \<open>
  What \<open>MtReport_Attr_Add\<close> and its siblings do with one table: look the key up; a node that is
  there is changed by \<open>found\<close>; else a free node is claimed through its \<open>bSyncProcess\<close> byte (a
  process that left it in the state \<open>>= 10\<close> is ignored), filled by \<open>new\<close> and inserted; a node that
  another process is filling is counted up and the caller sleeps. The accessors \<open>sync\<close> and
  \<open>set_sync\<close> are those of the node type.
\<close>

datatype report_result = Reported | Busy | NoRoom

definition report_step :: "'d HashEnv \<Rightarrow> ('d \<Rightarrow> u8) \<Rightarrow> (u8 \<Rightarrow> 'd \<Rightarrow> 'd) \<Rightarrow> 'd \<Rightarrow> u32 \<Rightarrow> ('d \<Rightarrow> 'd) \<Rightarrow> ('d \<Rightarrow> 'd)
    \<Rightarrow> u32 \<Rightarrow> 'd HashWorld \<Rightarrow> (report_result \<times> u32 \<times> 'd HashWorld) option" where
  "report_step env sync set_sync stRecord dwShortKey found new isFind w = do {
     (pNode, f, w) \<leftarrow> HashTableSearchEx stRecord dwShortKey (Some isFind) w;
     isFind \<leftarrow> f;
     if isFind \<noteq> 0 then do {
       p \<leftarrow> pNode;
       w \<leftarrow> updData p found w;
       Some (Reported, isFind, w)
     }
     else case pNode of
       None \<Rightarrow> Some (NoRoom, isFind, w)
     | Some p \<Rightarrow> do {
         d \<leftarrow> rdData w p;
         if sync d = 0 \<or> 10 \<le> sync d then do {
           w \<leftarrow> updData p (\<lambda>d. if sync d = 0 then set_sync 1 d else d) w;
           w \<leftarrow> updData p new w;
           (rc, w) \<leftarrow> InsertHashNode env p w;
           Some (Reported, isFind, w)
         }
         else do {
           w \<leftarrow> updData p (\<lambda>d. set_sync (sync d + 1) d) w;
           Some (Busy, isFind, usleep env w)
         }
       }
   }"

subsection \<open>Attributes\<close>

definition set_bSyncProcess :: "u8 \<Rightarrow> AttrNode \<Rightarrow> AttrNode" where
  "set_bSyncProcess b n = n\<lparr>bSyncProcess := b\<rparr>"

text \<open>
  The tables from \<open>j\<close> on, with the jumps back to \<open>check_again\<close>: \<open>Inr True\<close> when a table took the
  report, \<open>Inr False\<close> when none did, \<open>Inl\<close> when \<open>bCheckCount\<close> exceeded 10.
\<close>

fun attr_tables :: "AttrEnv \<Rightarrow> u32 \<Rightarrow> (AttrNode \<Rightarrow> AttrNode) \<Rightarrow> u32 \<Rightarrow> u8 \<Rightarrow> u32 \<Rightarrow> nat \<Rightarrow> AttrNode HashWorld list
    \<Rightarrow> ((unit + bool) \<times> AttrNode HashWorld list) option" where
  "attr_tables env attr found iValue bCheckCount isFind j [] =
     Some (if 10 < bCheckCount then Inl () else Inr False, [])"
| "attr_tables env attr found iValue bCheckCount isFind j (w # ws) =
     (if 10 < bCheckCount then Some (Inl (), w # ws)
      else do {
        (r, isFind, w) \<leftarrow> report_step (ae_tab env j) bSyncProcess set_bSyncProcess
          \<lparr>bSyncProcess = 0, iAttrID = attr, iCurValue = 0\<rparr> attr found
          (\<lambda>n. n\<lparr>iCurValue := iValue, iAttrID := attr\<rparr>) isFind w;
        case r of
          Reported \<Rightarrow> Some (Inr True, w # ws)
        | Busy \<Rightarrow> do {
            (r, ws) \<leftarrow> attr_tables env attr found iValue (bCheckCount + 1) isFind (Suc j) ws;
            Some (r, w # ws)
          }
        | NoRoom \<Rightarrow> do {
            (r, ws) \<leftarrow> attr_tables env attr found iValue bCheckCount isFind (Suc j) ws;
            Some (r, w # ws)
          }
      })"

text \<open>The calls the tables recorded, and the tables with an empty record.\<close>

definition take_events :: "'d HashWorld \<Rightarrow> 'd HashWorld" where
  "take_events w = w\<lparr>hw_events := []\<rparr>"

text \<open>\<open>MtReport_Attr_Add\<close> and \<open>MtReport_Attr_Set\<close> differ in what they do to a node that is there.\<close>

definition attr_report :: "AttrEnv \<Rightarrow> u32 \<Rightarrow> (AttrNode \<Rightarrow> AttrNode) \<Rightarrow> u32 \<Rightarrow> MtAttr \<Rightarrow> (int \<times> MtAttr) option" where
  "attr_report env attr found iValue s = do {
     (rc, s) \<leftarrow> MtReport_InitAttr env s;
     if rc < 0 \<or> sint attr \<le> 0 \<or> sint iValue \<le> 0 then Some (-1, s)
     else do {
       let s = s\<lparr>dwAttrReportCount := dwAttrReportCount s + 1,
         stPluginInfo := upd_plugin (iPluginIndex s) (\<lambda>p. p\<lparr>dwLastReportAttrTime := ae_now env\<rparr>) (stPluginInfo s)\<rparr>;
       (r, ws) \<leftarrow> attr_tables env attr found iValue 0 0 0 (stAttrHash s);
       s \<leftarrow> apply_events env (concat (map hw_events ws)) (s\<lparr>stAttrHash := map take_events ws\<rparr>);
       case r of
         Inl _ \<Rightarrow> do { (rc, s) \<leftarrow> MtReport_Attr_Spec env 238 1 s; Some (-2, s) }
       | Inr True \<Rightarrow> Some (0, s)
       | Inr False \<Rightarrow> MtReport_Attr_Spec env attr iValue s
     }
   }"

definition MtReport_Attr_Add :: "AttrEnv \<Rightarrow> u32 \<Rightarrow> u32 \<Rightarrow> MtAttr \<Rightarrow> (int \<times> MtAttr) option" where
  "MtReport_Attr_Add env attr iValue s =
     attr_report env attr (\<lambda>n. n\<lparr>iCurValue := iCurValue n + iValue\<rparr>) iValue s"

definition MtReport_Attr_Set :: "AttrEnv \<Rightarrow> u32 \<Rightarrow> u32 \<Rightarrow> MtAttr \<Rightarrow> (int \<times> MtAttr) option" where
  "MtReport_Attr_Set env attr iValue s =
     attr_report env attr (\<lambda>n. n\<lparr>iCurValue := iValue\<rparr>) iValue s"

subsection \<open>String attributes\<close>

text \<open>\<open>*(uint32_t*)pstr\<close> on a little-endian machine; a \<open>char\<close> is signed.\<close>

definition le32 :: "u8 list \<Rightarrow> u32" where
  "le32 b = ucast (b ! 0) OR push_bit 8 (ucast (b ! 1)) OR push_bit 16 (ucast (b ! 2)) OR push_bit 24 (ucast (b ! 3))"

function short_key :: "u32 \<Rightarrow> u8 list \<Rightarrow> u32" where
  "short_key dwKey s =
     (if 4 < length s then short_key (dwKey + le32 (take 4 s)) (drop 4 s)
      else dwKey + sum_list (map scast s))"
  by pat_completeness auto
termination
  by (relation "measure (\<lambda>(k, s). length s)") auto

declare short_key.simps [simp del]

definition GetShortKeyByStr :: "u8 list \<Rightarrow> u32" where
  "GetShortKeyByStr pstr = short_key 0 pstr"

definition set_sa_bSyncProcess :: "u8 \<Rightarrow> StrAttrNode \<Rightarrow> StrAttrNode" where
  "set_sa_bSyncProcess b n = n\<lparr>sa_bSyncProcess := b\<rparr>"

text \<open>\<open>strncpy(szStrInfo, pstr, sizeof(szStrInfo) - 1)\<close> on the 65-byte buffer of a node.\<close>

definition copy_name :: "u8 list \<Rightarrow> u8 list \<Rightarrow> u8 list" where
  "copy_name s b = strncpy 64 s b"

text \<open>The static search record: its last byte is never written and stays NUL.\<close>

definition str_record :: "u32 \<Rightarrow> u8 list \<Rightarrow> StrAttrNode" where
  "str_record attr pstr = \<lparr>sa_bSyncProcess = 0, szStrInfo = copy_name pstr (replicate 65 0), iStrAttrId = attr,
     iStrVal = 0\<rparr>"

text \<open>The jumps back to \<open>check_again\<close>: \<open>Inl\<close> when \<open>bCheckCount\<close> exceeded 10.\<close>

function str_loop :: "AttrEnv \<Rightarrow> u32 \<Rightarrow> u8 list \<Rightarrow> (StrAttrNode \<Rightarrow> StrAttrNode) \<Rightarrow> u32 \<Rightarrow> nat \<Rightarrow> u32 \<Rightarrow> StrAttrNode HashWorld
    \<Rightarrow> ((unit + unit) \<times> StrAttrNode HashWorld) option" where
  "str_loop env attr pstr found iValue bCheckCount isFind w =
     (if 10 < bCheckCount then Some (Inl (), w)
      else let rec = str_record attr pstr in
        case report_step (ae_str env) sa_bSyncProcess set_sa_bSyncProcess rec
            (attr + GetShortKeyByStr (c_str (szStrInfo rec))) found
            (\<lambda>n. n\<lparr>iStrVal := iValue, iStrAttrId := attr, szStrInfo := copy_name pstr (szStrInfo n)\<rparr>) isFind w of
          None \<Rightarrow> None
        | Some (r, isFind, w) \<Rightarrow>
            if r = Busy then str_loop env attr pstr found iValue (Suc bCheckCount) isFind w
            else Some (Inr (), w))"
  by pat_completeness auto
termination
  by (relation "measure (\<lambda>(env, attr, pstr, found, iValue, c, f, w). 11 - c)") auto

declare str_loop.simps [simp del]

definition str_report :: "AttrEnv \<Rightarrow> u32 \<Rightarrow> u8 list \<Rightarrow> (StrAttrNode \<Rightarrow> StrAttrNode) \<Rightarrow> u32 \<Rightarrow> MtAttr \<Rightarrow> (int \<times> MtAttr) option" where
  "str_report env attr pstr found iValue s = do {
     let s = s\<lparr>stPluginInfo := upd_plugin (iPluginIndex s) (\<lambda>p. p\<lparr>dwLastReportAttrTime := ae_now env\<rparr>) (stPluginInfo s)\<rparr>;
     (r, w) \<leftarrow> str_loop env attr pstr found iValue 0 0 (stStrAttrHash s);
     s \<leftarrow> apply_events env (hw_events w) (s\<lparr>stStrAttrHash := take_events w\<rparr>);
     case r of
       Inl _ \<Rightarrow> do { (rc, s) \<leftarrow> MtReport_Attr_Spec env 238 1 s; Some (-2, s) }
     | Inr _ \<Rightarrow> Some (0, s)
   }"

text \<open>\<open>MtReport_Str_Attr_Set\<close> does not count the report.\<close>

definition MtReport_Str_Attr_Add :: "AttrEnv \<Rightarrow> u32 \<Rightarrow> u8 list \<Rightarrow> u32 \<Rightarrow> MtAttr \<Rightarrow> (int \<times> MtAttr) option" where
  "MtReport_Str_Attr_Add env attr pstr iValue s = do {
     (rc, s) \<leftarrow> MtReport_InitAttr env s;
     if rc < 0 \<or> sint attr \<le> 0 \<or> sint iValue \<le> 0 then Some (-1, s)
     else str_report env attr pstr (\<lambda>n. n\<lparr>iStrVal := iStrVal n + iValue\<rparr>) iValue
       (s\<lparr>dwAttrReportCount := dwAttrReportCount s + 1\<rparr>)
   }"

definition MtReport_Str_Attr_Set :: "AttrEnv \<Rightarrow> u32 \<Rightarrow> u8 list \<Rightarrow> u32 \<Rightarrow> MtAttr \<Rightarrow> (int \<times> MtAttr) option" where
  "MtReport_Str_Attr_Set env attr pstr iValue s = do {
     (rc, s) \<leftarrow> MtReport_InitAttr env s;
     if rc < 0 \<or> sint attr \<le> 0 \<or> sint iValue \<le> 0 then Some (-1, s)
     else str_report env attr pstr (\<lambda>n. n\<lparr>iStrVal := iValue\<rparr>) iValue s
   }"

end
