(* ===== verification/Attr_Table.thy ===== *)
theory Attr_Table
  imports Attr Hash_Demo
begin

text \<open>
  A hash table as the attribute functions use it: a list of entries (key and value), the
  interface of one reporting step on it, and the proof that \<open>report_step\<close> provides it.
\<close>

subsection \<open>The interface\<close>

definition total :: "('k \<times> 'v::comm_monoid_add) list \<Rightarrow> 'k \<Rightarrow> 'v" where
  "total es q = sum_list (map snd (filter (\<lambda>e. fst e = q) es))"

lemma total_simps [simp]:
  "total [] q = 0" "total (e # es) q = (if fst e = q then snd e + total es q else total es q)"
  "total (es @ fs) q = total es q + total fs q"
  by (simp_all add: total_def)

text \<open>
  A step on key \<open>k\<close> either changes the value of one entry with that key by \<open>f\<close>, or appends an
  entry with value \<open>v\<close>, or leaves the entries alone. It may be refused as busy only finitely
  often in a row: \<open>busy\<close> bounds the number of refusals. It finds no room only when the table is
  \<open>full\<close> for the key, which it never is behind a busy answer.
\<close>

definition changed :: "'k \<Rightarrow> ('v \<Rightarrow> 'v) \<Rightarrow> 'v \<Rightarrow> ('k \<times> 'v) list \<Rightarrow> ('k \<times> 'v) list \<Rightarrow> bool" where
  "changed k f v es es' \<longleftrightarrow>
     (\<exists>ys u zs. es = ys @ (k, u) # zs \<and> es' = ys @ (k, f u) # zs) \<or> es' = es @ [(k, v)]"

locale report_table =
  fixes step :: "'k \<Rightarrow> ('v::comm_monoid_add \<Rightarrow> 'v) \<Rightarrow> 'v \<Rightarrow> u32 \<Rightarrow> 's \<Rightarrow> (report_result \<times> u32 \<times> 's) option"
    and rep :: "'s \<Rightarrow> ('k \<times> 'v) list \<Rightarrow> bool"
    and keyok :: "'k \<Rightarrow> bool"
    and busy :: "'k \<Rightarrow> 's \<Rightarrow> nat"
    and full :: "'k \<Rightarrow> 's \<Rightarrow> bool"
  assumes step_law: "rep s es \<Longrightarrow> keyok k \<Longrightarrow> \<exists>r b s' es'. step k f v b0 s = Some (r, b, s') \<and> rep s' es' \<and>
      (if r = Reported then changed k f v es es' else es' = es) \<and>
      (r = Busy \<longrightarrow> busy k s' < busy k s \<and> \<not> full k s') \<and> (r = NoRoom \<longrightarrow> full k s)"
    and busy_bound: "busy k s < 10"
begin

lemma add_step:
  assumes "rep s es" "keyok k"
  shows "\<exists>r b s' es'. step k (\<lambda>u. u + v) v b0 s = Some (r, b, s') \<and> rep s' es' \<and>
    (\<forall>q. total es' q = total es q + (if r = Reported \<and> q = k then v else 0)) \<and> (r \<noteq> Reported \<longrightarrow> es' = es) \<and>
    (r = Busy \<longrightarrow> busy k s' < busy k s \<and> \<not> full k s') \<and> (r = NoRoom \<longrightarrow> full k s)"
proof -
  obtain r b s' es' where 1: "step k (\<lambda>u. u + v) v b0 s = Some (r, b, s')" "rep s' es'"
    "if r = Reported then changed k (\<lambda>u. u + v) v es es' else es' = es" "r = Busy \<longrightarrow> busy k s' < busy k s \<and> \<not> full k s'" "r = NoRoom \<longrightarrow> full k s"
    using step_law [OF assms, of "\<lambda>u. u + v" v b0] by blast
  have "total es' q = total es q + (if r = Reported \<and> q = k then v else 0)" for q
    using 1(3) by (auto simp: changed_def ac_simps split: if_splits)
  then show ?thesis using 1 by auto
qed

lemma set_step:
  assumes "rep s es" "keyok k"
  shows "\<exists>r b s' es'. step k (\<lambda>_. v) v b0 s = Some (r, b, s') \<and> rep s' es' \<and>
    (r = Reported \<longrightarrow> (k, v) \<in> set es' \<and> (\<forall>q. q \<noteq> k \<longrightarrow> total es' q = total es q)) \<and> (r \<noteq> Reported \<longrightarrow> es' = es) \<and>
    (r = Busy \<longrightarrow> busy k s' < busy k s \<and> \<not> full k s') \<and> (r = NoRoom \<longrightarrow> full k s)"
proof -
  obtain r b s' es' where 1: "step k (\<lambda>_. v) v b0 s = Some (r, b, s')" "rep s' es'"
    "if r = Reported then changed k (\<lambda>_. v) v es es' else es' = es" "r = Busy \<longrightarrow> busy k s' < busy k s \<and> \<not> full k s'" "r = NoRoom \<longrightarrow> full k s"
    using step_law [OF assms, of "\<lambda>_. v" v b0] by blast
  have "(k, v) \<in> set es' \<and> (\<forall>q. q \<noteq> k \<longrightarrow> total es' q = total es q)" if "r = Reported"
    using 1(3) that by (auto simp: changed_def)
  then show ?thesis using 1 by auto
qed

end

subsection \<open>What the steps leave alone\<close>

lemma search_rows_ex_silent:
  assumes "search_rows_ex key sk k p e f ns w = Some (q, g, w')" "\<not> fun_war (hw_tab w)"
  shows "w' = w"
  using assms
  by (induction ns arbitrary: k p e) (auto simp: Let_def Option.bind_eq_Some_conv split: if_splits)

lemma HashTableSearchEx_silent:
  "HashTableSearchEx key sk f w = Some (q, g, w') \<Longrightarrow> \<not> fun_war (hw_tab w) \<Longrightarrow> w' = w"
  by (auto simp: HashTableSearchEx_def dest: search_rows_ex_silent split: if_splits)

lemma InsertHashNode_frame:
  assumes "InsertHashNode env p w = Some (r, w')" "writable env w"
  shows "hw_events w' = hw_events w" "dwWriteProcessId (thead w') = dwWriteProcessId (thead w)"
  using assms
  by (auto simp: InsertHashNode_def write_enter_writable updHead_def Let_def Option.bind_eq_Some_conv
      split: if_splits)

subsection \<open>A table as a list of entries\<close>

definition table_rep :: "'d HashEnv \<Rightarrow> ('d \<Rightarrow> 'd \<Rightarrow> int) \<Rightarrow> ('d \<Rightarrow> 'k \<times> 'v) \<Rightarrow> ('d \<Rightarrow> bool) \<Rightarrow> 'd HashWorld
    \<Rightarrow> ('k \<times> 'v) list \<Rightarrow> bool" where
  "table_rep env cmp entry ok w es \<longleftrightarrow> (\<exists>xs. table_wf w xs \<and> es = map (\<lambda>i. entry (seg_data (hw_seg w) i)) xs) \<and>
     writable env w \<and> quiet env \<and> rows_wf (hw_tab w) \<and> fun_cmp (hw_tab w) = Some cmp \<and>
     \<not> fun_war (hw_tab w) \<and> hw_events w = [] \<and> (\<forall>i. ok (seg_data (hw_seg w) i))"

definition claim_left :: "('d \<Rightarrow> u8) \<Rightarrow> u32 \<Rightarrow> 'd HashWorld \<Rightarrow> nat" where
  "claim_left sync sk w = (case find (vacant w) (candidates (hw_tab w) sk) of
       None \<Rightarrow> 0
     | Some i \<Rightarrow> if sync (seg_data (hw_seg w) i) = 0 then 0 else 10 - unat (sync (seg_data (hw_seg w) i)))"

definition table_full :: "u32 \<Rightarrow> 'd HashWorld \<Rightarrow> bool" where
  "table_full sk w \<longleftrightarrow> (\<forall>i\<in>set (candidates (hw_tab w) sk). \<not> vacant w i)"

lemma claim_left_bound: "claim_left sync sk w < 10"
  by (auto simp: claim_left_def unat_eq_0 [symmetric] split: option.split)

text \<open>How the node type stores key, value and the synchronisation byte.\<close>

definition node_ops :: "('d \<Rightarrow> 'd \<Rightarrow> int) \<Rightarrow> ('d \<Rightarrow> 'k \<times> 'v) \<Rightarrow> ('d \<Rightarrow> bool) \<Rightarrow> ('d \<Rightarrow> u8) \<Rightarrow> (u8 \<Rightarrow> 'd \<Rightarrow> 'd)
    \<Rightarrow> 'd \<Rightarrow> 'k \<Rightarrow> ('v \<Rightarrow> 'v) \<Rightarrow> 'v \<Rightarrow> ('d \<Rightarrow> 'd) \<Rightarrow> ('d \<Rightarrow> 'd) \<Rightarrow> bool" where
  "node_ops cmp entry ok sync set_sync key k f v found new \<longleftrightarrow>
     (\<forall>d. ok d \<longrightarrow> (cmp key d = 0 \<longleftrightarrow> fst (entry d) = k) \<and>
        ok (found d) \<and> entry (found d) = (fst (entry d), f (snd (entry d))) \<and>
        ok (new d) \<and> entry (new d) = (k, v) \<and>
        (\<forall>b. ok (set_sync b d) \<and> entry (set_sync b d) = entry d \<and> sync (set_sync b d) = b))"

lemma map_upd_middle:
  assumes "distinct xs" "i \<in> set xs"
  obtains ys zs where "xs = ys @ i # zs" "\<And>g d. map (\<lambda>j. e ((g(i := d)) j)) xs = map (\<lambda>j. e (g j)) ys @ e d # map (\<lambda>j. e (g j)) zs"
proof -
  obtain ys zs where xs: "xs = ys @ i # zs" using assms(2) by (meson split_list)
  then have "i \<notin> set ys" "i \<notin> set zs" using assms(1) by auto
  then have "map (\<lambda>j. e ((g(i := d)) j)) xs = map (\<lambda>j. e (g j)) ys @ e d # map (\<lambda>j. e (g j)) zs" for g d
    using xs by (auto intro!: map_cong)
  then show thesis using that xs by blast
qed

lemma table_wf_distinct: "table_wf w xs \<Longrightarrow> distinct xs"
  by (auto simp: table_wf_def dll_def)

subsection \<open>The step provides the interface\<close>

lemma fill_fill [simp]: "fill i x (fill i y w) = fill i x w"
  by (simp add: fill_def)

lemma fill_rep:
  assumes "hw_seg w' = (hw_seg w)\<lparr>seg_data := (seg_data (hw_seg w))(i := d)\<rparr>" "hw_tab w' = hw_tab w"
  shows "table_wf w' xs = table_wf w xs" "writable env w' = writable env w" "vacant w' = vacant w"
  using assms by (simp_all add: table_wf_def writable_def vacant_def fun_eq_iff)

lemma report_step_found:
  assumes wf: "table_wf w xs" and rows: "rows_wf (hw_tab w)" and cmp: "fun_cmp (hw_tab w) = Some cmp"
    and silent: "\<not> fun_war (hw_tab w)"
    and i: "find (holds cmp key w) (candidates (hw_tab w) sk) = Some i"
  shows "report_step env sync set_sync key sk found new b0 w = Some (Reported, 1, fill i (found (seg_data (hw_seg w) i)) w)"
    and "i \<in> set xs" "cmp key (seg_data (hw_seg w) i) = 0"
proof -
  have w: "bInitSuccess (hw_tab w) \<noteq> 0" "unat (dwRealNodeCount (hw_tab w)) \<le> seg_slots (hw_seg w)"
    using wf by (auto simp: table_wf_def)
  have h: "i \<in> set (candidates (hw_tab w) sk)" "holds cmp key w i" using i by (auto simp: find_Some_iff)
  have lt: "i < dwRealNodeCount (hw_tab w)" using candidates_range [OF rows h(1)] .
  show "i \<in> set xs" "cmp key (seg_data (hw_seg w) i) = 0"
    using dll_used_set [OF wf lt] h(2) by (auto simp: holds_def vacant_def)
  obtain w' where "HashTableSearchEx key sk (Some b0) w = Some (Some (INDEX_TO_NODE (hw_tab w) i), Some 1, w')"
    using HashTableSearchEx_find [OF w(1) rows w(2) cmp, of key sk "Some b0"] i by auto
  moreover from this have "w' = w" using silent by (rule HashTableSearchEx_silent)
  ultimately show "report_step env sync set_sync key sk found new b0 w
      = Some (Reported, 1, fill i (found (seg_data (hw_seg w) i)) w)"
    using table_wf_bound [OF wf lt] by (simp add: report_step_def)
qed

lemma report_step_free:
  assumes wf: "table_wf w xs" and rows: "rows_wf (hw_tab w)" and cmp: "fun_cmp (hw_tab w) = Some cmp"
    and silent: "\<not> fun_war (hw_tab w)" and ok: "writable env w"
    and none: "find (holds cmp key w) (candidates (hw_tab w) sk) = None"
    and i: "find (vacant w) (candidates (hw_tab w) sk) = Some i"
    and d: "d = seg_data (hw_seg w) i" "sync d = 0 \<or> 10 \<le> sync d"
  shows "\<exists>w'. report_step env sync set_sync key sk found new b0 w = Some (Reported, 0, w') \<and>
    table_wf w' (xs @ [i]) \<and> hw_tab w' = hw_tab w \<and> writable env w' \<and> hw_events w' = hw_events w \<and>
    seg_data (hw_seg w') = (seg_data (hw_seg w))(i := new (if sync d = 0 then set_sync 1 d else d))"
proof -
  have w: "bInitSuccess (hw_tab w) \<noteq> 0" "unat (dwRealNodeCount (hw_tab w)) \<le> seg_slots (hw_seg w)"
    using wf by (auto simp: table_wf_def)
  note lt = vacant_candidate [OF wf rows i]
  have slot: "unat i < seg_slots (hw_seg w)" using table_wf_bound [OF wf lt(1)] .
  let ?d = "new (if sync d = 0 then set_sync 1 d else d)"
  obtain w0 where "HashTableSearchEx key sk (Some b0) w = Some (Some (INDEX_TO_NODE (hw_tab w) i), Some 0, w0)"
    using HashTableSearchEx_find [OF w(1) rows w(2) cmp, of key sk "Some b0"] none i by auto
  moreover from this have "w0 = w" using silent by (rule HashTableSearchEx_silent)
  moreover obtain w' where w': "InsertHashNode env (INDEX_TO_NODE (hw_tab w) i) (fill i ?d w) = Some (0, w')"
    "table_wf w' (xs @ [i])" "hw_tab w' = hw_tab w" "bHashUseFlag (thead w') = 0"
    "seg_data (hw_seg w') = (seg_data (hw_seg w))(i := ?d)"
    using InsertHashNode_dll [of "fill i ?d w" xs env i] wf ok lt by auto
  moreover have "hw_events w' = hw_events w" "dwWriteProcessId (thead w') = dwWriteProcessId (thead w)"
    using InsertHashNode_frame [OF w'(1)] ok by auto
  moreover from this have "writable env w'" using ok w'(4) by (auto simp: writable_def split: if_splits)
  moreover have "seg_data (hw_seg w) i = d" using d(1) by (rule sym)
  ultimately show ?thesis using slot d(2) by (cases "sync d = 0") (simp_all add: report_step_def)
qed

lemma report_step_busy:
  assumes wf: "table_wf w xs" and rows: "rows_wf (hw_tab w)" and cmp: "fun_cmp (hw_tab w) = Some cmp"
    and silent: "\<not> fun_war (hw_tab w)" and quiet: "quiet env"
    and none: "find (holds cmp key w) (candidates (hw_tab w) sk) = None"
    and i: "find (vacant w) (candidates (hw_tab w) sk) = Some i"
    and d: "d = seg_data (hw_seg w) i" "\<not> (sync d = 0 \<or> 10 \<le> sync d)"
  shows "report_step env sync set_sync key sk found new b0 w
    = Some (Busy, 0, (fill i (set_sync (sync d + 1) d) w)\<lparr>hw_tick := Suc (hw_tick w)\<rparr>)"
proof -
  have w: "bInitSuccess (hw_tab w) \<noteq> 0" "unat (dwRealNodeCount (hw_tab w)) \<le> seg_slots (hw_seg w)"
    using wf by (auto simp: table_wf_def)
  have slot: "unat i < seg_slots (hw_seg w)" using table_wf_bound [OF wf vacant_candidate(1) [OF wf rows i]] .
  obtain w0 where "HashTableSearchEx key sk (Some b0) w = Some (Some (INDEX_TO_NODE (hw_tab w) i), Some 0, w0)"
    using HashTableSearchEx_find [OF w(1) rows w(2) cmp, of key sk "Some b0"] none i by auto
  moreover from this have "w0 = w" using silent by (rule HashTableSearchEx_silent)
  ultimately show ?thesis using slot d quiet by (simp add: report_step_def usleep_def quiet_def)
qed

lemma report_step_full:
  assumes wf: "table_wf w xs" and rows: "rows_wf (hw_tab w)" and cmp: "fun_cmp (hw_tab w) = Some cmp"
    and silent: "\<not> fun_war (hw_tab w)"
    and none: "find (holds cmp key w) (candidates (hw_tab w) sk) = None"
      "find (vacant w) (candidates (hw_tab w) sk) = None"
  shows "report_step env sync set_sync key sk found new b0 w = Some (NoRoom, 0, w)"
proof -
  have w: "bInitSuccess (hw_tab w) \<noteq> 0" "unat (dwRealNodeCount (hw_tab w)) \<le> seg_slots (hw_seg w)"
    using wf by (auto simp: table_wf_def)
  obtain w0 where "HashTableSearchEx key sk (Some b0) w = Some (None, Some 0, w0)"
    using HashTableSearchEx_find [OF w(1) rows w(2) cmp, of key sk "Some b0"] none by auto
  moreover from this have "w0 = w" using silent by (rule HashTableSearchEx_silent)
  ultimately show ?thesis by (simp add: report_step_def)
qed

lemma report_step_law:
  assumes rep: "table_rep env cmp entry ok w es" and ops: "node_ops cmp entry ok sync set_sync key k f v found new"
  shows "\<exists>r b w' es'. report_step env sync set_sync key sk found new b0 w = Some (r, b, w') \<and>
    table_rep env cmp entry ok w' es' \<and> (if r = Reported then changed k f v es es' else es' = es) \<and>
    (r = Busy \<longrightarrow> claim_left sync sk w' < claim_left sync sk w \<and> \<not> table_full sk w') \<and>
    (r = NoRoom \<longrightarrow> table_full sk w)"
proof -
  obtain xs where wf: "table_wf w xs" and es: "es = map (\<lambda>i. entry (seg_data (hw_seg w) i)) xs"
    and ok: "writable env w" "quiet env" and t: "rows_wf (hw_tab w)" "fun_cmp (hw_tab w) = Some cmp"
      "\<not> fun_war (hw_tab w)" and ev: "hw_events w = []" and nodes: "\<And>i. ok (seg_data (hw_seg w) i)"
    using rep by (auto simp: table_rep_def)
  note D = ops [unfolded node_ops_def, rule_format, OF nodes]
  consider (found) i where "find (holds cmp key w) (candidates (hw_tab w) sk) = Some i"
    | (free) i where "find (holds cmp key w) (candidates (hw_tab w) sk) = None"
        "find (vacant w) (candidates (hw_tab w) sk) = Some i"
    | (full) "find (holds cmp key w) (candidates (hw_tab w) sk) = None"
        "find (vacant w) (candidates (hw_tab w) sk) = None"
    by (cases "find (holds cmp key w) (candidates (hw_tab w) sk)";
        cases "find (vacant w) (candidates (hw_tab w) sk)") auto
  then show ?thesis
  proof cases
    case found
    note F = report_step_found [OF wf t found]
    let ?d = "seg_data (hw_seg w) i" and ?w = "fill i (found (seg_data (hw_seg w) i)) w"
    let ?es = "map (\<lambda>j. entry (seg_data (hw_seg ?w) j)) xs"
    obtain ys zs where m: "xs = ys @ i # zs" "\<And>g d. map (\<lambda>j. entry ((g(i := d)) j)) xs
        = map (\<lambda>j. entry (g j)) ys @ entry d # map (\<lambda>j. entry (g j)) zs"
      using map_upd_middle [OF table_wf_distinct [OF wf] F(2)] by blast
    have k: "entry ?d = (k, snd (entry ?d))" "entry (found ?d) = (k, f (snd (entry ?d)))"
      using D [of i] F(3) by (metis prod.collapse)+
    have "changed k f v es ?es"
      unfolding changed_def es fill_sel m(2) using k m(1)
      by (intro disjI1 exI [of _ "map (\<lambda>j. entry (seg_data (hw_seg w) j)) ys"] exI [of _ "snd (entry ?d)"]
          exI [of _ "map (\<lambda>j. entry (seg_data (hw_seg w) j)) zs"]) simp
    moreover have "table_rep env cmp entry ok ?w ?es"
      unfolding table_rep_def using wf ok t ev nodes D [of i] by (intro conjI exI [of _ xs]) simp_all
    ultimately show ?thesis using F(1) by auto
  next
    case free
    let ?d = "seg_data (hw_seg w) i"
    have i: "i \<notin> set xs" using vacant_candidate [OF wf t(1) free(2)] by blast
    show ?thesis
    proof (cases "sync ?d = 0 \<or> 10 \<le> sync ?d")
      case True
      let ?n = "new (if sync ?d = 0 then set_sync 1 ?d else ?d)"
      obtain w' where w': "report_step env sync set_sync key sk found new b0 w = Some (Reported, 0, w')"
        "table_wf w' (xs @ [i])" "hw_tab w' = hw_tab w" "writable env w'" "hw_events w' = hw_events w"
        "seg_data (hw_seg w') = (seg_data (hw_seg w))(i := ?n)"
        using report_step_free [OF wf t ok(1) free refl, of sync set_sync found new b0] True by blast
      have n: "ok ?n" "entry ?n = (k, v)" using D [of i] ops [unfolded node_ops_def] by auto
      have "map (\<lambda>j. entry (seg_data (hw_seg w') j)) xs = es"
        using i unfolding es w'(6) by (auto intro!: map_cong)
      then have es': "map (\<lambda>j. entry (seg_data (hw_seg w') j)) (xs @ [i]) = es @ [(k, v)]"
        using n(2) w'(6) by simp
      have "table_rep env cmp entry ok w' (es @ [(k, v)])"
        unfolding table_rep_def using w' es' ok(2) t ev nodes n(1) by (intro conjI exI [of _ "xs @ [i]"]) auto
      then show ?thesis using w'(1) by (auto simp: changed_def)
    next
      case False
      let ?w = "(fill i (set_sync (sync ?d + 1) ?d) w)\<lparr>hw_tick := Suc (hw_tick w)\<rparr>"
      have run: "report_step env sync set_sync key sk found new b0 w = Some (Busy, 0, ?w)"
        by (rule report_step_busy [OF wf t ok(2) free refl, where sync = sync, OF False])
      have seg: "hw_seg ?w = (hw_seg w)\<lparr>seg_data := (seg_data (hw_seg w))(i := set_sync (sync ?d + 1) ?d)\<rparr>"
        by (simp add: fill_def)
      have tab: "hw_tab ?w = hw_tab w" by simp
      note fr = fill_rep [OF seg tab]
      have "es = map (\<lambda>j. entry (seg_data (hw_seg ?w) j)) xs" unfolding es seg using D [of i] by auto
      then have "table_rep env cmp entry ok ?w es"
        unfolding table_rep_def using wf ok t ev nodes D [of i] fr(1,2) seg by auto
      moreover have "unat (sync ?d + 1) = unat (sync ?d) + 1"
        using False unat_succ_count [OF refl, of "sync ?d" 10] by (simp add: word_le_nat_alt)
      then have "claim_left sync sk ?w < claim_left sync sk w"
        using False D [of i] free(2) unfolding claim_left_def fr(3) tab seg
        by (auto simp: word_le_nat_alt)
      moreover have "\<not> table_full sk ?w"
        using free(2) unfolding table_full_def fr(3) tab by (auto simp: find_Some_iff)
      ultimately show ?thesis using run by auto
    qed
  next
    case full
    then show ?thesis using report_step_full [OF wf t full] rep by (auto simp: table_full_def find_None_iff)
  qed
qed

end
