(* ===== verification/Attr_Props.thy ===== *)
theory Attr_Props
  imports Attr_Table
begin

text \<open>
  The attribute store: what the five tables and the special list hold together, and the
  properties of the reporting functions of \<open>mt_attr.c\<close>.
\<close>

subsection \<open>The tables provide the reporting interface\<close>

definition attr_entry :: "AttrNode \<Rightarrow> u32 \<times> u32" where
  "attr_entry n = (iAttrID n, iCurValue n)"

abbreviation attr_step :: "AttrNode HashEnv \<Rightarrow> u32 \<Rightarrow> (u32 \<Rightarrow> u32) \<Rightarrow> u32 \<Rightarrow> u32 \<Rightarrow> AttrNode HashWorld
    \<Rightarrow> (report_result \<times> u32 \<times> AttrNode HashWorld) option" where
  "attr_step env k f v \<equiv> report_step env bSyncProcess set_bSyncProcess \<lparr>bSyncProcess = 0, iAttrID = k, iCurValue = 0\<rparr> k
     (\<lambda>n. n\<lparr>iCurValue := f (iCurValue n)\<rparr>) (\<lambda>n. n\<lparr>iCurValue := v, iAttrID := k\<rparr>)"

abbreviation attr_rep :: "AttrNode HashEnv \<Rightarrow> AttrNode HashWorld \<Rightarrow> (u32 \<times> u32) list \<Rightarrow> bool" where
  "attr_rep env \<equiv> table_rep env mtreport_attr_cmp attr_entry (\<lambda>_. True)"

lemma attr_node_ops: "node_ops mtreport_attr_cmp attr_entry (\<lambda>_. True) bSyncProcess set_bSyncProcess
    \<lparr>bSyncProcess = 0, iAttrID = k, iCurValue = 0\<rparr> k f v (\<lambda>n. n\<lparr>iCurValue := f (iCurValue n)\<rparr>)
    (\<lambda>n. n\<lparr>iCurValue := v, iAttrID := k\<rparr>)"
  by (auto simp: node_ops_def mtreport_attr_cmp_def attr_entry_def set_bSyncProcess_def)

interpretation at: report_table "attr_step env" "attr_rep env" "\<lambda>_. True" "claim_left bSyncProcess"
  table_full
  for env
  by unfold_locales (rule report_step_law [OF _ attr_node_ops], assumption, rule claim_left_bound)

definition str_entry :: "StrAttrNode \<Rightarrow> (u32 \<times> u8 list) \<times> u32" where
  "str_entry n = ((iStrAttrId n, c_str (szStrInfo n)), iStrVal n)"

definition str_ok :: "StrAttrNode \<Rightarrow> bool" where
  "str_ok n \<longleftrightarrow> length (szStrInfo n) = 65 \<and> szStrInfo n ! 64 = 0"

definition str_key_ok :: "u32 \<times> u8 list \<Rightarrow> bool" where
  "str_key_ok k \<longleftrightarrow> 0 \<notin> set (snd k) \<and> length (snd k) \<le> 64"

definition str_short_key :: "u32 \<times> u8 list \<Rightarrow> u32" where
  "str_short_key k = fst k + GetShortKeyByStr (c_str (szStrInfo (str_record (fst k) (snd k))))"

abbreviation str_step :: "StrAttrNode HashEnv \<Rightarrow> u32 \<times> u8 list \<Rightarrow> (u32 \<Rightarrow> u32) \<Rightarrow> u32 \<Rightarrow> u32 \<Rightarrow> StrAttrNode HashWorld
    \<Rightarrow> (report_result \<times> u32 \<times> StrAttrNode HashWorld) option" where
  "str_step env k f v \<equiv> report_step env sa_bSyncProcess set_sa_bSyncProcess (str_record (fst k) (snd k)) (str_short_key k)
     (\<lambda>n. n\<lparr>iStrVal := f (iStrVal n)\<rparr>)
     (\<lambda>n. n\<lparr>iStrVal := v, iStrAttrId := fst k, szStrInfo := copy_name (snd k) (szStrInfo n)\<rparr>)"

abbreviation str_rep :: "StrAttrNode HashEnv \<Rightarrow> StrAttrNode HashWorld \<Rightarrow> ((u32 \<times> u8 list) \<times> u32) list \<Rightarrow> bool" where
  "str_rep env \<equiv> table_rep env mtreport_str_attr_cmp str_entry str_ok"

lemma copy_name_str:
  assumes "0 \<notin> set s" "length s \<le> 64" "length b = 65" "b ! 64 = 0"
  shows "c_str (copy_name s b) = s" "length (copy_name s b) = 65" "copy_name s b ! 64 = 0"
  using c_str_strncpy [OF assms(1), of 64 b] assms(2-4) by (simp_all add: copy_name_def)

lemma str_node_ops:
  assumes "str_key_ok k"
  shows "node_ops mtreport_str_attr_cmp str_entry str_ok sa_bSyncProcess set_sa_bSyncProcess
    (str_record (fst k) (snd k)) k f v (\<lambda>n. n\<lparr>iStrVal := f (iStrVal n)\<rparr>)
    (\<lambda>n. n\<lparr>iStrVal := v, iStrAttrId := fst k, szStrInfo := copy_name (snd k) (szStrInfo n)\<rparr>)"
proof -
  have "c_str (copy_name (snd k) (replicate 65 0)) = snd k"
    using assms by (intro copy_name_str) (auto simp: str_key_ok_def)
  then show ?thesis
    using assms copy_name_str [of "snd k"]
    by (auto simp: node_ops_def mtreport_str_attr_cmp_def str_entry_def str_ok_def str_record_def
        set_sa_bSyncProcess_def str_key_ok_def prod_eq_iff)
qed

interpretation st: report_table "str_step env" "str_rep env" str_key_ok
  "\<lambda>k. claim_left sa_bSyncProcess (str_short_key k)" "\<lambda>k. table_full (str_short_key k)"
  for env
  by unfold_locales (rule report_step_law [OF _ str_node_ops], assumption, assumption, rule claim_left_bound)

subsection \<open>All tables\<close>

fun tables_rep :: "AttrEnv \<Rightarrow> nat \<Rightarrow> AttrNode HashWorld list \<Rightarrow> (u32 \<times> u32) list list \<Rightarrow> bool" where
  "tables_rep env j [] [] = True"
| "tables_rep env j (w # ws) (es # ess) = (attr_rep (ae_tab env j) w es \<and> tables_rep env (Suc j) ws ess)"
| "tables_rep env j _ _ = False"

lemma tables_rep_events:
  "tables_rep env j ws ess \<Longrightarrow> apply_events env' (concat (map hw_events ws)) s = Some s \<and> map take_events ws = ws"
  by (induction env j ws ess rule: tables_rep.induct) (auto simp: table_rep_def take_events_def)

lemma u8_succ: "unat c < 10 \<Longrightarrow> unat (c + 1 :: u8) = Suc (unat c)"
  using unat_succ_count [OF refl, of c 10] by simp

lemma attr_tables_add:
  assumes "tables_rep env j ws ess" "unat c + length ws \<le> 10"
  shows "\<exists>r ws' ess'. attr_tables env attr (\<lambda>n. n\<lparr>iCurValue := iCurValue n + v\<rparr>) v c b j ws = Some (Inr r, ws') \<and>
    length ws' = length ws \<and> tables_rep env j ws' ess' \<and>
    (\<forall>q. total (concat ess') q = total (concat ess) q + (if r \<and> q = attr then v else 0))"
  using assms
proof (induction env j ws ess arbitrary: c b rule: tables_rep.induct)
  case (1 env j)
  then have "\<not> 10 < c" by (simp add: word_less_nat_alt)
  then show ?case by (intro exI [of _ False] exI [of _ "[]"]) simp
next
  case (2 env j w ws es ess)
  then have c: "\<not> 10 < c" and rep: "attr_rep (ae_tab env j) w es" "tables_rep env (Suc j) ws ess"
    by (auto simp: word_less_nat_alt)
  obtain r b1 w' es' where 1: "attr_step (ae_tab env j) attr (\<lambda>u. u + v) v b w = Some (r, b1, w')"
    "attr_rep (ae_tab env j) w' es'" "\<forall>q. total es' q = total es q + (if r = Reported \<and> q = attr then v else 0)"
    using at.add_step [OF rep(1), of attr v b] by blast
  show ?case
  proof (cases "r = Reported")
    case True
    then show ?thesis using 1 rep(2) c by (intro exI [of _ True] exI [of _ "w' # ws"] exI [of _ "es' # ess"]) auto
  next
    case False
    define c' where "c' = (if r = Busy then c + 1 else c)"
    have "unat c' + length ws \<le> 10" using "2.prems"(2) u8_succ [of c] by (auto simp: c'_def)
    then obtain r2 ws' ess' where 2: "attr_tables env attr (\<lambda>n. n\<lparr>iCurValue := iCurValue n + v\<rparr>) v c' b1 (Suc j) ws
        = Some (Inr r2, ws')" "length ws' = length ws" "tables_rep env (Suc j) ws' ess'"
      "\<forall>q. total (concat ess') q = total (concat ess) q + (if r2 \<and> q = attr then v else 0)"
      using "2.IH" [OF rep(2), of c' b1] by blast
    have "attr_tables env attr (\<lambda>n. n\<lparr>iCurValue := iCurValue n + v\<rparr>) v c b j (w # ws) = Some (Inr r2, w' # ws')"
      using 1(1) 2(1) c False by (cases r) (simp_all add: c'_def)
    then show ?thesis
      using 1(2,3) 2(2-4) False by (intro exI [of _ r2] exI [of _ "w' # ws'"] exI [of _ "es' # ess'"]) (auto simp: ac_simps)
  qed
qed simp_all

lemma attr_tables_set:
  assumes "tables_rep env j ws ess" "unat c + length ws \<le> 10"
  shows "\<exists>r ws' ess'. attr_tables env attr (\<lambda>n. n\<lparr>iCurValue := v\<rparr>) v c b j ws = Some (Inr r, ws') \<and>
    length ws' = length ws \<and> tables_rep env j ws' ess' \<and> (\<forall>q. q \<noteq> attr \<longrightarrow> total (concat ess') q = total (concat ess) q) \<and>
    (if r then (attr, v) \<in> set (concat ess') else ess' = ess)"
  using assms
proof (induction env j ws ess arbitrary: c b rule: tables_rep.induct)
  case (1 env j)
  then have "\<not> 10 < c" by (simp add: word_less_nat_alt)
  then show ?case by (intro exI [of _ False] exI [of _ "[]"]) simp
next
  case (2 env j w ws es ess)
  then have c: "\<not> 10 < c" and rep: "attr_rep (ae_tab env j) w es" "tables_rep env (Suc j) ws ess"
    by (auto simp: word_less_nat_alt)
  obtain r b1 w' es' where 1: "attr_step (ae_tab env j) attr (\<lambda>_. v) v b w = Some (r, b1, w')"
    "attr_rep (ae_tab env j) w' es'" "r = Reported \<longrightarrow> (attr, v) \<in> set es' \<and> (\<forall>q. q \<noteq> attr \<longrightarrow> total es' q = total es q)"
    "r \<noteq> Reported \<longrightarrow> es' = es"
    using at.set_step [OF rep(1), of attr v b] by blast
  show ?case
  proof (cases "r = Reported")
    case True
    then show ?thesis using 1 rep(2) c by (intro exI [of _ True] exI [of _ "w' # ws"] exI [of _ "es' # ess"]) auto
  next
    case False
    define c' where "c' = (if r = Busy then c + 1 else c)"
    have "unat c' + length ws \<le> 10" using "2.prems"(2) u8_succ [of c] by (auto simp: c'_def)
    then obtain r2 ws' ess' where 2: "attr_tables env attr (\<lambda>n. n\<lparr>iCurValue := v\<rparr>) v c' b1 (Suc j) ws
        = Some (Inr r2, ws')" "length ws' = length ws" "tables_rep env (Suc j) ws' ess'"
      "\<forall>q. q \<noteq> attr \<longrightarrow> total (concat ess') q = total (concat ess) q"
      "if r2 then (attr, v) \<in> set (concat ess') else ess' = ess"
      using "2.IH" [OF rep(2), of c' b1] by blast
    have "attr_tables env attr (\<lambda>n. n\<lparr>iCurValue := v\<rparr>) v c b j (w # ws) = Some (Inr r2, w' # ws')"
      using 1(1) 2(1) c False by (cases r) (simp_all add: c'_def)
    then show ?thesis
      using 1 2(2-5) False by (intro exI [of _ r2] exI [of _ "w' # ws'"] exI [of _ "es' # ess'"]) auto
  qed
qed simp_all

subsection \<open>The special list\<close>

definition attr_wf :: "AttrEnv \<Rightarrow> MtAttr \<Rightarrow> (u32 \<times> u32) list list \<Rightarrow> bool" where
  "attr_wf env s ess \<longleftrightarrow> cIsAttrInit s \<noteq> 0 \<and> length (stAttrHash s) = MTATTR_SHM_DEF_COUNT \<and>
     tables_rep env 0 (stAttrHash s) ess \<and> length (sArrtListSpec s) = MTATTR_SPECIAL_COUNT"

definition spec_entries :: "MtAttr \<Rightarrow> (u32 \<times> u32) list" where
  "spec_entries s = map attr_entry (take (nat (sint (iAttrSpecialCount s))) (sArrtListSpec s))"

text \<open>What has been reported for attribute \<open>q\<close> and not yet been collected.\<close>

definition reported :: "MtAttr \<Rightarrow> (u32 \<times> u32) list list \<Rightarrow> u32 \<Rightarrow> u32" where
  "reported s ess q = total (concat ess) q + total (spec_entries s) q"

lemma spec_find_result:
  assumes "i \<le> n" "n \<le> length xs"
  shows "\<exists>k. spec_find attr i n xs = Some k \<and> k \<le> n \<and> (k < n \<longrightarrow> iAttrID (xs ! k) = attr)"
  using assms
proof (induction attr i n xs rule: spec_find.induct)
  case (1 attr i n xs)
  show ?case
  proof (cases "i < n \<and> iAttrID (xs ! i) \<noteq> attr")
    case True
    then show ?thesis using 1 by (subst spec_find.simps) auto
  next
    case False
    then show ?thesis using "1.prems" by (subst spec_find.simps) auto
  qed
qed

lemma total_update:
  assumes "k < length xs" "fst e = fst (xs ! k)" "snd e = snd (xs ! k) + v"
  shows "total (xs[k := e]) q = total xs q + (if q = fst e then v else 0)"
proof -
  have "xs = take k xs @ xs ! k # drop (Suc k) xs" using assms(1) by (rule id_take_nth_drop)
  then have "total xs q = total (take k xs @ xs ! k # drop (Suc k) xs) q" by simp
  then show ?thesis using assms by (auto simp: upd_conv_take_nth_drop ac_simps)
qed

lemma u32_succ:
  assumes "0 \<le> sint (c :: u32)" "sint c < 2 ^ 31 - 1"
  shows "sint (c + 1) = sint c + 1"
proof -
  have "signed_take_bit 31 (sint c + 1) = sint c + 1"
    using assms by (subst signed_take_bit_int_eq_self_iff) simp
  then show ?thesis by (simp add: sint_word_ariths)
qed

lemma attr_spec_body_counts:
  assumes "length (sArrtListSpec s) = MTATTR_SPECIAL_COUNT" "0 \<le> sint (iAttrSpecialCount s)"
    "sint (iAttrSpecialCount s) \<le> int MTATTR_SPECIAL_COUNT"
  shows "\<exists>r s'. attr_spec_body attr v s = Some (r, s') \<and> (r = 0 \<or> r = -1 \<and> sint (iAttrSpecialCount s) = int MTATTR_SPECIAL_COUNT) \<and>
    length (sArrtListSpec s') = MTATTR_SPECIAL_COUNT \<and> stAttrHash s' = stAttrHash s \<and> cIsAttrInit s' = cIsAttrInit s \<and>
    (\<forall>q. total (spec_entries s') q = total (spec_entries s) q + (if r = 0 \<and> q = attr then v else 0))"
proof -
  let ?c = "sint (iAttrSpecialCount s)" and ?xs = "sArrtListSpec s"
  have c: "nat ?c \<le> length ?xs" using assms by simp
  obtain k where k: "spec_find attr 0 (nat ?c) ?xs = Some k" "k \<le> nat ?c" "k < nat ?c \<longrightarrow> iAttrID (?xs ! k) = attr"
    using spec_find_result [OF _ c, of 0 attr] by auto
  have succ: "sint (iAttrSpecialCount s + 1) = ?c + 1"
    using assms by (intro u32_succ) (simp_all add: MTATTR_SPECIAL_COUNT_def)
  consider (old) "k < nat ?c" | (new) "k = nat ?c" "?c < int MTATTR_SPECIAL_COUNT"
    | (full) "k = nat ?c" "?c = int MTATTR_SPECIAL_COUNT"
    using k(2) assms(3) by linarith
  then show ?thesis
  proof cases
    case old
    let ?e = "(?xs ! k)\<lparr>iCurValue := iCurValue (?xs ! k) + v\<rparr>"
    have "\<not> ?c \<le> int k" using old by linarith
    have run: "attr_spec_body attr v s = Some (0, s\<lparr>dwAttrReportBySpecCount := dwAttrReportBySpecCount s + 1,
        sArrtListSpec := ?xs[k := ?e]\<rparr>)"
      using k old c \<open>\<not> ?c \<le> int k\<close> by (simp add: attr_spec_body_def Let_def upd_spec_def)
    have "map attr_entry (take (nat ?c) (?xs[k := ?e])) = (map attr_entry (take (nat ?c) ?xs))[k := attr_entry ?e]"
      by (simp add: take_update_swap map_update)
    moreover have "total ((map attr_entry (take (nat ?c) ?xs))[k := attr_entry ?e]) q
        = total (map attr_entry (take (nat ?c) ?xs)) q + (if q = fst (attr_entry ?e) then v else 0)" for q
      using old c by (intro total_update) (simp_all add: attr_entry_def)
    moreover have "fst (attr_entry ?e) = attr" using k(3) old by (simp add: attr_entry_def)
    ultimately show ?thesis using run assms(1) by (simp add: spec_entries_def)
  next
    case new
    let ?e = "(?xs ! nat ?c)\<lparr>iAttrID := attr, iCurValue := v\<rparr>"
    have lt: "nat ?c < length ?xs" using new(2) assms(1,2) by simp
    have run: "attr_spec_body attr v s = Some (0, s\<lparr>dwAttrReportBySpecCount := dwAttrReportBySpecCount s + 1,
        iAttrSpecialCount := iAttrSpecialCount s + 1, sArrtListSpec := ?xs[nat ?c := ?e]\<rparr>)"
      using k(1) new lt assms(2) by (simp add: attr_spec_body_def Let_def upd_spec_def)
    have "nat (?c + 1) = Suc (nat ?c)" using assms(2) by simp
    then have "take (nat (?c + 1)) (?xs[nat ?c := ?e]) = take (nat ?c) ?xs @ [?e]"
      using lt by (simp add: take_Suc_conv_app_nth)
    then show ?thesis using run assms(1) succ by (simp add: spec_entries_def attr_entry_def)
  next
    case full
    have "attr_spec_body attr v s = Some (-1, s\<lparr>dwAttrReportBySpecCount := dwAttrReportBySpecCount s + 1,
        iAttrSpecialCount := iAttrSpecialCount s + 1, wAttrReportFailed := wAttrReportFailed s + 1\<rparr>)"
      using k(1) full by (simp add: attr_spec_body_def Let_def)
    then show ?thesis using full assms(1) succ by (simp add: spec_entries_def)
  qed
qed

subsection \<open>Properties of attribute reports\<close>

lemma MtReport_InitAttr_again: "cIsAttrInit s \<noteq> 0 \<Longrightarrow> MtReport_InitAttr env s = Some (1, s)"
  by (simp add: MtReport_InitAttr_def)

text \<open>The state in which the tables are visited.\<close>

definition stamped :: "AttrEnv \<Rightarrow> MtAttr \<Rightarrow> MtAttr" where
  "stamped env s = s\<lparr>dwAttrReportCount := dwAttrReportCount s + 1,
     stPluginInfo := upd_plugin (iPluginIndex s) (\<lambda>p. p\<lparr>dwLastReportAttrTime := ae_now env\<rparr>) (stPluginInfo s)\<rparr>"

lemma stamped_sel [simp]:
  "cIsAttrInit (stamped env s) = cIsAttrInit s" "stAttrHash (stamped env s) = stAttrHash s"
  "sArrtListSpec (stamped env s) = sArrtListSpec s" "iAttrSpecialCount (stamped env s) = iAttrSpecialCount s"
  "spec_entries (stamped env s) = spec_entries s"
  by (simp_all add: stamped_def spec_entries_def)

text \<open>Once the tables have been visited, the report is done or goes to the special list.\<close>

lemma attr_report_tables:
  assumes wf: "attr_wf env s ess" and args: "0 < sint attr" "0 < sint v"
    and tabs: "attr_tables env attr found v 0 0 0 (stAttrHash s) = Some (Inr r, ws)" "tables_rep env 0 ws ess'"
      "length ws = length (stAttrHash s)"
    and count: "0 \<le> sint (iAttrSpecialCount s)" "sint (iAttrSpecialCount s) \<le> int MTATTR_SPECIAL_COUNT"
  shows "\<exists>rc s'. attr_report env attr found v s = Some (rc, s') \<and> attr_wf env s' ess' \<and>
    (if r then rc = 0 \<and> spec_entries s' = spec_entries s
     else (rc = 0 \<or> rc = -1 \<and> sint (iAttrSpecialCount s) = int MTATTR_SPECIAL_COUNT) \<and>
       (\<forall>q. total (spec_entries s') q = total (spec_entries s) q + (if rc = 0 \<and> q = attr then v else 0)))"
proof -
  have init: "cIsAttrInit s \<noteq> 0" using wf by (simp add: attr_wf_def)
  note ev = tables_rep_events [OF tabs(2)]
  let ?s = "(stamped env s)\<lparr>stAttrHash := ws\<rparr>"
  have go: "attr_report env attr found v s = (if r then Some (0, ?s) else MtReport_Attr_Spec env attr v ?s)"
    using init args tabs(1) ev by (simp add: attr_report_def MtReport_InitAttr_again stamped_def)
  have sp: "spec_entries ?s = spec_entries s" by (simp add: spec_entries_def)
  show ?thesis
  proof (cases r)
    case True
    have "attr_wf env ?s ess'" using wf tabs(2,3) by (simp add: attr_wf_def)
    then show ?thesis using go True sp by simp
  next
    case False
    have "length (sArrtListSpec ?s) = MTATTR_SPECIAL_COUNT" "0 \<le> sint (iAttrSpecialCount ?s)"
      "sint (iAttrSpecialCount ?s) \<le> int MTATTR_SPECIAL_COUNT"
      using wf count by (simp_all add: attr_wf_def)
    from attr_spec_body_counts [OF this, of attr v] obtain rc s' where
      B: "attr_spec_body attr v ?s = Some (rc, s')" "rc = 0 \<or> rc = -1 \<and> sint (iAttrSpecialCount s) = int MTATTR_SPECIAL_COUNT"
      "length (sArrtListSpec s') = MTATTR_SPECIAL_COUNT" "stAttrHash s' = ws" "cIsAttrInit s' = cIsAttrInit s"
      "\<forall>q. total (spec_entries s') q = total (spec_entries s) q + (if rc = 0 \<and> q = attr then v else 0)"
      unfolding sp by auto
    have "MtReport_Attr_Spec env attr v ?s = Some (rc, s')"
      using init args B(1) by (simp add: MtReport_Attr_Spec_def MtReport_InitAttr_again)
    moreover have "attr_wf env s' ess'" using wf tabs(2,3) B by (simp add: attr_wf_def)
    ultimately show ?thesis using go False B by auto
  qed
qed

lemma attr_report_refuses:
  assumes "cIsAttrInit s \<noteq> 0" "sint attr \<le> 0 \<or> sint v \<le> 0"
  shows "attr_report env attr found v s = Some (-1, s)"
  using assms by (auto simp: attr_report_def MtReport_InitAttr_again)

lemma Attr_Add_adds:
  assumes "attr_wf env s ess" "0 \<le> sint (iAttrSpecialCount s)" "sint (iAttrSpecialCount s) \<le> int MTATTR_SPECIAL_COUNT"
  shows "\<exists>rc s' ess'. MtReport_Attr_Add env attr v s = Some (rc, s') \<and> attr_wf env s' ess' \<and>
    (rc = 0 \<or> rc = -1 \<and> (sint attr \<le> 0 \<or> sint v \<le> 0 \<or> sint (iAttrSpecialCount s) = int MTATTR_SPECIAL_COUNT)) \<and>
    (\<forall>q. reported s' ess' q = reported s ess q + (if rc = 0 \<and> q = attr then v else 0))"
proof (cases "0 < sint attr \<and> 0 < sint v")
  case True
  have ws: "tables_rep env 0 (stAttrHash s) ess" "unat (0 :: u8) + length (stAttrHash s) \<le> 10"
    using assms(1) by (auto simp: attr_wf_def MTATTR_SHM_DEF_COUNT_def)
  obtain r ws' ess' where 1: "attr_tables env attr (\<lambda>n. n\<lparr>iCurValue := iCurValue n + v\<rparr>) v 0 0 0 (stAttrHash s)
      = Some (Inr r, ws')" "length ws' = length (stAttrHash s)" "tables_rep env 0 ws' ess'"
    "\<forall>q. total (concat ess') q = total (concat ess) q + (if r \<and> q = attr then v else 0)"
    using attr_tables_add [OF ws, of attr v 0] by blast
  from attr_report_tables [OF assms(1) _ _ 1(1,3,2) assms(2,3)] True 1(4)
  show ?thesis unfolding MtReport_Attr_Add_def by (fastforce simp: reported_def ac_simps split: if_splits)
next
  case False
  then have "MtReport_Attr_Add env attr v s = Some (-1, s)"
    using assms(1) by (auto simp: MtReport_Attr_Add_def attr_wf_def intro!: attr_report_refuses)
  then show ?thesis using assms(1) False by auto
qed

text \<open>
  C31. \<open>MtReport_Attr_Add\<close> loses nothing: it always returns, and when it returns 0 the sum of what
  is recorded for the attribute, over the five tables and the special list, has grown by exactly
  the value (modulo \<open>2 ^ 32\<close>), while no other attribute changed. It returns \<open>-1\<close>, with nothing
  changed, only for arguments that are not positive or when the special list is full.
\<close>

theorem Attr_Add_counts:
  assumes "attr_wf env s ess" "0 \<le> sint (iAttrSpecialCount s)" "sint (iAttrSpecialCount s) \<le> int MTATTR_SPECIAL_COUNT"
  shows "\<exists>rc s' ess'. MtReport_Attr_Add env attr v s = Some (rc, s') \<and> attr_wf env s' ess' \<and>
    (rc = 0 \<or> rc = -1 \<and> (sint attr \<le> 0 \<or> sint v \<le> 0 \<or> sint (iAttrSpecialCount s) = int MTATTR_SPECIAL_COUNT)) \<and>
    (\<forall>q. reported s' ess' q = reported s ess q + (if rc = 0 \<and> q = attr then v else 0))"
  by (rule Attr_Add_adds [OF assms])

text \<open>
  \<open>MtReport_Attr_Set\<close> stores the value in a table entry of the attribute, or, when no table
  takes the report, adds it in the special list; other attributes never change.
\<close>

theorem Attr_Set_sets:
  assumes "attr_wf env s ess" "0 \<le> sint (iAttrSpecialCount s)" "sint (iAttrSpecialCount s) \<le> int MTATTR_SPECIAL_COUNT"
  shows "\<exists>rc s' ess'. MtReport_Attr_Set env attr v s = Some (rc, s') \<and> attr_wf env s' ess' \<and>
    (\<forall>q. q \<noteq> attr \<longrightarrow> reported s' ess' q = reported s ess q) \<and>
    (rc = 0 \<longrightarrow> (attr, v) \<in> set (concat ess') \<or> ess' = ess \<and> reported s' ess' attr = reported s ess attr + v)"
proof (cases "0 < sint attr \<and> 0 < sint v")
  case True
  have ws: "tables_rep env 0 (stAttrHash s) ess" "unat (0 :: u8) + length (stAttrHash s) \<le> 10"
    using assms(1) by (auto simp: attr_wf_def MTATTR_SHM_DEF_COUNT_def)
  obtain r ws' ess' where 1: "attr_tables env attr (\<lambda>n. n\<lparr>iCurValue := v\<rparr>) v 0 0 0 (stAttrHash s) = Some (Inr r, ws')"
    "length ws' = length (stAttrHash s)" "tables_rep env 0 ws' ess'"
    "\<forall>q. q \<noteq> attr \<longrightarrow> total (concat ess') q = total (concat ess) q"
    "if r then (attr, v) \<in> set (concat ess') else ess' = ess"
    using attr_tables_set [OF ws, of attr v 0] by blast
  obtain rc s' where 2: "attr_report env attr (\<lambda>n. n\<lparr>iCurValue := v\<rparr>) v s = Some (rc, s')" "attr_wf env s' ess'"
    "if r then rc = 0 \<and> spec_entries s' = spec_entries s
     else (rc = 0 \<or> rc = -1 \<and> sint (iAttrSpecialCount s) = int MTATTR_SPECIAL_COUNT) \<and>
       (\<forall>q. total (spec_entries s') q = total (spec_entries s) q + (if rc = 0 \<and> q = attr then v else 0))"
    using attr_report_tables [OF assms(1) _ _ 1(1,3,2) assms(2,3)] True by blast
  show ?thesis
    unfolding MtReport_Attr_Set_def using 1(4,5) 2
    by (intro exI [of _ rc] exI [of _ s'] exI [of _ ess']) (auto simp: reported_def split: if_splits)
next
  case False
  then have "MtReport_Attr_Set env attr v s = Some (-1, s)"
    using assms(1) by (auto simp: MtReport_Attr_Set_def attr_wf_def intro!: attr_report_refuses)
  then show ?thesis using assms(1) by auto
qed

subsection \<open>String attributes\<close>

lemma copy_name_take: "copy_name (take 64 s) b = copy_name s b"
  by (simp add: copy_name_def strncpy_def)

lemma str_record_take: "str_record attr (take 64 s) = str_record attr s"
  by (simp add: str_record_def copy_name_take)

lemma str_loop_step:
  assumes "\<not> 10 < c"
  shows "str_loop env attr pstr (\<lambda>n. n\<lparr>iStrVal := f (iStrVal n)\<rparr>) v c b w =
    (case str_step (ae_str env) (attr, take 64 pstr) f v b w of
       None \<Rightarrow> None
     | Some (r, b, w) \<Rightarrow>
         if r = Busy then str_loop env attr pstr (\<lambda>n. n\<lparr>iStrVal := f (iStrVal n)\<rparr>) v (Suc c) b w else Some (Inr (), w))"
  using assms
  by (subst str_loop.simps) (simp add: Let_def str_short_key_def str_record_take copy_name_take)

lemma str_loop_add:
  assumes "str_rep (ae_str env) w es" "0 \<notin> set pstr"
    and "c + claim_left sa_bSyncProcess (str_short_key (attr, take 64 pstr)) w \<le> 10"
  shows "\<exists>w' es' done'. str_loop env attr pstr (\<lambda>n. n\<lparr>iStrVal := iStrVal n + v\<rparr>) v c b w = Some (Inr (), w') \<and>
    str_rep (ae_str env) w' es' \<and>
    (if done' then \<forall>q. total es' q = total es q + (if q = (attr, take 64 pstr) then v else 0)
     else es' = es \<and> table_full (str_short_key (attr, take 64 pstr)) w)"
  using assms
proof (induction "claim_left sa_bSyncProcess (str_short_key (attr, take 64 pstr)) w" arbitrary: w es c b rule: less_induct)
  case less
  let ?k = "(attr, take 64 pstr)"
  have k: "str_key_ok ?k" using less.prems(2) by (auto simp: str_key_ok_def dest: in_set_takeD)
  obtain r b1 w' es' where 1: "str_step (ae_str env) ?k (\<lambda>u. u + v) v b w = Some (r, b1, w')"
    "str_rep (ae_str env) w' es'" "\<forall>q. total es' q = total es q + (if r = Reported \<and> q = ?k then v else 0)"
    "r \<noteq> Reported \<longrightarrow> es' = es"
    "r = Busy \<longrightarrow> claim_left sa_bSyncProcess (str_short_key ?k) w' < claim_left sa_bSyncProcess (str_short_key ?k) w \<and>
       \<not> table_full (str_short_key ?k) w'" "r = NoRoom \<longrightarrow> table_full (str_short_key ?k) w"
    using st.add_step [OF less.prems(1) k, of v b] by blast
  have c: "\<not> 10 < c" using less.prems(3) by simp
  note run = str_loop_step [OF c, of env attr pstr "\<lambda>u. u + v" v b w, unfolded 1(1) option.case prod.case]
  show ?case
  proof (cases r)
    case Reported
    then show ?thesis using run 1 by (intro exI [of _ w'] exI [of _ es'] exI [of _ True]) simp
  next
    case NoRoom
    then show ?thesis using run 1 by (intro exI [of _ w'] exI [of _ es'] exI [of _ False]) simp
  next
    case Busy
    obtain w2 es2 d where "str_loop env attr pstr (\<lambda>n. n\<lparr>iStrVal := iStrVal n + v\<rparr>) v (Suc c) b1 w' = Some (Inr (), w2)"
      "str_rep (ae_str env) w2 es2" "if d then \<forall>q. total es2 q = total es' q + (if q = ?k then v else 0)
       else es2 = es' \<and> table_full (str_short_key ?k) w'"
      using less.hyps [of w' es' "Suc c" b1] 1(2,5) Busy less.prems by auto
    then show ?thesis using run Busy 1 by (intro exI [of _ w2] exI [of _ es2] exI [of _ True]) (auto split: if_splits)
  qed
qed

text \<open>
  C33. \<open>MtReport_Str_Attr_Add\<close> on an initialised store never gives up with \<open>-2\<close> when no other process
  interferes: for positive arguments it returns 0, and the sum recorded for the number and the
  first 64 characters of the string has grown by the value, unless all candidate nodes of the key
  are in use; then the report is dropped, still with result 0.
\<close>

theorem Str_Attr_Add_counts:
  assumes "cIsAttrInit s \<noteq> 0" "str_rep (ae_str env) (stStrAttrHash s) es" "0 \<notin> set pstr" "0 < sint attr" "0 < sint v"
  shows "\<exists>s' es'. MtReport_Str_Attr_Add env attr pstr v s = Some (0, s') \<and> str_rep (ae_str env) (stStrAttrHash s') es' \<and>
    ((\<forall>q. total es' q = total es q + (if q = (attr, take 64 pstr) then v else 0)) \<or>
     es' = es \<and> table_full (str_short_key (attr, take 64 pstr)) (stStrAttrHash s))"
proof -
  have "0 + claim_left sa_bSyncProcess (str_short_key (attr, take 64 pstr)) (stStrAttrHash s) \<le> 10"
    using claim_left_bound [of sa_bSyncProcess "str_short_key (attr, take 64 pstr)" "stStrAttrHash s"] by simp
  from str_loop_add [OF assms(2,3) this, of v 0] obtain w' es' d where
    1: "str_loop env attr pstr (\<lambda>n. n\<lparr>iStrVal := iStrVal n + v\<rparr>) v 0 0 (stStrAttrHash s) = Some (Inr (), w')"
    "str_rep (ae_str env) w' es'" "if d then \<forall>q. total es' q = total es q + (if q = (attr, take 64 pstr) then v else 0)
     else es' = es \<and> table_full (str_short_key (attr, take 64 pstr)) (stStrAttrHash s)"
    by blast
  have "hw_events w' = []" using 1(2) by (simp add: table_rep_def)
  then have "\<exists>s'. MtReport_Str_Attr_Add env attr pstr v s = Some (0, s') \<and> stStrAttrHash s' = w'"
    using 1(1) assms by (simp add: MtReport_Str_Attr_Add_def MtReport_InitAttr_again str_report_def take_events_def)
  then show ?thesis using 1(2,3) by (auto split: if_splits)
qed

subsection \<open>Overrunning the special list\<close>

lemma spec_find_absent:
  assumes "i \<le> n" "i \<le> length xs" "\<forall>x\<in>set xs. iAttrID x \<noteq> attr"
  shows "spec_find attr i n xs = (if n \<le> length xs then Some n else None)"
  using assms
proof (induction attr i n xs rule: spec_find.induct)
  case (1 attr i n xs)
  show ?case
  proof (cases "i < n \<and> i < length xs")
    case True
    moreover from this have "iAttrID (xs ! i) \<noteq> attr" using "1.prems"(3) by simp
    ultimately show ?thesis using 1 by (subst spec_find.simps) auto
  next
    case False
    then show ?thesis using "1.prems" by (subst spec_find.simps) auto
  qed
qed

text \<open>
  \<open>MtReport_Attr_Spec\<close> counts an entry before it checks whether there is room for it: with 200
  entries a report of another attribute fails with \<open>-1\<close>, but leaves the count at 201, and the next
  report of an attribute that is not in the list reads behind the array.
\<close>

theorem Attr_Spec_overruns:
  assumes "cIsAttrInit s \<noteq> 0" "length (sArrtListSpec s) = MTATTR_SPECIAL_COUNT"
    and "sint (iAttrSpecialCount s) = int MTATTR_SPECIAL_COUNT"
    and "\<forall>x\<in>set (sArrtListSpec s). iAttrID x \<noteq> attr \<and> iAttrID x \<noteq> attr2"
    and "0 < sint attr" "0 < sint v" "0 < sint attr2" "0 < sint v2"
  shows "\<exists>s'. MtReport_Attr_Spec env attr v s = Some (-1, s') \<and>
    sint (iAttrSpecialCount s') = int MTATTR_SPECIAL_COUNT + 1 \<and> MtReport_Attr_Spec env attr2 v2 s' = None"
proof -
  have succ: "sint (iAttrSpecialCount s + 1) = int MTATTR_SPECIAL_COUNT + 1"
    unfolding assms(3) [symmetric] using assms(3) by (intro u32_succ) (simp_all add: MTATTR_SPECIAL_COUNT_def)
  have find: "spec_find a 0 n (sArrtListSpec s) = (if n \<le> MTATTR_SPECIAL_COUNT then Some n else None)"
    if "a \<in> {attr, attr2}" for a n
    using spec_find_absent [of 0 n "sArrtListSpec s" a] assms(2,4) that by auto
  let ?s = "s\<lparr>dwAttrReportBySpecCount := dwAttrReportBySpecCount s + 1,
    iAttrSpecialCount := iAttrSpecialCount s + 1, wAttrReportFailed := wAttrReportFailed s + 1\<rparr>"
  have "MtReport_Attr_Spec env attr v s = Some (-1, ?s)"
    using assms(1,3,5,6) find [of attr "MTATTR_SPECIAL_COUNT"]
    by (simp add: MtReport_Attr_Spec_def MtReport_InitAttr_again attr_spec_body_def)
  moreover have "nat (int MTATTR_SPECIAL_COUNT + 1) = Suc MTATTR_SPECIAL_COUNT" by simp
  then have "MtReport_Attr_Spec env attr2 v2 ?s = None"
    using assms(1,7,8) find [of attr2 "Suc MTATTR_SPECIAL_COUNT"] succ
    by (simp add: MtReport_Attr_Spec_def MtReport_InitAttr_again attr_spec_body_def)
  ultimately show ?thesis using succ by (intro exI [of _ ?s]) simp
qed

subsection \<open>Witnesses\<close>

text \<open>Empty tables of 55 nodes, an idle environment, and a store made of them.\<close>

definition small_tab :: "u32 \<Rightarrow> ('d \<Rightarrow> 'd \<Rightarrow> int) \<Rightarrow> 'd SharedHashTable" where
  "small_tab sz cmp = \<lparr>dwNodeSize = sz, dwNodeCount = 11, dwRealNodeCount = 55, dwShareMemBytes = 744,
     dwNodeNums = [10, 9, 8, 7, 6, 5, 4, 3, 2, 1], dwLastUpdateTime = 0, bInitSuccess = 1,
     bAccessCheck = 0, dwCurIndex = 55, dwCurIndexRevers = 55, fun_cmp = Some cmp, fun_war = False, pHash = 1000\<rparr>"

definition small_world :: "u32 \<Rightarrow> ('d \<Rightarrow> 'd \<Rightarrow> int) \<Rightarrow> 'd \<Rightarrow> 'd HashWorld" where
  "small_world sz cmp d = \<lparr>hw_tab = small_tab sz cmp,
     hw_seg = \<lparr>seg_head = \<lparr>dwNodeStartIndex = 55, dwNodeEndIndex = 55, dwNodeUseCount = 0,
                 th_dwNodeSize = sz, th_dwNodeCount = 11, dwWriteProcessId = 0, dwLastUseTimeSec = 0,
                 bHashUseFlag = 0\<rparr>,
               seg_nodes = (\<lambda>_. zero_node_head), seg_data = (\<lambda>i. d), seg_slots = 55\<rparr>,
     hw_tick = 0, hw_events = []\<rparr>"

definition idle_env :: "'d \<Rightarrow> 'd HashEnv" where
  "idle_env z = \<lparr>env_time = (\<lambda>n. 0), env_pid = 17, env_sleep = (\<lambda>n s. s), env_zero = z\<rparr>"

lemma small_world_rep:
  assumes "ok d"
  shows "table_rep (idle_env z) cmp entry ok (small_world sz cmp d) []"
proof -
  have "table_wf (small_world sz cmp d) []"
    by (auto simp: table_wf_def dll_def small_world_def small_tab_def zero_node_head_def)
  moreover have "rows_wf (small_tab sz cmp)" by (simp add: rows_wf_def small_tab_def STATIC_HASH_ROW_MAX_def)
  ultimately show ?thesis
    using assms
    by (auto simp: table_rep_def small_world_def writable_def quiet_def idle_env_def intro!: exI [of _ "[]"])
      (simp_all add: small_tab_def)
qed

definition zero_attr :: AttrNode where
  "zero_attr = \<lparr>bSyncProcess = 0, iAttrID = 0, iCurValue = 0\<rparr>"

definition zero_str :: StrAttrNode where
  "zero_str = \<lparr>sa_bSyncProcess = 0, szStrInfo = replicate 65 0, iStrAttrId = 0, iStrVal = 0\<rparr>"

definition demo_attr_env :: AttrEnv where
  "demo_attr_env = \<lparr>ae_tab = (\<lambda>_. idle_env zero_attr), ae_str = idle_env zero_str, ae_now = 99\<rparr>"

definition demo_store :: "u32 \<Rightarrow> MtAttr" where
  "demo_store n = \<lparr>at_attached = True, cIsAttrInit = 1, shm_cIsAttrInit = 1, shm_cIsStrAttrInit = 1,
     szAttrList = 1000, szStrAttrBuf = 9000, stAttrHash = replicate 5 (small_world 9 mtreport_attr_cmp zero_attr),
     stStrAttrHash = small_world 74 mtreport_str_attr_cmp zero_str, iAttrSpecialCount = n,
     sArrtListSpec = replicate 200 (zero_attr\<lparr>iAttrID := 5\<rparr>), wAttrReportFailed = 0, dwAttrReportBySpecCount = 0,
     dwAttrReportCount = 0, iPluginIndex = -1, stPluginInfo = []\<rparr>"

lemma demo_store_wf: "attr_wf demo_attr_env (demo_store n) [[], [], [], [], []]"
  using small_world_rep [of "\<lambda>_. True" zero_attr zero_attr mtreport_attr_cmp attr_entry 9]
  by (simp add: attr_wf_def demo_store_def demo_attr_env_def MTATTR_SHM_DEF_COUNT_def MTATTR_SPECIAL_COUNT_def
      numeral_eq_Suc)

theorem Attr_Add_counts_witness:
  "\<exists>rc s' ess'. MtReport_Attr_Add demo_attr_env 7 3 (demo_store 0) = Some (rc, s') \<and> attr_wf demo_attr_env s' ess' \<and>
    rc = 0 \<and> reported s' ess' 7 = 3 \<and> reported s' ess' 8 = 0"
proof -
  obtain rc s' ess' where 1: "MtReport_Attr_Add demo_attr_env 7 3 (demo_store 0) = Some (rc, s')"
    "attr_wf demo_attr_env s' ess'"
    "rc = 0 \<or> rc = -1 \<and> (sint (7 :: u32) \<le> 0 \<or> sint (3 :: u32) \<le> 0 \<or>
      sint (iAttrSpecialCount (demo_store 0)) = int MTATTR_SPECIAL_COUNT)"
    "\<forall>q. reported s' ess' q = reported (demo_store 0) [[], [], [], [], []] q + (if rc = 0 \<and> q = 7 then 3 else 0)"
    using Attr_Add_counts [OF demo_store_wf, of 0 7 3] by (auto simp: demo_store_def MTATTR_SPECIAL_COUNT_def)
  have "rc = 0" using 1(3) by (auto simp: demo_store_def MTATTR_SPECIAL_COUNT_def)
  then show ?thesis using 1 by (auto simp: reported_def spec_entries_def demo_store_def)
qed

theorem Attr_Set_sets_witness:
  "\<exists>rc s' ess'. MtReport_Attr_Set demo_attr_env 7 3 (demo_store 0) = Some (rc, s') \<and> attr_wf demo_attr_env s' ess' \<and>
    (\<forall>q. q \<noteq> 7 \<longrightarrow> reported s' ess' q = 0)"
proof -
  have "reported (demo_store 0) [[], [], [], [], []] q = 0" for q
    by (simp add: reported_def spec_entries_def demo_store_def)
  moreover have "0 \<le> sint (iAttrSpecialCount (demo_store 0))"
    "sint (iAttrSpecialCount (demo_store 0)) \<le> int MTATTR_SPECIAL_COUNT"
    by (simp_all add: demo_store_def MTATTR_SPECIAL_COUNT_def)
  ultimately show ?thesis using Attr_Set_sets [OF demo_store_wf, of 0 7 3] by metis
qed

theorem Str_Attr_Add_counts_witness:
  "\<exists>s' es'. MtReport_Str_Attr_Add demo_attr_env 7 [65, 66] 3 (demo_store 0) = Some (0, s') \<and>
    str_rep (ae_str demo_attr_env) (stStrAttrHash s') es' \<and>
    ((\<forall>q. total es' q = 0 + (if q = (7, [65, 66]) then 3 else 0)) \<or>
     es' = [] \<and> table_full (str_short_key (7, [65, 66])) (stStrAttrHash (demo_store 0)))"
proof -
  have rep: "str_rep (ae_str demo_attr_env) (stStrAttrHash (demo_store 0)) []"
    unfolding demo_attr_env_def demo_store_def AttrEnv.simps MtAttr.simps
    by (rule small_world_rep) (simp add: str_ok_def zero_str_def)
  show ?thesis
    using Str_Attr_Add_counts [OF _ rep, of "[65, 66]" 7 3] by (simp add: demo_store_def)
qed

theorem Attr_Spec_overruns_witness:
  "\<exists>s'. MtReport_Attr_Spec demo_attr_env 7 3 (demo_store 200) = Some (-1, s') \<and>
    sint (iAttrSpecialCount s') = 201 \<and> MtReport_Attr_Spec demo_attr_env 8 1 s' = None"
proof -
  have "\<exists>s'. MtReport_Attr_Spec demo_attr_env 7 3 (demo_store 200) = Some (-1, s') \<and>
    sint (iAttrSpecialCount s') = int MTATTR_SPECIAL_COUNT + 1 \<and> MtReport_Attr_Spec demo_attr_env 8 1 s' = None"
    by (rule Attr_Spec_overruns) (simp_all add: demo_store_def MTATTR_SPECIAL_COUNT_def zero_attr_def)
  then show ?thesis by (simp add: MTATTR_SPECIAL_COUNT_def)
qed

end
