(* ===== verification/Cfg.thy ===== *)
theory Cfg
  imports Prelude
begin

text \<open>
  \<open>language/c_cpp/sv_cfg.c\<close>: reading configuration files of lines \<open>NAME value\<close>, plugin version
  numbers and log type names. A C string is the list of its characters without the final NUL;
  files are text without NUL characters.
\<close>

subsection \<open>The functions of the C library that the component uses\<close>

definition nl :: char where "nl = CHR 0x0A"

definition isspace :: "char \<Rightarrow> bool" where
  "isspace c \<longleftrightarrow> c \<in> {CHR '' '', CHR 0x09, CHR 0x0A, CHR 0x0B, CHR 0x0C, CHR 0x0D}"

definition digit_of :: "char \<Rightarrow> nat option" where
  "digit_of c = (let n = of_char c :: nat in
     if 48 \<le> n \<and> n \<le> 57 then Some (n - 48)
     else if 97 \<le> n \<and> n \<le> 122 then Some (n - 87)
     else if 65 \<le> n \<and> n \<le> 90 then Some (n - 55) else None)"

definition digit_in :: "nat \<Rightarrow> char \<Rightarrow> bool" where
  "digit_in base c = (case digit_of c of Some d \<Rightarrow> d < base | None \<Rightarrow> False)"

definition digits_val :: "nat \<Rightarrow> string \<Rightarrow> nat" where
  "digits_val base ds = foldl (\<lambda>n c. n * base + (case digit_of c of Some d \<Rightarrow> d | None \<Rightarrow> 0)) 0 ds"

definition scan_sign :: "string \<Rightarrow> bool \<times> string" where
  "scan_sign s = (case s of c # t \<Rightarrow> if c = CHR ''-'' then (True, t) else if c = CHR ''+'' then (False, t) else (False, s)
     | [] \<Rightarrow> (False, s))"

text \<open>A decimal number behind optional white space and sign; \<open>None\<close> when there is no digit.\<close>

definition scan_int :: "string \<Rightarrow> (int \<times> string) option" where
  "scan_int s = (case scan_sign (dropWhile isspace s) of (neg, t) \<Rightarrow>
     let ds = takeWhile (digit_in 10) t; n = int (digits_val 10 ds) in
     if ds = [] then None else Some (if neg then - n else n, dropWhile (digit_in 10) t))"

text \<open>\<open>strtol\<close> saturates at the bounds of a 64-bit \<open>long\<close>.\<close>

definition saturate :: "int \<Rightarrow> int" where
  "saturate n = (if n < - (2 ^ 63) then - (2 ^ 63) else if 2 ^ 63 - 1 < n then 2 ^ 63 - 1 else n)"

definition atol :: "string \<Rightarrow> u64" where
  "atol s = (case scan_int s of Some (n, t) \<Rightarrow> word_of_int (saturate n) | None \<Rightarrow> 0)"

definition atoi :: "string \<Rightarrow> u32" where
  "atoi s = (case scan_int s of Some (n, t) \<Rightarrow> word_of_int (saturate n) | None \<Rightarrow> 0)"

text \<open>\<open>strtoul(s, NULL, 0)\<close>: hexadecimal behind \<open>0x\<close>, octal behind \<open>0\<close>, else decimal.\<close>

definition strtoull0 :: "string \<Rightarrow> u64" where
  "strtoull0 s = (case scan_sign (dropWhile isspace s) of (neg, t) \<Rightarrow>
     let hex = (case t of a # b # c # u \<Rightarrow> a = CHR ''0'' \<and> (b = CHR ''x'' \<or> b = CHR ''X'') \<and> digit_in 16 c | _ \<Rightarrow> False);
         base = (if hex then 16 else case t of a # u \<Rightarrow> if a = CHR ''0'' then 8 else 10 | [] \<Rightarrow> 10);
         n = digits_val base (takeWhile (digit_in base) (if hex then drop 2 t else t))
     in if 2 ^ 64 \<le> n then - 1 else if neg then - of_nat n else of_nat n)"

fun has_sub :: "string \<Rightarrow> string \<Rightarrow> bool" where
  "has_sub pat [] = (pat = [])"
| "has_sub pat (c # s) = (take (length pat) (c # s) = pat \<or> has_sub pat s)"

text \<open>
  \<open>fgets\<close> with a buffer of \<open>n + 1\<close> bytes: at most \<open>n\<close> characters, up to and including a newline;
  the rest of the file; and whether the end of the file was met (\<open>feof\<close>).
\<close>

fun fgets :: "nat \<Rightarrow> string \<Rightarrow> string \<times> string \<times> bool" where
  "fgets 0 f = ([], f, False)"
| "fgets (Suc n) [] = ([], [], True)"
| "fgets (Suc n) (c # f) = (if c = nl then ([c], f, False)
     else case fgets n f of (l, r, e) \<Rightarrow> (c # l, r, e))"

lemma fgets_rest: "fgets n f = (l, r, e) \<Longrightarrow> f = l @ r \<and> (l = [] \<longrightarrow> n = 0 \<or> e)"
  by (induction n f arbitrary: l r e rule: fgets.induct) (auto split: if_splits prod.splits)

text \<open>The decimal digits of \<open>%u\<close>, and \<open>%d\<close>.\<close>

fun dec :: "nat \<Rightarrow> string" where
  "dec n = (if n < 10 then [char_of (48 + n)] else dec (n div 10) @ [char_of (48 + n mod 10)])"

declare dec.simps [simp del]

definition show_int :: "int \<Rightarrow> string" where
  "show_int n = (if n < 0 then CHR ''-'' # dec (nat (- n)) else dec (nat n))"

definition MAX_CONFIG_LINE_LEN :: nat where
  "MAX_CONFIG_LINE_LEN = 1023"

subsection \<open>Versions and file names\<close>

fun get_char_count :: "string \<Rightarrow> char \<Rightarrow> nat" where
  "get_char_count [] c = 0"
| "get_char_count (x # s) c = (if x = c then Suc (get_char_count s c) else get_char_count s c)"

text \<open>
  \<open>sscanf(s, "%*[vV]%d.%d.%d", &x, &y, &z)\<close> with the three variables initialised to 0: scanning
  stops at the first directive that does not match.
\<close>

definition scan_dot :: "string \<Rightarrow> string option" where
  "scan_dot s = (case s of c # t \<Rightarrow> if c = CHR ''.'' then Some t else None | [] \<Rightarrow> None)"

definition scan_version :: "string \<Rightarrow> u32 \<times> u32 \<times> u32" where
  "scan_version s =
     (let vs = takeWhile (\<lambda>c. c = CHR ''v'' \<or> c = CHR ''V'') s; int32 = (\<lambda>n. word_of_int (saturate n)) in
      if vs = [] then (0, 0, 0)
      else case scan_int (drop (length vs) s) of
        None \<Rightarrow> (0, 0, 0)
      | Some (x, t) \<Rightarrow> (case scan_dot t \<bind> scan_int of
          None \<Rightarrow> (int32 x, 0, 0)
        | Some (y, t) \<Rightarrow> (case scan_dot t \<bind> scan_int of
            None \<Rightarrow> (int32 x, int32 y, 0)
          | Some (z, t) \<Rightarrow> (int32 x, int32 y, int32 z))))"

definition IsPluginVersionOk :: "string \<Rightarrow> string \<Rightarrow> bool" where
  "IsPluginVersionOk pbig_eq psmall =
     (if get_char_count pbig_eq (CHR ''.'') = 2 then
        case scan_version pbig_eq of (b1, b2, b3) \<Rightarrow>
        if get_char_count psmall (CHR ''.'') = 2 then
          case scan_version psmall of (s1, s2, s3) \<Rightarrow>
          if b1 \<noteq> s1 \<or> b2 \<noteq> s2 then False else sint s3 \<le> sint b3
        else False
      else False)"

text \<open>
  \<open>dup_ok\<close>: whether \<open>strdup\<close> found memory; \<open>out_ok\<close>: whether \<open>pconfOut\<close> is not null. Without a
  slash in the path the code formats a null pointer (\<open>None\<close>).
\<close>

definition GetConfigFile :: "bool \<Rightarrow> string \<Rightarrow> bool \<Rightarrow> (int \<times> string) option" where
  "GetConfigFile dup_ok pAppStr out_ok =
     (if \<not> out_ok then Some (-1, [])
      else if \<not> dup_ok then Some (-2, [])
      else if CHR ''/'' \<in> set pAppStr
      then Some (0, take 255 (rev (takeWhile (\<lambda>c. c \<noteq> CHR ''/'') (rev pAppStr)) @ ''.conf''))
      else None)"

subsection \<open>Splitting a line\<close>

definition val_space :: "char \<Rightarrow> bool" where
  "val_space c \<longleftrightarrow> c \<in> {CHR '' '', CHR 0x09, CHR 0x0A, CHR 0x0D, CHR 0x0B}"

text \<open>
  The loop of \<open>get_val\<close>: \<open>first\<close> says that \<open>srcp == src\<close>; the result is what was copied to \<open>desc\<close>
  and where \<open>srcp\<close> stands.
\<close>

fun get_val_loop :: "nat \<Rightarrow> bool \<Rightarrow> bool \<Rightarrow> string \<Rightarrow> string \<times> string" where
  "get_val_loop mtime space first [] = ([], [])"
| "get_val_loop mtime space first (c # s) =
     (if mtime = 2 then ([], c # s)
      else if val_space c then get_val_loop mtime True False s
      else let mtime = (if space \<or> first then mtime + 1 else mtime) in
        if mtime = 2 then ([], c # s)
        else case get_val_loop mtime False False s of (d, r) \<Rightarrow> (c # d, r))"

text \<open>The word written to \<open>desc\<close> and the new contents of \<open>src\<close>.\<close>

definition get_val :: "string \<Rightarrow> string \<times> string" where
  "get_val src = get_val_loop 0 False True src"

definition get_config_val :: "string \<Rightarrow> string \<times> string" where
  "get_config_val src = get_val src"

subsection \<open>Parameters\<close>

text \<open>
  The arguments of \<open>LoadConfig\<close> behind the file name: a name, the variable the pointer argument
  denotes, and the type with its default value (and the buffer size for strings). Doubles and
  \<open>atof\<close> are parameters.
\<close>

datatype 'f cfg_type = CFG_LINE string nat | CFG_STRING string nat | CFG_LONG u64 | CFG_INT u32
  | CFG_DOUBLE 'f | CFG_UINT32 u32 | CFG_UINT64 u64

record 'f cfg_param =
  cp_name :: string
  cp_var :: string
  cp_type :: "'f cfg_type"

datatype 'f cfg_val = VStr string | VLong u64 | VInt u32 | VDouble 'f | VUint32 u32 | VUint64 u64

type_synonym 'f cfg_store = "string \<Rightarrow> 'f cfg_val option"

text \<open>\<open>strncpy(sVal, s, lSize - 1); sVal[lSize - 1] = 0;\<close> A size of 0 overruns the buffer (\<open>None\<close>).\<close>

definition put_str :: "nat \<Rightarrow> string \<Rightarrow> 'f cfg_val option" where
  "put_str lSize s = (if lSize = 0 then None else Some (VStr (take (lSize - 1) s)))"

definition default_val :: "'f cfg_type \<Rightarrow> 'f cfg_val option" where
  "default_val t = (case t of CFG_LINE d n \<Rightarrow> put_str n d | CFG_STRING d n \<Rightarrow> put_str n d | CFG_LONG d \<Rightarrow> Some (VLong d)
     | CFG_INT d \<Rightarrow> Some (VInt d) | CFG_DOUBLE d \<Rightarrow> Some (VDouble d) | CFG_UINT32 d \<Rightarrow> Some (VUint32 d)
     | CFG_UINT64 d \<Rightarrow> Some (VUint64 d))"

fun InitDefault :: "'f cfg_param list \<Rightarrow> 'f cfg_store \<Rightarrow> 'f cfg_store option" where
  "InitDefault [] st = Some st"
| "InitDefault (p # ps) st = do {
     v \<leftarrow> default_val (cp_type p);
     InitDefault ps (st(cp_var p \<mapsto> v))
   }"

text \<open>The value for a parameter from the rest of the line \<open>sV\<close>: all of it, or its first word.\<close>

definition parse_val :: "(string \<Rightarrow> 'f) \<Rightarrow> 'f cfg_type \<Rightarrow> string \<Rightarrow> 'f cfg_val option" where
  "parse_val atof t sV = (let w = fst (get_val sV) in
     case t of CFG_LINE d n \<Rightarrow> put_str n sV | CFG_STRING d n \<Rightarrow> put_str n w | CFG_LONG d \<Rightarrow> Some (VLong (atol w))
     | CFG_INT d \<Rightarrow> Some (VInt (atoi w)) | CFG_DOUBLE d \<Rightarrow> Some (VDouble (atof w))
     | CFG_UINT32 d \<Rightarrow> Some (VUint32 (ucast (strtoull0 w))) | CFG_UINT64 d \<Rightarrow> Some (VUint64 (strtoull0 w)))"

fun SetVal :: "(string \<Rightarrow> 'f) \<Rightarrow> string \<Rightarrow> string \<Rightarrow> 'f cfg_param list \<Rightarrow> 'f cfg_store \<Rightarrow> 'f cfg_store option" where
  "SetVal atof sP sV [] st = Some st"
| "SetVal atof sP sV (p # ps) st =
     (if sP = cp_name p then do { v \<leftarrow> parse_val atof (cp_type p) sV; Some (st(cp_var p \<mapsto> v)) }
      else SetVal atof sP sV ps st)"

text \<open>\<open>None\<close> is the return 1 for comments.\<close>

definition GetParamVal :: "string \<Rightarrow> (string \<times> string) option" where
  "GetParamVal sLine =
     (if take 1 sLine = ''#'' then None
      else case get_val sLine of (sParam, sVal) \<Rightarrow> if take 1 sParam = ''#'' then None else Some (sParam, sVal))"

subsection \<open>Files\<close>

text \<open>The reading loop over the rest \<open>f\<close> of the file.\<close>

function check_lines :: "string \<Rightarrow> int" where
  "check_lines f = (case fgets MAX_CONFIG_LINE_LEN f of (sLine, r, eof) \<Rightarrow>
     if eof then 0
     else case GetParamVal sLine of
       Some (sParam, sVal) \<Rightarrow> if CHR '';'' \<in> set sVal then -1 else check_lines r
     | None \<Rightarrow> check_lines r)"
  by pat_completeness auto
termination
  by (relation "measure length") (auto dest!: fgets_rest [OF sym] simp: MAX_CONFIG_LINE_LEN_def)

declare check_lines.simps [simp del]

text \<open>A file that cannot be opened is \<open>None\<close>.\<close>

definition CheckPluginConfig :: "string option \<Rightarrow> int" where
  "CheckPluginConfig file = (case file of None \<Rightarrow> -1 | Some f \<Rightarrow> check_lines f)"

function load_lines :: "(string \<Rightarrow> 'f) \<Rightarrow> 'f cfg_param list \<Rightarrow> string \<Rightarrow> 'f cfg_store \<Rightarrow> 'f cfg_store option" where
  "load_lines atof ps f st = (case fgets MAX_CONFIG_LINE_LEN f of (sLine, r, eof) \<Rightarrow>
     if eof then Some st
     else case GetParamVal sLine of
       Some (sParam, sVal) \<Rightarrow> (case SetVal atof sParam sVal ps st of None \<Rightarrow> None | Some st \<Rightarrow> load_lines atof ps r st)
     | None \<Rightarrow> load_lines atof ps r st)"
  by pat_completeness auto
termination
  by (relation "measure (\<lambda>(atof, ps, f, st). length f)")
    (auto dest!: fgets_rest [OF sym] simp: MAX_CONFIG_LINE_LEN_def)

declare load_lines.simps [simp del]

definition LoadConfig :: "(string \<Rightarrow> 'f) \<Rightarrow> string option \<Rightarrow> 'f cfg_param list \<Rightarrow> 'f cfg_store \<Rightarrow> (int \<times> 'f cfg_store) option" where
  "LoadConfig atof file ps st = do {
     st \<leftarrow> InitDefault ps st;
     case file of
       None \<Rightarrow> Some (-1, st)
     | Some f \<Rightarrow> map_option (Pair 0) (load_lines atof ps f st)
   }"

subsection \<open>Log types\<close>

definition MTLOG_TYPE_OTHER :: u32 where "MTLOG_TYPE_OTHER = 1"
definition MTLOG_TYPE_DEBUG :: u32 where "MTLOG_TYPE_DEBUG = 2"
definition MTLOG_TYPE_INFO :: u32 where "MTLOG_TYPE_INFO = 4"
definition MTLOG_TYPE_WARN :: u32 where "MTLOG_TYPE_WARN = 8"
definition MTLOG_TYPE_REQERR :: u32 where "MTLOG_TYPE_REQERR = 16"
definition MTLOG_TYPE_ERROR :: u32 where "MTLOG_TYPE_ERROR = 32"
definition MTLOG_TYPE_FATAL :: u32 where "MTLOG_TYPE_FATAL = 64"
definition MTLOG_TYPE_PLUGIN_TABLE :: u32 where "MTLOG_TYPE_PLUGIN_TABLE = 128"

text \<open>A null pointer is \<open>None\<close>.\<close>

definition GetLogTypeByStr :: "string option \<Rightarrow> u32" where
  "GetLogTypeByStr pstrType = (case pstrType of None \<Rightarrow> 0 | Some s \<Rightarrow>
     if s = [] then 0
     else if has_sub ''all'' s then 255
     else (if has_sub ''debug'' s then MTLOG_TYPE_DEBUG else 0) + (if has_sub ''info'' s then MTLOG_TYPE_INFO else 0)
        + (if has_sub ''warn'' s then MTLOG_TYPE_WARN else 0) + (if has_sub ''reqerr'' s then MTLOG_TYPE_REQERR else 0)
        + (if has_sub ''error'' s then MTLOG_TYPE_ERROR else 0) + (if has_sub ''fatal'' s then MTLOG_TYPE_FATAL else 0))"

end
