(* ===== verification/Cfg_Props.thy ===== *)
theory Cfg_Props
  imports Cfg
begin

text \<open>
  Properties of the configuration reader: what a line is split into, which value a parameter
  gets from a file, and when two plugin versions match.
\<close>

subsection \<open>Lines\<close>

lemma get_val_loop_1:
  "get_val_loop 1 True False s = ([], dropWhile val_space s)"
  "get_val_loop 1 False False s = (takeWhile (\<lambda>c. \<not> val_space c) s,
     dropWhile val_space (dropWhile (\<lambda>c. \<not> val_space c) s))"
proof -
  show 1: "get_val_loop 1 True False s = ([], dropWhile val_space s)" for s
    by (induction s) auto
  show "get_val_loop 1 False False s = (takeWhile (\<lambda>c. \<not> val_space c) s,
     dropWhile val_space (dropWhile (\<lambda>c. \<not> val_space c) s))"
    by (induction s) (use 1 in \<open>auto simp: Let_def\<close>)
qed

lemma get_val_loop_0:
  "get_val_loop 0 True False s = (takeWhile (\<lambda>c. \<not> val_space c) (dropWhile val_space s),
     dropWhile val_space (dropWhile (\<lambda>c. \<not> val_space c) (dropWhile val_space s)))"
  by (induction s) (auto simp: Let_def get_val_loop_1 [simplified])

lemma get_val_split:
  "get_val s = (takeWhile (\<lambda>c. \<not> val_space c) (dropWhile val_space s),
     dropWhile val_space (dropWhile (\<lambda>c. \<not> val_space c) (dropWhile val_space s)))"
  by (cases s) (auto simp: get_val_def Let_def get_val_loop_0 get_val_loop_1 [simplified])

lemma fgets_line:
  assumes "nl \<notin> set l" "length l < n"
  shows "fgets n (l @ nl # r) = (l @ [nl], r, False)"
  using assms
proof (induction l arbitrary: n)
  case Nil
  then show ?case by (cases n) auto
next
  case (Cons c l)
  then obtain m where "n = Suc m" by (cases n) auto
  then show ?case using Cons by auto
qed

lemma fgets_end:
  assumes "nl \<notin> set l" "length l < n"
  shows "fgets n l = (l, [], True)"
  using assms
proof (induction l arbitrary: n)
  case Nil
  then show ?case by (cases n) auto
next
  case (Cons c l)
  then obtain m where "n = Suc m" by (cases n) auto
  then show ?case using Cons by auto
qed

text \<open>A text file: complete lines, and what stands behind the last newline.\<close>

definition text_file :: "string list \<Rightarrow> string \<Rightarrow> string" where
  "text_file ls rest = concat (map (\<lambda>l. l @ [nl]) ls) @ rest"

definition short_line :: "string \<Rightarrow> bool" where
  "short_line l \<longleftrightarrow> nl \<notin> set l \<and> length l < MAX_CONFIG_LINE_LEN"

lemma text_file_Cons: "text_file (l # ls) rest = l @ nl # text_file ls rest"
  by (simp add: text_file_def)

text \<open>The values that the lines give to a name, in order.\<close>

fun given :: "string \<Rightarrow> string list \<Rightarrow> string list" where
  "given n [] = []"
| "given n (l # ls) = (case GetParamVal (l @ [nl]) of
     Some (p, v) \<Rightarrow> if p = n then v # given n ls else given n ls
   | None \<Rightarrow> given n ls)"

definition sized :: "'f cfg_param \<Rightarrow> bool" where
  "sized p \<longleftrightarrow> (case cp_type p of CFG_LINE d n \<Rightarrow> 0 < n | CFG_STRING d n \<Rightarrow> 0 < n | _ \<Rightarrow> True)"

lemma sized_total: "sized p \<Longrightarrow> \<exists>v. default_val (cp_type p) = Some v"
  "sized p \<Longrightarrow> \<exists>v. parse_val atof (cp_type p) s = Some v"
  by (auto simp: sized_def default_val_def parse_val_def put_str_def Let_def split: cfg_type.splits)

lemma InitDefault_run:
  assumes "distinct (map cp_var ps)" "\<forall>p\<in>set ps. sized p"
  shows "\<exists>st'. InitDefault ps st = Some st' \<and> (\<forall>p\<in>set ps. st' (cp_var p) = default_val (cp_type p)) \<and>
    (\<forall>x. x \<notin> cp_var ` set ps \<longrightarrow> st' x = st x)"
  using assms
proof (induction ps arbitrary: st)
  case (Cons p ps)
  obtain v where v: "default_val (cp_type p) = Some v" using sized_total Cons.prems(2) by fastforce
  obtain st' where "InitDefault ps (st(cp_var p \<mapsto> v)) = Some st'"
    "\<forall>q\<in>set ps. st' (cp_var q) = default_val (cp_type q)"
    "\<forall>x. x \<notin> cp_var ` set ps \<longrightarrow> st' x = (st(cp_var p \<mapsto> v)) x"
    using Cons.IH [of "st(cp_var p \<mapsto> v)"] Cons.prems(1,2) unfolding list.map distinct.simps list.set ball_simps
    by blast
  then show ?case using v Cons.prems(1) by auto
qed simp

lemma SetVal_run:
  assumes "distinct (map cp_name ps)" "distinct (map cp_var ps)" "\<forall>p\<in>set ps. sized p"
  shows "\<exists>st'. SetVal atof n v ps st = Some st' \<and>
    (\<forall>p\<in>set ps. st' (cp_var p) = (if cp_name p = n then parse_val atof (cp_type p) v else st (cp_var p))) \<and>
    (\<forall>x. x \<notin> cp_var ` set ps \<longrightarrow> st' x = st x)"
  using assms
proof (induction ps arbitrary: st)
  case (Cons p ps)
  show ?case
  proof (cases "n = cp_name p")
    case True
    obtain x where "parse_val atof (cp_type p) v = Some x" using sized_total(2) Cons.prems(3) by fastforce
    moreover have "cp_name q \<noteq> n" "cp_var q \<noteq> cp_var p" if "q \<in> set ps" for q
      using that Cons.prems(1,2) True by (metis distinct.simps(2) image_eqI list.set_map list.simps(9))+
    ultimately show ?thesis using True by auto
  next
    case False
    obtain st' where "SetVal atof n v ps st = Some st'"
      "\<forall>q\<in>set ps. st' (cp_var q) = (if cp_name q = n then parse_val atof (cp_type q) v else st (cp_var q))"
      "\<forall>x. x \<notin> cp_var ` set ps \<longrightarrow> st' x = st x"
      using Cons.IH [of st] Cons.prems by auto
    moreover have "cp_var p \<notin> cp_var ` set ps" using Cons.prems(2) by simp
    ultimately show ?thesis using False by auto
  qed
qed simp

lemma load_lines_run:
  assumes "distinct (map cp_name ps)" "distinct (map cp_var ps)" "\<forall>p\<in>set ps. sized p"
    and "\<forall>l\<in>set ls. short_line l" "short_line rest"
  shows "\<exists>st'. load_lines atof ps (text_file ls rest) st = Some st' \<and>
    (\<forall>p\<in>set ps. st' (cp_var p) = (if given (cp_name p) ls = [] then st (cp_var p)
       else parse_val atof (cp_type p) (last (given (cp_name p) ls))))"
  using assms(4)
proof (induction ls arbitrary: st)
  case Nil
  have "fgets MAX_CONFIG_LINE_LEN rest = (rest, [], True)"
    using assms(5) by (intro fgets_end) (auto simp: short_line_def)
  then show ?case by (subst load_lines.simps) (simp add: text_file_def)
next
  case (Cons l ls)
  have line: "fgets MAX_CONFIG_LINE_LEN (text_file (l # ls) rest) = (l @ [nl], text_file ls rest, False)"
    unfolding text_file_Cons using Cons.prems by (intro fgets_line) (auto simp: short_line_def)
  show ?case
  proof (cases "GetParamVal (l @ [nl])")
    case None
    have "load_lines atof ps (text_file (l # ls) rest) st = load_lines atof ps (text_file ls rest) st"
      using None by (subst load_lines.simps) (simp add: line)
    moreover have "given n (l # ls) = given n ls" for n using None by simp
    ultimately show ?thesis using Cons.IH [of st] Cons.prems by (metis list.set_intros(2))
  next
    case (Some nv)
    obtain n v where nv: "nv = (n, v)" by (cases nv)
    obtain st1 where 1: "SetVal atof n v ps st = Some st1"
      "\<forall>p\<in>set ps. st1 (cp_var p) = (if cp_name p = n then parse_val atof (cp_type p) v else st (cp_var p))"
      using SetVal_run [OF assms(1-3), of atof n v st] by blast
    obtain st' where 2: "load_lines atof ps (text_file ls rest) st1 = Some st'"
      "\<forall>p\<in>set ps. st' (cp_var p) = (if given (cp_name p) ls = [] then st1 (cp_var p)
         else parse_val atof (cp_type p) (last (given (cp_name p) ls)))"
      using Cons.IH [of st1] Cons.prems by auto
    have "load_lines atof ps (text_file (l # ls) rest) st = Some st'"
      using Some nv 1(1) 2(1) by (subst load_lines.simps) (simp add: line)
    then show ?thesis using Some nv 1(2) 2(2) by auto
  qed
qed

text \<open>
  C35. \<open>LoadConfig\<close> on a file of complete lines below 1023 characters succeeds, and every parameter
  ends up with the value of the last line that names it (comments aside), or with its default when
  no line does. Text behind the last newline is never read as a line.
\<close>

theorem LoadConfig_last_line_wins:
  assumes "distinct (map cp_name ps)" "distinct (map cp_var ps)" "\<forall>p\<in>set ps. sized p"
    and "\<forall>l\<in>set ls. short_line l" "short_line rest"
  shows "\<exists>st'. LoadConfig atof (Some (text_file ls rest)) ps st = Some (0, st') \<and>
    (\<forall>p\<in>set ps. st' (cp_var p) = (if given (cp_name p) ls = [] then default_val (cp_type p)
       else parse_val atof (cp_type p) (last (given (cp_name p) ls))))"
proof -
  obtain st1 where 1: "InitDefault ps st = Some st1" "\<forall>p\<in>set ps. st1 (cp_var p) = default_val (cp_type p)"
    using InitDefault_run [OF assms(2,3), of st] by blast
  show ?thesis
    using load_lines_run [OF assms, of atof st1] 1 by (auto simp: LoadConfig_def)
qed

definition demo_params :: "nat cfg_param list" where
  "demo_params = [\<lparr>cp_name = ''ID'', cp_var = ''iCfgId'', cp_type = CFG_INT 0\<rparr>,
     \<lparr>cp_name = ''NAME'', cp_var = ''szName'', cp_type = CFG_STRING ''x'' 4\<rparr>]"

theorem LoadConfig_last_line_wins_witness:
  "\<exists>st'. LoadConfig length (Some (text_file [''ID 7'', ''#ID 9'', ''ID  12 rest''] ''NAME abc'')) demo_params Map.empty
      = Some (0, st') \<and> st' ''iCfgId'' = Some (VInt 12) \<and> st' ''szName'' = Some (VStr ''x'')"
proof -
  have "\<exists>st'. LoadConfig length (Some (text_file [''ID 7'', ''#ID 9'', ''ID  12 rest''] ''NAME abc'')) demo_params Map.empty
      = Some (0, st') \<and> (\<forall>p\<in>set demo_params. st' (cp_var p)
        = (if given (cp_name p) [''ID 7'', ''#ID 9'', ''ID  12 rest''] = [] then default_val (cp_type p)
           else parse_val length (cp_type p) (last (given (cp_name p) [''ID 7'', ''#ID 9'', ''ID  12 rest'']))))"
    by (rule LoadConfig_last_line_wins) (simp_all add: demo_params_def sized_def short_line_def nl_def MAX_CONFIG_LINE_LEN_def)
  then show ?thesis
    by (simp add: demo_params_def GetParamVal_def get_val_split val_space_def nl_def default_val_def put_str_def
        parse_val_def atoi_def scan_int_def scan_sign_def isspace_def digit_in_def digit_of_def digits_val_def saturate_def)
qed

subsection \<open>Versions\<close>

definition version :: "nat \<Rightarrow> nat \<Rightarrow> nat \<Rightarrow> string" where
  "version a b c = ''v'' @ dec a @ ''.'' @ dec b @ ''.'' @ dec c"

lemma digit_char: "n < 10 \<Longrightarrow> digit_of (char_of (48 + n)) = Some n"
  by (simp add: digit_of_def Let_def)

lemma digit_char_in: "n < 10 \<Longrightarrow> digit_in 10 (char_of (48 + n :: nat))"
  by (simp add: digit_in_def digit_char)

lemma dec_digits: "\<forall>c\<in>set (dec n). digit_in 10 c"
  by (induction n rule: dec.induct) (subst dec.simps, auto simp: digit_char_in)

lemma dec_not_Nil [simp]: "dec n \<noteq> []"
  by (subst dec.simps) simp

lemma dec_val: "digits_val 10 (dec n) = n"
proof (induction n rule: dec.induct)
  case (1 n)
  show ?case
  proof (cases "n < 10")
    case True
    then show ?thesis by (subst dec.simps) (simp add: digits_val_def digit_char)
  next
    case False
    then show ?thesis using 1 by (subst dec.simps) (simp add: digits_val_def digit_char)
  qed
qed

lemma digit_not_special:
  assumes "digit_in 10 c"
  shows "\<not> isspace c" "c \<noteq> CHR ''-''" "c \<noteq> CHR ''+''" "c \<noteq> CHR ''.''" "c \<noteq> CHR ''v''" "c \<noteq> CHR ''V''"
  using assms by (auto simp: isspace_def digit_in_def digit_of_def Let_def)

lemma scan_int_dec:
  assumes "t = [] \<or> \<not> digit_in 10 (hd t)"
  shows "scan_int (dec n @ t) = Some (int n, t)"
proof -
  obtain c s where cs: "dec n = c # s" by (metis dec_not_Nil neq_Nil_conv)
  have c: "digit_in 10 c" using dec_digits [of n] cs by simp
  have "dropWhile isspace (dec n @ t) = dec n @ t" using cs digit_not_special(1) [OF c] by simp
  moreover have "scan_sign (dec n @ t) = (False, dec n @ t)"
    using cs digit_not_special [OF c] by (simp add: scan_sign_def)
  moreover have "takeWhile (digit_in 10) (dec n @ t) = dec n" "dropWhile (digit_in 10) (dec n @ t) = t"
    using dec_digits [of n] assms by (cases t; simp add: takeWhile_append2 dropWhile_append2)+
  ultimately show ?thesis by (simp add: scan_int_def Let_def dec_val)
qed

lemma count_append: "get_char_count (s @ t) c = get_char_count s c + get_char_count t c"
  by (induction s) auto

lemma count_dec: "get_char_count (dec n) (CHR ''.'') = 0"
proof -
  have "\<forall>c\<in>set s. digit_in 10 c \<Longrightarrow> get_char_count s (CHR ''.'') = 0" for s
    by (induction s) (auto dest: digit_not_special(4))
  then show ?thesis using dec_digits by blast
qed

lemma version_dots: "get_char_count (version a b c) (CHR ''.'') = 2"
  by (simp add: version_def count_append count_dec)

lemma scan_version_version:
  assumes "a < 2 ^ 31" "b < 2 ^ 31" "c < 2 ^ 31"
  shows "scan_version (version a b c) = (of_nat a, of_nat b, of_nat c)"
proof -
  obtain x s where xs: "dec a = x # s" by (metis dec_not_Nil neq_Nil_conv)
  have "digit_in 10 x" using dec_digits [of a] xs by simp
  note x = digit_not_special [OF this]
  have v: "takeWhile (\<lambda>c. c = CHR ''v'' \<or> c = CHR ''V'') (version a b c) = ''v''"
    using x xs by (simp add: version_def)
  have dot: "\<not> digit_in 10 (CHR ''.'')" by (simp add: digit_in_def digit_of_def)
  have sat: "saturate (int n) = int n" if "n < 2 ^ 31" for n
    using that by (simp add: saturate_def)
  have 1: "scan_int (dec a @ ''.'' @ dec b @ ''.'' @ dec c) = Some (int a, ''.'' @ dec b @ ''.'' @ dec c)"
    "scan_int (dec b @ ''.'' @ dec c) = Some (int b, ''.'' @ dec c)" "scan_int (dec c) = Some (int c, [])"
    using dot scan_int_dec [of "[]" c] by (simp_all add: scan_int_dec)
  have "drop (length ''v'') (version a b c) = dec a @ ''.'' @ dec b @ ''.'' @ dec c" by (simp add: version_def)
  then show ?thesis
    unfolding scan_version_def v Let_def using 1 sat assms by (simp add: scan_dot_def)
qed

text \<open>
  Plugin versions \<open>va.b.c\<close>: \<open>IsPluginVersionOk\<close> accepts the configuration's version exactly when
  the first two numbers agree and the third is at least that of the plugin.
\<close>

theorem IsPluginVersionOk_correct:
  assumes "a < 2 ^ 31" "b < 2 ^ 31" "c < 2 ^ 31" "a' < 2 ^ 31" "b' < 2 ^ 31" "c' < 2 ^ 31"
  shows "IsPluginVersionOk (version a b c) (version a' b' c') \<longleftrightarrow> a = a' \<and> b = b' \<and> c' \<le> c"
proof -
  have small: "unat (of_nat n :: u32) = n" if "n < 2 ^ 31" for n using that by (intro unat_of_nat_small) simp
  have inj: "of_nat m = (of_nat n :: u32) \<longleftrightarrow> m = n" if "m < 2 ^ 31" "n < 2 ^ 31" for m n
    using small [OF that(1)] small [OF that(2)] by metis
  have "sint (of_nat c :: u32) = int c" "sint (of_nat c' :: u32) = int c'"
    using sint_small [of "of_nat c"] sint_small [of "of_nat c'"] small [OF assms(3)] small [OF assms(6)] assms(3,6)
    by simp_all
  then show ?thesis
    using assms by (auto simp: IsPluginVersionOk_def version_dots scan_version_version inj)
qed

theorem IsPluginVersionOk_correct_witness:
  "IsPluginVersionOk (version 2 10 7) (version 2 10 5) \<longleftrightarrow> (2 :: nat) = 2 \<and> (10 :: nat) = 10 \<and> (5 :: nat) \<le> 7"
  by (rule IsPluginVersionOk_correct) simp_all

text \<open>Without the leading letter nothing is scanned, and any two versions with two dots match.\<close>

lemma IsPluginVersionOk_no_letter: "IsPluginVersionOk ''1.2.3'' ''9.9.9''"
  by (simp add: IsPluginVersionOk_def scan_version_def)

end
