(* ===== verification/Log_State.thy ===== *)
theory Log_State
  imports Attr Vmem Cfg
begin

text \<open>
  The state of the logging functions of \<open>language/c_cpp/mt_log.c\<close>: the log records and rings of
  the shared segment, the log configurations, the counters, and the settings of the process
  (\<open>stLogInfo\<close> of \<open>g_mtReport\<close>); and the pieces that the functions share.
\<close>

subsection \<open>Structures\<close>

record MTLogCust =
  dwCust_1 :: u32
  dwCust_2 :: u32
  iCust_3 :: u32
  iCust_4 :: u32
  szCust_5 :: "u8 list"
  szCust_6 :: "u8 list"
  bCustFlag :: u8

record MTLog =
  iCustVmemIndex :: int
  dwLogConfigId :: u32
  dwLogSeq :: u32
  qwLogTime :: u64
  iAppId :: u32
  iModuleId :: u32
  wLogType :: u16
  iVarmemIndex :: int
  sLogContent :: "u8 list"

record MTLogShm =
  bTryGetLogIndex :: u8
  iLogStarIndex :: int
  iWriteIndex :: int
  dwGetLogIndexStartTime :: u32
  sLogList :: "MTLog list"

record SLogTestKey =
  bKeyType :: u8
  szKeyValue :: "u8 list"

record SLogConfig =
  dwCfgId :: u32
  cfg_iAppId :: u32
  cfg_iModuleId :: u32
  cfg_iLogType :: u32
  wTestKeyCount :: u16
  stTestKeys :: "SLogTestKey list"
  dwSpeedFreq :: u32
  bLogFreqUseFlag :: u8
  iWriteLogCount :: u32
  qwLastFreqTime :: u64

definition MTLOG_SHM_RECORDS_COUNT :: int where "MTLOG_SHM_RECORDS_COUNT = 10000"
definition MTLOG_SHM_DEF_COUNT :: nat where "MTLOG_SHM_DEF_COUNT = 3"
definition MTLOG_LOG_SPECIAL_COUNT :: int where "MTLOG_LOG_SPECIAL_COUNT = 2000"
definition MTREPORT_LOG_MAX_LENGTH :: nat where "MTREPORT_LOG_MAX_LENGTH = 1024"

definition MTLOG_CUST_FLAG_C1_SET :: u8 where "MTLOG_CUST_FLAG_C1_SET = 1"
definition MTLOG_CUST_FLAG_C2_SET :: u8 where "MTLOG_CUST_FLAG_C2_SET = 2"
definition MTLOG_CUST_FLAG_C3_SET :: u8 where "MTLOG_CUST_FLAG_C3_SET = 4"
definition MTLOG_CUST_FLAG_C4_SET :: u8 where "MTLOG_CUST_FLAG_C4_SET = 8"
definition MTLOG_CUST_FLAG_C5_SET :: u8 where "MTLOG_CUST_FLAG_C5_SET = 16"
definition MTLOG_CUST_FLAG_C6_SET :: u8 where "MTLOG_CUST_FLAG_C6_SET = 32"

text \<open>
  \<open>lw_attr\<close> and \<open>lw_vmem\<close> are the attribute store and the string store of the same process and
  segment (\<open>cIsInit\<close> is the flag of the process, \<open>vm_attached\<close> says that \<open>pMtShm\<close> is not null).
  \<open>pCurConfigInfo\<close> is the index of the configuration the pointer denotes. \<open>lw_out\<close> lists what was
  written to local files.
\<close>

datatype local_write = ToStdout "u8 list" | ToFile "u8 list" bool "u8 list"

record LogWorld =
  lw_attr :: MtAttr
  lw_vmem :: Vmem
  dwLogCfgId :: u32
  cIsTest :: u8
  stCust :: MTLogCust
  pCurConfigInfo :: "nat option"
  szLocalLogFile :: "u8 list"
  iLocalLogType :: u32
  wLogConfigCount :: u16
  stLogConfig :: "SLogConfig list"
  lw_dwLogSeq :: u32
  iLogSpecialWriteIdx :: int
  iLogSpecialReadIdx :: int
  sLogListSpec :: "MTLog list"
  stLogShm :: "MTLogShm list"
  wLogVmemFailed :: u16
  wLogFreqLimited :: u16
  wLogTruncate :: u16
  wLogInShmFull :: u16
  wLogWriteInVmem :: u16
  wLogCustInVmem :: u16
  wLogCustVmemFailed :: u16
  dwLogBySpecCount :: u32
  dwLogTypeLimited :: u32
  dwFirstLogWriteTime :: u32
  dwWriteLogCount :: u32
  qwWriteLogBytes :: u64
  bAddPluginInfoFlag :: u8
  iPluginInfoCount :: int
  bHasNewPluginInfo :: u8
  lw_out :: "local_write list"

record timeval =
  tv_sec :: u64
  tv_usec :: u64

text \<open>
  What a call asks of its surroundings: \<open>gettimeofday\<close> in the function itself, in
  \<open>MtReport_Log_To_Spec\<close> and in \<open>MtReport_Log_To_Local\<close>; the clock of the string store; what other
  processes do to the rings during the n-th \<open>usleep\<close>; the local date as text; whether the three
  \<open>fopen\<close> calls of the local log succeed, and the size of the file.
\<close>

record LogEnv =
  le_now :: timeval
  le_now_spec :: timeval
  le_now_local :: timeval
  le_vclk :: "nat \<Rightarrow> u32"
  le_sleep :: "nat \<Rightarrow> MTLogShm list \<Rightarrow> MTLogShm list"
  le_date :: string
  le_fopen :: bool
  le_fopen_again :: bool
  le_fopen_error :: bool
  le_size :: int

subsection \<open>Pieces\<close>

definition bytes :: "string \<Rightarrow> u8 list" where
  "bytes s = map of_char s"

definition sec32 :: "timeval \<Rightarrow> u32" where
  "sec32 t = ucast (tv_sec t)"

definition log_time :: "timeval \<Rightarrow> u64" where
  "log_time t = tv_sec t * 1000000 + tv_usec t"

definition truncate_text :: "u8 list" where
  "truncate_text = bytes ''[slog too long truncate ...]''"

text \<open>
  The buffer \<open>sLogBuf\<close> after formatting. \<open>msg\<close> is the whole formatted text (without NUL bytes): what
  \<open>vsnprintf\<close> would write if there were room for it. The flag says that the truncation branch ran;
  its test uses the length that \<open>vsnprintf\<close> returned on both sides.
\<close>

definition sLogBuf_size :: nat where
  "sLogBuf_size = MTREPORT_LOG_MAX_LENGTH + 64"

definition format_log :: "u8 list \<Rightarrow> u8 list \<times> bool" where
  "format_log msg =
     (let iWrite = int (length msg); shown = take (sLogBuf_size - 32 - 1) msg;
          buf = shown @ replicate (sLogBuf_size - length shown) 0;
          trunc = int sLogBuf_size - iWrite - 32 \<le> iWrite in
      (if trunc then take (sLogBuf_size - 32) buf @ truncate_text @ 0
           # drop (sLogBuf_size - 32 + length truncate_text + 1) buf
       else buf, trunc))"

text \<open>The next sequence number: 0 is skipped.\<close>

definition next_seq :: "LogWorld \<Rightarrow> u32 \<times> LogWorld" where
  "next_seq w = (let s = lw_dwLogSeq w in
     if s = 0 then (1, w\<lparr>lw_dwLogSeq := 2\<rparr>) else (s, w\<lparr>lw_dwLogSeq := s + 1\<rparr>))"

text \<open>Access to the record with a (signed) index; an index outside the array leaves the model.\<close>

definition upd_log :: "int \<Rightarrow> (MTLog \<Rightarrow> MTLog) \<Rightarrow> MTLog list \<Rightarrow> MTLog list option" where
  "upd_log i f ls = (if 0 \<le> i \<and> nat i < length ls then Some (ls[nat i := f (ls ! nat i)]) else None)"

text \<open>
  Storing the text: short texts stay in the record; of longer ones the record keeps the first 256
  bytes and the string store the bytes from 252 on. \<open>False\<close> when the string store failed.
\<close>

definition iShmLogBufLen :: nat where
  "iShmLogBufLen = 256"

text \<open>\<open>snprintf\<close> with room for \<open>iShmLogBufLen - 1\<close> bytes, the NUL among them.\<close>

definition vmem_failed_text :: "int \<Rightarrow> u8 list" where
  "vmem_failed_text r = take (iShmLogBufLen - 2) (bytes (''write shm log failed, SaveDataToVarmem ret:'' @ show_int r))"

definition put_content :: "LogEnv \<Rightarrow> u8 list \<Rightarrow> LogWorld \<Rightarrow> (bool \<times> (MTLog \<Rightarrow> MTLog) \<times> LogWorld) option" where
  "put_content env buf w =
     (let iWrite = length (c_str buf) in
      if iWrite < iShmLogBufLen
      then Some (True, (\<lambda>l. l\<lparr>iVarmemIndex := -1,
             sLogContent := c_str buf @ 0 # drop (Suc iWrite) (sLogContent l)\<rparr>), w)
      else do {
        (r, v) \<leftarrow> MtReport_SaveToVmem (le_vclk env)
          (take (iWrite - iShmLogBufLen + 4) (drop (iShmLogBufLen - 4) buf)) (lw_vmem w);
        let w = w\<lparr>lw_vmem := v\<rparr>;
        if r \<le> 0
        then Some (False, (\<lambda>l. l\<lparr>sLogContent := vmem_failed_text r @ 0
               # drop (Suc (length (vmem_failed_text r))) (take iShmLogBufLen buf),
             wLogType := ucast MTLOG_TYPE_ERROR, iVarmemIndex := -1\<rparr>), w\<lparr>wLogVmemFailed := wLogVmemFailed w + 1\<rparr>)
        else Some (True, (\<lambda>l. l\<lparr>sLogContent := take iShmLogBufLen buf, iVarmemIndex := r\<rparr>),
             w\<lparr>wLogWriteInVmem := wLogWriteInVmem w + 1\<rparr>)
      })"

definition count_write :: "timeval \<Rightarrow> u8 list \<Rightarrow> LogWorld \<Rightarrow> LogWorld" where
  "count_write now buf w = w\<lparr>
     dwFirstLogWriteTime := (if dwFirstLogWriteTime w = 0 then sec32 now else dwFirstLogWriteTime w),
     dwWriteLogCount := dwWriteLogCount w + 1,
     qwWriteLogBytes := qwWriteLogBytes w + of_nat (length (c_str buf))\<rparr>"

end
