(* ===== verification/Log.thy ===== *)
theory Log
  imports Log_State
begin

text \<open>
  The logging functions of \<open>language/c_cpp/mt_log.c\<close>: custom fields, the special list, the local
  file, the colouring test, \<open>MtReport_Log\<close>, \<open>MtReport_Log_For_CfgId\<close> and \<open>MtReport_Plugin_Table\<close>.
\<close>

subsection \<open>Custom fields\<close>

text \<open>\<open>SET_BIT\<close>, \<open>CLEAR_BIT\<close> and \<open>IS_SET_BIT\<close> on the flag byte.\<close>

definition set_flag :: "u8 \<Rightarrow> MTLogCust \<Rightarrow> MTLogCust" where
  "set_flag b c = c\<lparr>bCustFlag := bCustFlag c OR b\<rparr>"

definition clear_flag :: "u8 \<Rightarrow> MTLogCust \<Rightarrow> MTLogCust" where
  "clear_flag b c = c\<lparr>bCustFlag := bCustFlag c AND NOT b\<rparr>"

definition is_set :: "u8 \<Rightarrow> MTLogCust \<Rightarrow> bool" where
  "is_set b c \<longleftrightarrow> bCustFlag c AND b \<noteq> 0"

definition MtReport_Log_SetCust1 :: "u32 \<Rightarrow> MTLogCust \<Rightarrow> MTLogCust" where
  "MtReport_Log_SetCust1 dwCust c = set_flag MTLOG_CUST_FLAG_C1_SET (c\<lparr>dwCust_1 := dwCust\<rparr>)"

definition MtReport_Log_ClearCust1 :: "MTLogCust \<Rightarrow> MTLogCust" where
  "MtReport_Log_ClearCust1 c = clear_flag MTLOG_CUST_FLAG_C1_SET c"

definition MtReport_Log_SetCust2 :: "u32 \<Rightarrow> MTLogCust \<Rightarrow> MTLogCust" where
  "MtReport_Log_SetCust2 dwCust c = set_flag MTLOG_CUST_FLAG_C2_SET (c\<lparr>dwCust_2 := dwCust\<rparr>)"

definition MtReport_Log_ClearCust2 :: "MTLogCust \<Rightarrow> MTLogCust" where
  "MtReport_Log_ClearCust2 c = clear_flag MTLOG_CUST_FLAG_C2_SET c"

definition MtReport_Log_SetCust3 :: "u32 \<Rightarrow> MTLogCust \<Rightarrow> MTLogCust" where
  "MtReport_Log_SetCust3 iCust c = set_flag MTLOG_CUST_FLAG_C3_SET (c\<lparr>iCust_3 := iCust\<rparr>)"

definition MtReport_Log_ClearCust3 :: "MTLogCust \<Rightarrow> MTLogCust" where
  "MtReport_Log_ClearCust3 c = clear_flag MTLOG_CUST_FLAG_C3_SET c"

definition MtReport_Log_SetCust4 :: "u32 \<Rightarrow> MTLogCust \<Rightarrow> MTLogCust" where
  "MtReport_Log_SetCust4 iCust c = set_flag MTLOG_CUST_FLAG_C4_SET (c\<lparr>iCust_4 := iCust\<rparr>)"

definition MtReport_Log_ClearCust4 :: "MTLogCust \<Rightarrow> MTLogCust" where
  "MtReport_Log_ClearCust4 c = clear_flag MTLOG_CUST_FLAG_C4_SET c"

definition MtReport_Log_SetCust5 :: "u8 list \<Rightarrow> MTLogCust \<Rightarrow> MTLogCust" where
  "MtReport_Log_SetCust5 pstrCust c = set_flag MTLOG_CUST_FLAG_C5_SET (c\<lparr>szCust_5 := strncpy 15 pstrCust (szCust_5 c)\<rparr>)"

definition MtReport_Log_ClearCust5 :: "MTLogCust \<Rightarrow> MTLogCust" where
  "MtReport_Log_ClearCust5 c = clear_flag MTLOG_CUST_FLAG_C5_SET c"

definition MtReport_Log_SetCust6 :: "u8 list \<Rightarrow> MTLogCust \<Rightarrow> MTLogCust" where
  "MtReport_Log_SetCust6 pstrCust c = set_flag MTLOG_CUST_FLAG_C6_SET (c\<lparr>szCust_6 := strncpy 31 pstrCust (szCust_6 c)\<rparr>)"

definition MtReport_Log_ClearCust6 :: "MTLogCust \<Rightarrow> MTLogCust" where
  "MtReport_Log_ClearCust6 c = clear_flag MTLOG_CUST_FLAG_C6_SET c"

text \<open>\<open>htonl\<close> stored on a little-endian machine: the bytes in big-endian order.\<close>

definition be32 :: "u32 \<Rightarrow> u8 list" where
  "be32 x = [ucast (drop_bit 24 x), ucast (drop_bit 16 x), ucast (drop_bit 8 x), ucast x]"

text \<open>The first \<open>iCustUseLen\<close> bytes of \<open>sCustBuf\<close>.\<close>

definition cust_bytes :: "MTLogCust \<Rightarrow> u8 list" where
  "cust_bytes c = [bCustFlag c]
     @ (if is_set MTLOG_CUST_FLAG_C1_SET c then be32 (dwCust_1 c) else [])
     @ (if is_set MTLOG_CUST_FLAG_C2_SET c then be32 (dwCust_2 c) else [])
     @ (if is_set MTLOG_CUST_FLAG_C3_SET c then be32 (iCust_3 c) else [])
     @ (if is_set MTLOG_CUST_FLAG_C4_SET c then be32 (iCust_4 c) else [])
     @ (if is_set MTLOG_CUST_FLAG_C5_SET c then take 15 (c_str (szCust_5 c)) @ [0] else [])
     @ (if is_set MTLOG_CUST_FLAG_C6_SET c then take 31 (c_str (szCust_6 c)) @ [0] else [])"

definition MtReport_Save_LogCust :: "LogEnv \<Rightarrow> LogWorld \<Rightarrow> (int \<times> LogWorld) option" where
  "MtReport_Save_LogCust env w = do {
     (iRet, v) \<leftarrow> MtReport_SaveToVmem (le_vclk env) (cust_bytes (stCust w)) (lw_vmem w);
     let w = w\<lparr>lw_vmem := v\<rparr>;
     Some (iRet, if iRet \<le> 0 then w\<lparr>wLogCustVmemFailed := wLogCustVmemFailed w + 1\<rparr>
                 else w\<lparr>wLogCustInVmem := wLogCustInVmem w + 1\<rparr>)
   }"

subsection \<open>The special list\<close>

definition MtReport_Log_To_Spec :: "LogEnv \<Rightarrow> u32 \<Rightarrow> u8 list \<Rightarrow> LogWorld \<Rightarrow> (int \<times> LogWorld) option" where
  "MtReport_Log_To_Spec env iLogType msg w =
     (let w = w\<lparr>dwLogBySpecCount := dwLogBySpecCount w + 1\<rparr>; stNow = le_now_spec env in
      case format_log msg of (sLogBuf, trunc) \<Rightarrow>
      let w = (if trunc then w\<lparr>wLogTruncate := wLogTruncate w + 1\<rparr> else w);
          iIndex = iLogSpecialWriteIdx w;
          w = (if MTLOG_LOG_SPECIAL_COUNT \<le> iIndex + 1 then w\<lparr>iLogSpecialWriteIdx := 0\<rparr>
               else w\<lparr>iLogSpecialWriteIdx := iIndex + 1\<rparr>);
          w = (if iLogSpecialReadIdx w < 0 then w\<lparr>iLogSpecialReadIdx := iIndex\<rparr>
               else if iLogSpecialReadIdx w = iIndex then w\<lparr>wLogInShmFull := wLogInShmFull w + 1\<rparr> else w) in
      case next_seq w of (dwSeq, w) \<Rightarrow>
      let iIndex = (if MTLOG_LOG_SPECIAL_COUNT \<le> iIndex then 0 else iIndex) in do {
        ls \<leftarrow> upd_log iIndex (\<lambda>l. l\<lparr>qwLogTime := log_time stNow, dwLogSeq := 0, wLogType := ucast iLogType,
               dwLogConfigId := dwLogCfgId w\<rparr>) (sLogListSpec w);
        let w = count_write stNow sLogBuf (w\<lparr>sLogListSpec := ls\<rparr>);
        (ok, put, w) \<leftarrow> put_content env sLogBuf w;
        ls \<leftarrow> upd_log iIndex (\<lambda>l. (put l)\<lparr>dwLogSeq := dwSeq\<rparr>) (sLogListSpec w);
        Some (0, w\<lparr>sLogListSpec := ls\<rparr>)
      })"

subsection \<open>The local file\<close>

definition type_name :: "u32 \<Rightarrow> string" where
  "type_name t = (if t = MTLOG_TYPE_OTHER then ''Other'' else if t = MTLOG_TYPE_DEBUG then ''Debug''
     else if t = MTLOG_TYPE_INFO then ''Info'' else if t = MTLOG_TYPE_WARN then ''Warn''
     else if t = MTLOG_TYPE_REQERR then ''Reqerr'' else if t = MTLOG_TYPE_ERROR then ''Error''
     else if t = MTLOG_TYPE_FATAL then ''Fatal'' else ''Unknow'')"

text \<open>\<open>%06u\<close>.\<close>

definition pad6 :: "nat \<Rightarrow> string" where
  "pad6 n = replicate (6 - length (dec n)) (CHR ''0'') @ dec n"

definition stamp :: "LogEnv \<Rightarrow> u8 list" where
  "stamp env = bytes (le_date env @ ''.'' @ pad6 (unat (ucast (tv_usec (le_now_local env)) :: u32)) @ '' - '')"

text \<open>
  A write names the file, whether it was emptied first, and the text. A file of 50 MB or more is
  started afresh; when it cannot be opened, the line goes to a fixed error file.
\<close>

definition MtReport_Log_To_Local :: "LogEnv \<Rightarrow> u32 \<Rightarrow> u8 list \<Rightarrow> LogWorld \<Rightarrow> LogWorld" where
  "MtReport_Log_To_Local env iLogType msg w =
     (let name = c_str (szLocalLogFile w); ty = bytes (type_name iLogType);
          line = stamp env @ ty @ bytes '' - '' @ msg @ bytes [nl];
          emit = (\<lambda>x. w\<lparr>lw_out := lw_out w @ [x]\<rparr>) in
      if name = bytes ''stdout'' then emit (ToStdout line)
      else if le_fopen env then
        (if 1024 * 1024 * 50 \<le> le_size env
         then if le_fopen_again env then emit (ToFile name True line) else w
         else emit (ToFile name False line))
      else if le_fopen_error env
        then emit (ToFile (bytes ''/tmp/mtreport_write_error.log'') True
               (stamp env @ bytes ''open file:'' @ name @ bytes '' failed, for log - '' @ ty @ bytes ('' - '' @ [nl, CHR 0x09])
                @ msg @ bytes [nl]))
        else w)"

subsection \<open>Colouring\<close>

text \<open>The callback is a parameter; its context data is part of it.\<close>

fun check_keys :: "(u8 \<Rightarrow> u8 list \<Rightarrow> bool) \<Rightarrow> nat \<Rightarrow> SLogTestKey list \<Rightarrow> bool option" where
  "check_keys isTest 0 ks = Some False"
| "check_keys isTest (Suc n) [] = None"
| "check_keys isTest (Suc n) (k # ks) = (if isTest (bKeyType k) (szKeyValue k) then Some True else check_keys isTest n ks)"

definition MtReport_Check_Test :: "(u8 \<Rightarrow> u8 list \<Rightarrow> bool) \<Rightarrow> LogWorld \<Rightarrow> LogWorld option" where
  "MtReport_Check_Test isTest w = (case pCurConfigInfo w of
       None \<Rightarrow> Some w
     | Some i \<Rightarrow> if length (stLogConfig w) \<le> i then None
         else do {
           hit \<leftarrow> check_keys isTest (unat (wTestKeyCount (stLogConfig w ! i))) (stTestKeys (stLogConfig w ! i));
           Some (w\<lparr>cIsTest := (if hit then 1 else 0)\<rparr>)
         })"

definition MtReport_Clear_Test :: "LogWorld \<Rightarrow> LogWorld" where
  "MtReport_Clear_Test w = w\<lparr>cIsTest := 0\<rparr>"

subsection \<open>Configuration, frequency, rings\<close>

text \<open>The search for a configuration among the first \<open>n\<close> entries, from \<open>i\<close> on.\<close>

fun find_cfg :: "u32 \<Rightarrow> nat \<Rightarrow> nat \<Rightarrow> SLogConfig list \<Rightarrow> nat option option" where
  "find_cfg cfgid 0 i cs = Some None"
| "find_cfg cfgid (Suc n) i [] = None"
| "find_cfg cfgid (Suc n) i (c # cs) = (if dwCfgId c = cfgid then Some (Some i) else find_cfg cfgid n (Suc i) cs)"

text \<open>The frequency limit: \<open>True\<close> when the log is refused.\<close>

definition freq_limit :: "timeval \<Rightarrow> SLogConfig \<Rightarrow> bool \<times> SLogConfig" where
  "freq_limit stNow c =
     (if dwSpeedFreq c \<noteq> 0 then
        let qwTimeMs = tv_sec stNow * 1000 + tv_usec stNow div 1000;
            c = (if qwLastFreqTime c + 60000 \<le> qwTimeMs \<and> bLogFreqUseFlag c = 0
                 then c\<lparr>qwLastFreqTime := qwTimeMs, iWriteLogCount := 0\<rparr> else c)
        in if sint (dwSpeedFreq c) < sint (iWriteLogCount c) then (True, c)
           else (False, c\<lparr>iWriteLogCount := iWriteLogCount c + 1\<rparr>)
      else (False, c\<lparr>iWriteLogCount := iWriteLogCount c + 1\<rparr>))"

text \<open>
  One round over the rings: the first one whose flag is free, or was taken more than five seconds
  ago, from ring \<open>i\<close> on.
\<close>

fun pick_ring :: "timeval \<Rightarrow> nat \<Rightarrow> MTLogShm list \<Rightarrow> (nat \<times> MTLogShm list) option" where
  "pick_ring stNow i [] = None"
| "pick_ring stNow i (r # rs) =
     (if bTryGetLogIndex r = 0 \<or> ucast (dwGetLogIndexStartTime r + 5) < tv_sec stNow
      then Some (i, r\<lparr>bTryGetLogIndex := (if bTryGetLogIndex r = 0 then 1 else bTryGetLogIndex r),
                      dwGetLogIndexStartTime := sec32 stNow\<rparr> # rs)
      else map_option (\<lambda>(j, rs). (j, r # rs)) (pick_ring stNow (Suc i) rs))"

fun get_ring :: "LogEnv \<Rightarrow> nat \<Rightarrow> nat \<Rightarrow> MTLogShm list \<Rightarrow> nat option \<times> MTLogShm list" where
  "get_ring env 0 j rs = (None, rs)"
| "get_ring env (Suc n) j rs = (case pick_ring (le_now env) 0 rs of
     Some (i, rs) \<Rightarrow> (Some i, rs)
   | None \<Rightarrow> get_ring env n (Suc j) (le_sleep env j rs))"

text \<open>Taking the next record of a ring: its index, and whether the ring was full.\<close>

definition ring_claim :: "MTLogShm \<Rightarrow> int \<times> bool \<times> MTLogShm" where
  "ring_claim r = (let iIndex = iWriteIndex r;
     r = (if MTLOG_SHM_RECORDS_COUNT \<le> iIndex + 1 then r\<lparr>iWriteIndex := 0\<rparr> else r\<lparr>iWriteIndex := iIndex + 1\<rparr>) in
     if iLogStarIndex r < 0 then (iIndex, False, r\<lparr>iLogStarIndex := iIndex\<rparr>)
     else (iIndex, iIndex = iLogStarIndex r, r))"

definition upd_ring :: "nat \<Rightarrow> int \<Rightarrow> (MTLog \<Rightarrow> MTLog) \<Rightarrow> MTLogShm list \<Rightarrow> MTLogShm list option" where
  "upd_ring k i f rs = do {
     ls \<leftarrow> upd_log i f (sLogList (rs ! k));
     Some (rs[k := (rs ! k)\<lparr>sLogList := ls\<rparr>])
   }"

text \<open>
  Claiming a record in ring \<open>k\<close> up to the release of its flag: the log time is written and the
  sequence number cleared.
\<close>

definition claim_record :: "nat \<Rightarrow> u64 \<Rightarrow> LogWorld \<Rightarrow> (int \<times> LogWorld) option" where
  "claim_record k t w = (case ring_claim (stLogShm w ! k) of (iIndex, was_full, r) \<Rightarrow> do {
     let rs = (stLogShm w)[k := r];
     rs \<leftarrow> upd_ring k iIndex (\<lambda>l. l\<lparr>qwLogTime := t, dwLogSeq := 0\<rparr>) rs;
     Some (iIndex, w\<lparr>stLogShm := rs[k := (rs ! k)\<lparr>bTryGetLogIndex := 0\<rparr>],
       wLogInShmFull := (if was_full then wLogInShmFull w + 1 else wLogInShmFull w)\<rparr>)
   })"

subsection \<open>Writing a log\<close>

text \<open>Filling the next record of ring \<open>k\<close>; the sequence number is written last.\<close>

definition log_record :: "LogEnv \<Rightarrow> nat \<Rightarrow> SLogConfig \<Rightarrow> u64 \<Rightarrow> u32 \<Rightarrow> u8 list \<Rightarrow> LogWorld \<Rightarrow> (int \<times> LogWorld) option" where
  "log_record env k cfg t iLogType sLogBuf w = do {
     (iIndex, w) \<leftarrow> claim_record k t w;
     let (dwSeq, w) = next_seq w;
     rs \<leftarrow> upd_ring k iIndex (\<lambda>l. l\<lparr>iAppId := cfg_iAppId cfg, iModuleId := cfg_iModuleId cfg,
            wLogType := ucast iLogType, dwLogConfigId := dwCfgId cfg\<rparr>) (stLogShm w);
     let w = w\<lparr>stLogShm := rs\<rparr>;
     (custIdx, w) \<leftarrow> (if bCustFlag (stCust w) \<noteq> 0 then MtReport_Save_LogCust env w else Some (0, w));
     rs \<leftarrow> upd_ring k iIndex (\<lambda>l. l\<lparr>iCustVmemIndex := custIdx\<rparr>) (stLogShm w);
     let w = count_write (le_now env) sLogBuf (w\<lparr>stLogShm := rs\<rparr>);
     (ok, put, w) \<leftarrow> put_content env sLogBuf w;
     rs \<leftarrow> upd_ring k iIndex (\<lambda>l. (put l)\<lparr>dwLogSeq := dwSeq\<rparr>) (stLogShm w);
     Some (if ok then 0 else -4, w\<lparr>stLogShm := rs\<rparr>)
   }"

text \<open>
  The common part of \<open>MtReport_Log\<close> and \<open>MtReport_Log_For_CfgId\<close> from the frequency limit on, for
  configuration number \<open>ci\<close>; \<open>logTime\<close> is 0 for the current time.
\<close>

definition log_write :: "LogEnv \<Rightarrow> nat \<Rightarrow> u64 \<Rightarrow> u32 \<Rightarrow> u8 list \<Rightarrow> LogWorld \<Rightarrow> (int \<times> LogWorld) option" where
  "log_write env ci logTime iLogType msg w =
     (if length (stLogConfig w) \<le> ci then None
      else case freq_limit (le_now env) (stLogConfig w ! ci) of (limited, cfg) \<Rightarrow>
        let w = w\<lparr>stLogConfig := (stLogConfig w)[ci := cfg]\<rparr> in
        if limited then Some (-3, w\<lparr>wLogFreqLimited := wLogFreqLimited w + 1\<rparr>)
        else case format_log msg of (sLogBuf, trunc) \<Rightarrow>
        let w = (if trunc then w\<lparr>wLogTruncate := wLogTruncate w + 1\<rparr> else w) in
        case get_ring env 10 0 (stLogShm w) of (ring, rs) \<Rightarrow>
        let w = w\<lparr>stLogShm := rs\<rparr> in
        case ring of
          None \<Rightarrow> MtReport_Log_To_Spec env iLogType msg w
        | Some k \<Rightarrow> log_record env k cfg (if logTime \<noteq> 0 then logTime else log_time (le_now env)) iLogType sLogBuf w)"

text \<open>\<open>iCfgIdIndex\<close> is where the caller expects the configuration.\<close>

definition MtReport_Log_For_CfgId :: "LogEnv \<Rightarrow> int \<Rightarrow> u32 \<Rightarrow> u32 \<Rightarrow> u64 \<Rightarrow> u8 list \<Rightarrow> LogWorld \<Rightarrow> (int \<times> LogWorld) option" where
  "MtReport_Log_For_CfgId env iCfgIdIndex cfgid iLogType logTime msg w =
     (if cIsInit (lw_vmem w) = 0 then Some (-1, w)
      else if cfgid = 0 \<or> \<not> vm_attached (lw_vmem w) then Some (0, w)
      else do {
        hit \<leftarrow> (if iCfgIdIndex < int (unat (wLogConfigCount w)) then
                 if 0 \<le> iCfgIdIndex \<and> nat iCfgIdIndex < length (stLogConfig w)
                 then Some (dwCfgId (stLogConfig w ! nat iCfgIdIndex) = cfgid) else None
               else Some False);
        ci \<leftarrow> (if hit then Some (Some (nat iCfgIdIndex))
              else find_cfg cfgid (unat (wLogConfigCount w)) 0 (stLogConfig w));
        case ci of
          None \<Rightarrow> Some (-5, w)
        | Some ci \<Rightarrow> log_write env ci logTime iLogType msg w
      })"

text \<open>The lookup of the process's own configuration; found ones are remembered.\<close>

definition own_cfg :: "LogWorld \<Rightarrow> (nat option \<times> LogWorld) option" where
  "own_cfg w = (case pCurConfigInfo w of
       Some i \<Rightarrow> Some (Some i, w)
     | None \<Rightarrow> do {
         ci \<leftarrow> find_cfg (dwLogCfgId w) (unat (wLogConfigCount w)) 0 (stLogConfig w);
         Some (ci, w\<lparr>pCurConfigInfo := ci\<rparr>)
       })"

definition MtReport_Log :: "LogEnv \<Rightarrow> u32 \<Rightarrow> u8 list \<Rightarrow> LogWorld \<Rightarrow> (int \<times> LogWorld) option" where
  "MtReport_Log env iLogType msg w =
     (if cIsInit (lw_vmem w) = 0 then Some (-1, w)
      else let w = (if c_str (szLocalLogFile w) \<noteq> [] \<and> iLogType AND iLocalLogType w \<noteq> 0
                    then MtReport_Log_To_Local env iLogType msg w else w) in
      if dwLogCfgId w = 0 \<or> \<not> vm_attached (lw_vmem w) then Some (0, w)
      else do {
        (ci, w) \<leftarrow> own_cfg w;
        case ci of
          None \<Rightarrow> MtReport_Log_To_Spec env iLogType msg w
        | Some ci \<Rightarrow>
            if length (stLogConfig w) \<le> ci then None
            else if cIsTest w = 0 \<and> cfg_iLogType (stLogConfig w ! ci) AND iLogType = 0
            then Some (-2, w\<lparr>dwLogTypeLimited := dwLogTypeLimited w + 1\<rparr>)
            else let a = lw_attr w;
                     a = a\<lparr>stPluginInfo := upd_plugin (iPluginIndex a)
                           (\<lambda>p. p\<lparr>dwLastReportLogTime := sec32 (le_now env)\<rparr>) (stPluginInfo a)\<rparr>
              in log_write env ci 0 iLogType msg (w\<lparr>lw_attr := a\<rparr>)
      })"

subsection \<open>Table records of plugins\<close>

definition MtReport_Plugin_Table :: "LogEnv \<Rightarrow> u32 \<Rightarrow> u32 \<Rightarrow> u32 \<Rightarrow> u32 \<Rightarrow> u8 list \<Rightarrow> LogWorld \<Rightarrow> (int \<times> LogWorld) option" where
  "MtReport_Plugin_Table env pluginId iTableId iStaticTime dwStatId msg w =
     (if cIsInit (lw_vmem w) = 0 then Some (-1, w)
      else if dwLogCfgId w = 0 \<or> \<not> vm_attached (lw_vmem w) then Some (0, w)
      else do {
        (ci, w) \<leftarrow> own_cfg w;
        case ci of
          None \<Rightarrow> Some (-11, w)
        | Some ci \<Rightarrow>
            if length (stLogConfig w) \<le> ci then None
            else if (case plugin_slot (iPluginIndex (lw_attr w)) of
                 None \<Rightarrow> True
               | Some i \<Rightarrow> iPluginId (stPluginInfo (lw_attr w) ! i) \<noteq> pluginId) then Some (-12, w)
            else case get_ring env 10 0 (stLogShm w) of (ring, rs) \<Rightarrow>
              let w = w\<lparr>stLogShm := rs\<rparr> in
              case ring of
                None \<Rightarrow> Some (-14, w)
              | Some k \<Rightarrow> do {
                  (iIndex, w) \<leftarrow> claim_record k (push_bit 32 (tv_sec (le_now env)) OR scast iStaticTime) w;
                  rs \<leftarrow> upd_ring k iIndex (\<lambda>l. l\<lparr>iAppId := cfg_iAppId (stLogConfig w ! ci),
                         wLogType := ucast MTLOG_TYPE_PLUGIN_TABLE, iModuleId := pluginId, dwLogConfigId := iTableId,
                         iCustVmemIndex := 0,
                         sLogContent := take 254 msg @ 0 # drop (Suc (min 254 (length msg))) (sLogContent l)\<rparr>) (stLogShm w);
                  if 255 \<le> length msg then Some (-13, w\<lparr>stLogShm := rs\<rparr>)
                  else do {
                    rs \<leftarrow> upd_ring k iIndex (\<lambda>l. l\<lparr>iVarmemIndex := -1, dwLogSeq := dwStatId\<rparr>) rs;
                    Some (0, w\<lparr>stLogShm := rs\<rparr>)
                  }
                }
      })"

text \<open>Characters with a meaning in table records are replaced; a null pointer is \<open>None\<close>.\<close>

definition XRK_PLUGIN_TABLE_STR_CHANGE :: "u8 list option \<Rightarrow> u8 list option" where
  "XRK_PLUGIN_TABLE_STR_CHANGE pstr =
     map_option (map (\<lambda>c. if c = of_char (CHR ''#'') \<or> c = of_char (CHR ''$'') then of_char (CHR ''*'') else c)) pstr"

end
