(* ===== verification/Log_Init.thy ===== *)
theory Log_Init
  imports Log
begin

text \<open>
  Setting the library up: \<open>MtReport_Init_ByKey\<close>, \<open>MtReport_Init\<close> and \<open>MtReport_Plus_Init\<close> of
  \<open>language/c_cpp/mt_log.c\<close>. The segment is attached by \<open>MtReport_GetShm\<close>; the parameter \<open>view\<close> reads
  its bytes as the shared part of the state (the cast to \<open>MTREPORT_SHM*\<close>), \<open>sz\<close> is its size.
\<close>

definition MT_REPORT_DEF_SHM_KEY :: int where
  "MT_REPORT_DEF_SHM_KEY = 1412275"

definition MT_MTREPORT_SHM_CHECK_STR :: "u8 list" where
  "MT_MTREPORT_SHM_CHECK_STR = bytes ''dksgks@#%@#%@#@SSSSyyyy''"

definition MtReport_Init_ByKey :: "'k ShmOS \<Rightarrow> ((nat \<Rightarrow> u8) \<Rightarrow> nat \<Rightarrow> LogWorld \<Rightarrow> LogWorld) \<Rightarrow> int \<Rightarrow> AttrEnv \<Rightarrow> u32 \<Rightarrow> int \<Rightarrow> int
    \<Rightarrow> LogWorld \<Rightarrow> 'k Proc \<Rightarrow> (int \<times> LogWorld \<times> 'k Proc) option" where
  "MtReport_Init_ByKey os view sz aenv iConfigId iConfigShmKey iFlag w p =
     (if cIsInit (lw_vmem w) \<noteq> 0 then Some (1, w, p)
      else case MtReport_GetShm os iConfigShmKey sz iFlag MT_MTREPORT_SHM_CHECK_STR p of (iRet, a, p) \<Rightarrow>
        if iRet < 0 then Some (-1, w, p)
        else do {
          a \<leftarrow> a;
          let w = view (pr_mem p) a w;
          let w = w\<lparr>lw_vmem := (lw_vmem w)\<lparr>vm_attached := True\<rparr>, lw_attr := (lw_attr w)\<lparr>at_attached := True\<rparr>\<rparr>;
          let w = (if iRet = 1 then w\<lparr>iLogSpecialReadIdx := -1,
                     stLogShm := map (\<lambda>r. r\<lparr>iLogStarIndex := -1\<rparr>) (stLogShm w)\<rparr> else w);
          w \<leftarrow> (if iConfigId \<noteq> 0 then do {
                  ci \<leftarrow> find_cfg iConfigId (unat (wLogConfigCount w)) 0 (stLogConfig w);
                  Some (w\<lparr>dwLogCfgId := iConfigId,
                    pCurConfigInfo := (case ci of None \<Rightarrow> pCurConfigInfo w | Some i \<Rightarrow> Some i)\<rparr>)
                } else Some w);
          let (rc, v) = MtReport_InitVmem (lw_vmem w);
          let w = w\<lparr>lw_vmem := v\<rparr>;
          if rc < 0 then Some (-4, w, p)
          else do {
            (rc, at) \<leftarrow> MtReport_InitAttr aenv (lw_attr w);
            let w = w\<lparr>lw_attr := at\<rparr>;
            if rc < 0 then Some (-5, w, p)
            else Some (iRet, w\<lparr>lw_vmem := (lw_vmem w)\<lparr>cIsInit := 1\<rparr>\<rparr>, p)
          }
        })"

text \<open>\<open>pLocalLogFile\<close> is \<open>None\<close> for a null pointer. The copy is not terminated when the name fills the buffer.\<close>

definition MtReport_Init :: "'k ShmOS \<Rightarrow> ((nat \<Rightarrow> u8) \<Rightarrow> nat \<Rightarrow> LogWorld \<Rightarrow> LogWorld) \<Rightarrow> int \<Rightarrow> AttrEnv \<Rightarrow> u32 \<Rightarrow> u8 list option
    \<Rightarrow> u32 \<Rightarrow> int \<Rightarrow> LogWorld \<Rightarrow> 'k Proc \<Rightarrow> (int \<times> LogWorld \<times> 'k Proc) option" where
  "MtReport_Init os view sz aenv iConfigId pLocalLogFile localType iConfigShmKey w p =
     (if cIsInit (lw_vmem w) \<noteq> 0 then Some (0, w, p)
      else do {
        (iRet, w, p) \<leftarrow> MtReport_Init_ByKey os view sz aenv iConfigId
          (if iConfigShmKey = 0 then MT_REPORT_DEF_SHM_KEY else iConfigShmKey) 438 w p;
        Some (iRet, case pLocalLogFile of
            Some f \<Rightarrow> if localType \<noteq> 0
              then w\<lparr>szLocalLogFile := strncpy 256 f (szLocalLogFile w), iLocalLogType := localType\<rparr>
              else w\<lparr>szLocalLogFile := 0 # drop 1 (szLocalLogFile w), iLocalLogType := 0\<rparr>
          | None \<Rightarrow> w\<lparr>szLocalLogFile := 0 # drop 1 (szLocalLogFile w), iLocalLogType := 0\<rparr>, p)
      })"

subsection \<open>Plugins\<close>

text \<open>
  The parameters that \<open>MtReport_Plus_Init\<close> reads, and what the environment supplies: the contents
  of the configuration file, its modification time, the current time, and what other processes do
  to the lock byte during the n-th \<open>usleep\<close>.
\<close>

definition plus_params :: "unit cfg_param list" where
  "plus_params =
     [\<lparr>cp_name = ''XRK_PLUGIN_NAME'', cp_var = ''szPlusName'', cp_type = CFG_STRING '''' 64\<rparr>,
      \<lparr>cp_name = ''XRK_PLUGIN_CONFIG_PLAT'', cp_var = ''szCheckVer'', cp_type = CFG_STRING '''' 15\<rparr>,
      \<lparr>cp_name = ''XRK_PLUGIN_ID'', cp_var = ''iPluginId'', cp_type = CFG_INT 0\<rparr>,
      \<lparr>cp_name = ''XRK_PLUGIN_CONFIG_FILE_VER'', cp_var = ''szVersion'', cp_type = CFG_STRING '''' 16\<rparr>,
      \<lparr>cp_name = ''XRK_PLUGIN_CONFIG_ID'', cp_var = ''iCfgId'', cp_type = CFG_INT 0\<rparr>,
      \<lparr>cp_name = ''MTREPORT_SHM_KEY'', cp_var = ''iShmKey'', cp_type = CFG_INT (word_of_int MT_REPORT_DEF_SHM_KEY)\<rparr>,
      \<lparr>cp_name = ''XRK_LOCAL_LOG_TYPE'', cp_var = ''szTypeString'', cp_type = CFG_STRING '''' 300\<rparr>,
      \<lparr>cp_name = ''XRK_LOCAL_LOG_FILE'', cp_var = ''szLocalLogFile'', cp_type = CFG_STRING '''' 256\<rparr>,
      \<lparr>cp_name = ''XRK_PLUGIN_RE_CHECK'', cp_var = ''iReCheck'', cp_type = CFG_INT 0\<rparr>]"

definition str_of :: "'f cfg_store \<Rightarrow> string \<Rightarrow> string" where
  "str_of st x = (case st x of Some (VStr s) \<Rightarrow> s | _ \<Rightarrow> [])"

definition int_of :: "'f cfg_store \<Rightarrow> string \<Rightarrow> u32" where
  "int_of st x = (case st x of Some (VInt n) \<Rightarrow> n | _ \<Rightarrow> 0)"

record PlusEnv =
  pe_file :: "string option"
  pe_mtime :: u32
  pe_now :: u32
  pe_sleep :: "nat \<Rightarrow> u8 \<Rightarrow> u8"

definition LIB_VER_NUM :: u32 where
  "LIB_VER_NUM = 1"

text \<open>\<open>for(i = 0; i < 20; i++) { if(VARMEM_CAS_GET(&flag)) break; usleep(2000); }\<close>; a failure is ignored.\<close>

fun plus_lock :: "PlusEnv \<Rightarrow> nat \<Rightarrow> nat \<Rightarrow> u8 \<Rightarrow> u8" where
  "plus_lock env 0 i f = f"
| "plus_lock env (Suc n) i f = (if f = 0 then 1 else plus_lock env n (Suc i) (pe_sleep env i f))"

text \<open>
  The registration: the entry of the plugin is renewed when there is one, else the first free
  entry is taken. \<open>n\<close> is the new entry; \<open>Inl\<close> is the error code of the source line, \<open>Inr\<close> the index.
\<close>

definition renew_entry :: "TInnerPlusInfo \<Rightarrow> TInnerPlusInfo \<Rightarrow> TInnerPlusInfo" where
  "renew_entry n e = e\<lparr>szPlusName := szPlusName n, szVersion := szVersion n, dwPluginStartTime := dwPluginStartTime n,
     iLibVerNum := iLibVerNum n, dwCfgFileLastModTime := dwCfgFileLastModTime n, dwLastReportSelfInfoTime := 0,
     dwLastHelloTime := dwPluginStartTime n\<rparr>"

fun find_plugin :: "u32 \<Rightarrow> nat \<Rightarrow> TInnerPlusInfo list \<Rightarrow> nat option" where
  "find_plugin pid i [] = None"
| "find_plugin pid i (e # es) = (if iPluginId e = pid then Some i else find_plugin pid (Suc i) es)"

definition register_plugin :: "PlusEnv \<Rightarrow> u32 \<Rightarrow> TInnerPlusInfo \<Rightarrow> LogWorld \<Rightarrow> (int + nat) \<times> LogWorld" where
  "register_plugin env iReCheck n w =
     (let a = lw_attr w; es = stPluginInfo a in
      case find_plugin (iPluginId n) 0 es of
        Some i \<Rightarrow>
          if bCheckRet (es ! i) \<noteq> 0 \<and> (iReCheck = 0 \<or> dwPluginStartTime n \<le> dwLastReportSelfInfoTime (es ! i) + 300)
          then (Inl (-169), w)
          else (Inr i, w\<lparr>lw_attr := a\<lparr>stPluginInfo := es[i := renew_entry n (es ! i)]\<rparr>\<rparr>)
      | None \<Rightarrow>
          if int MAX_INNER_PLUS_COUNT \<le> iPluginInfoCount w then (Inl (-189), w)
          else let w = w\<lparr>bAddPluginInfoFlag := plus_lock env 20 0 (bAddPluginInfoFlag w)\<rparr> in
            case find_plugin 0 0 es of
              None \<Rightarrow> (Inl (-208), w)
            | Some i \<Rightarrow> (Inr i, w\<lparr>lw_attr := a\<lparr>stPluginInfo := es[i := n]\<rparr>, iPluginInfoCount := iPluginInfoCount w + 1,
                bAddPluginInfoFlag := 0\<rparr>))"

text \<open>\<open>ERROR_LINE\<close> is the negative line number. Null pointers are \<open>None\<close>.\<close>

definition MtReport_Plus_Init :: "'k ShmOS \<Rightarrow> ((nat \<Rightarrow> u8) \<Rightarrow> nat \<Rightarrow> LogWorld \<Rightarrow> LogWorld) \<Rightarrow> int \<Rightarrow> AttrEnv \<Rightarrow> PlusEnv \<Rightarrow> u32
    \<Rightarrow> string option \<Rightarrow> string option \<Rightarrow> LogWorld \<Rightarrow> 'k Proc \<Rightarrow> (int \<times> LogWorld \<times> 'k Proc) option" where
  "MtReport_Plus_Init os view sz aenv env pluginId pName pBuildVersion w p =
     (if cIsInit (lw_vmem w) \<noteq> 0 then Some (1, w, p)
      else if pluginId = 0 \<or> pName = None \<or> pBuildVersion = None \<or> pBuildVersion = Some [] then Some (-105, w, p)
      else if CheckPluginConfig (pe_file env) < 0 then Some (-110, w, p)
      else do {
        (rc, st) \<leftarrow> LoadConfig (\<lambda>_. ()) (pe_file env) plus_params Map.empty;
        if rc < 0 then Some (-128, w, p)
        else if str_of st ''szCheckVer'' \<noteq> ''open'' then Some (-132, w, p)
        else if int_of st ''iPluginId'' \<noteq> pluginId \<or> Some (str_of st ''szPlusName'') \<noteq> pName then Some (-138, w, p)
        else if str_of st ''szPlusName'' = [] \<or> int_of st ''iPluginId'' = 0 \<or> str_of st ''szVersion'' = []
        then Some (-143, w, p)
        else do {
          (rc, w, p) \<leftarrow> MtReport_Init os view sz aenv (int_of st ''iCfgId'') (Some (bytes (str_of st ''szLocalLogFile'')))
            (GetLogTypeByStr (Some (str_of st ''szTypeString''))) (sint (int_of st ''iShmKey'')) w p;
          if rc < 0 \<or> \<not> vm_attached (lw_vmem w) then Some (-150, w, p)
          else let n = \<lparr>szPlusName = str_of st ''szPlusName'', iPluginId = int_of st ''iPluginId'',
                         szVersion = str_of st ''szVersion'', iLogConfigId = int_of st ''iCfgId'', iLibVerNum = LIB_VER_NUM,
                         dwLastReportAttrTime = 0, dwLastReportLogTime = 0, dwPluginStartTime = pe_now env,
                         dwLastReportSelfInfoTime = 0, dwLastHelloTime = pe_now env, bCheckRet = 0,
                         dwCfgFileLastModTime = pe_mtime env\<rparr>
            in case register_plugin env (int_of st ''iReCheck'') n w of
                (Inl code, w) \<Rightarrow> Some (code, w, p)
              | (Inr i, w) \<Rightarrow> Some (0, w\<lparr>lw_attr := (lw_attr w)\<lparr>iPluginIndex := of_nat i\<rparr>, bHasNewPluginInfo := 1\<rparr>, p)
        }
      })"

end
