(* ===== verification/Log_Props.thy ===== *)
theory Log_Props
  imports Log_Init Vmem_Props Attr_Props
begin

text \<open>
  Properties of the logging functions: what a written record gives back to a reader, the length
  and frequency limits, and the encoding of the custom fields.
\<close>

subsection \<open>Formatting\<close>

lemma format_log_result:
  assumes "0 \<notin> set msg"
  shows "c_str (fst (format_log msg)) = take 1055 msg" "snd (format_log msg) \<longleftrightarrow> 528 \<le> length msg"
    and "\<exists>r. fst (format_log msg) = take 1055 msg @ r"
proof -
  let ?s = "take 1055 msg"
  have len: "length ?s \<le> 1055" by simp
  have bufsz: "sLogBuf_size = 1088" by (simp add: sLogBuf_size_def MTREPORT_LOG_MAX_LENGTH_def)
  have z: "replicate (1088 - length ?s) (0 :: u8) = 0 # replicate (1087 - length ?s) 0"
    using len by (subst replicate_Suc [symmetric]) (simp add: Suc_diff_le [symmetric])
  have "1056 - length ?s = Suc (1055 - length ?s)" using len by arith
  then have t: "take 1056 (?s @ replicate (1088 - length ?s) (0 :: u8)) = ?s @ 0 # replicate (1055 - length ?s) 0"
    using len by (simp add: min_def)
  have "\<exists>r. fst (format_log msg) = ?s @ 0 # r"
    unfolding format_log_def Let_def bufsz using z t by (auto simp: min_def)
  then obtain r where r: "fst (format_log msg) = ?s @ 0 # r" by blast
  then show "c_str (fst (format_log msg)) = ?s"
    using c_str_nul_free(1) [OF nul_free_take [OF assms]] by simp
  show "\<exists>r. fst (format_log msg) = ?s @ r" using r by blast
  show "snd (format_log msg) \<longleftrightarrow> 528 \<le> length msg"
    unfolding format_log_def Let_def bufsz by auto
qed

text \<open>
  The text of a log is cut to 1055 characters and never contains the truncation mark, although
  every text of 528 characters or more is counted as truncated.
\<close>

theorem format_log_cuts:
  assumes "0 \<notin> set msg"
  shows "c_str (fst (format_log msg)) = take 1055 msg \<and> (snd (format_log msg) \<longleftrightarrow> 528 \<le> length msg)"
  using format_log_result [OF assms] by blast

theorem format_log_cuts_witness:
  "c_str (fst (format_log (replicate 600 65))) = replicate 600 65 \<and> snd (format_log (replicate 600 65))"
  using format_log_cuts [of "replicate 600 65"] by simp

subsection \<open>The frequency limit\<close>

text \<open>The answers of the frequency limit to calls at the given times.\<close>

fun freq_run :: "timeval list \<Rightarrow> SLogConfig \<Rightarrow> bool list" where
  "freq_run [] c = []"
| "freq_run (t # ts) c = (case freq_limit t c of (limited, c) \<Rightarrow> limited # freq_run ts c)"

definition in_window :: "u64 \<Rightarrow> timeval \<Rightarrow> bool" where
  "in_window start t \<longleftrightarrow> \<not> start + 60000 \<le> tv_sec t * 1000 + tv_usec t div 1000"

lemma freq_run_window:
  assumes "\<forall>t\<in>set ts. in_window (qwLastFreqTime c) t" "dwSpeedFreq c \<noteq> 0" "0 \<le> sint (iWriteLogCount c)"
    "sint (iWriteLogCount c) \<le> sint (dwSpeedFreq c) + 1" "sint (dwSpeedFreq c) < 2 ^ 31 - 2"
  shows "freq_run ts c = map (\<lambda>k. sint (dwSpeedFreq c) < sint (iWriteLogCount c) + int k) [0..<length ts]"
  using assms
proof (induction ts arbitrary: c)
  case (Cons t ts)
  have win: "\<not> qwLastFreqTime c + 60000 \<le> tv_sec t * 1000 + tv_usec t div 1000"
    using Cons.prems(1) by (simp add: in_window_def)
  show ?case
  proof (cases "sint (dwSpeedFreq c) < sint (iWriteLogCount c)")
    case True
    have "freq_run ts c = map (\<lambda>k. sint (dwSpeedFreq c) < sint (iWriteLogCount c) + int k) [0..<length ts]"
      using Cons by simp
    moreover have "freq_limit t c = (True, c)" using True win Cons.prems(2) by (simp add: freq_limit_def Let_def)
    ultimately show ?thesis using True by (simp add: upt_conv_Cons map_replicate_const del: upt_Suc)
  next
    case False
    let ?c = "c\<lparr>iWriteLogCount := iWriteLogCount c + 1\<rparr>"
    have succ: "sint (iWriteLogCount c + 1) = sint (iWriteLogCount c) + 1"
      using Cons.prems(3-5) False by (intro u32_succ) simp_all
    have "freq_run ts ?c = map (\<lambda>k. sint (dwSpeedFreq c) < sint (iWriteLogCount c + 1) + int k) [0..<length ts]"
      using Cons.IH [of ?c] Cons.prems False succ by simp
    moreover have "freq_limit t c = (False, ?c)" using False win Cons.prems(2) by (simp add: freq_limit_def Let_def)
    ultimately show ?thesis
      using False succ by (simp add: upt_conv_Cons map_Suc_upt [symmetric] o_def ac_simps del: upt_Suc)
  qed
qed simp

text \<open>
  With a limit of \<open>f\<close> logs a minute, the first \<open>f + 1\<close> calls of a window are admitted and all
  further calls of that window are refused.
\<close>

theorem freq_limit_window:
  assumes "\<forall>t\<in>set ts. in_window (qwLastFreqTime c) t" "0 < sint (dwSpeedFreq c)" "sint (dwSpeedFreq c) < 2 ^ 31 - 2"
    and "iWriteLogCount c = 0"
  shows "freq_run ts c = map (\<lambda>k. sint (dwSpeedFreq c) < int k) [0..<length ts]"
proof -
  have "dwSpeedFreq c \<noteq> 0" using assms(2) by auto
  then show ?thesis using freq_run_window [OF assms(1)] assms(2-4) by simp
qed

definition demo_cfg :: SLogConfig where
  "demo_cfg = \<lparr>dwCfgId = 9, cfg_iAppId = 1, cfg_iModuleId = 2, cfg_iLogType = 255, wTestKeyCount = 0, stTestKeys = [],
     dwSpeedFreq = 2, bLogFreqUseFlag = 0, iWriteLogCount = 0, qwLastFreqTime = 5000\<rparr>"

theorem freq_limit_window_witness:
  "freq_run (replicate 5 \<lparr>tv_sec = 6, tv_usec = 0\<rparr>) demo_cfg = [False, False, False, True, True]"
  using freq_limit_window [of "replicate 5 \<lparr>tv_sec = 6, tv_usec = 0\<rparr>" demo_cfg]
  by (simp add: demo_cfg_def in_window_def upt_conv_Cons)

subsection \<open>What a reader finds\<close>

text \<open>
  The text of a record: the bytes of the record, or its first 252 bytes followed by the string in
  the string store.
\<close>

definition log_text :: "(int \<Rightarrow> u8 list option) \<Rightarrow> MTLog \<Rightarrow> u8 list option" where
  "log_text m l = (if iVarmemIndex l < 0 then Some (c_str (sLogContent l))
     else map_option (\<lambda>s. take 252 (sLogContent l) @ s) (m (iVarmemIndex l)))"

lemma log_text_seq [simp]: "log_text m (l\<lparr>dwLogSeq := s\<rparr>) = log_text m l"
  by (simp add: log_text_def)

text \<open>The parts of the state that storing a text does not touch.\<close>

definition same_rings :: "LogWorld \<Rightarrow> LogWorld \<Rightarrow> bool" where
  "same_rings w w' \<longleftrightarrow> stLogShm w' = stLogShm w \<and> sLogListSpec w' = sLogListSpec w \<and>
     iLogSpecialReadIdx w' = iLogSpecialReadIdx w \<and> iLogSpecialWriteIdx w' = iLogSpecialWriteIdx w"

text \<open>
  What the agent needs of a record: the custom fields \<open>cu\<close> under their index, if there is one, and a
  text with NUL in the record or its rest under another index.
\<close>

definition log_readable :: "MTLogCust \<Rightarrow> (int \<Rightarrow> u8 list option) \<Rightarrow> MTLog \<Rightarrow> bool" where
  "log_readable cu m l \<longleftrightarrow> (0 < iCustVmemIndex l \<longrightarrow> m (iCustVmemIndex l) = Some (cust_bytes cu)) \<and>
     (iVarmemIndex l < 0 \<and> 0 \<in> set (sLogContent l) \<or>
      0 < iVarmemIndex l \<and> iVarmemIndex l \<noteq> iCustVmemIndex l \<and> (\<exists>t. m (iVarmemIndex l) = Some t \<and> length t \<le> 803))"

abbreviation full_record :: "MTLog \<Rightarrow> bool" where
  "full_record l \<equiv> length (sLogContent l) = 256"

text \<open>Storing the text \<open>msg\<close> by \<open>put\<close> when the string store goes from \<open>m\<close> to \<open>m'\<close>.\<close>

definition put_law :: "(int \<Rightarrow> u8 list option) \<Rightarrow> (int \<Rightarrow> u8 list option) \<Rightarrow> u8 list \<Rightarrow> bool \<Rightarrow> (MTLog \<Rightarrow> MTLog) \<Rightarrow> bool" where
  "put_law m m' msg ok put \<longleftrightarrow> m \<subseteq>\<^sub>m m' \<and> (ok \<or> 256 \<le> length msg) \<and>
     (\<forall>l. dwLogConfigId (put l) = dwLogConfigId l \<and> iCustVmemIndex (put l) = iCustVmemIndex l \<and>
       iAppId (put l) = iAppId l \<and> iModuleId (put l) = iModuleId l \<and> (full_record l \<longrightarrow> full_record (put l)) \<and>
       (ok \<longrightarrow> log_text m' (put l) = Some (take 1055 msg) \<and> wLogType (put l) = wLogType l \<and>
         (iVarmemIndex (put l) < 0 \<and> 0 \<in> set (sLogContent (put l)) \<or>
          0 < iVarmemIndex (put l) \<and> m (iVarmemIndex (put l)) = None \<and>
          (\<exists>t. m' (iVarmemIndex (put l)) = Some t \<and> length t \<le> 803))))"

lemma put_content_short:
  assumes msg: "0 \<notin> set msg" and buf: "buf = fst (format_log msg)" and short: "length (take 1055 msg) < 256"
  shows "\<exists>put. put_content env buf w = Some (True, put, w) \<and> put_law m m msg True put"
proof -
  define s where "s = take 1055 msg"
  have s: "c_str buf = s" "length s < 256" "0 \<notin> set s"
    using format_log_result(1) [OF msg] buf short nul_free_take [OF msg, of 1055] by (simp_all only: s_def not_False_eq_True)
  have "put_content env buf w = Some (True, (\<lambda>l. l\<lparr>iVarmemIndex := -1,
      sLogContent := s @ 0 # drop (Suc (length s)) (sLogContent l)\<rparr>), w)"
    using s by (simp add: put_content_def Let_def iShmLogBufLen_def)
  moreover have "put_law m m msg True (\<lambda>l. l\<lparr>iVarmemIndex := -1, sLogContent := s @ 0 # drop (Suc (length s)) (sLogContent l)\<rparr>)"
    unfolding put_law_def s_def [symmetric] using c_str_nul_free(1) [OF s(3)] s(2) by (simp add: log_text_def)
  ultimately show ?thesis by blast
qed

lemma put_content_stores:
  assumes rep: "vmem_rep (lw_vmem w) m" and msg: "0 \<notin> set msg" and buf: "buf = fst (format_log msg)"
  shows "\<exists>ok put w' m'. put_content env buf w = Some (ok, put, w') \<and> vmem_rep (lw_vmem w') m' \<and> same_rings w w' \<and>
    put_law m m' msg ok put"
proof (cases "length (take 1055 msg) < 256")
  case True
  then show ?thesis using put_content_short [OF msg buf] rep by (fastforce simp: same_rings_def)
next
  case False
  define s where "s = take 1055 msg"
  let ?d = "drop 252 s"
  have len: "256 \<le> length s" "length s \<le> 1055" using False by (simp_all add: s_def)
  have long: "256 \<le> length msg" using len(1) unfolding s_def by simp
  have c: "c_str buf = s" using format_log_result(1) [OF msg] buf by (simp only: s_def)
  obtain r where r: "buf = s @ r" using format_log_result(3) [OF msg] buf by (auto simp only: s_def)
  have "length s - 256 + 4 = length s - 252" using len by arith
  then have d: "take (length s - 256 + 4) (drop 252 buf) = ?d" "take 252 (take 256 buf) = take 252 s" "length (take 256 buf) = 256"
    using len r by simp_all
  have "storable ?d" using len by (simp add: storable_def VMEM_MAX_DATA_LEN_def)
  then obtain x v where save: "MtReport_SaveToVmem (le_vclk env) ?d (lw_vmem w) = Some (x, v)"
    "if x < 0 then vmem_rep v m else m x = None \<and> vmem_rep v (m(x \<mapsto> ?d))"
    using vm.save_law [OF rep, of ?d "le_vclk env"] by blast
  define m' where "m' = (if x < 0 then m else m(x \<mapsto> ?d))"
  have m': "vmem_rep v m'" "m \<subseteq>\<^sub>m m'" using save(2) by (auto simp: m'_def map_le_def split: if_splits)
  show ?thesis
  proof (cases "x \<le> 0")
    case True
    let ?put = "\<lambda>l. l\<lparr>sLogContent := vmem_failed_text x @ 0 # drop (Suc (length (vmem_failed_text x))) (take 256 buf),
      wLogType := ucast MTLOG_TYPE_ERROR, iVarmemIndex := -1\<rparr>"
    have "put_content env buf w = Some (False, ?put, w\<lparr>lw_vmem := v, wLogVmemFailed := wLogVmemFailed w + 1\<rparr>)"
      using True save(1) c d(1) len by (simp add: put_content_def Let_def iShmLogBufLen_def)
    moreover have "length (vmem_failed_text x) \<le> 254" by (simp add: vmem_failed_text_def iShmLogBufLen_def)
    then have "put_law m m' msg False ?put" unfolding put_law_def using m'(2) long d(3) by simp
    ultimately show ?thesis using m'(1) by (auto simp: same_rings_def)
  next
    case x: False
    let ?put = "\<lambda>l. l\<lparr>sLogContent := take 256 buf, iVarmemIndex := x\<rparr>"
    have run: "put_content env buf w = Some (True, ?put, w\<lparr>lw_vmem := v, wLogWriteInVmem := wLogWriteInVmem w + 1\<rparr>)"
      using x save(1) c d(1) len by (simp add: put_content_def Let_def iShmLogBufLen_def)
    have "put_law m m' msg True ?put"
      unfolding put_law_def s_def [symmetric] using x d(2,3) m'(2) save(2) len
      by (simp add: log_text_def m'_def split: if_splits)
    then show ?thesis using run m'(1) by (auto simp: same_rings_def)
  qed
qed

lemma cust_bytes_storable: "storable (cust_bytes c)"
proof -
  have "length (cust_bytes c) \<le> 65"
    by (auto simp: cust_bytes_def be32_def)
  moreover have "0 < length (cust_bytes c)" by (simp add: cust_bytes_def)
  ultimately show ?thesis by (simp add: storable_def VMEM_MAX_DATA_LEN_def)
qed

lemma MtReport_Save_LogCust_run:
  assumes "vmem_rep (lw_vmem w) m"
  shows "\<exists>x w' m'. MtReport_Save_LogCust env w = Some (x, w') \<and> vmem_rep (lw_vmem w') m' \<and> same_rings w w' \<and>
    (0 < x \<longrightarrow> m' x = Some (cust_bytes (stCust w)))"
proof -
  obtain x v where "MtReport_SaveToVmem (le_vclk env) (cust_bytes (stCust w)) (lw_vmem w) = Some (x, v)"
    "if x < 0 then vmem_rep v m else m x = None \<and> vmem_rep v (m(x \<mapsto> cust_bytes (stCust w)))"
    using vm.save_law [OF assms cust_bytes_storable, of "le_vclk env"] by blast
  moreover define w' where "w' = (if x \<le> 0 then w\<lparr>lw_vmem := v, wLogCustVmemFailed := wLogCustVmemFailed w + 1\<rparr>
    else w\<lparr>lw_vmem := v, wLogCustInVmem := wLogCustInVmem w + 1\<rparr>)"
  ultimately have "MtReport_Save_LogCust env w = Some (x, w')" "same_rings w w'" "lw_vmem w' = v"
    "\<exists>m'. vmem_rep v m' \<and> (0 < x \<longrightarrow> m' x = Some (cust_bytes (stCust w)))"
    by (auto simp: MtReport_Save_LogCust_def Let_def same_rings_def split: if_splits)
  then show ?thesis by auto
qed

end
