(* ===== verification/Log_Ring.thy ===== *)
theory Log_Ring
  imports Log_Props
begin

text \<open>
  Writing a record: the claim of a slot in a ring, the filling of the record and what a reader
  finds there; up to the common part of \<open>MtReport_Log\<close> and \<open>MtReport_Log_For_CfgId\<close>.
\<close>

subsection \<open>Writing into a ring\<close>

definition ring_ok :: "MTLogShm \<Rightarrow> bool" where
  "ring_ok r \<longleftrightarrow> 0 \<le> iWriteIndex r \<and> iWriteIndex r < MTLOG_SHM_RECORDS_COUNT \<and>
     length (sLogList r) = nat MTLOG_SHM_RECORDS_COUNT \<and> (\<forall>l\<in>set (sLogList r). full_record l)"

text \<open>The rings after a change \<open>f\<close> to one record.\<close>

definition at_record :: "nat \<Rightarrow> nat \<Rightarrow> (MTLog \<Rightarrow> MTLog) \<Rightarrow> MTLogShm list \<Rightarrow> MTLogShm list" where
  "at_record k i f rs = rs[k := (rs ! k)\<lparr>sLogList := (sLogList (rs ! k))[i := f (sLogList (rs ! k) ! i)]\<rparr>]"

lemma at_record_sel [simp]:
  assumes "k < length rs" "i < length (sLogList (rs ! k))"
  shows "length (at_record k i f rs) = length rs" "sLogList (at_record k i f rs ! k) ! i = f (sLogList (rs ! k) ! i)"
    "length (sLogList (at_record k i f rs ! k)) = length (sLogList (rs ! k))"
    "iWriteIndex (at_record k i f rs ! k) = iWriteIndex (rs ! k)"
    "iLogStarIndex (at_record k i f rs ! k) = iLogStarIndex (rs ! k)"
    "bTryGetLogIndex (at_record k i f rs ! k) = bTryGetLogIndex (rs ! k)"
    "at_record k i g (at_record k i f rs) = at_record k i (\<lambda>l. g (f l)) rs"
  using assms by (simp_all add: at_record_def)

text \<open>
  The indices and the flag of a ring, and what a claim of a record in ring \<open>k\<close> does to them: a ring with nothing to read
  starts at the record, the write index advances and the flag is free. All else stays, the indices of the special list too.
\<close>

definition marks :: "MTLogShm \<Rightarrow> int \<times> int \<times> u8" where
  "marks r = (iLogStarIndex r, iWriteIndex r, bTryGetLogIndex r)"

definition claims :: "nat \<Rightarrow> LogWorld \<Rightarrow> LogWorld \<Rightarrow> bool" where
  "claims k w w' \<longleftrightarrow> iLogSpecialReadIdx w' = iLogSpecialReadIdx w \<and> iLogSpecialWriteIdx w' = iLogSpecialWriteIdx w \<and>
     map marks (stLogShm w') = (let r = stLogShm w ! k in (map marks (stLogShm w))
       [k := (if iLogStarIndex r < 0 then iWriteIndex r else iLogStarIndex r, (iWriteIndex r + 1) mod MTLOG_SHM_RECORDS_COUNT, 0)])"

lemma at_record_marks [simp]: "map marks (at_record k i f rs) = map marks rs"
proof (rule nth_equalityI)
  fix j
  assume "j < length (map marks (at_record k i f rs))"
  then show "map marks (at_record k i f rs) ! j = map marks rs ! j"
    by (cases "k = j") (simp_all add: at_record_def marks_def)
qed (simp add: at_record_def)

lemma all_update: "\<forall>r\<in>set rs. P r \<Longrightarrow> P x \<Longrightarrow> \<forall>r\<in>set (rs[k := x]). P r"
  using set_update_subset_insert [of rs k x] by blast

lemma at_record_ok:
  assumes "k < length rs" "i < length (sLogList (rs ! k))" "\<forall>r\<in>set rs. ring_ok r" "\<And>l. full_record l \<Longrightarrow> full_record (f l)"
  shows "\<forall>r\<in>set (at_record k i f rs). ring_ok r"
proof -
  have ok: "ring_ok (rs ! k)" using assms(1,3) by simp
  then have "full_record (f (sLogList (rs ! k) ! i))" using assms(2,4) by (simp add: ring_ok_def)
  then have "\<forall>l\<in>set ((sLogList (rs ! k))[i := f (sLogList (rs ! k) ! i)]). full_record l"
    using ok by (intro all_update) (simp_all add: ring_ok_def)
  then show ?thesis
    unfolding at_record_def using ok by (intro all_update [OF assms(3)]) (simp add: ring_ok_def)
qed

lemma upd_ring_at:
  assumes "k < length rs" "0 \<le> i" "nat i < length (sLogList (rs ! k))"
  shows "upd_ring k i f rs = Some (at_record k (nat i) f rs)"
  using assms by (simp add: upd_ring_def upd_log_def at_record_def)

lemma pick_ring_some:
  assumes "\<exists>r\<in>set rs. bTryGetLogIndex r = 0" "\<forall>r\<in>set rs. ring_ok r"
  shows "\<exists>k rs'. pick_ring t i rs = Some (i + k, rs') \<and> k < length rs \<and> length rs' = length rs \<and>
    iWriteIndex (rs' ! k) = iWriteIndex (rs ! k) \<and> (\<forall>r\<in>set rs'. ring_ok r) \<and>
    (\<exists>x. map marks rs' = (map marks rs)[k := (iLogStarIndex (rs ! k), iWriteIndex (rs ! k), x)])"
  using assms
proof (induction rs arbitrary: i)
  case (Cons r rs)
  show ?case
  proof (cases "bTryGetLogIndex r = 0 \<or> ucast (dwGetLogIndexStartTime r + 5) < tv_sec t")
    case True
    then show ?thesis using Cons.prems by (intro exI [of _ 0]) (auto simp: ring_ok_def marks_def)
  next
    case False
    obtain k rs' where "pick_ring t (Suc i) rs = Some (Suc i + k, rs')" "k < length rs" "length rs' = length rs"
      "iWriteIndex (rs' ! k) = iWriteIndex (rs ! k)" "\<forall>r\<in>set rs'. ring_ok r"
      "\<exists>x. map marks rs' = (map marks rs)[k := (iLogStarIndex (rs ! k), iWriteIndex (rs ! k), x)]"
      using Cons.IH [of "Suc i"] Cons.prems False by auto
    then show ?thesis using False Cons.prems by (intro exI [of _ "Suc k"] exI [of _ "r # rs'"]) auto
  qed
qed simp

lemma ring_claim_law:
  assumes "ring_ok r" "ring_claim r = (i, full, r')"
  shows "i = iWriteIndex r" "iWriteIndex r' = (i + 1) mod MTLOG_SHM_RECORDS_COUNT" "sLogList r' = sLogList r" "ring_ok r'"
    "iLogStarIndex r' = (if iLogStarIndex r < 0 then iWriteIndex r else iLogStarIndex r)"
proof -
  have r: "0 \<le> iWriteIndex r" "iWriteIndex r < 10000" "length (sLogList r) = 10000"
    using assms(1) by (simp_all add: ring_ok_def MTLOG_SHM_RECORDS_COUNT_def)
  show i: "i = iWriteIndex r" and l: "sLogList r' = sLogList r"
    and "iLogStarIndex r' = (if iLogStarIndex r < 0 then iWriteIndex r else iLogStarIndex r)"
    using assms(2) by (auto simp: ring_claim_def Let_def split: if_splits)
  have m: "(iWriteIndex r + 1) mod 10000 = (if 9999 \<le> iWriteIndex r then 0 else iWriteIndex r + 1)"
    using r(1,2) by (cases "iWriteIndex r = 9999") simp_all
  show "iWriteIndex r' = (i + 1) mod MTLOG_SHM_RECORDS_COUNT"
    using assms(2) unfolding i MTLOG_SHM_RECORDS_COUNT_def m
    by (auto simp: ring_claim_def Let_def MTLOG_SHM_RECORDS_COUNT_def split: if_splits)
  then show "ring_ok r'" using l r assms(1) by (simp add: ring_ok_def MTLOG_SHM_RECORDS_COUNT_def)
qed

lemma claim_record_run:
  assumes "k < length (stLogShm w)" "\<forall>r\<in>set (stLogShm w). ring_ok r" "i = nat (iWriteIndex (stLogShm w ! k))"
  shows "\<exists>w'. claim_record k t w = Some (int i, w') \<and> (\<forall>r\<in>set (stLogShm w'). ring_ok r) \<and> lw_vmem w' = lw_vmem w \<and>
    stCust w' = stCust w \<and> length (stLogShm w') = length (stLogShm w) \<and> i < length (sLogList (stLogShm w' ! k)) \<and>
    iWriteIndex (stLogShm w' ! k) = (int i + 1) mod MTLOG_SHM_RECORDS_COUNT \<and> bTryGetLogIndex (stLogShm w' ! k) = 0 \<and>
    qwLogTime (sLogList (stLogShm w' ! k) ! i) = t \<and> claims k w w'"
proof -
  let ?r = "stLogShm w ! k"
  have ok: "ring_ok ?r" using assms(1,2) by simp
  then have i: "int i = iWriteIndex ?r" "i < length (sLogList ?r)" "int i < MTLOG_SHM_RECORDS_COUNT"
    using assms(3) by (auto simp: ring_ok_def)
  obtain full r1 where c: "ring_claim ?r = (int i, full, r1)"
    "iWriteIndex r1 = (int i + 1) mod MTLOG_SHM_RECORDS_COUNT" "sLogList r1 = sLogList ?r"
    "ring_ok r1" "iLogStarIndex r1 = (if iLogStarIndex ?r < 0 then iWriteIndex ?r else iLogStarIndex ?r)"
    using ring_claim_law [OF ok] i(1) by (metis prod_cases3)
  let ?rs = "(stLogShm w)[k := r1]" and ?f = "\<lambda>l. l\<lparr>qwLogTime := t, dwLogSeq := 0\<rparr>"
  have k: "k < length ?rs" "i < length (sLogList (?rs ! k))" using assms(1) i(2) c(3) by simp_all
  let ?as = "at_record k i ?f ?rs"
  have "\<forall>r\<in>set ?rs. ring_ok r"
    by (rule all_update [OF assms(2) c(4)])
  then have oks: "\<forall>r\<in>set ?as. ring_ok r" by (rule at_record_ok [OF k]) simp
  have run: "claim_record k t w = Some (int i, w\<lparr>stLogShm := ?as[k := (?as ! k)\<lparr>bTryGetLogIndex := 0\<rparr>],
      wLogInShmFull := (if full then wLogInShmFull w + 1 else wLogInShmFull w)\<rparr>)"
    using upd_ring_at [OF k(1), of "int i" ?f] k c(1) by (simp add: claim_record_def)
  have "\<forall>r\<in>set (?as[k := (?as ! k)\<lparr>bTryGetLogIndex := 0\<rparr>]). ring_ok r"
  proof (rule all_update [OF oks])
    have "ring_ok (?as ! k)" using oks k by (simp del: at_record_sel(7))
    then show "ring_ok ((?as ! k)\<lparr>bTryGetLogIndex := 0\<rparr>)" by (simp add: ring_ok_def)
  qed
  moreover have "map marks (?as[k := (?as ! k)\<lparr>bTryGetLogIndex := 0\<rparr>]) = (map marks (stLogShm w))
      [k := (if iLogStarIndex ?r < 0 then iWriteIndex ?r else iLogStarIndex ?r, (iWriteIndex ?r + 1) mod MTLOG_SHM_RECORDS_COUNT, 0)]"
    using k c(2,5) i(1) by (simp add: map_update marks_def)
  ultimately show ?thesis using run k c(2) by (simp add: claims_def Let_def)
qed

lemma next_seq_law:
  assumes "next_seq w = (s, w')"
  shows "s \<noteq> 0" "stLogShm w' = stLogShm w" "lw_vmem w' = lw_vmem w" "stCust w' = stCust w"
    "iLogSpecialReadIdx w' = iLogSpecialReadIdx w" "iLogSpecialWriteIdx w' = iLogSpecialWriteIdx w"
  using assms by (auto simp: next_seq_def Let_def split: if_splits)

lemma count_write_sel [simp]:
  "stLogShm (count_write t buf w) = stLogShm w" "lw_vmem (count_write t buf w) = lw_vmem w"
  "iLogSpecialReadIdx (count_write t buf w) = iLogSpecialReadIdx w" "iLogSpecialWriteIdx (count_write t buf w) = iLogSpecialWriteIdx w"
  by (simp_all add: count_write_def)


text \<open>
  What a reader finds in a record after a log of the text \<open>msg\<close> was written to it with result \<open>rc\<close>
  by a process with custom fields \<open>cu\<close>, and what holds of the state when this was record \<open>i\<close> of
  ring \<open>k\<close>.
\<close>

definition logged :: "MTLogCust \<Rightarrow> u8 list \<Rightarrow> u32 \<Rightarrow> SLogConfig \<Rightarrow> int \<Rightarrow> (int \<Rightarrow> u8 list option) \<Rightarrow> MTLog \<Rightarrow> bool" where
  "logged cu msg ty c rc m l \<longleftrightarrow> dwLogSeq l \<noteq> 0 \<and> dwLogConfigId l = dwCfgId c \<and> iAppId l = cfg_iAppId c \<and>
     iModuleId l = cfg_iModuleId c \<and>
     (rc = 0 \<and> log_text m l = Some (take 1055 msg) \<and> wLogType l = ucast ty \<and> log_readable cu m l \<or> rc = -4 \<and> 256 \<le> length msg)"

definition log_done :: "nat \<Rightarrow> nat \<Rightarrow> MTLogCust \<Rightarrow> u8 list \<Rightarrow> u32 \<Rightarrow> SLogConfig \<Rightarrow> int \<Rightarrow> LogWorld \<Rightarrow> bool" where
  "log_done k i cu msg ty c rc w \<longleftrightarrow> (\<exists>m. vmem_rep (lw_vmem w) m \<and> logged cu msg ty c rc m (sLogList (stLogShm w ! k) ! i)) \<and>
     k < length (stLogShm w) \<and> i < length (sLogList (stLogShm w ! k)) \<and>
     (\<forall>r\<in>set (stLogShm w). ring_ok r) \<and> iWriteIndex (stLogShm w ! k) = (int i + 1) mod MTLOG_SHM_RECORDS_COUNT"

lemma put_law_logged:
  assumes put: "put_law m m' msg ok put" and cust: "0 < x \<longrightarrow> m x = Some (cust_bytes cu)" and "seq \<noteq> 0"
  shows "logged cu msg ty c (if ok then 0 else -4) m' ((put (l\<lparr>iAppId := cfg_iAppId c, iModuleId := cfg_iModuleId c,
    wLogType := ucast ty, dwLogConfigId := dwCfgId c, iCustVmemIndex := x\<rparr>))\<lparr>dwLogSeq := seq\<rparr>)"
    (is "logged cu msg ty c _ m' ((put ?l)\<lparr>dwLogSeq := seq\<rparr>)")
proof -
  have "m \<subseteq>\<^sub>m m'" using put by (simp add: put_law_def)
  then have cust': "0 < x \<longrightarrow> m' x = Some (cust_bytes cu)" using cust by (metis domI map_le_def)
  have l: "dwLogConfigId (put ?l) = dwCfgId c" "iCustVmemIndex (put ?l) = x" "iAppId (put ?l) = cfg_iAppId c"
    "iModuleId (put ?l) = cfg_iModuleId c" "ok \<or> 256 \<le> length msg"
    using put by (simp_all add: put_law_def)
  show ?thesis
  proof (cases ok)
    case True
    then have ok: "log_text m' (put ?l) = Some (take 1055 msg)" "wLogType (put ?l) = ucast ty"
      "iVarmemIndex (put ?l) < 0 \<and> 0 \<in> set (sLogContent (put ?l)) \<or>
       0 < iVarmemIndex (put ?l) \<and> m (iVarmemIndex (put ?l)) = None \<and>
        (\<exists>t. m' (iVarmemIndex (put ?l)) = Some t \<and> length t \<le> 803)"
      using put by (simp_all add: put_law_def)
    have "log_readable cu m' ((put ?l)\<lparr>dwLogSeq := seq\<rparr>)"
      using ok(3) cust cust' l(2) by (auto simp: log_readable_def)
    then show ?thesis using True ok(1,2) l assms(3) by (simp add: logged_def)
  next
    case False
    then show ?thesis using l assms(3) by (simp add: logged_def)
  qed
qed

lemma log_record_stores:
  assumes rep: "vmem_rep (lw_vmem w) m" and msg: "0 \<notin> set msg" and buf: "buf = fst (format_log msg)"
    and rings: "k < length (stLogShm w)" "\<forall>r\<in>set (stLogShm w). ring_ok r"
    and i: "i = nat (iWriteIndex (stLogShm w ! k))"
  shows "\<exists>rc w'. log_record env k cfg t ty buf w = Some (rc, w') \<and> log_done k i (stCust w) msg ty cfg rc w' \<and> claims k w w'"
proof -
  obtain w2 where w2: "claim_record k t w = Some (int i, w2)" "\<forall>r\<in>set (stLogShm w2). ring_ok r"
    "lw_vmem w2 = lw_vmem w" "k < length (stLogShm w2)" "i < length (sLogList (stLogShm w2 ! k))"
    "iWriteIndex (stLogShm w2 ! k) = (int i + 1) mod MTLOG_SHM_RECORDS_COUNT" "stCust w2 = stCust w" "claims k w w2"
    using claim_record_run [OF rings i, of t] rings(1) by auto
  obtain seq w3 where w3: "next_seq w2 = (seq, w3)" by (cases "next_seq w2")
  note ns = next_seq_law [OF w3]
  let ?f1 = "\<lambda>l. l\<lparr>iAppId := cfg_iAppId cfg, iModuleId := cfg_iModuleId cfg, wLogType := ucast ty, dwLogConfigId := dwCfgId cfg\<rparr>"
  define w4 where "w4 = w3\<lparr>stLogShm := at_record k i ?f1 (stLogShm w2)\<rparr>"
  obtain x w5 m5 where w5: "(if bCustFlag (stCust w4) \<noteq> 0 then MtReport_Save_LogCust env w4 else Some (0, w4)) = Some (x, w5)"
    "vmem_rep (lw_vmem w5) m5" "stLogShm w5 = at_record k i ?f1 (stLogShm w2)"
    "0 < x \<longrightarrow> m5 x = Some (cust_bytes (stCust w))"
    "iLogSpecialReadIdx w5 = iLogSpecialReadIdx w2" "iLogSpecialWriteIdx w5 = iLogSpecialWriteIdx w2"
    using MtReport_Save_LogCust_run [of w4 m env] rep w2(3,7) ns(3-6)
    by (cases "bCustFlag (stCust w4) \<noteq> 0") (auto simp: w4_def same_rings_def)
  let ?f2 = "\<lambda>l. (?f1 l)\<lparr>iCustVmemIndex := x\<rparr>"
  define w6 where "w6 = count_write (le_now env) buf (w5\<lparr>stLogShm := at_record k i ?f2 (stLogShm w2)\<rparr>)"
  have "vmem_rep (lw_vmem w6) m5" using w5(2) by (simp add: w6_def)
  from put_content_stores [OF this msg buf, of env] obtain ok put w7 m' where
    w7: "put_content env buf w6 = Some (ok, put, w7)" "vmem_rep (lw_vmem w7) m'" "same_rings w6 w7" "put_law m5 m' msg ok put"
    by blast
  let ?f3 = "\<lambda>l. (put (?f2 l))\<lparr>dwLogSeq := seq\<rparr>"
  let ?rs = "at_record k i ?f3 (stLogShm w2)"
  have up: "upd_ring k (int i) g (at_record k i f (stLogShm w2)) = Some (at_record k i (\<lambda>l. g (f l)) (stLogShm w2))"
    "upd_ring k (int i) g (stLogShm w2) = Some (at_record k i g (stLogShm w2))" for f g
    using w2(4,5) by (simp_all add: upd_ring_at)
  have rs7: "stLogShm w7 = at_record k i ?f2 (stLogShm w2)" using w7(3) by (simp add: same_rings_def w6_def)
  have run: "log_record env k cfg t ty buf w = Some (if ok then 0 else -4, w7\<lparr>stLogShm := ?rs\<rparr>)"
    by (simp only: log_record_def w2(1) w3 ns(2) up w4_def [symmetric] w5(1,3) w6_def [symmetric] w7(1) rs7
        bind.bind_lunit prod.case Let_def)
  have full: "full_record (?f3 l)" if "full_record l" for l using w7(4) that by (simp add: put_law_def)
  have "logged (stCust w) msg ty cfg (if ok then 0 else -4) m' (sLogList (?rs ! k) ! i)"
    using put_law_logged [OF w7(4) w5(4) ns(1), of ty cfg "sLogList (stLogShm w2 ! k) ! i"] w2(4,5) by simp
  then have "log_done k i (stCust w) msg ty cfg (if ok then 0 else -4) (w7\<lparr>stLogShm := ?rs\<rparr>)"
    unfolding log_done_def using w7(2) at_record_ok [OF w2(4,5,2), of ?f3] full w2(4-6) by auto
  moreover have "claims k w (w7\<lparr>stLogShm := ?rs\<rparr>)" using w2(8) w7(3) w5(5,6) by (simp add: claims_def same_rings_def w6_def)
  ultimately show ?thesis unfolding run by blast
qed

lemma get_ring_free:
  assumes "\<exists>r\<in>set rs. bTryGetLogIndex r = 0" "\<forall>r\<in>set rs. ring_ok r"
  shows "\<exists>k rs'. get_ring env 10 0 rs = (Some k, rs') \<and> k < length rs \<and> k < length rs' \<and>
    iWriteIndex (rs' ! k) = iWriteIndex (rs ! k) \<and> (\<forall>r\<in>set rs'. ring_ok r) \<and>
    (\<exists>x. map marks rs' = (map marks rs)[k := (iLogStarIndex (rs ! k), iWriteIndex (rs ! k), x)])"
proof -
  obtain k rs' where k: "pick_ring (le_now env) 0 rs = Some (k, rs')" "k < length rs" "k < length rs'"
    "iWriteIndex (rs' ! k) = iWriteIndex (rs ! k)" "\<forall>r\<in>set rs'. ring_ok r"
    "\<exists>x. map marks rs' = (map marks rs)[k := (iLogStarIndex (rs ! k), iWriteIndex (rs ! k), x)]"
    using pick_ring_some [OF assms, of "le_now env" 0] by (metis add_0)
  have "get_ring env (Suc 9) 0 rs = (Some k, rs')"
    by (simp only: get_ring.simps k(1) option.case prod.case)
  then show ?thesis using k(2-6) by simp
qed

lemma log_write_stores:
  assumes rep: "vmem_rep (lw_vmem w) m" and msg: "0 \<notin> set msg"
    and cfg: "ci < length (stLogConfig w)" "\<not> fst (freq_limit (le_now env) (stLogConfig w ! ci))"
    and rings: "\<exists>r\<in>set (stLogShm w). bTryGetLogIndex r = 0" "\<forall>r\<in>set (stLogShm w). ring_ok r"
  shows "\<exists>rc w' k. log_write env ci t ty msg w = Some (rc, w') \<and> k < length (stLogShm w) \<and>
    log_done k (nat (iWriteIndex (stLogShm w ! k))) (stCust w) msg ty (stLogConfig w ! ci) rc w' \<and> claims k w w'"
proof -
  let ?c = "stLogConfig w ! ci"
  obtain c' where c': "freq_limit (le_now env) ?c = (False, c')" "dwCfgId c' = dwCfgId ?c" "cfg_iAppId c' = cfg_iAppId ?c" "cfg_iModuleId c' = cfg_iModuleId ?c"
    using cfg(2) by (auto simp: freq_limit_def Let_def split: if_splits)
  have done_c: "log_done k i cu msg ty c' rc v = log_done k i cu msg ty ?c rc v" for k i cu rc v
    using c'(2-4) by (simp add: log_done_def logged_def)
  obtain k rs where k: "get_ring env 10 0 (stLogShm w) = (Some k, rs)" "k < length (stLogShm w)" "k < length rs"
    "iWriteIndex (rs ! k) = iWriteIndex (stLogShm w ! k)" "\<forall>r\<in>set rs. ring_ok r"
    "\<exists>x. map marks rs = (map marks (stLogShm w))[k := (iLogStarIndex (stLogShm w ! k), iWriteIndex (stLogShm w ! k), x)]"
    using get_ring_free [OF rings] by blast
  let ?t = "if t \<noteq> 0 then t else log_time (le_now env)"
  define w1 where "w1 = (if snd (format_log msg) then w\<lparr>stLogConfig := (stLogConfig w)[ci := c'], wLogTruncate := wLogTruncate w + 1\<rparr>
     else w\<lparr>stLogConfig := (stLogConfig w)[ci := c']\<rparr>)\<lparr>stLogShm := rs\<rparr>"
  have run: "log_write env ci t ty msg w = log_record env k c' ?t ty (fst (format_log msg)) w1"
    unfolding log_write_def w1_def using cfg(1) c'(1) k(1) by (simp add: Let_def split: prod.split)
  have w1: "vmem_rep (lw_vmem w1) m" "stLogShm w1 = rs" "stCust w1 = stCust w" using rep by (simp_all add: w1_def)
  have "marks (rs ! k) = map marks rs ! k" using k(3) by simp
  then have star: "iLogStarIndex (rs ! k) = iLogStarIndex (stLogShm w ! k)" using k(2,6) by (auto simp: marks_def)
  have "claims k w w'" if "claims k w1 w'" for w'
    using that star k(4,6) by (auto simp: claims_def Let_def w1_def split: if_splits)
  with log_record_stores [OF w1(1) msg refl, unfolded w1(2), OF k(3,5) refl, of env c' ?t ty]
  show ?thesis unfolding run done_c w1(3) using k(2,4) by metis
qed

lemma MtReport_Log_To_Local_only_writes: "\<exists>out. MtReport_Log_To_Local env ty msg w = w\<lparr>lw_out := out\<rparr>"
proof -
  have "\<exists>out. w = w\<lparr>lw_out := out\<rparr>" by (rule exI [of _ "lw_out w"]) simp
  then show ?thesis unfolding MtReport_Log_To_Local_def Let_def by auto
qed

end
