(* ===== verification/Log_Props2.thy ===== *)
theory Log_Props2
  imports Log_Ring
begin

text \<open>
  The logging call as a whole: \<open>MtReport_Log\<close> from its guards to the record in the ring, with a
  witness on a small process state.
\<close>

lemma MtReport_Log_run:
  assumes rep: "vmem_rep (lw_vmem w) m" and msg: "0 \<notin> set msg"
    and ini: "cIsInit (lw_vmem w) \<noteq> 0" "vm_attached (lw_vmem w)" "dwLogCfgId w \<noteq> 0"
    and cfg: "pCurConfigInfo w = Some ci" "ci < length (stLogConfig w)" "cfg_iLogType (stLogConfig w ! ci) AND ty \<noteq> 0"
      "\<not> fst (freq_limit (le_now env) (stLogConfig w ! ci))"
    and rings: "\<exists>r\<in>set (stLogShm w). bTryGetLogIndex r = 0" "\<forall>r\<in>set (stLogShm w). ring_ok r"
  shows "\<exists>rc w' k. MtReport_Log env ty msg w = Some (rc, w') \<and> k < length (stLogShm w) \<and>
    log_done k (nat (iWriteIndex (stLogShm w ! k))) (stCust w) msg ty (stLogConfig w ! ci) rc w' \<and> claims k w w'"
proof -
  obtain out where out: "(if c_str (szLocalLogFile w) \<noteq> [] \<and> ty AND iLocalLogType w \<noteq> 0
      then MtReport_Log_To_Local env ty msg w else w) = w\<lparr>lw_out := out\<rparr>"
    using MtReport_Log_To_Local_only_writes [of env ty msg w] by (metis LogWorld.surjective LogWorld.update_convs(31))
  define w1 where "w1 = w\<lparr>lw_out := out, lw_attr := (lw_attr w)\<lparr>stPluginInfo := upd_plugin (iPluginIndex (lw_attr w))
      (\<lambda>p. p\<lparr>dwLastReportLogTime := sec32 (le_now env)\<rparr>) (stPluginInfo (lw_attr w))\<rparr>\<rparr>"
  have "MtReport_Log env ty msg w = log_write env ci 0 ty msg w1"
    unfolding MtReport_Log_def out w1_def own_cfg_def using ini cfg by (simp add: Let_def)
  moreover have "\<exists>rc w' k. log_write env ci 0 ty msg w1 = Some (rc, w') \<and> k < length (stLogShm w1) \<and>
      log_done k (nat (iWriteIndex (stLogShm w1 ! k))) (stCust w1) msg ty (stLogConfig w1 ! ci) rc w' \<and> claims k w1 w'"
    by (rule log_write_stores [of _ m]) (use rep msg cfg rings in \<open>simp_all add: w1_def\<close>)
  ultimately show ?thesis by (simp add: w1_def claims_def)
qed

text \<open>
  C39. A process that is initialised, has a configuration that accepts the type of the log and is
  not limited, and finds a ring whose flag is free, writes the log into the record at the write
  index of that ring: \<open>MtReport_Log\<close> returns, the write index advances around the ring, the record
  gets a sequence number and the application, module and number of the configuration, and with
  result 0 its type, its text (cut to 1055 characters) and its custom fields can be read back. Only a text of 256 characters or more
  can end with -4.
\<close>

theorem MtReport_Log_stores:
  assumes rep: "vmem_rep (lw_vmem w) m" and msg: "0 \<notin> set msg"
    and ini: "cIsInit (lw_vmem w) \<noteq> 0" "vm_attached (lw_vmem w)" "dwLogCfgId w \<noteq> 0"
    and cfg: "pCurConfigInfo w = Some ci" "ci < length (stLogConfig w)" "cfg_iLogType (stLogConfig w ! ci) AND ty \<noteq> 0"
      "\<not> fst (freq_limit (le_now env) (stLogConfig w ! ci))"
    and rings: "\<exists>r\<in>set (stLogShm w). bTryGetLogIndex r = 0" "\<forall>r\<in>set (stLogShm w). ring_ok r"
  shows "\<exists>rc w' k. MtReport_Log env ty msg w = Some (rc, w') \<and> k < length (stLogShm w) \<and>
    log_done k (nat (iWriteIndex (stLogShm w ! k))) (stCust w) msg ty (stLogConfig w ! ci) rc w'"
  using MtReport_Log_run [OF assms] by blast

definition demo_log :: MTLog where
  "demo_log = \<lparr>iCustVmemIndex = 0, dwLogConfigId = 0, dwLogSeq = 0, qwLogTime = 0, iAppId = 0, iModuleId = 0,
     wLogType = 0, iVarmemIndex = 0, sLogContent = replicate 256 0\<rparr>"

definition demo_ring :: MTLogShm where
  "demo_ring = \<lparr>bTryGetLogIndex = 0, iLogStarIndex = -1, iWriteIndex = 9999, dwGetLogIndexStartTime = 0,
     sLogList = replicate 10000 demo_log\<rparr>"

definition demo_lenv :: LogEnv where
  "demo_lenv = \<lparr>le_now = \<lparr>tv_sec = 6, tv_usec = 0\<rparr>, le_now_spec = \<lparr>tv_sec = 6, tv_usec = 0\<rparr>,
     le_now_local = \<lparr>tv_sec = 6, tv_usec = 0\<rparr>, le_vclk = demo_clk, le_sleep = (\<lambda>_ rs. rs), le_date = [],
     le_fopen = True, le_fopen_again = True, le_fopen_error = True, le_size = 0\<rparr>"

definition demo_lw :: LogWorld where
  "demo_lw = \<lparr>lw_attr = demo_store 0, lw_vmem = demo_vmem, dwLogCfgId = 9, cIsTest = 0,
     stCust = \<lparr>dwCust_1 = 0, dwCust_2 = 0, iCust_3 = 0, iCust_4 = 0, szCust_5 = replicate 16 0, szCust_6 = replicate 32 0,
       bCustFlag = 0\<rparr>,
     pCurConfigInfo = Some 0, szLocalLogFile = replicate 256 0, iLocalLogType = 0, wLogConfigCount = 1,
     stLogConfig = [demo_cfg], lw_dwLogSeq = 0, iLogSpecialWriteIdx = 0, iLogSpecialReadIdx = -1,
     sLogListSpec = replicate 2000 demo_log, stLogShm = replicate 3 demo_ring, wLogVmemFailed = 0, wLogFreqLimited = 0,
     wLogTruncate = 0, wLogInShmFull = 0, wLogWriteInVmem = 0, wLogCustInVmem = 0, wLogCustVmemFailed = 0,
     dwLogBySpecCount = 0, dwLogTypeLimited = 0, dwFirstLogWriteTime = 0, dwWriteLogCount = 0, qwWriteLogBytes = 0,
     bAddPluginInfoFlag = 0, iPluginInfoCount = 0, bHasNewPluginInfo = 0, lw_out = []\<rparr>"

lemma demo_lw_sel:
  "lw_vmem demo_lw = demo_vmem" "dwLogCfgId demo_lw = 9" "pCurConfigInfo demo_lw = Some 0" "stLogConfig demo_lw = [demo_cfg]"
  "stLogShm demo_lw = replicate 3 demo_ring"
  unfolding demo_lw_def LogWorld.simps by (rule refl)+

lemma demo_ring_ok: "ring_ok demo_ring" "bTryGetLogIndex demo_ring = 0" "iWriteIndex demo_ring = 9999"
  unfolding demo_ring_def ring_ok_def MTLogShm.simps MTLOG_SHM_RECORDS_COUNT_def by (simp_all add: demo_log_def)

theorem MtReport_Log_stores_witness:
  "\<exists>rc w' k. MtReport_Log demo_lenv 4 [104, 105] demo_lw = Some (rc, w') \<and> k < 3 \<and> log_done k 9999 (stCust demo_lw) [104, 105] 4 demo_cfg rc w'"
proof -
  have lim: "\<not> fst (freq_limit (le_now demo_lenv) demo_cfg)"
    by (simp add: freq_limit_def demo_cfg_def demo_lenv_def Let_def)
  have "\<exists>rc w' k. MtReport_Log demo_lenv 4 [104, 105] demo_lw = Some (rc, w') \<and> k < length (stLogShm demo_lw) \<and>
    log_done k (nat (iWriteIndex (stLogShm demo_lw ! k))) (stCust demo_lw) [104, 105] 4 (stLogConfig demo_lw ! 0) rc w'"
    by (rule MtReport_Log_stores [OF demo_vmem_rep [folded demo_lw_sel(1)]])
      (use lim demo_ring_ok in \<open>simp_all add: demo_lw_sel demo_vmem_def demo_cfg_def\<close>)
  then show ?thesis by (auto simp: demo_lw_sel demo_ring_ok demo_cfg_def)
qed

end
