(* ===== verification/Plugin_Props.thy ===== *)
theory Plugin_Props
  imports Log_Props2
begin

text \<open>
  The plugin table: registration keeps the entries distinct and their count right.
\<close>

lemma find_plugin_spec:
  "case find_plugin pid k es of None \<Rightarrow> \<forall>e\<in>set es. iPluginId e \<noteq> pid
   | Some i \<Rightarrow> k \<le> i \<and> i - k < length es \<and> iPluginId (es ! (i - k)) = pid"
proof (induction es arbitrary: k)
  case (Cons e es)
  show ?case
  proof (cases "iPluginId e = pid")
    case False
    then show ?thesis using Cons.IH [of "Suc k"] by (auto split: option.splits simp: nth_Cons' Suc_diff_le)
  qed simp
qed simp


text \<open>The used entries.\<close>

definition used_ids :: "TInnerPlusInfo list \<Rightarrow> u32 list" where
  "used_ids es = filter (\<lambda>x. x \<noteq> 0) (map iPluginId es)"

definition plugins_ok :: "LogWorld \<Rightarrow> bool" where
  "plugins_ok w \<longleftrightarrow> length (stPluginInfo (lw_attr w)) = MAX_INNER_PLUS_COUNT \<and> distinct (used_ids (stPluginInfo (lw_attr w))) \<and>
     iPluginInfoCount w = int (length (used_ids (stPluginInfo (lw_attr w))))"

lemma used_ids_same:
  assumes "i < length es" "iPluginId e = iPluginId (es ! i)"
  shows "used_ids (es[i := e]) = used_ids es"
  using assms list_update_id [of "map iPluginId es" i] by (simp add: used_ids_def map_update)

lemma used_ids_new:
  assumes "i < length es" "iPluginId (es ! i) = 0" "iPluginId e \<noteq> 0" "iPluginId e \<notin> set (used_ids es)" "distinct (used_ids es)"
  shows "distinct (used_ids (es[i := e]))" "length (used_ids (es[i := e])) = Suc (length (used_ids es))"
proof -
  have es: "es = take i es @ es ! i # drop (Suc i) es" using assms(1) by (simp add: id_take_nth_drop)
  have u: "es[i := e] = take i es @ e # drop (Suc i) es" using assms(1) by (simp add: upd_conv_take_nth_drop)
  have old: "used_ids es = used_ids (take i es) @ used_ids (drop (Suc i) es)"
    using assms(2) by (subst es) (simp add: used_ids_def)
  have new: "used_ids (es[i := e]) = used_ids (take i es) @ iPluginId e # used_ids (drop (Suc i) es)"
    unfolding u using assms(3) by (simp add: used_ids_def)
  show "distinct (used_ids (es[i := e]))" using assms(4,5) unfolding old new by simp
  show "length (used_ids (es[i := e])) = Suc (length (used_ids es))" unfolding old new by simp
qed

lemma free_entry:
  assumes "length (used_ids es) < length es"
  shows "\<exists>e\<in>set es. iPluginId e = 0"
proof (rule ccontr)
  assume "\<not> ?thesis"
  then have "used_ids es = map iPluginId es" by (auto simp: used_ids_def filter_id_conv)
  then show False using assms by simp
qed

text \<open>
  C19. On a table whose used entries are distinct and counted, the registration of a plugin keeps
  it so. A success names an entry of the plugin and leaves every other entry as it was; a failure
  leaves all entries as they were, and the search for a free entry never fails.
\<close>

theorem register_plugin_keeps:
  assumes ok: "plugins_ok w" and n: "iPluginId n \<noteq> 0" and run: "register_plugin env re n w = (res, w')"
  shows "plugins_ok w' \<and> res \<noteq> Inl (-208) \<and>
    (case res of Inl code \<Rightarrow> stPluginInfo (lw_attr w') = stPluginInfo (lw_attr w)
     | Inr i \<Rightarrow> i < MAX_INNER_PLUS_COUNT \<and> iPluginId (stPluginInfo (lw_attr w') ! i) = iPluginId n \<and>
         (\<forall>j. j \<noteq> i \<longrightarrow> stPluginInfo (lw_attr w') ! j = stPluginInfo (lw_attr w) ! j))"
proof -
  let ?es = "stPluginInfo (lw_attr w)"
  have len: "length ?es = MAX_INNER_PLUS_COUNT" and dist: "distinct (used_ids ?es)"
    and cnt: "iPluginInfoCount w = int (length (used_ids ?es))"
    using ok by (simp_all add: plugins_ok_def)
  show ?thesis
  proof (cases "find_plugin (iPluginId n) 0 ?es")
    case (Some i)
    then have i: "i < length ?es" "iPluginId (?es ! i) = iPluginId n" using find_plugin_spec [where pid = "iPluginId n" and k = 0 and es = ?es] by simp_all
    have "iPluginId (renew_entry n (?es ! i)) = iPluginId (?es ! i)" by (simp add: renew_entry_def)
    then show ?thesis
      using run Some i ok len used_ids_same [OF i(1)]
      by (auto simp: register_plugin_def Let_def plugins_ok_def split: if_splits)
  next
    case None
    then have fresh: "iPluginId n \<notin> set (used_ids ?es)" using find_plugin_spec [where pid = "iPluginId n" and k = 0 and es = ?es] by (auto simp: used_ids_def)
    show ?thesis
    proof (cases "int MAX_INNER_PLUS_COUNT \<le> iPluginInfoCount w")
      case True
      then show ?thesis using run None ok by (auto simp: register_plugin_def Let_def)
    next
      case False
      then have "\<exists>e\<in>set ?es. iPluginId e = 0" using free_entry [of ?es] cnt len by simp
      then obtain i where f: "find_plugin 0 0 ?es = Some i" using find_plugin_spec [where pid = 0 and k = 0 and es = ?es] by (cases "find_plugin 0 0 ?es") auto
      then have i: "i < length ?es" "iPluginId (?es ! i) = 0" using find_plugin_spec [where pid = 0 and k = 0 and es = ?es] by simp_all
      then show ?thesis
        using run None False f n len cnt used_ids_new [OF i n fresh dist]
        by (auto simp: register_plugin_def Let_def plugins_ok_def)
    qed
  qed
qed

definition demo_entry :: "u32 \<Rightarrow> TInnerPlusInfo" where
  "demo_entry pid = \<lparr>szPlusName = ''p'', iPluginId = pid, szVersion = ''v1.0.0'', iLogConfigId = 0, iLibVerNum = 1,
     dwLastReportAttrTime = 0, dwLastReportLogTime = 0, dwPluginStartTime = 0, dwLastReportSelfInfoTime = 0,
     dwLastHelloTime = 0, bCheckRet = 0, dwCfgFileLastModTime = 0\<rparr>"

definition demo_plugins :: LogWorld where
  "demo_plugins = demo_lw\<lparr>lw_attr := (lw_attr demo_lw)\<lparr>stPluginInfo := demo_entry 5 # replicate 199 (demo_entry 0)\<rparr>, iPluginInfoCount := 1\<rparr>"

definition demo_penv :: PlusEnv where
  "demo_penv = \<lparr>pe_file = None, pe_mtime = 0, pe_now = 9, pe_sleep = (\<lambda>_ f. f)\<rparr>"

lemma demo_plugins_ok: "plugins_ok demo_plugins"
  unfolding plugins_ok_def demo_plugins_def by (simp add: MAX_INNER_PLUS_COUNT_def used_ids_def demo_entry_def)

theorem register_plugin_keeps_witness:
  "plugins_ok (snd (register_plugin demo_penv 0 (demo_entry 6) demo_plugins)) \<and>
   fst (register_plugin demo_penv 0 (demo_entry 6) demo_plugins) \<noteq> Inl (-208)"
proof -
  have "iPluginId (demo_entry 6) \<noteq> 0" by (simp add: demo_entry_def)
  from register_plugin_keeps [OF demo_plugins_ok this, of demo_penv 0] show ?thesis by (metis prod.collapse)
qed

end
