(* ===== verification/Agent_Attr.thy ===== *)
theory Agent_Attr
  imports Attr
begin

text \<open>
  The agent's side of the attributes: \<open>ReadAttr\<close> and \<open>ReadStrAttr\<close> of
  \<open>slog_mtreport_client/mtreport_client.cpp\<close>. The agent takes the entries out of the tables and out of
  the special list and collects them, one entry for each attribute, for the next packet.
\<close>

subsection \<open>Sorted arrays\<close>

text \<open>
  \<open>bsearch\<close> halves the part of the array that is left; \<open>cmp\<close> compares the key with an element.
\<close>

function bsearch_from :: "('a \<Rightarrow> int) \<Rightarrow> 'a list \<Rightarrow> nat \<Rightarrow> nat \<Rightarrow> nat option" where
  "bsearch_from cmp xs l u =
     (if l < u then
        let i = (l + u) div 2; c = cmp (xs ! i) in
        if c < 0 then bsearch_from cmp xs l i
        else if 0 < c then bsearch_from cmp xs (Suc i) u
        else Some i
      else None)"
  by pat_completeness auto
termination
  by (relation "measure (\<lambda>(cmp, xs, l, u). u - l)") auto

declare bsearch_from.simps [simp del]

definition bsearch :: "('a \<Rightarrow> int) \<Rightarrow> 'a list \<Rightarrow> nat option" where
  "bsearch cmp xs = bsearch_from cmp xs 0 (length xs)"

text \<open>\<open>qsort\<close> orders the array by the comparison function.\<close>

fun insert_by :: "('a \<Rightarrow> 'a \<Rightarrow> int) \<Rightarrow> 'a \<Rightarrow> 'a list \<Rightarrow> 'a list" where
  "insert_by cmp x [] = [x]"
| "insert_by cmp x (y # ys) = (if 0 < cmp x y then y # insert_by cmp x ys else x # y # ys)"

definition qsort :: "('a \<Rightarrow> 'a \<Rightarrow> int) \<Rightarrow> 'a list \<Rightarrow> 'a list" where
  "qsort cmp xs = foldr (insert_by cmp) xs []"

subsection \<open>Comparisons\<close>

text \<open>The difference of two \<open>int32_t\<close>, as the machine computes it.\<close>

definition attr_cmp :: "AttrNode \<Rightarrow> AttrNode \<Rightarrow> int" where
  "attr_cmp a b = sint (iAttrID a - iAttrID b)"

text \<open>\<open>strcmp(s, t) > 0\<close>; \<open>strcmp\<close> compares unsigned characters.\<close>

fun str_greater :: "u8 list \<Rightarrow> u8 list \<Rightarrow> bool" where
  "str_greater [] t = False"
| "str_greater (x # s) [] = True"
| "str_greater (x # s) (y # t) = (y < x \<or> x = y \<and> str_greater s t)"

definition str_attr_cmp :: "StrAttrNode \<Rightarrow> StrAttrNode \<Rightarrow> int" where
  "str_attr_cmp pKey pNode =
     (if iStrAttrId pKey = iStrAttrId pNode \<and> c_str (szStrInfo pKey) = c_str (szStrInfo pNode) then 0
      else if sint (iStrAttrId pNode) < sint (iStrAttrId pKey)
        \<or> iStrAttrId pKey = iStrAttrId pNode \<and> str_greater (c_str (szStrInfo pKey)) (c_str (szStrInfo pNode)) then 1
      else -1)"

text \<open>
  \<open>attr_cmp\<close> on string nodes, as \<open>ReadStrAttr\<close> hands it to \<open>qsort\<close>: at the offset of \<open>iAttrID\<close> a string
  node has the first four characters of its string.
\<close>

definition attr_cmp_on_str :: "StrAttrNode \<Rightarrow> StrAttrNode \<Rightarrow> int" where
  "attr_cmp_on_str a b = sint (le32 (szStrInfo a) - le32 (szStrInfo b))"

subsection \<open>Collecting\<close>

definition MAX_ATTR_READ_PER_EACH :: nat where "MAX_ATTR_READ_PER_EACH = 120"
definition MAX_STR_ATTR_READ_PER_EACH :: nat where "MAX_STR_ATTR_READ_PER_EACH = 15"

text \<open>The arrays hold the first \<open>wReadAttrCount\<close> (\<open>wReadStrAttrCount\<close>) entries.\<close>

definition merge_attr :: "AttrNode \<Rightarrow> AttrNode list \<Rightarrow> AttrNode list" where
  "merge_attr d rd =
     (case bsearch (attr_cmp d) rd of
        Some k \<Rightarrow> rd[k := (rd ! k)\<lparr>iCurValue := iCurValue (rd ! k) + iCurValue d\<rparr>]
      | None \<Rightarrow> if 0 < sint (iCurValue d) then qsort attr_cmp (rd @ [d]) else rd)"

definition merge_str :: "StrAttrNode \<Rightarrow> StrAttrNode list \<Rightarrow> StrAttrNode list" where
  "merge_str d rd =
     (case bsearch (str_attr_cmp d) rd of
        Some k \<Rightarrow> rd[k := (rd ! k)\<lparr>iStrVal := iStrVal (rd ! k) + iStrVal d\<rparr>]
      | None \<Rightarrow> if 0 < sint (iStrVal d) then qsort attr_cmp_on_str (rd @ [d]) else rd)"

text \<open>
  The loop over the nodes of a table, at most \<open>n\<close> steps from \<open>pNode\<close> on: merge the node into the
  array, remove it from the table and clear it (\<open>zero\<close> is the node after \<open>memset\<close>).
\<close>

fun read_nodes :: "'d HashEnv \<Rightarrow> bool \<Rightarrow> ('d \<Rightarrow> 'd list \<Rightarrow> 'd list) \<Rightarrow> 'd \<Rightarrow> nat \<Rightarrow> nat \<Rightarrow> nat option \<Rightarrow> 'd list \<Rightarrow> 'd HashWorld
    \<Rightarrow> ('d list \<times> 'd HashWorld) option" where
  "read_nodes env bReverse merge zero mx 0 pNode rd w = Some (rd, w)"
| "read_nodes env bReverse merge zero mx (Suc n) pNode rd w =
     (case pNode of
        None \<Rightarrow> Some (rd, w)
      | Some p \<Rightarrow>
          if mx \<le> length rd then Some (rd, w)
          else do {
            d \<leftarrow> rdData w p;
            let rd = merge d rd;
            (rc, w) \<leftarrow> RemoveHashNode env p w;
            w \<leftarrow> updData p (\<lambda>_. zero) w;
            (q, w) \<leftarrow> (if bReverse then GetCurNodeRevers env w else GetCurNode env w);
            read_nodes env bReverse merge zero mx n q rd w
          })"

definition max_nodes :: nat where
  "max_nodes = unat MTATTR_HASH_NODE * STATIC_HASH_ROW_MAX"

text \<open>
  One table. The backward direction is for a table whose start index is damaged; it ends with a
  reset when at most one node is left.
\<close>

definition read_table :: "'d HashEnv \<Rightarrow> ('d \<Rightarrow> 'd list \<Rightarrow> 'd list) \<Rightarrow> 'd \<Rightarrow> nat \<Rightarrow> 'd list \<Rightarrow> 'd HashWorld
    \<Rightarrow> ('d list \<times> 'd HashWorld) option" where
  "read_table env merge zero mx rd w = do {
     (p, w) \<leftarrow> GetFirstNode env w;
     let bReverse = (p = None \<and> 0 < dwNodeUseCount (thead w));
     (p, w) \<leftarrow> (if bReverse then GetFirstNodeRevers env w else Some (p, w));
     (rd, w) \<leftarrow> read_nodes env bReverse merge zero mx max_nodes p rd w;
     if bReverse \<and> dwNodeUseCount (thead w) \<le> 1 then do {
       w \<leftarrow> ResetHashTable env w;
       Some (rd, upd_tab (\<lambda>t. t\<lparr>bAccessCheck := 1\<rparr>) w)
     }
     else if \<not> bReverse \<and> dwNodeUseCount (thead w) \<le> 0 then Some (rd, upd_tab (\<lambda>t. t\<lparr>bAccessCheck := 0\<rparr>) w)
     else Some (rd, w)
   }"

text \<open>The five tables from table \<open>j\<close> on, until the array is full.\<close>

fun read_tables :: "AttrEnv \<Rightarrow> nat \<Rightarrow> AttrNode list \<Rightarrow> AttrNode HashWorld list \<Rightarrow> (AttrNode list \<times> AttrNode HashWorld list) option" where
  "read_tables env j rd [] = Some (rd, [])"
| "read_tables env j rd (w # ws) = do {
     (rd, w) \<leftarrow> read_table (ae_tab env j) merge_attr \<lparr>bSyncProcess = 0, iAttrID = 0, iCurValue = 0\<rparr> MAX_ATTR_READ_PER_EACH rd w;
     if MAX_ATTR_READ_PER_EACH \<le> length rd then Some (rd, w # ws)
     else do {
       (rd, ws) \<leftarrow> read_tables env (Suc j) rd ws;
       Some (rd, w # ws)
     }
   }"

text \<open>
  The special list first: all of it, or the first 120 entries when it is longer (and nothing
  else then). A count above the size of the list leaves the model.
\<close>

definition ReadAttr :: "AttrEnv \<Rightarrow> AttrNode list \<Rightarrow> MtAttr \<Rightarrow> (AttrNode list \<times> MtAttr) option" where
  "ReadAttr env rd s =
     (let c = sint (iAttrSpecialCount s); m = int MAX_ATTR_READ_PER_EACH in
      if int (length (sArrtListSpec s)) < c then None
      else if m < c then
        let k = nat (c - m) in
        Some (take MAX_ATTR_READ_PER_EACH (sArrtListSpec s), s\<lparr>iAttrSpecialCount := word_of_int (c - m),
          sArrtListSpec := take k (drop MAX_ATTR_READ_PER_EACH (sArrtListSpec s)) @ drop k (sArrtListSpec s)\<rparr>)
      else do {
        let (rd, s) = (if 0 < c then (qsort attr_cmp (take (nat c) (sArrtListSpec s)), s\<lparr>iAttrSpecialCount := 0\<rparr>) else (rd, s));
        (rd, ws) \<leftarrow> read_tables env 0 rd (stAttrHash s);
        s \<leftarrow> apply_events env (concat (map hw_events ws)) (s\<lparr>stAttrHash := map take_events ws\<rparr>);
        Some (rd, s)
      })"

definition ReadStrAttr :: "AttrEnv \<Rightarrow> StrAttrNode list \<Rightarrow> MtAttr \<Rightarrow> (StrAttrNode list \<times> MtAttr) option" where
  "ReadStrAttr env rd s = do {
     (rd, w) \<leftarrow> read_table (ae_str env) merge_str
       \<lparr>sa_bSyncProcess = 0, szStrInfo = replicate 65 0, iStrAttrId = 0, iStrVal = 0\<rparr> MAX_STR_ATTR_READ_PER_EACH rd (stStrAttrHash s);
     s \<leftarrow> apply_events env (hw_events w) (s\<lparr>stStrAttrHash := take_events w\<rparr>);
     Some (rd, s)
   }"

end
