(* ===== verification/Agent_Attr_Props.thy ===== *)
theory Agent_Attr_Props
  imports Agent_Attr Attr_Props "HOL-Library.Multiset"
begin

text \<open>
  What the agent collects: every report is in the tables and the special list or in the packet,
  never in both and never lost, as long as no counter overflowed.
\<close>

subsection \<open>Library functions\<close>

lemma bsearch_from_hit:
  "bsearch_from cmp xs l u = Some k \<Longrightarrow> u \<le> length xs \<Longrightarrow> k < length xs \<and> cmp (xs ! k) = 0"
proof (induction cmp xs l u rule: bsearch_from.induct)
  case (1 cmp xs l u)
  then show ?case by (subst (asm) (3) bsearch_from.simps) (auto simp: Let_def split: if_splits)
qed

lemma bsearch_hit: "bsearch cmp xs = Some k \<Longrightarrow> k < length xs \<and> cmp (xs ! k) = 0"
  unfolding bsearch_def by (erule bsearch_from_hit) (rule order_refl)

lemma mset_insert_by: "mset (insert_by cmp x ys) = add_mset x (mset ys)"
  by (induction ys) auto

lemma mset_qsort: "mset (qsort cmp xs) = mset xs"
  unfolding qsort_def by (induction xs) (simp_all add: mset_insert_by)

lemma length_qsort: "length (qsort cmp xs) = length xs"
  using mset_qsort [of cmp xs] by (metis size_mset)

lemma total_mset:
  assumes "mset xs = mset ys"
  shows "total (map e xs) q = total (map e ys) q"
proof -
  have "mset (map snd (filter (\<lambda>x. fst x = q) (map e xs))) = mset (map snd (filter (\<lambda>x. fst x = q) (map e ys)))"
    using assms by simp
  then have "sum_mset (mset (map snd (filter (\<lambda>x. fst x = q) (map e xs)))) = sum_mset (mset (map snd (filter (\<lambda>x. fst x = q) (map e ys))))"
    by (rule arg_cong)
  then show ?thesis by (simp only: total_def sum_mset_sum_list)
qed

subsection \<open>The interface of the array\<close>

text \<open>
  Merging a node adds its value to what the array holds for its key, and the array grows by one
  entry at most.
\<close>

locale collector =
  fixes merge :: "'d \<Rightarrow> 'd list \<Rightarrow> 'd list"
    and entry :: "'d \<Rightarrow> 'k \<times> 'v::comm_monoid_add"
    and good :: "'k \<times> 'v \<Rightarrow> bool"
  assumes merge_total: "good (entry d) \<Longrightarrow> total (map entry (merge d rd)) q = total (map entry rd) q + total [entry d] q"
    and merge_length: "length (merge d rd) \<le> Suc (length rd)"

text \<open>What the loop does: it takes a first part \<open>zs\<close> of the list of nodes and leaves \<open>ys\<close>.\<close>

definition collected :: "'d HashEnv \<Rightarrow> ('d \<Rightarrow> 'k \<times> 'v::comm_monoid_add) \<Rightarrow> 'd \<Rightarrow> nat \<Rightarrow> nat \<Rightarrow> 'd list \<Rightarrow> 'd HashWorld \<Rightarrow> 'd list \<Rightarrow> 'd HashWorld
    \<Rightarrow> u32 list \<Rightarrow> u32 list \<Rightarrow> bool" where
  "collected env entry zero mx n rd w rd' w' zs ys \<longleftrightarrow> table_wf w' ys \<and> writable env w' \<and> hw_events w' = hw_events w \<and>
     (\<exists>c d. hw_tab w' = (hw_tab w)\<lparr>dwCurIndex := c, dwCurIndexRevers := d\<rparr>) \<and>
     seg_data (hw_seg w') = (\<lambda>i. if i \<in> set zs then zero else seg_data (hw_seg w) i) \<and>
     (\<forall>q. total (map entry rd') q = total (map entry rd) q + total (map (\<lambda>i. entry (seg_data (hw_seg w) i)) zs) q) \<and>
     (length rd \<le> mx \<longrightarrow> length rd' \<le> mx) \<and> (length rd' < mx \<and> length (zs @ ys) \<le> n \<longrightarrow> ys = [])"

lemma collected_none:
  assumes "table_wf w xs" "writable env w" "xs = [] \<or> mx \<le> length rd \<or> n < length xs"
  shows "collected env entry zero mx n rd w rd w [] xs"
proof -
  have "hw_tab w = (hw_tab w)\<lparr>dwCurIndex := dwCurIndex (hw_tab w), dwCurIndexRevers := dwCurIndexRevers (hw_tab w)\<rparr>" by simp
  then show ?thesis unfolding collected_def using assms by fastforce
qed

lemma collected_Cons:
  assumes col: "collected env entry zero mx n rd1 w2 rd' w' zs ys" and x: "x \<notin> set zs" and ev: "hw_events w2 = hw_events w"
    and tab: "\<exists>c d. hw_tab w2 = (hw_tab w)\<lparr>dwCurIndex := c, dwCurIndexRevers := d\<rparr>"
    and data: "seg_data (hw_seg w2) = (seg_data (hw_seg w))(x := zero)" and len: "length rd1 \<le> mx"
    and tot: "\<And>q. total (map entry rd1) q = total (map entry rd) q + total [entry (seg_data (hw_seg w) x)] q"
  shows "collected env entry zero mx (Suc n) rd w rd' w' (x # zs) ys"
proof -
  let ?e = "\<lambda>i. entry (seg_data (hw_seg w) i)"
  have "map (\<lambda>i. entry (seg_data (hw_seg w2) i)) zs = map ?e zs" using data x by (auto intro!: map_cong)
  moreover have "total (map ?e (x # zs)) q = total [?e x] q + total (map ?e zs) q" for q
    using total_simps(3) [of "[?e x]" "map ?e zs" q] by simp
  ultimately have "\<forall>q. total (map entry rd') q = total (map entry rd) q + total (map ?e (x # zs)) q"
    using col tot by (simp only: collected_def add.assoc simp_thms)
  moreover obtain c d where "hw_tab w' = (hw_tab w2)\<lparr>dwCurIndex := c, dwCurIndexRevers := d\<rparr>" using col by (auto simp: collected_def)
  then have "hw_tab w' = (hw_tab w)\<lparr>dwCurIndex := c, dwCurIndexRevers := d\<rparr>" using tab by auto
  then have "\<exists>c d. hw_tab w' = (hw_tab w)\<lparr>dwCurIndex := c, dwCurIndexRevers := d\<rparr>" by blast
  moreover have "seg_data (hw_seg w') = (\<lambda>i. if i \<in> set (x # zs) then zero else seg_data (hw_seg w) i)"
    using col data by (auto simp: collected_def fun_eq_iff)
  ultimately show ?thesis using col ev len by (simp only: collected_def) auto
qed

lemma GetCurNode_wf:
  assumes wf: "table_wf w xs" and cur: "dwCurIndex (hw_tab w) = hd_or (dwRealNodeCount (hw_tab w)) xs"
  shows "GetCurNode env w = Some (if xs = [] then None else Some (INDEX_TO_NODE (hw_tab w) (hd xs)), w)"
proof (cases xs)
  case Nil
  then show ?thesis using cur by (simp add: GetCurNode_def)
next
  case (Cons x ys)
  have "bIsUsed (seg_nodes (hw_seg w) x) \<noteq> 0" using wf Cons by (auto simp: table_wf_def dll_def)
  then show ?thesis
    using Cons cur table_wf_not_end [OF wf, of x] table_wf_bound_set(1) [OF wf, of x]
    by (simp add: GetCurNode_def Let_def)
qed

text \<open>One turn of the loop: the first node leaves the list and is cleared.\<close>

lemma take_first:
  assumes wf: "table_wf w (x # xs)" and ok: "writable env w" and cur: "dwCurIndex (hw_tab w) = x"
  shows "\<exists>w1 w2. RemoveHashNode env (INDEX_TO_NODE (hw_tab w) x) w = Some (0, w1) \<and>
    updData (INDEX_TO_NODE (hw_tab w) x) (\<lambda>_. zero) w1 = Some w2 \<and>
    GetCurNode env w2 = Some (if xs = [] then None else Some (INDEX_TO_NODE (hw_tab w2) (hd xs)), w2) \<and>
    table_wf w2 xs \<and> writable env w2 \<and> hw_events w2 = hw_events w \<and>
    dwCurIndex (hw_tab w2) = hd_or (dwRealNodeCount (hw_tab w2)) xs \<and>
    (\<exists>c d. hw_tab w2 = (hw_tab w)\<lparr>dwCurIndex := c, dwCurIndexRevers := d\<rparr>) \<and>
    seg_data (hw_seg w2) = (seg_data (hw_seg w))(x := zero)"
proof -
  obtain w1 where w1: "RemoveHashNode env (INDEX_TO_NODE (hw_tab w) x) w = Some (0, w1)" "table_wf w1 xs"
    "hw_tab w1 = moved [] x xs (hw_tab w)" "seg_data (hw_seg w1) = seg_data (hw_seg w)" "bHashUseFlag (thead w1) = 0"
    "dwWriteProcessId (thead w1) = dwWriteProcessId (thead w)" "hw_events w1 = hw_events w"
    using RemoveHashNode_dll [of w "[]" x xs env] wf ok by auto
  have lt: "x < dwRealNodeCount (hw_tab w1)" using wf w1(3) by (auto simp: table_wf_def dll_def)
  then have slot: "unat x < seg_slots (hw_seg w1)" by (rule table_wf_bound [OF w1(2)])
  have "slot_of (hw_tab w1) = slot_of (hw_tab w)" using w1(3) by simp
  then have upd: "updData (INDEX_TO_NODE (hw_tab w) x) (\<lambda>_. zero) w1 = Some (fill x zero w1)" using slot by simp
  have cur': "dwCurIndex (hw_tab w1) = hd_or (dwRealNodeCount (hw_tab w1)) xs" using w1(3) cur by (simp add: moved_def)
  then have "GetCurNode env (fill x zero w1) = Some (if xs = [] then None else Some (INDEX_TO_NODE (hw_tab (fill x zero w1)) (hd xs)), fill x zero w1)"
    using w1(2) by (intro GetCurNode_wf) simp_all
  moreover have "writable env w1" using ok w1(5,6) by (auto simp: writable_def split: if_splits)
  moreover have "\<exists>c d. hw_tab w1 = (hw_tab w)\<lparr>dwCurIndex := c, dwCurIndexRevers := d\<rparr>" using w1(3) unfolding moved_def by blast
  ultimately show ?thesis using w1(1,2,4,7) upd cur' by (intro exI [of _ w1] exI [of _ "fill x zero w1"]) simp
qed

context collector
begin

lemma read_nodes_collects:
  assumes "table_wf w xs" "writable env w" "dwCurIndex (hw_tab w) = hd_or (dwRealNodeCount (hw_tab w)) xs"
    and "p = (if xs = [] then None else Some (INDEX_TO_NODE (hw_tab w) (hd xs)))"
    and "\<forall>i\<in>set xs. good (entry (seg_data (hw_seg w) i))"
  shows "\<exists>rd' w' zs ys. read_nodes env False merge zero mx n p rd w = Some (rd', w') \<and> xs = zs @ ys \<and>
    collected env entry zero mx n rd w rd' w' zs ys"
  using assms
proof (induction n arbitrary: w xs p rd)
  case 0
  then show ?case using collected_none [of w xs env mx rd 0 entry zero] by fastforce
next
  case (Suc n)
  show ?case
  proof (cases "xs = [] \<or> mx \<le> length rd")
    case True
    then have "read_nodes env False merge zero mx (Suc n) p rd w = Some (rd, w)" using Suc.prems(4) by auto
    moreover have "collected env entry zero mx (Suc n) rd w rd w [] xs" using Suc.prems(1,2) True by (intro collected_none) auto
    ultimately show ?thesis by (intro exI [of _ rd] exI [of _ w] exI [of _ "[]"] exI [of _ xs]) simp
  next
    case False
    then obtain x ys0 where xs: "xs = x # ys0" and room: "\<not> mx \<le> length rd" by (cases xs) auto
    let ?d = "seg_data (hw_seg w) x"
    have x: "x \<notin> set ys0" using table_wf_distinct [OF Suc.prems(1)] xs by simp
    obtain w1 w2 where st: "RemoveHashNode env (INDEX_TO_NODE (hw_tab w) x) w = Some (0, w1)"
      "updData (INDEX_TO_NODE (hw_tab w) x) (\<lambda>_. zero) w1 = Some w2"
      "GetCurNode env w2 = Some (if ys0 = [] then None else Some (INDEX_TO_NODE (hw_tab w2) (hd ys0)), w2)"
      "table_wf w2 ys0" "writable env w2" "hw_events w2 = hw_events w"
      "dwCurIndex (hw_tab w2) = hd_or (dwRealNodeCount (hw_tab w2)) ys0"
      "\<exists>c d. hw_tab w2 = (hw_tab w)\<lparr>dwCurIndex := c, dwCurIndexRevers := d\<rparr>"
      "seg_data (hw_seg w2) = (seg_data (hw_seg w))(x := zero)"
      using take_first [of w x ys0 env zero] Suc.prems(1-3) xs by auto
    have good: "\<forall>i\<in>set ys0. good (entry (seg_data (hw_seg w2) i))" "good (entry ?d)" using Suc.prems(5) st(9) xs x by auto
    obtain rd' w' zs ys where ih: "read_nodes env False merge zero mx n
        (if ys0 = [] then None else Some (INDEX_TO_NODE (hw_tab w2) (hd ys0))) (merge ?d rd) w2 = Some (rd', w')" "ys0 = zs @ ys"
      "collected env entry zero mx n (merge ?d rd) w2 rd' w' zs ys"
      using Suc.IH [OF st(4,5,7) refl good(1), of "merge ?d rd"] by blast
    have "rdData w (INDEX_TO_NODE (hw_tab w) x) = Some ?d"
      using table_wf_bound_set(1) [OF Suc.prems(1), of x] xs by simp
    then have run: "read_nodes env False merge zero mx (Suc n) p rd w = Some (rd', w')"
      using Suc.prems(4) xs room st(1-3) ih(1) by simp
    have tot: "total (map entry (merge ?d rd)) q = total (map entry rd) q + total [entry ?d] q" for q by (rule merge_total [OF good(2)])
    have len: "length (merge ?d rd) \<le> mx" using merge_length [of ?d rd] room by simp
    have "collected env entry zero mx (Suc n) rd w rd' w' (x # zs) ys"
      using x ih(2) by (intro collected_Cons [OF ih(3) _ st(6,8,9) len tot]) simp
    then show ?thesis using run xs ih(2) by (intro exI [of _ rd'] exI [of _ w'] exI [of _ "x # zs"] exI [of _ ys]) simp
  qed
qed

lemma read_table_collects:
  assumes rep: "table_rep env cmp entry ok w es" and zero: "ok zero" and good: "\<forall>e\<in>set es. good e"
  shows "\<exists>rd' w' fs gs. read_table env merge zero mx rd w = Some (rd', w') \<and> es = fs @ gs \<and> table_rep env cmp entry ok w' gs \<and>
    (\<forall>q. total (map entry rd') q = total (map entry rd) q + total fs q) \<and>
    (length rd \<le> mx \<longrightarrow> length rd' \<le> mx) \<and> (length rd' < mx \<and> length es \<le> max_nodes \<longrightarrow> gs = [])"
proof -
  let ?e = "\<lambda>i. entry (seg_data (hw_seg w) i)"
  obtain xs where wf: "table_wf w xs" and es: "es = map ?e xs" and env: "writable env w" "quiet env" "rows_wf (hw_tab w)"
    "fun_cmp (hw_tab w) = Some cmp" "\<not> fun_war (hw_tab w)" "hw_events w = []" "\<forall>i. ok (seg_data (hw_seg w) i)"
    using rep by (auto simp: table_rep_def)
  define w0 where "w0 = upd_tab (\<lambda>t. t\<lparr>dwCurIndex := hd_or (dwRealNodeCount (hw_tab w)) xs\<rparr>) w"
  let ?p = "if xs = [] then None else Some (INDEX_TO_NODE (hw_tab w0) (hd xs))"
  have first: "GetFirstNode env w = Some (?p, w0)" using GetFirstNode_wf [OF wf] by (simp add: w0_def)
  have fwd: "\<not> (?p = None \<and> 0 < dwNodeUseCount (thead w0))" using wf by (auto simp: w0_def table_wf_def word_less_nat_alt)
  have w0: "table_wf w0 xs" "writable env w0" "dwCurIndex (hw_tab w0) = hd_or (dwRealNodeCount (hw_tab w0)) xs"
    "\<forall>i\<in>set xs. good (entry (seg_data (hw_seg w0) i))"
    using wf env(1) good es by (auto simp: w0_def table_wf_def writable_def)
  obtain rd' w' zs ys where run: "read_nodes env False merge zero mx max_nodes ?p rd w0 = Some (rd', w')" "xs = zs @ ys"
    and col: "collected env entry zero mx max_nodes rd w0 rd' w' zs ys"
    using read_nodes_collects [OF w0(1-3) refl w0(4), of zero mx max_nodes rd] by blast
  define w2 where "w2 = (if dwNodeUseCount (thead w') \<le> 0 then upd_tab (\<lambda>t. t\<lparr>bAccessCheck := 0\<rparr>) w' else w')"
  have "read_table env merge zero mx rd w = Some (rd', w2)"
    unfolding read_table_def using first fwd run(1) by (auto simp: w2_def)
  moreover have "table_rep env cmp entry ok w2 (map ?e ys)"
  proof -
    obtain c d where tab: "hw_tab w' = (hw_tab w)\<lparr>dwCurIndex := c, dwCurIndexRevers := d\<rparr>"
      using col by (auto simp: collected_def w0_def)
    have "set zs \<inter> set ys = {}" using table_wf_distinct [OF wf] run(2) by simp
    then have "map (\<lambda>i. entry (seg_data (hw_seg w2) i)) ys = map ?e ys"
      using col by (auto simp: collected_def w0_def w2_def intro!: map_cong)
    moreover have "table_wf w2 ys" "writable env w2" "hw_events w2 = []" "\<forall>i. ok (seg_data (hw_seg w2) i)"
      using col zero env(6,7) by (auto simp: collected_def w0_def w2_def table_wf_def writable_def)
    moreover have "rows_wf (hw_tab w2)" "fun_cmp (hw_tab w2) = Some cmp" "\<not> fun_war (hw_tab w2)"
      using env(3-5) tab by (auto simp: w2_def rows_wf_def)
    ultimately show ?thesis using env(2) unfolding table_rep_def by metis
  qed
  moreover have "es = map ?e zs @ map ?e ys" using es run(2) by simp
  moreover have "\<forall>q. total (map entry rd') q = total (map entry rd) q + total (map ?e zs) q" "length rd \<le> mx \<longrightarrow> length rd' \<le> mx"
    "length rd' < mx \<and> length es \<le> max_nodes \<longrightarrow> map ?e ys = []"
    using col es run(2) by (auto simp: collected_def w0_def)
  ultimately show ?thesis by blast
qed

end

subsection \<open>The two arrays\<close>

abbreviation nonneg :: "'k \<times> u32 \<Rightarrow> bool" where
  "nonneg e \<equiv> 0 \<le> sint (snd e)"

lemma sint_zero: "sint (x :: u32) = 0 \<longleftrightarrow> x = 0"
  by (rule signed_eq_0_iff)

lemma merge_zero:
  assumes "nonneg e" "\<not> 0 < sint (snd e)"
  shows "total [e] q = 0"
  using assms sint_zero [of "snd e"] by simp

interpretation na: collector merge_attr attr_entry nonneg
proof unfold_locales
  fix d rd q
  assume nn: "nonneg (attr_entry d)"
  show "total (map attr_entry (merge_attr d rd)) q = total (map attr_entry rd) q + total [attr_entry d] q"
  proof (cases "bsearch (attr_cmp d) rd")
    case None
    have "total (map attr_entry (qsort attr_cmp (rd @ [d]))) q = total (map attr_entry rd) q + total [attr_entry d] q"
      using total_mset [OF mset_qsort, of attr_entry attr_cmp "rd @ [d]" q] by simp
    then show ?thesis using None merge_zero [OF nn, of q] by (simp add: merge_attr_def attr_entry_def del: total_simps(2))
  next
    case (Some k)
    let ?e = "(rd ! k)\<lparr>iCurValue := iCurValue (rd ! k) + iCurValue d\<rparr>"
    have k: "k < length rd" "attr_cmp d (rd ! k) = 0" using bsearch_hit [OF Some] by simp_all
    then have id: "iAttrID (rd ! k) = iAttrID d" using sint_zero by (simp add: attr_cmp_def)
    have "total ((map attr_entry rd)[k := attr_entry ?e]) q = total (map attr_entry rd) q + (if q = fst (attr_entry ?e) then iCurValue d else 0)"
      using k(1) by (intro total_update) (simp_all add: attr_entry_def)
    then show ?thesis using Some id by (auto simp: merge_attr_def map_update attr_entry_def)
  qed
next
  fix d rd
  show "length (merge_attr d rd) \<le> Suc (length rd)"
    by (simp add: merge_attr_def length_qsort split: option.split)
qed

interpretation ns: collector merge_str str_entry nonneg
proof unfold_locales
  fix d rd q
  assume nn: "nonneg (str_entry d)"
  show "total (map str_entry (merge_str d rd)) q = total (map str_entry rd) q + total [str_entry d] q"
  proof (cases "bsearch (str_attr_cmp d) rd")
    case None
    have "total (map str_entry (qsort attr_cmp_on_str (rd @ [d]))) q = total (map str_entry rd) q + total [str_entry d] q"
      using total_mset [OF mset_qsort, of str_entry attr_cmp_on_str "rd @ [d]" q] by simp
    then show ?thesis using None merge_zero [OF nn, of q] by (simp add: merge_str_def str_entry_def del: total_simps(2))
  next
    case (Some k)
    let ?e = "(rd ! k)\<lparr>iStrVal := iStrVal (rd ! k) + iStrVal d\<rparr>"
    have k: "k < length rd" "str_attr_cmp d (rd ! k) = 0" using bsearch_hit [OF Some] by simp_all
    then have id: "fst (str_entry (rd ! k)) = fst (str_entry d)" by (auto simp: str_attr_cmp_def str_entry_def split: if_splits)
    have "total ((map str_entry rd)[k := str_entry ?e]) q = total (map str_entry rd) q + (if q = fst (str_entry ?e) then iStrVal d else 0)"
      using k(1) by (intro total_update) (simp_all add: str_entry_def)
    then show ?thesis using Some id by (auto simp: merge_str_def map_update str_entry_def)
  qed
next
  fix d rd
  show "length (merge_str d rd) \<le> Suc (length rd)"
    by (simp add: merge_str_def length_qsort split: option.split)
qed

subsection \<open>All tables\<close>

lemma read_tables_collects:
  assumes "tables_rep env j ws ess" "\<forall>es\<in>set ess. \<forall>e\<in>set es. nonneg e" "\<forall>es\<in>set ess. length es \<le> max_nodes"
    and "length rd \<le> MAX_ATTR_READ_PER_EACH"
  shows "\<exists>rd' ws' ess'. read_tables env j rd ws = Some (rd', ws') \<and> tables_rep env j ws' ess' \<and> length ws' = length ws \<and>
    length rd' \<le> MAX_ATTR_READ_PER_EACH \<and>
    (\<forall>q. total (concat ess) q + total (map attr_entry rd) q = total (concat ess') q + total (map attr_entry rd') q) \<and>
    (length rd' < MAX_ATTR_READ_PER_EACH \<longrightarrow> concat ess' = [])"
  using assms
proof (induction env j ws ess arbitrary: rd rule: tables_rep.induct)
  case (1 env j)
  then show ?case by (intro exI [of _ rd] exI [of _ "[]"]) simp
next
  case (2 env j w ws es ess)
  let ?z = "\<lparr>bSyncProcess = 0, iAttrID = 0, iCurValue = 0\<rparr>"
  have rep: "attr_rep (ae_tab env j) w es" "tables_rep env (Suc j) ws ess" and nn: "\<forall>e\<in>set es. nonneg e"
    and len: "length es \<le> max_nodes" "length rd \<le> MAX_ATTR_READ_PER_EACH"
    using "2.prems" by auto
  obtain rd1 w' fs gs where 1: "read_table (ae_tab env j) merge_attr ?z MAX_ATTR_READ_PER_EACH rd w = Some (rd1, w')" "es = fs @ gs"
    "attr_rep (ae_tab env j) w' gs" "\<forall>q. total (map attr_entry rd1) q = total (map attr_entry rd) q + total fs q"
    "length rd1 \<le> MAX_ATTR_READ_PER_EACH" "length rd1 < MAX_ATTR_READ_PER_EACH \<longrightarrow> gs = []"
    using na.read_table_collects [OF rep(1) _ nn, of ?z MAX_ATTR_READ_PER_EACH rd] len by auto
  show ?case
  proof (cases "MAX_ATTR_READ_PER_EACH \<le> length rd1")
    case True
    then have "read_tables env j rd (w # ws) = Some (rd1, w' # ws)" using 1(1) by simp
    then show ?thesis
      using True 1(2-5) rep(2) by (intro exI [of _ rd1] exI [of _ "w' # ws"] exI [of _ "gs # ess"]) (auto simp: ac_simps)
  next
    case False
    obtain rd' ws' ess' where 2: "read_tables env (Suc j) rd1 ws = Some (rd', ws')" "tables_rep env (Suc j) ws' ess'" "length ws' = length ws"
      "length rd' \<le> MAX_ATTR_READ_PER_EACH"
      "\<forall>q. total (concat ess) q + total (map attr_entry rd1) q = total (concat ess') q + total (map attr_entry rd') q"
      "length rd' < MAX_ATTR_READ_PER_EACH \<longrightarrow> concat ess' = []"
      using "2.IH" [OF rep(2) _ _ 1(5)] "2.prems"(2,3) by auto
    have "read_tables env j rd (w # ws) = Some (rd', w' # ws')" using 1(1) 2(1) False by simp
    moreover have "es = fs" using 1(2,6) False by simp
    then have "total (concat (es # ess)) q + total (map attr_entry rd) q = total (concat ess) q + total (map attr_entry rd1) q" for q
      using 1(4) by (simp add: ac_simps)
    then have "total (concat (es # ess)) q + total (map attr_entry rd) q = total (concat ([] # ess')) q + total (map attr_entry rd') q" for q
      using 2(5) by simp
    ultimately show ?thesis
      using 1(3,6) 2(2-4,6) False by (intro exI [of _ rd'] exI [of _ "w' # ws'"] exI [of _ "[] # ess'"]) auto
  qed
qed simp_all

subsection \<open>The agent's calls\<close>

lemma spec_cut:
  assumes "length xs = MTATTR_SPECIAL_COUNT" "m < c" "c \<le> MTATTR_SPECIAL_COUNT" "MTATTR_SPECIAL_COUNT \<le> 2 * m"
  shows "length (take (c - m) (drop m xs) @ drop (c - m) xs) = MTATTR_SPECIAL_COUNT"
    "take c xs = take m xs @ take (c - m) (take (c - m) (drop m xs) @ drop (c - m) xs)"
proof -
  have "take (m + (c - m)) xs = take m xs @ take (c - m) (drop m xs)" by (rule take_add)
  then show "take c xs = take m xs @ take (c - m) (take (c - m) (drop m xs) @ drop (c - m) xs)" using assms by simp
qed (use assms in simp)

lemma sint_word_small: "0 \<le> i \<Longrightarrow> i < 2 ^ 31 \<Longrightarrow> sint (word_of_int i :: u32) = i"
  by (simp add: sint_sbintrunc' signed_take_bit_int_eq_self)

lemma ReadAttr_long_list:
  assumes wf: "attr_wf env s ess" and c: "sint (iAttrSpecialCount s) \<le> int MTATTR_SPECIAL_COUNT"
    and long: "int MAX_ATTR_READ_PER_EACH < sint (iAttrSpecialCount s)"
  shows "\<exists>rd s'. ReadAttr env rd0 s = Some (rd, s') \<and> attr_wf env s' ess \<and> length rd = MAX_ATTR_READ_PER_EACH \<and>
    (\<forall>q. reported s ess q = reported s' ess q + total (map attr_entry rd) q)"
proof -
  let ?c = "sint (iAttrSpecialCount s)" and ?m = MAX_ATTR_READ_PER_EACH and ?xs = "sArrtListSpec s"
  let ?k = "nat ?c - ?m"
  have len: "length ?xs = MTATTR_SPECIAL_COUNT" using wf by (simp add: attr_wf_def)
  have cut: "length (take ?k (drop ?m ?xs) @ drop ?k ?xs) = MTATTR_SPECIAL_COUNT"
    "take (nat ?c) ?xs = take ?m ?xs @ take ?k (take ?k (drop ?m ?xs) @ drop ?k ?xs)"
    using c long by (intro spec_cut [OF len]; simp add: MTATTR_SPECIAL_COUNT_def MAX_ATTR_READ_PER_EACH_def)+
  have k: "nat (?c - int ?m) = ?k" using long by simp
  let ?s = "s\<lparr>iAttrSpecialCount := word_of_int (?c - int ?m), sArrtListSpec := take ?k (drop ?m ?xs) @ drop ?k ?xs\<rparr>"
  have "\<not> int (length ?xs) < ?c" using c len by simp
  then have run: "ReadAttr env rd0 s = Some (take ?m ?xs, ?s)"
    unfolding ReadAttr_def Let_def k using long by simp
  have "sint (word_of_int (?c - int ?m) :: u32) = ?c - int ?m"
    using c long by (intro sint_word_small) (simp_all add: MTATTR_SPECIAL_COUNT_def MAX_ATTR_READ_PER_EACH_def)
  then have "total (spec_entries s) q = total (map attr_entry (take ?m ?xs)) q + total (spec_entries ?s) q" for q
    unfolding spec_entries_def cut(2) using k by simp
  then have "reported s ess q = reported ?s ess q + total (map attr_entry (take ?m ?xs)) q" for q
    by (simp add: reported_def ac_simps)
  moreover have "attr_wf env ?s ess" using wf cut(1) by (simp add: attr_wf_def)
  moreover have "length (take ?m ?xs) = ?m" using len by (simp add: MTATTR_SPECIAL_COUNT_def MAX_ATTR_READ_PER_EACH_def)
  ultimately show ?thesis using run by blast
qed

lemma ReadAttr_short_list:
  assumes wf: "attr_wf env s ess" and c: "0 \<le> sint (iAttrSpecialCount s)" "sint (iAttrSpecialCount s) \<le> int MAX_ATTR_READ_PER_EACH"
    and nn: "\<forall>es\<in>set ess. \<forall>e\<in>set es. nonneg e" and len: "\<forall>es\<in>set ess. length es \<le> max_nodes"
  shows "\<exists>rd s' ess'. ReadAttr env [] s = Some (rd, s') \<and> attr_wf env s' ess' \<and> length rd \<le> MAX_ATTR_READ_PER_EACH \<and>
    (\<forall>q. reported s ess q = reported s' ess' q + total (map attr_entry rd) q) \<and>
    (length rd < MAX_ATTR_READ_PER_EACH \<longrightarrow> (\<forall>q. reported s' ess' q = 0))"
proof -
  let ?c = "sint (iAttrSpecialCount s)" and ?xs = "sArrtListSpec s"
  have w: "tables_rep env 0 (stAttrHash s) ess" "length ?xs = MTATTR_SPECIAL_COUNT" using wf by (simp_all add: attr_wf_def)
  define rd0 where "rd0 = (if 0 < ?c then qsort attr_cmp (take (nat ?c) ?xs) else [])"
  define s0 where "s0 = (if 0 < ?c then s\<lparr>iAttrSpecialCount := 0\<rparr> else s)"
  have s0: "stAttrHash s0 = stAttrHash s" "spec_entries s0 = []" "attr_wf env s0 ess"
    using wf c(1) by (auto simp: s0_def spec_entries_def attr_wf_def)
  have rd0: "length rd0 \<le> MAX_ATTR_READ_PER_EACH" using c(2) by (simp add: rd0_def length_qsort min_le_iff_disj nat_le_iff)
  have spec: "total (map attr_entry rd0) q = total (spec_entries s) q" for q
    using total_mset [OF mset_qsort, of attr_entry attr_cmp "take (nat ?c) ?xs" q] c(1) by (auto simp: rd0_def spec_entries_def)
  obtain rd ws ess' where r: "read_tables env 0 rd0 (stAttrHash s) = Some (rd, ws)" "tables_rep env 0 ws ess'" "length ws = length (stAttrHash s)"
    "length rd \<le> MAX_ATTR_READ_PER_EACH"
    "\<forall>q. total (concat ess) q + total (map attr_entry rd0) q = total (concat ess') q + total (map attr_entry rd) q"
    "length rd < MAX_ATTR_READ_PER_EACH \<longrightarrow> concat ess' = []"
    using read_tables_collects [OF w(1) nn len rd0] by blast
  let ?s = "s0\<lparr>stAttrHash := ws\<rparr>"
  have ev: "apply_events env (concat (map hw_events ws)) ?s = Some ?s" "map take_events ws = ws"
    using tables_rep_events [OF r(2)] by blast+
  have "(if 0 < ?c then (qsort attr_cmp (take (nat ?c) ?xs), s\<lparr>iAttrSpecialCount := 0\<rparr>) else ([], s)) = (rd0, s0)"
    by (simp add: rd0_def s0_def)
  then have run: "ReadAttr env [] s = Some (rd, ?s)"
    unfolding ReadAttr_def Let_def using c(2) w(2) r(1) ev by (simp add: s0(1) MTATTR_SPECIAL_COUNT_def MAX_ATTR_READ_PER_EACH_def)
  have sp: "spec_entries ?s = []" using s0(2) by (simp add: spec_entries_def)
  have "attr_wf env ?s ess'" using s0(3) r(2,3) s0(1) by (simp add: attr_wf_def)
  moreover have "reported s ess q = reported ?s ess' q + total (map attr_entry rd) q" for q
    using r(5) spec sp by (simp add: reported_def)
  moreover have "length rd < MAX_ATTR_READ_PER_EACH \<longrightarrow> (\<forall>q. reported ?s ess' q = 0)"
    using r(6) sp by (simp add: reported_def del: concat_eq_Nil_conv)
  ultimately show ?thesis using run r(4) by blast
qed

text \<open>
  C7. The agent's \<open>ReadAttr\<close> collects what was reported and loses nothing: it returns, what was
  recorded for an attribute before is what is recorded after it plus what is in the packet, the
  packet has at most 120 entries, and with fewer nothing is left. No counter of a table may
  be negative (an overflow): the agent drops such an entry.
\<close>

theorem ReadAttr_collects:
  assumes "attr_wf env s ess" "0 \<le> sint (iAttrSpecialCount s)" "sint (iAttrSpecialCount s) \<le> int MTATTR_SPECIAL_COUNT"
    and "\<forall>es\<in>set ess. \<forall>e\<in>set es. nonneg e" "\<forall>es\<in>set ess. length es \<le> max_nodes"
  shows "\<exists>rd s' ess'. ReadAttr env [] s = Some (rd, s') \<and> attr_wf env s' ess' \<and> length rd \<le> MAX_ATTR_READ_PER_EACH \<and>
    (\<forall>q. reported s ess q = reported s' ess' q + total (map attr_entry rd) q) \<and>
    (length rd < MAX_ATTR_READ_PER_EACH \<longrightarrow> (\<forall>q. reported s' ess' q = 0))"
proof (cases "sint (iAttrSpecialCount s) \<le> int MAX_ATTR_READ_PER_EACH")
  case True
  then show ?thesis by (rule ReadAttr_short_list [OF assms(1,2) _ assms(4,5)])
next
  case False
  then obtain rd s' where "ReadAttr env [] s = Some (rd, s')" "attr_wf env s' ess" "length rd = MAX_ATTR_READ_PER_EACH"
    "\<forall>q. reported s ess q = reported s' ess q + total (map attr_entry rd) q"
    using ReadAttr_long_list [OF assms(1,3), of "[]"] by auto
  then show ?thesis by (intro exI [of _ rd] exI [of _ s'] exI [of _ ess]) simp
qed

definition demo_spec_store :: MtAttr where
  "demo_spec_store = (demo_store 1)\<lparr>sArrtListSpec := zero_attr\<lparr>iAttrID := 5, iCurValue := 7\<rparr> # replicate 199 zero_attr\<rparr>"

theorem ReadAttr_collects_witness:
  "\<exists>rd s' ess'. ReadAttr demo_attr_env [] demo_spec_store = Some (rd, s') \<and>
    7 = reported s' ess' 5 + total (map attr_entry rd) 5 \<and> length rd \<le> 120 \<and> (length rd < 120 \<longrightarrow> total (map attr_entry rd) 5 = 7)"
proof -
  have wf: "attr_wf demo_attr_env demo_spec_store [[], [], [], [], []]"
    using demo_store_wf [of 1] by (simp add: attr_wf_def demo_spec_store_def MTATTR_SPECIAL_COUNT_def)
  have c: "0 \<le> sint (iAttrSpecialCount demo_spec_store)" "sint (iAttrSpecialCount demo_spec_store) \<le> int MTATTR_SPECIAL_COUNT"
    by (simp_all add: demo_spec_store_def demo_store_def MTATTR_SPECIAL_COUNT_def)
  have e: "\<forall>es\<in>set [[], [], [], [], []]. \<forall>e\<in>set es. nonneg (e :: u32 \<times> u32)" "\<forall>es\<in>set ([[], [], [], [], []] :: (u32 \<times> u32) list list). length es \<le> max_nodes"
    by simp_all
  have r: "reported demo_spec_store [[], [], [], [], []] 5 = 7"
    by (simp add: reported_def spec_entries_def demo_spec_store_def demo_store_def attr_entry_def)
  obtain rd s' ess' where "ReadAttr demo_attr_env [] demo_spec_store = Some (rd, s')" "length rd \<le> MAX_ATTR_READ_PER_EACH"
    "reported demo_spec_store [[], [], [], [], []] 5 = reported s' ess' 5 + total (map attr_entry rd) 5"
    "length rd < MAX_ATTR_READ_PER_EACH \<longrightarrow> reported s' ess' 5 = 0"
    using ReadAttr_collects [OF wf c e] by blast
  then show ?thesis using r by (intro exI [of _ rd] exI [of _ s'] exI [of _ ess']) (auto simp: MAX_ATTR_READ_PER_EACH_def)
qed

text \<open>
  C16. \<open>ReadStrAttr\<close> collects a first part of the entries of the string table: for every number and
  string the packet has what these entries had, it has at most 15 entries, and with fewer the
  table is empty. This holds although the array is sorted by another order than it is
  searched by; only the packet may then have several entries for one string.
\<close>

theorem ReadStrAttr_collects:
  assumes rep: "str_rep (ae_str env) (stStrAttrHash s) es" and nn: "\<forall>e\<in>set es. nonneg e" and len: "length es \<le> max_nodes"
  shows "\<exists>rd s' fs gs. ReadStrAttr env [] s = Some (rd, s') \<and> es = fs @ gs \<and> str_rep (ae_str env) (stStrAttrHash s') gs \<and>
    (\<forall>q. total (map str_entry rd) q = total fs q) \<and> length rd \<le> MAX_STR_ATTR_READ_PER_EACH \<and>
    (length rd < MAX_STR_ATTR_READ_PER_EACH \<longrightarrow> gs = [])"
proof -
  let ?z = "\<lparr>sa_bSyncProcess = 0, szStrInfo = replicate 65 0, iStrAttrId = 0, iStrVal = 0\<rparr>"
  have "str_ok ?z" by (simp add: str_ok_def)
  then obtain rd w fs gs where r: "read_table (ae_str env) merge_str ?z MAX_STR_ATTR_READ_PER_EACH [] (stStrAttrHash s) = Some (rd, w)"
    "es = fs @ gs" "str_rep (ae_str env) w gs" "\<forall>q. total (map str_entry rd) q = total (map str_entry []) q + total fs q"
    "length rd \<le> MAX_STR_ATTR_READ_PER_EACH" "length rd < MAX_STR_ATTR_READ_PER_EACH \<longrightarrow> gs = []"
    using ns.read_table_collects [OF rep _ nn, of ?z MAX_STR_ATTR_READ_PER_EACH "[]"] len by auto
  have w: "hw_events w = []" "take_events w = w" using r(3) by (simp_all add: table_rep_def take_events_def)
  have "ReadStrAttr env [] s = Some (rd, s\<lparr>stStrAttrHash := w\<rparr>)" using r(1) w by (simp add: ReadStrAttr_def)
  then show ?thesis using r(2-6) by (intro exI [of _ rd] exI [of _ "s\<lparr>stStrAttrHash := w\<rparr>"] exI [of _ fs] exI [of _ gs]) simp
qed

text \<open>A table of 55 nodes with one used node.\<close>

definition small_one :: "u32 \<Rightarrow> ('d \<Rightarrow> 'd \<Rightarrow> int) \<Rightarrow> 'd \<Rightarrow> 'd \<Rightarrow> 'd HashWorld" where
  "small_one sz cmp z d = \<lparr>hw_tab = small_tab sz cmp,
     hw_seg = \<lparr>seg_head = \<lparr>dwNodeStartIndex = 3, dwNodeEndIndex = 3, dwNodeUseCount = 1,
                 th_dwNodeSize = sz, th_dwNodeCount = 11, dwWriteProcessId = 0, dwLastUseTimeSec = 0,
                 bHashUseFlag = 0\<rparr>,
               seg_nodes = (\<lambda>_. zero_node_head)(3 := zero_node_head\<lparr>bIsUsed := 1, dwNodeNextIndex := 55, dwNodePreIndex := 55\<rparr>),
               seg_data = (\<lambda>_. z)(3 := d), seg_slots = 55\<rparr>,
     hw_tick = 0, hw_events = []\<rparr>"

lemma small_one_rep:
  assumes "ok z" "ok d"
  shows "table_rep (idle_env z) cmp entry ok (small_one sz cmp z d) [entry d]"
proof -
  have "table_wf (small_one sz cmp z d) [3]"
    by (auto simp: table_wf_def dll_def small_one_def small_tab_def zero_node_head_def)
  moreover have "rows_wf (small_tab sz cmp)" by (simp add: rows_wf_def small_tab_def STATIC_HASH_ROW_MAX_def)
  ultimately show ?thesis
    using assms
    by (auto simp: table_rep_def small_one_def writable_def quiet_def idle_env_def intro!: exI [of _ "[3]"])
      (simp_all add: small_tab_def)
qed

theorem ReadStrAttr_collects_witness:
  "\<exists>rd s' fs gs. ReadStrAttr demo_attr_env [] ((demo_store 0)\<lparr>stStrAttrHash :=
      small_one 74 mtreport_str_attr_cmp zero_str (zero_str\<lparr>iStrAttrId := 7, iStrVal := 3\<rparr>)\<rparr>) = Some (rd, s') \<and>
    [((7, []), 3)] = fs @ gs \<and> (\<forall>q. total (map str_entry rd) q = total fs q) \<and> length rd \<le> 15 \<and>
    (length rd < 15 \<longrightarrow> total (map str_entry rd) (7, []) = 3)"
proof -
  let ?d = "zero_str\<lparr>iStrAttrId := 7, iStrVal := 3\<rparr>"
  let ?s = "(demo_store 0)\<lparr>stStrAttrHash := small_one 74 mtreport_str_attr_cmp zero_str ?d\<rparr>"
  have e: "str_entry ?d = ((7, []), 3)" by (simp add: str_entry_def zero_str_def c_str_def)
  have "table_rep (idle_env zero_str) mtreport_str_attr_cmp str_entry str_ok (small_one 74 mtreport_str_attr_cmp zero_str ?d) [str_entry ?d]"
    by (rule small_one_rep) (simp_all add: str_ok_def zero_str_def)
  then have rep: "str_rep (ae_str demo_attr_env) (stStrAttrHash ?s) [((7, []), 3)]" by (simp add: e demo_attr_env_def)
  have nn: "\<forall>e\<in>set [((7, []), 3) :: (u32 \<times> u8 list) \<times> u32]. nonneg e" "length [((7, []), 3) :: (u32 \<times> u8 list) \<times> u32] \<le> max_nodes"
    by (simp_all add: max_nodes_def MTATTR_HASH_NODE_def STATIC_HASH_ROW_MAX_def)
  obtain rd s' fs gs where r: "ReadStrAttr demo_attr_env [] ?s = Some (rd, s')" "[((7, []), 3)] = fs @ gs"
    "\<forall>q. total (map str_entry rd) q = total fs q" "length rd \<le> MAX_STR_ATTR_READ_PER_EACH" "length rd < MAX_STR_ATTR_READ_PER_EACH \<longrightarrow> gs = []"
    using ReadStrAttr_collects [OF rep nn] by blast
  have "total (map str_entry rd) (7, []) = 3" if "length rd < 15"
  proof -
    have "fs = [((7, []), 3)]" using r(2,5) that by (simp add: MAX_STR_ATTR_READ_PER_EACH_def)
    then show ?thesis using r(3) by simp
  qed
  then show ?thesis using r(1-4) by (intro exI [of _ rd] exI [of _ s'] exI [of _ fs] exI [of _ gs]) (simp add: MAX_STR_ATTR_READ_PER_EACH_def)
qed

end
