(* ===== verification/Bmh.thy ===== *)
theory Bmh
  imports Plugin
begin

text \<open>
  The string search of \<open>lib/mtagent_api_open/oi_bmh.cpp\<close> (Boyer, Moore, Horspool), with which the log
  search looks for its keywords, and its equivalence with the plain search for the first occurrence.
  A buffer with a C string is a byte list; the search works on the bytes in front of the NUL.
  The lengths are those of keywords and log lines, far below the range of an \<open>int\<close>.
\<close>

subsection \<open>The code\<close>

definition BMH_JUMP_TABLE_SIZE :: nat where "BMH_JUMP_TABLE_SIZE = 256"

text \<open>
  The second loop of \<open>bmh_get_jump_table\<close>, from \<open>i\<close> on; the list has the characters \<open>pszPat[i]\<close> up to the last but
  one. A \<open>char\<close> is signed: a character from 128 on gives a negative index.
\<close>

fun fill_jump_table :: "int \<Rightarrow> int \<Rightarrow> u8 list \<Rightarrow> int list \<Rightarrow> int list option" where
  "fill_jump_table j i [] tab = Some tab"
| "fill_jump_table j i (c # cs) tab =
     (if sint c < 0 \<or> int (length tab) \<le> sint c then None
      else fill_jump_table j (i + 1) cs (tab[nat (sint c) := j - i - 1]))"

definition bmh_get_jump_table :: "u8 list \<Rightarrow> int list option" where
  "bmh_get_jump_table pszPat =
     (let pat = c_str pszPat; j = int (length pat)
      in fill_jump_table j 0 (take (length pat - 1) pat) (replicate BMH_JUMP_TABLE_SIZE j))"

text \<open>The inner loop of \<open>bmh_is_match\<close> with \<open>n = j + 1\<close>; its result is \<open>j + 1\<close> and \<open>k\<close> at the end.\<close>

fun match_back :: "u8 list \<Rightarrow> u8 list \<Rightarrow> nat \<Rightarrow> int \<Rightarrow> (nat \<times> int) option" where
  "match_back txt pat 0 k = Some (0, k)"
| "match_back txt pat (Suc j) k =
     (if k < 0 \<or> int (length txt) \<le> k then None
      else if txt ! nat k = pat ! j then match_back txt pat j (k - 1) else Some (Suc j, k))"

partial_function (option) match_loop :: "u8 list \<Rightarrow> u8 list \<Rightarrow> int list \<Rightarrow> int \<Rightarrow> int option" where
  "match_loop txt pat tab i =
     (if i < int (length txt) then do {
        (j, k) \<leftarrow> match_back txt pat (length pat) i;
        if j = 0 then Some (k + 1)
        else if length tab \<le> unat (txt ! nat i) then None
        else match_loop txt pat tab (i + tab ! unat (txt ! nat i))
      } else Some (-1))"

definition bmh_is_match :: "u8 list \<Rightarrow> u8 list \<Rightarrow> int list \<Rightarrow> int option" where
  "bmh_is_match pszTxt pszPat piJmpTab =
     (let txt = c_str pszTxt; pat = c_str pszPat in match_loop txt pat piJmpTab (int (length pat) - 1))"

subsection \<open>The plain search\<close>

definition occurs_at :: "u8 list \<Rightarrow> u8 list \<Rightarrow> nat \<Rightarrow> bool" where
  "occurs_at txt pat s \<longleftrightarrow> s + length pat \<le> length txt \<and> take (length pat) (drop s txt) = pat"

definition strpos :: "u8 list \<Rightarrow> u8 list \<Rightarrow> nat option" where
  "strpos txt pat = find (occurs_at txt pat) [0..<Suc (length txt)]"

lemma occurs_at_nth:
  "occurs_at txt pat s \<longleftrightarrow> s + length pat \<le> length txt \<and> (\<forall>j<length pat. txt ! (s + j) = pat ! j)"
  by (auto simp: occurs_at_def list_eq_iff_nth_eq)

lemma find_upt_least:
  assumes "P n" "n < b" "\<And>m. m < n \<Longrightarrow> \<not> P m"
  shows "find P [0..<b] = Some n"
proof -
  have "[0..<b] = [0..<n] @ n # [Suc n..<b]"
    using assms(2) by (metis le_add1 le_add_same_cancel1 less_imp_add_positive upt_add_eq_append upt_conv_Cons zero_le)
  moreover have "find P [0..<n] = None" using assms(3) by (auto simp: find_None_iff)
  moreover have "find P (as @ bs) = find P bs" if "find P as = None" for as bs
    using that by (induction as) (auto split: if_splits)
  ultimately show ?thesis using assms(1) by simp
qed

lemma strpos_eq_Some: "occurs_at txt pat s \<Longrightarrow> (\<And>r. r < s \<Longrightarrow> \<not> occurs_at txt pat r) \<Longrightarrow> strpos txt pat = Some s"
  unfolding strpos_def by (rule find_upt_least) (auto simp: occurs_at_def)

lemma strpos_eq_None: "(\<And>s. \<not> occurs_at txt pat s) \<Longrightarrow> strpos txt pat = None"
  by (auto simp: strpos_def find_None_iff)

lemma strpos_Some_iff: "(\<exists>s. strpos txt pat = Some s) \<longleftrightarrow> (\<exists>as bs. txt = as @ pat @ bs)"
proof
  assume "\<exists>s. strpos txt pat = Some s"
  then obtain s where "occurs_at txt pat s" by (auto simp: strpos_def dest: find_SomeD)
  then have "drop s txt = pat @ drop (length pat) (drop s txt)" by (metis append_take_drop_id occurs_at_def)
  then show "\<exists>as bs. txt = as @ pat @ bs" by (metis append_take_drop_id)
next
  assume "\<exists>as bs. txt = as @ pat @ bs"
  then obtain as bs where "txt = as @ pat @ bs" by blast
  then have "occurs_at txt pat (length as)" by (simp add: occurs_at_def)
  then show "\<exists>s. strpos txt pat = Some s" using strpos_eq_None by (cases "strpos txt pat") (auto simp: strpos_def find_None_iff occurs_at_def)
qed

subsection \<open>The jump table\<close>

text \<open>
  What the search needs of an entry: a step of at least one, and not over a place where the character
  could stand.
\<close>

definition jump_ok :: "u8 list \<Rightarrow> int list \<Rightarrow> bool" where
  "jump_ok pat tab \<longleftrightarrow> length tab = BMH_JUMP_TABLE_SIZE \<and>
     (\<forall>c<length tab. 1 \<le> tab ! c \<and> tab ! c \<le> int (length pat)) \<and>
     (\<forall>k<length pat - 1. tab ! unat (pat ! k) \<le> int (length pat) - 1 - int k)"

lemma sint_ascii:
  assumes "(c :: u8) < 128"
  shows "sint c = int (unat c)"
proof -
  have "uint c < 128" using assms by (simp add: word_less_def)
  then have "signed_take_bit 7 (uint c) = uint c"
    by (subst signed_take_bit_int_eq_self_iff) (simp add: order_trans [OF _ uint_ge_0])
  then show ?thesis by (simp add: sint_uint)
qed

lemma unat_u8: "unat (c :: u8) < BMH_JUMP_TABLE_SIZE"
  using unsigned_less [of c] by (simp add: BMH_JUMP_TABLE_SIZE_def)

lemma fill_jump_table_run:
  assumes "\<forall>c\<in>set cs. c < 128" "length tab = BMH_JUMP_TABLE_SIZE"
  shows "\<exists>tab'. fill_jump_table j i cs tab = Some tab' \<and> length tab' = BMH_JUMP_TABLE_SIZE \<and>
    (\<forall>c<BMH_JUMP_TABLE_SIZE. tab' ! c = tab ! c \<and> (\<forall>k<length cs. unat (cs ! k) \<noteq> c) \<or>
       (\<exists>k<length cs. unat (cs ! k) = c \<and> tab' ! c = j - (i + int k) - 1 \<and> (\<forall>l<length cs. unat (cs ! l) = c \<longrightarrow> l \<le> k)))"
  using assms
proof (induction cs arbitrary: i tab)
  case Nil
  then show ?case by simp
next
  case (Cons d ds)
  let ?tab = "tab[unat d := j - i - 1]"
  have d: "sint d = int (unat d)" using sint_ascii Cons.prems(1) by simp
  have dl: "unat d < BMH_JUMP_TABLE_SIZE" by (rule unat_u8)
  obtain tab' where t: "fill_jump_table j (i + 1) ds ?tab = Some tab'" "length tab' = BMH_JUMP_TABLE_SIZE"
    and e: "\<And>c. c < BMH_JUMP_TABLE_SIZE \<Longrightarrow> tab' ! c = ?tab ! c \<and> (\<forall>k<length ds. unat (ds ! k) \<noteq> c) \<or>
       (\<exists>k<length ds. unat (ds ! k) = c \<and> tab' ! c = j - (i + 1 + int k) - 1 \<and> (\<forall>l<length ds. unat (ds ! l) = c \<longrightarrow> l \<le> k))"
    using Cons.IH [of ?tab "i + 1"] Cons.prems by auto
  have run: "fill_jump_table j i (d # ds) tab = Some tab'"
    using t(1) dl Cons.prems(2) by (simp only: fill_jump_table.simps d nat_int of_nat_le_iff) simp
  have "tab' ! c = tab ! c \<and> (\<forall>k<length (d # ds). unat ((d # ds) ! k) \<noteq> c) \<or>
       (\<exists>k<length (d # ds). unat ((d # ds) ! k) = c \<and> tab' ! c = j - (i + int k) - 1 \<and>
          (\<forall>l<length (d # ds). unat ((d # ds) ! l) = c \<longrightarrow> l \<le> k))" if c: "c < BMH_JUMP_TABLE_SIZE" for c
    using e [OF c]
  proof
    assume a: "tab' ! c = ?tab ! c \<and> (\<forall>k<length ds. unat (ds ! k) \<noteq> c)"
    show ?thesis
    proof (cases "unat d = c")
      case True
      then have "tab' ! c = j - (i + int 0) - 1" using a c Cons.prems(2) by simp
      moreover have "\<forall>l<length (d # ds). unat ((d # ds) ! l) = c \<longrightarrow> l \<le> 0" using a by (auto simp: less_Suc_eq_0_disj)
      ultimately show ?thesis using True by (intro disjI2 exI [of _ 0]) simp
    next
      case False
      then show ?thesis using a c by (intro disjI1) (auto simp: less_Suc_eq_0_disj)
    qed
  next
    assume "\<exists>k<length ds. unat (ds ! k) = c \<and> tab' ! c = j - (i + 1 + int k) - 1 \<and> (\<forall>l<length ds. unat (ds ! l) = c \<longrightarrow> l \<le> k)"
    then obtain k where "k < length ds" "unat (ds ! k) = c" "tab' ! c = j - (i + 1 + int k) - 1"
      "\<forall>l<length ds. unat (ds ! l) = c \<longrightarrow> l \<le> k" by blast
    then show ?thesis by (intro disjI2 exI [of _ "Suc k"]) (auto simp: less_Suc_eq_0_disj)
  qed
  then show ?case using run t(2) by blast
qed

lemma sint_high:
  assumes "128 \<le> (c :: u8)"
  shows "sint c < 0"
proof (rule ccontr)
  assume "\<not> sint c < 0"
  moreover have "sint c < 128" using sint_lt [of c] by simp
  ultimately have "take_bit 8 (sint c) = sint c" by (intro take_bit_int_eq_self) simp_all
  then have "uint c < 128" using \<open>sint c < 128\<close> uint_sint [of c] by simp
  moreover have "128 \<le> uint c" using assms by (simp add: word_le_def)
  ultimately show False by simp
qed

text \<open>A character from 128 on in front of the last one makes the code write in front of the table.\<close>

lemma fill_jump_table_fails: "\<exists>c\<in>set cs. 128 \<le> c \<Longrightarrow> fill_jump_table j i cs tab = None"
  by (induction cs arbitrary: i tab) (auto dest: sint_high)

lemma bmh_get_jump_table_ok:
  assumes pat: "c_str p = pat" "pat \<noteq> []" and ascii: "\<forall>c\<in>set (butlast pat). c < 128"
  shows "\<exists>tab. bmh_get_jump_table p = Some tab \<and> jump_ok pat tab"
proof -
  let ?cs = "take (length pat - 1) pat" and ?j = "int (length pat)"
  have cs: "?cs = butlast pat" by (simp add: butlast_conv_take)
  have j: "1 \<le> ?j" using pat(2) by (cases pat) auto
  obtain tab where t: "fill_jump_table ?j 0 ?cs (replicate BMH_JUMP_TABLE_SIZE ?j) = Some tab" "length tab = BMH_JUMP_TABLE_SIZE"
    and e: "\<And>c. c < BMH_JUMP_TABLE_SIZE \<Longrightarrow> tab ! c = replicate BMH_JUMP_TABLE_SIZE ?j ! c \<and> (\<forall>k<length ?cs. unat (?cs ! k) \<noteq> c) \<or>
       (\<exists>k<length ?cs. unat (?cs ! k) = c \<and> tab ! c = ?j - (0 + int k) - 1 \<and> (\<forall>l<length ?cs. unat (?cs ! l) = c \<longrightarrow> l \<le> k))"
    using fill_jump_table_run [of ?cs "replicate BMH_JUMP_TABLE_SIZE ?j" ?j 0] ascii [folded cs] by (metis length_replicate)
  have step: "1 \<le> tab ! c \<and> tab ! c \<le> ?j" if "c < BMH_JUMP_TABLE_SIZE" for c
    using e [OF that] that j by auto
  have "tab ! unat (pat ! k) \<le> ?j - 1 - int k" if k: "k < length pat - 1" for k
  proof -
    have c: "unat (pat ! k) < BMH_JUMP_TABLE_SIZE" by (rule unat_u8)
    show ?thesis using e [OF c] k by auto
  qed
  then show ?thesis using t step pat(1) by (auto simp: bmh_get_jump_table_def jump_ok_def Let_def)
qed

subsection \<open>The search\<close>

lemma match_back_run:
  assumes "n \<le> length pat" "int n - 1 \<le> k" "k < int (length txt)"
  shows "\<exists>j k'. match_back txt pat n k = Some (j, k') \<and> (j = 0 \<longrightarrow> k' = k - int n) \<and>
    (j = 0 \<longleftrightarrow> (\<forall>m<n. txt ! nat (k - int n + 1 + int m) = pat ! m))"
  using assms
proof (induction n arbitrary: k)
  case 0
  then show ?case by simp
next
  case (Suc n)
  show ?case
  proof (cases "txt ! nat k = pat ! n")
    case False
    then show ?thesis using Suc.prems by (auto intro!: exI [of _ n])
  next
    case True
    obtain j k' where j: "match_back txt pat n (k - 1) = Some (j, k')" "j = 0 \<longrightarrow> k' = k - 1 - int n"
      "j = 0 \<longleftrightarrow> (\<forall>m<n. txt ! nat (k - 1 - int n + 1 + int m) = pat ! m)"
      using Suc.IH [of "k - 1"] Suc.prems by force
    have "(\<forall>m<Suc n. txt ! nat (k - int (Suc n) + 1 + int m) = pat ! m) \<longleftrightarrow>
      (\<forall>m<n. txt ! nat (k - 1 - int n + 1 + int m) = pat ! m)"
      using True by (simp add: less_Suc_eq all_conj_distrib algebra_simps imp_conjR)
    then show ?thesis using j True Suc.prems by simp
  qed
qed

text \<open>No occurrence ends between one place the search looks at and the next.\<close>

lemma jump_skips:
  assumes "jump_ok pat tab" "occurs_at txt pat s" "i < length txt" "i < s + length pat - 1" "pat \<noteq> []"
  shows "int i + tab ! unat (txt ! i) \<le> int (s + length pat - 1)"
proof -
  have c: "unat (txt ! i) < length tab" using assms(1) unat_u8 by (simp add: jump_ok_def)
  show ?thesis
  proof (cases "s \<le> i")
    case True
    then have k: "i - s < length pat - 1" using assms(4) by linarith
    then have "txt ! (s + (i - s)) = pat ! (i - s)" using assms(2) by (simp add: occurs_at_nth)
    then have "txt ! i = pat ! (i - s)" using True by simp
    then have "tab ! unat (txt ! i) \<le> int (length pat) - 1 - int (i - s)" using assms(1) k by (simp add: jump_ok_def)
    then show ?thesis using True assms(4) by simp
  next
    case False
    have "tab ! unat (txt ! i) \<le> int (length pat)" using assms(1) c by (simp add: jump_ok_def)
    then show ?thesis using False by simp
  qed
qed

lemma match_loop_run:
  assumes tab: "jump_ok pat tab" and pat: "pat \<noteq> []" and "length pat \<le> Suc i"
    and "\<And>s. s + length pat \<le> i \<Longrightarrow> \<not> occurs_at txt pat s"
  shows "match_loop txt pat tab (int i) = Some (case strpos txt pat of None \<Rightarrow> -1 | Some s \<Rightarrow> int s)"
  using assms(3,4)
proof (induction "length txt - i" arbitrary: i rule: less_induct)
  case less
  show ?case
  proof (cases "i < length txt")
    case False
    then have "strpos txt pat = None" using less.prems(2) by (intro strpos_eq_None) (auto simp: occurs_at_def)
    then show ?thesis using False by (subst match_loop.simps) simp
  next
    case True
    obtain j k where j: "match_back txt pat (length pat) (int i) = Some (j, k)" "j = 0 \<longrightarrow> k = int i - int (length pat)"
      "j = 0 \<longleftrightarrow> (\<forall>m<length pat. txt ! nat (int i - int (length pat) + 1 + int m) = pat ! m)"
      using match_back_run [of "length pat" pat "int i" "txt"] True less.prems(1) by force
    define s where "s = Suc i - length pat"
    have "nat (int i - int (length pat) + 1 + int m) = s + m" for m using less.prems(1) by (simp add: s_def)
    then have m: "j = 0 \<longleftrightarrow> occurs_at txt pat s" using j(3) True less.prems(1) by (simp add: occurs_at_nth s_def)
    show ?thesis
    proof (cases "j = 0")
      case match: True
      have "strpos txt pat = Some s" using match m less.prems by (intro strpos_eq_Some) (auto simp: s_def)
      moreover have "k + 1 = int s" using j(2) match less.prems(1) by (simp add: s_def)
      ultimately show ?thesis using True j(1) match by (subst match_loop.simps) simp
    next
      case nomatch: False
      let ?d = "tab ! unat (txt ! i)"
      have c: "unat (txt ! i) < length tab" using tab unat_u8 by (simp add: jump_ok_def)
      then have d: "1 \<le> ?d" using tab by (simp add: jump_ok_def)
      define i' where "i' = i + nat ?d"
      have i': "int i' = int i + ?d" "i < i'" using d by (simp_all add: i'_def)
      have "\<not> occurs_at txt pat r" if r: "r + length pat \<le> i'" for r
      proof
        assume occ: "occurs_at txt pat r"
        have len: "1 \<le> length pat" using pat by (cases pat) auto
        consider "r + length pat \<le> i" | "r + length pat = Suc i" | "i < r + length pat - 1" by linarith
        then show False
        proof cases
          case 1
          then show ?thesis using less.prems(2) occ by blast
        next
          case 2
          then have "r = s" by (simp add: s_def)
          then show ?thesis using nomatch m occ by simp
        next
          case 3
          then show ?thesis using jump_skips [OF tab occ True 3 pat] r i'(1) len by linarith
        qed
      qed
      then have "match_loop txt pat tab (int i') = Some (case strpos txt pat of None \<Rightarrow> -1 | Some s \<Rightarrow> int s)"
        using less.hyps [of i'] i'(2) True less.prems(1) by simp
      then show ?thesis using True j(1) nomatch c i'(1) by (subst match_loop.simps) simp
    qed
  qed
qed

lemma bmh_is_match_run:
  assumes tab: "jump_ok (c_str p) tab \<or> c_str p = []"
  shows "bmh_is_match t p tab = Some (case strpos (c_str t) (c_str p) of None \<Rightarrow> -1 | Some s \<Rightarrow> int s)"
proof (cases "c_str p = []")
  case True
  have "occurs_at (c_str t) [] 0" by (simp add: occurs_at_def)
  then have "strpos (c_str t) [] = Some 0" by (rule strpos_eq_Some) simp
  moreover have "match_loop (c_str t) [] tab (-1) = Some 0" by (subst match_loop.simps) simp
  ultimately show ?thesis using True by (simp add: bmh_is_match_def Let_def)
next
  case False
  then have "int (length (c_str p)) - 1 = int (length (c_str p) - 1)" by (simp add: of_nat_diff Suc_le_eq)
  moreover have "match_loop (c_str t) (c_str p) tab (int (length (c_str p) - 1))
      = Some (case strpos (c_str t) (c_str p) of None \<Rightarrow> -1 | Some s \<Rightarrow> int s)"
  proof (rule match_loop_run [OF _ False])
    have "0 < length (c_str p)" using False by simp
    then show "length (c_str p) \<le> Suc (length (c_str p) - 1)"
      "\<And>s. s + length (c_str p) \<le> length (c_str p) - 1 \<Longrightarrow> \<not> occurs_at (c_str t) (c_str p) s" by linarith+
  qed (use tab False in simp)
  ultimately show ?thesis by (simp only: bmh_is_match_def Let_def)
qed

text \<open>
  C12. The fast search is the plain one. For a pattern whose characters but the last are below 128, the
  jump table is built without a write outside it, and the search returns the place of the first
  occurrence of the pattern in the text, or -1. For any other pattern (a keyword in Chinese, say)
  the code writes in front of the table.
\<close>

theorem bmh_finds_first:
  "if \<exists>c\<in>set (butlast (c_str p)). 128 \<le> c then bmh_get_jump_table p = None
   else \<exists>tab. bmh_get_jump_table p = Some tab \<and>
     (\<forall>t. bmh_is_match t p tab = Some (case strpos (c_str t) (c_str p) of None \<Rightarrow> -1 | Some s \<Rightarrow> int s))"
proof (cases "\<exists>c\<in>set (butlast (c_str p)). 128 \<le> c")
  case True
  then show ?thesis using fill_jump_table_fails by (simp add: bmh_get_jump_table_def Let_def butlast_conv_take)
next
  case False
  then have ascii: "\<forall>c\<in>set (butlast (c_str p)). c < 128" by (simp add: not_le)
  obtain tab where "bmh_get_jump_table p = Some tab" "jump_ok (c_str p) tab \<or> c_str p = []"
    using bmh_get_jump_table_ok [OF refl _ ascii] by (cases "c_str p = []") (auto simp: bmh_get_jump_table_def)
  then show ?thesis using False bmh_is_match_run by auto
qed

end
