(* ===== verification/Agent.thy ===== *)
theory Agent
  imports Log_Init
begin

text \<open>
  The agent's side of the logs: \<open>ReadAppLogToBuf\<close> and \<open>ReadAppLog\<close> of
  \<open>slog_mtreport_client/mtreport_client.cpp\<close>. The agent attaches the same segment as the processes
  that log; \<open>g_mtReport.pMtShm\<close> and \<open>stConfig.pReportShm\<close> are one pointer. A call of \<open>ReadAppLog\<close> is
  one step of the model: writers run before and after it.
\<close>

subsection \<open>The packet format\<close>

text \<open>Integers in network byte order, as \<open>htons\<close>, \<open>htonl\<close> and \<open>htonll\<close> leave them in memory.\<close>

definition be16 :: "u16 \<Rightarrow> u8 list" where
  "be16 x = [ucast (drop_bit 8 x), ucast x]"

definition be64 :: "u64 \<Rightarrow> u8 list" where
  "be64 x = be32 (ucast (drop_bit 32 x)) @ be32 (ucast x)"

text \<open>The packed structure \<open>LogInfo\<close>: 30 bytes, followed by custom fields and text.\<close>

definition sizeof_LogInfo :: nat where
  "sizeof_LogInfo = 30"

definition log_head :: "MTLog \<Rightarrow> nat \<Rightarrow> nat \<Rightarrow> u8 list" where
  "log_head l custlen loglen = be32 (dwLogSeq l) @ be32 (iAppId l) @ be32 (iModuleId l) @ be32 (dwLogConfigId l)
     @ be16 (wLogType l) @ be64 (qwLogTime l) @ be16 (of_nat custlen) @ be16 (of_nat loglen)"

subsection \<open>The agent's state\<close>

definition MAX_APP_LOG_PKG_LENGTH :: nat where "MAX_APP_LOG_PKG_LENGTH = 1200"
definition MAX_APP_TYPE_READ_PER_EACH :: nat where "MAX_APP_TYPE_READ_PER_EACH = 10"
definition MTLOG_LOG_TIMEOUTMS_IN_SPEC :: u64 where "MTLOG_LOG_TIMEOUTMS_IN_SPEC = 120000"

text \<open>
  \<open>sAppLogBuf\<close> holds the first \<open>iReadAppLogBufLen\<close> bytes of the buffer, \<open>stAppLogRead\<close> the first
  \<open>bReadAppTypeCount\<close> entries, \<open>stAppConfigList\<close> the application of each of the first
  \<open>wAppConfigCount\<close> entries; what lies behind is not read. \<open>ag_buf\<close> is the static buffer of
  \<open>ReadAppLogToBuf\<close>, which keeps its bytes between calls.
\<close>

record TAppLogRead =
  iReadAppId :: u32
  iAppInfoIdx :: nat
  sAppLogBuf :: "u8 list"

record Agent =
  ag_lw :: LogWorld
  ag_buf :: "u8 list"
  stAppLogRead :: "TAppLogRead list"
  stAppConfigList :: "u32 list"

text \<open>\<open>time(NULL)\<close>, \<open>stConfig.qwCurTime\<close> and the clock of the string store.\<close>

record AgentEnv =
  ge_now :: u32
  ge_cur :: u64
  ge_clk :: "nat \<Rightarrow> u32"

definition agent_buf_size :: nat where
  "agent_buf_size = MTREPORT_LOG_MAX_LENGTH + 256"

subsection \<open>One record\<close>

text \<open>Writing bytes into a buffer; a write behind its end leaves the model.\<close>

definition put_at :: "nat \<Rightarrow> u8 list \<Rightarrow> u8 list \<Rightarrow> u8 list option" where
  "put_at off bs buf = (if off + length bs \<le> length buf then Some (take off buf @ bs @ drop (off + length bs) buf) else None)"

text \<open>The custom fields: their length, the record, the string store and the buffer afterwards.\<close>

definition read_cust :: "(nat \<Rightarrow> u32) \<Rightarrow> MTLog \<Rightarrow> Vmem \<Rightarrow> u8 list \<Rightarrow> (nat \<times> MTLog \<times> Vmem \<times> u8 list) option" where
  "read_cust clk l v buf =
     (if 0 < iCustVmemIndex l then do {
        let idx = word_of_int (iCustVmemIndex l);
        (rc, out) \<leftarrow> MtReport_GetFromVmem idx (agent_buf_size - sizeof_LogInfo) v;
        buf \<leftarrow> put_at sizeof_LogInfo out buf;
        if 0 \<le> rc then do {
          (_, v) \<leftarrow> MtReport_FreeVmem clk idx v;
          Some (length out, l\<lparr>iCustVmemIndex := 0\<rparr>, v, buf)
        } else Some (0, l, v, buf)
      } else Some (0, l, v, buf))"

text \<open>
  The text at offset \<open>use\<close>. A short one is copied with its NUL; \<open>strcpy\<close> needs one in the record. Of
  a long one the record has 252 bytes and the string store the rest; the length counts one byte
  more than is written.
\<close>

definition read_text :: "(nat \<Rightarrow> u32) \<Rightarrow> nat \<Rightarrow> MTLog \<Rightarrow> Vmem \<Rightarrow> u8 list \<Rightarrow> (nat \<times> MTLog \<times> Vmem \<times> u8 list) option" where
  "read_text clk use l v buf =
     (if iVarmemIndex l < 0 then
        if 0 \<in> set (sLogContent l) then do {
          buf \<leftarrow> put_at use (c_str (sLogContent l) @ [0]) buf;
          Some (length (c_str (sLogContent l)) + 1, l, v, buf)
        } else None
      else do {
        let idx = word_of_int (iVarmemIndex l);
        buf \<leftarrow> put_at use (take (iShmLogBufLen - 4) (sLogContent l)) buf;
        (rc, out) \<leftarrow> MtReport_GetFromVmem idx (agent_buf_size - use - (iShmLogBufLen - 4) - 1) v;
        buf \<leftarrow> put_at (use + (iShmLogBufLen - 4)) out buf;
        (_, v) \<leftarrow> MtReport_FreeVmem clk idx v;
        Some (if 0 \<le> rc then iShmLogBufLen - 4 + length out + 1 else iShmLogBufLen - 4, l\<lparr>iVarmemIndex := 0\<rparr>, v, buf)
      })"

text \<open>Appending to the first packet of the application with room.\<close>

fun append_read :: "u32 \<Rightarrow> u8 list \<Rightarrow> TAppLogRead list \<Rightarrow> TAppLogRead list option" where
  "append_read app bs [] = None"
| "append_read app bs (r # rs) =
     (if iReadAppId r = app \<and> length bs \<le> MAX_APP_LOG_PKG_LENGTH - length (sAppLogBuf r)
      then Some (r\<lparr>sAppLogBuf := sAppLogBuf r @ bs\<rparr> # rs)
      else map_option ((#) r) (append_read app bs rs))"

fun find_app :: "u32 \<Rightarrow> nat \<Rightarrow> u32 list \<Rightarrow> nat option" where
  "find_app app i [] = None"
| "find_app app i (x # xs) = (if x = app then Some i else find_app app (Suc i) xs)"

text \<open>
  Storing the bytes of a record. A new packet has to be shorter than the buffer (an assertion of
  the source); the record is dropped when the application is unknown.
\<close>

definition queue_log :: "u32 \<Rightarrow> u8 list \<Rightarrow> Agent \<Rightarrow> (int \<times> Agent) option" where
  "queue_log app bs a =
     (case append_read app bs (stAppLogRead a) of
        Some rs \<Rightarrow> Some (0, a\<lparr>stAppLogRead := rs\<rparr>)
      | None \<Rightarrow>
          if MAX_APP_TYPE_READ_PER_EACH \<le> length (stAppLogRead a) then Some (-1, a)
          else if MAX_APP_LOG_PKG_LENGTH \<le> length bs then None
          else case find_app app 0 (stAppConfigList a) of
              Some i \<Rightarrow> Some (0, a\<lparr>stAppLogRead := stAppLogRead a @ [\<lparr>iReadAppId = app, iAppInfoIdx = i, sAppLogBuf = bs\<rparr>]\<rparr>)
            | None \<Rightarrow> Some (0, a))"

text \<open>The record as it is left in the segment is part of the result.\<close>

definition ReadAppLogToBuf :: "(nat \<Rightarrow> u32) \<Rightarrow> MTLog \<Rightarrow> Agent \<Rightarrow> (int \<times> MTLog \<times> Agent) option" where
  "ReadAppLogToBuf clk plog a =
     (if iAppId plog = 0 \<or> iModuleId plog = 0 then None
      else do {
        (custlen, plog, v, buf) \<leftarrow> read_cust clk plog (lw_vmem (ag_lw a)) (ag_buf a);
        (loglen, plog, v, buf) \<leftarrow> read_text clk (sizeof_LogInfo + custlen) plog v buf;
        buf \<leftarrow> put_at 0 (log_head plog custlen loglen) buf;
        (rc, a) \<leftarrow> queue_log (iAppId plog) (take (sizeof_LogInfo + custlen + loglen) buf)
          (a\<lparr>ag_lw := (ag_lw a)\<lparr>lw_vmem := v\<rparr>, ag_buf := buf\<rparr>);
        Some (rc, plog, a)
      })"

subsection \<open>The special list\<close>

definition next_idx :: "int \<Rightarrow> int \<Rightarrow> int" where
  "next_idx n i = (if n \<le> i + 1 then 0 else i + 1)"

definition upd_lw :: "(LogWorld \<Rightarrow> LogWorld) \<Rightarrow> Agent \<Rightarrow> Agent" where
  "upd_lw f a = a\<lparr>ag_lw := f (ag_lw a)\<rparr>"

definition step_spec :: "Agent \<Rightarrow> Agent" where
  "step_spec a = upd_lw (\<lambda>w. w\<lparr>iLogSpecialReadIdx := next_idx MTLOG_LOG_SPECIAL_COUNT (iLogSpecialReadIdx w)\<rparr>) a"

text \<open>
  What happens to a complete record: wait for its configuration, drop it, or read it with the
  application and module of the configuration.
\<close>

datatype spec_case = SpecWait | SpecDrop | SpecRead MTLog

definition spec_case_of :: "AgentEnv \<Rightarrow> LogWorld \<Rightarrow> MTLog \<Rightarrow> spec_case option" where
  "spec_case_of env w l =
     (if iAppId l = 0 then do {
        ci \<leftarrow> find_cfg (dwLogConfigId l) (unat (wLogConfigCount w)) 0 (stLogConfig w);
        Some (case ci of
            None \<Rightarrow> if qwLogTime l + MTLOG_LOG_TIMEOUTMS_IN_SPEC * 1000 \<le> ge_cur env then SpecDrop else SpecWait
          | Some i \<Rightarrow> let c = stLogConfig w ! i in
              if cfg_iLogType c AND ucast (wLogType l) = 0 then SpecDrop
              else SpecRead (l\<lparr>iAppId := cfg_iAppId c, iModuleId := cfg_iModuleId c\<rparr>))
      } else Some (SpecRead l))"

text \<open>The loop over the special list; \<open>True\<close> when \<open>ReadAppLog\<close> returns from inside it.\<close>

partial_function (option) read_spec :: "AgentEnv \<Rightarrow> Agent \<Rightarrow> (bool \<times> Agent) option" where
  "read_spec env a =
     (let w = ag_lw a; i = iLogSpecialReadIdx w in
      if i < 0 \<or> i = iLogSpecialWriteIdx w then Some (False, a)
      else if length (sLogListSpec w) \<le> nat i then None
      else let l = sLogListSpec w ! nat i in
        if dwLogSeq l = 0
        then Some (False, if (ucast (qwLogTime l div 1000000 + 5) :: u32) \<le> ge_now env then step_spec a else a)
        else do {
          c \<leftarrow> spec_case_of env w l;
          case c of
            SpecWait \<Rightarrow> Some (False, a)
          | SpecDrop \<Rightarrow> read_spec env (step_spec a)
          | SpecRead l \<Rightarrow> do {
              (rc, l, a) \<leftarrow> ReadAppLogToBuf (ge_clk env) l a;
              let a = upd_lw (\<lambda>w. w\<lparr>sLogListSpec := (sLogListSpec w)[nat i := l]\<rparr>) a;
              if rc < 0 then Some (True, a) else read_spec env (step_spec a)
            }
        })"

subsection \<open>The rings\<close>

definition upd_shm :: "nat \<Rightarrow> (MTLogShm \<Rightarrow> MTLogShm) \<Rightarrow> Agent \<Rightarrow> Agent" where
  "upd_shm k f a = upd_lw (\<lambda>w. w\<lparr>stLogShm := (stLogShm w)[k := f (stLogShm w ! k)]\<rparr>) a"

definition step_ring :: "nat \<Rightarrow> Agent \<Rightarrow> Agent" where
  "step_ring k a = upd_shm k (\<lambda>r. r\<lparr>iLogStarIndex := next_idx MTLOG_SHM_RECORDS_COUNT (iLogStarIndex r)\<rparr>) a"

partial_function (option) read_ring :: "AgentEnv \<Rightarrow> nat \<Rightarrow> Agent \<Rightarrow> (bool \<times> Agent) option" where
  "read_ring env k a =
     (let r = stLogShm (ag_lw a) ! k; i = iLogStarIndex r in
      if i < 0 \<or> i = iWriteIndex r then Some (False, a)
      else if length (sLogList r) \<le> nat i then None
      else let l = sLogList r ! nat i in
        if dwLogSeq l = 0
        then Some (False, if ge_now env \<le> (ucast (qwLogTime l div 1000000 + 5) :: u32) then step_ring k a else a)
        else do {
          (rc, l, a) \<leftarrow> ReadAppLogToBuf (ge_clk env) l a;
          let a = upd_shm k (\<lambda>r. r\<lparr>sLogList := (sLogList r)[nat i := l]\<rparr>) a;
          if rc < 0 then Some (True, a) else read_ring env k (step_ring k a)
        })"

text \<open>A ring whose flag is taken is left out.\<close>

fun read_rings :: "AgentEnv \<Rightarrow> nat list \<Rightarrow> Agent \<Rightarrow> Agent option" where
  "read_rings env [] a = Some a"
| "read_rings env (k # ks) a =
     (if bTryGetLogIndex (stLogShm (ag_lw a) ! k) \<noteq> 0 then read_rings env ks a
      else do {
        (left, a) \<leftarrow> read_ring env k (upd_shm k (\<lambda>r. r\<lparr>bTryGetLogIndex := 1\<rparr>) a);
        if left then Some (upd_shm k (\<lambda>r. r\<lparr>bTryGetLogIndex := 0\<rparr>) a)
        else read_rings env ks (upd_shm k (\<lambda>r. r\<lparr>
          iLogStarIndex := (if iLogStarIndex r = iWriteIndex r then -1 else iLogStarIndex r), bTryGetLogIndex := 0\<rparr>) a)
      })"

definition ReadAppLog :: "AgentEnv \<Rightarrow> Agent \<Rightarrow> Agent option" where
  "ReadAppLog env a = do {
     (left, a) \<leftarrow> read_spec env a;
     if left then Some a
     else read_rings env [0..<MTLOG_SHM_DEF_COUNT] (upd_lw (\<lambda>w. w\<lparr>iLogSpecialReadIdx :=
       (if iLogSpecialReadIdx w = iLogSpecialWriteIdx w then -1 else iLogSpecialReadIdx w)\<rparr>) a)
   }"

end
