(* ===== verification/Sv_Vmem.thy ===== *)
theory Sv_Vmem
  imports Vmem Shm
begin

text \<open>
  \<open>lib/mtagent_api_open/sv_vmem.cpp\<close>: the string store of the servers, with \<open>MtReport_GetShm_comm\<close> of \<open>sv_shm.cpp\<close>. It has
  the pools of the client's store (theory \<open>Vmem\<close>) and the same macros to take and return single nodes, but ten pools of each
  length with other sizes, a counter of the nodes that wait for collection, another order of tries when a string is saved,
  checks for empty nodes, and no assertions: what the client asserts is counted here. The attributes passed to
  \<open>MtReport_Attr_Add\<close> (always with value 1) are listed in the order of the calls.

  The functions have the names of the source with \<open>Sv_\<close> for \<open>MtReport_\<close>, to tell them from the client's.
\<close>

subsection \<open>Pools\<close>

record SvPool =
  sp_pool :: VmemPool
  wDelayFree :: u16

definition SV_VMEM_SHM_COUNT :: nat where
  "SV_VMEM_SHM_COUNT = 10"

definition sv_node_count :: "nat \<Rightarrow> nat" where
  "sv_node_count len = (if len = 16 then 30000 else if len = 32 then 30000 else if len = 64 then 40000
     else if len = 128 then 40000 else 10000)"

text \<open>
  \<open>g_mtReportVmem\<close> and the pools it points to; \<open>sv_tick\<close> counts the clock readings, \<open>sv_attrs\<close> lists the attributes
  that were added to.
\<close>

record SvVmem =
  sv_cIsInit :: u8
  sv_pools :: "nat \<Rightarrow> nat \<Rightarrow> SvPool"
  sv_tick :: nat
  sv_attrs :: "nat list"

definition sv_report :: "nat list \<Rightarrow> SvVmem \<Rightarrow> SvVmem" where
  "sv_report at v = v\<lparr>sv_attrs := sv_attrs v @ at\<rparr>"

definition sv_set_pool :: "nat \<Rightarrow> nat \<Rightarrow> nat \<Rightarrow> SvPool \<Rightarrow> SvVmem \<Rightarrow> SvVmem" where
  "sv_set_pool len i n q v = v\<lparr>sv_pools := (sv_pools v)(len := (sv_pools v len)(i := q)), sv_tick := n\<rparr>"

text \<open>\<open>SCAN_FREE_NODE\<close> over the next \<open>k\<close> nodes.\<close>

fun sv_scan :: "nat \<Rightarrow> SvPool \<times> nat list \<Rightarrow> (SvPool \<times> nat list) option" where
  "sv_scan 0 s = Some s"
| "sv_scan (Suc k) (q, at) = (let
     p = sp_pool q;
     p = (if wNodeCount p \<le> wScanFreeIndex p then p\<lparr>wScanFreeIndex := 1\<rparr> else p);
     s = wScanFreeIndex p in do {
     nxt \<leftarrow> rd_next p s;
     if is_dead p nxt then do {
       p \<leftarrow> push_free s p;
       sv_scan k (\<lparr>sp_pool = p\<lparr>wScanFreeIndex := wScanFreeIndex p + 1\<rparr>, wDelayFree = wDelayFree q - 1\<rparr>,
         at @ (if wNodeUsed p = 0 then [104] else []) @ [106])
     }
     else sv_scan k (q\<lparr>sp_pool := p\<lparr>wScanFreeIndex := wScanFreeIndex p + 1\<rparr>\<rparr>, at)
   })"

subsection \<open>Saving\<close>

text \<open>From the scan to the release of the flag: the first node, the pool and the attributes.\<close>

definition sv_save_in_pool :: "nat \<Rightarrow> nat \<Rightarrow> u8 list \<Rightarrow> SvPool \<Rightarrow> (u16 \<times> SvPool \<times> nat list) option" where
  "sv_save_in_pool len need d q = do {
     (q, at) \<leftarrow> sv_scan 10 (q, []);
     (first, p) \<leftarrow> VMEM_GET_FREE_NODE (sp_pool q);
     let p = p\<lparr>wNodeUsed := wNodeUsed p + of_nat need\<rparr>;
     (f, d, p) \<leftarrow> save_loop len (need - 1) d first p;
     p \<leftarrow> wr_node f (\<lambda>n. n\<lparr>wNextNodeIndex := wNodeCount p\<rparr>) p;
     p \<leftarrow> copy_in len f d p;
     p \<leftarrow> wr_node f (\<lambda>n. n\<lparr>bDataLen := of_nat (length d)\<rparr>) p;
     Some (first, q\<lparr>sp_pool := p\<lparr>bUseFlag := 0\<rparr>\<rparr>, at)
   }"

text \<open>
  The loop of the functions that \<open>__SAVE_DATA_TO_VMEM\<close> generates, over the pools \<open>i # is\<close>. A pool that has too few free
  nodes is left without a scan.
\<close>

fun sv_save_pools :: "(nat \<Rightarrow> u32) \<Rightarrow> nat \<Rightarrow> u8 list \<Rightarrow> nat list \<Rightarrow> SvVmem \<Rightarrow> (int \<times> SvVmem) option" where
  "sv_save_pools clk len d [] v = Some (-1, v)"
| "sv_save_pools clk len d (i # is) v =
     (let need = need_count len (length d); q = sv_pools v len i in
      case take_flag clk (sv_tick v, sp_pool q) of
        (False, n, p) \<Rightarrow> sv_save_pools clk len d is (sv_set_pool len i n (q\<lparr>sp_pool := p\<rparr>) v)
      | (True, np) \<Rightarrow> (case stamp_flag clk np of (n, p) \<Rightarrow>
          if enough p need
          then do {
            (first, q, at) \<leftarrow> sv_save_in_pool len need d (q\<lparr>sp_pool := p\<rparr>);
            Some (sint (VMEM_MAKE_IDEX32 len i first), sv_report at (sv_set_pool len i n q v))
          }
          else sv_save_pools clk len d is (sv_set_pool len i n (q\<lparr>sp_pool := p\<lparr>bUseFlag := 0\<rparr>\<rparr>) v)))"

fun sv_try_lens :: "(nat \<Rightarrow> u32) \<Rightarrow> u8 list \<Rightarrow> nat list \<Rightarrow> int \<Rightarrow> SvVmem \<Rightarrow> (int \<times> SvVmem) option" where
  "sv_try_lens clk d [] r v = Some (r, v)"
| "sv_try_lens clk d (len # lens) r v =
     (if r < 0 then do {
        (r, v) \<leftarrow> sv_save_pools clk len d [0..<SV_VMEM_SHM_COUNT] v;
        sv_try_lens clk d lens r v
      }
      else Some (r, v))"

text \<open>
  The lengths in the order of the tries: first those that hold the data in one node (32 comes twice in the source), then
  those that fit it best.
\<close>

definition sv_save_order :: "nat \<Rightarrow> nat list" where
  "sv_save_order n = filter (\<lambda>len. n \<le> len) [16, 32, 32, 64, 128, 255] @ filter (\<lambda>len. len \<le> n) [255, 128, 64, 32, 16]"

definition Sv_SaveToVmem :: "(nat \<Rightarrow> u32) \<Rightarrow> u8 list \<Rightarrow> SvVmem \<Rightarrow> (int \<times> SvVmem) option" where
  "Sv_SaveToVmem clk d v =
     (if sv_cIsInit v = 0 then Some (-101, v)
      else if length d = 0 \<or> VMEM_MAX_DATA_LEN < length d then Some (-1, v)
      else do {
        (r, v) \<leftarrow> sv_try_lens clk d (sv_save_order (length d)) (-1) v;
        Some (r, sv_report [if r < 0 then 101 else 100] v)
      })"

subsection \<open>Reading\<close>

text \<open>
  The chain walk of \<open>VMEM_GET_DATA\<close>: \<open>out\<close> is what was copied so far, \<open>room\<close> what is left of the buffer. The walk ends
  without an error when the buffer is full, also in the middle of a chain.
\<close>

partial_function (option) sv_get_chain ::
    "nat \<Rightarrow> VmemPool \<Rightarrow> u16 \<Rightarrow> int \<Rightarrow> u8 list \<Rightarrow> (int \<times> u8 list) option" where
  "sv_get_chain len p i room out = do {
     n \<leftarrow> rd_node p i;
     if room < int (unat (bDataLen n)) then Some (-4, out)
     else if bDataLen n = 0 then Some (-5, out)
     else if len < unat (bDataLen n) then None
     else let out = out @ take (unat (bDataLen n)) (sDataBuf n); room = room - int (unat (bDataLen n)) in
       if wNextNodeIndex n < wNodeCount p \<and> 0 < room then sv_get_chain len p (wNextNodeIndex n) room out
       else Some (0, out)
   }"

text \<open>The result is the return code, the bytes written to the buffer, and the attributes.\<close>

definition Sv_GetFromVmem :: "int \<Rightarrow> int \<Rightarrow> SvVmem \<Rightarrow> (int \<times> u8 list \<times> nat list) option" where
  "Sv_GetFromVmem index iBufLen v =
     (if sv_cIsInit v = 0 \<or> index \<le> 0 then Some (-101, [], [])
      else case VMEM_PARSE_IDEX32 (word_of_int index) of (len, tIdx, nIdx) \<Rightarrow>
        if SV_VMEM_SHM_COUNT \<le> tIdx then Some (-1, [], [103])
        else if len \<notin> set vmem_lens then Some (-3, [], [103])
        else let p = sp_pool (sv_pools v len tIdx) in
          if wNodeCount p \<le> nIdx then Some (-2, [], [103])
          else do {
            (rc, out) \<leftarrow> sv_get_chain len p nIdx iBufLen [];
            Some (rc, out, if rc = 0 then [102] else if rc = -4 then [103] else [])
          })"

text \<open>
  \<open>MtReport_GetFromVmemZeroCp\<close>: the bytes the returned pointer points to (\<open>None\<close> for a null pointer), \<open>*piBufLen\<close> and the
  attributes. A string in one node is not copied: the pointer leads into the pool. The -5 of an empty node is not counted.
\<close>

definition Sv_GetFromVmemZeroCp :: "int \<Rightarrow> int \<Rightarrow> SvVmem \<Rightarrow> (u8 list option \<times> int \<times> nat list) option" where
  "Sv_GetFromVmemZeroCp index iBufLen v =
     (if sv_cIsInit v = 0 \<or> index \<le> 0 then Some (None, -101, [])
      else case VMEM_PARSE_IDEX32 (word_of_int index) of (len, tIdx, nIdx) \<Rightarrow>
        if SV_VMEM_SHM_COUNT \<le> tIdx then Some (None, -1, [103])
        else if len \<notin> set vmem_lens then Some (None, -2, [103])
        else let p = sp_pool (sv_pools v len tIdx) in
          if wNodeCount p \<le> nIdx then Some (None, -3, [103])
          else do {
            n \<leftarrow> rd_node p nIdx;
            if unat (bDataLen n) < len \<or> wNodeCount p \<le> wNextNodeIndex n
            then if len < unat (bDataLen n) then None
              else Some (Some (take (unat (bDataLen n)) (sDataBuf n)), int (unat (bDataLen n)), [])
            else do {
              (rc, out) \<leftarrow> sv_get_chain len p nIdx iBufLen [];
              Some (if rc = 0 then (Some out, int (length out), [102]) else (None, rc, if rc = -4 then [103] else []))
            }
          })"

text \<open>\<open>sizeof(s_sLocalBuf)\<close> is the buffer of the two functions that return a pointer only.\<close>

definition Sv_GetFromVmem_Local2 :: "int \<Rightarrow> SvVmem \<Rightarrow> (u8 list option \<times> int \<times> nat list) option" where
  "Sv_GetFromVmem_Local2 index v = Sv_GetFromVmemZeroCp index (int VMEM_MAX_DATA_LEN + 1) v"

definition Sv_GetFromVmem_Local :: "int \<Rightarrow> SvVmem \<Rightarrow> (u8 list option \<times> nat list) option" where
  "Sv_GetFromVmem_Local index v =
     map_option (\<lambda>(s, n, at). (s, at)) (Sv_GetFromVmemZeroCp index (int VMEM_MAX_DATA_LEN + 1) v)"

subsection \<open>Releasing\<close>

text \<open>One round of the loop of \<open>VMEM_FREE_NODE\<close> on a node that is not empty.\<close>

definition sv_free_node :: "bool \<Rightarrow> u16 \<Rightarrow> SvPool \<Rightarrow> (SvPool \<times> nat list) option" where
  "sv_free_node flag i q = do {
     p \<leftarrow> wr_node i (\<lambda>n. n\<lparr>bDataLen := 0\<rparr>) (sp_pool q);
     if flag then do {
       p \<leftarrow> push_free i p;
       Some (q\<lparr>sp_pool := p\<rparr>, if wNodeUsed p = 0 then [104] else [])
     }
     else do {
       p \<leftarrow> wr_node i (\<lambda>n. n\<lparr>wNextNodeIndex := wNodeCount p + 1\<rparr>) p;
       Some (q\<lparr>sp_pool := p, wDelayFree := wDelayFree q + 1\<rparr>, [105])
     }
   }"

partial_function (option) sv_free_chain :: "bool \<Rightarrow> u16 \<Rightarrow> SvPool \<times> nat list \<Rightarrow> (SvPool \<times> nat list) option" where
  "sv_free_chain flag i s = (case s of (q, at) \<Rightarrow> do {
     n \<leftarrow> rd_node (sp_pool q) i;
     if bDataLen n = 0 then Some (q, at @ [103])
     else do {
       (q, at') \<leftarrow> sv_free_node flag i q;
       if wNextNodeIndex n < wNodeCount (sp_pool q) then sv_free_chain flag (wNextNodeIndex n) (q, at @ at')
       else Some (q, at @ at')
     }
   })"

definition Sv_FreeVmem :: "(nat \<Rightarrow> u32) \<Rightarrow> int \<Rightarrow> SvVmem \<Rightarrow> (int \<times> SvVmem) option" where
  "Sv_FreeVmem clk index v =
     (if sv_cIsInit v = 0 \<or> index \<le> 0 then Some (-101, v)
      else case VMEM_PARSE_IDEX32 (word_of_int index) of (len, tIdx, nIdx) \<Rightarrow>
        if SV_VMEM_SHM_COUNT \<le> tIdx then Some (-1, v)
        else if len \<notin> set vmem_lens then Some (-3, v)
        else let q = sv_pools v len tIdx in
          if wNodeCount (sp_pool q) \<le> nIdx then Some (-2, sv_report [104] v)
          else (case take_flag clk (sv_tick v, sp_pool q) of (flag, np) \<Rightarrow>
            (case (if flag then stamp_flag clk np else np) of (n, p) \<Rightarrow> do {
               (q, at) \<leftarrow> sv_free_chain flag nIdx (q\<lparr>sp_pool := p\<rparr>, []);
               let q = (if flag then q\<lparr>sp_pool := (sp_pool q)\<lparr>bUseFlag := 0\<rparr>\<rparr> else q);
               Some (0, sv_report at (sv_set_pool len tIdx n q v))
             })))"

definition Sv_GetAndFreeVmem :: "(nat \<Rightarrow> u32) \<Rightarrow> int \<Rightarrow> int \<Rightarrow> SvVmem \<Rightarrow> (int \<times> u8 list \<times> SvVmem) option" where
  "Sv_GetAndFreeVmem clk index iBufLen v = do {
     (rc, out, at) \<leftarrow> Sv_GetFromVmem index iBufLen v;
     let v = sv_report at v;
     if rc < 0 then Some (-1, out, v)
     else do { (_, v) \<leftarrow> Sv_FreeVmem clk index v; Some (0, out, v) }
   }"

subsection \<open>Initialisation\<close>

text \<open>
  \<open>MtReport_GetShm_comm\<close>: return code, address of the payload, attributes and process. \<open>GetShm\<close> is the client's
  \<open>MtReportGetShm\<close> but for the text of the error. Sizes are not negative.
\<close>

definition MtReport_GetShm_comm ::
    "'k ShmOS \<Rightarrow> int \<Rightarrow> nat \<Rightarrow> int \<Rightarrow> u8 list \<Rightarrow> 'k Proc \<Rightarrow> int \<times> nat option \<times> nat list \<times> 'k Proc" where
  "MtReport_GetShm_comm os iShmID iSize iFlag pcheckstr p =
     (let c = length pcheckstr; n = iSize + c * 2 in
      case MtReportGetShm os iShmID (int n) (iFlag AND NOT IPC_CREAT) p of
        (None, p) \<Rightarrow>
          (if iFlag AND IPC_CREAT = 0 then (-1, None, [], p)
           else case MtReportGetShm os iShmID (int n) iFlag p of
               (None, p) \<Rightarrow> (-1, None, [97], p)
             | (Some sShm, p) \<Rightarrow>
                 (let m = mem_put sShm (replicate n 0) (pr_mem p);
                      m = mem_put sShm pcheckstr m;
                      m = mem_put (sShm + c + iSize) pcheckstr m
                  in (1, Some (sShm + c), [], p\<lparr>pr_mem := m\<rparr>)))
      | (Some sShm, p) \<Rightarrow>
          (if mem_get sShm c (pr_mem p) \<noteq> pcheckstr \<or> mem_get (sShm + c + iSize) c (pr_mem p) \<noteq> pcheckstr
           then (-2, None, [98], p)
           else (0, Some (sShm + c), [], p)))"

definition sv_check_str :: "nat \<Rightarrow> string" where
  "sv_check_str len = (if len = 16 then ''3dg2352332tsl*]YYYY'' else if len = 32 then ''3dgtlog_dk##Asyyyssl*]''
     else if len = 64 then ''3@tlog_dk##ADlslgdjk*]'' else if len = 128 then ''@#)))))))%@#_mtlog]'' else ''sdigdj#_mtlog_dk##AD___'')"

definition sizeof_VmemBufNode :: "nat \<Rightarrow> nat" where
  "sizeof_VmemBufNode len = 3 + len"

definition VMEM_DEF_SHMKEY :: int where
  "VMEM_DEF_SHMKEY = 2013046000"

text \<open>
  The segments of the lengths in turn. \<open>view m a len j\<close> is the pool number \<open>j\<close> of length \<open>len\<close> in a segment at \<open>a\<close> (the
  cast to the node structures). A segment that was created is laid out.
\<close>

fun sv_init_lens :: "'k ShmOS \<Rightarrow> ((nat \<Rightarrow> u8) \<Rightarrow> nat \<Rightarrow> nat \<Rightarrow> nat \<Rightarrow> SvPool) \<Rightarrow> int \<Rightarrow> int \<Rightarrow> nat list \<Rightarrow> SvVmem \<Rightarrow> 'k Proc
    \<Rightarrow> bool \<times> SvVmem \<times> 'k Proc" where
  "sv_init_lens os view iFlag key [] v p = (True, v, p)"
| "sv_init_lens os view iFlag key (len # lens) v p =
     (case MtReport_GetShm_comm os key (sizeof_VmemBufNode len * sv_node_count len * SV_VMEM_SHM_COUNT) iFlag
             (map of_char (sv_check_str len)) p of
        (iRet, Some a, at, p) \<Rightarrow>
          (let lay = (\<lambda>q. if 0 < iRet then q\<lparr>sp_pool := VMEM_CREATE_INIT_SHM (sv_node_count len) (sp_pool q)\<rparr> else q);
               v = v\<lparr>sv_pools := (sv_pools v)(len := (\<lambda>j. lay (view (pr_mem p) a len j)))\<rparr>
           in sv_init_lens os view iFlag (key + 1) lens (sv_report at v) p)
      | (iRet, None, at, p) \<Rightarrow> (False, sv_report at v, p))"

definition Sv_InitVmem_ByFlag :: "'k ShmOS \<Rightarrow> ((nat \<Rightarrow> u8) \<Rightarrow> nat \<Rightarrow> nat \<Rightarrow> nat \<Rightarrow> SvPool) \<Rightarrow> int \<Rightarrow> int \<Rightarrow> SvVmem \<Rightarrow> 'k Proc
    \<Rightarrow> int \<times> SvVmem \<times> 'k Proc" where
  "Sv_InitVmem_ByFlag os view iFlag iShmKey v p =
     (if sv_cIsInit v \<noteq> 0 then (1, v, p)
      else case sv_init_lens os view iFlag (iShmKey + 1) vmem_lens v p of
        (False, v, p) \<Rightarrow> (-1, v, p)
      | (True, v, p) \<Rightarrow> (0, v\<lparr>sv_cIsInit := 1\<rparr>, p))"

definition Sv_InitVmem :: "'k ShmOS \<Rightarrow> ((nat \<Rightarrow> u8) \<Rightarrow> nat \<Rightarrow> nat \<Rightarrow> nat \<Rightarrow> SvPool) \<Rightarrow> SvVmem \<Rightarrow> 'k Proc \<Rightarrow> int \<times> SvVmem \<times> 'k Proc" where
  "Sv_InitVmem os view v p =
     (if sv_cIsInit v \<noteq> 0 then (1, v, p) else Sv_InitVmem_ByFlag os view 438 VMEM_DEF_SHMKEY v p)"

end
