(* ===== verification/Server.thy ===== *)
theory Server
  imports Agent Sv_Vmem
begin

text \<open>
  The log server's side: the packet of log records (\<open>LogInfoNtoH\<close> of
  \<open>lib/mtagent_api_open/sv_struct.cpp\<close>, the loop of \<open>OnRawDataClientLog\<close> in \<open>slog_server/udp_sock.cpp\<close>)
  and \<open>CSupperLog::WriteAppLogToShm\<close> of \<open>lib/mtagent_api_open/supper_log.cpp\<close>, which stores a record in
  the ring of its application.
\<close>

subsection \<open>The packet\<close>

text \<open>The number in network byte order at the start of a byte list.\<close>

definition of_be :: "u8 list \<Rightarrow> 'a :: len word" where
  "of_be bs = foldl (\<lambda>x b. push_bit 8 x OR ucast b) 0 bs"

text \<open>
  \<open>LogInfo\<close> in host byte order. The member \<open>sLog\<close> has no size: it reaches to the end of the packet.
\<close>

record LogInfo =
  li_dwLogSeq :: u32
  li_iAppId :: u32
  li_iModuleId :: u32
  li_dwLogConfigId :: u32
  li_wLogType :: u16
  li_qwLogTime :: u64
  li_wCustDataLen :: u16
  li_wLogDataLen :: u16
  li_sLog :: "u8 list"

definition LogInfoNtoH :: "u8 list \<Rightarrow> LogInfo" where
  "LogInfoNtoH bs = \<lparr>li_dwLogSeq = of_be (take 4 bs), li_iAppId = of_be (take 4 (drop 4 bs)),
     li_iModuleId = of_be (take 4 (drop 8 bs)), li_dwLogConfigId = of_be (take 4 (drop 12 bs)),
     li_wLogType = of_be (take 2 (drop 16 bs)), li_qwLogTime = of_be (take 8 (drop 18 bs)),
     li_wCustDataLen = of_be (take 2 (drop 26 bs)), li_wLogDataLen = of_be (take 2 (drop 28 bs)),
     li_sLog = drop sizeof_LogInfo bs\<rparr>"

definition log_size :: "LogInfo \<Rightarrow> nat" where
  "log_size p = sizeof_LogInfo + unat (li_wCustDataLen p) + unat (li_wLogDataLen p)"

text \<open>
  The loop over the packet from \<open>iRead\<close> on: the records in the order they are dealt with, and
  whether no record reached behind the end (\<open>ERR_INVALID_PACKET\<close> otherwise).
\<close>

function split_logs :: "u8 list \<Rightarrow> LogInfo list \<times> bool" where
  "split_logs bs =
     (if sizeof_LogInfo < length bs then
        let p = LogInfoNtoH bs in
        if length bs < log_size p then ([], False)
        else case split_logs (drop (log_size p) bs) of (ps, ok) \<Rightarrow> (p # ps, ok)
      else ([], True))"
  by pat_completeness auto
termination
  by (relation "measure length") (auto simp: log_size_def sizeof_LogInfo_def)

declare split_logs.simps [simp del]

subsection \<open>Rings of the server\<close>

record TSLog =
  ts_cust :: MTLogCust
  ts_dwLogConfigId :: u32
  ts_dwLogHost :: u32
  ts_dwLogSeq :: u32
  ts_qwLogTime :: u64
  ts_iAppId :: u32
  ts_iModuleId :: u32
  ts_wLogType :: u16
  ts_iContentIndex :: int
  ts_dwStartWriteLogTime :: u32
  ts_sLogContent :: "u8 list"

record TSLogShm =
  sh_dwLogSeq :: u32
  sh_bTryGetLogIndex :: u8
  sh_iLogStarIndex :: int
  sh_iWriteIndex :: int
  sh_iAppId :: u32
  sh_sLogList :: "TSLog list"

text \<open>
  \<open>m_pShmLog->iLogMaxCount\<close> of the server's own log, which the macro \<open>SLOG_NEXT_INDEX\<close> reads whatever
  ring is written; whether \<open>m_iVmemShmKey\<close> is positive; \<open>m_stNow\<close>; the date of a log as text; what
  other processes do to the flag during the n-th \<open>usleep\<close>.
\<close>

record SrvEnv =
  se_max :: int
  se_vmem :: bool
  se_now :: u32
  se_date :: "u64 \<Rightarrow> string"
  se_sleep :: "nat \<Rightarrow> u8 \<Rightarrow> u8"

definition SLOG_NEXT_INDEX :: "SrvEnv \<Rightarrow> int \<Rightarrow> int" where
  "SLOG_NEXT_INDEX env i = (if se_max env \<le> i + 1 then 0 else i + 1)"

text \<open>A failure to get the flag within 100 tries is not reported.\<close>

fun InitGetShmLogIndex :: "SrvEnv \<Rightarrow> nat \<Rightarrow> nat \<Rightarrow> TSLogShm \<Rightarrow> TSLogShm" where
  "InitGetShmLogIndex env 0 i s = s"
| "InitGetShmLogIndex env (Suc n) i s =
     (if sh_bTryGetLogIndex s = 0 then s\<lparr>sh_bTryGetLogIndex := 1\<rparr>
      else InitGetShmLogIndex env n (Suc i) (s\<lparr>sh_bTryGetLogIndex := se_sleep env i (sh_bTryGetLogIndex s)\<rparr>))"

definition EndGetShmLogIndex :: "TSLogShm \<Rightarrow> TSLogShm" where
  "EndGetShmLogIndex s = s\<lparr>sh_bTryGetLogIndex := 0\<rparr>"

definition ModifyLogStartIndexCmpAndSwap :: "SrvEnv \<Rightarrow> int \<Rightarrow> int \<Rightarrow> TSLogShm \<Rightarrow> TSLogShm" where
  "ModifyLogStartIndexCmpAndSwap env iOld iNew s =
     (if iOld = sh_iLogStarIndex s then
        let s = InitGetShmLogIndex env 100 0 s;
            s = (if sh_iLogStarIndex s < 0 then s\<lparr>sh_iLogStarIndex := iNew\<rparr>
                 else if iNew = sh_iWriteIndex s then s\<lparr>sh_iLogStarIndex := -1\<rparr>
                 else s\<lparr>sh_iLogStarIndex := iNew\<rparr>)
        in EndGetShmLogIndex s
      else s)"

subsection \<open>Custom fields\<close>

text \<open>
  \<open>strncpy\<close> from the packet at \<open>p\<close> (the bytes up to its end): it has to find a NUL or \<open>n\<close> bytes.
\<close>

definition copy_cust :: "nat \<Rightarrow> u8 list \<Rightarrow> u8 list \<Rightarrow> u8 list option" where
  "copy_cust n p b = (if 0 \<in> set p \<or> n \<le> length p then Some (strncpy n (c_str p) b) else None)"

definition take_u32 :: "bool \<Rightarrow> u8 list \<Rightarrow> (u32 \<times> u8 list) option" where
  "take_u32 present p = (if \<not> present then Some (0, p) else if 4 \<le> length p then Some (of_be (take 4 p), drop 4 p) else None)"

definition decode_cust :: "u8 list \<Rightarrow> MTLogCust \<Rightarrow> MTLogCust option" where
  "decode_cust sLog c = (case sLog of [] \<Rightarrow> None | f # p \<Rightarrow> do {
     let c = c\<lparr>bCustFlag := f\<rparr>;
     (x1, p) \<leftarrow> take_u32 (is_set MTLOG_CUST_FLAG_C1_SET c) p;
     (x2, p) \<leftarrow> take_u32 (is_set MTLOG_CUST_FLAG_C2_SET c) p;
     (x3, p) \<leftarrow> take_u32 (is_set MTLOG_CUST_FLAG_C3_SET c) p;
     (x4, p) \<leftarrow> take_u32 (is_set MTLOG_CUST_FLAG_C4_SET c) p;
     let c = c\<lparr>dwCust_1 := x1, dwCust_2 := x2, iCust_3 := x3, iCust_4 := x4\<rparr>;
     (s5, p) \<leftarrow> (if \<not> is_set MTLOG_CUST_FLAG_C5_SET c then Some (0 # drop 1 (szCust_5 c), p)
       else do { s \<leftarrow> copy_cust 15 p (szCust_5 c); Some (s, drop (16 + 1) p) });
     s6 \<leftarrow> (if \<not> is_set MTLOG_CUST_FLAG_C6_SET c then Some (0 # drop 1 (szCust_6 c)) else copy_cust 31 p (szCust_6 c));
     Some (c\<lparr>szCust_5 := s5, szCust_6 := s6\<rparr>)
   })"

subsection \<open>Storing a record\<close>

definition BWORLD_MEMLOG_BUF_LENGTH :: nat where "BWORLD_MEMLOG_BUF_LENGTH = 256"
definition BWORLD_SLOG_MAX_LINE_LEN :: nat where "BWORLD_SLOG_MAX_LINE_LEN = 1024"
definition SLOG_TYPE_ERROR :: u16 where "SLOG_TYPE_ERROR = 4"

definition TOO_LONG_LOG_TRUNCATE_STR :: "u8 list" where
  "TOO_LONG_LOG_TRUNCATE_STR = bytes ''  [slog too long truncate ...]''"

text \<open>
  The first \<open>iWrite\<close> bytes of \<open>m_sLogBuf\<close>: date, text, and a NUL unless the text brought one. The
  buffer has 64 bytes more than a line; a write behind it, or a read behind the packet, leaves
  the model.
\<close>

definition srv_text :: "SrvEnv \<Rightarrow> LogInfo \<Rightarrow> u8 list option" where
  "srv_text env p =
     (let pre = bytes (se_date env (li_qwLogTime p div 1000000) @ ''.'' @ pad6 (unat (li_qwLogTime p mod 1000000)) @ '' '');
          pLogContent = drop (unat (li_wCustDataLen p)) (li_sLog p); iContentLen = unat (li_wLogDataLen p);
          b = (if BWORLD_SLOG_MAX_LINE_LEN < iContentLen
               then (if 64 \<le> length pre + length TOO_LONG_LOG_TRUNCATE_STR
                     then pre @ take (BWORLD_SLOG_MAX_LINE_LEN - length pre) pLogContent
                     else pre @ take BWORLD_SLOG_MAX_LINE_LEN pLogContent) @ TOO_LONG_LOG_TRUNCATE_STR
               else pre @ take iContentLen pLogContent);
          b = (if last b \<noteq> 0 then b @ [0] else b)
      in if length pLogContent < iContentLen \<or> BWORLD_SLOG_MAX_LINE_LEN + 64 < length b then None else Some b)"

text \<open>
  The content members of the record. The function that saves a string is an argument here, so that the proofs can rest on
  the interface of a string store; \<open>WriteAppLogToShm\<close> below passes the \<open>MtReport_SaveToVmem\<close> of \<open>sv_vmem.cpp\<close>.
\<close>

definition srv_content :: "SrvEnv \<Rightarrow> (u8 list \<Rightarrow> 'v \<Rightarrow> (int \<times> 'v) option) \<Rightarrow> TSLogShm \<Rightarrow> LogInfo \<Rightarrow> u8 list \<Rightarrow> 'v
    \<Rightarrow> ((TSLog \<Rightarrow> TSLog) \<times> 'v) option" where
  "srv_content env save s p b v =
     (if length b < BWORLD_MEMLOG_BUF_LENGTH
      then Some (\<lambda>l. l\<lparr>ts_iContentIndex := -1,
             ts_sLogContent := c_str b @ 0 # drop (Suc (length (c_str b))) (ts_sLogContent l)\<rparr>, v)
      else if \<not> se_vmem env
      then Some (\<lambda>l. l\<lparr>ts_iContentIndex := -1, ts_sLogContent := take (BWORLD_MEMLOG_BUF_LENGTH - 1) b @ [0]\<rparr>, v)
      else do {
        (r, v) \<leftarrow> save (drop (BWORLD_MEMLOG_BUF_LENGTH - 4) b) v;
        let msg = take (BWORLD_MEMLOG_BUF_LENGTH - 2) (bytes (''write shm log failed, MtReport_SaveToVmem ret:'' @ show_int r
          @ ''(appid:'' @ show_int (sint (sh_iAppId s)) @ '', moduleid:'' @ show_int (sint (li_iModuleId p))
          @ '', loglen:'' @ dec (length (c_str b)) @ '')''));
        Some (if r < 0
          then (\<lambda>l. l\<lparr>ts_sLogContent := msg @ 0 # drop (Suc (length msg)) (take BWORLD_MEMLOG_BUF_LENGTH b),
                 ts_wLogType := SLOG_TYPE_ERROR, ts_iContentIndex := -1\<rparr>, v)
          else (\<lambda>l. l\<lparr>ts_sLogContent := take BWORLD_MEMLOG_BUF_LENGTH b, ts_iContentIndex := r\<rparr>, v))
      })"

definition srv_seq :: "TSLogShm \<Rightarrow> u32 \<times> TSLogShm" where
  "srv_seq s = (if sh_dwLogSeq s = 0 then (1, s\<lparr>sh_dwLogSeq := 2\<rparr>) else (sh_dwLogSeq s, s\<lparr>sh_dwLogSeq := sh_dwLogSeq s + 1\<rparr>))"

definition write_app_log :: "SrvEnv \<Rightarrow> (u8 list \<Rightarrow> 'v \<Rightarrow> (int \<times> 'v) option) \<Rightarrow> LogInfo \<Rightarrow> u32 \<Rightarrow> TSLogShm \<Rightarrow> 'v
    \<Rightarrow> (int \<times> TSLogShm \<times> 'v) option" where
  "write_app_log env save p dwLogHost s v =
     (let s = InitGetShmLogIndex env 100 0 s; i = sh_iWriteIndex s in
      if i = sh_iLogStarIndex s then Some (-3778, EndGetShmLogIndex s, v)
      else if i < 0 \<or> length (sh_sLogList s) \<le> nat i then None
      else case srv_seq (s\<lparr>sh_iWriteIndex := SLOG_NEXT_INDEX env i\<rparr>) of (dwSeq, s) \<Rightarrow> do {
        let l = (sh_sLogList s ! nat i)\<lparr>ts_dwStartWriteLogTime := se_now env, ts_dwLogSeq := 0\<rparr>;
        let s = EndGetShmLogIndex s;
        b \<leftarrow> srv_text env p;
        cu \<leftarrow> (if 0 < li_wCustDataLen p then decode_cust (li_sLog p) (ts_cust l) else Some (ts_cust l));
        (put, v) \<leftarrow> srv_content env save s p b v;
        let l = (put (l\<lparr>ts_iModuleId := li_iModuleId p, ts_iAppId := li_iAppId p, ts_cust := cu, ts_wLogType := li_wLogType p,
          ts_qwLogTime := li_qwLogTime p, ts_dwLogHost := dwLogHost, ts_dwLogConfigId := li_dwLogConfigId p\<rparr>))
          \<lparr>ts_dwLogSeq := dwSeq\<rparr>;
        Some (0, ModifyLogStartIndexCmpAndSwap env (-1) i (s\<lparr>sh_sLogList := (sh_sLogList s)[nat i := l]\<rparr>), v)
      })"

text \<open>\<open>clk\<close> are the clock readings of the string store.\<close>

definition WriteAppLogToShm :: "SrvEnv \<Rightarrow> (nat \<Rightarrow> u32) \<Rightarrow> LogInfo \<Rightarrow> u32 \<Rightarrow> TSLogShm \<Rightarrow> SvVmem \<Rightarrow> (int \<times> TSLogShm \<times> SvVmem) option" where
  "WriteAppLogToShm env clk = write_app_log env (Sv_SaveToVmem clk)"

end
