(* ===== verification/Search.thy ===== *)
theory Search
  imports Bmh Server
begin

text \<open>
  The log search of \<open>lib/mtagent_api_open/supper_log.cpp\<close> (class \<open>CSLogSearch\<close>): the search terms, the test
  whether a log matches them, and \<open>RealTimeLog\<close>, which walks a ring of the server backwards from the
  newest log. The members for the search in log files are left out.
\<close>

subsection \<open>Search terms\<close>

definition SLOG_KEY_MAX_LENGTH :: nat where "SLOG_KEY_MAX_LENGTH = 128"
definition SLOG_MAX_KEY_COUNT :: nat where "SLOG_MAX_KEY_COUNT = 10"
definition SLOG_MODULE_COUNT_MAX_PER_APP :: nat where "SLOG_MODULE_COUNT_MAX_PER_APP = 50"

record CSLogSearch =
  m_iLogTypeFlag :: u32
  m_iLogAppId :: u32
  m_iModuleIdCount :: int
  m_arrLogModuleId :: "u32 list"
  m_iIncKeyCount :: nat
  m_stIncKey :: "u8 list list"
  m_stIncJmpTab :: "int list list"
  m_iExcpKeyCount :: nat
  m_stExcpKey :: "u8 list list"
  m_stExcpJmpTab :: "int list list"
  m_qwRealTimeUsec :: u64
  m_iReportMachine :: u32
  m_bInit :: bool

definition InitDefaultSearch :: "CSLogSearch \<Rightarrow> CSLogSearch" where
  "InitDefaultSearch cs = cs\<lparr>m_iLogTypeFlag := 0, m_iLogAppId := 0, m_iModuleIdCount := 0,
     m_arrLogModuleId := replicate SLOG_MODULE_COUNT_MAX_PER_APP 0,
     m_iIncKeyCount := 0, m_stIncKey := replicate SLOG_MAX_KEY_COUNT (replicate SLOG_KEY_MAX_LENGTH 0),
     m_stIncJmpTab := replicate SLOG_MAX_KEY_COUNT (replicate BMH_JUMP_TABLE_SIZE 0),
     m_iExcpKeyCount := 0, m_stExcpKey := replicate SLOG_MAX_KEY_COUNT (replicate SLOG_KEY_MAX_LENGTH 0),
     m_stExcpJmpTab := replicate SLOG_MAX_KEY_COUNT (replicate BMH_JUMP_TABLE_SIZE 0),
     m_iReportMachine := 0\<rparr>"

definition SetModuleId :: "u32 \<Rightarrow> CSLogSearch \<Rightarrow> int \<times> CSLogSearch" where
  "SetModuleId modId cs =
     (if int SLOG_MODULE_COUNT_MAX_PER_APP < m_iModuleIdCount cs + 1 then (-1, cs)
      else (m_iModuleIdCount cs + 1, cs\<lparr>m_arrLogModuleId := (m_arrLogModuleId cs)[nat (m_iModuleIdCount cs) := modId],
             m_iModuleIdCount := m_iModuleIdCount cs + 1\<rparr>))"

text \<open>
  The upper bound is tested on the old count, so that a longer list writes behind the array (\<open>None\<close>);
  \<open>ids\<close> has the numbers at \<open>piModuleId\<close>.
\<close>

definition SetAppModuleInfo :: "u32 \<Rightarrow> int \<Rightarrow> u32 list \<Rightarrow> CSLogSearch \<Rightarrow> (int \<times> CSLogSearch) option" where
  "SetAppModuleInfo appId iModuleIdCount ids cs =
     (let n = (if iModuleIdCount < 0 then 0
               else if int SLOG_MODULE_COUNT_MAX_PER_APP < m_iModuleIdCount cs then int SLOG_MODULE_COUNT_MAX_PER_APP
               else iModuleIdCount)
      in if length ids < nat n \<or> length (m_arrLogModuleId cs) < nat n then None
         else Some (n, cs\<lparr>m_iLogAppId := appId, m_iModuleIdCount := n,
           m_arrLogModuleId := take (nat n) ids @ drop (nat n) (m_arrLogModuleId cs)\<rparr>))"

definition SetMachine :: "u32 \<Rightarrow> CSLogSearch \<Rightarrow> CSLogSearch" where
  "SetMachine iMachineId cs = cs\<lparr>m_iReportMachine := iMachineId\<rparr>"

definition AddLogType :: "u32 \<Rightarrow> CSLogSearch \<Rightarrow> CSLogSearch" where
  "AddLogType iLogType cs = cs\<lparr>m_iLogTypeFlag := m_iLogTypeFlag cs OR iLogType\<rparr>"

definition SetLogType :: "u32 \<Rightarrow> CSLogSearch \<Rightarrow> CSLogSearch" where
  "SetLogType dwLogTypeFlag cs = cs\<lparr>m_iLogTypeFlag := dwLogTypeFlag\<rparr>"

definition AddIncludeKey :: "u8 list \<Rightarrow> CSLogSearch \<Rightarrow> (int \<times> CSLogSearch) option" where
  "AddIncludeKey pszKey cs =
     (let i = m_iIncKeyCount cs in
      if SLOG_MAX_KEY_COUNT < i + 1 then Some (-1, cs)
      else do {
        let key = strncpy (SLOG_KEY_MAX_LENGTH - 1) (c_str pszKey) (m_stIncKey cs ! i);
        tab \<leftarrow> bmh_get_jump_table key;
        Some (int i + 1, cs\<lparr>m_stIncKey := (m_stIncKey cs)[i := key], m_stIncJmpTab := (m_stIncJmpTab cs)[i := tab], m_iIncKeyCount := i + 1\<rparr>)
      })"

definition AddExceptKey :: "u8 list \<Rightarrow> CSLogSearch \<Rightarrow> (int \<times> CSLogSearch) option" where
  "AddExceptKey pszKey cs =
     (let i = m_iExcpKeyCount cs in
      if SLOG_MAX_KEY_COUNT < i + 1 then Some (-1, cs)
      else do {
        let key = strncpy (SLOG_KEY_MAX_LENGTH - 1) (c_str pszKey) (m_stExcpKey cs ! i);
        tab \<leftarrow> bmh_get_jump_table key;
        Some (int i + 1, cs\<lparr>m_stExcpKey := (m_stExcpKey cs)[i := key], m_stExcpJmpTab := (m_stExcpJmpTab cs)[i := tab], m_iExcpKeyCount := i + 1\<rparr>)
      })"

text \<open>The loops of the two setters: the keys and tables from index \<open>i\<close> on are replaced.\<close>

fun set_keys :: "nat \<Rightarrow> u8 list list \<Rightarrow> u8 list list \<times> int list list \<Rightarrow> (u8 list list \<times> int list list) option" where
  "set_keys i [] kt = Some kt"
| "set_keys i (k # ks) kt = do {
     let key = strncpy (SLOG_KEY_MAX_LENGTH - 1) (c_str k) (fst kt ! i);
     tab \<leftarrow> bmh_get_jump_table key;
     set_keys (Suc i) ks ((fst kt)[i := key], (snd kt)[i := tab])
   }"

definition SetSearchIncKey :: "nat \<Rightarrow> u8 list list \<Rightarrow> CSLogSearch \<Rightarrow> (int \<times> CSLogSearch) option" where
  "SetSearchIncKey iIncKeyCount sIncKeyList cs = do {
     let n = (if SLOG_MAX_KEY_COUNT < iIncKeyCount then SLOG_MAX_KEY_COUNT else iIncKeyCount);
     (ks, ts) \<leftarrow> set_keys 0 (take n sIncKeyList)
        (replicate SLOG_MAX_KEY_COUNT (replicate SLOG_KEY_MAX_LENGTH 0), m_stIncJmpTab cs);
     Some (0, cs\<lparr>m_stIncKey := ks, m_stIncJmpTab := ts, m_iIncKeyCount := n\<rparr>)
   }"

definition SetSearchExcpKey :: "nat \<Rightarrow> u8 list list \<Rightarrow> CSLogSearch \<Rightarrow> (int \<times> CSLogSearch) option" where
  "SetSearchExcpKey iExcpKeyCount sExcpKeyList cs = do {
     let n = (if SLOG_MAX_KEY_COUNT < iExcpKeyCount then SLOG_MAX_KEY_COUNT else iExcpKeyCount);
     (ks, ts) \<leftarrow> set_keys 0 (take n sExcpKeyList) (m_stExcpKey cs, m_stExcpJmpTab cs);
     Some (0, cs\<lparr>m_stExcpKey := ks, m_stExcpJmpTab := ts, m_iExcpKeyCount := n\<rparr>)
   }"

subsection \<open>Matching\<close>

text \<open>\<open>ipv4_addr_str\<close>: the bytes of the address in memory order, as \<open>inet_ntoa\<close> prints them.\<close>

definition ipv4_addr_str :: "u32 \<Rightarrow> u8 list" where
  "ipv4_addr_str a = bytes (dec (unat (take_bit 8 a)) @ ''.'' @ dec (unat (take_bit 8 (drop_bit 8 a))) @ ''.''
     @ dec (unat (take_bit 8 (drop_bit 16 a))) @ ''.'' @ dec (unat (drop_bit 24 a)))"

definition strstr :: "u8 list \<Rightarrow> u8 list \<Rightarrow> bool" where
  "strstr s key = (strpos s key \<noteq> None)"

text \<open>The loop over the excluded keys from \<open>i\<close> on (\<open>True\<close>: none occurs), and the one over the included keys.\<close>

fun no_except_key :: "CSLogSearch \<Rightarrow> u8 list \<Rightarrow> u8 list \<Rightarrow> nat list \<Rightarrow> bool option" where
  "no_except_key cs phost pszLog [] = Some True"
| "no_except_key cs phost pszLog (i # is) =
     (if strstr phost (c_str (m_stExcpKey cs ! i)) then Some False
      else do {
        r \<leftarrow> bmh_is_match pszLog (m_stExcpKey cs ! i) (m_stExcpJmpTab cs ! i);
        if 0 \<le> r then Some False else no_except_key cs phost pszLog is
      })"

fun all_include_keys :: "CSLogSearch \<Rightarrow> u8 list \<Rightarrow> u8 list \<Rightarrow> nat list \<Rightarrow> bool option" where
  "all_include_keys cs phost pszLog [] = Some True"
| "all_include_keys cs phost pszLog (i # is) =
     (if strstr phost (c_str (m_stIncKey cs ! i)) then all_include_keys cs phost pszLog is
      else do {
        r \<leftarrow> bmh_is_match pszLog (m_stIncKey cs ! i) (m_stIncJmpTab cs ! i);
        if 0 \<le> r then all_include_keys cs phost pszLog is else Some False
      })"

definition IsLogMatch :: "CSLogSearch \<Rightarrow> TSLog \<Rightarrow> u8 list option \<Rightarrow> bool option" where
  "IsLogMatch cs pstLog pszLog = (case pszLog of
     None \<Rightarrow> Some (
       if m_iLogAppId cs \<noteq> 0 \<and> m_iLogAppId cs \<noteq> ts_iAppId pstLog then False
       else if m_iModuleIdCount cs \<noteq> 0 \<and> ts_iModuleId pstLog \<notin> set (take (nat (m_iModuleIdCount cs)) (m_arrLogModuleId cs)) then False
       else if ucast (ts_wLogType pstLog) AND m_iLogTypeFlag cs = 0 then False
       else if m_iReportMachine cs \<noteq> 0 \<and> m_iReportMachine cs \<noteq> ts_dwLogHost pstLog then False
       else True)
   | Some text \<Rightarrow> do {
       let phost = ipv4_addr_str (ts_dwLogHost pstLog);
       ok \<leftarrow> no_except_key cs phost text [0..<m_iExcpKeyCount cs];
       if \<not> ok then Some False else all_include_keys cs phost text [0..<m_iIncKeyCount cs]
     })"

subsection \<open>The newest logs\<close>

definition BWORLD_MAX_SHM_SLOG_COUNT :: u32 where "BWORLD_MAX_SHM_SLOG_COUNT = 10000"
definition sLogBuf_len :: nat where "sLogBuf_len = BWORLD_SLOG_MAX_LINE_LEN + 64"

text \<open>\<open>check_num\<close>: the number a little-endian processor reads from 4 bytes.\<close>

definition check_num :: "u8 list \<Rightarrow> u32" where
  "check_num bs = of_be (rev bs)"

definition log_bug_text :: "TSLog \<Rightarrow> int \<Rightarrow> string" where
  "log_bug_text l iLogIndex = '' logtime:'' @ dec (unat (ts_qwLogTime l)) @ '' index:'' @ show_int iLogIndex
     @ '' appid:'' @ show_int (sint (ts_iAppId l)) @ '' module:'' @ show_int (sint (ts_iModuleId l))
     @ '' loglevel:'' @ dec (unat (ts_wLogType l)) @ '' [some log content :''"

text \<open>
  \<open>GetShmLog\<close>: the text, the record (cut when the check fails) and the attributes that are counted. The function
  \<open>get\<close> that reads a string (index and room in; return code, bytes and attributes out) is an argument for the sake of the proofs,
  \<open>GetShmLog\<close> passes the \<open>MtReport_GetFromVmem\<close> of \<open>sv_vmem.cpp\<close>. A
  text of 256 characters without NUL is read on behind the array, and a text without room for
  the NUL written behind the buffer: both are \<open>None\<close>.
\<close>

definition shm_log :: "(int \<Rightarrow> int \<Rightarrow> 'v \<Rightarrow> (int \<times> u8 list \<times> nat list) option) \<Rightarrow> 'v \<Rightarrow> TSLog \<Rightarrow> int \<Rightarrow> (u8 list \<times> TSLog \<times> nat list) option" where
  "shm_log get v l iLogIndex =
     (if ts_iContentIndex l < 0 then
        if 0 \<notin> set (ts_sLogContent l) then None else Some (c_str (ts_sLogContent l), l, [])
      else do {
        let n = BWORLD_MEMLOG_BUF_LENGTH - 4;
        (rc, d, at) \<leftarrow> get (ts_iContentIndex l) (int (sLogBuf_len - n)) v;
        if rc < 0 then
          if 0 \<notin> set (ts_sLogContent l) then None
          else Some (take (sLogBuf_len - 1) (bytes (''bug: MtReport_GetFromVmem ret:'' @ show_int rc @ log_bug_text l iLogIndex)
                 @ c_str (ts_sLogContent l) @ bytes '']''), l, at @ [234])
        else if sLogBuf_len - n \<le> length d \<or> length d < 4 then None
        else let b = take n (ts_sLogContent l) @ d; dwCheck = check_num (take 4 (drop n (ts_sLogContent l))) in
          if dwCheck \<noteq> check_num (take 4 d) then
            let l = l\<lparr>ts_sLogContent := (ts_sLogContent l)[BWORLD_MEMLOG_BUF_LENGTH - 5 := 0]\<rparr>
            in Some (take (sLogBuf_len - 1) (bytes (''bug: check num:'' @ dec (unat dwCheck) @ '' != '' @ dec (unat (check_num (take 4 d)))
                 @ log_bug_text l iLogIndex) @ c_str (ts_sLogContent l) @ bytes '']''), l, at @ [235])
          else Some (c_str b, l, at)
      })"

definition GetShmLog :: "SvVmem \<Rightarrow> TSLog \<Rightarrow> int \<Rightarrow> (u8 list \<times> TSLog \<times> nat list) option" where
  "GetShmLog = shm_log Sv_GetFromVmem"

record TSLogOut =
  lo_cust :: MTLogCust
  lo_dwLogConfigId :: u32
  lo_dwLogHost :: u32
  lo_dwLogSeq :: u32
  lo_iAppId :: u32
  lo_iModuleId :: u32
  lo_wLogType :: u16
  lo_qwLogTime :: u64
  lo_pszLog :: "u8 list"

text \<open>The custom fields of the output: those that are set, the others zero. The flags are not copied.\<close>

definition out_cust :: "MTLogCust \<Rightarrow> MTLogCust" where
  "out_cust c =
     \<lparr>dwCust_1 = (if is_set MTLOG_CUST_FLAG_C1_SET c then dwCust_1 c else 0),
      dwCust_2 = (if is_set MTLOG_CUST_FLAG_C2_SET c then dwCust_2 c else 0),
      iCust_3 = (if is_set MTLOG_CUST_FLAG_C3_SET c then iCust_3 c else 0),
      iCust_4 = (if is_set MTLOG_CUST_FLAG_C4_SET c then iCust_4 c else 0),
      szCust_5 = (if is_set MTLOG_CUST_FLAG_C5_SET c then strncpy 15 (c_str (szCust_5 c)) (replicate 16 0) else replicate 16 0),
      szCust_6 = (if is_set MTLOG_CUST_FLAG_C6_SET c then strncpy 31 (c_str (szCust_6 c)) (replicate 32 0) else replicate 32 0),
      bCustFlag = 0\<rparr>"

definition log_out :: "TSLog \<Rightarrow> u8 list \<Rightarrow> TSLogOut" where
  "log_out l text = \<lparr>lo_cust = out_cust (ts_cust l), lo_dwLogConfigId = ts_dwLogConfigId l, lo_dwLogHost = ts_dwLogHost l,
     lo_dwLogSeq = ts_dwLogSeq l, lo_iAppId = ts_iAppId l, lo_iModuleId = ts_iModuleId l, lo_wLogType = ts_wLogType l,
     lo_qwLogTime = ts_qwLogTime l, lo_pszLog = text\<rparr>"

definition IS_SEQ_BIGER :: "u32 \<Rightarrow> u32 \<Rightarrow> bool" where
  "IS_SEQ_BIGER seq1 seq2 \<longleftrightarrow> seq2 < seq1 \<or> seq1 + BWORLD_MAX_SHM_SLOG_COUNT < seq2"

text \<open>
  The loop of \<open>RealTimeLog\<close> with at most \<open>n\<close> rounds left; \<open>mx\<close> is \<open>iLogMaxCount\<close> of the ring. The result is the
  index and output of the log that was found, the ring, and the attributes that are counted.
\<close>

fun realtime_loop :: "(int \<Rightarrow> int \<Rightarrow> 'v \<Rightarrow> (int \<times> u8 list \<times> nat list) option) \<Rightarrow> 'v \<Rightarrow> CSLogSearch \<Rightarrow> int \<Rightarrow> u32 \<Rightarrow> u64 \<Rightarrow> nat \<Rightarrow> int \<Rightarrow> TSLogShm \<Rightarrow> nat list
    \<Rightarrow> ((int \<times> TSLogOut) option \<times> TSLogShm \<times> nat list) option" where
  "realtime_loop get v cs mx seq qwTimeNow 0 j s at = Some (None, s, at)"
| "realtime_loop get v cs mx seq qwTimeNow (Suc n) j s at =
     (let j = (if j \<le> 0 then mx - 1 else j - 1) in
      if j < 0 \<or> length (sh_sLogList s) \<le> nat j then None
      else let l = sh_sLogList s ! nat j in
        if ts_qwLogTime l + m_qwRealTimeUsec cs < qwTimeNow \<or> ts_dwLogSeq l = 0 \<or> IS_SEQ_BIGER seq (ts_dwLogSeq l) \<and> seq \<noteq> 0
        then Some (None, s, at)
        else do {
          ok \<leftarrow> IsLogMatch cs l None;
          if \<not> ok then realtime_loop get v cs mx seq qwTimeNow n j s at
          else do {
            (text, l, at') \<leftarrow> shm_log get v l j;
            let s = s\<lparr>sh_sLogList := (sh_sLogList s)[nat j := l]\<rparr>;
            ok \<leftarrow> IsLogMatch cs l (Some text);
            if ok then Some (Some (j, log_out l text), s, at @ at')
            else realtime_loop get v cs mx seq qwTimeNow n j s (at @ at')
          }
        })"

text \<open>
  The ring of the search is attached (\<open>m_pShmLog\<close>); the second component of the result is the new value of
  \<open>iLastLogIndex\<close>.
\<close>

definition realtime_log :: "(int \<Rightarrow> int \<Rightarrow> 'v \<Rightarrow> (int \<times> u8 list \<times> nat list) option) \<Rightarrow> 'v \<Rightarrow> CSLogSearch \<Rightarrow> int \<Rightarrow> int \<Rightarrow> u32 \<Rightarrow> u64 \<Rightarrow> TSLogShm
    \<Rightarrow> (TSLogOut option \<times> int \<times> TSLogShm \<times> nat list) option" where
  "realtime_log get v cs mx iLastLogIndex seq qwTimeNow s =
     (if \<not> m_bInit cs then Some (None, iLastLogIndex, s, [])
      else do {
        (r, s, at) \<leftarrow> realtime_loop get v cs mx seq qwTimeNow (max 1 (nat mx))
           (if iLastLogIndex < 0 then sh_iWriteIndex s else iLastLogIndex) s [];
        Some (case r of None \<Rightarrow> (None, iLastLogIndex, s, at) | Some (j, out) \<Rightarrow> (Some out, j, s, at))
      })"

definition RealTimeLog :: "SvVmem \<Rightarrow> CSLogSearch \<Rightarrow> int \<Rightarrow> int \<Rightarrow> u32 \<Rightarrow> u64 \<Rightarrow> TSLogShm
    \<Rightarrow> (TSLogOut option \<times> int \<times> TSLogShm \<times> nat list) option" where
  "RealTimeLog = realtime_log Sv_GetFromVmem"

end
