(* ===== verification/Agent_Read.thy ===== *)
theory Agent_Read
  imports Agent Log_Ring
begin

text \<open>
  What \<open>ReadAppLogToBuf\<close> does with a readable record: the bytes it queues, the strings it releases,
  and that it neither runs out of its buffer nor fails its assertions.
\<close>

subsection \<open>Buffers\<close>

lemma put_at_run:
  assumes "off + length bs \<le> length buf"
  shows "put_at off bs buf = Some (take off buf @ bs @ drop (off + length bs) buf)"
    "length (take off buf @ bs @ drop (off + length bs) buf) = length buf"
  using assms by (simp_all add: put_at_def)

lemma be_length [simp]: "length (be16 x) = 2" "length (be32 y) = 4" "length (be64 z) = 8"
  by (simp_all add: be16_def be32_def be64_def)

lemma log_head_length [simp]: "length (log_head l c t) = sizeof_LogInfo"
  by (simp add: log_head_def sizeof_LogInfo_def)

lemma cust_bytes_length: "length (cust_bytes c) \<le> 65" "cust_bytes c \<noteq> []"
  by (auto simp: cust_bytes_def be32_def)

subsection \<open>Reading a record\<close>

text \<open>The bytes of custom fields and text that a record stands for; \<open>st\<close> is the byte behind a long text.\<close>

definition cust_part :: "MTLogCust \<Rightarrow> MTLog \<Rightarrow> u8 list" where
  "cust_part cu l = (if 0 < iCustVmemIndex l then cust_bytes cu else [])"

definition text_part :: "u8 \<Rightarrow> u8 list \<Rightarrow> MTLog \<Rightarrow> u8 list" where
  "text_part st tx l = tx @ [if iVarmemIndex l < 0 then 0 else st]"

definition packed :: "MTLogCust \<Rightarrow> u8 \<Rightarrow> u8 list \<Rightarrow> MTLog \<Rightarrow> u8 list" where
  "packed cu st tx l = log_head l (length (cust_part cu l)) (length (text_part st tx l)) @ cust_part cu l @ text_part st tx l"

text \<open>The record and the string store afterwards.\<close>

definition taken :: "MTLog \<Rightarrow> MTLog" where
  "taken l = l\<lparr>iCustVmemIndex := (if 0 < iCustVmemIndex l then 0 else iCustVmemIndex l),
     iVarmemIndex := (if iVarmemIndex l < 0 then iVarmemIndex l else 0)\<rparr>"

definition released :: "MTLog \<Rightarrow> (int \<Rightarrow> u8 list option) \<Rightarrow> int \<Rightarrow> u8 list option" where
  "released l m = (\<lambda>i. if 0 < i \<and> (i = iCustVmemIndex l \<or> i = iVarmemIndex l) then None else m i)"

lemma vmem_read:
  assumes "vmem_rep v m" "m i = Some b" "length b \<le> room"
  shows "MtReport_GetFromVmem (word_of_int i) room v = Some (0, b)"
    and "\<exists>rc v'. MtReport_FreeVmem clk (word_of_int i) v = Some (rc, v') \<and> vmem_rep v' (m(i := None))"
proof -
  show "MtReport_GetFromVmem (word_of_int i) room v = Some (0, b)"
    using assms MtReport_GetFromVmem_contents(1) by (auto simp: vmem_rep_def split: if_splits)
  show "\<exists>rc v'. MtReport_FreeVmem clk (word_of_int i) v = Some (rc, v') \<and> vmem_rep v' (m(i := None))"
    using vm.release_law [OF assms(1,2), of clk] by auto
qed

lemma read_cust_run:
  assumes rep: "vmem_rep v m" and rd: "log_readable cu m l" and buf: "length buf = agent_buf_size"
  shows "\<exists>v' buf'. read_cust clk l v buf = Some (length (cust_part cu l), l\<lparr>iCustVmemIndex := iCustVmemIndex (taken l)\<rparr>, v', buf') \<and>
    vmem_rep v' (if 0 < iCustVmemIndex l then m(iCustVmemIndex l := None) else m) \<and> length buf' = agent_buf_size \<and>
    take (length (cust_part cu l)) (drop sizeof_LogInfo buf') = cust_part cu l"
proof (cases "0 < iCustVmemIndex l")
  case True
  let ?b = "cust_bytes cu"
  have len: "length ?b \<le> agent_buf_size - sizeof_LogInfo" "sizeof_LogInfo + length ?b \<le> length buf"
    using cust_bytes_length(1) [of cu] buf by (simp_all add: agent_buf_size_def MTREPORT_LOG_MAX_LENGTH_def sizeof_LogInfo_def)
  have m: "m (iCustVmemIndex l) = Some ?b" using rd True by (simp add: log_readable_def)
  obtain rc v' where free: "MtReport_FreeVmem clk (word_of_int (iCustVmemIndex l)) v = Some (rc, v')"
    "vmem_rep v' (m(iCustVmemIndex l := None))"
    using vmem_read(2) [OF rep m len(1)] by blast
  have "read_cust clk l v buf = Some (length ?b, l\<lparr>iCustVmemIndex := 0\<rparr>, v',
      take sizeof_LogInfo buf @ ?b @ drop (sizeof_LogInfo + length ?b) buf)"
    using True vmem_read(1) [OF rep m len(1)] put_at_run(1) [OF len(2)] free(1) by (simp add: read_cust_def)
  then show ?thesis
    using True free(2) put_at_run(2) [OF len(2)] buf len(2) by (simp add: cust_part_def taken_def)
next
  case False
  then show ?thesis using rep buf by (simp add: read_cust_def cust_part_def taken_def)
qed

lemma read_text_run:
  assumes rep: "vmem_rep v m" and tx: "log_text m l = Some tx" and full: "full_record l"
    and src: "iVarmemIndex l < 0 \<and> 0 \<in> set (sLogContent l) \<or>
      0 < iVarmemIndex l \<and> (\<exists>t. m (iVarmemIndex l) = Some t \<and> length t \<le> 803)"
    and buf: "length buf = agent_buf_size" "use \<le> 95"
  shows "\<exists>v' buf' st. read_text clk use l v buf = Some (length (text_part st tx l), l\<lparr>iVarmemIndex := iVarmemIndex (taken l)\<rparr>, v', buf') \<and>
    vmem_rep v' (if iVarmemIndex l < 0 then m else m(iVarmemIndex l := None)) \<and> length buf' = agent_buf_size \<and>
    take use buf' = take use buf \<and> take (length (text_part st tx l)) (drop use buf') = text_part st tx l \<and>
    length tx \<le> 1055"
proof -
  have sz: "agent_buf_size = 1280" by (simp add: agent_buf_size_def MTREPORT_LOG_MAX_LENGTH_def)
  show ?thesis
  proof (cases "iVarmemIndex l < 0")
    case True
    have t: "tx = c_str (sLogContent l)" "0 \<in> set (sLogContent l)" using True tx src by (auto simp: log_text_def)
    have "length tx \<le> 256" unfolding t(1) c_str_def using full length_takeWhile_le [of "\<lambda>c. c \<noteq> 0" "sLogContent l"] by simp
    then have len: "use + length (tx @ [0]) \<le> length buf" "length tx \<le> 1055" using buf sz by simp_all
    have "read_text clk use l v buf = Some (length tx + 1, l, v, take use buf @ (tx @ [0]) @ drop (use + length (tx @ [0])) buf)"
      using True t put_at_run(1) [OF len(1)] by (simp add: read_text_def)
    then show ?thesis
      using True rep put_at_run(2) [OF len(1)] len buf by (simp add: text_part_def taken_def)
  next
    case False
    then obtain t where t: "m (iVarmemIndex l) = Some t" "length t \<le> 803" "tx = take 252 (sLogContent l) @ t"
      using src tx by (auto simp: log_text_def)
    let ?h = "take 252 (sLogContent l)"
    have h: "length ?h = 252" using full by simp
    define b1 where "b1 = take use buf @ ?h @ drop (use + length ?h) buf"
    have p1: "use + length ?h \<le> length buf" using buf sz h by simp
    have b1: "put_at use ?h buf = Some b1" "length b1 = 1280" using put_at_run [OF p1] buf(1) sz by (simp_all add: b1_def)
    have room: "length t \<le> agent_buf_size - use - 252 - 1" using t(2) buf(2) sz by simp
    have p2: "use + 252 + length t \<le> length b1" using b1(2) t(2) buf(2) by simp
    define b2 where "b2 = take (use + 252) b1 @ t @ drop (use + 252 + length t) b1"
    have b2: "put_at (use + 252) t b1 = Some b2" "length b2 = 1280" using put_at_run [OF p2] b1(2) by (simp_all add: b2_def)
    obtain rc v' where free: "MtReport_FreeVmem clk (word_of_int (iVarmemIndex l)) v = Some (rc, v')"
      "vmem_rep v' (m(iVarmemIndex l := None))"
      using vmem_read(2) [OF rep t(1) room] by blast
    have run: "read_text clk use l v buf = Some (252 + length t + 1, l\<lparr>iVarmemIndex := 0\<rparr>, v', b2)"
      using False vmem_read(1) [OF rep t(1) room] b1(1) b2(1) free(1) by (simp add: read_text_def iShmLogBufLen_def)
    have "take (use + 252) b1 = take use buf @ ?h" using p1 h by (simp add: b1_def)
    then have shape: "b2 = take use buf @ tx @ drop (use + 252 + length t) b1" by (simp add: b2_def t(3))
    have "drop (use + 252 + length t) b1 \<noteq> []" using b1(2) t(2) buf(2) by simp
    then obtain st r where st: "b2 = take use buf @ tx @ st # r" using shape by (cases "drop (use + 252 + length t) b1") auto
    have us: "length (take use buf) = use" using p1 by simp
    have "take use b2 = take use buf" "take (length (text_part st tx l)) (drop use b2) = text_part st tx l"
      unfolding st text_part_def using False us by simp_all
    then show ?thesis
      using False run free(2) b2(2) sz h t(2,3) by (intro exI [of _ v'] exI [of _ b2] exI [of _ st]) (simp add: taken_def text_part_def)
  qed
qed

lemma append_read_same:
  assumes "append_read app bs rs = Some rs'"
  shows "length rs' = length rs"
  using assms by (induction rs arbitrary: rs') (auto split: if_splits)

lemma queue_log_run:
  assumes "length bs < MAX_APP_LOG_PKG_LENGTH"
  shows "\<exists>rc a'. queue_log app bs a = Some (rc, a') \<and> (rc = 0 \<or> rc = -1) \<and> ag_lw a' = ag_lw a \<and> ag_buf a' = ag_buf a \<and>
    stAppConfigList a' = stAppConfigList a"
  using assms by (auto simp: queue_log_def split: option.splits)

text \<open>
  A readable record is packed, whatever the buffer held before; its strings are released, and the
  call returns.
\<close>

lemma ReadAppLogToBuf_run:
  assumes rep: "vmem_rep (lw_vmem (ag_lw a)) m" and rd: "log_readable cu m l" and tx: "log_text m l = Some tx"
    and full: "full_record l" and ids: "iAppId l \<noteq> 0" "iModuleId l \<noteq> 0" and buf: "length (ag_buf a) = agent_buf_size"
  shows "\<exists>rc a' a1 st. ReadAppLogToBuf clk l a = Some (rc, taken l, a') \<and>
    queue_log (iAppId l) (packed cu st tx l) a1 = Some (rc, a') \<and> (rc = 0 \<or> rc = -1) \<and>
    stAppLogRead a1 = stAppLogRead a \<and> stAppConfigList a1 = stAppConfigList a \<and> length (packed cu st tx l) < MAX_APP_LOG_PKG_LENGTH \<and>
    length (ag_buf a') = agent_buf_size \<and> vmem_rep (lw_vmem (ag_lw a')) (released l m) \<and>
    (\<exists>v. ag_lw a' = (ag_lw a)\<lparr>lw_vmem := v\<rparr>)"
proof -
  let ?c = "cust_part cu l" and ?m1 = "if 0 < iCustVmemIndex l then m(iCustVmemIndex l := None) else m"
  let ?l1 = "l\<lparr>iCustVmemIndex := iCustVmemIndex (taken l)\<rparr>"
  obtain v1 b1 where c: "read_cust clk l (lw_vmem (ag_lw a)) (ag_buf a) = Some (length ?c, ?l1, v1, b1)"
    "vmem_rep v1 ?m1" "length b1 = agent_buf_size" "take (length ?c) (drop sizeof_LogInfo b1) = ?c"
    using read_cust_run [OF rep rd buf] by blast
  have lc: "length ?c \<le> 65" using cust_bytes_length(1) [of cu] by (simp add: cust_part_def)
  have l1: "log_text ?m1 ?l1 = Some tx" "full_record ?l1" "iVarmemIndex ?l1 < 0 \<and> 0 \<in> set (sLogContent ?l1) \<or>
      0 < iVarmemIndex ?l1 \<and> (\<exists>t. ?m1 (iVarmemIndex ?l1) = Some t \<and> length t \<le> 803)"
    using tx full rd by (auto simp: log_text_def log_readable_def split: if_splits)
  have use: "sizeof_LogInfo + length ?c \<le> 95" using lc by (simp add: sizeof_LogInfo_def)
  obtain v2 b2 st where t: "read_text clk (sizeof_LogInfo + length ?c) ?l1 v1 b1 =
      Some (length (text_part st tx ?l1), ?l1\<lparr>iVarmemIndex := iVarmemIndex (taken ?l1)\<rparr>, v2, b2)"
    "vmem_rep v2 (if iVarmemIndex ?l1 < 0 then ?m1 else ?m1(iVarmemIndex ?l1 := None))" "length b2 = agent_buf_size"
    "take (sizeof_LogInfo + length ?c) b2 = take (sizeof_LogInfo + length ?c) b1"
    "take (length (text_part st tx ?l1)) (drop (sizeof_LogInfo + length ?c) b2) = text_part st tx ?l1" "length tx \<le> 1055"
    using read_text_run [OF c(2) l1 c(3) use, of clk] by blast
  let ?t = "text_part st tx l"
  have simps: "text_part st tx ?l1 = ?t" "?l1\<lparr>iVarmemIndex := iVarmemIndex (taken ?l1)\<rparr> = taken l"
    by (simp_all add: text_part_def taken_def)
  let ?n = "sizeof_LogInfo + length ?c + length ?t"
  have n: "?n \<le> 1151" using lc t(6) by (simp add: sizeof_LogInfo_def text_part_def)
  let ?h = "log_head (taken l) (length ?c) (length ?t)"
  have h: "?h = log_head l (length ?c) (length ?t)" by (simp add: log_head_def taken_def)
  have p: "0 + length ?h \<le> length b2" using t(3) by (simp add: agent_buf_size_def MTREPORT_LOG_MAX_LENGTH_def sizeof_LogInfo_def)
  define b3 where "b3 = ?h @ drop sizeof_LogInfo b2"
  have b3: "put_at 0 ?h b2 = Some b3" "length b3 = agent_buf_size" using put_at_run [OF p] t(3) by (simp_all add: b3_def)
  have "take (length ?c + length ?t) (drop sizeof_LogInfo b2) = ?c @ ?t"
  proof -
    have "take (length ?c) (drop sizeof_LogInfo b2) = ?c"
      using c(4) t(4) by (metis add.commute drop_take take_drop)
    then show ?thesis using t(5) by (simp add: simps take_add add.commute)
  qed
  then have bytes: "take ?n b3 = packed cu st tx l" by (simp add: b3_def packed_def h add.assoc)
  have len: "length (packed cu st tx l) < MAX_APP_LOG_PKG_LENGTH"
    using n by (simp add: packed_def MAX_APP_LOG_PKG_LENGTH_def sizeof_LogInfo_def)
  let ?a1 = "a\<lparr>ag_lw := (ag_lw a)\<lparr>lw_vmem := v2\<rparr>, ag_buf := b3\<rparr>"
  obtain rc a' where q: "queue_log (iAppId l) (packed cu st tx l) ?a1 = Some (rc, a')" "rc = 0 \<or> rc = -1"
    "ag_lw a' = ag_lw ?a1" "ag_buf a' = b3"
    using queue_log_run [OF len, of "iAppId l" ?a1] by auto
  have run: "ReadAppLogToBuf clk l a = Some (rc, taken l, a')"
    unfolding ReadAppLogToBuf_def using ids c(1) t(1) b3(1) q(1) bytes by (simp add: simps taken_def [symmetric]) (simp add: taken_def)
  have "(if iVarmemIndex l < 0 then ?m1 else ?m1(iVarmemIndex l := None)) = released l m"
    using rd by (auto simp: released_def log_readable_def fun_eq_iff)
  moreover have idx: "iVarmemIndex ?l1 = iVarmemIndex l" by simp
  ultimately have "vmem_rep v2 (released l m)" using t(2) unfolding idx by simp
  moreover have "lw_vmem (ag_lw a') = v2" using q(3) by simp
  ultimately have "vmem_rep (lw_vmem (ag_lw a')) (released l m)" by simp
  moreover have "stAppLogRead ?a1 = stAppLogRead a" "stAppConfigList ?a1 = stAppConfigList a"
    "length (ag_buf a') = agent_buf_size" "ag_lw a' = (ag_lw a)\<lparr>lw_vmem := v2\<rparr>"
    using q(3,4) b3(2) by simp_all
  ultimately show ?thesis using run q(1,2) len by blast
qed

end
