(* ===== verification/Server_Wire.thy ===== *)
theory Server_Wire
  imports Server Agent_Read "HOL-Library.Multiset"
begin

text \<open>
  The packets of the agent as the server takes them apart: integers in network byte order, single
  records, and the concatenation of records in a packet.
\<close>

subsection \<open>Integers\<close>

lemma of_be_append: "of_be (bs @ cs) = push_bit (8 * length cs) (of_be bs) OR (of_be cs :: 'a :: len word)"
proof -
  have "foldl (\<lambda>x b. push_bit 8 x OR ucast b) y cs = push_bit (8 * length cs) y OR (of_be cs :: 'a word)" for y
  proof (induction cs rule: rev_induct)
    case (snoc c cs)
    have "foldl (\<lambda>x b. push_bit 8 x OR ucast b) y (cs @ [c]) = push_bit 8 (push_bit (8 * length cs) y OR of_be cs) OR ucast c"
      by (simp only: foldl_append foldl.simps snoc)
    also have "\<dots> = push_bit (8 + 8 * length cs) y OR (push_bit 8 (of_be cs) OR ucast c)"
      by (simp add: push_bit_or or.assoc add.commute)
    also have "\<dots> = push_bit (8 * length (cs @ [c])) y OR of_be (cs @ [c])" by (simp add: of_be_def)
    finally show ?case .
  qed (simp add: of_be_def)
  from this [of "of_be bs"] show ?thesis by (subst of_be_def) (simp only: foldl_append of_be_def [of bs, symmetric])
qed

lemma bit_of_be_be32: "bit (of_be (be32 y) :: 'a :: len word) n \<longleftrightarrow> n < LENGTH('a) \<and> bit y n"
proof -
  consider "n < 8" | "8 \<le> n" "n < 16" | "16 \<le> n" "n < 24" | "24 \<le> n" "n < 32" | "32 \<le> n" by linarith
  then show ?thesis by cases (auto simp: of_be_def be32_def bit_simps dest: bit_imp_le_length)
qed

lemma of_be_be16 [simp]: "of_be (be16 x) = (x :: u16)"
  by (rule bit_word_eqI) (auto simp: of_be_def be16_def bit_simps)

lemma of_be_be32 [simp]: "of_be (be32 x) = (x :: u32)"
  by (rule bit_word_eqI) (simp add: bit_of_be_be32)

lemma of_be_be64 [simp]: "of_be (be64 x) = (x :: u64)"
proof (rule bit_word_eqI)
  fix n assume "n < LENGTH(64)"
  then show "bit (of_be (be64 x) :: u64) n = bit x n"
    by (cases "n < 32") (auto simp: be64_def of_be_append bit_of_be_be32 bit_simps)
qed

lemma u16_of_nat: "n < 2 ^ 16 \<Longrightarrow> unat (of_nat n :: u16) = n"
  by (simp add: unat_of_nat)

subsection \<open>Records\<close>

text \<open>The record with \<open>sLog\<close> cut to its own bytes; a byte list that is exactly one record.\<close>

definition log_view :: "LogInfo \<Rightarrow> LogInfo" where
  "log_view p = p\<lparr>li_sLog := take (log_size p - sizeof_LogInfo) (li_sLog p)\<rparr>"

definition item_ok :: "u8 list \<Rightarrow> bool" where
  "item_ok b \<longleftrightarrow> sizeof_LogInfo < length b \<and> log_size (LogInfoNtoH b) = length b"

lemma LogInfoNtoH_append:
  assumes "sizeof_LogInfo \<le> length b"
  shows "LogInfoNtoH (b @ r) = (LogInfoNtoH b)\<lparr>li_sLog := drop sizeof_LogInfo b @ r\<rparr>"
proof -
  have "30 \<le> length b" using assms by (simp add: sizeof_LogInfo_def)
  then show ?thesis by (simp add: LogInfoNtoH_def sizeof_LogInfo_def)
qed

lemma log_view_item:
  assumes "item_ok b"
  shows "log_size (LogInfoNtoH (b @ r)) = length b" "log_view (LogInfoNtoH (b @ r)) = LogInfoNtoH b"
proof -
  have b: "sizeof_LogInfo < length b" "log_size (LogInfoNtoH b) = length b" using assms by (simp_all add: item_ok_def)
  note app = LogInfoNtoH_append [OF less_imp_le [OF b(1)], of r]
  show sz: "log_size (LogInfoNtoH (b @ r)) = length b" using b(2) unfolding app by (simp add: log_size_def)
  have "LogInfoNtoH b = (LogInfoNtoH b)\<lparr>li_sLog := drop sizeof_LogInfo b\<rparr>" by (simp add: LogInfoNtoH_def)
  then show "log_view (LogInfoNtoH (b @ r)) = LogInfoNtoH b"
    unfolding log_view_def sz unfolding app using b(1) by simp
qed

lemma split_concat:
  assumes "\<forall>b\<in>set bs. item_ok b"
  shows "snd (split_logs (concat bs))" "map log_view (fst (split_logs (concat bs))) = map LogInfoNtoH bs"
proof -
  have "snd (split_logs (concat bs)) \<and> map log_view (fst (split_logs (concat bs))) = map LogInfoNtoH bs"
    using assms
  proof (induction bs)
    case Nil
    then show ?case by (simp add: split_logs.simps)
  next
    case (Cons b bs)
    note it = log_view_item [of b "concat bs"]
    have "sizeof_LogInfo < length (b @ concat bs)" using Cons.prems by (simp add: item_ok_def)
    then have "split_logs (concat (b # bs)) =
        (case split_logs (concat bs) of (ps, ok) \<Rightarrow> (LogInfoNtoH (b @ concat bs) # ps, ok))"
      using it(1) Cons.prems by (subst split_logs.simps) simp
    then show ?case using Cons it(2) by (simp split: prod.splits)
  qed
  then show "snd (split_logs (concat bs))" "map log_view (fst (split_logs (concat bs))) = map LogInfoNtoH bs" by simp_all
qed

text \<open>What the server sees of a record that the agent packed.\<close>

definition sent :: "MTLogCust \<Rightarrow> u8 \<Rightarrow> u8 list \<Rightarrow> MTLog \<Rightarrow> LogInfo" where
  "sent cu st tx l = \<lparr>li_dwLogSeq = dwLogSeq l, li_iAppId = iAppId l, li_iModuleId = iModuleId l,
     li_dwLogConfigId = dwLogConfigId l, li_wLogType = wLogType l, li_qwLogTime = qwLogTime l,
     li_wCustDataLen = of_nat (length (cust_part cu l)), li_wLogDataLen = of_nat (length (text_part st tx l)),
     li_sLog = cust_part cu l @ text_part st tx l\<rparr>"

lemma packed_sent:
  assumes "length (packed cu st tx l) < MAX_APP_LOG_PKG_LENGTH"
  shows "LogInfoNtoH (packed cu st tx l) = sent cu st tx l" "item_ok (packed cu st tx l)"
proof -
  show 1: "LogInfoNtoH (packed cu st tx l) = sent cu st tx l"
    by (simp add: LogInfoNtoH_def packed_def log_head_def sent_def sizeof_LogInfo_def take_append drop_append)
  have "length (cust_part cu l) < 2 ^ 16" "length (text_part st tx l) < 2 ^ 16"
    using assms by (simp_all add: packed_def MAX_APP_LOG_PKG_LENGTH_def)
  then show "item_ok (packed cu st tx l)"
    unfolding item_ok_def 1 log_size_def sent_def using u16_of_nat [of "length (text_part st tx l)"] u16_of_nat [of "length (cust_part cu l)"]
    by (simp add: packed_def text_part_def del: of_nat_Suc)
qed

subsection \<open>Packets\<close>

definition packet_ok :: "TAppLogRead \<Rightarrow> bool" where
  "packet_ok r \<longleftrightarrow> (\<exists>bs. sAppLogBuf r = concat bs \<and> (\<forall>b\<in>set bs. item_ok b))"

definition packet_logs :: "TAppLogRead \<Rightarrow> LogInfo list" where
  "packet_logs r = map log_view (fst (split_logs (sAppLogBuf r)))"

lemma packet_logs_app:
  assumes "packet_ok r" "item_ok b"
  shows "packet_ok (r\<lparr>sAppLogBuf := sAppLogBuf r @ b\<rparr>)" "packet_logs (r\<lparr>sAppLogBuf := sAppLogBuf r @ b\<rparr>) = packet_logs r @ [LogInfoNtoH b]"
proof -
  obtain bs where bs: "sAppLogBuf r = concat bs" "\<forall>b\<in>set bs. item_ok b" using assms(1) by (auto simp: packet_ok_def)
  then have bs': "sAppLogBuf r @ b = concat (bs @ [b])" "\<forall>b\<in>set (bs @ [b]). item_ok b" using assms(2) by auto
  then show "packet_ok (r\<lparr>sAppLogBuf := sAppLogBuf r @ b\<rparr>)" unfolding packet_ok_def by (metis TAppLogRead.select_convs(3) TAppLogRead.surjective TAppLogRead.update_convs(3))
  show "packet_logs (r\<lparr>sAppLogBuf := sAppLogBuf r @ b\<rparr>) = packet_logs r @ [LogInfoNtoH b]"
    using split_concat(2) [OF bs'(2)] split_concat(2) [OF bs(2)] by (simp add: packet_logs_def bs(1))
qed

definition agent_logs :: "Agent \<Rightarrow> LogInfo list" where
  "agent_logs a = concat (map packet_logs (stAppLogRead a))"

lemma append_read_logs:
  assumes "append_read app b rs = Some rs'" "\<forall>r\<in>set rs. packet_ok r" "item_ok b"
  shows "\<forall>r\<in>set rs'. packet_ok r" "mset (concat (map packet_logs rs')) = add_mset (LogInfoNtoH b) (mset (concat (map packet_logs rs)))"
proof -
  have "(\<forall>r\<in>set rs'. packet_ok r) \<and> mset (concat (map packet_logs rs')) = add_mset (LogInfoNtoH b) (mset (concat (map packet_logs rs)))"
    using assms(1,2)
  proof (induction rs arbitrary: rs')
    case (Cons r rs)
    show ?case
    proof (cases "iReadAppId r = app \<and> length b \<le> MAX_APP_LOG_PKG_LENGTH - length (sAppLogBuf r)")
      case True
      then show ?thesis using Cons.prems packet_logs_app [of r b] assms(3) by auto
    next
      case False
      then obtain rs2 where "append_read app b rs = Some rs2" "rs' = r # rs2" using Cons.prems(1) by auto
      then show ?thesis using Cons.IH [of rs2] Cons.prems(2) by simp
    qed
  qed simp
  then show "\<forall>r\<in>set rs'. packet_ok r" "mset (concat (map packet_logs rs')) = add_mset (LogInfoNtoH b) (mset (concat (map packet_logs rs)))"
    by simp_all
qed

lemma find_app_some: "app \<in> set xs \<Longrightarrow> \<exists>i. find_app app k xs = Some i"
  by (induction xs arbitrary: k) auto

lemma queue_log_logs:
  assumes q: "queue_log app b a = Some (rc, a')" and ok: "\<forall>r\<in>set (stAppLogRead a). packet_ok r" "item_ok b"
    and app: "app \<in> set (stAppConfigList a)"
  shows "\<forall>r\<in>set (stAppLogRead a'). packet_ok r"
    "mset (agent_logs a') = mset (agent_logs a) + (if rc = 0 then {#LogInfoNtoH b#} else {#})"
proof -
  obtain i where i: "find_app app 0 (stAppConfigList a) = Some i" using find_app_some [OF app] by blast
  let ?n = "\<lparr>iReadAppId = app, iAppInfoIdx = i, sAppLogBuf = b\<rparr>"
  have b: "\<forall>c\<in>set [b]. item_ok c" using ok(2) by simp
  have new: "packet_ok ?n" "packet_logs ?n = [LogInfoNtoH b]"
    using split_concat(2) [OF b] b by (auto simp: packet_ok_def packet_logs_def intro: exI [of _ "[b]"])
  have "(\<forall>r\<in>set (stAppLogRead a'). packet_ok r) \<and>
      mset (agent_logs a') = mset (agent_logs a) + (if rc = 0 then {#LogInfoNtoH b#} else {#})"
  proof (cases "append_read app b (stAppLogRead a)")
    case None
    then show ?thesis using q i ok new by (auto simp: queue_log_def agent_logs_def split: if_splits)
  next
    case (Some rs)
    then show ?thesis using q append_read_logs [OF Some ok] by (auto simp: queue_log_def agent_logs_def)
  qed
  then show "\<forall>r\<in>set (stAppLogRead a'). packet_ok r"
    "mset (agent_logs a') = mset (agent_logs a) + (if rc = 0 then {#LogInfoNtoH b#} else {#})" by simp_all
qed

end
