(* ===== verification/Agent_Drain.thy ===== *)
theory Agent_Drain
  imports Server_Wire
begin

text \<open>
  The agent's loop over a ring: the records that are pending in it, and that the loop hands them
  on one by one until none is left or the packets are full.
\<close>

subsection \<open>One record\<close>

lemma ReadAppLogToBuf_logs:
  assumes rep: "vmem_rep (lw_vmem (ag_lw a)) m" and rd: "log_readable cu m l" "log_text m l = Some tx" "full_record l"
    and ids: "iAppId l \<noteq> 0" "iModuleId l \<noteq> 0" "iAppId l \<in> set (stAppConfigList a)"
    and ag: "length (ag_buf a) = agent_buf_size" "\<forall>r\<in>set (stAppLogRead a). packet_ok r"
  shows "\<exists>rc a' st. ReadAppLogToBuf clk l a = Some (rc, taken l, a') \<and> (rc = 0 \<or> rc = -1) \<and>
    (\<forall>r\<in>set (stAppLogRead a'). packet_ok r) \<and> length (ag_buf a') = agent_buf_size \<and>
    mset (agent_logs a') = mset (agent_logs a) + (if rc = 0 then {#sent cu st tx l#} else {#}) \<and>
    stAppConfigList a' = stAppConfigList a \<and>
    (\<exists>v. ag_lw a' = (ag_lw a)\<lparr>lw_vmem := v\<rparr> \<and> vmem_rep v (released l m))"
proof -
  obtain rc a' a1 st where r: "ReadAppLogToBuf clk l a = Some (rc, taken l, a')"
    "queue_log (iAppId l) (packed cu st tx l) a1 = Some (rc, a')" "rc = 0 \<or> rc = -1"
    "stAppLogRead a1 = stAppLogRead a" "stAppConfigList a1 = stAppConfigList a"
    "length (packed cu st tx l) < MAX_APP_LOG_PKG_LENGTH"
    "length (ag_buf a') = agent_buf_size" "vmem_rep (lw_vmem (ag_lw a')) (released l m)"
    "\<exists>v. ag_lw a' = (ag_lw a)\<lparr>lw_vmem := v\<rparr>"
    using ReadAppLogToBuf_run [OF rep rd ids(1,2) ag(1), of clk] by blast
  note p = packed_sent [OF r(6)]
  have "agent_logs a1 = agent_logs a" using r(4) by (simp add: agent_logs_def)
  then have "\<forall>r\<in>set (stAppLogRead a'). packet_ok r"
    "mset (agent_logs a') = mset (agent_logs a) + (if rc = 0 then {#sent cu st tx l#} else {#})"
    using queue_log_logs [OF r(2)] ag(2) p ids(3) r(4,5) by auto
  moreover have "stAppConfigList a' = stAppConfigList a" using queue_log_run [OF r(6), of "iAppId l" a1] r(2,5) by simp
  moreover obtain v where "ag_lw a' = (ag_lw a)\<lparr>lw_vmem := v\<rparr>" using r(9) by blast
  ultimately show ?thesis using r(1,3,7,8) by (intro exI [of _ rc] exI [of _ a'] exI [of _ st]) auto
qed

subsection \<open>Pending records\<close>

definition pend_count :: "MTLogShm \<Rightarrow> nat" where
  "pend_count r = (if iLogStarIndex r < 0 then 0 else nat ((iWriteIndex r - iLogStarIndex r) mod MTLOG_SHM_RECORDS_COUNT))"

definition pending :: "MTLogShm \<Rightarrow> MTLog list" where
  "pending r = map (\<lambda>j. sLogList r ! nat ((iLogStarIndex r + int j) mod MTLOG_SHM_RECORDS_COUNT)) [0..<pend_count r]"

definition star_ok :: "MTLogShm \<Rightarrow> bool" where
  "star_ok r \<longleftrightarrow> iLogStarIndex r < MTLOG_SHM_RECORDS_COUNT"

lemma next_idx_mod: "0 \<le> i \<Longrightarrow> i < n \<Longrightarrow> next_idx n i = (i + 1) mod n"
  by (auto simp: next_idx_def) (metis add.commute add_le_cancel_left dual_order.antisym mod_self zless_imp_add1_zle)

lemma mod_count:
  assumes "0 \<le> s" "s < N" "0 \<le> w" "w < N" "s \<noteq> w"
  shows "nat ((w - s) mod N) = Suc (nat ((w - (s + 1) mod N) mod N))"
proof -
  have "(w - (s + 1) mod N) mod N = ((w - s) - 1) mod N" by (metis diff_diff_eq mod_diff_right_eq)
  moreover have "0 < (w - s) mod N"
  proof -
    have "w mod N \<noteq> s mod N" using assms by simp
    then have "\<not> N dvd w - s" by (simp add: mod_eq_dvd_iff)
    then show ?thesis using assms by (simp add: dvd_eq_mod_eq_0 order.strict_iff_order)
  qed
  moreover have "((w - s) - 1) mod N = (w - s) mod N - 1"
  proof -
    have "((w - s) mod N - 1) mod N = (w - s) mod N - 1"
      using calculation(2) assms by (intro mod_pos_pos_trivial) (use pos_mod_bound [of N "w - s"] in linarith)+
    then show ?thesis by (simp add: mod_diff_left_eq)
  qed
  ultimately show ?thesis by (simp add: nat_diff_distrib)
qed

lemma pending_next:
  assumes r: "ring_ok r" "star_ok r" "0 \<le> iLogStarIndex r" "iLogStarIndex r \<noteq> iWriteIndex r"
  shows "pending r = sLogList r ! nat (iLogStarIndex r) #
    pending (r\<lparr>sLogList := (sLogList r)[nat (iLogStarIndex r) := l], iLogStarIndex := next_idx MTLOG_SHM_RECORDS_COUNT (iLogStarIndex r)\<rparr>)"
    (is "_ = _ # pending ?r")
proof -
  let ?N = "MTLOG_SHM_RECORDS_COUNT" and ?s = "iLogStarIndex r"
  have N: "?N = 10000" by (simp add: MTLOG_SHM_RECORDS_COUNT_def)
  have s: "0 \<le> ?s" "?s < ?N" "0 \<le> iWriteIndex r" "iWriteIndex r < ?N" using r by (simp_all add: ring_ok_def star_ok_def)
  have nx: "next_idx ?N ?s = (?s + 1) mod ?N" using next_idx_mod [OF s(1,2)] .
  have n: "pend_count r = Suc (pend_count ?r)"
    using mod_count [OF s r(4)] s nx by (simp add: pend_count_def N)
  have lt: "pend_count r < 10000" unfolding pend_count_def using s by (simp add: N nat_less_iff)
  have "sLogList r ! nat ((?s + int (Suc j)) mod ?N) = sLogList ?r ! nat ((iLogStarIndex ?r + int j) mod ?N)" if j: "j < pend_count ?r" for j
  proof -
    have "(iLogStarIndex ?r + int j) mod ?N = (?s + int (Suc j)) mod ?N" unfolding nx by (simp add: mod_simps add.assoc nx)
    moreover have "(?s + int (Suc j)) mod ?N \<noteq> ?s"
    proof
      assume "(?s + int (Suc j)) mod ?N = ?s"
      then have "(?s + int (Suc j)) mod ?N = ?s mod ?N" using s by simp
      then have "?N dvd int (Suc j)" by (simp add: mod_eq_dvd_iff)
      then show False using j n lt by (auto simp: N dest!: zdvd_imp_le)
    qed
    moreover have "0 \<le> (?s + int (Suc j)) mod ?N" by (simp add: N)
    ultimately show ?thesis using s(1) by (simp add: nat_eq_iff)
  qed
  then have "map (\<lambda>j. sLogList r ! nat ((?s + int (Suc j)) mod ?N)) [0..<pend_count ?r] = pending ?r"
    unfolding pending_def by (intro map_cong) simp_all
  moreover have "[0..<pend_count r] = 0 # map Suc [0..<pend_count ?r]" unfolding n by (simp add: upt_conv_Cons map_Suc_upt del: upt_Suc)
  ultimately show ?thesis unfolding pending_def [of r] using s by (simp add: o_def)
qed

subsection \<open>The loop\<close>

text \<open>The strings a record owns; records that are complete, readable and own different strings.\<close>

definition strs :: "MTLog \<Rightarrow> int set" where
  "strs l = {i. 0 < i \<and> (i = iCustVmemIndex l \<or> i = iVarmemIndex l)}"

definition ready :: "u32 list \<Rightarrow> (int \<Rightarrow> u8 list option) \<Rightarrow> MTLog \<Rightarrow> bool" where
  "ready apps m l \<longleftrightarrow> dwLogSeq l \<noteq> 0 \<and> iAppId l \<noteq> 0 \<and> iModuleId l \<noteq> 0 \<and> iAppId l \<in> set apps \<and>
     (\<exists>cu. log_readable cu m l) \<and> (\<exists>tx. log_text m l = Some tx)"

fun all_ready :: "u32 list \<Rightarrow> (int \<Rightarrow> u8 list option) \<Rightarrow> MTLog list \<Rightarrow> bool" where
  "all_ready apps m [] \<longleftrightarrow> True"
| "all_ready apps m (l # ls) \<longleftrightarrow> ready apps m l \<and> (\<forall>k\<in>set ls. strs l \<inter> strs k = {}) \<and> all_ready apps m ls"

text \<open>The server sees the record \<open>l\<close> as \<open>p\<close>.\<close>

definition seen_as :: "(int \<Rightarrow> u8 list option) \<Rightarrow> MTLog \<Rightarrow> LogInfo \<Rightarrow> bool" where
  "seen_as m l p \<longleftrightarrow> (\<exists>cu st tx. log_readable cu m l \<and> log_text m l = Some tx \<and> p = sent cu st tx l)"

lemma released_other:
  assumes "strs l \<inter> strs k = {}"
  shows "log_readable cu (released l m) k \<longleftrightarrow> log_readable cu m k" "0 < iVarmemIndex k \<or> iVarmemIndex k < 0 \<Longrightarrow> log_text (released l m) k = log_text m k"
proof -
  have "released l m i = m i" if "i \<in> strs k" for i using assms that by (auto simp: released_def strs_def)
  then have 1: "0 < iCustVmemIndex k \<Longrightarrow> released l m (iCustVmemIndex k) = m (iCustVmemIndex k)"
    and 2: "0 < iVarmemIndex k \<Longrightarrow> released l m (iVarmemIndex k) = m (iVarmemIndex k)"
    by (simp_all add: strs_def)
  show "log_readable cu (released l m) k \<longleftrightarrow> log_readable cu m k"
    unfolding log_readable_def using 1 2 by (cases "0 < iCustVmemIndex k"; cases "0 < iVarmemIndex k") simp_all
  show "log_text (released l m) k = log_text m k" if "0 < iVarmemIndex k \<or> iVarmemIndex k < 0"
    using 2 that by (auto simp: log_text_def)
qed

lemma readable_idx: "log_readable cu m k \<Longrightarrow> 0 < iVarmemIndex k \<or> iVarmemIndex k < 0"
  by (auto simp: log_readable_def)

lemma all_ready_released:
  assumes "all_ready apps m ls" "\<forall>k\<in>set ls. strs l \<inter> strs k = {}"
  shows "all_ready apps (released l m) ls" "\<And>k p. k \<in> set ls \<Longrightarrow> seen_as (released l m) k p \<Longrightarrow> seen_as m k p"
proof -
  show "all_ready apps (released l m) ls"
    using assms by (induction ls) (auto simp: ready_def released_other readable_idx)
  show "seen_as m k p" if k: "k \<in> set ls" and sn: "seen_as (released l m) k p" for k p
  proof -
    obtain cu st tx where p: "log_readable cu (released l m) k" "log_text (released l m) k = Some tx" "p = sent cu st tx k"
      using sn by (auto simp: seen_as_def)
    have d: "strs l \<inter> strs k = {}" using assms(2) k by blast
    have "log_readable cu m k" using p(1) released_other(1) [OF d] by simp
    moreover from this have "log_text m k = Some tx" using released_other(2) [OF d readable_idx] p(2) by simp
    ultimately show ?thesis using p(3) by (auto simp: seen_as_def)
  qed
qed

definition ring_of :: "nat \<Rightarrow> Agent \<Rightarrow> MTLogShm" where
  "ring_of k a = stLogShm (ag_lw a) ! k"

definition agent_ok :: "nat \<Rightarrow> Agent \<Rightarrow> (int \<Rightarrow> u8 list option) \<Rightarrow> bool" where
  "agent_ok k a m \<longleftrightarrow> vmem_rep (lw_vmem (ag_lw a)) m \<and> length (ag_buf a) = agent_buf_size \<and>
     (\<forall>r\<in>set (stAppLogRead a). packet_ok r) \<and> k < length (stLogShm (ag_lw a)) \<and> ring_ok (ring_of k a) \<and> star_ok (ring_of k a)"

lemma upd_shm_ring:
  assumes "k < length (stLogShm (ag_lw a))"
  shows "ring_of k (upd_shm k f a) = f (ring_of k a)" "lw_vmem (ag_lw (upd_shm k f a)) = lw_vmem (ag_lw a)"
    "ag_buf (upd_shm k f a) = ag_buf a" "stAppLogRead (upd_shm k f a) = stAppLogRead a"
    "stAppConfigList (upd_shm k f a) = stAppConfigList a" "length (stLogShm (ag_lw (upd_shm k f a))) = length (stLogShm (ag_lw a))"
    "agent_logs (upd_shm k f a) = agent_logs a"
  using assms by (simp_all add: upd_shm_def upd_lw_def ring_of_def agent_logs_def)

text \<open>One round of the loop on a complete record.\<close>

lemma read_ring_round:
  assumes ok: "agent_ok k a m" and i: "i = iLogStarIndex (ring_of k a)" "0 \<le> i" "i \<noteq> iWriteIndex (ring_of k a)"
    and l: "l = sLogList (ring_of k a) ! nat i" "ready (stAppConfigList a) m l"
  shows "\<exists>(rc :: int) b p. (rc = 0 \<or> rc = -1) \<and> agent_ok k b (released l m) \<and> stAppConfigList b = stAppConfigList a \<and>
    read_ring env k a = (if rc < 0 then Some (True, b) else read_ring env k b) \<and> seen_as m l p \<and>
    mset (agent_logs b) = mset (agent_logs a) + (if rc = 0 then {#p#} else {#}) \<and>
    (rc = 0 \<longrightarrow> pending (ring_of k a) = l # pending (ring_of k b))"
proof -
  let ?r = "ring_of k a" and ?N = MTLOG_SHM_RECORDS_COUNT
  have a: "vmem_rep (lw_vmem (ag_lw a)) m" "length (ag_buf a) = agent_buf_size" "\<forall>r\<in>set (stAppLogRead a). packet_ok r"
    "k < length (stLogShm (ag_lw a))" "ring_ok ?r" "star_ok ?r" using ok by (simp_all add: agent_ok_def)
  have N: "?N = 10000" by (simp add: MTLOG_SHM_RECORDS_COUNT_def)
  have lt: "nat i < length (sLogList ?r)" "i < ?N" using a(5,6) i by (auto simp: ring_ok_def star_ok_def N)
  have full: "full_record l" using a(5) lt l(1) by (simp add: ring_ok_def)
  obtain cu tx where rd: "log_readable cu m l" "log_text m l = Some tx" using l(2) by (auto simp: ready_def)
  obtain rc a1 st v where r: "ReadAppLogToBuf (ge_clk env) l a = Some (rc, taken l, a1)" "rc = 0 \<or> rc = -1"
    "\<forall>r\<in>set (stAppLogRead a1). packet_ok r" "length (ag_buf a1) = agent_buf_size"
    "mset (agent_logs a1) = mset (agent_logs a) + (if rc = 0 then {#sent cu st tx l#} else {#})"
    "stAppConfigList a1 = stAppConfigList a" "ag_lw a1 = (ag_lw a)\<lparr>lw_vmem := v\<rparr>" "vmem_rep v (released l m)"
    using ReadAppLogToBuf_logs [OF a(1) rd full _ _ _ a(2,3), of "ge_clk env"] l(2) by (auto simp: ready_def)
  have k1: "k < length (stLogShm (ag_lw a1))" "ring_of k a1 = ?r" using a(4) r(7) by (simp_all add: ring_of_def)
  let ?f = "\<lambda>r. r\<lparr>sLogList := (sLogList r)[nat i := taken l]\<rparr>"
  define a2 where "a2 = upd_shm k ?f a1"
  note u2 = upd_shm_ring [OF k1(1), of ?f, folded a2_def]
  have k2: "k < length (stLogShm (ag_lw a2))" using u2(6) k1(1) by simp
  define b where "b = (if rc < 0 then a2 else step_ring k a2)"
  let ?g = "\<lambda>r. r\<lparr>iLogStarIndex := next_idx ?N (iLogStarIndex r)\<rparr>"
  note u3 = upd_shm_ring [OF k2, of ?g]
  have b: "ring_of k b = (if rc < 0 then ?f ?r else ?g (?f ?r))" "lw_vmem (ag_lw b) = v" "ag_buf b = ag_buf a1"
    "stAppLogRead b = stAppLogRead a1" "stAppConfigList b = stAppConfigList a" "k < length (stLogShm (ag_lw b))"
    "agent_logs b = agent_logs a1"
    using u2 u3 k1 k2 r(6,7) by (simp_all add: b_def step_ring_def)
  have "read_ring env k a = (if rc < 0 then Some (True, b) else read_ring env k b)"
    using i lt l r(1) by (subst read_ring.simps) (simp add: Let_def ring_of_def [symmetric] ready_def b_def a2_def)
  moreover have "\<forall>x\<in>set ((sLogList ?r)[nat i := taken l]). full_record x"
    using a(5) full by (intro all_update) (simp_all add: ring_ok_def taken_def)
  then have "ring_ok (?f ?r)" using a(5) by (simp add: ring_ok_def)
  then have "ring_ok (ring_of k b)" "star_ok (ring_of k b)"
    using b(1) a(6) i(2) lt(2) next_idx_mod [of i ?N] by (auto simp: ring_ok_def star_ok_def i(1) N)
  then have "agent_ok k b (released l m)" using b r(3,4,8) by (simp add: agent_ok_def)
  moreover have "pending ?r = l # pending (ring_of k b)" if "rc = 0"
    using pending_next [OF a(5,6), of "taken l"] i l(1) b(1) that by simp
  moreover have "seen_as m l (sent cu st tx l)" using rd by (auto simp: seen_as_def)
  ultimately show ?thesis using r(2,5) b(5,7)
    by (intro exI [of _ rc] exI [of _ b] exI [of _ "sent cu st tx l"]) auto
qed

lemma pending_Nil: "pending r = [] \<Longrightarrow> ring_ok r \<Longrightarrow> star_ok r \<Longrightarrow> iLogStarIndex r < 0 \<or> iLogStarIndex r = iWriteIndex r"
  using pending_next [of r] by (metis linorder_not_less list.distinct(1))

lemma read_ring_drains:
  assumes "agent_ok k a m" "all_ready (stAppConfigList a) m (pending (ring_of k a))"
  shows "\<exists>left b ps m'. read_ring env k a = Some (left, b) \<and> agent_ok k b m' \<and>
    list_all2 (seen_as m) (take (length ps) (pending (ring_of k a))) ps \<and>
    mset (agent_logs b) = mset (agent_logs a) + mset ps \<and>
    (\<not> left \<longrightarrow> length ps = length (pending (ring_of k a)) \<and> pending (ring_of k b) = [])"
  using assms
proof (induction "pending (ring_of k a)" arbitrary: a m)
  case Nil
  have "ring_ok (ring_of k a)" "star_ok (ring_of k a)" using Nil.prems by (simp_all add: agent_ok_def)
  then have "iLogStarIndex (ring_of k a) < 0 \<or> iLogStarIndex (ring_of k a) = iWriteIndex (ring_of k a)"
    using pending_Nil Nil.hyps by simp
  then have "read_ring env k a = Some (False, a)" by (subst read_ring.simps) (auto simp: Let_def ring_of_def)
  then show ?case using Nil by (intro exI [of _ False] exI [of _ a] exI [of _ "[]"] exI [of _ m]) simp
next
  case (Cons l ls)
  let ?r = "ring_of k a"
  have ok: "ring_ok ?r" "star_ok ?r" using Cons.prems(1) by (simp_all add: agent_ok_def)
  have ne: "pending ?r \<noteq> []" using Cons.hyps(2) by (metis list.distinct(1))
  have star: "0 \<le> iLogStarIndex ?r" using ne by (auto simp: pending_def pend_count_def split: if_splits)
  have diff: "iLogStarIndex ?r \<noteq> iWriteIndex ?r" using ne by (auto simp: pending_def pend_count_def split: if_splits)
  have l: "l = sLogList ?r ! nat (iLogStarIndex ?r)" using pending_next [OF ok star diff] Cons.hyps(2) by (metis list.inject)
  have rdy: "ready (stAppConfigList a) m l" "\<forall>k\<in>set ls. strs l \<inter> strs k = {}" "all_ready (stAppConfigList a) m ls"
    using Cons.prems(2) Cons.hyps(2) by (metis all_ready.simps(2))+
  obtain rc :: int and b p where b: "rc = 0 \<or> rc = -1" "agent_ok k b (released l m)" "stAppConfigList b = stAppConfigList a"
    "read_ring env k a = (if rc < 0 then Some (True, b) else read_ring env k b)" "seen_as m l p"
    "mset (agent_logs b) = mset (agent_logs a) + (if rc = 0 then {#p#} else {#})"
    "rc = 0 \<longrightarrow> pending ?r = l # pending (ring_of k b)"
    using read_ring_round [OF Cons.prems(1) refl star diff l rdy(1), of env] by blast
  show ?case
  proof (cases "rc = 0")
    case False
    then have "read_ring env k a = Some (True, b)" "mset (agent_logs b) = mset (agent_logs a)" using b(1,4,6) by auto
    then show ?thesis using b(2) by (intro exI [of _ True] exI [of _ b] exI [of _ "[]"] exI [of _ "released l m"]) simp
  next
    case True
    have ls: "ls = pending (ring_of k b)" using b(7) True Cons.hyps(2) by (metis list.inject)
    have "all_ready (stAppConfigList b) (released l m) (pending (ring_of k b))"
      using all_ready_released(1) [OF rdy(3,2)] b(3) ls by simp
    then obtain left c ps m' where c: "read_ring env k b = Some (left, c)" "agent_ok k c m'"
      "list_all2 (seen_as (released l m)) (take (length ps) (pending (ring_of k b))) ps"
      "mset (agent_logs c) = mset (agent_logs b) + mset ps"
      "\<not> left \<longrightarrow> length ps = length (pending (ring_of k b)) \<and> pending (ring_of k c) = []"
      using Cons.hyps(1) [OF ls b(2)] by blast
    have "list_all2 (seen_as m) (take (length ps) ls) ps"
      using c(3) ls all_ready_released(2) [OF rdy(3,2)] by (auto simp: list_all2_conv_all_nth)
    then have "list_all2 (seen_as m) (take (length (p # ps)) (l # ls)) (p # ps)" using b(5) by simp
    moreover have "read_ring env k a = Some (left, c)" using b(4) True c(1) by simp
    moreover have "mset (agent_logs c) = mset (agent_logs a) + mset (p # ps)" using c(4) b(6) True by simp
    ultimately show ?thesis using c(2,5) ls Cons.hyps(2)
      by (intro exI [of _ left] exI [of _ c] exI [of _ "p # ps"] exI [of _ m']) (metis length_Cons)
  qed
qed

end
