(* ===== verification/Agent_Props.thy ===== *)
theory Agent_Props
  imports Agent_Drain Log_Props2
begin

text \<open>
  Properties of the way of a log from the ring to the server: one record, a whole ring, and the
  custom fields.
\<close>

subsection \<open>Custom fields\<close>

lemma take_u32_be: "take_u32 b ((if b then be32 x else []) @ r) = Some (if b then x else 0, r)"
  by (simp add: take_u32_def)

lemma c_str_nul: "0 \<notin> set (c_str s)"
  by (auto simp: c_str_def dest: set_takeWhileD)

lemma copy_cust_run:
  assumes "length b = Suc n" "b ! n = 0"
  shows "\<exists>s. copy_cust n (take n (c_str t) @ 0 # r) b = Some s \<and> c_str s = take n (c_str t)"
proof -
  let ?t = "take n (c_str t)"
  have nul: "0 \<notin> set ?t" using c_str_nul [of t] by (meson in_set_takeD)
  have "copy_cust n (?t @ 0 # r) b = Some (strncpy n ?t b)"
    using c_str_nul_free(1) [OF nul] by (simp add: copy_cust_def)
  then show ?thesis using c_str_strncpy(1) [OF nul, of n b] assms by simp
qed

lemma c_str_empty [simp]: "c_str (0 # r) = []"
  by (simp add: c_str_def)

lemma is_set_flag [simp]: "is_set f (d\<lparr>bCustFlag := bCustFlag c\<rparr>) = is_set f c"
  "is_set f (d\<lparr>dwCust_1 := x1, dwCust_2 := x2, iCust_3 := x3, iCust_4 := x4\<rparr>) = is_set f d"
  by (simp_all add: is_set_def)

lemma decode_cust_run:
  assumes one: "\<not> (is_set MTLOG_CUST_FLAG_C5_SET c \<and> is_set MTLOG_CUST_FLAG_C6_SET c)"
    and d: "length (szCust_5 d) = 16" "szCust_5 d ! 15 = 0" "length (szCust_6 d) = 32" "szCust_6 d ! 31 = 0"
  shows "\<exists>e. decode_cust (cust_bytes c @ r) d = Some e \<and> bCustFlag e = bCustFlag c \<and>
    dwCust_1 e = (if is_set MTLOG_CUST_FLAG_C1_SET c then dwCust_1 c else 0) \<and>
    dwCust_2 e = (if is_set MTLOG_CUST_FLAG_C2_SET c then dwCust_2 c else 0) \<and>
    iCust_3 e = (if is_set MTLOG_CUST_FLAG_C3_SET c then iCust_3 c else 0) \<and>
    iCust_4 e = (if is_set MTLOG_CUST_FLAG_C4_SET c then iCust_4 c else 0) \<and>
    c_str (szCust_5 e) = (if is_set MTLOG_CUST_FLAG_C5_SET c then take 15 (c_str (szCust_5 c)) else []) \<and>
    c_str (szCust_6 e) = (if is_set MTLOG_CUST_FLAG_C6_SET c then take 31 (c_str (szCust_6 c)) else [])"
proof -
  obtain s5 where s5: "copy_cust 15 (take 15 (c_str (szCust_5 c)) @ 0 # r) (szCust_5 d) = Some s5"
    "c_str s5 = take 15 (c_str (szCust_5 c))"
    using copy_cust_run [of "szCust_5 d" 15] d by auto
  obtain s6 where s6: "copy_cust 31 (take 31 (c_str (szCust_6 c)) @ 0 # r) (szCust_6 d) = Some s6"
    "c_str s6 = take 31 (c_str (szCust_6 c))"
    using copy_cust_run [of "szCust_6 d" 31] d by auto
  let ?u = "\<lambda>f x. if is_set f c then be32 (x c) else []" and ?v = "\<lambda>f x. if is_set f c then x c else 0"
  define S where "S = (if is_set MTLOG_CUST_FLAG_C5_SET c then take 15 (c_str (szCust_5 c)) @ [0] else [])
     @ (if is_set MTLOG_CUST_FLAG_C6_SET c then take 31 (c_str (szCust_6 c)) @ [0] else []) @ r"
  have bs: "cust_bytes c @ r = bCustFlag c # ?u MTLOG_CUST_FLAG_C1_SET dwCust_1 @ ?u MTLOG_CUST_FLAG_C2_SET dwCust_2 @
      ?u MTLOG_CUST_FLAG_C3_SET iCust_3 @ ?u MTLOG_CUST_FLAG_C4_SET iCust_4 @ S"
    by (simp add: cust_bytes_def S_def)
  let ?e = "d\<lparr>bCustFlag := bCustFlag c, dwCust_1 := ?v MTLOG_CUST_FLAG_C1_SET dwCust_1, dwCust_2 := ?v MTLOG_CUST_FLAG_C2_SET dwCust_2,
      iCust_3 := ?v MTLOG_CUST_FLAG_C3_SET iCust_3, iCust_4 := ?v MTLOG_CUST_FLAG_C4_SET iCust_4,
      szCust_5 := (if is_set MTLOG_CUST_FLAG_C5_SET c then s5 else 0 # drop 1 (szCust_5 d)),
      szCust_6 := (if is_set MTLOG_CUST_FLAG_C6_SET c then s6 else 0 # drop 1 (szCust_6 d))\<rparr>"
  have "decode_cust (cust_bytes c @ r) d = Some ?e"
    unfolding bs decode_cust_def list.case Let_def is_set_flag take_u32_be bind.bind_lunit prod.case
    using one s5(1) s6(1) by (auto simp: S_def)
  then show ?thesis using s5(2) s6(2) by simp
qed

text \<open>
  C27. The server decodes the custom fields that a process encoded: a field that is set comes out
  with its value (strings cut to 15 and 31 characters), one that is not set comes out empty,
  as long as not both string fields are set.
\<close>

theorem decode_cust_roundtrip:
  assumes one: "\<not> (is_set MTLOG_CUST_FLAG_C5_SET c \<and> is_set MTLOG_CUST_FLAG_C6_SET c)"
    and d: "length (szCust_5 d) = 16" "szCust_5 d ! 15 = 0" "length (szCust_6 d) = 32" "szCust_6 d ! 31 = 0"
  shows "\<exists>e. decode_cust (cust_bytes c @ r) d = Some e \<and> bCustFlag e = bCustFlag c \<and>
    dwCust_1 e = (if is_set MTLOG_CUST_FLAG_C1_SET c then dwCust_1 c else 0) \<and>
    dwCust_2 e = (if is_set MTLOG_CUST_FLAG_C2_SET c then dwCust_2 c else 0) \<and>
    iCust_3 e = (if is_set MTLOG_CUST_FLAG_C3_SET c then iCust_3 c else 0) \<and>
    iCust_4 e = (if is_set MTLOG_CUST_FLAG_C4_SET c then iCust_4 c else 0) \<and>
    c_str (szCust_5 e) = (if is_set MTLOG_CUST_FLAG_C5_SET c then take 15 (c_str (szCust_5 c)) else []) \<and>
    c_str (szCust_6 e) = (if is_set MTLOG_CUST_FLAG_C6_SET c then take 31 (c_str (szCust_6 c)) else [])"
  by (rule decode_cust_run [OF assms])

definition demo_cust :: MTLogCust where
  "demo_cust = \<lparr>dwCust_1 = 0x01020304, dwCust_2 = 0, iCust_3 = 0, iCust_4 = 0, szCust_5 = [97, 98] @ replicate 14 0,
     szCust_6 = 99 # replicate 31 0, bCustFlag = 17\<rparr>"

definition zero_cust :: MTLogCust where
  "zero_cust = \<lparr>dwCust_1 = 0, dwCust_2 = 0, iCust_3 = 0, iCust_4 = 0, szCust_5 = replicate 16 0, szCust_6 = replicate 32 0,
     bCustFlag = 0\<rparr>"

theorem decode_cust_roundtrip_witness:
  "\<exists>e. decode_cust (cust_bytes demo_cust @ [104, 105, 0]) zero_cust = Some e \<and> dwCust_1 e = 0x01020304 \<and> dwCust_2 e = 0 \<and>
    c_str (szCust_5 e) = [97, 98] \<and> c_str (szCust_6 e) = []"
proof -
  have f: "is_set MTLOG_CUST_FLAG_C1_SET demo_cust" "\<not> is_set MTLOG_CUST_FLAG_C2_SET demo_cust"
    "is_set MTLOG_CUST_FLAG_C5_SET demo_cust" "\<not> is_set MTLOG_CUST_FLAG_C6_SET demo_cust"
    by (simp_all add: is_set_def demo_cust_def MTLOG_CUST_FLAG_C1_SET_def MTLOG_CUST_FLAG_C2_SET_def
        MTLOG_CUST_FLAG_C5_SET_def MTLOG_CUST_FLAG_C6_SET_def)
  have z: "length (szCust_5 zero_cust) = 16" "szCust_5 zero_cust ! 15 = 0" "length (szCust_6 zero_cust) = 32" "szCust_6 zero_cust ! 31 = 0"
    by (simp_all add: zero_cust_def)
  have "c_str (szCust_5 demo_cust) = [97, 98]" by (simp add: demo_cust_def c_str_def)
  moreover obtain e where "decode_cust (cust_bytes demo_cust @ [104, 105, 0]) zero_cust = Some e"
    "dwCust_1 e = dwCust_1 demo_cust" "dwCust_2 e = 0" "c_str (szCust_5 e) = take 15 (c_str (szCust_5 demo_cust))" "c_str (szCust_6 e) = []"
    using decode_cust_roundtrip [OF _ z, of demo_cust "[104, 105, 0]"] f by auto
  ultimately show ?thesis by (simp add: demo_cust_def)
qed

text \<open>
  With both string fields set the server looks for the sixth field 17 bytes behind the start of
  the fifth, whatever its length: here it finds a piece of the text of the log.
\<close>

lemma decode_cust_both_strings:
  "map_option (\<lambda>e. (c_str (szCust_5 e), c_str (szCust_6 e)))
     (decode_cust (cust_bytes (demo_cust\<lparr>bCustFlag := 48\<rparr>) @ replicate 12 65 @ [66, 67, 0]) zero_cust) = Some ([97, 98], [66, 67])"
  by code_simp

subsection \<open>Records\<close>

definition demo_agent :: "LogWorld \<Rightarrow> Agent" where
  "demo_agent w = \<lparr>ag_lw = w, ag_buf = replicate 1280 0, stAppLogRead = [], stAppConfigList = [1]\<rparr>"

definition demo_record :: MTLog where
  "demo_record = \<lparr>iCustVmemIndex = 0, dwLogConfigId = 9, dwLogSeq = 5, qwLogTime = 6000000, iAppId = 1, iModuleId = 2,
     wLogType = 4, iVarmemIndex = -1, sLogContent = [104, 105] @ replicate 254 0\<rparr>"

lemma demo_record_ok: "log_readable cu m demo_record" "log_text m demo_record = Some [104, 105]" "full_record demo_record"
  "iAppId demo_record = 1" "iModuleId demo_record = 2" "strs demo_record = {}" "dwLogSeq demo_record \<noteq> 0"
  by (simp_all add: demo_record_def log_readable_def log_text_def c_str_def strs_def)




definition demo_full_ring :: MTLogShm where
  "demo_full_ring = \<lparr>bTryGetLogIndex = 1, iLogStarIndex = 0, iWriteIndex = 1, dwGetLogIndexStartTime = 0,
     sLogList = demo_record # replicate 9999 demo_log\<rparr>"

definition demo_genv :: AgentEnv where
  "demo_genv = \<lparr>ge_now = 7, ge_cur = 7000000, ge_clk = demo_clk\<rparr>"

lemma demo_full_ring_ok: "ring_ok demo_full_ring" "star_ok demo_full_ring" "pending demo_full_ring = [demo_record]"
  unfolding demo_full_ring_def ring_ok_def star_ok_def pending_def pend_count_def MTLogShm.simps MTLOG_SHM_RECORDS_COUNT_def
  by (simp_all add: demo_log_def demo_record_ok)


end
