(* ===== verification/Sv_Pool.thy ===== *)
theory Sv_Pool
  imports Sv_Vmem Vmem_Free
begin

text \<open>
  Correctness of one pool of \<open>sv_vmem.cpp\<close>. The invariant adds to the one of the client's pools that every node of a stored
  string has data, that all but the last are full, and that \<open>wDelayFree\<close> counts the nodes that wait for collection.
\<close>

definition filled :: "nat \<Rightarrow> VmemPool \<Rightarrow> u16 list \<Rightarrow> bool" where
  "filled len p xs \<longleftrightarrow> (\<forall>x\<in>set xs. bDataLen (vp_nodes p x) \<noteq> 0) \<and>
     (\<forall>x\<in>set (butlast xs). unat (bDataLen (vp_nodes p x)) = len)"

lemma filled_cong: "(\<And>x. x \<in> set xs \<Longrightarrow> vp_nodes p' x = vp_nodes p x) \<Longrightarrow> filled len p' xs = filled len p xs"
  unfolding filled_def by (metis in_set_butlastD)

lemma filled_tl: "filled len p (x # xs) \<Longrightarrow> filled len p xs"
  by (cases xs) (auto simp: filled_def)

definition sv_wf :: "nat \<Rightarrow> SvPool \<Rightarrow> u16 list \<Rightarrow> u16 list list \<Rightarrow> u16 list \<Rightarrow> bool" where
  "sv_wf len q fl bl dead \<longleftrightarrow> pool_wf len (sp_pool q) fl bl dead \<and> (\<forall>xs\<in>set bl. filled len (sp_pool q) xs) \<and>
     unat (wDelayFree q) = length dead"

lemma sv_wf_fields [simp]:
  "sv_wf len (q\<lparr>sp_pool := (sp_pool q)\<lparr>bUseFlag := a\<rparr>\<rparr>) fl bl dead = sv_wf len q fl bl dead"
  by (simp add: sv_wf_def filled_def)

text \<open>Another pool record with the same nodes.\<close>

lemma sv_wf_cong:
  assumes "vp_nodes p = vp_nodes (sp_pool q)" "pool_wf len p fl bl dead = pool_wf len (sp_pool q) fl bl dead"
  shows "sv_wf len (q\<lparr>sp_pool := p\<rparr>) fl bl dead = sv_wf len q fl bl dead"
  using assms by (simp add: sv_wf_def filled_def)

subsection \<open>The scan\<close>

lemma collects_lengths:
  assumes wf: "pool_wf len p fl bl dead" and c: "collects len p fl bl dead p' fl' dead'"
  shows "length dead + length fl = length dead' + length fl'"
proof -
  obtain ds where ds: "fl' = ds @ fl" "set dead = set ds \<union> set dead'" using c by (auto simp: collects_def)
  have "distinct dead" using wf by (auto simp: pool_wf_def pool_nodes_def)
  moreover have "distinct (ds @ dead')" using c ds(1) by (auto simp: collects_def pool_wf_def pool_nodes_def)
  ultimately have "length dead = length (ds @ dead')" using ds(2) by (metis distinct_card set_append)
  then show ?thesis using ds(1) by simp
qed

lemma sv_wf_collects:
  assumes wf: "sv_wf len q fl bl dead" and c: "collects len (sp_pool q) fl bl dead p fl' dead'"
    and n: "unat k = length dead'"
  shows "sv_wf len \<lparr>sp_pool = p, wDelayFree = k\<rparr> fl' bl dead'"
proof -
  have "filled len p xs" if xs: "xs \<in> set bl" for xs
  proof -
    have "vp_nodes p x = vp_nodes (sp_pool q) x" if "x \<in> set xs" for x
      using wf c xs that by (auto simp: sv_wf_def collects_def pool_wf_def pool_nodes_def)
    then show ?thesis using filled_cong [of xs p "sp_pool q"] wf xs by (auto simp: sv_wf_def)
  qed
  then show ?thesis using c n by (simp add: sv_wf_def collects_def)
qed

text \<open>A step of the scan: a dead node leaves \<open>dead\<close>, and the counter follows.\<close>

lemma sv_scan_step:
  assumes wf: "sv_wf len q fl bl dead"
  shows "\<exists>q1 at1 fl1 dead1. sv_scan (Suc k) (q, at) = sv_scan k (q1, at1) \<and> sv_wf len q1 fl1 bl dead1 \<and>
    collects len (sp_pool q) fl bl dead (sp_pool q1) fl1 dead1"
proof -
  have pw: "pool_wf len (sp_pool q) fl bl dead" using wf by (simp add: sv_wf_def)
  note b = pool_wf_basic [OF pw]
  define p where "p = (if wNodeCount (sp_pool q) \<le> wScanFreeIndex (sp_pool q)
    then (sp_pool q)\<lparr>wScanFreeIndex := 1\<rparr> else sp_pool q)"
  have wfp: "pool_wf len p fl bl dead" using pw by (simp add: p_def)
  have "unat (wScanFreeIndex p) < vp_slots p"
    using b unat_pool_end [OF b(2)] by (auto simp: p_def word_le_nat_alt)
  then obtain nxt p1 fl1 dead1 where p1: "rd_next p (wScanFreeIndex p) = Some nxt"
    "(if is_dead p nxt then push_free (wScanFreeIndex p) p else Some p) = Some p1"
    "collects len p fl bl dead p1 fl1 dead1"
    using collects_look [OF wfp] by blast
  let ?p2 = "p1\<lparr>wScanFreeIndex := wScanFreeIndex p1 + 1\<rparr>"
  have c: "collects len (sp_pool q) fl bl dead ?p2 fl1 dead1"
    using p1(3) by (cases "wNodeCount (sp_pool q) \<le> wScanFreeIndex (sp_pool q)") (simp_all add: p_def)
  have w1: "pool_wf len p1 fl1 bl dead1" "vp_slots p1 = vp_slots p" using p1(3) by (simp_all add: collects_def)
  have lens: "length dead + length fl = length dead1 + length fl1" by (rule collects_lengths [OF wfp p1(3)])
  note used = pool_wf_basic(5) [OF wfp] pool_wf_basic(5) [OF w1(1)]
  define k' where "k' = (if is_dead p nxt then wDelayFree q - 1 else wDelayFree q)"
  have dq: "unat (wDelayFree q) = length dead" using wf by (simp add: sv_wf_def)
  have "unat k' = length dead1"
  proof (cases "is_dead p nxt")
    case True
    then have "wNodeUsed p1 = wNodeUsed p - 1" using p1(2) by (auto simp: push_free_def wr_node_def split: if_splits)
    moreover have "wNodeUsed p \<noteq> 0" using pool_free_length [OF wfp] used(1) by auto
    ultimately have "unat (wNodeUsed p1) = unat (wNodeUsed p) - 1" "unat (wNodeUsed p) \<noteq> 0" by (simp_all add: unat_minus_one unat_eq_0)
    then have "length fl1 = Suc (length fl)" using used w1(2) by simp
    then have d: "length dead = Suc (length dead1)" using lens by simp
    then have "wDelayFree q \<noteq> 0" using dq by auto
    then show ?thesis using True d dq by (simp add: k'_def unat_minus_one)
  next
    case False
    then have "length fl1 = length fl" using p1(2) used by simp
    then show ?thesis using False lens dq by (simp add: k'_def)
  qed
  then have "sv_wf len \<lparr>sp_pool = ?p2, wDelayFree = k'\<rparr> fl1 bl dead1" by (rule sv_wf_collects [OF wf c])
  moreover have "\<exists>at1. sv_scan (Suc k) (q, at) = sv_scan k (\<lparr>sp_pool = ?p2, wDelayFree = k'\<rparr>, at1)"
  proof (cases "is_dead p nxt")
    case True
    then show ?thesis using p1(1,2) by (auto simp: Let_def k'_def simp flip: p_def)
  next
    case False
    have q: "q\<lparr>sp_pool := x\<rparr> = \<lparr>sp_pool = x, wDelayFree = wDelayFree q\<rparr>" for x by simp
    show ?thesis using False p1(1,2) by (auto simp: Let_def k'_def q simp flip: p_def)
  qed
  ultimately show ?thesis using c by (metis SvPool.select_convs(1))
qed

lemma sv_scan_run:
  assumes "sv_wf len q fl bl dead"
  shows "\<exists>q' at' fl' dead'. sv_scan k (q, at) = Some (q', at') \<and> sv_wf len q' fl' bl dead' \<and>
    collects len (sp_pool q) fl bl dead (sp_pool q') fl' dead'"
  using assms
proof (induction k arbitrary: q at fl dead)
  case 0
  then have "collects len (sp_pool q) fl bl dead (sp_pool q) fl dead" by (auto simp: sv_wf_def intro: collects_refl)
  then show ?case using 0 by auto
next
  case (Suc k)
  obtain q1 at1 fl1 dead1 where 1: "sv_scan (Suc k) (q, at) = sv_scan k (q1, at1)" "sv_wf len q1 fl1 bl dead1"
    "collects len (sp_pool q) fl bl dead (sp_pool q1) fl1 dead1"
    using sv_scan_step [OF Suc.prems] by blast
  obtain q' at' fl' dead' where "sv_scan k (q1, at1) = Some (q', at')" "sv_wf len q' fl' bl dead'"
    "collects len (sp_pool q1) fl1 bl dead1 (sp_pool q') fl' dead'" using Suc.IH [OF 1(2)] by blast
  then show ?case using 1(1) collects_trans [OF 1(3)] by (intro exI) auto
qed

subsection \<open>Saving\<close>

lemma length_node_data: "unat (bDataLen n) \<le> length (sDataBuf n) \<Longrightarrow> length (node_data n) = unat (bDataLen n)"
  by (simp add: node_data_def)

text \<open>The bytes of a chain whose nodes are full but for the last: the last one gets what is left, which is not nothing.\<close>

lemma chain_filled:
  assumes full: "\<forall>x\<in>set (butlast xs). unat (bDataLen (vp_nodes p x)) = len"
    and buf: "\<forall>x\<in>set xs. unat (bDataLen (vp_nodes p x)) \<le> length (sDataBuf (vp_nodes p x))"
    and len: "0 < len" "xs \<noteq> []" "(length xs - 1) * len < length (blob_data p xs)"
  shows "filled len p xs"
proof -
  let ?l = "\<lambda>x. unat (bDataLen (vp_nodes p x))"
  obtain ys y where xs: "xs = ys @ [y]" using len(2) by (metis append_butlast_last_id)
  have sum: "length (blob_data p zs) = sum_list (map ?l zs)" if "set zs \<subseteq> set xs" for zs
    using that buf by (induction zs) (auto simp: length_node_data)
  have "sum_list (map ?l ys) = length ys * len"
    using full unfolding xs by (induction ys) auto
  then have "0 < ?l y" using sum [of xs] len(3) by (simp add: xs)
  then have "bDataLen (vp_nodes p y) \<noteq> 0" by auto
  moreover have "bDataLen (vp_nodes p x) \<noteq> 0" if "x \<in> set ys" for x
    using full len(1) that by (auto simp: xs)
  ultimately show ?thesis using full by (auto simp: filled_def xs)
qed

lemma need_count_strict:
  assumes "0 < len" "0 < n"
  shows "(need_count len n - 1) * len < n"
proof -
  have n: "n div len * len + n mod len = n" by simp
  show ?thesis
  proof (cases "n mod len = 0")
    case True
    then have "0 < n div len" using assms by (simp add: div_greater_zero_iff mod_0_imp_dvd dvd_imp_le)
    then show ?thesis using True n assms by (simp add: need_count_def diff_mult_distrib)
  next
    case False
    then have "n div len * len < n" using n by linarith
    then show ?thesis using False by (simp add: need_count_def)
  qed
qed

lemma sv_save_in_pool_run:
  assumes wf: "sv_wf len q fl bl dead" and d: "0 < length d" and len: "0 < len" "len < 256"
    and need: "need = need_count len (length d)" "enough (sp_pool q) need"
  shows "\<exists>q' xs at fl' dead'. sv_save_in_pool len need d q = Some (hd xs, q', at) \<and>
    sv_wf len q' fl' (xs # bl) dead' \<and> blob_data (sp_pool q') xs = d \<and>
    (\<forall>ys\<in>set bl. blob_data (sp_pool q') ys = blob_data (sp_pool q) ys)"
proof -
  have pw: "pool_wf len (sp_pool q) fl bl dead" using wf by (simp add: sv_wf_def)
  obtain q1 at fl1 dead1 where scan: "sv_scan 10 (q, []) = Some (q1, at)" "sv_wf len q1 fl1 bl dead1"
    "collects len (sp_pool q) fl bl dead (sp_pool q1) fl1 dead1"
    using sv_scan_run [OF wf] by blast
  let ?p = "sp_pool q1"
  have wf1: "pool_wf len ?p fl1 bl dead1" and sl: "vp_slots ?p = vp_slots (sp_pool q)" and fl: "length fl \<le> length fl1"
    using scan(3) by (auto simp: collects_def)
  note b = pool_wf_basic [OF pw] and b1 = pool_wf_basic [OF wf1]
  have "need \<le> length fl" using need(2) b(3,5) unat_pool_end(1) [OF b(2)] by (simp add: enough_def)
  then have nf: "need \<le> length fl1" using fl by simp
  then obtain f fl2 where f: "fl1 = f # fl2"
    using need_count_bounds(1) [OF len(1) d] need(1) by (cases fl1) auto
  have ok: "node_ok ?p f" using pool_wf_node_ok [OF wf1, of f] f by simp
  then have get: "VMEM_GET_FREE_NODE ?p = Some (f, ?p\<lparr>wFreeNodeIndex := first_or (pool_end ?p) fl2\<rparr>)"
    using wf1 f b1(4) by (auto simp: VMEM_GET_FREE_NODE_def rd_next_def pool_wf_def node_ok_def)
  obtain p' xs rest where p': "(save_loop len (need - 1) d f (?p\<lparr>wFreeNodeIndex := first_or (pool_end ?p) fl2,
      wNodeUsed := wNodeUsed ?p + of_nat need\<rparr>) \<bind> (\<lambda>(f, d, p). save_last len f d p)) = Some p'"
    "hd xs = f" "pool_wf len p' rest (xs # bl) dead1" "blob_data p' xs = d"
    "\<forall>ys\<in>set bl. blob_data p' ys = blob_data ?p ys" "length xs = need"
    "\<forall>x\<in>set (butlast xs). unat (bDataLen (vp_nodes p' x)) = len" "\<forall>x. x \<notin> set xs \<longrightarrow> vp_nodes p' x = vp_nodes ?p x"
    using save_after_scan [OF wf1 [unfolded f] d len need(1)] nf f by blast
  obtain f' d' r where "save_loop len (need - 1) d f (?p\<lparr>wFreeNodeIndex := first_or (pool_end ?p) fl2,
      wNodeUsed := wNodeUsed ?p + of_nat need\<rparr>) = Some (f', d', r)" "save_last len f' d' r = Some p'"
    using p'(1) by (auto simp: bind_eq_Some_conv)
  then have run: "sv_save_in_pool len need d q = Some (hd xs, q1\<lparr>sp_pool := p'\<lparr>bUseFlag := 0\<rparr>\<rparr>, at)"
    using scan(1) get p'(2) by (auto simp: sv_save_in_pool_def save_last_def bind_eq_Some_conv)
  have dist: "set xs \<inter> set ys = {}" if "ys \<in> set bl" for ys
    using p'(3) that by (auto simp: pool_wf_def pool_nodes_def)
  have "filled len p' ys" if "ys \<in> set bl" for ys
    using scan(2) p'(8) dist [OF that] that filled_cong [of ys p' ?p len] by (auto simp: sv_wf_def)
  moreover have "filled len p' xs"
  proof (rule chain_filled [OF p'(7)])
    show "\<forall>x\<in>set xs. unat (bDataLen (vp_nodes p' x)) \<le> length (sDataBuf (vp_nodes p' x))"
      using pool_wf_readable [OF p'(3), of xs] by (auto simp: readable_def)
    show "xs \<noteq> []" using p'(3) by (auto simp: pool_wf_def)
    show "(length xs - 1) * len < length (blob_data p' xs)" using need_count_strict [OF len(1) d] need(1) p'(4,6) by simp
  qed (rule len(1))
  ultimately have "sv_wf len (q1\<lparr>sp_pool := p'\<lparr>bUseFlag := 0\<rparr>\<rparr>) rest (xs # bl) dead1"
    using p'(3) scan(2) by (simp add: sv_wf_def filled_def)
  moreover have "blob_data (p'\<lparr>bUseFlag := 0\<rparr>) ys = blob_data p' ys" for ys by (rule blob_data_cong) simp
  ultimately show ?thesis
    using run p'(4,5) collects_blob_data [OF pw scan(3)]
    by (intro exI [of _ "q1\<lparr>sp_pool := p'\<lparr>bUseFlag := 0\<rparr>\<rparr>"] exI [of _ xs] exI [of _ at] exI [of _ rest] exI [of _ dead1]) simp
qed

subsection \<open>Reading\<close>

lemma sv_get_chain_step:
  assumes r: "readable len p (x # xs)" and n: "bDataLen (vp_nodes p x) \<noteq> 0"
  shows "sv_get_chain len p x room out = (let k = unat (bDataLen (vp_nodes p x)) in
      if room < int k then Some (-4, out)
      else if xs = [] \<or> room = int k then Some (0, out @ node_data (vp_nodes p x))
      else sv_get_chain len p (hd xs) (room - int k) (out @ node_data (vp_nodes p x)))"
proof -
  have ok: "node_ok p x" "unat (bDataLen (vp_nodes p x)) \<le> len" "length (sDataBuf (vp_nodes p x)) = len"
    and nx: "wNextNodeIndex (vp_nodes p x) = first_or (pool_end p) xs"
    using r by (auto simp: readable_def)
  have lt: "wNextNodeIndex (vp_nodes p x) < wNodeCount p \<longleftrightarrow> xs \<noteq> []"
    using nx r node_ok_ne_end(3) [of p] by (cases xs) (auto simp: readable_def)
  show ?thesis
    using ok lt nx n by (subst sv_get_chain.simps) (cases xs, auto simp: rd_node_def node_data_def Let_def)
qed

lemma sv_get_chain_fits:
  assumes "readable len p xs" "filled len p xs" "xs \<noteq> []" "int (length (blob_data p xs)) \<le> room"
  shows "sv_get_chain len p (hd xs) room out = Some (0, out @ blob_data p xs)"
  using assms
proof (induction xs arbitrary: room out)
  case (Cons x xs)
  have n: "bDataLen (vp_nodes p x) \<noteq> 0" using Cons.prems(2) by (simp add: filled_def)
  have l: "length (node_data (vp_nodes p x)) = unat (bDataLen (vp_nodes p x))" by (rule get_chain_step(2) [OF Cons.prems(1)])
  have pos: "0 < length (blob_data p xs)" if ne: "xs \<noteq> []"
  proof -
    obtain y ys where xs: "xs = y # ys" using ne by (cases xs) auto
    have "length (node_data (vp_nodes p y)) = unat (bDataLen (vp_nodes p y))"
      using get_chain_step(2) [OF readable_tl [OF Cons.prems(1), unfolded xs]] .
    moreover have "bDataLen (vp_nodes p y) \<noteq> 0" using Cons.prems(2) by (simp add: filled_def xs)
    ultimately show ?thesis using xs by (simp add: unat_gt_0)
  qed
  show ?case
    using Cons.prems(4) Cons.IH [OF readable_tl [OF Cons.prems(1)] filled_tl [OF Cons.prems(2)]] l pos
    by (cases "xs = []") (auto simp: sv_get_chain_step [OF Cons.prems(1) n] Let_def)
qed simp

subsection \<open>Releasing\<close>

lemma free_node_sv:
  assumes "free_node flag i (sp_pool q) = Some p"
  shows "\<exists>at. sv_free_node flag i q = Some (q\<lparr>sp_pool := p, wDelayFree := (if flag then wDelayFree q else wDelayFree q + 1)\<rparr>, at)"
  using assms by (auto simp: free_node_def sv_free_node_def bind_eq_Some_conv split: if_splits)

lemma sv_free_node_run:
  assumes wf: "sv_wf len q fl ((x # xs) # bl) dead"
  shows "\<exists>r at. sv_free_node flag x q = Some (r, at) \<and> wNodeCount (sp_pool r) = wNodeCount (sp_pool q) \<and>
    (\<forall>y. y \<noteq> x \<longrightarrow> vp_nodes (sp_pool r) y = vp_nodes (sp_pool q) y) \<and>
    sv_wf len r (if flag then x # fl else fl) (chains xs bl) (if flag then dead else x # dead)"
proof -
  have pw: "pool_wf len (sp_pool q) fl ((x # xs) # bl) dead" using wf by (simp add: sv_wf_def)
  obtain p where p: "free_node flag x (sp_pool q) = Some p" "wNodeCount p = wNodeCount (sp_pool q)"
    "\<forall>y. y \<noteq> x \<longrightarrow> vp_nodes p y = vp_nodes (sp_pool q) y"
    "pool_wf len p (if flag then x # fl else fl) (chains xs bl) (if flag then dead else x # dead)"
    using free_node_run [OF pw, of flag] by blast
  have x: "x \<notin> set xs" "x \<notin> set (concat bl)" using pw by (auto simp: pool_wf_def pool_nodes_def)
  have "filled len p ys" if ys: "ys \<in> set (chains xs bl)" for ys
  proof -
    have "x \<notin> set ys" "filled len (sp_pool q) ys"
      using ys x wf filled_tl [of len "sp_pool q" x xs] by (auto simp: chains_def sv_wf_def split: if_splits)
    then show ?thesis using p(3) filled_cong [of ys p "sp_pool q"] by metis
  qed
  moreover have "unat (if flag then wDelayFree q else wDelayFree q + 1) = length (if flag then dead else x # dead)"
  proof (cases flag)
    case False
    have "distinct (x # dead)" using pw by (auto simp: pool_wf_def pool_nodes_def)
    moreover have "node_ok (sp_pool q) y" if "y \<in> set (x # dead)" for y using pool_wf_node_ok [OF pw] that by auto
    ultimately have "length (x # dead) < vp_slots (sp_pool q)"
      using pool_wf_basic(1,2) [OF pw] by (intro distinct_slots_less)
    then show ?thesis using False wf pool_wf_basic(2) [OF pw] by (simp add: sv_wf_def unat_word_ariths)
  qed (use wf in \<open>simp add: sv_wf_def\<close>)
  ultimately have "sv_wf len (q\<lparr>sp_pool := p, wDelayFree := (if flag then wDelayFree q else wDelayFree q + 1)\<rparr>)
    (if flag then x # fl else fl) (chains xs bl) (if flag then dead else x # dead)"
    using p(4) by (simp add: sv_wf_def)
  then show ?thesis using free_node_sv [OF p(1)] p(2,3) by fastforce
qed

lemma sv_free_chain_unfold:
  assumes "node_ok (sp_pool q) i" "bDataLen (vp_nodes (sp_pool q) i) \<noteq> 0"
  shows "sv_free_chain flag i (q, at) = do {
    (r, at') \<leftarrow> sv_free_node flag i q;
    if wNextNodeIndex (vp_nodes (sp_pool q) i) < wNodeCount (sp_pool r)
    then sv_free_chain flag (wNextNodeIndex (vp_nodes (sp_pool q) i)) (r, at @ at') else Some (r, at @ at') }"
  using assms by (subst sv_free_chain.simps) (simp add: rd_node_def)

lemma sv_free_chain_run:
  assumes "sv_wf len q fl ((x # xs) # bl) dead"
  shows "\<exists>r at'. sv_free_chain flag x (q, at) = Some (r, at') \<and>
    (\<forall>y. y \<notin> set (x # xs) \<longrightarrow> vp_nodes (sp_pool r) y = vp_nodes (sp_pool q) y) \<and>
    sv_wf len r (if flag then rev (x # xs) @ fl else fl) bl (if flag then dead else rev (x # xs) @ dead)"
  using assms
proof (induction xs arbitrary: x q fl dead at)
  case Nil
  have pw: "pool_wf len (sp_pool q) fl ([x] # bl) dead" using Nil by (simp add: sv_wf_def)
  have ok: "node_ok (sp_pool q) x" "bDataLen (vp_nodes (sp_pool q) x) \<noteq> 0"
    using pool_wf_node_ok [OF pw, of x] Nil by (simp_all add: sv_wf_def filled_def)
  have nx: "wNextNodeIndex (vp_nodes (sp_pool q) x) = wNodeCount (sp_pool q)" using pw by (auto simp: pool_wf_def)
  obtain r at' where "sv_free_node flag x q = Some (r, at')" "wNodeCount (sp_pool r) = wNodeCount (sp_pool q)"
    "\<forall>y. y \<noteq> x \<longrightarrow> vp_nodes (sp_pool r) y = vp_nodes (sp_pool q) y"
    "sv_wf len r (if flag then x # fl else fl) bl (if flag then dead else x # dead)"
    using sv_free_node_run [OF Nil, of flag] by (auto simp: chains_def)
  then show ?case using nx by (auto simp: sv_free_chain_unfold [OF ok])
next
  case (Cons y ys)
  have pw: "pool_wf len (sp_pool q) fl ((x # y # ys) # bl) dead" using Cons.prems by (simp add: sv_wf_def)
  note b = pool_wf_basic [OF pw]
  have ok: "node_ok (sp_pool q) x" "bDataLen (vp_nodes (sp_pool q) x) \<noteq> 0" "node_ok (sp_pool q) y"
    using pool_wf_node_ok [OF pw] Cons.prems by (auto simp: sv_wf_def filled_def)
  have nx: "wNextNodeIndex (vp_nodes (sp_pool q) x) = y" using pw by (auto simp: pool_wf_def)
  obtain r at1 where r: "sv_free_node flag x q = Some (r, at1)" "wNodeCount (sp_pool r) = wNodeCount (sp_pool q)"
    "\<forall>z. z \<noteq> x \<longrightarrow> vp_nodes (sp_pool r) z = vp_nodes (sp_pool q) z"
    "sv_wf len r (if flag then x # fl else fl) ((y # ys) # bl) (if flag then dead else x # dead)"
    using sv_free_node_run [OF Cons.prems, of flag] by (auto simp: chains_def)
  have lt: "y < wNodeCount (sp_pool r)" using node_ok_ne_end(3) [OF b(2) ok(3)] b(3) r(2) by simp
  obtain s at2 where s: "sv_free_chain flag y (r, at @ at1) = Some (s, at2)"
    "\<forall>z. z \<notin> set (y # ys) \<longrightarrow> vp_nodes (sp_pool s) z = vp_nodes (sp_pool r) z"
    "sv_wf len s (if flag then rev (y # ys) @ (if flag then x # fl else fl) else (if flag then x # fl else fl)) bl
      (if flag then (if flag then dead else x # dead) else rev (y # ys) @ (if flag then dead else x # dead))"
    using Cons.IH [OF r(4)] by blast
  have "sv_free_chain flag x (q, at) = Some (s, at2)" using r(1) s(1) nx lt by (simp add: sv_free_chain_unfold [OF ok(1,2)])
  then show ?case using r(3) s(2,3) by (intro exI [of _ s] exI [of _ at2]) (auto split: if_splits)
qed

subsection \<open>Fresh pools\<close>

lemma sv_create_wf:
  assumes "vp_slots (sp_pool q) = n" "2 \<le> n" "n + 1 < 2 ^ 16" "buf_ok len (sp_pool q)" "wDelayFree q = 0"
  shows "sv_wf len (q\<lparr>sp_pool := VMEM_CREATE_INIT_SHM n (sp_pool q)\<rparr>) (map of_nat [1..<n]) [] []"
  using VMEM_CREATE_INIT_SHM_wf [OF assms(1-4)] assms(5) by (simp add: sv_wf_def)

end
