(* ===== verification/Sv_Store.thy ===== *)
theory Sv_Store
  imports Sv_Pool Vmem_Store
begin

text \<open>
  The string store of the servers as a map from indices to byte strings: it has the interface \<open>blob_store\<close>, like the
  client's.
\<close>

definition sv_family :: "SvVmem \<Rightarrow> family" where
  "sv_family v len i = sp_pool (sv_pools v len i)"

definition sv_vmem_wf :: "SvVmem \<Rightarrow> ghost \<Rightarrow> bool" where
  "sv_vmem_wf v g \<longleftrightarrow> sv_cIsInit v \<noteq> 0 \<and> (\<forall>len\<in>set vmem_lens. \<forall>i<SV_VMEM_SHM_COUNT.
     case g len i of (fl, bl, dead) \<Rightarrow> sv_wf len (sv_pools v len i) fl bl dead)"

definition sv_contents :: "SvVmem \<Rightarrow> ghost \<Rightarrow> u32 \<Rightarrow> u8 list option" where
  "sv_contents v g = fam_contents SV_VMEM_SHM_COUNT (sv_family v) g"

definition sv_rep :: "SvVmem \<Rightarrow> (int \<Rightarrow> u8 list option) \<Rightarrow> bool" where
  "sv_rep v m \<longleftrightarrow> (\<exists>g. sv_vmem_wf v g \<and>
     m = (\<lambda>r. if sint (word_of_int r :: u32) = r then sv_contents v g (word_of_int r) else None))"

subsection \<open>Updates of one pool\<close>

lemma sv_family_set [simp]:
  "sv_family (sv_set_pool len i n q v) = upd_fam len i (sp_pool q) (sv_family v)"
  "sv_family (sv_report at v) = sv_family v"
  by (auto simp: sv_family_def sv_set_pool_def sv_report_def upd_fam_def fun_eq_iff)

lemma sv_report_sel [simp]:
  "sv_cIsInit (sv_report at v) = sv_cIsInit v" "sv_pools (sv_report at v) = sv_pools v" "sv_tick (sv_report at v) = sv_tick v"
  "sv_vmem_wf (sv_report at v) g = sv_vmem_wf v g" "sv_contents (sv_report at v) g = sv_contents v g"
  by (simp_all add: sv_report_def sv_vmem_wf_def sv_contents_def sv_family_def [abs_def])

lemma sv_vmem_wf_pool:
  assumes "sv_vmem_wf v g" "len \<in> set vmem_lens" "i < SV_VMEM_SHM_COUNT" "g len i = (fl, bl, dead)"
  shows "sv_wf len (sv_pools v len i) fl bl dead" "pool_wf len (sv_family v len i) fl bl dead"
  using assms by (auto simp: sv_vmem_wf_def sv_wf_def sv_family_def split: prod.splits)

lemma sv_vmem_wf_update:
  assumes "sv_vmem_wf v g" "sv_wf len q fl bl dead"
  shows "sv_vmem_wf (sv_set_pool len i n q v) (upd_ghost len i (fl, bl, dead) g)"
  using assms by (auto simp: sv_vmem_wf_def upd_ghost_def sv_set_pool_def)

lemma sv_contents_same:
  assumes "len \<in> set vmem_lens" "i < SV_VMEM_SHM_COUNT" "g len i = (fl, bl, dead)"
    and "\<And>xs. xs \<in> set bl \<Longrightarrow> blob_data (sp_pool q) xs = blob_data (sp_pool (sv_pools v len i)) xs"
  shows "sv_contents (sv_set_pool len i n q v) (upd_ghost len i (fl', bl, dead') g) = sv_contents v g"
  using fam_same [where g = g and P = "sv_family v" and p = "sp_pool q", OF assms(1-3)] assms(4)
  by (simp add: sv_contents_def sv_family_def)

text \<open>The state of a flag and the clock do not matter for the invariant.\<close>

lemma take_flag_sv:
  assumes "take_flag clk (n, sp_pool q) = (b, n', p)"
  shows "sv_wf len (q\<lparr>sp_pool := p\<rparr>) fl bl dead = sv_wf len q fl bl dead"
    "sv_wf len (q\<lparr>sp_pool := p\<lparr>dwUseFlagStartTime := t\<rparr>\<rparr>) fl bl dead = sv_wf len q fl bl dead"
    "vp_nodes p = vp_nodes (sp_pool q)"
proof -
  note tw = take_flag_wf [OF assms]
  show "vp_nodes p = vp_nodes (sp_pool q)" by (rule tw(3))
  show "sv_wf len (q\<lparr>sp_pool := p\<rparr>) fl bl dead = sv_wf len q fl bl dead" by (rule sv_wf_cong [OF tw(3,1)])
  show "sv_wf len (q\<lparr>sp_pool := p\<lparr>dwUseFlagStartTime := t\<rparr>\<rparr>) fl bl dead = sv_wf len q fl bl dead"
    using tw by (intro sv_wf_cong) simp_all
qed

subsection \<open>Saving\<close>

definition sv_outcome :: "SvVmem \<Rightarrow> ghost \<Rightarrow> u8 list \<Rightarrow> int \<Rightarrow> SvVmem \<Rightarrow> bool" where
  "sv_outcome v g d r v' \<longleftrightarrow> (\<exists>g'. sv_vmem_wf v' g' \<and>
     (r < 0 \<and> sv_contents v' g' = sv_contents v g \<or>
      (\<exists>h. r = sint h \<and> 0 \<le> r \<and> sv_contents v g h = None \<and> sv_contents v' g' = (sv_contents v g)(h \<mapsto> d))))"

lemma sv_outcome_step:
  assumes "sv_vmem_wf v1 g1" "sv_contents v1 g1 = sv_contents v g" "sv_outcome v1 g1 d r v'"
  shows "sv_outcome v g d r v'"
  using assms by (auto simp: sv_outcome_def)

lemma sv_outcome_report [simp]: "sv_outcome v g d r (sv_report at v') = sv_outcome v g d r v'"
  by (simp add: sv_outcome_def)

lemma sv_save_into_pool:
  assumes wf: "sv_vmem_wf v g" and li: "len \<in> set vmem_lens" "i < SV_VMEM_SHM_COUNT" and d: "0 < length d"
    and g: "g len i = (fl, bl, dead)" and q: "sv_wf len q fl bl dead" "vp_nodes (sp_pool q) = vp_nodes (sp_pool (sv_pools v len i))"
    and need: "enough (sp_pool q) (need_count len (length d))"
  shows "\<exists>first q' at. sv_save_in_pool len (need_count len (length d)) d q = Some (first, q', at) \<and>
    sv_outcome v g d (sint (VMEM_MAKE_IDEX32 len i first)) (sv_report at (sv_set_pool len i n q' v))"
proof -
  obtain q' xs at fl' dead' where r: "sv_save_in_pool len (need_count len (length d)) d q = Some (hd xs, q', at)"
    "sv_wf len q' fl' (xs # bl) dead'" "blob_data (sp_pool q') xs = d"
    "\<forall>ys\<in>set bl. blob_data (sp_pool q') ys = blob_data (sp_pool q) ys"
    using sv_save_in_pool_run [OF q(1) d _ _ refl need] vmem_lens_bounds [OF li(1)] by blast
  let ?h = "VMEM_MAKE_IDEX32 len i (hd xs)" and ?g = "upd_ghost len i (fl', xs # bl, dead') g"
  have i: "i < 256" "i < 16" using li(2) by (simp_all add: SV_VMEM_SHM_COUNT_def)
  have "blob_data (sp_pool q') ys = blob_data (sv_family v len i) ys" if "ys \<in> set bl" for ys
    using r(4) q(2) that by (simp add: blob_data_def sv_family_def)
  note new = fam_saved [where g = g and P = "sv_family v", OF li i(1) g _ r(3) this]
  have "sv_contents v g ?h = None" "sv_contents (sv_set_pool len i n q' v) ?g = (sv_contents v g)(?h \<mapsto> d)"
    using new r(2) by (auto simp: sv_contents_def sv_wf_def)
  moreover have "0 \<le> sint ?h" using vmem_lens_bounds [OF li(1)] i(2) by (intro VMEM_MAKE_sint) auto
  ultimately have "sv_outcome v g d (sint ?h) (sv_set_pool len i n q' v)"
    unfolding sv_outcome_def using sv_vmem_wf_update [OF wf r(2)] by blast
  with r(1) show ?thesis by auto
qed

lemma sv_save_pools_outcome:
  assumes "sv_vmem_wf v g" "len \<in> set vmem_lens" "set is \<subseteq> {..<SV_VMEM_SHM_COUNT}" "0 < length d"
  shows "\<exists>r v'. sv_save_pools clk len d is v = Some (r, v') \<and> sv_outcome v g d r v'"
  using assms
proof (induction "is" arbitrary: v g)
  case Nil
  then show ?case by (auto simp: sv_outcome_def)
next
  case (Cons i js)
  have i: "i < SV_VMEM_SHM_COUNT" and js: "set js \<subseteq> {..<SV_VMEM_SHM_COUNT}" using Cons.prems(3) by auto
  let ?need = "need_count len (length d)" and ?q = "sv_pools v len i"
  obtain fl bl dead where g: "g len i = (fl, bl, dead)" by (metis prod_cases3)
  note pw = sv_vmem_wf_pool(1) [OF Cons.prems(1,2) i g]
  obtain b n p where tf: "take_flag clk (sv_tick v, sp_pool ?q) = (b, n, p)" by (metis prod_cases3)
  note tw = take_flag_sv [OF tf]
  have skip: "\<exists>r v'. sv_save_pools clk len d js (sv_set_pool len i n' q v) = Some (r, v') \<and> sv_outcome v g d r v'"
    if q: "sv_wf len q fl bl dead" "vp_nodes (sp_pool q) = vp_nodes (sp_pool ?q)" for n' q
  proof -
    let ?v = "sv_set_pool len i n' q v" and ?g = "upd_ghost len i (fl, bl, dead) g"
    have wf: "sv_vmem_wf ?v ?g" by (rule sv_vmem_wf_update [OF Cons.prems(1) q(1)])
    have same: "sv_contents ?v ?g = sv_contents v g"
      using q(2) by (intro sv_contents_same [where g = g, OF Cons.prems(2) i g]) (simp add: blob_data_def)
    from Cons.IH [OF wf Cons.prems(2) js Cons.prems(4)] sv_outcome_step [OF wf same] show ?thesis by blast
  qed
  show ?case
  proof (cases b)
    case False
    have "sv_wf len (?q\<lparr>sp_pool := p\<rparr>) fl bl dead" using tw(1) pw by simp
    then have "\<exists>r v'. sv_save_pools clk len d js (sv_set_pool len i n (?q\<lparr>sp_pool := p\<rparr>) v) = Some (r, v') \<and> sv_outcome v g d r v'"
      using tw(3) by (intro skip) auto
    then show ?thesis using False tf by (simp add: Let_def)
  next
    case True
    define p1 where "p1 = p\<lparr>dwUseFlagStartTime := clk n\<rparr>"
    have q1: "sv_wf len (?q\<lparr>sp_pool := p1\<rparr>) fl bl dead" "vp_nodes p1 = vp_nodes (sp_pool ?q)"
      using tw pw by (simp_all add: p1_def)
    show ?thesis
    proof (cases "enough p1 ?need")
      case True
      obtain first q' at where "sv_save_in_pool len ?need d (?q\<lparr>sp_pool := p1\<rparr>) = Some (first, q', at)"
        "sv_outcome v g d (sint (VMEM_MAKE_IDEX32 len i first)) (sv_report at (sv_set_pool len i (Suc n) q' v))"
        using sv_save_into_pool [OF Cons.prems(1,2) i Cons.prems(4) g q1(1), where n = "Suc n"] q1(2) True by auto
      then show ?thesis using \<open>b\<close> tf True by (simp add: Let_def stamp_flag_def p1_def [symmetric])
    next
      case False
      have "sv_wf len (?q\<lparr>sp_pool := p1\<lparr>bUseFlag := 0\<rparr>\<rparr>) fl bl dead"
        using q1(1) sv_wf_fields [where q = "?q\<lparr>sp_pool := p1\<rparr>"] by simp
      then have "\<exists>r v'. sv_save_pools clk len d js (sv_set_pool len i (Suc n) (?q\<lparr>sp_pool := p1\<lparr>bUseFlag := 0\<rparr>\<rparr>) v) = Some (r, v') \<and>
          sv_outcome v g d r v'"
        using q1(2) by (intro skip) auto
      then show ?thesis using \<open>b\<close> tf False by (simp add: Let_def stamp_flag_def p1_def [symmetric])
    qed
  qed
qed

lemma sv_try_lens_outcome:
  assumes "sv_vmem_wf v g" "set lens \<subseteq> set vmem_lens" "0 < length d" "r < 0"
  shows "\<exists>r' v'. sv_try_lens clk d lens r v = Some (r', v') \<and> sv_outcome v g d r' v'"
  using assms
proof (induction lens arbitrary: v g r)
  case Nil
  then show ?case by (auto simp: sv_outcome_def)
next
  case (Cons len lens)
  obtain r1 v1 where 1: "sv_save_pools clk len d [0..<SV_VMEM_SHM_COUNT] v = Some (r1, v1)" "sv_outcome v g d r1 v1"
    using sv_save_pools_outcome [OF Cons.prems(1), of len "[0..<SV_VMEM_SHM_COUNT]" d clk] Cons.prems
    by (auto simp: atLeast0LessThan)
  show ?case
  proof (cases "r1 < 0")
    case True
    then obtain g1 where g1: "sv_vmem_wf v1 g1" "sv_contents v1 g1 = sv_contents v g"
      using 1(2) by (auto simp: sv_outcome_def)
    then show ?thesis
      using Cons.IH [OF g1(1), of r1] Cons.prems True 1(1) sv_outcome_step [OF g1] by auto
  next
    case False
    then show ?thesis using 1 Cons.prems(4) by (cases lens) auto
  qed
qed

lemma set_sv_save_order: "set (sv_save_order n) \<subseteq> set vmem_lens"
  by (auto simp: sv_save_order_def vmem_lens_def)

lemma Sv_SaveToVmem_outcome:
  assumes "sv_vmem_wf v g" "storable d"
  shows "\<exists>r v'. Sv_SaveToVmem clk d v = Some (r, v') \<and> sv_outcome v g d r v'"
  using sv_try_lens_outcome [OF assms(1) set_sv_save_order [of "length d"], of d "-1" clk] assms
  by (auto simp: Sv_SaveToVmem_def storable_def sv_vmem_wf_def)

subsection \<open>Reading and releasing\<close>

lemma sv_contents_chain:
  assumes wf: "sv_vmem_wf v g" and c: "sv_contents v g h = Some d"
  obtains len t f fl bl dead xs where "VMEM_PARSE_IDEX32 h = (len, t, f)" "len \<in> set vmem_lens" "t < SV_VMEM_SHM_COUNT"
    "g len t = (fl, bl, dead)" "sv_wf len (sv_pools v len t) fl bl dead" "xs \<in> set bl" "hd xs = f"
    "d = blob_data (sp_pool (sv_pools v len t)) xs" "xs \<noteq> []" "f < wNodeCount (sp_pool (sv_pools v len t))" "0 < sint h"
proof (rule fam_chain [where P = "sv_family v" and g = g and n = SV_VMEM_SHM_COUNT])
  show "fam_contents SV_VMEM_SHM_COUNT (sv_family v) g h = Some d" using c by (simp add: sv_contents_def)
  fix len t f fl bl dead xs
  assume a: "VMEM_PARSE_IDEX32 h = (len, t, f)" "len \<in> set vmem_lens" "t < SV_VMEM_SHM_COUNT"
    "g len t = (fl, bl, dead)" "xs \<in> set bl" "hd xs = f" "d = blob_data (sv_family v len t) xs" "xs \<noteq> []"
    "f < wNodeCount (sv_family v len t)"
  have "0 < sint h"
    using VMEM_MAKE_PARSE [OF a(1)] VMEM_MAKE_sint(2) [of len t f] vmem_lens_bounds [OF a(2)] a(3) by (simp add: SV_VMEM_SHM_COUNT_def)
  then show thesis using that a sv_vmem_wf_pool(1) [OF wf a(2,3,4)] by (simp add: sv_family_def)
qed (use sv_vmem_wf_pool(2) [OF wf] in blast)

lemma Sv_GetFromVmem_contents:
  assumes wf: "sv_vmem_wf v g" and c: "sv_contents v g h = Some d" and room: "int (length d) \<le> room"
  shows "Sv_GetFromVmem (sint h) room v = Some (0, d, [102])"
proof -
  obtain len t f fl bl dead xs where h: "VMEM_PARSE_IDEX32 h = (len, t, f)" "len \<in> set vmem_lens" "t < SV_VMEM_SHM_COUNT"
    "sv_wf len (sv_pools v len t) fl bl dead" "xs \<in> set bl" "hd xs = f" "d = blob_data (sp_pool (sv_pools v len t)) xs"
    "xs \<noteq> []" "f < wNodeCount (sp_pool (sv_pools v len t))" "0 < sint h"
    using sv_contents_chain [OF wf c] by metis
  have "readable len (sp_pool (sv_pools v len t)) xs" "filled len (sp_pool (sv_pools v len t)) xs"
    using h(4,5) by (auto simp: sv_wf_def intro: pool_wf_readable)
  from sv_get_chain_fits [OF this h(8), of room "[]"] show ?thesis
    using h wf room by (simp add: Sv_GetFromVmem_def sv_vmem_wf_def Let_def)
qed

lemma Sv_GetFromVmem_Local2_contents:
  assumes wf: "sv_vmem_wf v g" and c: "sv_contents v g h = Some d" and d: "storable d"
  shows "\<exists>at. Sv_GetFromVmem_Local2 (sint h) v = Some (Some d, int (length d), at)"
proof -
  obtain len t f fl bl dead xs where h: "VMEM_PARSE_IDEX32 h = (len, t, f)" "len \<in> set vmem_lens" "t < SV_VMEM_SHM_COUNT"
    "sv_wf len (sv_pools v len t) fl bl dead" "xs \<in> set bl" "hd xs = f" "d = blob_data (sp_pool (sv_pools v len t)) xs"
    "xs \<noteq> []" "f < wNodeCount (sp_pool (sv_pools v len t))" "0 < sint h"
    using sv_contents_chain [OF wf c] by metis
  let ?p = "sp_pool (sv_pools v len t)"
  have r: "readable len ?p xs" "filled len ?p xs" using h(4,5) by (auto simp: sv_wf_def intro: pool_wf_readable)
  obtain x ys where xs: "xs = x # ys" using h(8) by (cases xs) auto
  have x: "x = f" using h(6) xs by simp
  have n: "rd_node ?p f = Some (vp_nodes ?p f)" "unat (bDataLen (vp_nodes ?p f)) \<le> len" "length (sDataBuf (vp_nodes ?p f)) = len"
    "wNextNodeIndex (vp_nodes ?p f) = first_or (pool_end ?p) ys" "wNodeCount ?p = pool_end ?p"
    using r(1) by (simp_all add: readable_def rd_node_def xs x)
  have get: "sv_get_chain len ?p f (int VMEM_MAX_DATA_LEN + 1) [] = Some (0, d)"
    using sv_get_chain_fits [OF r h(8), of "int VMEM_MAX_DATA_LEN + 1" "[]"] d h(6,7) by (simp add: storable_def)
  have more: "wNextNodeIndex (vp_nodes ?p f) < wNodeCount ?p" "unat (bDataLen (vp_nodes ?p f)) = len" if "ys \<noteq> []"
    using that r node_ok_ne_end(3) [of ?p] n(4,5) by (cases ys; force simp: readable_def filled_def xs x)+
  have i: "sv_cIsInit v \<noteq> 0" using wf by (simp add: sv_vmem_wf_def)
  show ?thesis
  proof (cases "ys = []")
    case True
    then have "d = take (unat (bDataLen (vp_nodes ?p f))) (sDataBuf (vp_nodes ?p f))" using h(7) by (simp add: xs x node_data_def)
    then show ?thesis
      using True n h i by (simp add: Sv_GetFromVmem_Local2_def Sv_GetFromVmemZeroCp_def Let_def not_le [symmetric])
  next
    case False
    then show ?thesis
      using more [OF False] n(1) get h i by (simp add: Sv_GetFromVmem_Local2_def Sv_GetFromVmemZeroCp_def Let_def not_le [symmetric])
  qed
qed

lemma Sv_FreeVmem_contents:
  assumes wf: "sv_vmem_wf v g" and c: "sv_contents v g h = Some d"
  shows "\<exists>v' g'. Sv_FreeVmem clk (sint h) v = Some (0, v') \<and> sv_vmem_wf v' g' \<and> sv_contents v' g' = (sv_contents v g)(h := None)"
proof -
  obtain len t f fl bl dead xs where h: "VMEM_PARSE_IDEX32 h = (len, t, f)" "len \<in> set vmem_lens" "t < SV_VMEM_SHM_COUNT"
    "g len t = (fl, bl, dead)" "sv_wf len (sv_pools v len t) fl bl dead" "xs \<in> set bl" "hd xs = f"
    "xs \<noteq> []" "f < wNodeCount (sp_pool (sv_pools v len t))" "0 < sint h"
    using sv_contents_chain [OF wf c] by metis
  let ?q = "sv_pools v len t"
  have pw: "pool_wf len (sp_pool ?q) fl bl dead" using h(5) by (simp add: sv_wf_def)
  obtain x ys where xs: "xs = x # ys" using h(8) by (cases xs) auto
  obtain b n p where tf: "take_flag clk (sv_tick v, sp_pool ?q) = (b, n, p)" by (metis prod_cases3)
  obtain m p1 where st: "(if b then stamp_flag clk (n, p) else (n, p)) = (m, p1)" by (metis surj_pair)
  define q1 where "q1 = ?q\<lparr>sp_pool := p1\<rparr>"
  have q1: "vp_nodes (sp_pool q1) = vp_nodes (sp_pool ?q)" "sv_wf len q1 fl bl' dead = sv_wf len ?q fl bl' dead" for bl'
    using take_flag_sv [OF tf] st by (auto simp: stamp_flag_def q1_def split: if_splits)
  have "sv_wf len ?q fl (xs # remove1 xs bl) dead"
    using h(5) pool_wf_pick [OF pw h(6)] set_remove1_subset [of xs bl] h(6) by (auto simp: sv_wf_def)
  then have "sv_wf len q1 fl ((x # ys) # remove1 xs bl) dead" using q1(2) xs by simp
  then obtain q at where q: "sv_free_chain b x (q1, []) = Some (q, at)"
    "\<forall>y. y \<notin> set xs \<longrightarrow> vp_nodes (sp_pool q) y = vp_nodes (sp_pool q1) y"
    "sv_wf len q (if b then rev xs @ fl else fl) (remove1 xs bl) (if b then dead else rev xs @ dead)"
    using sv_free_chain_run [where flag = b] xs by blast
  define q' where "q' = (if b then q\<lparr>sp_pool := (sp_pool q)\<lparr>bUseFlag := 0\<rparr>\<rparr> else q)"
  have q': "sv_wf len q' (if b then rev xs @ fl else fl) (remove1 xs bl) (if b then dead else rev xs @ dead)"
    "\<And>y. y \<notin> set xs \<Longrightarrow> vp_nodes (sp_pool q') y = vp_nodes (sv_family v len t) y"
    using q q1(1) by (auto simp: q'_def sv_family_def)
  let ?v = "sv_report at (sv_set_pool len t m q' v)" and ?g = "upd_ghost len t (if b then rev xs @ fl else fl, remove1 xs bl,
    if b then dead else rev xs @ dead) g"
  have run: "Sv_FreeVmem clk (sint h) v = Some (0, ?v)"
    using wf h tf st q(1) xs by (simp add: Sv_FreeVmem_def sv_vmem_wf_def Let_def q'_def q1_def not_le [symmetric])
  have "pool_wf len (sv_family v len t) fl bl dead" using pw by (simp add: sv_family_def)
  moreover have "pool_wf len (sp_pool q') (if b then rev xs @ fl else fl) (remove1 xs bl) (if b then dead else rev xs @ dead)"
    using q'(1) by (simp add: sv_wf_def)
  ultimately have "sv_contents ?v ?g = (sv_contents v g)(h := None)"
    using fam_freed [where P = "sv_family v" and g = g, OF h(1-4) _ h(6,7) _ q'(2)] by (simp add: sv_contents_def)
  then show ?thesis using run sv_vmem_wf_update [OF wf q'(1)] by auto
qed

subsection \<open>The functions implement the store\<close>

lemma sint_eq [simp]: "(sint a = sint (b :: u32)) = (a = b)"
  by (metis signed_word_eqI)

lemma sv_rep_iff:
  "sv_rep v m \<longleftrightarrow> (\<exists>g. sv_vmem_wf v g \<and> (\<forall>h. m (sint h) = sv_contents v g h) \<and> (\<forall>r. sint (word_of_int r :: u32) \<noteq> r \<longrightarrow> m r = None))"
proof -
  have "m = (\<lambda>r. if sint (word_of_int r :: u32) = r then c (word_of_int r) else None) \<longleftrightarrow>
    (\<forall>h. m (sint h) = c h) \<and> (\<forall>r. sint (word_of_int r :: u32) \<noteq> r \<longrightarrow> m r = None)" for c :: "u32 \<Rightarrow> u8 list option"
  proof
    assume "(\<forall>h. m (sint h) = c h) \<and> (\<forall>r. sint (word_of_int r :: u32) \<noteq> r \<longrightarrow> m r = None)"
    then show "m = (\<lambda>r. if sint (word_of_int r :: u32) = r then c (word_of_int r) else None)" by (metis (mono_tags, lifting) ext)
  qed simp
  then show ?thesis by (simp add: sv_rep_def)
qed

lemma sv_rep_Some: "sv_rep v m \<Longrightarrow> m r = Some b \<Longrightarrow> \<exists>g h. sv_vmem_wf v g \<and> r = sint h \<and> sv_contents v g h = Some b"
  unfolding sv_rep_iff by (metis option.distinct(1))

interpretation sv: blob_store "Sv_SaveToVmem clk" "\<lambda>r v. map_option fst (Sv_GetFromVmem_Local2 r v)"
  "\<lambda>r v. map_option snd (Sv_FreeVmem clk r v)" sv_rep storable
  for clk :: "nat \<Rightarrow> u32"
proof unfold_locales
  fix s m b
  assume rep: "sv_rep s m" and b: "storable b"
  obtain g where g: "sv_vmem_wf s g" "\<forall>h. m (sint h) = sv_contents s g h" "\<forall>r. sint (word_of_int r :: u32) \<noteq> r \<longrightarrow> m r = None"
    using rep by (auto simp: sv_rep_iff)
  obtain r s' g' where r: "Sv_SaveToVmem clk b s = Some (r, s')" "sv_vmem_wf s' g'"
    "r < 0 \<and> sv_contents s' g' = sv_contents s g \<or>
     (\<exists>h. r = sint h \<and> 0 \<le> r \<and> sv_contents s g h = None \<and> sv_contents s' g' = (sv_contents s g)(h \<mapsto> b))"
    using Sv_SaveToVmem_outcome [OF g(1) b, of clk] by (auto simp: sv_outcome_def)
  have "if r < 0 then sv_rep s' m else m r = None \<and> sv_rep s' (m(r \<mapsto> b))"
    using r(3)
  proof
    assume "r < 0 \<and> sv_contents s' g' = sv_contents s g"
    then show ?thesis using g r(2) by (auto simp: sv_rep_iff)
  next
    assume "\<exists>h. r = sint h \<and> 0 \<le> r \<and> sv_contents s g h = None \<and> sv_contents s' g' = (sv_contents s g)(h \<mapsto> b)"
    then obtain h where h: "r = sint h" "0 \<le> r" "sv_contents s g h = None" "sv_contents s' g' = (sv_contents s g)(h \<mapsto> b)"
      by blast
    have "sv_rep s' (m(r \<mapsto> b))" unfolding sv_rep_iff using r(2) g(2,3) h(1,4) by (intro exI [of _ g']) auto
    then show ?thesis using g(2) h by simp
  qed
  then show "\<exists>r s'. Sv_SaveToVmem clk b s = Some (r, s') \<and>
      (if r < 0 then sv_rep s' m else m r = None \<and> sv_rep s' (m(r \<mapsto> b)))" using r(1) by blast
next
  fix s m r b
  assume "sv_rep s m" "m r = Some b" "storable b"
  then show "map_option fst (Sv_GetFromVmem_Local2 r s) = Some (Some b)"
    using sv_rep_Some Sv_GetFromVmem_Local2_contents by fastforce
next
  fix s m r b
  assume rep: "sv_rep s m" and m: "m r = Some b"
  obtain g where g: "sv_vmem_wf s g" "\<forall>h. m (sint h) = sv_contents s g h" "\<forall>r. sint (word_of_int r :: u32) \<noteq> r \<longrightarrow> m r = None"
    using rep by (auto simp: sv_rep_iff)
  obtain h :: u32 where h: "r = sint h" using g(3) m by (metis option.distinct(1))
  then have "sv_contents s g h = Some b" using g(2) m by simp
  from Sv_FreeVmem_contents [OF g(1) this, of clk] obtain s' g' where s': "Sv_FreeVmem clk r s = Some (0, s')" "sv_vmem_wf s' g'"
    "sv_contents s' g' = (sv_contents s g)(h := None)" using h by auto
  have "sv_rep s' (m(r := None))" unfolding sv_rep_iff using s'(2,3) g(2,3) h by (intro exI [of _ g']) auto
  then show "\<exists>s'. map_option snd (Sv_FreeVmem clk r s) = Some s' \<and> sv_rep s' (m(r := None))"
    using s'(1) by simp
qed

text \<open>What \<open>MtReport_GetFromVmem\<close> finds, in a buffer that is large enough.\<close>

lemma Sv_GetFromVmem_rep:
  assumes "sv_rep v m" "m r = Some b" "int (length b) \<le> room"
  shows "Sv_GetFromVmem r room v = Some (0, b, [102])"
  using sv_rep_Some [OF assms(1,2)] Sv_GetFromVmem_contents assms(3) by blast

subsection \<open>Initialisation\<close>

lemma sv_init_lens_fresh:
  assumes new: "\<And>key sz chk p. \<exists>a p'. MtReport_GetShm_comm os key sz iFlag chk p = (1, Some a, [], p')"
    and layout: "\<And>m a len j. len \<in> set lens \<Longrightarrow> vp_slots (sp_pool (view m a len j)) = sv_node_count len \<and>
      buf_ok len (sp_pool (view m a len j)) \<and> wDelayFree (view m a len j) = 0"
    and dist: "distinct lens"
  shows "\<exists>v' p'. sv_init_lens os view iFlag key lens v p = (True, v', p') \<and>
    (\<forall>len j. len \<in> set lens \<longrightarrow> sv_wf len (sv_pools v' len j) (map of_nat [1..<sv_node_count len]) [] []) \<and>
    (\<forall>len. len \<notin> set lens \<longrightarrow> sv_pools v' len = sv_pools v len)"
  using layout dist
proof (induction lens arbitrary: key v p)
  case (Cons len lens)
  let ?sz = "sizeof_VmemBufNode len * sv_node_count len * SV_VMEM_SHM_COUNT" and ?chk = "map of_char (sv_check_str len) :: u8 list"
  obtain a p1 where 1: "MtReport_GetShm_comm os key ?sz iFlag ?chk p = (1, Some a, [], p1)" using new by blast
  define v1 where "v1 = sv_report [] (v\<lparr>sv_pools := (sv_pools v)(len := (\<lambda>j. let q = view (pr_mem p1) a len j in
    q\<lparr>sp_pool := VMEM_CREATE_INIT_SHM (sv_node_count len) (sp_pool q)\<rparr>))\<rparr>)"
  obtain v' p' where 2: "sv_init_lens os view iFlag (key + 1) lens v1 p1 = (True, v', p')"
    "\<forall>len j. len \<in> set lens \<longrightarrow> sv_wf len (sv_pools v' len j) (map of_nat [1..<sv_node_count len]) [] []"
    "\<forall>len. len \<notin> set lens \<longrightarrow> sv_pools v' len = sv_pools v1 len"
    using Cons.IH [of "key + 1" v1 p1] Cons.prems by auto
  have nc: "2 \<le> sv_node_count len" "sv_node_count len + 1 < 2 ^ 16" by (simp_all add: sv_node_count_def)
  have "sv_wf len (sv_pools v1 len j) (map of_nat [1..<sv_node_count len]) [] []" for j
    using sv_create_wf [OF _ nc, of "view (pr_mem p1) a len j"] Cons.prems(1) [of len "pr_mem p1" a j] by (simp add: v1_def Let_def)
  moreover have "sv_pools v' len = sv_pools v1 len" using 2(3) Cons.prems(2) by simp
  ultimately have "\<forall>len' j. len' \<in> set (len # lens) \<longrightarrow> sv_wf len' (sv_pools v' len' j) (map of_nat [1..<sv_node_count len']) [] []"
    using 2(2) by auto
  moreover have "\<forall>len'. len' \<notin> set (len # lens) \<longrightarrow> sv_pools v' len' = sv_pools v len'" using 2(3) by (simp add: v1_def sv_report_def)
  moreover have "sv_init_lens os view iFlag key (len # lens) v p = (True, v', p')" using 1 2(1) by (simp add: v1_def Let_def)
  ultimately show ?case by blast
qed simp

text \<open>
  On a machine where the segments can be created the store is initialised and empty, whatever the layout of the new bytes is
  apart from the sizes of the pools and the counter of waiting nodes, which \<open>memset\<close> has cleared.
\<close>

lemma Sv_InitVmem_ByFlag_empty:
  assumes "sv_cIsInit v = 0" "\<And>key sz chk p. \<exists>a p'. MtReport_GetShm_comm os key sz iFlag chk p = (1, Some a, [], p')"
    and "\<And>m a len j. len \<in> set vmem_lens \<Longrightarrow> vp_slots (sp_pool (view m a len j)) = sv_node_count len \<and>
      buf_ok len (sp_pool (view m a len j)) \<and> wDelayFree (view m a len j) = 0"
  shows "\<exists>v' p'. Sv_InitVmem_ByFlag os view iFlag iShmKey v p = (0, v', p') \<and> sv_rep v' (\<lambda>_. None)"
proof -
  have "distinct vmem_lens" by (simp add: vmem_lens_def)
  then obtain v1 p1 where 1: "sv_init_lens os view iFlag (iShmKey + 1) vmem_lens v p = (True, v1, p1)"
    "\<forall>len j. len \<in> set vmem_lens \<longrightarrow> sv_wf len (sv_pools v1 len j) (map of_nat [1..<sv_node_count len]) [] []"
    using sv_init_lens_fresh [where view = view and lens = vmem_lens and key = "iShmKey + 1" and v = v and p = p, OF assms(2,3)] by blast
  let ?g = "\<lambda>len i. (map of_nat [1..<sv_node_count len], [], [])"
  have "sv_vmem_wf (v1\<lparr>sv_cIsInit := 1\<rparr>) ?g" using 1(2) by (simp add: sv_vmem_wf_def)
  moreover have "sv_contents (v1\<lparr>sv_cIsInit := 1\<rparr>) ?g h = None" for h
    by (auto simp: sv_contents_def fam_contents_def lookup_def split: prod.splits)
  ultimately have "sv_rep (v1\<lparr>sv_cIsInit := 1\<rparr>) (\<lambda>_. None)" by (auto simp: sv_rep_iff)
  then show ?thesis using 1(1) assms(1) by (simp add: Sv_InitVmem_ByFlag_def)
qed

text \<open>A string longer than the buffer whose first nodes fill it exactly is returned cut, with return code 0.\<close>

lemma sv_get_chain_cut:
  assumes "readable len p (x # y # ys)" "filled len p (x # y # ys)"
  shows "sv_get_chain len p x (int len) [] = Some (0, node_data (vp_nodes p x))"
proof -
  have "bDataLen (vp_nodes p x) \<noteq> 0" "unat (bDataLen (vp_nodes p x)) = len" using assms(2) by (auto simp: filled_def)
  then show ?thesis by (simp add: sv_get_chain_step [OF assms(1)] Let_def)
qed

end
