(* ===== verification/Server_Props.thy ===== *)
theory Server_Props
  imports Agent_Props Cfg_Props Sv_Store
begin

text \<open>
  The server's side of a log: the line it makes of a packet entry fits its buffer, and
  \<open>WriteAppLogToShm\<close> stores it so that a reader of the ring finds it.
\<close>

subsection \<open>The line\<close>

lemma dec_length: "n < 10 ^ k \<Longrightarrow> 0 < k \<Longrightarrow> length (dec n) \<le> k"
proof (induction k arbitrary: n)
  case (Suc k)
  show ?case
  proof (cases "n < 10")
    case False
    then have "0 < k" "n div 10 < 10 ^ k" using Suc.prems(1) by (cases k; simp add: less_mult_imp_div_less)+
    then show ?thesis using Suc.IH [of "n div 10"] False by (subst dec.simps) simp
  qed (simp add: dec.simps)
qed simp

lemma pad6_length: "n < 1000000 \<Longrightarrow> length (pad6 n) = 6"
  using dec_length [of n 6] by (simp add: pad6_def)

text \<open>The time stamp in front of the text.\<close>

definition log_stamp :: "SrvEnv \<Rightarrow> LogInfo \<Rightarrow> u8 list" where
  "log_stamp env p = bytes (se_date env (li_qwLogTime p div 1000000) @ ''.'' @ pad6 (unat (li_qwLogTime p mod 1000000)) @ '' '')"

text \<open>\<open>strftime\<close> with the format of the source gives 19 characters.\<close>

definition dates_ok :: "SrvEnv \<Rightarrow> bool" where
  "dates_ok env \<longleftrightarrow> (\<forall>t. length (se_date env t) = 19 \<and> 0 \<notin> set (bytes (se_date env t)))"

lemma log_stamp_length: "dates_ok env \<Longrightarrow> length (log_stamp env p) = 27"
proof -
  assume d: "dates_ok env"
  have "unat (li_qwLogTime p mod 1000000) < 1000000" by (simp add: unat_mod)
  then show ?thesis using d pad6_length by (simp add: log_stamp_def dates_ok_def bytes_def)
qed

lemma digit_not_nul:
  assumes "digit_in 10 c"
  shows "(of_char c :: u8) \<noteq> 0"
proof -
  define n :: nat where "n = of_char c"
  have "0 < n" "n < 256" using assms by (auto simp: digit_in_def digit_of_def n_def Let_def split: if_splits option.splits)
  then have "unat (of_nat n :: u8) \<noteq> 0" by (simp add: unat_of_nat)
  moreover have "(of_char c :: u8) = of_nat n" unfolding n_def by (rule of_nat_of_char [symmetric])
  ultimately show ?thesis by (metis unat_0)
qed

lemma log_stamp_nul:
  assumes "dates_ok env"
  shows "0 \<notin> set (log_stamp env p)"
proof -
  have "(of_char c :: u8) \<noteq> 0" if "c \<in> set (pad6 n)" for c n
  proof -
    have "digit_in 10 (CHR ''0'')" by code_simp
    then have "digit_in 10 c" using that dec_digits [of n] by (auto simp: pad6_def)
    then show ?thesis by (rule digit_not_nul)
  qed
  then show ?thesis using assms by (auto simp: log_stamp_def dates_ok_def bytes_def)
qed

text \<open>The line without its NUL; \<open>st\<close> is the byte behind the text in the packet.\<close>

definition srv_line :: "SrvEnv \<Rightarrow> LogInfo \<Rightarrow> u8 list \<Rightarrow> u8 \<Rightarrow> u8 list" where
  "srv_line env p tx st = log_stamp env p @
     (if BWORLD_SLOG_MAX_LINE_LEN \<le> length tx then take BWORLD_SLOG_MAX_LINE_LEN tx @ TOO_LONG_LOG_TRUNCATE_STR
      else tx @ (if st = 0 then [] else [st]))"

definition text_is :: "LogInfo \<Rightarrow> u8 list \<Rightarrow> u8 \<Rightarrow> bool" where
  "text_is p tx st \<longleftrightarrow> (\<exists>r. drop (unat (li_wCustDataLen p)) (li_sLog p) = tx @ st # r) \<and>
     unat (li_wLogDataLen p) = Suc (length tx) \<and> 0 \<notin> set tx"

lemma mark_chars: "length TOO_LONG_LOG_TRUNCATE_STR = 30" "0 \<notin> set TOO_LONG_LOG_TRUNCATE_STR" "last TOO_LONG_LOG_TRUNCATE_STR \<noteq> 0"
  by code_simp+

lemma srv_text_line:
  assumes d: "dates_ok env" and t: "text_is p tx st"
  shows "srv_text env p = Some (srv_line env p tx st @ [0])" "0 \<notin> set (srv_line env p tx st)" "length (srv_line env p tx st) \<le> 1081"
proof -
  obtain r where r: "drop (unat (li_wCustDataLen p)) (li_sLog p) = tx @ st # r" "unat (li_wLogDataLen p) = Suc (length tx)" "0 \<notin> set tx"
    using t by (auto simp: text_is_def)
  have sl: "length (log_stamp env p) = 27" by (rule log_stamp_length [OF d])
  have len: "length (srv_line env p tx st) \<le> 1081"
    by (simp add: srv_line_def sl mark_chars BWORLD_SLOG_MAX_LINE_LEN_def)
  then show "length (srv_line env p tx st) \<le> 1081" .
  show "0 \<notin> set (srv_line env p tx st)"
    using log_stamp_nul [OF d, of p] r(3) mark_chars(2) by (auto simp: srv_line_def dest: in_set_takeD)
  show "srv_text env p = Some (srv_line env p tx st @ [0])"
  proof (cases "BWORLD_SLOG_MAX_LINE_LEN \<le> length tx")
    case True
    then have "TOO_LONG_LOG_TRUNCATE_STR \<noteq> []" using mark_chars(1) by auto
    then show ?thesis
      unfolding srv_text_def Let_def log_stamp_def [symmetric] r(1,2)
      using True len by (simp add: srv_line_def sl mark_chars BWORLD_SLOG_MAX_LINE_LEN_def)
  next
    case False
    then show ?thesis
      unfolding srv_text_def Let_def log_stamp_def [symmetric] r(1,2)
      using len by (auto simp: srv_line_def sl BWORLD_SLOG_MAX_LINE_LEN_def)
  qed
qed

subsection \<open>The string store of the server\<close>

text \<open>What the server relies on: the laws of a string store for strings that fit a line.\<close>

locale line_store = blob_store save fetch release rep storable
  for save :: "u8 list \<Rightarrow> 'v \<Rightarrow> (int \<times> 'v) option" and fetch release rep storable +
  assumes lines_storable: "b \<noteq> [] \<Longrightarrow> length b \<le> BWORLD_SLOG_MAX_LINE_LEN + 64 \<Longrightarrow> storable b"

text \<open>The text of a record as a reader of the ring puts it together.\<close>

definition srv_log_text :: "(int \<Rightarrow> u8 list option) \<Rightarrow> TSLog \<Rightarrow> u8 list option" where
  "srv_log_text m l = (if ts_iContentIndex l < 0 then Some (c_str (ts_sLogContent l))
     else map_option (\<lambda>t. c_str (take (BWORLD_MEMLOG_BUF_LENGTH - 4) (ts_sLogContent l) @ t)) (m (ts_iContentIndex l)))"

definition line_kept :: "SrvEnv \<Rightarrow> LogInfo \<Rightarrow> u8 list \<Rightarrow> (int \<Rightarrow> u8 list option) \<Rightarrow> TSLog \<Rightarrow> bool" where
  "line_kept env p line m l \<longleftrightarrow>
     ts_wLogType l = li_wLogType p \<and> srv_log_text m l = Some (if se_vmem env then line else take 255 line) \<or>
     se_vmem env \<and> 255 \<le> length line \<and> ts_wLogType l = SLOG_TYPE_ERROR \<and> ts_iContentIndex l = -1"

text \<open>
  A reader can use the content: the array has a NUL, or the string store has the rest of the
  line, which starts with the last four bytes of the array and fits the reader's buffer.
\<close>

definition text_ready :: "(int \<Rightarrow> u8 list option) \<Rightarrow> TSLog \<Rightarrow> bool" where
  "text_ready m l \<longleftrightarrow> (if ts_iContentIndex l < 0 then 0 \<in> set (ts_sLogContent l)
     else \<exists>d. m (ts_iContentIndex l) = Some d \<and> take 4 (drop 252 (ts_sLogContent l)) = take 4 d \<and> 4 \<le> length d \<and> length d \<le> 830)"

text \<open>What the content members leave alone.\<close>

definition head_kept :: "TSLog \<Rightarrow> TSLog \<Rightarrow> bool" where
  "head_kept l l' \<longleftrightarrow> ts_cust l' = ts_cust l \<and> ts_dwLogConfigId l' = ts_dwLogConfigId l \<and> ts_dwLogHost l' = ts_dwLogHost l \<and>
     ts_qwLogTime l' = ts_qwLogTime l \<and> ts_iAppId l' = ts_iAppId l \<and> ts_iModuleId l' = ts_iModuleId l"

lemma kept_seq:
  "line_kept env p line m (l\<lparr>ts_dwLogSeq := q\<rparr>) = line_kept env p line m l" "head_kept k (l\<lparr>ts_dwLogSeq := q\<rparr>) = head_kept k l"
  "text_ready m (l\<lparr>ts_dwLogSeq := q\<rparr>) = text_ready m l"
  by (simp_all add: line_kept_def srv_log_text_def head_kept_def text_ready_def)

context line_store
begin

lemma srv_content_keeps:
  assumes rep: "rep v m" and line: "0 \<notin> set line" "length line \<le> 1081"
  shows "\<exists>put v' m'. srv_content env save s p (line @ [0]) v = Some (put, v') \<and> rep v' m' \<and> m \<subseteq>\<^sub>m m' \<and>
    (\<forall>l. head_kept l (put l) \<and> text_ready m' (put l) \<and> (ts_wLogType l = li_wLogType p \<longrightarrow> line_kept env p line m' (put l)))"
proof -
  have c: "c_str (line @ 0 # r) = line" for r by (rule c_str_nul_free(1) [OF line(1)])
  consider (short) "length line < 255" | (cut) "255 \<le> length line" "\<not> se_vmem env" | (long) "255 \<le> length line" "se_vmem env"
    by linarith
  then show ?thesis
  proof cases
    case short
    let ?put = "\<lambda>l. l\<lparr>ts_iContentIndex := -1, ts_sLogContent := line @ 0 # drop (Suc (length line)) (ts_sLogContent l)\<rparr>"
    have "srv_content env save s p (line @ [0]) v = Some (?put, v)"
      using short c [of "[]"] by (simp add: srv_content_def BWORLD_MEMLOG_BUF_LENGTH_def)
    then show ?thesis using short rep c by (auto simp: head_kept_def line_kept_def srv_log_text_def text_ready_def)
  next
    case cut
    let ?put = "\<lambda>l. l\<lparr>ts_iContentIndex := -1, ts_sLogContent := take 255 line @ [0]\<rparr>"
    have "c_str (take 255 line @ [0]) = take 255 line" using line(1) by (intro c_str_nul_free(1)) (meson in_set_takeD)
    moreover have "srv_content env save s p (line @ [0]) v = Some (?put, v)"
      using cut by (simp add: srv_content_def BWORLD_MEMLOG_BUF_LENGTH_def)
    ultimately show ?thesis using cut rep by (auto simp: head_kept_def line_kept_def srv_log_text_def text_ready_def)
  next
    case long
    let ?b = "line @ [0]" and ?d = "drop 252 (line @ [0])"
    have "storable ?d" using long(1) line(2) by (intro lines_storable) (simp_all add: BWORLD_SLOG_MAX_LINE_LEN_def)
    then obtain r v' where save: "save ?d v = Some (r, v')" "if r < 0 then rep v' m else m r = None \<and> rep v' (m(r \<mapsto> ?d))"
      using save_law [OF rep] by blast
    show ?thesis
    proof (cases "r < 0")
      case True
      then show ?thesis
        using save long by (auto simp: srv_content_def Let_def head_kept_def line_kept_def text_ready_def BWORLD_MEMLOG_BUF_LENGTH_def)
    next
      case False
      let ?put = "\<lambda>l. l\<lparr>ts_sLogContent := take 256 ?b, ts_iContentIndex := r\<rparr>"
      have "take 252 (take 256 ?b) @ ?d = line @ [0]" by (simp only: take_take min.absorb1) (rule append_take_drop_id)
      then have "srv_log_text (m(r \<mapsto> ?d)) (?put l) = Some line" for l
        using False c [of "[]"] by (simp add: srv_log_text_def BWORLD_MEMLOG_BUF_LENGTH_def)
      moreover have "srv_content env save s p ?b v = Some (?put, v')"
        using False save(1) long by (simp add: srv_content_def Let_def BWORLD_MEMLOG_BUF_LENGTH_def)
      moreover have "take 4 (drop 252 (take 256 b)) = take 4 (drop 252 b)" for b :: "u8 list" by (simp add: drop_take)
      then have "text_ready (m(r \<mapsto> ?d)) (?put l)" for l
        using False long(1) line(2) by (simp only: text_ready_def) (simp del: drop_append take_append, linarith)
      moreover have "m \<subseteq>\<^sub>m m(r \<mapsto> ?d)" using False save(2) by (auto simp: map_le_def)
      ultimately show ?thesis using False save(2) long by (auto simp: head_kept_def line_kept_def)
    qed
  qed
qed

end

subsection \<open>The ring\<close>

lemma InitGet_flag: "\<exists>f. InitGetShmLogIndex env n k s = s\<lparr>sh_bTryGetLogIndex := f\<rparr>"
proof (induction n arbitrary: k s)
  case 0
  show ?case by (rule exI [of _ "sh_bTryGetLogIndex s"]) simp
next
  case (Suc n)
  show ?case
  proof (cases "sh_bTryGetLogIndex s = 0")
    case False
    then show ?thesis using Suc.IH [of "Suc k" "s\<lparr>sh_bTryGetLogIndex := se_sleep env k (sh_bTryGetLogIndex s)\<rparr>"] by auto
  qed auto
qed

lemma take_flag_back [simp]:
  "EndGetShmLogIndex (InitGetShmLogIndex env n k s) = s\<lparr>sh_bTryGetLogIndex := 0\<rparr>"
  "sh_iWriteIndex (InitGetShmLogIndex env n k s) = sh_iWriteIndex s"
  "sh_iLogStarIndex (InitGetShmLogIndex env n k s) = sh_iLogStarIndex s"
  "sh_sLogList (InitGetShmLogIndex env n k s) = sh_sLogList s"
  "sh_iAppId (InitGetShmLogIndex env n k s) = sh_iAppId s"
  using InitGet_flag [of env n k s] by (auto simp: EndGetShmLogIndex_def)

definition srv_ring_ok :: "SrvEnv \<Rightarrow> TSLogShm \<Rightarrow> bool" where
  "srv_ring_ok env s \<longleftrightarrow> 0 \<le> sh_iWriteIndex s \<and> sh_iWriteIndex s < int (length (sh_sLogList s)) \<and>
     se_max env = int (length (sh_sLogList s)) \<and> -1 \<le> sh_iLogStarIndex s \<and>
     (\<forall>l\<in>set (sh_sLogList s). length (szCust_5 (ts_cust l)) = 16 \<and> szCust_5 (ts_cust l) ! 15 = 0 \<and>
        length (szCust_6 (ts_cust l)) = 32 \<and> szCust_6 (ts_cust l) ! 31 = 0)"

text \<open>The packet entry has no custom fields, or fields as a process encodes them with one string at most.\<close>

definition cust_is :: "LogInfo \<Rightarrow> bool" where
  "cust_is p \<longleftrightarrow> li_wCustDataLen p = 0 \<or>
     (\<exists>c r. li_sLog p = cust_bytes c @ r \<and> \<not> (is_set MTLOG_CUST_FLAG_C5_SET c \<and> is_set MTLOG_CUST_FLAG_C6_SET c))"

definition cust_kept :: "LogInfo \<Rightarrow> TSLog \<Rightarrow> TSLog \<Rightarrow> bool" where
  "cust_kept p old l \<longleftrightarrow> (if li_wCustDataLen p = 0 then ts_cust l = ts_cust old else decode_cust (li_sLog p) (ts_cust old) = Some (ts_cust l))"

text \<open>The ring \<open>s'\<close> is \<open>s\<close> with the entry \<open>p\<close> stored at the write index.\<close>

definition srv_stored :: "SrvEnv \<Rightarrow> LogInfo \<Rightarrow> u32 \<Rightarrow> u8 list \<Rightarrow> (int \<Rightarrow> u8 list option) \<Rightarrow> TSLogShm \<Rightarrow> TSLogShm \<Rightarrow> bool" where
  "srv_stored env p host line m s s' \<longleftrightarrow> (let i = nat (sh_iWriteIndex s) in \<exists>l. sh_sLogList s' = (sh_sLogList s)[i := l] \<and>
     line_kept env p line m l \<and> text_ready m l \<and> cust_kept p (sh_sLogList s ! i) l \<and> ts_dwLogSeq l \<noteq> 0 \<and> ts_iAppId l = li_iAppId p \<and>
     ts_iModuleId l = li_iModuleId p \<and> ts_dwLogConfigId l = li_dwLogConfigId p \<and> ts_qwLogTime l = li_qwLogTime p \<and> ts_dwLogHost l = host) \<and>
     sh_iWriteIndex s' = (sh_iWriteIndex s + 1) mod int (length (sh_sLogList s)) \<and>
     sh_iLogStarIndex s' = (if sh_iLogStarIndex s = -1 then sh_iWriteIndex s else sh_iLogStarIndex s) \<and>
     sh_bTryGetLogIndex s' = 0"

lemma next_index_mod:
  assumes "0 \<le> i" "i < n" "se_max env = n"
  shows "SLOG_NEXT_INDEX env i = (i + 1) mod n"
proof (cases "i + 1 = n")
  case False
  then have "(i + 1) mod n = i + 1" using assms by (intro mod_pos_pos_trivial) simp_all
  then show ?thesis using assms False by (simp add: SLOG_NEXT_INDEX_def)
qed (use assms in \<open>simp add: SLOG_NEXT_INDEX_def\<close>)

lemma modify_law:
  fixes env i s
  defines "t \<equiv> ModifyLogStartIndexCmpAndSwap env (-1) i s"
  shows "sh_sLogList t = sh_sLogList s" "sh_iWriteIndex t = sh_iWriteIndex s"
    "sh_iLogStarIndex t = (if sh_iLogStarIndex s = -1 then i else sh_iLogStarIndex s)" "sh_bTryGetLogIndex s = 0 \<Longrightarrow> sh_bTryGetLogIndex t = 0"
  unfolding t_def ModifyLogStartIndexCmpAndSwap_def Let_def by (simp_all add: EndGetShmLogIndex_def)

lemma srv_seq_law:
  "srv_seq s = (q, s') \<Longrightarrow> q \<noteq> 0 \<and> sh_sLogList s' = sh_sLogList s \<and> sh_iWriteIndex s' = sh_iWriteIndex s \<and>
    sh_iLogStarIndex s' = sh_iLogStarIndex s \<and> sh_bTryGetLogIndex s' = sh_bTryGetLogIndex s"
  by (auto simp: srv_seq_def split: if_splits)

lemma cust_decoded:
  assumes "cust_is p" "length (szCust_5 c) = 16" "szCust_5 c ! 15 = 0" "length (szCust_6 c) = 32" "szCust_6 c ! 31 = 0"
  shows "\<exists>e. (if 0 < li_wCustDataLen p then decode_cust (li_sLog p) c else Some c) = Some e \<and>
    (if li_wCustDataLen p = 0 then e = c else decode_cust (li_sLog p) c = Some e)"
proof (cases "li_wCustDataLen p = 0")
  case False
  then obtain k r where "li_sLog p = cust_bytes k @ r" "\<not> (is_set MTLOG_CUST_FLAG_C5_SET k \<and> is_set MTLOG_CUST_FLAG_C6_SET k)"
    using assms(1) by (auto simp: cust_is_def)
  then show ?thesis using False decode_cust_run [OF _ assms(2-5), of k r] by (auto simp: word_greater_zero_iff)
qed simp

context line_store
begin

lemma write_app_log_run:
  assumes rep: "rep v m" and ring: "srv_ring_ok env s" and room: "sh_iWriteIndex s \<noteq> sh_iLogStarIndex s"
    and p: "dates_ok env" "text_is p tx st" "cust_is p"
  shows "\<exists>s' v' m'. write_app_log env save p host s v = Some (0, s', v') \<and> rep v' m' \<and> m \<subseteq>\<^sub>m m' \<and>
    srv_stored env p host (srv_line env p tx st) m' s s'"
proof -
  let ?i = "sh_iWriteIndex s" and ?line = "srv_line env p tx st"
  have i: "0 \<le> ?i" "nat ?i < length (sh_sLogList s)" "\<not> length (sh_sLogList s) \<le> nat ?i" using ring by (auto simp: srv_ring_ok_def)
  define s1 where "s1 = InitGetShmLogIndex env 100 0 s"
  obtain q s2 where q: "srv_seq (s1\<lparr>sh_iWriteIndex := SLOG_NEXT_INDEX env ?i\<rparr>) = (q, s2)" by (cases "srv_seq (s1\<lparr>sh_iWriteIndex := SLOG_NEXT_INDEX env ?i\<rparr>)")
  note seq = srv_seq_law [OF q]
  define s3 where "s3 = EndGetShmLogIndex s2"
  let ?old = "sh_sLogList s ! nat ?i"
  let ?l0 = "?old\<lparr>ts_dwStartWriteLogTime := se_now env, ts_dwLogSeq := 0\<rparr>"
  have s3: "sh_sLogList s3 = sh_sLogList s" "sh_iWriteIndex s3 = SLOG_NEXT_INDEX env ?i" "sh_iLogStarIndex s3 = sh_iLogStarIndex s"
    "sh_bTryGetLogIndex s3 = 0" "sh_sLogList s2 = sh_sLogList s"
    using seq by (simp_all add: s3_def EndGetShmLogIndex_def s1_def)
  have cu0: "length (szCust_5 (ts_cust ?l0)) = 16" "szCust_5 (ts_cust ?l0) ! 15 = 0" "length (szCust_6 (ts_cust ?l0)) = 32" "szCust_6 (ts_cust ?l0) ! 31 = 0"
    using ring i(2) by (simp_all add: srv_ring_ok_def)
  obtain cu where cu: "(if 0 < li_wCustDataLen p then decode_cust (li_sLog p) (ts_cust ?l0) else Some (ts_cust ?l0)) = Some cu"
    "if li_wCustDataLen p = 0 then cu = ts_cust ?l0 else decode_cust (li_sLog p) (ts_cust ?l0) = Some cu"
    using cust_decoded [OF p(3) cu0] by blast
  note line = srv_text_line [OF p(1,2)]
  obtain put v' m' where put: "srv_content env save s3 p (?line @ [0]) v = Some (put, v')" "rep v' m'" "m \<subseteq>\<^sub>m m'"
    "\<And>l. head_kept l (put l)" "\<And>l. ts_wLogType l = li_wLogType p \<Longrightarrow> line_kept env p ?line m' (put l)" "\<And>l. text_ready m' (put l)"
    using srv_content_keeps [OF rep line(2,3), of env s3 p] by blast
  define l1 where "l1 = ?l0\<lparr>ts_iModuleId := li_iModuleId p, ts_iAppId := li_iAppId p, ts_cust := cu, ts_wLogType := li_wLogType p,
          ts_qwLogTime := li_qwLogTime p, ts_dwLogHost := host, ts_dwLogConfigId := li_dwLogConfigId p\<rparr>"
  define l2 where "l2 = (put l1)\<lparr>ts_dwLogSeq := q\<rparr>"
  define s4 where "s4 = s3\<lparr>sh_sLogList := (sh_sLogList s)[nat ?i := l2]\<rparr>"
  define s5 where "s5 = ModifyLogStartIndexCmpAndSwap env (-1) ?i s4"
  have guards: "(?i = sh_iLogStarIndex s) = False" "(?i < 0 \<or> length (sh_sLogList s) \<le> nat ?i) = False" using i room by auto
  have s1: "sh_iWriteIndex s1 = ?i" "sh_iLogStarIndex s1 = sh_iLogStarIndex s" "sh_sLogList s1 = sh_sLogList s" by (simp_all add: s1_def)
  have run: "write_app_log env save p host s v = Some (0, s5, v')"
    by (simp only: write_app_log_def Let_def s1_def [symmetric] s1 guards if_False q prod.case s3_def [symmetric] s3(1,5) line(1) cu(1)
        put(1) bind.bind_lunit l1_def [symmetric] l2_def [symmetric] s4_def [symmetric] s5_def [symmetric])
  have "ts_wLogType l1 = li_wLogType p" by (simp add: l1_def)
  then have "line_kept env p ?line m' (put l1)" by (rule put(5))
  then have l2: "line_kept env p ?line m' l2" "head_kept l1 l2" "text_ready m' l2"
    using put(4) [of l1] put(6) [of l1] unfolding l2_def kept_seq by simp_all
  have "cust_kept p ?old l2" using cu(2) l2(2) by (auto simp: cust_kept_def head_kept_def l1_def)
  moreover have "ts_dwLogSeq l2 \<noteq> 0" using seq by (simp add: l2_def)
  moreover have "ts_iAppId l2 = li_iAppId p" "ts_iModuleId l2 = li_iModuleId p" "ts_dwLogConfigId l2 = li_dwLogConfigId p"
    "ts_qwLogTime l2 = li_qwLogTime p" "ts_dwLogHost l2 = host"
    using l2(2) by (simp_all add: head_kept_def l1_def)
  moreover have "sh_sLogList s5 = (sh_sLogList s)[nat ?i := l2]" "sh_iWriteIndex s5 = SLOG_NEXT_INDEX env ?i"
    "sh_iLogStarIndex s5 = (if sh_iLogStarIndex s = -1 then ?i else sh_iLogStarIndex s)" "sh_bTryGetLogIndex s5 = 0"
    unfolding s5_def modify_law(1-3) using s3 by (simp_all add: s4_def modify_law(4))
  moreover have "SLOG_NEXT_INDEX env ?i = (?i + 1) mod int (length (sh_sLogList s))"
    using ring by (intro next_index_mod) (auto simp: srv_ring_ok_def)
  ultimately have "srv_stored env p host ?line m' s s5" unfolding srv_stored_def Let_def using l2(1,3) by auto
  then show ?thesis using run put(2,3) by blast
qed

end

lemma write_app_log_full:
  assumes "sh_iWriteIndex s = sh_iLogStarIndex s"
  shows "write_app_log env save p host s v = Some (-3778, s\<lparr>sh_bTryGetLogIndex := 0\<rparr>, v)"
  using assms by (simp add: write_app_log_def Let_def)

text \<open>The server's string store has these laws.\<close>

interpretation sl: line_store "Sv_SaveToVmem clk" "\<lambda>r v. map_option fst (Sv_GetFromVmem_Local2 r v)"
  "\<lambda>r v. map_option snd (Sv_FreeVmem clk r v)" sv_rep storable
  for clk :: "nat \<Rightarrow> u32"
  by unfold_locales (auto simp: storable_def VMEM_MAX_DATA_LEN_def BWORLD_SLOG_MAX_LINE_LEN_def)

text \<open>
  C26. The server stores a packet entry in the ring of its application. The string store (\<open>sv_vmem.cpp\<close>) is well formed and holds the strings
  \<open>m\<close>, the ring has the length the server counts with, its write index lies inside, and its custom strings are terminated; the formatted time (a parameter) has its 19 characters and no NUL; the entry has a
  text without NUL and one byte behind it, and custom fields as a process encodes them with one string at most, or none. When the ring is full the
  entry is refused and nothing but the flag changes; else the record at the write index gets the numbers of
  the entry, a sequence number, the custom fields and the line, which can be read back (cut to
  255 characters without a string store; replaced by an error message when the store has no
  room). The indices move as in a ring, no other record changes, and every string of the store is kept. The line always fits the
  buffer.
\<close>

theorem WriteAppLogToShm_stores:
  assumes rep: "sv_rep v m" and ring: "srv_ring_ok env s" and p: "dates_ok env" "text_is p tx st" "cust_is p"
  shows "\<exists>rc s' v' m'. WriteAppLogToShm env clk p host s v = Some (rc, s', v') \<and> sv_rep v' m' \<and> m \<subseteq>\<^sub>m m' \<and>
    (if sh_iWriteIndex s = sh_iLogStarIndex s then rc = -3778 \<and> s' = s\<lparr>sh_bTryGetLogIndex := 0\<rparr> \<and> v' = v
     else rc = 0 \<and> srv_stored env p host (srv_line env p tx st) m' s s')"
proof (cases "sh_iWriteIndex s = sh_iLogStarIndex s")
  case True
  then show ?thesis using write_app_log_full [OF True, of env "Sv_SaveToVmem clk" p host v] rep by (auto simp: WriteAppLogToShm_def)
next
  case False
  then show ?thesis using sl.write_app_log_run [OF rep ring False p, of clk host] by (force simp: WriteAppLogToShm_def)
qed

definition demo_senv :: SrvEnv where
  "demo_senv = \<lparr>se_max = 2, se_vmem = True, se_now = 7, se_date = (\<lambda>_. ''2023-01-02 03:04:05''), se_sleep = (\<lambda>_ f. f)\<rparr>"

definition demo_entry_log :: TSLog where
  "demo_entry_log = \<lparr>ts_cust = zero_cust, ts_dwLogConfigId = 0, ts_dwLogHost = 0, ts_dwLogSeq = 0, ts_qwLogTime = 0, ts_iAppId = 0,
     ts_iModuleId = 0, ts_wLogType = 0, ts_iContentIndex = -1, ts_dwStartWriteLogTime = 0, ts_sLogContent = replicate 256 0\<rparr>"

definition demo_sring :: TSLogShm where
  "demo_sring = \<lparr>sh_dwLogSeq = 1, sh_bTryGetLogIndex = 0, sh_iLogStarIndex = -1, sh_iWriteIndex = 1, sh_iAppId = 1,
     sh_sLogList = [demo_entry_log, demo_entry_log]\<rparr>"

definition demo_packet :: LogInfo where
  "demo_packet = \<lparr>li_dwLogSeq = 5, li_iAppId = 1, li_iModuleId = 2, li_dwLogConfigId = 9, li_wLogType = 4, li_qwLogTime = 6000000,
     li_wCustDataLen = 0, li_wLogDataLen = 3, li_sLog = [104, 105, 0]\<rparr>"

text \<open>A string store whose pools have four slots.\<close>

definition demo_sv :: SvVmem where
  "demo_sv = \<lparr>sv_cIsInit = 1, sv_pools = (\<lambda>len i. \<lparr>sp_pool = demo_pool len, wDelayFree = 0\<rparr>), sv_tick = 0, sv_attrs = []\<rparr>"

lemma demo_sv_rep: "sv_rep demo_sv (\<lambda>_. None)"
proof -
  have "sv_vmem_wf demo_sv demo_ghost"
    by (simp add: sv_vmem_wf_def demo_sv_def demo_ghost_def sv_wf_def demo_pool_wf)
  moreover have "sv_contents demo_sv demo_ghost h = None" for h
    by (auto simp: sv_contents_def fam_contents_def demo_ghost_def lookup_def split: prod.splits)
  ultimately show ?thesis by (auto simp: sv_rep_iff)
qed

theorem WriteAppLogToShm_stores_witness:
  "\<exists>s' v' m'. WriteAppLogToShm demo_senv demo_clk demo_packet 3 demo_sring demo_sv = Some (0, s', v') \<and>
    sh_iWriteIndex s' = 0 \<and> sh_iLogStarIndex s' = 1 \<and> (\<exists>l. sh_sLogList s' = [demo_entry_log, l] \<and>
      srv_log_text m' l = Some (bytes ''2023-01-02 03:04:05.000000 hi''))"
proof -
  have d: "dates_ok demo_senv" unfolding dates_ok_def demo_senv_def SrvEnv.simps bytes_def by simp
  have t: "text_is demo_packet [104, 105] 0" by (simp add: text_is_def demo_packet_def)
  have c: "cust_is demo_packet" by (simp add: cust_is_def demo_packet_def)
  have r: "srv_ring_ok demo_senv demo_sring" by (simp add: srv_ring_ok_def demo_senv_def demo_sring_def demo_entry_log_def zero_cust_def)
  have line: "srv_line demo_senv demo_packet [104, 105] 0 = bytes ''2023-01-02 03:04:05.000000 hi''" by code_simp
  obtain rc s' v' m' where w: "WriteAppLogToShm demo_senv demo_clk demo_packet 3 demo_sring demo_sv = Some (rc, s', v')"
    "rc = 0 \<and> srv_stored demo_senv demo_packet 3 (bytes ''2023-01-02 03:04:05.000000 hi'') m' demo_sring s'"
    using WriteAppLogToShm_stores [OF demo_sv_rep r d t c, of demo_clk 3] unfolding line
    by (auto simp: demo_sring_def)
  then show ?thesis
    by (auto simp: srv_stored_def demo_sring_def Let_def line_kept_def demo_senv_def bytes_def)
qed

end
