(* ===== verification/Search_Props.thy ===== *)
theory Search_Props
  imports Search Server_Props "HOL-Library.Sublist"
begin

text \<open>
  The log search: its keyword tests decide whether the keywords occur (through the equivalence of
  the fast search with the plain one), and a log the server has just stored is the first one a
  search with matching terms returns.
\<close>

subsection \<open>The keyword tables\<close>

text \<open>The buffers and jump tables of the first \<open>n\<close> keys hold the keys \<open>ks\<close>.\<close>

definition keys_rep :: "nat \<Rightarrow> u8 list list \<Rightarrow> int list list \<Rightarrow> u8 list list \<Rightarrow> bool" where
  "keys_rep n keys tabs ks \<longleftrightarrow> n = length ks \<and> n \<le> SLOG_MAX_KEY_COUNT \<and>
     length keys = SLOG_MAX_KEY_COUNT \<and> length tabs = SLOG_MAX_KEY_COUNT \<and>
     (\<forall>b\<in>set keys. length b = SLOG_KEY_MAX_LENGTH \<and> b ! (SLOG_KEY_MAX_LENGTH - 1) = 0) \<and>
     (\<forall>i<n. c_str (keys ! i) = ks ! i \<and> (jump_ok (ks ! i) (tabs ! i) \<or> ks ! i = []))"

text \<open>A key of characters below 128, the last one apart.\<close>

definition key_ok :: "u8 list \<Rightarrow> bool" where
  "key_ok k \<longleftrightarrow> 0 \<notin> set k \<and> (\<forall>c\<in>set (butlast k). c < 128)"

lemma key_ok_take:
  assumes "key_ok k"
  shows "key_ok (take n k)"
proof -
  have "set (butlast (take n k)) \<subseteq> set (butlast k)"
  proof (cases "n < length k")
    case True
    then have "butlast (take n k) = take (n - 1) (butlast k)" by (simp add: butlast_take take_butlast)
    then show ?thesis by (simp add: set_take_subset)
  qed simp
  then show ?thesis using assms by (auto simp: key_ok_def dest: in_set_takeD)
qed

lemma jump_table_of_key:
  assumes "key_ok (c_str b)"
  shows "\<exists>tab. bmh_get_jump_table b = Some tab \<and> (jump_ok (c_str b) tab \<or> c_str b = [])"
proof (cases "c_str b = []")
  case True
  then show ?thesis by (simp add: bmh_get_jump_table_def)
next
  case False
  then show ?thesis using bmh_get_jump_table_ok [OF refl False] assms by (auto simp: key_ok_def)
qed

lemma keys_rep_add:
  assumes rep: "keys_rep n keys tabs ks" and room: "n < SLOG_MAX_KEY_COUNT" and k: "key_ok k"
  shows "\<exists>tab. bmh_get_jump_table (strncpy (SLOG_KEY_MAX_LENGTH - 1) k (keys ! n)) = Some tab \<and>
    keys_rep (Suc n) (keys[n := strncpy (SLOG_KEY_MAX_LENGTH - 1) k (keys ! n)]) (tabs[n := tab]) (ks @ [take (SLOG_KEY_MAX_LENGTH - 1) k])"
proof -
  let ?m = "SLOG_KEY_MAX_LENGTH - 1"
  let ?b = "strncpy ?m k (keys ! n)"
  have n: "n < length keys" "n < length tabs" "n = length ks" using rep room by (simp_all add: keys_rep_def)
  then have "length (keys ! n) = SLOG_KEY_MAX_LENGTH" "keys ! n ! ?m = 0" using rep nth_mem [of n keys] by (auto simp: keys_rep_def)
  then have b: "c_str ?b = take ?m k" "length ?b = SLOG_KEY_MAX_LENGTH" "?b ! ?m = 0"
    using c_str_strncpy [of k ?m "keys ! n"] k by (simp_all add: key_ok_def SLOG_KEY_MAX_LENGTH_def)
  then obtain tab where tab: "bmh_get_jump_table ?b = Some tab" "jump_ok (take ?m k) tab \<or> take ?m k = []"
    using jump_table_of_key [of ?b] key_ok_take [OF k, of ?m] by auto
  have "keys_rep (Suc n) (keys[n := ?b]) (tabs[n := tab]) (ks @ [take ?m k])"
    using rep room n b(1) tab(2) b(2,3) unfolding keys_rep_def
    by (auto simp: nth_append nth_list_update less_Suc_eq dest!: set_update_subset_insert [THEN subsetD])
  then show ?thesis using tab(1) by blast
qed

definition search_keys :: "CSLogSearch \<Rightarrow> u8 list list \<Rightarrow> u8 list list \<Rightarrow> bool" where
  "search_keys cs inc exc \<longleftrightarrow> keys_rep (m_iIncKeyCount cs) (m_stIncKey cs) (m_stIncJmpTab cs) inc \<and>
     keys_rep (m_iExcpKeyCount cs) (m_stExcpKey cs) (m_stExcpJmpTab cs) exc"

lemma search_keys_init: "search_keys (InitDefaultSearch cs) [] []"
  by (simp add: search_keys_def keys_rep_def InitDefaultSearch_def SLOG_KEY_MAX_LENGTH_def)

lemma AddIncludeKey_adds:
  assumes "search_keys cs inc exc" "length inc < SLOG_MAX_KEY_COUNT" "key_ok k"
  shows "\<exists>cs'. AddIncludeKey k cs = Some (int (length inc) + 1, cs') \<and> search_keys cs' (inc @ [take (SLOG_KEY_MAX_LENGTH - 1) k]) exc"
proof -
  have n: "m_iIncKeyCount cs = length inc" using assms(1) by (simp add: search_keys_def keys_rep_def)
  have k: "c_str k = k" using assms(3) by (simp add: key_ok_def c_str_nul_free)
  show ?thesis
    using keys_rep_add [of "length inc" "m_stIncKey cs" "m_stIncJmpTab cs" inc k] assms n k
    by (auto simp: AddIncludeKey_def search_keys_def Let_def)
qed

lemma AddExceptKey_adds:
  assumes "search_keys cs inc exc" "length exc < SLOG_MAX_KEY_COUNT" "key_ok k"
  shows "\<exists>cs'. AddExceptKey k cs = Some (int (length exc) + 1, cs') \<and> search_keys cs' inc (exc @ [take (SLOG_KEY_MAX_LENGTH - 1) k])"
proof -
  have n: "m_iExcpKeyCount cs = length exc" using assms(1) by (simp add: search_keys_def keys_rep_def)
  have k: "c_str k = k" using assms(3) by (simp add: key_ok_def c_str_nul_free)
  show ?thesis
    using keys_rep_add [of "length exc" "m_stExcpKey cs" "m_stExcpJmpTab cs" exc k] assms n k
    by (auto simp: AddExceptKey_def search_keys_def Let_def)
qed

text \<open>A list of keys given one by one.\<close>

fun add_keys :: "(u8 list \<Rightarrow> CSLogSearch \<Rightarrow> (int \<times> CSLogSearch) option) \<Rightarrow> u8 list list \<Rightarrow> CSLogSearch \<Rightarrow> CSLogSearch option" where
  "add_keys f [] cs = Some cs"
| "add_keys f (k # ks) cs = do { (r, cs) \<leftarrow> f k cs; add_keys f ks cs }"

lemma add_keys_include:
  assumes "search_keys cs inc exc" "length inc + length ks \<le> SLOG_MAX_KEY_COUNT" "\<forall>k\<in>set ks. key_ok k"
  shows "\<exists>cs'. add_keys AddIncludeKey ks cs = Some cs' \<and> search_keys cs' (inc @ map (take (SLOG_KEY_MAX_LENGTH - 1)) ks) exc"
  using assms
proof (induction ks arbitrary: cs inc)
  case (Cons k ks)
  then obtain cs1 where "AddIncludeKey k cs = Some (int (length inc) + 1, cs1)" "search_keys cs1 (inc @ [take (SLOG_KEY_MAX_LENGTH - 1) k]) exc"
    using AddIncludeKey_adds [of cs inc exc k] by auto
  then show ?case using Cons.IH [of cs1 "inc @ [take (SLOG_KEY_MAX_LENGTH - 1) k]"] Cons.prems by auto
qed simp

lemma add_keys_except:
  assumes "search_keys cs inc exc" "length exc + length ks \<le> SLOG_MAX_KEY_COUNT" "\<forall>k\<in>set ks. key_ok k"
  shows "\<exists>cs'. add_keys AddExceptKey ks cs = Some cs' \<and> search_keys cs' inc (exc @ map (take (SLOG_KEY_MAX_LENGTH - 1)) ks)"
  using assms
proof (induction ks arbitrary: cs exc)
  case (Cons k ks)
  then obtain cs1 where "AddExceptKey k cs = Some (int (length exc) + 1, cs1)" "search_keys cs1 inc (exc @ [take (SLOG_KEY_MAX_LENGTH - 1) k])"
    using AddExceptKey_adds [of cs inc exc k] by auto
  then show ?case using Cons.IH [of cs1 "exc @ [take (SLOG_KEY_MAX_LENGTH - 1) k]"] Cons.prems by auto
qed simp

subsection \<open>The keyword test\<close>

text \<open>The key occurs in the address of the host or in the text.\<close>

definition key_found :: "TSLog \<Rightarrow> u8 list \<Rightarrow> u8 list \<Rightarrow> bool" where
  "key_found l b k \<longleftrightarrow> sublist k (ipv4_addr_str (ts_dwLogHost l)) \<or> sublist k b"

lemma strpos_sublist: "(strpos s k \<noteq> None) = sublist k s"
  using strpos_Some_iff [of s k] by (auto simp: sublist_def)

lemma strstr_sublist: "strstr s k = sublist k s"
  unfolding strstr_def by (rule strpos_sublist)

lemma bmh_decides:
  assumes "jump_ok (c_str p) tab \<or> c_str p = []"
  shows "\<exists>r. bmh_is_match t p tab = Some r \<and> (0 \<le> r) = sublist (c_str p) (c_str t)"
  unfolding bmh_is_match_run [OF assms] strpos_sublist [symmetric] by (auto split: option.splits)

lemma no_except_key_run:
  assumes "\<forall>i\<in>set is. c_str (m_stExcpKey cs ! i) = ks ! i \<and> (jump_ok (ks ! i) (m_stExcpJmpTab cs ! i) \<or> ks ! i = [])"
  shows "no_except_key cs (ipv4_addr_str (ts_dwLogHost l)) b is = Some (\<forall>i\<in>set is. \<not> key_found l (c_str b) (ks ! i))"
  using assms
proof (induction "is")
  case (Cons i js)
  obtain r where "bmh_is_match b (m_stExcpKey cs ! i) (m_stExcpJmpTab cs ! i) = Some r" "(0 \<le> r) = sublist (ks ! i) (c_str b)"
    using bmh_decides [of "m_stExcpKey cs ! i" "m_stExcpJmpTab cs ! i" b] Cons.prems by auto
  then show ?case using Cons by (auto simp: strstr_sublist key_found_def)
qed simp

lemma all_include_keys_run:
  assumes "\<forall>i\<in>set is. c_str (m_stIncKey cs ! i) = ks ! i \<and> (jump_ok (ks ! i) (m_stIncJmpTab cs ! i) \<or> ks ! i = [])"
  shows "all_include_keys cs (ipv4_addr_str (ts_dwLogHost l)) b is = Some (\<forall>i\<in>set is. key_found l (c_str b) (ks ! i))"
  using assms
proof (induction "is")
  case (Cons i js)
  obtain r where "bmh_is_match b (m_stIncKey cs ! i) (m_stIncJmpTab cs ! i) = Some r" "(0 \<le> r) = sublist (ks ! i) (c_str b)"
    using bmh_decides [of "m_stIncKey cs ! i" "m_stIncJmpTab cs ! i" b] Cons.prems by auto
  then show ?case using Cons by (auto simp: strstr_sublist key_found_def)
qed simp

lemma ball_nth: "(\<forall>i\<in>set [0..<length xs]. P (xs ! i)) = (\<forall>x\<in>set xs. P x)"
  by (auto simp: all_set_conv_all_nth)

lemma IsLogMatch_keys:
  assumes "search_keys cs inc exc"
  shows "IsLogMatch cs l (Some b) = Some ((\<forall>k\<in>set exc. \<not> key_found l (c_str b) k) \<and> (\<forall>k\<in>set inc. key_found l (c_str b) k))"
proof -
  have n: "m_iIncKeyCount cs = length inc" "m_iExcpKeyCount cs = length exc"
    using assms by (auto simp: search_keys_def keys_rep_def)
  have "no_except_key cs (ipv4_addr_str (ts_dwLogHost l)) b [0..<length exc] = Some (\<forall>k\<in>set exc. \<not> key_found l (c_str b) k)"
    using no_except_key_run [of "[0..<length exc]" cs exc l b] assms
      ball_nth [of exc "\<lambda>k. \<not> key_found l (c_str b) k"] by (auto simp: search_keys_def keys_rep_def)
  moreover have "all_include_keys cs (ipv4_addr_str (ts_dwLogHost l)) b [0..<length inc] = Some (\<forall>k\<in>set inc. key_found l (c_str b) k)"
    using all_include_keys_run [of "[0..<length inc]" cs inc l b] assms
      ball_nth [of inc "\<lambda>k. key_found l (c_str b) k"] by (auto simp: search_keys_def keys_rep_def)
  ultimately show ?thesis unfolding IsLogMatch_def n by simp
qed

subsection \<open>The newest log\<close>

text \<open>The string store with the reading function that \<open>GetShmLog\<close> calls.\<close>

locale line_reader = line_store save fetch release rep storable
  for save :: "u8 list \<Rightarrow> 'v \<Rightarrow> (int \<times> 'v) option" and fetch release rep storable +
  fixes get :: "int \<Rightarrow> int \<Rightarrow> 'v \<Rightarrow> (int \<times> u8 list \<times> nat list) option"
  assumes get_law: "rep v m \<Longrightarrow> m r = Some b \<Longrightarrow> int (length b) \<le> room \<Longrightarrow> \<exists>at. get r room v = Some (0, b, at)"
begin

lemma shm_log_text:
  assumes rep: "rep v m" and ready: "text_ready m l" and t: "srv_log_text m l = Some t"
  shows "\<exists>at. shm_log get v l j = Some (t, l, at)"
proof (cases "ts_iContentIndex l < 0")
  case True
  then show ?thesis using ready t by (simp add: shm_log_def text_ready_def srv_log_text_def)
next
  case False
  then obtain d where d: "m (ts_iContentIndex l) = Some d" "take 4 (drop 252 (ts_sLogContent l)) = take 4 d" "4 \<le> length d" "length d \<le> 830"
    using ready by (auto simp: text_ready_def)
  have "\<exists>at. get (ts_iContentIndex l) 836 v = Some (0, d, at)" using d(4) by (intro get_law [OF rep d(1)]) simp
  then show ?thesis using False d t
    by (auto simp: shm_log_def srv_log_text_def BWORLD_MEMLOG_BUF_LENGTH_def sLogBuf_len_def BWORLD_SLOG_MAX_LINE_LEN_def Let_def)
qed

lemma realtime_log_newest:
  assumes rep: "rep v m" and init: "m_bInit cs" and keys: "search_keys cs inc exc"
    and ring: "sh_sLogList s \<noteq> []" "0 \<le> i" "i < int (length (sh_sLogList s))" "sh_iWriteIndex s = (i + 1) mod int (length (sh_sLogList s))"
    and l: "sh_sLogList s ! nat i = l" "ts_dwLogSeq l \<noteq> 0" "now \<le> ts_qwLogTime l + m_qwRealTimeUsec cs"
    and t: "text_ready m l" "srv_log_text m l = Some t" "0 \<notin> set t"
    and terms: "IsLogMatch cs l None = Some True"
      "\<forall>k\<in>set exc. \<not> key_found l t k" "\<forall>k\<in>set inc. key_found l t k"
  shows "\<exists>at. realtime_log get v cs (int (length (sh_sLogList s))) (-1) 0 now s = Some (Some (log_out l t), i, s, at)"
proof -
  let ?n = "int (length (sh_sLogList s))" and ?w = "sh_iWriteIndex s"
  have j: "(if ?w \<le> 0 then ?n - 1 else ?w - 1) = i"
  proof (cases "i + 1 = ?n")
    case False
    then have "(i + 1) mod ?n = i + 1" using ring by (intro mod_pos_pos_trivial) simp_all
    then show ?thesis using ring by simp
  qed (use ring in simp)
  have t0: "c_str t = t" using t(3) by (rule c_str_nul_free(2))
  have "(sh_sLogList s)[nat i := l] = sh_sLogList s" using l(1) by (metis list_update_id)
  then have same: "s\<lparr>sh_sLogList := (sh_sLogList s)[nat i := l]\<rparr> = s" by simp
  obtain k where k: "max 1 (nat ?n) = Suc k" using ring(1) by (cases "max 1 (nat ?n)") auto
  have m: "IsLogMatch cs l (Some t) = Some True" unfolding IsLogMatch_keys [OF keys] t0 using terms(2,3) by blast
  obtain at where g: "shm_log get v l i = Some (t, l, at)" using shm_log_text [OF rep t(1,2)] by blast
  have late: "\<not> (ts_qwLogTime l + m_qwRealTimeUsec cs < now)" using l(3) by simp
  have rng: "\<not> (i < 0 \<or> length (sh_sLogList s) \<le> nat i)" using ring(2,3) by auto
  have "realtime_loop get v cs ?n 0 now (Suc k) ?w s [] = Some (Some (i, log_out l t), s, at)"
    unfolding realtime_loop.simps j Let_def l(1)
    using rng late l(2) terms(1) g m same by simp
  then show ?thesis using init unfolding realtime_log_def k by simp
qed

end

interpretation lr: line_reader "Sv_SaveToVmem clk" "\<lambda>r v. map_option fst (Sv_GetFromVmem_Local2 r v)"
  "\<lambda>r v. map_option snd (Sv_FreeVmem clk r v)" sv_rep storable Sv_GetFromVmem
  for clk :: "nat \<Rightarrow> u32"
  by unfold_locales (use Sv_GetFromVmem_rep in blast)

text \<open>
  C20. The keyword filter of a search. Up to ten excluded and ten included keywords (of characters
  below 128 apart from the last one, cut to 127 characters) can be added to a fresh search, and then
  the test of a log with its text answers whether no excluded keyword and every included keyword
  occurs in the text or in the address of the host.
\<close>

theorem search_filters_keys:
  assumes "length exc \<le> 10" "length inc \<le> 10" "\<forall>k\<in>set exc. key_ok k" "\<forall>k\<in>set inc. key_ok k"
  shows "\<exists>cs1 cs2. add_keys AddExceptKey exc (InitDefaultSearch cs) = Some cs1 \<and> add_keys AddIncludeKey inc cs1 = Some cs2 \<and>
    (\<forall>l b. IsLogMatch cs2 l (Some b) = Some (
       (\<forall>k\<in>set exc. \<not> key_found l (c_str b) (take 127 k)) \<and> (\<forall>k\<in>set inc. key_found l (c_str b) (take 127 k))))"
proof -
  obtain cs1 where 1: "add_keys AddExceptKey exc (InitDefaultSearch cs) = Some cs1" "search_keys cs1 [] (map (take 127) exc)"
    using add_keys_except [OF search_keys_init, of exc] assms(1,3) by (auto simp: SLOG_MAX_KEY_COUNT_def SLOG_KEY_MAX_LENGTH_def)
  obtain cs2 where 2: "add_keys AddIncludeKey inc cs1 = Some cs2" "search_keys cs2 (map (take 127) inc) (map (take 127) exc)"
    using add_keys_include [OF 1(2), of inc] assms(2,4) by (auto simp: SLOG_MAX_KEY_COUNT_def SLOG_KEY_MAX_LENGTH_def)
  show ?thesis using 1(1) 2(1) IsLogMatch_keys [OF 2(2)] by auto
qed

definition demo_search :: CSLogSearch where
  "demo_search = \<lparr>m_iLogTypeFlag = 0, m_iLogAppId = 0, m_iModuleIdCount = 0, m_arrLogModuleId = [], m_iIncKeyCount = 0, m_stIncKey = [],
     m_stIncJmpTab = [], m_iExcpKeyCount = 0, m_stExcpKey = [], m_stExcpJmpTab = [], m_qwRealTimeUsec = 300000000, m_iReportMachine = 0,
     m_bInit = True\<rparr>"

theorem search_filters_keys_witness:
  "\<exists>cs1 cs2. add_keys AddExceptKey [bytes ''ok''] (InitDefaultSearch demo_search) = Some cs1 \<and> add_keys AddIncludeKey [bytes ''err''] cs1 = Some cs2 \<and>
    IsLogMatch cs2 demo_entry_log (Some (bytes ''an error'' @ [0])) = Some True \<and> IsLogMatch cs2 demo_entry_log (Some (bytes ''err ok'' @ [0])) = Some False"
proof -
  have k: "key_ok (bytes ''ok'')" "key_ok (bytes ''err'')" by code_simp+
  have c: "c_str (bytes ''an error'' @ [0]) = bytes ''an error''" "c_str (bytes ''err ok'' @ [0]) = bytes ''err ok''" by code_simp+
  have t: "take 127 (bytes ''ok'') = bytes ''ok''" "take 127 (bytes ''err'') = bytes ''err''" by (simp_all add: bytes_def)
  have f: "key_found demo_entry_log (bytes ''an error'') (bytes ''err'')" "\<not> key_found demo_entry_log (bytes ''an error'') (bytes ''ok'')"
    "key_found demo_entry_log (bytes ''err ok'') (bytes ''ok'')"
    unfolding key_found_def strpos_sublist [symmetric] by code_simp+
  show ?thesis
    using search_filters_keys [of "[bytes ''ok'']" "[bytes ''err'']" demo_search] k c f by (auto simp: t)
qed

text \<open>What the entry of a packet has to have for the terms of a search that are not keywords.\<close>

definition terms_match :: "CSLogSearch \<Rightarrow> LogInfo \<Rightarrow> u32 \<Rightarrow> bool" where
  "terms_match cs p host \<longleftrightarrow> (m_iLogAppId cs = 0 \<or> m_iLogAppId cs = li_iAppId p) \<and>
     (m_iModuleIdCount cs = 0 \<or> li_iModuleId p \<in> set (take (nat (m_iModuleIdCount cs)) (m_arrLogModuleId cs))) \<and>
     ucast (li_wLogType p) AND m_iLogTypeFlag cs \<noteq> 0 \<and> (m_iReportMachine cs = 0 \<or> m_iReportMachine cs = host)"

definition key_in :: "u32 \<Rightarrow> u8 list \<Rightarrow> u8 list \<Rightarrow> bool" where
  "key_in host b k \<longleftrightarrow> sublist k (ipv4_addr_str host) \<or> sublist k b"

lemma IsLogMatch_terms:
  assumes "terms_match cs p (ts_dwLogHost l)" "ts_iAppId l = li_iAppId p" "ts_iModuleId l = li_iModuleId p" "ts_wLogType l = li_wLogType p"
  shows "IsLogMatch cs l None = Some True"
  using assms by (auto simp: IsLogMatch_def terms_match_def)

text \<open>
  C37. A log the server has stored is found. The hypotheses on store, ring and entry are those of C26, and the ring has room. When the server has stored the entry of a packet and an
  initialised search, whose terms the entry meets, whose keywords its line has and whose time span reaches back to it, asks for the newest logs,
  the first answer is this log: its numbers, the line (cut to 255 characters when the server has no
  string store) read back through \<open>MtReport_GetFromVmem\<close>, and its place in the ring. The only exception is a line of 255 characters or more for which
  the string store had no room: its record has an error message instead.
\<close>

theorem stored_log_found:
  assumes rep: "sv_rep v m" and ring: "srv_ring_ok env s"
    and room: "sh_iWriteIndex s \<noteq> sh_iLogStarIndex s" and p: "dates_ok env" "text_is p tx st" "cust_is p"
    and cs: "m_bInit cs" "search_keys cs inc exc" "terms_match cs p host"
    and recent: "now \<le> li_qwLogTime p + m_qwRealTimeUsec cs"
    and line: "line = (if se_vmem env then srv_line env p tx st else take 255 (srv_line env p tx st))"
    and keys: "\<forall>k\<in>set exc. \<not> key_in host line k" "\<forall>k\<in>set inc. key_in host line k"
  shows "\<exists>s' v' l. WriteAppLogToShm env clk p host s v = Some (0, s', v') \<and> sh_sLogList s' ! nat (sh_iWriteIndex s) = l \<and>
    ((\<exists>at. RealTimeLog v' cs (se_max env) (-1) 0 now s' = Some (Some (log_out l line), sh_iWriteIndex s, s', at)) \<and>
       ts_iAppId l = li_iAppId p \<and> ts_iModuleId l = li_iModuleId p \<and> ts_wLogType l = li_wLogType p \<and> ts_qwLogTime l = li_qwLogTime p \<and> ts_dwLogHost l = host \<or>
     se_vmem env \<and> 255 \<le> length line \<and> ts_wLogType l = SLOG_TYPE_ERROR)"
proof -
  let ?i = "sh_iWriteIndex s"
  obtain s' v' m' where w: "WriteAppLogToShm env clk p host s v = Some (0, s', v')" "sv_rep v' m'" "srv_stored env p host (srv_line env p tx st) m' s s'"
    using sl.write_app_log_run [OF rep ring room p, of clk host] by (auto simp: WriteAppLogToShm_def)
  have i: "0 \<le> ?i" "?i < int (length (sh_sLogList s))" "se_max env = int (length (sh_sLogList s))" using ring by (simp_all add: srv_ring_ok_def)
  obtain l where l: "sh_sLogList s' = (sh_sLogList s)[nat ?i := l]" "line_kept env p (srv_line env p tx st) m' l" "text_ready m' l" "ts_dwLogSeq l \<noteq> 0"
    "ts_iAppId l = li_iAppId p" "ts_iModuleId l = li_iModuleId p" "ts_qwLogTime l = li_qwLogTime p" "ts_dwLogHost l = host"
    using w(3) by (auto simp: srv_stored_def Let_def)
  have at: "sh_sLogList s' ! nat ?i = l" using l(1) i by simp
  have w': "sh_iWriteIndex s' = (?i + 1) mod int (length (sh_sLogList s'))" using w(3) l(1) by (simp add: srv_stored_def Let_def)
  have len: "length (sh_sLogList s') = length (sh_sLogList s)" using l(1) by simp
  then have ne: "sh_sLogList s' \<noteq> []" "?i < int (length (sh_sLogList s'))" using i by (auto simp del: length_0_conv simp add: length_0_conv [symmetric])
  show ?thesis
  proof (cases "ts_wLogType l = li_wLogType p \<and> srv_log_text m' l = Some line")
    case True
    have "0 \<notin> set line" using srv_text_line(2) [OF p(1,2)] by (auto simp: line dest: in_set_takeD)
    moreover have "\<forall>k\<in>set exc. \<not> key_found l line k" "\<forall>k\<in>set inc. key_found l line k"
      using keys by (simp_all add: key_found_def key_in_def l(8))
    moreover have "IsLogMatch cs l None = Some True" using cs(3) l(5,6,8) True by (intro IsLogMatch_terms) auto
    ultimately have "\<exists>at. RealTimeLog v' cs (int (length (sh_sLogList s'))) (-1) 0 now s' = Some (Some (log_out l line), ?i, s', at)"
      unfolding RealTimeLog_def using ne recent l(7) True
      by (intro lr.realtime_log_newest [OF w(2) cs(1,2) _ i(1) _ w' at l(4) _ l(3)]) simp_all
    then show ?thesis using w(1) at l(5-8) True i(3) len by auto
  next
    case False
    then have "se_vmem env" "255 \<le> length (srv_line env p tx st)" "ts_wLogType l = SLOG_TYPE_ERROR" using l(2) by (auto simp: line_kept_def line)
    then show ?thesis using w(1) at by (auto simp: line)
  qed
qed

text \<open>The search of the witness: logs of any application with type 4 that have \<open>hi\<close>.\<close>

theorem stored_log_found_witness:
  "\<exists>s' v' l at. WriteAppLogToShm demo_senv demo_clk demo_packet 3 demo_sring demo_sv = Some (0, s', v') \<and>
    RealTimeLog v' (SetLogType 4 (InitDefaultSearch demo_search)) 2 (-1) 0 7000000 s'
      = Some (Some (log_out l (bytes ''2023-01-02 03:04:05.000000 hi'')), 1, s', at) \<and> ts_iModuleId l = 2"
proof -
  let ?cs = "SetLogType 4 (InitDefaultSearch demo_search)"
  have k: "search_keys ?cs [] []" using search_keys_init [of demo_search] by (simp add: search_keys_def SetLogType_def)
  have i: "m_bInit ?cs" by (simp add: SetLogType_def InitDefaultSearch_def demo_search_def)
  have d: "dates_ok demo_senv" unfolding dates_ok_def demo_senv_def SrvEnv.simps bytes_def by simp
  have t: "text_is demo_packet [104, 105] 0" by (simp add: text_is_def demo_packet_def)
  have c: "cust_is demo_packet" by (simp add: cust_is_def demo_packet_def)
  have r: "srv_ring_ok demo_senv demo_sring" by (simp add: srv_ring_ok_def demo_senv_def demo_sring_def demo_entry_log_def zero_cust_def)
  have m: "terms_match ?cs demo_packet 3" by (simp add: terms_match_def SetLogType_def InitDefaultSearch_def demo_packet_def)
  have now: "(7000000 :: u64) \<le> li_qwLogTime demo_packet + m_qwRealTimeUsec ?cs"
    by (simp add: demo_packet_def SetLogType_def InitDefaultSearch_def demo_search_def)
  have line: "(if se_vmem demo_senv then srv_line demo_senv demo_packet [104, 105] 0 else take 255 (srv_line demo_senv demo_packet [104, 105] 0))
    = bytes ''2023-01-02 03:04:05.000000 hi''" by code_simp
  have n: "sh_iWriteIndex demo_sring \<noteq> sh_iLogStarIndex demo_sring" "sh_iWriteIndex demo_sring = 1" "se_max demo_senv = 2" "li_iModuleId demo_packet = 2"
    by (simp_all add: demo_sring_def demo_senv_def demo_packet_def)
  have len: "length (bytes ''2023-01-02 03:04:05.000000 hi'') < 255" by (simp add: bytes_def)
  show ?thesis
    using stored_log_found [OF demo_sv_rep r n(1) d t c i k m now line [symmetric], of demo_clk] n(2-4) len
    by auto
qed

end
