(* ===== verification/Bucket.thy ===== *)
theory Bucket
  imports Prelude
begin

text \<open>
  The token bucket of \<open>lib/mtagent_api_open/sv_freq_ctrl.cpp\<close> and its use in \<open>C2_Log_FreqControl\<close> of
  \<open>sv_log.cpp\<close>, which limits the number of lines the servers write to their own logs.
\<close>

subsection \<open>The code\<close>

text \<open>\<open>llTokenCount\<close> is an \<open>int64_t\<close>: the word read with \<open>sint\<close>.\<close>

record TokenBucket =
  tb_dwFreqPerSec :: u32
  tb_dwBucketSize :: u32
  tb_llTokenCount :: u64
  tb_qwLastGenTime :: u64
  tb_qwLastCalcDelta :: u64

text \<open>\<open>now\<close> is the time of day in microseconds (\<open>TV2US\<close>).\<close>

definition TokenBucket_Init :: "u64 \<Rightarrow> u32 \<Rightarrow> u32 \<Rightarrow> TokenBucket" where
  "TokenBucket_Init now dwFreqPerSec dwBucketSize =
     \<lparr>tb_dwFreqPerSec = dwFreqPerSec, tb_dwBucketSize = dwBucketSize, tb_llTokenCount = ucast dwBucketSize,
      tb_qwLastGenTime = now, tb_qwLastCalcDelta = 0\<rparr>"

definition TokenBucket_Gen :: "u64 \<Rightarrow> TokenBucket \<Rightarrow> int \<times> TokenBucket" where
  "TokenBucket_Gen qwNow tb =
     (if qwNow < tb_qwLastGenTime tb then (-1, tb\<lparr>tb_qwLastGenTime := qwNow\<rparr>)
      else
        let qwPastUs = qwNow - tb_qwLastGenTime tb;
            x = ucast (tb_dwFreqPerSec tb) * qwPastUs + tb_qwLastCalcDelta tb;
            qwNewTokens = x div 1000000; qwCalcDelta = x mod 1000000;
            tb = tb\<lparr>tb_qwLastGenTime := qwNow, tb_qwLastCalcDelta := qwCalcDelta\<rparr>;
            llNewTokenCount = tb_llTokenCount tb + qwNewTokens in
        if sint llNewTokenCount < sint (tb_llTokenCount tb)
        then (-1, tb\<lparr>tb_llTokenCount := ucast (tb_dwBucketSize tb)\<rparr>)
        else (0, tb\<lparr>tb_llTokenCount := (if uint (tb_dwBucketSize tb) < sint llNewTokenCount
                       then ucast (tb_dwBucketSize tb) else llNewTokenCount)\<rparr>))"

definition TokenBucket_Get :: "u32 \<Rightarrow> TokenBucket \<Rightarrow> int \<times> TokenBucket" where
  "TokenBucket_Get dwNeedTokens tb =
     (if sint (tb_llTokenCount tb) < uint dwNeedTokens then (-1, tb)
      else (0, tb\<lparr>tb_llTokenCount := tb_llTokenCount tb - ucast dwNeedTokens\<rparr>))"

definition TokenBucket_Mod :: "u32 \<Rightarrow> u32 \<Rightarrow> TokenBucket \<Rightarrow> TokenBucket" where
  "TokenBucket_Mod dwFreqPerSec dwBucketSize tb = tb\<lparr>tb_dwFreqPerSec := dwFreqPerSec, tb_dwBucketSize := dwBucketSize\<rparr>"

text \<open>The members of \<open>C2_LogFile\<close> for the limit; the levels are ordered by severity.\<close>

datatype C2_ELogLevel = LL_TRACE | LL_DEBUG | LL_INFO | LL_WARN | LL_ERROR | LL_FATAL | LL_OFF

record C2_LogFile =
  stWriteSpeed :: TokenBucket
  iSkipTimes :: u32

definition C2_Log_FreqControl :: "C2_ELogLevel \<Rightarrow> u64 \<Rightarrow> C2_LogFile \<Rightarrow> int \<times> C2_LogFile" where
  "C2_Log_FreqControl eLogLevel now f =
     (if eLogLevel \<in> {LL_TRACE, LL_DEBUG, LL_INFO} then (1, f)
      else let tb = snd (TokenBucket_Gen now (stWriteSpeed f)) in
        case TokenBucket_Get 1 tb of (rc, tb) \<Rightarrow>
          if rc = 0 then (1, f\<lparr>stWriteSpeed := tb\<rparr>)
          else (0, f\<lparr>stWriteSpeed := tb, iSkipTimes := iSkipTimes f + 1\<rparr>))"

subsection \<open>The amount in a bucket\<close>

lemma sint_small64:
  assumes "unat (x :: u64) < 2 ^ 63"
  shows "sint x = int (unat x)"
proof -
  have "int (unat x) < int (2 ^ 63)" using assms by (simp only: of_nat_less_iff)
  then have "uint x < 2 ^ 63" by simp
  then have "signed_take_bit 63 (uint x) = uint x"
    by (subst signed_take_bit_int_eq_self_iff) (simp add: order_trans [OF _ uint_ge_0])
  then show ?thesis by (simp add: sint_uint)
qed

lemma unat_u32_less: "unat (x :: u32) < 2 ^ 32"
  by (rule order_less_le_trans [OF unsigned_less]) simp

lemma unat_u32_u64: "unat (ucast (x :: u32) :: u64) = unat x"
  using unat_u32_less [of x] by (simp add: unsigned_ucast_eq take_bit_nat_eq_self)

definition bucket_ok :: "TokenBucket \<Rightarrow> bool" where
  "bucket_ok tb \<longleftrightarrow> unat (tb_llTokenCount tb) \<le> unat (tb_dwBucketSize tb) \<and> unat (tb_qwLastCalcDelta tb) < 1000000"

text \<open>Millionths of tokens in the bucket, and the time that passes when the clock goes from \<open>t\<close> to \<open>x\<close>.\<close>

definition amount :: "TokenBucket \<Rightarrow> nat" where
  "amount tb = 1000000 * unat (tb_llTokenCount tb) + unat (tb_qwLastCalcDelta tb)"

definition ahead :: "u64 \<Rightarrow> u64 \<Rightarrow> nat" where
  "ahead t x = (if t \<le> x then unat x - unat t else 0)"

lemma bucket_init: "bucket_ok (TokenBucket_Init now f b)" "amount (TokenBucket_Init now f b) = 1000000 * unat b"
  by (simp_all add: TokenBucket_Init_def bucket_ok_def amount_def unat_u32_u64)

lemma TokenBucket_Gen_amount:
  assumes ok: "bucket_ok tb" and small: "unat (tb_dwFreqPerSec tb) * ahead (tb_qwLastGenTime tb) now + 1000000 \<le> 2 ^ 64"
  defines "tb' \<equiv> snd (TokenBucket_Gen now tb)"
  shows "bucket_ok tb'" "tb_dwFreqPerSec tb' = tb_dwFreqPerSec tb" "tb_dwBucketSize tb' = tb_dwBucketSize tb" "tb_qwLastGenTime tb' = now"
    "amount tb' \<le> amount tb + unat (tb_dwFreqPerSec tb) * ahead (tb_qwLastGenTime tb) now"
    "unat (tb_llTokenCount tb') = unat (tb_dwBucketSize tb) \<or> amount tb' = amount tb + unat (tb_dwFreqPerSec tb) * ahead (tb_qwLastGenTime tb) now"
proof -
  let ?f = "unat (tb_dwFreqPerSec tb)" and ?a = "ahead (tb_qwLastGenTime tb) now" and ?d = "unat (tb_qwLastCalcDelta tb)"
  have all: "bucket_ok tb' \<and> tb_dwFreqPerSec tb' = tb_dwFreqPerSec tb \<and> tb_dwBucketSize tb' = tb_dwBucketSize tb \<and> tb_qwLastGenTime tb' = now \<and>
    amount tb' \<le> amount tb + ?f * ?a \<and> (unat (tb_llTokenCount tb') = unat (tb_dwBucketSize tb) \<or> amount tb' = amount tb + ?f * ?a)"
  proof (cases "now < tb_qwLastGenTime tb")
    case True
    then have "tb' = tb\<lparr>tb_qwLastGenTime := now\<rparr>" "?a = 0" by (simp_all add: tb'_def TokenBucket_Gen_def ahead_def)
    then show ?thesis using ok by (simp add: bucket_ok_def amount_def)
  next
    case False
    define x where "x = ucast (tb_dwFreqPerSec tb) * (now - tb_qwLastGenTime tb) + tb_qwLastCalcDelta tb"
    have past: "unat (now - tb_qwLastGenTime tb) = ?a" using False by (simp add: ahead_def unat_sub)
    have lt: "?f * ?a + ?d < 2 ^ 64" using ok small by (simp add: bucket_ok_def)
    have "unat (ucast (tb_dwFreqPerSec tb) * (now - tb_qwLastGenTime tb)) = ?f * ?a"
      using lt by (simp add: unat_word_ariths past unat_u32_u64)
    then have x: "unat x = ?f * ?a + ?d" using lt by (simp add: x_def unat_word_ariths)
    define c where "c = tb_llTokenCount tb + x div 1000000"
    have cnt: "unat (tb_llTokenCount tb) < 2 ^ 32"
      using ok unat_u32_less [of "tb_dwBucketSize tb"] by (simp add: bucket_ok_def)
    have "unat x < 2 ^ 64" using lt x by simp
    then have "unat x div 1000000 < 2 ^ 62" by simp
    then have c: "unat c = unat (tb_llTokenCount tb) + unat x div 1000000" "unat c < 2 ^ 63"
      using cnt by (simp_all add: c_def unat_word_ariths unat_div)
    have s: "sint c = int (unat c)" "sint (tb_llTokenCount tb) = int (unat (tb_llTokenCount tb))"
      using c(2) cnt by (intro sint_small64; simp)+
    define q r where "q = unat x div 1000000" and "r = unat x mod 1000000"
    have dm: "1000000 * q + r = ?f * ?a + ?d" "r < 1000000" using x by (simp_all add: q_def r_def)
    have rm: "unat (x mod 1000000) = r" by (simp add: r_def unat_mod)
    have size: "uint (tb_dwBucketSize tb) = int (unat (tb_dwBucketSize tb))" by simp
    have tb': "tb' = tb\<lparr>tb_qwLastGenTime := now, tb_qwLastCalcDelta := x mod 1000000,
      tb_llTokenCount := (if unat (tb_dwBucketSize tb) < unat c then ucast (tb_dwBucketSize tb) else c)\<rparr>"
      using False c(1) unfolding tb'_def TokenBucket_Gen_def Let_def x_def [symmetric]
      by (simp add: c_def [symmetric] s size del: of_nat_unat uint_nat)
    have cq: "unat c = unat (tb_llTokenCount tb) + q" using c(1) by (simp add: q_def)
    show ?thesis
    proof (cases "unat (tb_dwBucketSize tb) < unat c")
      case True
      then have "1000000 * unat (tb_dwBucketSize tb) + r \<le> 1000000 * unat (tb_llTokenCount tb) + ?d + ?f * ?a" using cq dm(1) by linarith
      then show ?thesis using True dm(2) unfolding tb' bucket_ok_def amount_def by (simp add: unat_u32_u64 rm)
    next
      case False
      then have "1000000 * unat c + r = 1000000 * unat (tb_llTokenCount tb) + ?d + ?f * ?a" using cq dm(1) by linarith
      then show ?thesis using False dm(2) unfolding tb' bucket_ok_def amount_def by (simp add: rm)
    qed
  qed
  then show "bucket_ok tb'" "tb_dwFreqPerSec tb' = tb_dwFreqPerSec tb" "tb_dwBucketSize tb' = tb_dwBucketSize tb" "tb_qwLastGenTime tb' = now"
    "amount tb' \<le> amount tb + ?f * ?a" "unat (tb_llTokenCount tb') = unat (tb_dwBucketSize tb) \<or> amount tb' = amount tb + ?f * ?a"
    by blast+
qed

lemma TokenBucket_Get_amount:
  assumes "bucket_ok tb"
  shows "TokenBucket_Get n tb = (if unat (tb_llTokenCount tb) < unat n then (-1, tb) else (0, tb\<lparr>tb_llTokenCount := tb_llTokenCount tb - ucast n\<rparr>))"
    "unat n \<le> unat (tb_llTokenCount tb) \<Longrightarrow> bucket_ok (tb\<lparr>tb_llTokenCount := tb_llTokenCount tb - ucast n\<rparr>) \<and>
      amount (tb\<lparr>tb_llTokenCount := tb_llTokenCount tb - ucast n\<rparr>) + 1000000 * unat n = amount tb"
proof -
  have "unat (tb_llTokenCount tb) < 2 ^ 32" using assms unat_u32_less [of "tb_dwBucketSize tb"] by (simp add: bucket_ok_def)
  then have "sint (tb_llTokenCount tb) = int (unat (tb_llTokenCount tb))" "uint n = int (unat n)" by (simp_all add: sint_small64)
  then show "TokenBucket_Get n tb = (if unat (tb_llTokenCount tb) < unat n then (-1, tb) else (0, tb\<lparr>tb_llTokenCount := tb_llTokenCount tb - ucast n\<rparr>))"
    by (simp add: TokenBucket_Get_def del: of_nat_unat uint_nat)
  assume n: "unat n \<le> unat (tb_llTokenCount tb)"
  then have "unat (tb_llTokenCount tb - ucast n) = unat (tb_llTokenCount tb) - unat n"
    by (simp add: unat_sub word_le_nat_alt unat_u32_u64)
  then show "bucket_ok (tb\<lparr>tb_llTokenCount := tb_llTokenCount tb - ucast n\<rparr>) \<and>
      amount (tb\<lparr>tb_llTokenCount := tb_llTokenCount tb - ucast n\<rparr>) + 1000000 * unat n = amount tb"
    using assms n unfolding bucket_ok_def amount_def by simp linarith
qed

subsection \<open>The limit\<close>

text \<open>
  Calls of \<open>C2_Log_FreqControl\<close> for warnings or worse at the times of a list: how many are admitted; and
  the time the clock goes forward from \<open>t\<close> on over these times.
\<close>

fun admitted :: "C2_ELogLevel \<Rightarrow> u64 list \<Rightarrow> C2_LogFile \<Rightarrow> nat" where
  "admitted lv [] f = 0"
| "admitted lv (t # ts) f = (case C2_Log_FreqControl lv t f of (r, f) \<Rightarrow> (if r = 1 then 1 else 0) + admitted lv ts f)"

fun forward :: "u64 \<Rightarrow> u64 list \<Rightarrow> nat" where
  "forward t [] = 0"
| "forward t (x # xs) = ahead t x + forward x xs"

lemma admitted_amount:
  assumes "lv \<in> {LL_WARN, LL_ERROR, LL_FATAL}" "bucket_ok (stWriteSpeed f)"
    and "unat (tb_dwFreqPerSec (stWriteSpeed f)) * forward (tb_qwLastGenTime (stWriteSpeed f)) ts + 1000000 \<le> 2 ^ 64"
  shows "1000000 * admitted lv ts f \<le> amount (stWriteSpeed f)
    + unat (tb_dwFreqPerSec (stWriteSpeed f)) * forward (tb_qwLastGenTime (stWriteSpeed f)) ts"
  using assms(2,3)
proof (induction ts arbitrary: f)
  case (Cons t ts)
  let ?b = "stWriteSpeed f"
  define b1 where "b1 = snd (TokenBucket_Gen t ?b)"
  obtain rc b2 where g: "TokenBucket_Get 1 b1 = (rc, b2)" by (cases "TokenBucket_Get 1 b1")
  have step: "unat (tb_dwFreqPerSec ?b) * ahead (tb_qwLastGenTime ?b) t + unat (tb_dwFreqPerSec ?b) * forward t ts + 1000000 \<le> 2 ^ 64"
    using Cons.prems(2) by (simp add: algebra_simps)
  note b1 = TokenBucket_Gen_amount [OF Cons.prems(1), of t, folded b1_def]
  have b1s: "bucket_ok b1" "tb_dwFreqPerSec b1 = tb_dwFreqPerSec ?b" "tb_qwLastGenTime b1 = t"
    "amount b1 \<le> amount ?b + unat (tb_dwFreqPerSec ?b) * ahead (tb_qwLastGenTime ?b) t"
    using b1 step by simp_all
  have b2: "bucket_ok b2" "tb_dwFreqPerSec b2 = tb_dwFreqPerSec ?b" "tb_qwLastGenTime b2 = t"
    "amount b2 + 1000000 * (if rc = 0 then 1 else 0) = amount b1"
    using g TokenBucket_Get_amount [OF b1s(1), of 1] b1s(1-3) by (auto split: if_splits)
  obtain f' where f': "C2_Log_FreqControl lv t f = ((if rc = 0 then 1 else 0), f')" "stWriteSpeed f' = b2"
    using assms(1) g by (cases "rc = 0") (auto simp: C2_Log_FreqControl_def Let_def b1_def [symmetric])
  have "1000000 * admitted lv ts f' \<le> amount b2 + unat (tb_dwFreqPerSec ?b) * forward t ts"
    using Cons.IH [of f'] step b2 by (simp add: f'(2))
  then show ?case using f'(1) b1s(4) b2(4) by (auto simp: algebra_simps split: if_splits)
qed simp

text \<open>
  C13. The limit on the lines of a log file holds. A bucket set up at the time \<open>t\<close> with \<open>f\<close> tokens a second and
  room for \<open>b\<close> tokens admits, over any calls at any times (also when the clock is set back), at
  most \<open>b\<close> lines and \<open>f\<close> more for each second the clock goes forward, as long as the product of
  rate and time is within 64 bits.
\<close>

theorem FreqControl_limits:
  assumes "lv \<in> {LL_WARN, LL_ERROR, LL_FATAL}" "unat f * forward t ts + 1000000 \<le> 2 ^ 64"
  shows "1000000 * admitted lv ts \<lparr>stWriteSpeed = TokenBucket_Init t f b, iSkipTimes = n\<rparr> \<le> 1000000 * unat b + unat f * forward t ts"
  using admitted_amount [OF assms(1), of "\<lparr>stWriteSpeed = TokenBucket_Init t f b, iSkipTimes = n\<rparr>" ts] bucket_init [of t f b] assms(2)
  by (simp add: TokenBucket_Init_def)

theorem FreqControl_limits_witness:
  "admitted LL_FATAL [1000, 1500, 1500, 500, 500, 1000500] \<lparr>stWriteSpeed = TokenBucket_Init 1000 2 2, iSkipTimes = 0\<rparr> \<le> 4 \<and>
   forward 1000 [1000, 1500, 1500, 500, 500, 1000500] = 1000500"
proof -
  have f: "forward 1000 [1000, 1500, 1500, 500, 500, 1000500] = 1000500" by (simp add: ahead_def)
  show ?thesis using FreqControl_limits [of LL_FATAL 2 1000 "[1000, 1500, 1500, 500, 500, 1000500]" 2 0] f by simp
qed

end
