(* ===== verification/Base64.thy ===== *)
theory Base64
  imports Prelude
begin

text \<open>
  The base 64 encoding of \<open>slog_mtreport_client/Base64.cpp\<close>, with which the agent sends binary data as
  text. A \<open>char\<close> is signed: the encoder shifts the byte as an \<open>int\<close> from -128 to 127, and the decoder uses
  the character as an index (a negative one leaves the table: \<open>None\<close>). Reading a \<open>std::string\<close> at its
  length gives 0; behind that the model has \<open>None\<close>.
\<close>

subsection \<open>The code\<close>

definition bstr :: "u8 list" where
  "bstr = map of_char ''ABCDEFGHIJKLMNOPQRSTUVWXYZabcdefghijklmnopqrstuvwxyz0123456789+/''"

definition rstr :: "int list" where
  "rstr = replicate 43 0 @ [62, 0, 0, 0, 63, 52, 53, 54, 55, 56, 57, 58, 59, 60, 61, 0, 0, 0, 0, 0, 0,
     0, 0, 1, 2, 3, 4, 5, 6, 7, 8, 9, 10, 11, 12, 13, 14, 15, 16, 17, 18, 19, 20, 21, 22, 23, 24, 25, 0, 0, 0, 0, 0,
     0, 26, 27, 28, 29, 30, 31, 32, 33, 34, 35, 36, 37, 38, 39, 40, 41, 42, 43, 44, 45, 46, 47, 48, 49, 50, 51, 0, 0, 0, 0, 0]"

definition eq_sign :: u8 where "eq_sign = 61"

text \<open>The four characters for the next one, two or three bytes.\<close>

fun quad :: "u8 list \<Rightarrow> u8 list" where
  "quad [] = []"
| "quad [a] = [bstr ! nat (drop_bit 2 (sint a) AND 63), bstr ! nat (push_bit 4 (sint a) AND 48), eq_sign, eq_sign]"
| "quad [a, b] = [bstr ! nat (drop_bit 2 (sint a) AND 63),
     bstr ! nat ((push_bit 4 (sint a) AND 48) + (drop_bit 4 (sint b) AND 15)), bstr ! nat (push_bit 2 (sint b) AND 60), eq_sign]"
| "quad (a # b # c # bs) = [bstr ! nat (drop_bit 2 (sint a) AND 63),
     bstr ! nat ((push_bit 4 (sint a) AND 48) + (drop_bit 4 (sint b) AND 15)),
     bstr ! nat ((push_bit 2 (sint b) AND 60) + (drop_bit 6 (sint c) AND 3)), bstr ! nat (sint c AND 63)]"

text \<open>The loop of \<open>encode\<close> on the bytes from \<open>i\<close> on.\<close>

function encode_from :: "bool \<Rightarrow> nat \<Rightarrow> u8 list \<Rightarrow> u8 list" where
  "encode_from add_crlf ofs bs =
     (if bs = [] then []
      else (if add_crlf \<and> ofs \<noteq> 0 \<and> ofs mod 76 = 0 then [10] else []) @ quad bs @ encode_from add_crlf (ofs + 4) (drop 3 bs))"
  by pat_completeness auto
termination
  by (relation "measure (\<lambda>(c, o', bs). length bs)") auto

declare encode_from.simps [simp del]

definition encode :: "u8 list \<Rightarrow> bool \<Rightarrow> u8 list" where
  "encode input add_crlf = encode_from add_crlf 0 input"

definition str_at :: "u8 list \<Rightarrow> nat \<Rightarrow> u8 option" where
  "str_at s i = (if i < length s then Some (s ! i) else if i = length s then Some 0 else None)"

definition rstr_at :: "u8 \<Rightarrow> int option" where
  "rstr_at c = (if 0 \<le> sint c \<and> nat (sint c) < length rstr then Some (rstr ! nat (sint c)) else None)"

text \<open>The bytes for the four characters at the start of \<open>s\<close>.\<close>

definition unquad :: "u8 list \<Rightarrow> u8 list option" where
  "unquad s = do {
     c0 \<leftarrow> str_at s 0; c1 \<leftarrow> str_at s 1; c2 \<leftarrow> str_at s 2; c3 \<leftarrow> str_at s 3;
     r0 \<leftarrow> rstr_at c0; r1 \<leftarrow> rstr_at c1;
     let b1 = word_of_int ((push_bit 2 r0 AND 0xfc) + (drop_bit 4 r1 AND 3));
     b2 \<leftarrow> (if c2 \<noteq> eq_sign then do { r2 \<leftarrow> rstr_at c2; Some [word_of_int ((push_bit 4 r1 AND 0xf0) + (drop_bit 2 r2 AND 15))] } else Some []);
     b3 \<leftarrow> (if c3 \<noteq> eq_sign then do { r2 \<leftarrow> rstr_at c2; r3 \<leftarrow> rstr_at c3; Some [word_of_int ((push_bit 6 r2 AND 0xc0) + r3)] } else Some []);
     Some (b1 # b2 @ b3)
   }"

text \<open>The loop of \<open>decode\<close> on the characters from \<open>i\<close> on.\<close>

function decode :: "u8 list \<Rightarrow> u8 list option" where
  "decode input =
     (let s = dropWhile (\<lambda>c. c = 13 \<or> c = 10) input in
      if s = [] then Some []
      else do { b \<leftarrow> unquad s; rest \<leftarrow> decode (drop 4 s); Some (b @ rest) })"
  by pat_completeness auto
termination
proof (relation "measure length", goal_cases)
  case (2 input s b)
  have "length s \<le> length input" using 2(1) by (simp add: length_dropWhile_le)
  moreover have "0 < length s" using 2(2) by simp
  ultimately show ?case by (simp only: in_measure length_drop)
qed simp

declare decode.simps [simp del]

definition decode_length :: "u8 list \<Rightarrow> nat" where
  "decode_length str64 =
     (if str64 = [] \<or> length str64 mod 4 \<noteq> 0 then 0
      else 3 * (length str64 div 4 - 1) + 1 + (if str64 ! (length str64 - 2) \<noteq> eq_sign then 1 else 0)
        + (if str64 ! (length str64 - 1) \<noteq> eq_sign then 1 else 0))"

subsection \<open>The tables\<close>

lemma bstr_codes: "bstr = [65, 66, 67, 68, 69, 70, 71, 72, 73, 74, 75, 76, 77, 78, 79, 80, 81, 82, 83, 84, 85, 86, 87, 88, 89, 90, 97, 98, 99, 100, 101, 102, 103, 104, 105, 106, 107, 108, 109, 110, 111, 112, 113, 114, 115, 116, 117, 118, 119, 120, 121, 122, 48, 49, 50, 51, 52, 53, 54, 55, 56, 57, 43, 47]"
  by (simp add: bstr_def)

lemma rstr_of_bstr: "map rstr_at bstr = map (\<lambda>n. Some (int n)) [0..<64]"
  unfolding bstr_codes by (simp add: rstr_at_def rstr_def upt_rec nth_append)

lemma bstr_others: "eq_sign \<notin> set bstr" "10 \<notin> set bstr" "13 \<notin> set bstr" "length bstr = 64"
  unfolding bstr_codes by (simp_all add: eq_sign_def)

lemma bstr_chars:
  assumes "n < 64"
  shows "rstr_at (bstr ! n) = Some (int n) \<and> bstr ! n \<noteq> eq_sign \<and> bstr ! n \<noteq> 10 \<and> bstr ! n \<noteq> 13"
proof -
  have "map rstr_at bstr ! n = Some (int n)" unfolding rstr_of_bstr using assms by simp
  moreover have "bstr ! n \<in> set bstr" using assms bstr_others(4) by simp
  ultimately show ?thesis using bstr_others assms by (metis nth_map)
qed

lemma bstr_inv [simp]: "0 \<le> n \<Longrightarrow> n < 64 \<Longrightarrow> rstr_at (bstr ! nat n) = Some n"
  using bstr_chars [of "nat n"] by simp

lemma bstr_no [simp]: "n < 64 \<Longrightarrow> bstr ! nat n \<noteq> eq_sign" "n < 64 \<Longrightarrow> bstr ! nat n \<noteq> 10" "n < 64 \<Longrightarrow> bstr ! nat n \<noteq> 13"
  using bstr_chars [of "nat n"] by (cases "0 \<le> n"; simp)+

subsection \<open>Shifts and masks as arithmetic\<close>

lemma byte_shift:
  fixes a :: u8
  shows "drop_bit 2 (sint a) AND 63 = uint a div 4" "push_bit 4 (sint a) AND 48 = 16 * (uint a mod 4)"
    "drop_bit 4 (sint a) AND 15 = uint a div 16" "push_bit 2 (sint a) AND 60 = 4 * (uint a mod 16)"
    "drop_bit 6 (sint a) AND 3 = uint a div 64" "sint a AND 63 = uint a mod 64"
proof -
  have u: "uint a = take_bit 8 (sint a)" using uint_sint [of a] by simp
  have m: "x AND 63 = take_bit 6 x" "x AND 15 = take_bit 4 x" "x AND 3 = take_bit 2 x" for x :: int
    by (simp_all add: take_bit_eq_mask mask_eq_exp_minus_1)
  have d: "take_bit (8 - k) (drop_bit k (sint a)) = uint a div 2 ^ k" for k
    by (simp add: u drop_bit_take_bit [symmetric] flip: drop_bit_eq_div)
  have t: "take_bit k (sint a) = uint a mod 2 ^ k" if "k \<le> 8" for k
    using that by (simp add: u min_def flip: take_bit_eq_mod)
  show "drop_bit 2 (sint a) AND 63 = uint a div 4" "drop_bit 4 (sint a) AND 15 = uint a div 16"
    "drop_bit 6 (sint a) AND 3 = uint a div 64" using d [of 2] d [of 4] d [of 6] by (simp_all add: m)
  show "sint a AND 63 = uint a mod 64" using t [of 6] by (simp add: m)
  have p: "push_bit 4 x AND 48 = push_bit 4 (x AND 3)" "push_bit 2 x AND 60 = push_bit 2 (x AND 15)" for x :: int
    using push_bit_and [of 4 x 3] push_bit_and [of 2 x 15] by (simp_all add: push_bit_eq_mult)
  show "push_bit 4 (sint a) AND 48 = 16 * (uint a mod 4)" "push_bit 2 (sint a) AND 60 = 4 * (uint a mod 16)"
    unfolding p m using t [of 2] t [of 4] by (simp_all add: push_bit_eq_mult)
qed

lemma six_bits:
  assumes "0 \<le> n" "n < (64 :: int)"
  shows "push_bit 2 n AND 0xfc = 4 * n" "drop_bit 4 n AND 3 = n div 16" "push_bit 4 n AND 0xf0 = 16 * (n mod 16)"
    "drop_bit 2 n AND 15 = n div 4" "push_bit 6 n AND 0xc0 = 64 * (n mod 4)"
proof -
  have m: "x AND 63 = x mod 64" "x AND 15 = x mod 16" "x AND 3 = x mod 4" for x :: int
    by (simp_all add: take_bit_eq_mask mask_eq_exp_minus_1 flip: take_bit_eq_mod [of 6 x, simplified] take_bit_eq_mod [of 4 x, simplified]
        take_bit_eq_mod [of 2 x, simplified])
  have p: "push_bit 2 n AND 0xfc = push_bit 2 (n AND 63)" "push_bit 4 n AND 0xf0 = push_bit 4 (n AND 15)" "push_bit 6 n AND 0xc0 = push_bit 6 (n AND 3)"
    using push_bit_and [of 2 n 63] push_bit_and [of 4 n 15] push_bit_and [of 6 n 3] by (simp_all add: push_bit_eq_mult)
  show "push_bit 2 n AND 0xfc = 4 * n" "push_bit 4 n AND 0xf0 = 16 * (n mod 16)" "push_bit 6 n AND 0xc0 = 64 * (n mod 4)"
    unfolding p m using assms by (simp_all add: push_bit_eq_mult)
  show "drop_bit 4 n AND 3 = n div 16" "drop_bit 2 n AND 15 = n div 4" using assms by (simp_all add: m drop_bit_eq_div)
qed

lemma byte_range: "0 \<le> uint (a :: u8)" "uint a < 256"
  by (simp, rule order_less_le_trans [OF unsigned_less]) simp

subsection \<open>Round trip\<close>

lemma str_at_simps [simp]:
  "str_at (x # s) 0 = Some x" "str_at (x # s) (Suc n) = str_at s n"
  by (simp_all add: str_at_def)

lemma unquad_Cons:
  "unquad (c0 # c1 # c2 # c3 # r) = do {
     r0 \<leftarrow> rstr_at c0; r1 \<leftarrow> rstr_at c1;
     let b1 = word_of_int ((push_bit 2 r0 AND 0xfc) + (drop_bit 4 r1 AND 3));
     b2 \<leftarrow> (if c2 \<noteq> eq_sign then do { r2 \<leftarrow> rstr_at c2; Some [word_of_int ((push_bit 4 r1 AND 0xf0) + (drop_bit 2 r2 AND 15))] } else Some []);
     b3 \<leftarrow> (if c3 \<noteq> eq_sign then do { r2 \<leftarrow> rstr_at c2; r3 \<leftarrow> rstr_at c3; Some [word_of_int ((push_bit 6 r2 AND 0xc0) + r3)] } else Some []);
     Some (b1 # b2 @ b3)
   }"
  by (simp add: unquad_def numeral_2_eq_2 numeral_3_eq_3)

lemma unquad_nums:
  assumes "0 \<le> n0" "n0 < 64" "0 \<le> n1" "n1 < 64"
  shows "unquad (bstr ! nat n0 # bstr ! nat n1 # eq_sign # eq_sign # r) = Some [word_of_int (4 * n0 + n1 div 16)]"
    "0 \<le> n2 \<Longrightarrow> n2 < 64 \<Longrightarrow> unquad (bstr ! nat n0 # bstr ! nat n1 # bstr ! nat n2 # eq_sign # r)
      = Some [word_of_int (4 * n0 + n1 div 16), word_of_int (16 * (n1 mod 16) + n2 div 4)]"
    "0 \<le> n2 \<Longrightarrow> n2 < 64 \<Longrightarrow> 0 \<le> n3 \<Longrightarrow> n3 < 64 \<Longrightarrow> unquad (bstr ! nat n0 # bstr ! nat n1 # bstr ! nat n2 # bstr ! nat n3 # r)
      = Some [word_of_int (4 * n0 + n1 div 16), word_of_int (16 * (n1 mod 16) + n2 div 4), word_of_int (64 * (n2 mod 4) + n3)]"
  using assms by (simp_all add: unquad_Cons six_bits)

text \<open>Digits to a base, and the bytes in terms of the four numbers.\<close>

lemma digits:
  fixes m q k :: int
  assumes "0 \<le> q" "q < k"
  shows "(k * m + q) div k = m" "(k * m + q) mod k = q"
  using assms by simp_all

lemma byte_digits:
  fixes a :: u8
  shows "0 \<le> uint a div 4" "uint a div 4 < 64" "0 \<le> uint a div 16" "uint a div 16 < 16" "0 \<le> uint a div 64" "uint a div 64 < 4"
    "0 \<le> uint a mod 4" "uint a mod 4 < 4" "0 \<le> uint a mod 16" "uint a mod 16 < 16" "0 \<le> uint a mod 64" "uint a mod 64 < 64"
  using byte_range [of a] by (simp_all add: pos_imp_zdiv_nonneg_iff)

lemma word_of_digits: "word_of_int (k * (uint a div k) + uint a mod k) = (a :: u8)"
  by (simp only: mult_div_mod_eq word_of_int_uint)

lemma quad_first:
  assumes "bs \<noteq> []"
  shows "\<exists>x xs. quad bs = x # xs \<and> length xs = 3 \<and> x \<noteq> 10 \<and> x \<noteq> 13"
proof -
  have "\<exists>xs. quad bs = bstr ! nat (uint (hd bs) div 4) # xs \<and> length xs = 3"
    using assms by (cases bs rule: quad.cases) (simp_all only: quad.simps byte_shift(1) list.sel list.inject list.size, auto)
  moreover have "bstr ! nat (uint (hd bs) div 4) \<noteq> 10" "bstr ! nat (uint (hd bs) div 4) \<noteq> 13"
    using byte_digits(2) [of "hd bs"] by (rule bstr_no)+
  ultimately show ?thesis by blast
qed

lemma unquad_quad:
  assumes "bs \<noteq> []"
  shows "unquad (quad bs @ r) = Some (take 3 bs)"
proof -
  consider (one) a where "bs = [a]" | (two) a b where "bs = [a, b]" | (more) a b c ds where "bs = a # b # c # ds"
    using assms by (cases bs rule: quad.cases) auto
  then show ?thesis
  proof cases
    case one
    have "unquad (quad [a] @ r) = Some [word_of_int (4 * (uint a div 4) + (16 * (uint a mod 4)) div 16)]"
      using byte_digits(7,8) [of a] by (simp only: quad.simps append.simps byte_shift) (intro unquad_nums(1) byte_digits(1,2), linarith+)
    moreover have "(16 * (uint a mod 4)) div 16 = uint a mod 4" by simp
    ultimately have "unquad (quad [a] @ r) = Some [a]" by (simp only: word_of_digits)
    then show ?thesis unfolding one by (simp del: quad.simps)
  next
    case two
    let ?n1 = "16 * (uint a mod 4) + uint b div 16" and ?n2 = "4 * (uint b mod 16)"
    have n: "0 \<le> ?n1" "?n1 < 64" "0 \<le> ?n2" "?n2 < 64" using byte_digits [of a] byte_digits [of b] by linarith+
    have "unquad (quad [a, b] @ r) = Some [word_of_int (4 * (uint a div 4) + ?n1 div 16), word_of_int (16 * (?n1 mod 16) + ?n2 div 4)]"
      by (simp only: quad.simps append.simps byte_shift) (rule unquad_nums(2) [OF byte_digits(1,2) n])
    moreover have "?n1 div 16 = uint a mod 4" "?n1 mod 16 = uint b div 16" "?n2 div 4 = uint b mod 16"
      using byte_digits(3,4) [of b] by (simp_all only: digits)
    ultimately have "unquad (quad [a, b] @ r) = Some [a, b]" by (simp only: word_of_digits)
    then show ?thesis unfolding two by (simp del: quad.simps)
  next
    case more
    let ?n1 = "16 * (uint a mod 4) + uint b div 16" and ?n2 = "4 * (uint b mod 16) + uint c div 64" and ?n3 = "uint c mod 64"
    have n: "0 \<le> ?n1" "?n1 < 64" "0 \<le> ?n2" "?n2 < 64" using byte_digits [of a] byte_digits [of b] byte_digits [of c] by linarith+
    have "unquad (quad (a # b # c # ds) @ r) = Some [word_of_int (4 * (uint a div 4) + ?n1 div 16),
        word_of_int (16 * (?n1 mod 16) + ?n2 div 4), word_of_int (64 * (?n2 mod 4) + ?n3)]"
      by (simp only: quad.simps append.simps byte_shift) (rule unquad_nums(3) [OF byte_digits(1,2) n byte_digits(11,12)])
    moreover have "?n1 div 16 = uint a mod 4" "?n1 mod 16 = uint b div 16" "?n2 div 4 = uint b mod 16" "?n2 mod 4 = uint c div 64"
      using byte_digits(3,4) [of b] byte_digits(5,6) [of c] by (simp_all only: digits)
    ultimately have "unquad (quad (a # b # c # ds) @ r) = Some [a, b, c]" by (simp only: word_of_digits)
    then show ?thesis unfolding more by (simp add: numeral_3_eq_3 del: quad.simps)
  qed
qed

lemma decode_encode_from: "decode (encode_from crlf ofs bs) = Some bs"
proof (induction crlf ofs bs rule: encode_from.induct)
  case (1 crlf ofs bs)
  show ?case
  proof (cases "bs = []")
    case True
    then show ?thesis by (simp add: encode_from.simps decode.simps)
  next
    case False
    let ?nl = "if crlf \<and> ofs \<noteq> 0 \<and> ofs mod 76 = 0 then [10] else []" and ?r = "encode_from crlf (ofs + 4) (drop 3 bs)"
    obtain x xs where q: "quad bs = x # xs" "length xs = 3" "x \<noteq> 10" "x \<noteq> 13" using quad_first [OF False] by blast
    have e: "encode_from crlf ofs bs = ?nl @ quad bs @ ?r" using False by (subst encode_from.simps) simp
    have skip: "dropWhile (\<lambda>c. c = 13 \<or> c = 10) (?nl @ quad bs @ ?r) = quad bs @ ?r" using q by simp
    have "drop 4 (quad bs @ ?r) = ?r" "quad bs @ ?r \<noteq> []" using q(1,2) by simp_all
    then have "decode (?nl @ quad bs @ ?r) = Some (take 3 bs @ drop 3 bs)"
      by (subst decode.simps, unfold skip Let_def) (simp only: unquad_quad [OF False] "1.IH" [OF False] if_False bind.bind_lunit)
    then show ?thesis unfolding e by simp
  qed
qed

text \<open>The length of the text without line breaks, and its last two characters.\<close>

lemma encode_from_length: "length (encode_from False ofs bs) = 4 * ((length bs + 2) div 3)"
proof (induction "False" ofs bs rule: encode_from.induct)
  case (1 ofs bs)
  show ?case
  proof (cases "bs = []")
    case True
    then show ?thesis by (simp add: encode_from.simps)
  next
    case False
    obtain x xs where "quad bs = x # xs" "length xs = 3" using quad_first [OF False] by blast
    then have "length (encode_from False ofs bs) = 4 + 4 * ((length bs - 3 + 2) div 3)"
      using "1.hyps" False by (subst encode_from.simps) simp
    moreover have "length bs = 1 \<or> length bs = 2 \<or> (\<exists>k. length bs = k + 3)"
      using False by (cases bs rule: quad.cases) auto
    moreover have "(k + 3 + 2) div 3 = (k + 2) div 3 + (1 :: nat)" for k by simp
    ultimately show ?thesis by auto
  qed
qed

text \<open>The last two characters tell how many bytes the last group has.\<close>

definition pad_count :: "u8 list \<Rightarrow> nat" where
  "pad_count s = (if s ! (length s - 2) \<noteq> eq_sign then 1 else 0) + (if s ! (length s - 1) \<noteq> eq_sign then 1 else 0)"

lemma pad_count_append:
  assumes "2 \<le> length q"
  shows "pad_count (p @ q) = pad_count q"
proof -
  have "(p @ q) ! (length (p @ q) - k) = q ! (length q - k)" if "k \<in> {1, 2}" for k using that assms by (auto simp: nth_append)
  then show ?thesis by (simp add: pad_count_def)
qed

lemma quad_pad:
  assumes "bs \<noteq> []"
  shows "pad_count (quad bs) = min (length bs) 3 - 1" "length (quad bs) = 4"
proof -
  show "length (quad bs) = 4" using quad_first [OF assms] by auto
  consider (one) a where "bs = [a]" | (two) a b where "bs = [a, b]" | (more) a b c ds where "bs = a # b # c # ds"
    using assms by (cases bs rule: quad.cases) auto
  then show "pad_count (quad bs) = min (length bs) 3 - 1"
  proof cases
    case one
    then show ?thesis by (simp add: pad_count_def)
  next
    case two
    have "bstr ! nat (4 * (uint b mod 16)) \<noteq> eq_sign" using byte_digits(10) [of b] by (intro bstr_no(1)) linarith
    then show ?thesis unfolding two by (simp only: quad.simps byte_shift pad_count_def) simp
  next
    case more
    have "bstr ! nat (4 * (uint b mod 16) + uint c div 64) \<noteq> eq_sign" "bstr ! nat (uint c mod 64) \<noteq> eq_sign"
      using byte_digits(10) [of b] byte_digits(6,12) [of c] by (intro bstr_no(1); linarith)+
    then show ?thesis unfolding more by (simp only: quad.simps byte_shift pad_count_def) simp
  qed
qed

lemma encode_from_pad: "bs \<noteq> [] \<Longrightarrow> pad_count (encode_from False ofs bs) = (length bs + 2) mod 3"
proof (induction "False" ofs bs rule: encode_from.induct)
  case (1 ofs bs)
  have e: "encode_from False ofs bs = quad bs @ encode_from False (ofs + 4) (drop 3 bs)"
    using "1.prems" by (subst encode_from.simps) simp
  show ?case
  proof (cases "drop 3 bs = []")
    case True
    then have "length bs = 1 \<or> length bs = 2 \<or> length bs = 3" using "1.prems" by (cases bs rule: quad.cases) auto
    then show ?thesis unfolding e True using quad_pad(1) [OF "1.prems"] by (auto simp: encode_from.simps)
  next
    case False
    have "length (encode_from False (ofs + 4) (drop 3 bs)) = 4 * ((length (drop 3 bs) + 2) div 3)" by (rule encode_from_length)
    moreover have "3 \<le> length (drop 3 bs) + 2" using False by (cases "drop 3 bs") auto
    ultimately have "2 \<le> length (encode_from False (ofs + 4) (drop 3 bs))"
      using div_le_mono [of 3 "length (drop 3 bs) + 2" 3] by simp
    moreover have "(length (drop 3 bs) + 2) mod 3 = (length bs + 2) mod 3"
    proof -
      have "length bs + 2 = length (drop 3 bs) + 2 + 3" using False by simp
      then show ?thesis by (metis mod_add_self2)
    qed
    ultimately show ?thesis unfolding e using pad_count_append "1.hyps" [OF "1.prems" False] by simp
  qed
qed

lemma decode_length_encode: "decode_length (encode_from False 0 bs) = length bs"
proof (cases "bs = []")
  case True
  then show ?thesis by (simp add: encode_from.simps decode_length_def)
next
  case False
  let ?s = "encode_from False 0 bs" and ?q = "(length bs + 2) div 3"
  have l: "length ?s = 4 * ?q" by (rule encode_from_length)
  have "3 \<le> length bs + 2" using False by (cases bs) auto
  then have q: "1 \<le> ?q" using div_le_mono [of 3 "length bs + 2" 3] by simp
  then have "?s \<noteq> []" using l by (metis length_0_conv mult_is_0 not_one_le_zero zero_neq_numeral)
  then have "decode_length ?s = 3 * (?q - 1) + 1 + pad_count ?s"
    using l unfolding decode_length_def pad_count_def by simp
  moreover have "pad_count ?s = (length bs + 2) mod 3" using False by (rule encode_from_pad)
  moreover have "3 * ?q + (length bs + 2) mod 3 = length bs + 2" by simp
  ultimately show ?thesis using q by linarith
qed

text \<open>
  C36. Base 64 loses nothing: decoding what the encoder makes of any bytes, with or without line
  breaks, gives the bytes again without an access outside the tables; and without line breaks the
  length computed in advance is the right one.
\<close>

theorem base64_roundtrip:
  "decode (encode bs crlf) = Some bs \<and> decode_length (encode bs False) = length bs"
  by (simp add: encode_def decode_encode_from decode_length_encode)

end
