(* ===== verification/Packet.thy ===== *)
theory Packet
  imports Server_Wire
begin

text \<open>
  The packets between agent and servers: \<open>SPKG ReqPkgHead TSignature [command content] TPkgBody EPKG\<close>.
  \<open>slog_mtreport_client/sv_struct.cpp\<close> (the list of TLVs in a body), \<open>mtreport_basic_pkg.cpp\<close> (class
  \<open>CBasicPacket\<close> of the agent) and \<open>lib/mtagent_api_open/basic_packet.cpp\<close> (the class of the servers). The
  bytes of a packet are a list; a pointer into it is an offset, and a read outside it is \<open>None\<close>.
\<close>

subsection \<open>Structures\<close>

definition sizeof_ReqPkgHead :: nat where "sizeof_ReqPkgHead = 68"
definition sizeof_TSignature :: nat where "sizeof_TSignature = 3"
definition sizeof_TWTlv :: nat where "sizeof_TWTlv = 4"
definition sizeof_TPkgBody :: nat where "sizeof_TPkgBody = 1"
definition PKG_BUFF_LENGTH :: nat where "PKG_BUFF_LENGTH = 4096"
definition SPKG :: u8 where "SPKG = 91"
definition EPKG :: u8 where "EPKG = 93"
definition MAX_SIGNATURE_LEN :: nat where "MAX_SIGNATURE_LEN = 128"
definition REQ_PKG_HEAD_VERSION :: u16 where "REQ_PKG_HEAD_VERSION = 1"
definition TLV_ACK_ERROR :: u16 where "TLV_ACK_ERROR = 5"

definition NO_ERROR :: int where "NO_ERROR = 0"
definition ERR_INVALID_PACKET :: int where "ERR_INVALID_PACKET = 2"
definition ERR_INVALID_PACKET_LEN :: int where "ERR_INVALID_PACKET_LEN = 3"
definition ERR_CHECK_TLV :: int where "ERR_CHECK_TLV = 5"

text \<open>The members hold the numbers in host byte order; \<open>head_bytes\<close> is the packed structure in a packet.\<close>

record ReqPkgHead =
  h_dwCmd :: u32
  h_dwSeq :: u32
  h_wPkgLen :: u16
  h_wToPkgBody :: u16
  h_bRetCode :: u8
  h_bResendTimes :: u8
  h_wVersion :: u16
  h_dwRespMagicNum :: u32
  h_sEchoBuf :: "u8 list"
  h_qwSessionId :: u64
  h_sReserved :: "u8 list"

definition head_bytes :: "ReqPkgHead \<Rightarrow> u8 list" where
  "head_bytes h = be32 (h_dwCmd h) @ be32 (h_dwSeq h) @ be16 (h_wPkgLen h) @ be16 (h_wToPkgBody h)
     @ [h_bRetCode h, h_bResendTimes h] @ be16 (h_wVersion h) @ be32 (h_dwRespMagicNum h)
     @ h_sEchoBuf h @ be64 (h_qwSessionId h) @ h_sReserved h"

definition read_head :: "u8 list \<Rightarrow> ReqPkgHead" where
  "read_head b = \<lparr>h_dwCmd = of_be (take 4 b), h_dwSeq = of_be (take 4 (drop 4 b)), h_wPkgLen = of_be (take 2 (drop 8 b)),
     h_wToPkgBody = of_be (take 2 (drop 10 b)), h_bRetCode = b ! 12, h_bResendTimes = b ! 13, h_wVersion = of_be (take 2 (drop 14 b)),
     h_dwRespMagicNum = of_be (take 4 (drop 16 b)), h_sEchoBuf = take 32 (drop 20 b), h_qwSessionId = of_be (take 8 (drop 52 b)),
     h_sReserved = take 8 (drop 60 b)\<rparr>"

record TSignature =
  bSigType :: u8
  wSigLen :: u16
  sSigValue :: "u8 list"

definition sig_bytes :: "TSignature \<Rightarrow> u8 list" where
  "sig_bytes s = bSigType s # be16 (wSigLen s) @ sSigValue s"

subsection \<open>The list of TLVs\<close>

text \<open>The bytes \<open>SetWTlv\<close> writes.\<close>

definition SetWTlv :: "u16 \<Rightarrow> u16 \<Rightarrow> u8 list \<Rightarrow> u8 list" where
  "SetWTlv wType wLen pValue = be16 wType @ be16 wLen @ take (unat wLen) pValue"

definition tlv_type :: "u8 list \<Rightarrow> u16" where
  "tlv_type p = of_be (take 2 p)"

definition tlv_len :: "u8 list \<Rightarrow> nat" where
  "tlv_len p = unat (of_be (take 2 (drop 2 p)) :: u16)"

text \<open>The loop of \<open>CheckPkgBody\<close> with \<open>n\<close> TLVs left, on the bytes from \<open>pdata\<close> on.\<close>

fun check_tlvs :: "nat \<Rightarrow> u8 list \<Rightarrow> u16 \<Rightarrow> int option" where
  "check_tlvs 0 pdata wBodyLen = Some 0"
| "check_tlvs (Suc n) pdata wBodyLen =
     (if unat wBodyLen < sizeof_TWTlv then Some (-1)
      else if length pdata < sizeof_TWTlv then None
      else if unat wBodyLen < tlv_len pdata + sizeof_TWTlv then Some (-1)
      else check_tlvs n (drop (tlv_len pdata + sizeof_TWTlv) pdata) (wBodyLen - of_nat (tlv_len pdata + sizeof_TWTlv)))"

definition CheckPkgBody :: "u8 list \<Rightarrow> u16 \<Rightarrow> int option" where
  "CheckPkgBody pstBody wBodyLen =
     (if unat wBodyLen < sizeof_TPkgBody then Some (-1)
      else case pstBody of [] \<Rightarrow> None
        | bTlvNum # pdata \<Rightarrow> check_tlvs (unat bTlvNum) pdata (wBodyLen - of_nat sizeof_TPkgBody))"

text \<open>
  The loops of the lookups: \<open>i\<close> is the number of the TLV at the start of \<open>p\<close>, which is at the offset \<open>ofs\<close> of the
  body, and \<open>n\<close> TLVs are left. The result is number and offset of the first TLV that \<open>want\<close> accepts.
\<close>

fun tlv_scan :: "(nat \<Rightarrow> u16 \<Rightarrow> bool) \<Rightarrow> nat \<Rightarrow> nat \<Rightarrow> nat \<Rightarrow> u8 list \<Rightarrow> (nat \<times> nat) option option" where
  "tlv_scan want 0 i ofs p = Some None"
| "tlv_scan want (Suc n) i ofs p =
     (if length p < sizeof_TWTlv then None
      else if want i (tlv_type p) then Some (Some (i, ofs))
      else tlv_scan want n (Suc i) (ofs + sizeof_TWTlv + tlv_len p) (drop (sizeof_TWTlv + tlv_len p) p))"

text \<open>The result is the offset of the TLV in the body; the list functions move \<open>*piStartNum\<close>.\<close>

definition GetWTlvByType2 :: "u16 \<Rightarrow> u8 list \<Rightarrow> nat option option" where
  "GetWTlvByType2 wType pstTlv = (case pstTlv of [] \<Rightarrow> None
     | bTlvNum # p \<Rightarrow> map_option (map_option snd) (tlv_scan (\<lambda>i t. t = wType) (unat bTlvNum) 0 sizeof_TPkgBody p))"

definition GetWTlvType2_list :: "u8 list \<Rightarrow> int \<Rightarrow> (nat option \<times> int) option" where
  "GetWTlvType2_list pstTlv piStartNum = (case pstTlv of [] \<Rightarrow> None
     | bTlvNum # p \<Rightarrow>
         if int (unat bTlvNum) \<le> piStartNum \<or> piStartNum < 0 then Some (None, piStartNum)
         else map_option (\<lambda>r. case r of None \<Rightarrow> (None, piStartNum) | Some (i, ofs) \<Rightarrow> (Some ofs, int i + 1))
           (tlv_scan (\<lambda>i t. piStartNum \<le> int i) (unat bTlvNum) 0 sizeof_TPkgBody p))"

definition GetWTlvByType2_list :: "u16 \<Rightarrow> u8 list \<Rightarrow> int \<Rightarrow> (nat option \<times> int) option" where
  "GetWTlvByType2_list wType pstTlv piStartNum = (case pstTlv of [] \<Rightarrow> None
     | bTlvNum # p \<Rightarrow>
         if int (unat bTlvNum) \<le> piStartNum \<or> piStartNum < 0 then Some (None, piStartNum)
         else map_option (\<lambda>r. case r of None \<Rightarrow> (None, piStartNum) | Some (i, ofs) \<Rightarrow> (Some ofs, int i + 1))
           (tlv_scan (\<lambda>i t. piStartNum \<le> int i \<and> t = wType) (unat bTlvNum) 0 sizeof_TPkgBody p))"

definition GetWTlvByType :: "u16 \<Rightarrow> u16 \<Rightarrow> u8 list \<Rightarrow> nat option option" where
  "GetWTlvByType wType wTlvNum p = map_option (map_option snd) (tlv_scan (\<lambda>i t. t = wType) (unat wTlvNum) 0 0 p)"

text \<open>
  \<open>GetWTlvValueByType2\<close> of the servers returns \<open>stTlv[i].sValue\<close>: the value at the place TLV number \<open>i\<close> would have
  if no TLV had a value.
\<close>

definition GetWTlvValueByType2 :: "u16 \<Rightarrow> u8 list \<Rightarrow> nat option option" where
  "GetWTlvValueByType2 wType pstTlv = (case pstTlv of [] \<Rightarrow> None
     | bTlvNum # p \<Rightarrow> map_option (map_option (\<lambda>(i, ofs). sizeof_TPkgBody + i * sizeof_TWTlv + sizeof_TWTlv))
         (tlv_scan (\<lambda>i t. t = wType) (unat bTlvNum) 0 sizeof_TPkgBody p))"

subsection \<open>The class of the agent\<close>

text \<open>
  What a member points to is given by the bytes there (\<open>m_pstResp\<dots>\<close>, \<open>m_pstReqHead\<close>) or by the offset in the received
  packet.
\<close>

record CBasicPacket =
  m_pReqPkg :: "u8 list"
  m_dwReqPkgLen :: nat
  m_pstReqHead :: "ReqPkgHead option"
  m_pstSig :: "nat option"
  m_pstRespSig :: "u8 list"
  m_wRespSigLen :: u16
  m_pstCmdContent :: "nat option"
  m_wCmdContentLen :: u16
  m_pstRespCmdContent :: "u8 list"
  m_wRespCmdContentLen :: u16
  m_pstBody :: "nat option"
  m_wBodyLen :: u16
  m_pstRespBody :: "u8 list"
  m_wRespBodyLen :: u16
  m_dwReqCmd :: u32
  m_dwReqSeq :: u32
  m_bRetCode :: u8

definition ResetPacketInfo :: "'a CBasicPacket_scheme \<Rightarrow> 'a CBasicPacket_scheme" where
  "ResetPacketInfo c = c\<lparr>m_pReqPkg := [], m_dwReqPkgLen := 0, m_pstReqHead := None, m_pstSig := None, m_pstRespSig := [], m_wRespSigLen := 0,
     m_pstCmdContent := None, m_wCmdContentLen := 0, m_pstRespCmdContent := [], m_wRespCmdContentLen := 0,
     m_pstBody := None, m_wBodyLen := 0, m_pstRespBody := [], m_wRespBodyLen := 0, m_dwReqCmd := 0, m_dwReqSeq := 0, m_bRetCode := 0\<rparr>"

text \<open>The head and the new value of \<open>dwPkgSeq\<close> in the shared segment.\<close>

definition InitReqPkgHead :: "u32 \<Rightarrow> u32 \<Rightarrow> 'a CBasicPacket_scheme \<Rightarrow> u32 \<times> 'a CBasicPacket_scheme" where
  "InitReqPkgHead cmd dwPkgSeq c =
     (let seq = (if dwPkgSeq = 0 then 1 else dwPkgSeq);
          h = \<lparr>h_dwCmd = cmd, h_dwSeq = seq, h_wPkgLen = 0, h_wToPkgBody = 0, h_bRetCode = 0, h_bResendTimes = 0,
               h_wVersion = REQ_PKG_HEAD_VERSION, h_dwRespMagicNum = 0, h_sEchoBuf = replicate 32 0, h_qwSessionId = 0, h_sReserved = replicate 8 0\<rparr>
      in (if dwPkgSeq = 0 then 2 else dwPkgSeq + 1, c\<lparr>m_pstReqHead := Some h, m_dwReqCmd := cmd, m_dwReqSeq := seq\<rparr>))"

definition InitSignature :: "TSignature \<Rightarrow> 'a CBasicPacket_scheme \<Rightarrow> 'a CBasicPacket_scheme" where
  "InitSignature psig c = c\<lparr>m_pstRespSig := sig_bytes psig, m_wRespSigLen := of_nat sizeof_TSignature + wSigLen psig\<rparr>"

definition InitCmdContent :: "u8 list \<Rightarrow> u16 \<Rightarrow> 'a CBasicPacket_scheme \<Rightarrow> 'a CBasicPacket_scheme" where
  "InitCmdContent pCmdCt wCmdCtLen c = c\<lparr>m_pstRespCmdContent := pCmdCt, m_wRespCmdContentLen := wCmdCtLen\<rparr>"

definition InitPkgBody :: "u8 list \<Rightarrow> u16 \<Rightarrow> 'a CBasicPacket_scheme \<Rightarrow> 'a CBasicPacket_scheme" where
  "InitPkgBody pbody wBodyLen c = c\<lparr>m_pstRespBody := pbody, m_wRespBodyLen := wBodyLen\<rparr>"

text \<open>\<open>memcpy\<close> of \<open>n\<close> bytes.\<close>

definition copy_bytes :: "u16 \<Rightarrow> u8 list \<Rightarrow> u8 list option" where
  "copy_bytes n p = (if unat n \<le> length p then Some (take (unat n) p) else None)"

text \<open>The result is the number that is returned and, unless the buffer is too small, the packet.\<close>

definition MakePacket :: "int \<Rightarrow> u8 \<Rightarrow> 'a CBasicPacket_scheme \<Rightarrow> (u32 \<times> u8 list option) option" where
  "MakePacket piBufLen iRetCode c =
     (if piBufLen < int (2 + sizeof_ReqPkgHead + sizeof_TSignature + sizeof_TPkgBody
          + unat (m_wRespSigLen c) + unat (m_wRespCmdContentLen c) + unat (m_wRespBodyLen c)) then Some (0, None)
      else do {
        h \<leftarrow> m_pstReqHead c;
        sg \<leftarrow> (if 0 < m_wRespSigLen c then copy_bytes (m_wRespSigLen c) (m_pstRespSig c) else Some (replicate sizeof_TSignature 0));
        ct \<leftarrow> (if 0 < m_wRespCmdContentLen c then copy_bytes (m_wRespCmdContentLen c) (m_pstRespCmdContent c) else Some []);
        bd \<leftarrow> (if 0 < m_wRespBodyLen c then copy_bytes (m_wRespBodyLen c) (m_pstRespBody c) else Some (replicate sizeof_TPkgBody 0));
        let toBody = 1 + sizeof_ReqPkgHead + length sg + length ct;
        let h = h\<lparr>h_bRetCode := iRetCode, h_wToPkgBody := of_nat toBody, h_wPkgLen := of_nat (toBody + length bd + 1)\<rparr>;
        Some (m_dwReqSeq c, Some (SPKG # head_bytes h @ sg @ ct @ bd @ [EPKG]))
      })"

definition GetErrMsg :: "int \<Rightarrow> string" where
  "GetErrMsg err =
     (if err = 0 then ''no error'' else if err = 1 then ''error server (bug) !'' else if err = 2 then ''error invalid packet !''
      else if err = 3 then ''error invalid packet length !'' else if err = 4 then ''error unknow cmd !'' else if err = 5 then ''error check tlv !''
      else if err = 6 then ''error check signature failed'' else if err = 8 then ''error invalid tlv value !'' else if err = 9 then ''find tlv failed !''
      else if err = 10 then ''response size over limit !'' else if err = 11 then ''http keep socket not find !'' else if err = 12 then ''decrypt failed !''
      else if err = 13 then ''find session failed !'' else if err = 14 then ''invalid cmd content !'' else if err = 15 then ''check distribute failed !''
      else if err = 16 then ''check body md5 failed !'' else ''unknow error !'')"

definition MakeErrorRespPkg :: "int \<Rightarrow> int \<Rightarrow> 'a CBasicPacket_scheme \<Rightarrow> (u32 \<times> u8 list option) option" where
  "MakeErrorRespPkg iErrCode piBufLen c =
     (let msg = bytes (GetErrMsg iErrCode); tlv = SetWTlv TLV_ACK_ERROR (of_nat (length msg)) msg
      in MakePacket piBufLen (word_of_int iErrCode)
           (c\<lparr>m_pstRespBody := 1 # tlv, m_wRespBodyLen := of_nat (sizeof_TPkgBody + length tlv)\<rparr>))"

definition MakeRespPkg :: "int \<Rightarrow> int \<Rightarrow> 'a CBasicPacket_scheme \<Rightarrow> (u32 \<times> u8 list option) option" where
  "MakeRespPkg iRetCode piBufLen c =
     (if iRetCode \<noteq> NO_ERROR then MakeErrorRespPkg iRetCode piBufLen c else MakePacket piBufLen (word_of_int iRetCode) c)"

subsection \<open>Checking a packet\<close>

text \<open>
  The return of \<open>ERR_INVALID_PACKET\<close>, whose message reads \<open>n\<close> bytes. The arguments of the messages \<open>REQERR_LOG\<close> are read only when a message is written, that is when
  \<open>log\<close> is true: the agent writes it unless \<open>LogFreqCheck\<close> limits it, when \<open>iLocalLogType\<close> selects it and the
  log file is open, the servers when \<open>slog\<close> selects it. At most one such message is written by a check. These reads are
  not guarded by the length: the first reads \<open>wPkgLen\<close> of the head (bytes 9 and 10) and the last byte of a packet of any
  length, that on the signature reads \<open>wSigLen\<close> (bytes 70 and 71). What lies behind a packet in the buffer that holds it,
  such as the end of an earlier packet in \<open>m_sCommBuf\<close>, is outside the packet.
\<close>

definition invalid_packet :: "bool \<Rightarrow> nat \<Rightarrow> u8 list \<Rightarrow> 'c \<Rightarrow> (int \<times> 'c) option" where
  "invalid_packet log n buf c = (if log \<and> length buf < n then None else Some (ERR_INVALID_PACKET, c))"

text \<open>
  The part of \<open>CheckBasicPacket\<close> between the head and the result code, which the classes of agent and servers share
  but for the limit on the signature.
\<close>

definition check_parts :: "bool \<Rightarrow> (nat \<Rightarrow> bool) \<Rightarrow> u8 list \<Rightarrow> 'a CBasicPacket_scheme \<Rightarrow> (int \<times> 'a CBasicPacket_scheme) option" where
  "check_parts log sig_ok buf c =
     (let len = length buf; h = read_head (take sizeof_ReqPkgHead (drop 1 buf)); wToPkgBody = unat (h_wToPkgBody h);
          wRemainLen = len - (2 + sizeof_ReqPkgHead); sig = 1 + sizeof_ReqPkgHead;
          c = c\<lparr>m_pstReqHead := Some h, m_dwReqCmd := h_dwCmd h, m_dwReqSeq := h_dwSeq h, m_pstSig := Some sig\<rparr> in
      if wRemainLen < sizeof_TSignature then invalid_packet log (sig + sizeof_TSignature) buf c
      else let sigLen = unat (of_be (take 2 (drop (sig + 1) buf)) :: u16) in
        if wRemainLen < sizeof_TSignature + sigLen \<or> \<not> sig_ok sigLen then Some (ERR_INVALID_PACKET, c)
        else let wBasicLen = 1 + sizeof_ReqPkgHead + sizeof_TSignature + sigLen in
          if wToPkgBody < wBasicLen \<or> len < wToPkgBody + sizeof_TPkgBody then Some (ERR_INVALID_PACKET, c)
          else let c = (if wBasicLen < wToPkgBody then c\<lparr>m_wCmdContentLen := of_nat (wToPkgBody - wBasicLen), m_pstCmdContent := Some wBasicLen\<rparr>
                        else c\<lparr>m_wCmdContentLen := 0, m_pstCmdContent := None\<rparr>);
                   bodyLen = of_nat (len - wToPkgBody - 1);
                   c = c\<lparr>m_pstBody := Some wToPkgBody, m_wBodyLen := bodyLen\<rparr> in do {
            r \<leftarrow> CheckPkgBody (drop wToPkgBody buf) bodyLen;
            Some (if r < 0 then ERR_CHECK_TLV else NO_ERROR, c)
          })"

text \<open>
  The end of the error message in a packet that reports an error is made a NUL, and the message is written with \<open>%s\<close>, which
  reads up to the first NUL: of a message of no bytes the byte before it is looked at, which is the last one of its length.
\<close>

definition end_message :: "bool \<Rightarrow> nat \<Rightarrow> u8 list \<Rightarrow> u8 list option" where
  "end_message log body buf = do {
     r \<leftarrow> GetWTlvByType2 TLV_ACK_ERROR (drop body buf);
     case r of None \<Rightarrow> Some buf
     | Some ofs \<Rightarrow> let e = body + ofs + sizeof_TWTlv + tlv_len (drop (body + ofs) buf) - 1 in
         if length buf \<le> e then None
         else let buf' = (if buf ! e \<noteq> 0 then buf[e := 0] else buf) in
           if log \<and> 0 \<notin> set (drop (body + ofs + sizeof_TWTlv) buf') then None else Some buf'
   }"

definition CheckBasicPacket :: "bool \<Rightarrow> u8 list \<Rightarrow> CBasicPacket \<Rightarrow> (int \<times> CBasicPacket) option" where
  "CheckBasicPacket log buf c =
     (let len = length buf; c = (ResetPacketInfo c)\<lparr>m_pReqPkg := buf, m_dwReqPkgLen := len\<rparr> in
      if len \<le> 2 + sizeof_ReqPkgHead then invalid_packet log 11 buf c
      else let h = read_head (take sizeof_ReqPkgHead (drop 1 buf)) in
        if unat (h_wPkgLen h) \<noteq> len \<or> PKG_BUFF_LENGTH < len \<or> buf ! 0 \<noteq> SPKG \<or> buf ! (len - 1) \<noteq> EPKG then Some (ERR_INVALID_PACKET, c)
        else do {
          (rc, c) \<leftarrow> check_parts log (\<lambda>_. True) buf c;
          if rc \<noteq> NO_ERROR then Some (rc, c)
          else let c = c\<lparr>m_bRetCode := h_bRetCode h\<rparr> in
            if h_bRetCode h = 0 then Some (NO_ERROR, c)
            else do { buf' \<leftarrow> end_message log (unat (h_wToPkgBody h)) buf; Some (NO_ERROR, c\<lparr>m_pReqPkg := buf'\<rparr>) }
        })"

subsection \<open>The class of the servers\<close>

definition MAX_UDP_REQ_PACKET_SIZE :: nat where "MAX_UDP_REQ_PACKET_SIZE = 4096"
definition SPKG_PB :: u8 where "SPKG_PB = 123"
definition EPKG_PB :: u8 where "EPKG_PB = 125"

record SrvBasicPacket = CBasicPacket +
  m_iCommLen :: nat
  m_bIsPbReq :: bool
  m_bIsResponse :: bool
  m_bParsePbHead :: bool
  m_iPbHeadLen :: int
  m_iPbBodyLen :: int

definition SrvResetPacketInfo :: "SrvBasicPacket \<Rightarrow> SrvBasicPacket" where
  "SrvResetPacketInfo c = (ResetPacketInfo c)\<lparr>m_iCommLen := 0, m_bIsPbReq := False, m_bIsResponse := False\<rparr>"

text \<open>\<open>SetPacketPb\<close>: the packet with a protobuf head and body, unless it is longer than the buffer.\<close>

definition SetPacketPb :: "u8 list \<Rightarrow> u8 list \<Rightarrow> int \<Rightarrow> u8 list option" where
  "SetPacketPb strHead strBody ibufLen =
     (if (if ibufLen \<le> 0 then 8192 else ibufLen) < int (length strHead + length strBody + 10) then None
      else Some (SPKG_PB # be32 (of_nat (length strHead)) @ strHead @ be32 (of_nat (length strBody)) @ strBody @ [EPKG_PB]))"

text \<open>A 32-bit number at an offset, and a sum of \<open>int\<close>s; outside the packet or the range they are \<open>None\<close>.\<close>

definition read_int :: "u8 list \<Rightarrow> int \<Rightarrow> int option" where
  "read_int buf ofs = (if 0 \<le> ofs \<and> ofs + 4 \<le> int (length buf) then Some (sint (of_be (take 4 (drop (nat ofs) buf)) :: u32)) else None)"

definition int_sum :: "int \<Rightarrow> int option" where
  "int_sum x = (if x < 2 ^ 31 then Some x else None)"

definition IsPacketPb :: "u8 list \<Rightarrow> SrvBasicPacket \<Rightarrow> (bool \<times> SrvBasicPacket) option" where
  "IsPacketPb buf c =
     (let len = length buf in
      if len \<le> 10 \<or> buf ! 0 \<noteq> SPKG_PB \<or> buf ! (len - 1) \<noteq> EPKG_PB then Some (False, c)
      else do {
        hl \<leftarrow> read_int buf 1;
        s \<leftarrow> int_sum (hl + 2 + 4);
        if int len < s then Some (False, c\<lparr>m_iPbHeadLen := 0, m_bIsPbReq := False\<rparr>)
        else do {
          bl \<leftarrow> read_int buf (1 + 4 + hl);
          s \<leftarrow> int_sum (hl + bl + 10);
          Some (if s \<noteq> int len then (False, c\<lparr>m_iPbHeadLen := 0, m_iPbBodyLen := 0, m_bIsPbReq := False\<rparr>)
                else (True, c\<lparr>m_iPbHeadLen := hl, m_iPbBodyLen := bl, m_bIsPbReq := True\<rparr>))
        }
      })"

text \<open>\<open>parse\<close> is \<open>ParseFromArray\<close> of the protobuf head: command, sequence number and result.\<close>

definition CheckBasicPacketPb :: "(u8 list \<Rightarrow> (u32 \<times> u32 \<times> u32) option) \<Rightarrow> u8 list \<Rightarrow> bool \<Rightarrow> SrvBasicPacket \<Rightarrow> int \<times> SrvBasicPacket" where
  "CheckBasicPacketPb parse buf bUseSelfBuf c =
     (let len = length buf; c = c\<lparr>m_bIsPbReq := True\<rparr> in
      if bUseSelfBuf \<and> MAX_UDP_REQ_PACKET_SIZE < len then (ERR_INVALID_PACKET_LEN, c\<lparr>m_pReqPkg := buf, m_dwReqPkgLen := len\<rparr>)
      else
        let c = (if bUseSelfBuf then c\<lparr>m_iCommLen := len\<rparr> else c);
            c = c\<lparr>m_bParsePbHead := False, m_pReqPkg := buf, m_dwReqPkgLen := len\<rparr> in
        if len \<le> 10 \<or> buf ! 0 \<noteq> SPKG_PB \<or> buf ! (len - 1) \<noteq> EPKG_PB then (ERR_INVALID_PACKET, c)
        else if m_iPbHeadLen c \<le> 0 then (ERR_INVALID_PACKET_LEN, c)
        else case parse (take (nat (m_iPbHeadLen c)) (drop 5 buf)) of
          None \<Rightarrow> (ERR_INVALID_PACKET_LEN, c)
        | Some (cmd, seq, res) \<Rightarrow>
            let c = c\<lparr>m_bParsePbHead := True, m_dwReqCmd := cmd, m_dwReqSeq := seq, m_bRetCode := ucast res\<rparr> in
            if m_bRetCode c \<noteq> 0 then (uint (m_bRetCode c), c)
            else if m_iPbHeadLen c + m_iPbBodyLen c + 10 \<noteq> int len then (ERR_INVALID_PACKET_LEN, c)
            else (NO_ERROR, c))"

text \<open>
  The check of the servers. The result code goes to a local variable with the name of the member, so that the member stays
  0.
\<close>

definition SrvCheckBasicPacket :: "bool \<Rightarrow> (u8 list \<Rightarrow> (u32 \<times> u32 \<times> u32) option) \<Rightarrow> u8 list \<Rightarrow> bool \<Rightarrow> SrvBasicPacket \<Rightarrow> (int \<times> SrvBasicPacket) option" where
  "SrvCheckBasicPacket log parse buf bUseSelfBuf c = do {
     (pb, c) \<leftarrow> IsPacketPb buf (SrvResetPacketInfo c);
     let len = length buf;
     let c1 = c\<lparr>m_pReqPkg := buf, m_dwReqPkgLen := len\<rparr>;
     if pb then Some (CheckBasicPacketPb parse buf bUseSelfBuf c)
     else if bUseSelfBuf \<and> MAX_UDP_REQ_PACKET_SIZE < len then Some (ERR_INVALID_PACKET_LEN, c1)
     else let c = (if bUseSelfBuf then c1\<lparr>m_iCommLen := len\<rparr> else c1) in
       if len \<le> 2 + sizeof_ReqPkgHead then invalid_packet log 11 buf c
       else let h = read_head (take sizeof_ReqPkgHead (drop 1 buf)) in
         if unat (h_wPkgLen h) \<noteq> len \<or> MAX_UDP_REQ_PACKET_SIZE < len \<or> buf ! 0 \<noteq> SPKG \<or> buf ! (len - 1) \<noteq> EPKG then Some (ERR_INVALID_PACKET, c)
         else do {
           (rc, c) \<leftarrow> check_parts log (\<lambda>n. n \<le> MAX_SIGNATURE_LEN) buf c;
           if rc \<noteq> NO_ERROR then Some (rc, c)
           else if h_bRetCode h = 0 then Some (NO_ERROR, c)
           else do { buf' \<leftarrow> end_message log (unat (h_wToPkgBody h)) buf; Some (uint (h_bRetCode h), c\<lparr>m_pReqPkg := buf'\<rparr>) }
         }
   }"

end
