(* ===== verification/Packet_Props.thy ===== *)
theory Packet_Props
  imports Packet
begin

text \<open>
  Packets: the check of a packet that is not too short reads inside it and leaves the lookups of TLVs inside it, and
  a packet made by the agent is taken apart by the server into the same parts.
\<close>

lemmas sizes = sizeof_ReqPkgHead_def sizeof_TSignature_def sizeof_TWTlv_def sizeof_TPkgBody_def PKG_BUFF_LENGTH_def
  MAX_SIGNATURE_LEN_def MAX_UDP_REQ_PACKET_SIZE_def

lemmas error_codes = NO_ERROR_def ERR_INVALID_PACKET_def ERR_INVALID_PACKET_LEN_def ERR_CHECK_TLV_def

subsection \<open>TLVs inside a list of bytes\<close>

fun tlvs_within :: "nat \<Rightarrow> u8 list \<Rightarrow> bool" where
  "tlvs_within 0 p = True"
| "tlvs_within (Suc n) p \<longleftrightarrow> 4 \<le> length p \<and> 4 + tlv_len p \<le> length p \<and> tlvs_within n (drop (4 + tlv_len p) p)"

lemma tlv_append:
  assumes "4 \<le> length p"
  shows "tlv_len (p @ q) = tlv_len p" "tlv_type (p @ q) = tlv_type p"
  using assms by (simp_all add: tlv_len_def tlv_type_def)

lemma unat_u16_less: "unat (x :: u16) < 2 ^ 16"
  by (rule order_less_le_trans [OF unsigned_less]) simp

lemma unat_sub_nat16:
  assumes "n \<le> unat (w :: u16)"
  shows "unat (w - of_nat n) = unat w - n"
proof -
  have "unat (of_nat n :: u16) = n" using assms unat_u16_less [of w] by (simp add: unat_of_nat)
  then show ?thesis using assms by (simp add: unat_sub word_le_nat_alt)
qed

lemma check_tlvs_total:
  assumes "unat w \<le> length p"
  shows "\<exists>r. check_tlvs n p w = Some r \<and> (r = -1 \<or> r = 0 \<and> tlvs_within n (take (unat w) p))"
  using assms
proof (induction n arbitrary: p w)
  case (Suc n)
  consider (short) "unat w < 4" | (over) "4 \<le> unat w" "unat w < tlv_len p + 4" | (fits) "4 \<le> unat w" "tlv_len p + 4 \<le> unat w" by linarith
  then show ?case
  proof cases
    case fits
    let ?k = "tlv_len p + 4"
    have w: "unat (w - of_nat ?k) = unat w - ?k" using fits(2) by (rule unat_sub_nat16)
    obtain r where r: "check_tlvs n (drop ?k p) (w - of_nat ?k) = Some r"
      "r = -1 \<or> r = 0 \<and> tlvs_within n (take (unat w - ?k) (drop ?k p))"
      using Suc.IH [of "w - of_nat ?k" "drop ?k p"] diff_le_mono [OF Suc.prems, of ?k] unfolding w by auto
    have "tlv_len (take (unat w) p) = tlv_len p" using fits(1) by (simp add: tlv_len_def drop_take)
    then have "tlvs_within (Suc n) (take (unat w) p) = tlvs_within n (take (unat w - ?k) (drop ?k p))"
      using fits Suc.prems by (simp add: drop_take add.commute)
    then show ?thesis using r fits Suc.prems by (simp add: sizes)
  qed (use Suc.prems in \<open>auto simp: sizes\<close>)
qed simp

lemma check_tlvs_append: "check_tlvs n p w = Some r \<Longrightarrow> check_tlvs n (p @ q) w = Some r"
proof (induction n arbitrary: p w)
  case (Suc n)
  show ?case
  proof (cases "unat w < 4 \<or> unat w < tlv_len p + 4")
    case True
    then show ?thesis using Suc.prems by (auto simp: sizes tlv_append split: if_splits)
  next
    case False
    let ?k = "tlv_len p + 4"
    have p: "4 \<le> length p" and r: "check_tlvs n (drop ?k p) (w - of_nat ?k) = Some r"
      using False Suc.prems by (auto simp: sizes split: if_splits)
    have "check_tlvs n (drop ?k (p @ q)) (w - of_nat ?k) = Some r"
    proof (cases "?k \<le> length p")
      case True
      then show ?thesis using Suc.IH [OF r] by simp
    next
      case short: False
      then have "n = 0 \<or> r = -1" using r by (cases n) (auto simp: sizes split: if_splits)
      show ?thesis
      proof (cases n)
        case 0
        then show ?thesis using r by simp
      next
        case (Suc m)
        then have "r = -1" "unat (w - of_nat ?k) < 4" using r short by (auto simp: sizes split: if_splits)
        then show ?thesis using Suc by (simp add: sizes)
      qed
    qed
    then show ?thesis using False p by (simp add: sizes tlv_append)
  qed
qed simp

lemma tlv_scan_within:
  assumes "tlvs_within n p"
  shows "\<exists>r. tlv_scan want n i ofs (p @ q) = Some r \<and>
    (\<forall>j k. r = Some (j, k) \<longrightarrow> (\<exists>t. want j t) \<and> i \<le> j \<and> j < i + n \<and> (\<exists>d. k = ofs + d \<and> d + 4 + tlv_len (drop d p) \<le> length p))"
  using assms
proof (induction n arbitrary: i ofs p)
  case (Suc n)
  have p: "4 \<le> length p" "4 + tlv_len p \<le> length p" "tlvs_within n (drop (4 + tlv_len p) p)" using Suc.prems by auto
  show ?case
  proof (cases "want i (tlv_type p)")
    case True
    then have "tlv_scan want (Suc n) i ofs (p @ q) = Some (Some (i, ofs))" using p(1) by (simp add: sizes tlv_append)
    moreover have "\<exists>t. want i t" using True by blast
    moreover have "\<exists>d. ofs = ofs + d \<and> d + 4 + tlv_len (drop d p) \<le> length p" using p(2) by (intro exI [of _ 0]) simp
    ultimately show ?thesis by simp
  next
    case False
    obtain r where r: "tlv_scan want n (Suc i) (ofs + 4 + tlv_len p) (drop (4 + tlv_len p) p @ q) = Some r"
      "\<And>j k. r = Some (j, k) \<Longrightarrow> (\<exists>t. want j t) \<and> Suc i \<le> j \<and> j < Suc i + n \<and>
        (\<exists>d. k = ofs + 4 + tlv_len p + d \<and> d + 4 + tlv_len (drop d (drop (4 + tlv_len p) p)) \<le> length (drop (4 + tlv_len p) p))"
      using Suc.IH [OF p(3), of "Suc i" "ofs + 4 + tlv_len p"] by blast
    have "tlv_scan want (Suc n) i ofs (p @ q) = Some r" using False p r(1) by (simp add: sizes tlv_append)
    moreover have "(\<exists>t. want j t) \<and> i \<le> j \<and> j < i + Suc n \<and> (\<exists>d. k = ofs + d \<and> d + 4 + tlv_len (drop d p) \<le> length p)"
      if jk: "r = Some (j, k)" for j k
    proof -
      obtain d where "k = ofs + 4 + tlv_len p + d" "d + 4 + tlv_len (drop (d + (4 + tlv_len p)) p) \<le> length p - (4 + tlv_len p)"
        using r(2) [OF jk] by (auto simp: add.commute)
      then have "k = ofs + (d + (4 + tlv_len p))" "(d + (4 + tlv_len p)) + 4 + tlv_len (drop (d + (4 + tlv_len p)) p) \<le> length p"
        using p(2) by simp_all
      then show ?thesis using r(2) [OF jk] by auto
    qed
    ultimately show ?thesis by blast
  qed
qed simp

text \<open>A body of \<open>w\<close> bytes at the start of \<open>b\<close> in which every lookup of a TLV stays.\<close>

definition body_ok :: "u8 list \<Rightarrow> nat \<Rightarrow> bool" where
  "body_ok b w \<longleftrightarrow> 1 \<le> w \<and> w \<le> length b \<and> tlvs_within (unat (hd b)) (take (w - 1) (tl b))"

lemma CheckPkgBody_total:
  assumes "unat w \<le> length b"
  shows "\<exists>r. CheckPkgBody b w = Some r \<and> (r = -1 \<or> r = 0 \<and> body_ok b (unat w))"
proof (cases "unat w < 1")
  case True
  then show ?thesis by (simp add: CheckPkgBody_def sizes)
next
  case False
  then obtain x p where b: "b = x # p" using assms by (cases b) auto
  have w: "unat (w - 1) = unat w - 1" using unat_sub_nat16 [of 1 w] False by simp
  then have "unat (w - 1) \<le> length p" using assms b by simp
  then show ?thesis using check_tlvs_total [of "w - 1" p "unat x"] False assms w by (auto simp: CheckPkgBody_def b sizes body_ok_def)
qed

lemma CheckPkgBody_append: "CheckPkgBody b w = Some r \<Longrightarrow> CheckPkgBody (b @ q) w = Some r"
  by (auto simp: CheckPkgBody_def split: list.splits if_splits dest: check_tlvs_append)

lemma body_scan:
  assumes "body_ok b w"
  shows "\<exists>r. tlv_scan want (unat (hd b)) 0 1 (tl b) = Some r \<and>
    (\<forall>j k. r = Some (j, k) \<longrightarrow> (\<exists>t. want j t) \<and> j < unat (hd b) \<and> k + 4 + tlv_len (drop k b) \<le> w)"
proof -
  let ?p = "take (w - 1) (tl b)"
  have b: "b = hd b # tl b" "1 \<le> w" "w \<le> length b" using assms by (cases b; simp add: body_ok_def)+
  obtain r where r: "tlv_scan want (unat (hd b)) 0 1 (?p @ drop (w - 1) (tl b)) = Some r"
    "\<And>j k. r = Some (j, k) \<Longrightarrow> (\<exists>t. want j t) \<and> j < 0 + unat (hd b) \<and> (\<exists>d. k = 1 + d \<and> d + 4 + tlv_len (drop d ?p) \<le> length ?p)"
    using tlv_scan_within [of "unat (hd b)" ?p want 0 1 "drop (w - 1) (tl b)"] assms unfolding body_ok_def by blast
  have "k + 4 + tlv_len (drop k b) \<le> w" if jk: "r = Some (j, k)" for j k
  proof -
    obtain d where d: "k = 1 + d" "d + 4 + tlv_len (drop d ?p) \<le> length ?p" using r(2) [OF jk] by blast
    have "drop d (?p @ drop (w - 1) (tl b)) = drop d ?p @ drop (w - 1) (tl b)" using d(2) by (simp del: append_take_drop_id)
    moreover have "4 \<le> length (drop d ?p)" using d(2) unfolding length_drop by linarith
    ultimately have "tlv_len (drop d ?p) = tlv_len (drop d (tl b))"
      using tlv_append(1) [of "drop d ?p" "drop (w - 1) (tl b)"] unfolding append_take_drop_id by simp
    moreover have "drop k b = drop d (tl b)" using d(1) by (subst b(1)) simp
    ultimately show ?thesis using d b(2,3) by simp
  qed
  then show ?thesis using r by auto
qed

subsection \<open>The parts of a packet\<close>

definition parts_inside :: "u8 list \<Rightarrow> nat \<Rightarrow> 'a CBasicPacket_scheme \<Rightarrow> bool" where
  "parts_inside buf b c \<longleftrightarrow> m_pstBody c = Some b \<and> b + unat (m_wBodyLen c) + 1 = length buf \<and> body_ok (drop b buf) (unat (m_wBodyLen c)) \<and>
     (case m_pstCmdContent c of None \<Rightarrow> m_wCmdContentLen c = 0 | Some k \<Rightarrow> 72 \<le> k \<and> k + unat (m_wCmdContentLen c) = b)"

lemma u16_nat: "n < 2 ^ 16 \<Longrightarrow> unat (of_nat n :: u16) = n"
  by (simp add: unat_of_nat)

lemma check_parts_inside:
  assumes len: "2 + sizeof_ReqPkgHead < length buf" "length buf \<le> 4096" and log: "log \<Longrightarrow> length buf \<noteq> 71"
  defines "h \<equiv> read_head (take sizeof_ReqPkgHead (drop 1 buf))"
  shows "\<exists>rc c'. check_parts log ok buf c = Some (rc, c') \<and> rc \<in> {NO_ERROR, ERR_INVALID_PACKET, ERR_CHECK_TLV} \<and>
    (rc = NO_ERROR \<longrightarrow> parts_inside buf (unat (h_wToPkgBody h)) c')"
proof -
  define b s where "b = unat (h_wToPkgBody h)" and "s = unat (of_be (take 2 (drop (1 + sizeof_ReqPkgHead + 1) buf)) :: u16)"
  define c1 where "c1 = c\<lparr>m_pstReqHead := Some h, m_dwReqCmd := h_dwCmd h, m_dwReqSeq := h_dwSeq h, m_pstSig := Some (1 + sizeof_ReqPkgHead)\<rparr>"
  define c2 where "c2 = (if 72 + s < b then c1\<lparr>m_wCmdContentLen := of_nat (b - (72 + s)), m_pstCmdContent := Some (72 + s)\<rparr>
    else c1\<lparr>m_wCmdContentLen := 0, m_pstCmdContent := None\<rparr>)"
  define w :: u16 where "w = of_nat (length buf - b - 1)"
  define c3 where "c3 = c2\<lparr>m_pstBody := Some b, m_wBodyLen := w\<rparr>"
  have inv: "invalid_packet log (69 + 3) buf c1 = Some (ERR_INVALID_PACKET, c1)"
    using len(1) log by (auto simp: invalid_packet_def sizes)
  have run: "check_parts log ok buf c =
    (if length buf - 70 < 3 then Some (ERR_INVALID_PACKET, c1)
     else if length buf - 70 < 3 + s \<or> \<not> ok s then Some (ERR_INVALID_PACKET, c1)
     else if b < 72 + s \<or> length buf < b + 1 then Some (ERR_INVALID_PACKET, c1)
     else do { r \<leftarrow> CheckPkgBody (drop b buf) w; Some (if r < 0 then ERR_CHECK_TLV else NO_ERROR, c3) })"
    unfolding check_parts_def Let_def h_def [symmetric] b_def [symmetric] s_def [symmetric] c1_def [symmetric] w_def [symmetric]
    using inv by (simp add: sizes c2_def c3_def)
  show ?thesis
  proof (cases "length buf - 70 < 3 \<or> length buf - 70 < 3 + s \<or> \<not> ok s \<or> b < 72 + s \<or> length buf < b + 1")
    case True
    then have "check_parts log ok buf c = Some (ERR_INVALID_PACKET, c1)" unfolding run by auto
    then show ?thesis by (auto simp: error_codes)
  next
    case False
    then have b: "72 + s \<le> b" "b + 1 \<le> length buf" by auto
    have w: "unat w = length buf - b - 1" using len(2) b unfolding w_def by (intro u16_nat) simp
    obtain r where r: "CheckPkgBody (drop b buf) w = Some r" "r = -1 \<or> r = 0 \<and> body_ok (drop b buf) (unat w)"
      using CheckPkgBody_total [of w "drop b buf"] w by force
    have ct: "unat (of_nat (b - (72 + s)) :: u16) = b - (72 + s)" using len(2) b by (intro u16_nat) simp
    have "parts_inside buf b c3" if "r = 0"
      using r(2) that w b ct unfolding parts_inside_def c3_def c2_def c1_def by auto
    then show ?thesis unfolding run b_def [symmetric] using False r by (auto simp: error_codes)
  qed
qed

text \<open>Every lookup in a body of \<open>w\<close> bytes finds a TLV that ends inside it, or none; those by number advance.\<close>

definition lookups_inside :: "u8 list \<Rightarrow> nat \<Rightarrow> bool" where
  "lookups_inside b w \<longleftrightarrow>
     (\<forall>ty. \<exists>r. GetWTlvByType2 ty b = Some r \<and> (\<forall>k. r = Some k \<longrightarrow> k + 4 + tlv_len (drop k b) \<le> w)) \<and>
     (\<forall>n. \<exists>r n'. GetWTlvType2_list b n = Some (r, n') \<and> (\<forall>k. r = Some k \<longrightarrow> k + 4 + tlv_len (drop k b) \<le> w \<and> n < n')) \<and>
     (\<forall>ty n. \<exists>r n'. GetWTlvByType2_list ty b n = Some (r, n') \<and> (\<forall>k. r = Some k \<longrightarrow> k + 4 + tlv_len (drop k b) \<le> w \<and> n < n'))"

lemma body_lookup:
  assumes "body_ok b w"
  shows "\<exists>r. GetWTlvByType2 ty b = Some r \<and> (\<forall>k. r = Some k \<longrightarrow> k + 4 + tlv_len (drop k b) \<le> w)"
    "\<exists>r n'. GetWTlvType2_list b n = Some (r, n') \<and> (\<forall>k. r = Some k \<longrightarrow> k + 4 + tlv_len (drop k b) \<le> w \<and> n < n')"
    "\<exists>r n'. GetWTlvByType2_list ty b n = Some (r, n') \<and> (\<forall>k. r = Some k \<longrightarrow> k + 4 + tlv_len (drop k b) \<le> w \<and> n < n')"
proof -
  have b: "b = hd b # tl b" using assms by (cases b) (auto simp: body_ok_def)
  show "\<exists>r. GetWTlvByType2 ty b = Some r \<and> (\<forall>k. r = Some k \<longrightarrow> k + 4 + tlv_len (drop k b) \<le> w)"
    using body_scan [OF assms, of "\<lambda>i t. t = ty"] by (subst b) (fastforce simp: GetWTlvByType2_def sizes)
  show "\<exists>r n'. GetWTlvType2_list b n = Some (r, n') \<and> (\<forall>k. r = Some k \<longrightarrow> k + 4 + tlv_len (drop k b) \<le> w \<and> n < n')"
    using body_scan [OF assms, of "\<lambda>i t. n \<le> int i"] by (subst b) (fastforce simp: GetWTlvType2_list_def sizes split: option.splits)
  show "\<exists>r n'. GetWTlvByType2_list ty b n = Some (r, n') \<and> (\<forall>k. r = Some k \<longrightarrow> k + 4 + tlv_len (drop k b) \<le> w \<and> n < n')"
    using body_scan [OF assms, of "\<lambda>i t. n \<le> int i \<and> t = ty"] by (subst b) (fastforce simp: GetWTlvByType2_list_def sizes split: option.splits)
qed

text \<open>The message of an error in a packet that reports one has no bytes.\<close>

definition empty_message :: "u8 list \<Rightarrow> bool" where
  "empty_message buf =
     (let h = read_head (take sizeof_ReqPkgHead (drop 1 buf)); b = unat (h_wToPkgBody h) in
      h_bRetCode h \<noteq> 0 \<and> (case GetWTlvByType2 TLV_ACK_ERROR (drop b buf) of Some (Some k) \<Rightarrow> tlv_len (drop (b + k) buf) = 0 | _ \<Rightarrow> False))"

lemma end_message_total:
  assumes body: "body_ok (drop b buf) w" "b + w + 1 = length buf"
    and log: "\<And>k. log \<Longrightarrow> GetWTlvByType2 TLV_ACK_ERROR (drop b buf) = Some (Some k) \<Longrightarrow> tlv_len (drop (b + k) buf) \<noteq> 0"
  shows "\<exists>buf'. end_message log b buf = Some buf' \<and> length buf' = length buf"
proof -
  obtain r where r: "GetWTlvByType2 TLV_ACK_ERROR (drop b buf) = Some r" "\<And>k. r = Some k \<Longrightarrow> k + 4 + tlv_len (drop k (drop b buf)) \<le> w"
    using body_lookup(1) [OF body(1), of TLV_ACK_ERROR] by blast
  show ?thesis
  proof (cases r)
    case None
    then show ?thesis using r(1) by (simp add: end_message_def)
  next
    case (Some k)
    define e where "e = b + k + 4 + tlv_len (drop (b + k) buf) - 1"
    define buf' where "buf' = (if buf ! e \<noteq> 0 then buf[e := 0] else buf)"
    have "k + 4 + tlv_len (drop (b + k) buf) \<le> w" using r(2) [OF Some] by (simp add: add.commute)
    then have e: "e < length buf" "length buf' = length buf" "buf' ! e = 0" using body(2) by (simp_all add: e_def buf'_def)
    have "0 \<in> set (drop (b + k + 4) buf')" if "log"
    proof -
      have "b + k + 4 \<le> e" using log [OF that, of k] r(1) Some by (simp add: e_def)
      then have "drop (b + k + 4) buf' ! (e - (b + k + 4)) = 0" "e - (b + k + 4) < length (drop (b + k + 4) buf')" using e by simp_all
      then show ?thesis by (metis nth_mem)
    qed
    moreover have "end_message log b buf = (if length buf \<le> e then None else if log \<and> 0 \<notin> set (drop (b + k + 4) buf') then None else Some buf')"
      by (simp only: end_message_def r(1) Some bind.bind_lunit option.case Let_def sizes e_def buf'_def)
    ultimately show ?thesis using e(1,2) by auto
  qed
qed

text \<open>The parts a check that accepts the packet has found.\<close>

lemma CheckBasicPacket_parts:
  assumes safe: "\<not> log \<or> 11 \<le> length buf \<and> length buf \<noteq> 71 \<and> \<not> empty_message buf"
  defines "h \<equiv> read_head (take sizeof_ReqPkgHead (drop 1 buf))"
  shows "\<exists>rc c'. CheckBasicPacket log buf c = Some (rc, c') \<and> rc \<in> {NO_ERROR, ERR_INVALID_PACKET, ERR_CHECK_TLV} \<and>
    (rc = NO_ERROR \<longrightarrow> parts_inside buf (unat (h_wToPkgBody h)) c')"
proof -
  define c0 where "c0 = (ResetPacketInfo c)\<lparr>m_pReqPkg := buf, m_dwReqPkgLen := length buf\<rparr>"
  show ?thesis
  proof (cases "length buf \<le> 2 + sizeof_ReqPkgHead \<or> unat (h_wPkgLen h) \<noteq> length buf \<or> PKG_BUFF_LENGTH < length buf \<or> buf ! 0 \<noteq> SPKG \<or> buf ! (length buf - 1) \<noteq> EPKG")
    case True
    moreover have "invalid_packet log 11 buf c0 = Some (ERR_INVALID_PACKET, c0)" using safe by (auto simp: invalid_packet_def)
    ultimately have "CheckBasicPacket log buf c = Some (ERR_INVALID_PACKET, c0)"
      unfolding CheckBasicPacket_def Let_def h_def [symmetric] c0_def [symmetric] by auto
    then show ?thesis by (auto simp: error_codes)
  next
    case False
    then obtain rc c1 where r: "check_parts log (\<lambda>_. True) buf c0 = Some (rc, c1)" "rc \<in> {NO_ERROR, ERR_INVALID_PACKET, ERR_CHECK_TLV}"
      "rc = NO_ERROR \<longrightarrow> parts_inside buf (unat (h_wToPkgBody h)) c1"
      using check_parts_inside [of buf log "\<lambda>_. True" c0] safe by (auto simp: h_def PKG_BUFF_LENGTH_def)
    have run: "CheckBasicPacket log buf c = (if rc \<noteq> NO_ERROR then Some (rc, c1)
      else if h_bRetCode h = 0 then Some (NO_ERROR, c1\<lparr>m_bRetCode := h_bRetCode h\<rparr>)
      else do { buf' \<leftarrow> end_message log (unat (h_wToPkgBody h)) buf; Some (NO_ERROR, c1\<lparr>m_bRetCode := h_bRetCode h, m_pReqPkg := buf'\<rparr>) })"
      using False r(1) unfolding CheckBasicPacket_def Let_def h_def [symmetric] c0_def [symmetric] by simp
    have upd: "parts_inside buf b (c1\<lparr>m_bRetCode := x, m_pReqPkg := y\<rparr>) = parts_inside buf b c1"
      "parts_inside buf b (c1\<lparr>m_bRetCode := x\<rparr>) = parts_inside buf b c1" for b x y
      by (simp_all add: parts_inside_def split: option.split)
    have "\<exists>buf'. end_message log (unat (h_wToPkgBody h)) buf = Some buf'"
      if "parts_inside buf (unat (h_wToPkgBody h)) c1" "h_bRetCode h \<noteq> 0"
    proof -
      have "tlv_len (drop (unat (h_wToPkgBody h) + k) buf) \<noteq> 0"
        if "log" "GetWTlvByType2 TLV_ACK_ERROR (drop (unat (h_wToPkgBody h)) buf) = Some (Some k)" for k
        using safe that \<open>h_bRetCode h \<noteq> 0\<close> by (simp add: empty_message_def h_def Let_def)
      then show ?thesis
        using end_message_total [of "unat (h_wToPkgBody h)" buf "unat (m_wBodyLen c1)" log] that(1) unfolding parts_inside_def by blast
    qed
    then show ?thesis unfolding run using r(2,3) by (auto simp: upd)
  qed
qed

text \<open>
  C34. The check of a received packet reads inside it, for any bytes, with two exceptions in the arguments of its messages: when
  no message is written, or when the packet has at least 11 bytes, not exactly 71, and no error message of no bytes, the check never
  reads outside the packet and returns one of three codes. When it accepts the packet, the command content and the
  body lie inside it, and every lookup in the body (by type, by number, or by both) finds a TLV that ends inside the body,
  or none, without reading outside; the lookups by number advance, so that a loop over them ends. A message about a
  packet of less than 11 bytes is a read outside it.
\<close>

theorem CheckBasicPacket_safe:
  "(\<not> log \<or> 11 \<le> length buf \<and> length buf \<noteq> 71 \<and> \<not> empty_message buf \<longrightarrow>
     (\<exists>rc c'. CheckBasicPacket log buf c = Some (rc, c') \<and> rc \<in> {NO_ERROR, ERR_INVALID_PACKET, ERR_CHECK_TLV} \<and>
       (rc = NO_ERROR \<longrightarrow> (\<exists>b. m_pstBody c' = Some b \<and> b + unat (m_wBodyLen c') + 1 = length buf \<and>
         (case m_pstCmdContent c' of None \<Rightarrow> m_wCmdContentLen c' = 0 | Some k \<Rightarrow> 72 \<le> k \<and> k + unat (m_wCmdContentLen c') = b) \<and>
         lookups_inside (drop b buf) (unat (m_wBodyLen c')))))) \<and>
   (length buf < 11 \<longrightarrow> CheckBasicPacket True buf c = None)"
  (is "(?safe \<longrightarrow> ?checked) \<and> ?short")
proof (intro conjI impI)
  assume ?safe
  let ?b = "unat (h_wToPkgBody (read_head (take sizeof_ReqPkgHead (drop 1 buf))))"
  obtain rc c' where r: "CheckBasicPacket log buf c = Some (rc, c')" "rc \<in> {NO_ERROR, ERR_INVALID_PACKET, ERR_CHECK_TLV}"
    "rc = NO_ERROR \<longrightarrow> parts_inside buf ?b c'" using CheckBasicPacket_parts [OF \<open>?safe\<close>] by blast
  have "lookups_inside (drop ?b buf) (unat (m_wBodyLen c'))" if "parts_inside buf ?b c'"
    using body_lookup [of "drop ?b buf"] that unfolding lookups_inside_def parts_inside_def by blast
  then show ?checked using r by (auto simp: parts_inside_def)
qed (simp add: CheckBasicPacket_def invalid_packet_def sizes Let_def)

subsection \<open>A packet on its way\<close>

lemma head_bytes_read:
  assumes "length (h_sEchoBuf h) = 32" "length (h_sReserved h) = 8"
  shows "length (head_bytes h) = 68" "read_head (head_bytes h) = h"
  using assms by (simp_all add: head_bytes_def read_head_def nth_append)

text \<open>The packet of the agent, and what the server finds in it.\<close>

lemma check_parts_of_packet:
  fixes c :: "'a CBasicPacket_scheme"
  assumes h: "length (h_sEchoBuf h) = 32" "length (h_sReserved h) = 8"
    and s: "length (sSigValue s) = unat (wSigLen s)" "ok (unat (wSigLen s))"
    and bd: "CheckPkgBody bd (of_nat (length bd)) = Some 0" "1 \<le> length bd"
    and to: "h_wToPkgBody h = of_nat (72 + unat (wSigLen s) + length ct)"
    and len: "73 + unat (wSigLen s) + length ct + length bd \<le> 4096"
  defines "p \<equiv> SPKG # head_bytes h @ sig_bytes s @ ct @ bd @ [EPKG]"
  shows "\<exists>c'. check_parts log ok p c = Some (NO_ERROR, c') \<and> m_dwReqCmd c' = h_dwCmd h \<and> m_dwReqSeq c' = h_dwSeq h \<and> m_bRetCode c' = m_bRetCode c \<and>
    m_pstSig c' = Some 69 \<and> m_pstCmdContent c' = (if ct = [] then None else Some (72 + unat (wSigLen s))) \<and> unat (m_wCmdContentLen c') = length ct \<and>
    m_pstBody c' = Some (72 + unat (wSigLen s) + length ct) \<and> unat (m_wBodyLen c') = length bd \<and> m_pReqPkg c' = m_pReqPkg c"
proof -
  let ?n = "unat (wSigLen s)"
  note hb = head_bytes_read [OF h]
  have sl: "length (sig_bytes s) = 3 + ?n" using s(1) by (simp add: sig_bytes_def)
  have p: "length p = 73 + ?n + length ct + length bd" using hb(1) sl by (simp add: p_def)
  have head: "read_head (take 68 (drop 1 p)) = h" using hb by (simp add: p_def)
  have "drop 70 p = be16 (wSigLen s) @ sSigValue s @ ct @ bd @ [EPKG]" using hb(1) by (simp add: p_def sig_bytes_def)
  then have sig: "of_be (take 2 (drop 70 p)) = wSigLen s" by simp
  have b: "unat (h_wToPkgBody h) = 72 + ?n + length ct" unfolding to using len by (intro u16_nat) simp
  have w: "unat (of_nat (length bd) :: u16) = length bd" using len by (intro u16_nat) simp
  have "p = (SPKG # head_bytes h @ sig_bytes s @ ct) @ bd @ [EPKG]" "length (SPKG # head_bytes h @ sig_bytes s @ ct) = 72 + ?n + length ct"
    using hb(1) sl by (simp_all add: p_def)
  then have "drop (72 + ?n + length ct) p = bd @ [EPKG]" by (metis append_eq_conv_conj)
  then have body: "CheckPkgBody (drop (72 + ?n + length ct) p) (of_nat (length bd)) = Some 0" using CheckPkgBody_append [OF bd(1)] by simp
  have ct: "unat (of_nat (length ct) :: u16) = length ct" using len by (intro u16_nat) simp
  have bl: "length p - (72 + ?n + length ct) - 1 = length bd" using p by simp
  show ?thesis
    unfolding check_parts_def Let_def sizes head
    using p sig b body bl s(2) bd(2) w ct by (auto simp: error_codes)
qed

text \<open>The bytes of a part: \<open>n\<close> bytes from an offset on.\<close>

definition part :: "u8 list \<Rightarrow> nat option \<Rightarrow> nat \<Rightarrow> u8 list" where
  "part buf ofs n = (case ofs of None \<Rightarrow> [] | Some k \<Rightarrow> take n (drop k buf))"

lemma part_at: "buf = xs @ ys @ zs \<Longrightarrow> part buf (Some (length xs)) (length ys) = ys"
  by (simp add: part_def)

text \<open>The request of the agent: head, signature, command content and body.\<close>

definition make_request :: "u32 \<Rightarrow> u32 \<Rightarrow> TSignature \<Rightarrow> u8 list \<Rightarrow> u8 list \<Rightarrow> CBasicPacket \<Rightarrow> CBasicPacket" where
  "make_request cmd seq s ct bd c =
     InitPkgBody bd (of_nat (length bd)) (InitSignature s (InitCmdContent ct (of_nat (length ct)) (snd (InitReqPkgHead cmd seq c))))"

lemma MakePacket_request:
  assumes s: "length (sSigValue s) = unat (wSigLen s)" "unat (wSigLen s) \<le> 128"
    and len: "1 \<le> length bd" "73 + unat (wSigLen s) + length ct + length bd \<le> 4096" "int (4 + 73 + unat (wSigLen s) + length ct + length bd) \<le> n"
    and c: "c = make_request cmd seq s ct bd c0"
  shows "\<exists>h. MakePacket n 0 c = Some (if seq = 0 then 1 else seq, Some (SPKG # head_bytes h @ sig_bytes s @ ct @ bd @ [EPKG])) \<and>
    length (h_sEchoBuf h) = 32 \<and> length (h_sReserved h) = 8 \<and> h_dwCmd h = cmd \<and> h_dwSeq h = (if seq = 0 then 1 else seq) \<and> h_bRetCode h = 0 \<and>
    h_wToPkgBody h = of_nat (72 + unat (wSigLen s) + length ct) \<and> unat (h_wPkgLen h) = 73 + unat (wSigLen s) + length ct + length bd"
proof -
  let ?n = "unat (wSigLen s)"
  have ct: "unat (of_nat (length ct) :: u16) = length ct" and bd: "unat (of_nat (length bd) :: u16) = length bd"
    and all: "unat (of_nat (73 + ?n + length ct + length bd) :: u16) = 73 + ?n + length ct + length bd"
    using len(2) by (intro u16_nat; simp)+
  have "unat (3 + wSigLen s) = unat (of_nat (3 + ?n) :: u16)" by simp
  also have "\<dots> = 3 + ?n" using s(2) by (intro u16_nat) simp
  finally have sg: "unat (3 + wSigLen s) = 3 + ?n" .
  have sl: "length (sig_bytes s) = 3 + ?n" using s(1) by (simp add: sig_bytes_def)
  have parts: "0 < 3 + wSigLen s" "copy_bytes (3 + wSigLen s) (sig_bytes s) = Some (sig_bytes s)"
    "(if 0 < (of_nat (length ct) :: u16) then copy_bytes (of_nat (length ct)) ct else Some []) = Some ct"
    "0 < (of_nat (length bd) :: u16)" "copy_bytes (of_nat (length bd)) bd = Some bd"
    using sg sl ct bd len(1) by (auto simp: copy_bytes_def word_less_nat_alt)
  define h where "h = \<lparr>h_dwCmd = cmd, h_dwSeq = (if seq = 0 then 1 else seq), h_wPkgLen = of_nat (73 + ?n + length ct + length bd),
    h_wToPkgBody = of_nat (72 + ?n + length ct), h_bRetCode = 0, h_bResendTimes = 0, h_wVersion = REQ_PKG_HEAD_VERSION,
    h_dwRespMagicNum = 0, h_sEchoBuf = replicate 32 0, h_qwSessionId = 0, h_sReserved = replicate 8 0\<rparr>"
  have room: "(n < int (2 + 68 + 3 + 1 + (3 + ?n) + length ct + length bd)) = False" using len(3) by simp
  have sums: "1 + 68 + (3 + ?n) + length ct = 72 + ?n + length ct" "72 + ?n + length ct + length bd + 1 = 73 + ?n + length ct + length bd" by simp_all
  define h0 where "h0 = h\<lparr>h_wPkgLen := 0, h_wToPkgBody := 0\<rparr>"
  have mem: "m_pstReqHead c = Some h0" "m_dwReqSeq c = (if seq = 0 then 1 else seq)" "m_wRespSigLen c = 3 + wSigLen s" "m_pstRespSig c = sig_bytes s"
    "m_wRespCmdContentLen c = of_nat (length ct)" "m_pstRespCmdContent c = ct" "m_wRespBodyLen c = of_nat (length bd)" "m_pstRespBody c = bd"
    by (simp_all add: c make_request_def InitPkgBody_def InitSignature_def InitCmdContent_def InitReqPkgHead_def Let_def sizes h0_def h_def)
  have hh: "h0\<lparr>h_bRetCode := 0, h_wToPkgBody := of_nat (72 + ?n + length ct), h_wPkgLen := of_nat (73 + ?n + length ct + length bd)\<rparr> = h"
    by (simp add: h0_def h_def)
  have "MakePacket n 0 c = Some (if seq = 0 then 1 else seq, Some (SPKG # head_bytes h @ sig_bytes s @ ct @ bd @ [EPKG]))"
    by (simp only: MakePacket_def mem sizes sg ct bd room if_False if_True parts bind.bind_lunit Let_def sl sums hh)
  then show ?thesis using all by (intro exI [of _ h]) (simp del: of_nat_add add: h_def)
qed

text \<open>
  C11. The server understands the agent. A request with any command, a signature of at most 128 bytes, any command content and
  a body that passes the check, of at most 4096 bytes in all, is made without an error, and the check of the server accepts it: it
  finds the command, the sequence number, and signature, command content and body byte for byte.
\<close>

theorem request_accepted:
  assumes s: "length (sSigValue s) = unat (wSigLen s)" "unat (wSigLen s) \<le> 128"
    and bd: "CheckPkgBody bd (of_nat (length bd)) = Some 0"
    and len: "73 + unat (wSigLen s) + length ct + length bd \<le> 4096" "int (77 + unat (wSigLen s) + length ct + length bd) \<le> n"
  shows "\<exists>p c'. MakePacket n 0 (make_request cmd seq s ct bd c0) = Some (if seq = 0 then 1 else seq, Some p) \<and>
    SrvCheckBasicPacket log parse p bUseSelfBuf srv = Some (NO_ERROR, c') \<and> m_dwReqCmd c' = cmd \<and> m_dwReqSeq c' = (if seq = 0 then 1 else seq) \<and>
    part p (m_pstSig c') (3 + unat (wSigLen s)) = sig_bytes s \<and> part p (m_pstCmdContent c') (unat (m_wCmdContentLen c')) = ct \<and>
    part p (m_pstBody c') (unat (m_wBodyLen c')) = bd"
proof -
  let ?n = "unat (wSigLen s)"
  have bd1: "1 \<le> length bd" using bd by (cases bd) (auto simp: CheckPkgBody_def sizes)
  obtain h where h: "MakePacket n 0 (make_request cmd seq s ct bd c0) = Some (if seq = 0 then 1 else seq, Some (SPKG # head_bytes h @ sig_bytes s @ ct @ bd @ [EPKG]))"
    "length (h_sEchoBuf h) = 32" "length (h_sReserved h) = 8" "h_dwCmd h = cmd" "h_dwSeq h = (if seq = 0 then 1 else seq)" "h_bRetCode h = 0"
    "h_wToPkgBody h = of_nat (72 + ?n + length ct)" "unat (h_wPkgLen h) = 73 + ?n + length ct + length bd"
    using MakePacket_request [OF s bd1 len(1) _ refl, where cmd = cmd and seq = seq and ?c0.0 = c0 and n = n] len(2) by auto
  define p where "p = SPKG # head_bytes h @ sig_bytes s @ ct @ bd @ [EPKG]"
  note hb = head_bytes_read [OF h(2,3)]
  have sl: "length (sig_bytes s) = 3 + ?n" using s(1) by (simp add: sig_bytes_def)
  have p: "length p = 73 + ?n + length ct + length bd" "p ! 0 = SPKG" "p ! (length p - 1) = EPKG" "read_head (take 68 (drop 1 p)) = h"
    using hb sl by (simp_all add: p_def nth_append)
  define c1 where "c1 = (SrvResetPacketInfo srv)\<lparr>m_pReqPkg := p, m_dwReqPkgLen := length p\<rparr>"
  define c2 where "c2 = (if bUseSelfBuf then c1\<lparr>m_iCommLen := length p\<rparr> else c1)"
  obtain c3 where c3: "check_parts log (\<lambda>n. n \<le> MAX_SIGNATURE_LEN) p c2 = Some (NO_ERROR, c3)" "m_dwReqCmd c3 = h_dwCmd h" "m_dwReqSeq c3 = h_dwSeq h"
    "m_pstSig c3 = Some 69" "m_pstCmdContent c3 = (if ct = [] then None else Some (72 + ?n))" "unat (m_wCmdContentLen c3) = length ct"
    "m_pstBody c3 = Some (72 + ?n + length ct)" "unat (m_wBodyLen c3) = length bd"
    using check_parts_of_packet [OF h(2,3) s(1) _ bd bd1 h(7) len(1), of "\<lambda>n. n \<le> MAX_SIGNATURE_LEN" log c2] s(2)
    by (auto simp: p_def MAX_SIGNATURE_LEN_def)
  have nopb: "IsPacketPb p c = Some (False, c)" for c using p(2) by (simp add: IsPacketPb_def Let_def SPKG_def SPKG_PB_def)
  have small: "(bUseSelfBuf \<and> MAX_UDP_REQ_PACKET_SIZE < length p) = False" "(length p \<le> 2 + 68) = False"
    "(unat (h_wPkgLen h) \<noteq> length p \<or> MAX_UDP_REQ_PACKET_SIZE < length p \<or> p ! 0 \<noteq> SPKG \<or> p ! (length p - 1) \<noteq> EPKG) = False"
    using p h(8) len(1) bd1 by (auto simp: MAX_UDP_REQ_PACKET_SIZE_def)
  have run: "SrvCheckBasicPacket log parse p bUseSelfBuf srv = Some (NO_ERROR, c3)"
    unfolding SrvCheckBasicPacket_def nopb bind.bind_lunit prod.case Let_def sizeof_ReqPkgHead_def p(4) c1_def [symmetric] c2_def [symmetric]
    by (simp only: small if_False c3(1) bind.bind_lunit prod.case h(6) if_True) simp
  have "part p (Some (length (SPKG # head_bytes h))) (length (sig_bytes s)) = sig_bytes s"
    by (rule part_at) (simp add: p_def)
  then have 1: "part p (m_pstSig c3) (3 + ?n) = sig_bytes s" using hb(1) sl c3(4) by simp
  have "part p (Some (length (SPKG # head_bytes h @ sig_bytes s))) (length ct) = ct" by (rule part_at) (simp add: p_def)
  then have 2: "part p (m_pstCmdContent c3) (unat (m_wCmdContentLen c3)) = ct" using hb(1) sl c3(5,6) by (auto simp: part_def)
  have "part p (Some (length (SPKG # head_bytes h @ sig_bytes s @ ct))) (length bd) = bd" by (rule part_at) (simp add: p_def)
  then have 3: "part p (m_pstBody c3) (unat (m_wBodyLen c3)) = bd" using hb(1) sl c3(7,8) by (simp add: add.assoc)
  show ?thesis using h(1,4,5) run c3(2,3) 1 2 3 unfolding p_def [symmetric] by auto
qed

definition empty_packet :: CBasicPacket where
  "empty_packet = \<lparr>m_pReqPkg = [], m_dwReqPkgLen = 0, m_pstReqHead = None, m_pstSig = None, m_pstRespSig = [], m_wRespSigLen = 0,
     m_pstCmdContent = None, m_wCmdContentLen = 0, m_pstRespCmdContent = [], m_wRespCmdContentLen = 0,
     m_pstBody = None, m_wBodyLen = 0, m_pstRespBody = [], m_wRespBodyLen = 0, m_dwReqCmd = 0, m_dwReqSeq = 0, m_bRetCode = 0\<rparr>"

theorem request_accepted_witness:
  "\<exists>p c'. MakePacket 4096 0 (make_request 209 0 \<lparr>bSigType = 101, wSigLen = 2, sSigValue = [7, 8]\<rparr> [1, 2, 3] [1, 0, 204, 0, 1, 9] empty_packet) = Some (1, Some p) \<and>
    SrvCheckBasicPacket True (\<lambda>_. None) p True (CBasicPacket.extend empty_packet (SrvBasicPacket.fields 0 False False False 0 0)) = Some (NO_ERROR, c') \<and>
    m_dwReqCmd c' = 209 \<and> part p (m_pstCmdContent c') (unat (m_wCmdContentLen c')) = [1, 2, 3] \<and>
    part p (m_pstBody c') (unat (m_wBodyLen c')) = [1, 0, 204, 0, 1, 9]"
proof -
  have bd: "CheckPkgBody [1, 0, 204, 0, 1, 9] (of_nat (length [1 :: u8, 0, 204, 0, 1, 9])) = Some 0" by code_simp
  show ?thesis
    using request_accepted [OF _ _ bd, of "\<lparr>bSigType = 101, wSigLen = 2, sSigValue = [7, 8]\<rparr>" "[1, 2, 3]" 4096 209 0 empty_packet True "\<lambda>_. None" True
        "CBasicPacket.extend empty_packet (SrvBasicPacket.fields 0 False False False 0 0)"] by auto
qed

text \<open>A packet without command content, with one TLV in its body.\<close>

definition tlv_packet :: "u8 list" where
  "tlv_packet = SPKG # head_bytes \<lparr>h_dwCmd = 209, h_dwSeq = 1, h_wPkgLen = 79, h_wToPkgBody = 72, h_bRetCode = 0, h_bResendTimes = 0, h_wVersion = 0,
       h_dwRespMagicNum = 0, h_sEchoBuf = replicate 32 0, h_qwSessionId = 0, h_sReserved = replicate 8 0\<rparr>
     @ [101, 0, 0] @ [1, 0, 204, 0, 1, 9] @ [EPKG]"

theorem CheckBasicPacket_safe_witness:
  "(\<exists>c'. CheckBasicPacket True tlv_packet empty_packet = Some (NO_ERROR, c') \<and> m_pstBody c' = Some 72 \<and> lookups_inside (drop 72 tlv_packet) 6) \<and>
   CheckBasicPacket True [SPKG, EPKG] empty_packet = None"
proof -
  have e: "map_option (\<lambda>(rc, c). (rc, m_pstBody c)) (CheckBasicPacket True tlv_packet empty_packet) = Some (NO_ERROR, Some 72)"
    "length tlv_packet = 79" "\<not> empty_message tlv_packet"
    by code_simp+
  show ?thesis
    using CheckBasicPacket_safe [of True tlv_packet empty_packet] CheckBasicPacket_safe [of True "[SPKG, EPKG]" empty_packet] e by fastforce
qed

subsection \<open>Packets with protobuf head and body\<close>

lemma read_int_be32:
  assumes "buf = xs @ be32 x @ ys"
  shows "read_int buf (int (length xs)) = Some (sint x)"
  using assms by (simp add: read_int_def)

theorem SetPacketPb_accepted:
  assumes p: "SetPacketPb strHead strBody n = Some p" and len: "0 < length strHead + length strBody" "length p < 2 ^ 31"
  shows "IsPacketPb p c = Some (True, c\<lparr>m_iPbHeadLen := int (length strHead), m_iPbBodyLen := int (length strBody), m_bIsPbReq := True\<rparr>)"
proof -
  have p': "p = SPKG_PB # be32 (of_nat (length strHead)) @ strHead @ be32 (of_nat (length strBody)) @ strBody @ [EPKG_PB]"
    using p by (simp add: SetPacketPb_def split: if_splits)
  then have pl: "length p = length strHead + length strBody + 10" by simp
  have small: "unat (of_nat k :: u32) = k" "sint (of_nat k :: u32) = int k" if "k \<le> length p" for k
  proof -
    show u: "unat (of_nat k :: u32) = k" using that len(2) by (intro unat_of_nat_small) simp
    show "sint (of_nat k :: u32) = int k" using sint_small [of "of_nat k"] u that len(2) by simp
  qed
  have 1: "read_int p 1 = Some (int (length strHead))"
    using read_int_be32 [of p "[SPKG_PB]"] small(2) [of "length strHead"] pl by (simp add: p')
  have 2: "read_int p (1 + 4 + int (length strHead)) = Some (int (length strBody))"
    using read_int_be32 [of p "SPKG_PB # be32 (of_nat (length strHead)) @ strHead"] small(2) [of "length strBody"] pl by (simp add: p')
  have ends: "\<not> (length p \<le> 10 \<or> p ! 0 \<noteq> SPKG_PB \<or> p ! (length p - 1) \<noteq> EPKG_PB)" using len(1) pl by (auto simp: p' nth_append)
  show ?thesis
    unfolding IsPacketPb_def Let_def using ends 1 2 pl len(2) by (simp add: int_sum_def)
qed

text \<open>
  The length of the head is not checked for being negative, nor for leaving room for the length of the
  body: the code reads outside the packet.
\<close>

theorem IsPacketPb_reads_outside:
  "IsPacketPb ([SPKG_PB] @ be32 (-6) @ [0, 0, 0, 0, 0, EPKG_PB]) c = None"
  "IsPacketPb ([SPKG_PB] @ be32 5 @ [0, 0, 0, 0, 0, EPKG_PB]) c = None"
  by (simp_all add: IsPacketPb_def SPKG_PB_def EPKG_PB_def read_int_def int_sum_def be32_def of_be_def)

end
