(* ===== verification/Timer.thy ===== *)
theory Timer
  imports Hash_NoList
begin

text \<open>
  The timers of the agent (\<open>slog_mtreport_client/sv_timer.cpp\<close>, the lists of \<open>sv_list.h\<close>): a wheel of five vectors of
  lists, as in the Linux kernel. A timer is a node of a hash table without list; the lists of the wheel are
  linked through the nodes. The pointers are modelled one by one, because a node is put into a new list
  without being taken out of the old one when a vector is cascaded.
\<close>

subsection \<open>Lists\<close>

text \<open>
  A list head of the wheel (vector and slot), the head inside the node at an address, or a null
  pointer.
\<close>

datatype ListRef = Null | Vec nat nat | Nd nat

record ('h, 's) TimerNode =
  tn_uiKey :: u32
  tn_pDataPtr :: "u8 list option"
  tn_uiExpire :: u32
  tn_uiTimeOut :: u32
  tn_qwExpireTime :: u64
  tn_uiDataLen :: u32
  tn_OnExpire :: "'h option"
  tn_iSessDataLen :: int
  tn_dwProcessId :: u32
  tn_dwNodeSetTime :: u32
  tn_sSessData :: "'s option"

text \<open>A socket of the agent (\<open>sv_socket.h\<close>): its descriptor, the longest response time and the number of packets sent.\<close>

record MtSocket =
  sk_isock :: int
  sk_iMaxRespTimeMs :: int
  sk_iSendPacks :: u32

text \<open>
  \<open>MtReportTimer\<close>, the members of \<open>stConfig\<close> and \<open>g_socket\<close> that the timers and the functions called on expiry use, \<open>cIsAgentRun\<close> and
  \<open>dwLastHelloOkTime\<close> of the shared segment, and the datagrams handed to \<open>sendto\<close> so far. The type \<open>'h\<close> has the
  names of the functions to call on expiry, \<open>'s\<close> the session data.
\<close>

record ('h, 's) MtReportTimer =
  tm_cIsInit :: u8
  tm_index :: "nat \<Rightarrow> nat"
  tm_next :: "ListRef \<Rightarrow> ListRef"
  tm_prev :: "ListRef \<Rightarrow> ListRef"
  tm_qwBaseTime :: u64
  tm_uiCheckTime :: u32
  tm_uiCheckInvlUs :: u32
  tm_uiCount :: u32
  tm_uiMaxCount :: u32
  tm_stHash :: "u32 SharedHashTableNoList"
  tm_nodes :: "nat \<Rightarrow> ('h, 's) TimerNode"
  tm_qwCurTime :: u64
  tm_dwCurTime :: u32
  tm_dwProcessId :: u32
  tm_cIsAgentRun :: u8
  tm_dwLastHelloOkTime :: u32
  tm_socks :: "MtSocket list"
  tm_sent :: "(nat \<times> u8 list) list"

definition INIT_LIST_HEAD :: "ListRef \<Rightarrow> ('h, 's) MtReportTimer \<Rightarrow> ('h, 's) MtReportTimer" where
  "INIT_LIST_HEAD p t = t\<lparr>tm_next := (tm_next t)(p := p), tm_prev := (tm_prev t)(p := p)\<rparr>"

definition LIST_ADD :: "ListRef \<Rightarrow> ListRef \<Rightarrow> ('h, 's) MtReportTimer \<Rightarrow> ('h, 's) MtReportTimer option" where
  "LIST_ADD node prev t =
     (if prev = Null \<or> tm_next t prev = Null then None
      else let nxt = tm_next t prev in
        Some (t\<lparr>tm_prev := (tm_prev t)(nxt := node, node := prev), tm_next := (tm_next t)(node := nxt, prev := node)\<rparr>))"

definition LIST_DEL :: "ListRef \<Rightarrow> ('h, 's) MtReportTimer \<Rightarrow> ('h, 's) MtReportTimer option" where
  "LIST_DEL entry t =
     (let prev = tm_prev t entry; nxt = tm_next t entry in
      if prev = Null \<or> nxt = Null then None
      else Some (t\<lparr>tm_prev := (tm_prev t)(nxt := prev), tm_next := (tm_next t)(prev := nxt)\<rparr>))"

subsection \<open>Initialisation\<close>

definition zero_node :: "('h, 's) TimerNode" where
  "zero_node = \<lparr>tn_uiKey = 0, tn_pDataPtr = None, tn_uiExpire = 0, tn_uiTimeOut = 0, tn_qwExpireTime = 0, tn_uiDataLen = 0,
     tn_OnExpire = None, tn_iSessDataLen = 0, tn_dwProcessId = 0, tn_dwNodeSetTime = 0, tn_sSessData = None\<rparr>"

definition MT_TIMER_CHECK_INTVALUS :: u32 where "MT_TIMER_CHECK_INTVALUS = 100000"

text \<open>The number of slots of a vector.\<close>

definition tv_size :: "nat \<Rightarrow> nat" where
  "tv_size l = (if l = 1 then 256 else 64)"

text \<open>\<open>now\<close> is the time of day in microseconds; \<open>alloc\<close> and the process are those of the heap.\<close>

definition InitTimer :: "u64 \<Rightarrow> (u32 \<Rightarrow> nat option) \<Rightarrow> u32 \<Rightarrow> u32 \<Rightarrow> (u32 \<Rightarrow> u32 \<Rightarrow> int) option \<Rightarrow> bool \<Rightarrow> ('h, 's) MtReportTimer \<Rightarrow> 'k Proc
    \<Rightarrow> (int \<times> ('h, 's) MtReportTimer \<times> 'k Proc) option" where
  "InitTimer now alloc iNodeSize iNodeCount cmp warn t p =
     (if tm_cIsInit t \<noteq> 0 then Some (1, t, p)
      else let t = t\<lparr>tm_next := (\<lambda>r. case r of Vec l s \<Rightarrow> if l \<in> {1..5} \<and> s < tv_size l then r else tm_next t r | _ \<Rightarrow> tm_next t r),
                     tm_prev := (\<lambda>r. case r of Vec l s \<Rightarrow> if l \<in> {1..5} \<and> s < tv_size l then r else tm_prev t r | _ \<Rightarrow> tm_prev t r),
                     tm_index := (\<lambda>l. if l \<in> {1..5} then 0 else tm_index t l),
                     tm_uiCheckInvlUs := MT_TIMER_CHECK_INTVALUS, tm_qwBaseTime := now, tm_uiCheckTime := 0,
                     tm_uiCount := 0, tm_uiMaxCount := 0\<rparr> in do {
        (rc, h, p) \<leftarrow> InitHashTable_NoList_Heap alloc iNodeSize iNodeCount cmp warn (tm_stHash t) p;
        Some (if rc \<noteq> 0 then (-101, t\<lparr>tm_stHash := h\<rparr>, p)
              else (0, t\<lparr>tm_stHash := h, tm_cIsInit := 1,
                tm_nodes := (if nl_bInitSuccess (tm_stHash t) = 0 then (\<lambda>_. zero_node) else tm_nodes t)\<rparr>, p))
      })"

subsection \<open>The hash table\<close>

text \<open>
  \<open>TimerHashCmpFun\<close>: a node of another process, or one that is overdue for five minutes, loses its key when a search comes
  across it.
\<close>

definition TimerHashCmpFun :: "u32 \<Rightarrow> nat \<Rightarrow> ('h, 's) MtReportTimer \<Rightarrow> int \<times> ('h, 's) MtReportTimer" where
  "TimerHashCmpFun key a t =
     (let n = tm_nodes t a;
          n = (if tn_dwProcessId n \<noteq> tm_dwProcessId t then n\<lparr>tn_uiKey := 0\<rparr> else n);
          n = (if tn_qwExpireTime n + 300000000 < tm_qwCurTime t then n\<lparr>tn_uiKey := 0\<rparr> else n)
      in (if key = tn_uiKey n then 0 else 1, t\<lparr>tm_nodes := (tm_nodes t)(a := n)\<rparr>))"

text \<open>The loops of \<open>HashTableSearch_NoList\<close> and \<open>HashTableSearchEx_NoList\<close> with this comparison; the short key is the key.\<close>

fun timer_rows :: "u32 \<Rightarrow> nat \<Rightarrow> u32 list \<Rightarrow> ('h, 's) MtReportTimer \<Rightarrow> (nat option \<times> ('h, 's) MtReportTimer) option" where
  "timer_rows key pRow [] t = Some (None, t)"
| "timer_rows key pRow (n # ns) t =
     (if n = 0 then None
      else let pNode = pRow + unat (nl_dwNodeSize (tm_stHash t) * (key mod n)) in
        case TimerHashCmpFun key pNode t of (r, t) \<Rightarrow>
          if r = 0 then Some (Some pNode, t)
          else timer_rows key (pRow + unat (nl_dwNodeSize (tm_stHash t) * n)) ns t)"

definition timer_search :: "u32 \<Rightarrow> ('h, 's) MtReportTimer \<Rightarrow> (nat option \<times> ('h, 's) MtReportTimer) option" where
  "timer_search key t =
     (if nl_bInitSuccess (tm_stHash t) = 0 then Some (None, t)
      else timer_rows key (nl_pHash (tm_stHash t)) (take STATIC_HASH_ROW_MAX (nl_dwNodeNums (tm_stHash t))) t)"

fun timer_rows_ex :: "u32 \<Rightarrow> nat \<Rightarrow> nat option \<Rightarrow> u32 list \<Rightarrow> ('h, 's) MtReportTimer \<Rightarrow> (nat option \<times> bool \<times> ('h, 's) MtReportTimer) option" where
  "timer_rows_ex key pRow pEmptyNode [] t = Some (pEmptyNode, False, t)"
| "timer_rows_ex key pRow pEmptyNode (n # ns) t =
     (if n = 0 then None
      else let pNode = pRow + unat (nl_dwNodeSize (tm_stHash t) * (key mod n)); pRow' = pRow + unat (nl_dwNodeSize (tm_stHash t) * n) in
        case TimerHashCmpFun key pNode t of (r, t) \<Rightarrow>
          if r = 0 then Some (Some pNode, True, t)
          else if pEmptyNode = None then
            case TimerHashCmpFun 0 pNode t of (r, t) \<Rightarrow> timer_rows_ex key pRow' (if r = 0 then Some pNode else None) ns t
          else timer_rows_ex key pRow' pEmptyNode ns t)"

definition timer_search_ex :: "u32 \<Rightarrow> ('h, 's) MtReportTimer \<Rightarrow> (nat option \<times> bool \<times> ('h, 's) MtReportTimer) option" where
  "timer_search_ex key t =
     (if nl_bInitSuccess (tm_stHash t) = 0 then Some (None, False, t)
      else timer_rows_ex key (nl_pHash (tm_stHash t)) None (take STATIC_HASH_ROW_MAX (nl_dwNodeNums (tm_stHash t))) t)"

subsection \<open>Adding timers\<close>

definition upd_timer :: "nat \<Rightarrow> (('h, 's) TimerNode \<Rightarrow> ('h, 's) TimerNode) \<Rightarrow> ('h, 's) MtReportTimer \<Rightarrow> ('h, 's) MtReportTimer" where
  "upd_timer a f t = t\<lparr>tm_nodes := (tm_nodes t)(a := f (tm_nodes t a))\<rparr>"

text \<open>The list for an expiry tick.\<close>

definition timer_vec :: "u32 \<Rightarrow> ('h, 's) MtReportTimer \<Rightarrow> ListRef" where
  "timer_vec expires t =
     (let idx = expires - tm_uiCheckTime t in
      if idx < 256 then Vec 1 (unat (expires AND 255))
      else if idx < 2 ^ 14 then Vec 2 (unat (drop_bit 8 expires AND 63))
      else if idx < 2 ^ 20 then Vec 3 (unat (drop_bit 14 expires AND 63))
      else if idx < 2 ^ 26 then Vec 4 (unat (drop_bit 20 expires AND 63))
      else if sint idx < 0 then Vec 1 (tm_index t 1)
      else Vec 5 (unat (drop_bit 26 expires AND 63)))"

definition InternalAddTimer :: "nat \<Rightarrow> ('h, 's) MtReportTimer \<Rightarrow> ('h, 's) MtReportTimer option" where
  "InternalAddTimer a t =
     (let vec = timer_vec (tn_uiExpire (tm_nodes t a)) t; t = upd_timer a (\<lambda>n. n\<lparr>tn_dwProcessId := tm_dwProcessId t\<rparr>) t
      in LIST_ADD (Nd a) (tm_prev t vec) t)"

definition SetCurTime :: "u64 \<Rightarrow> ('h, 's) MtReportTimer \<Rightarrow> ('h, 's) MtReportTimer" where
  "SetCurTime now t = t\<lparr>tm_qwCurTime := now, tm_dwCurTime := ucast (now div 1000000)\<rparr>"

text \<open>\<open>TIME_MS_TO_US\<close> multiplies 32-bit numbers.\<close>

definition TIME_MS_TO_US :: "u32 \<Rightarrow> u64" where
  "TIME_MS_TO_US ms = ucast (ms * 1000)"

definition set_expire :: "nat \<Rightarrow> u32 \<Rightarrow> ('h, 's) MtReportTimer \<Rightarrow> ('h, 's) MtReportTimer" where
  "set_expire a uiTimeOut t = upd_timer a (\<lambda>n. n\<lparr>
     tn_uiExpire := ucast ((tm_qwCurTime t - tm_qwBaseTime t + TIME_MS_TO_US uiTimeOut) div ucast (tm_uiCheckInvlUs t)),
     tn_qwExpireTime := TIME_MS_TO_US uiTimeOut + tm_qwCurTime t, tn_dwNodeSetTime := tm_dwCurTime t\<rparr>) t"

definition count_timer :: "('h, 's) MtReportTimer \<Rightarrow> ('h, 's) MtReportTimer" where
  "count_timer t = (let n = tm_uiCount t + 1 in t\<lparr>tm_uiCount := n, tm_uiMaxCount := (if tm_uiMaxCount t < n then n else tm_uiMaxCount t)\<rparr>)"

text \<open>\<open>malloc_ok\<close> says whether \<open>malloc\<close> gives memory; \<open>now\<close> is the time \<open>SetCurTime\<close> reads.\<close>

definition UpdateTimer :: "bool \<Rightarrow> u64 \<Rightarrow> nat \<Rightarrow> u8 list \<Rightarrow> ('h, 's) MtReportTimer \<Rightarrow> (int \<times> ('h, 's) MtReportTimer) option" where
  "UpdateTimer malloc_ok now a sData t =
     (if tm_cIsInit t = 0 then Some (-1, t)
      else if sData \<noteq> [] \<and> \<not> malloc_ok then Some (-1011, upd_timer a (\<lambda>n. n\<lparr>tn_pDataPtr := None\<rparr>) t)
      else do {
        let t = upd_timer a (\<lambda>n. n\<lparr>tn_pDataPtr := (if sData \<noteq> [] then Some sData else None),
                  tn_uiTimeOut := (if tn_uiTimeOut n < 1000 then 1000 else tn_uiTimeOut n)\<rparr>) t;
        let t = SetCurTime now t;
        t \<leftarrow> InternalAddTimer a (set_expire a (tn_uiTimeOut (tm_nodes t a)) t);
        Some (0, count_timer t)
      })"

definition TIMER_NODE_SESS_DATA_LEN :: int where "TIMER_NODE_SESS_DATA_LEN = 48"

definition AddTimer :: "bool \<Rightarrow> u64 \<Rightarrow> u32 \<Rightarrow> u32 \<Rightarrow> 'h option \<Rightarrow> 's \<Rightarrow> int \<Rightarrow> u8 list \<Rightarrow> ('h, 's) MtReportTimer
    \<Rightarrow> (int \<times> ('h, 's) MtReportTimer) option" where
  "AddTimer malloc_ok now uiKey uiTimeOut onExpire pSessShmData iSessDataLen sData t =
     (if tm_cIsInit t = 0 then Some (-1, t)
      else if TIMER_NODE_SESS_DATA_LEN < iSessDataLen then Some (-5, t)
      else do {
        (pn, dwIsFind, t) \<leftarrow> timer_search_ex uiKey t;
        if dwIsFind then Some (-4, t)
        else case pn of None \<Rightarrow> Some (-2, t)
        | Some a \<Rightarrow>
          if sData \<noteq> [] \<and> \<not> malloc_ok then Some (-1011, upd_timer a (\<lambda>n. n\<lparr>tn_pDataPtr := None\<rparr>) t)
          else do {
            let tmo = (if uiTimeOut < 1000 then 1000 else uiTimeOut);
            let t = upd_timer a (\<lambda>n. n\<lparr>tn_pDataPtr := (if sData \<noteq> [] then Some sData else None)\<rparr>) t;
            let t = set_expire a tmo (SetCurTime now t);
            let t = upd_timer a (\<lambda>n. n\<lparr>tn_OnExpire := onExpire, tn_uiDataLen := of_nat (length sData), tn_uiTimeOut := tmo, tn_uiKey := uiKey,
                      tn_sSessData := Some pSessShmData, tn_iSessDataLen := iSessDataLen\<rparr>) t;
            t \<leftarrow> InternalAddTimer a t;
            Some (0, count_timer t)
          }
      })"

subsection \<open>Taking timers\<close>

text \<open>\<open>memcpy\<close> of the data of a node to a buffer of \<open>room\<close> bytes.\<close>

definition timer_data :: "nat \<Rightarrow> ('h, 's) TimerNode \<Rightarrow> u8 list option" where
  "timer_data room n = (case tn_pDataPtr n of None \<Rightarrow> Some []
     | Some d \<Rightarrow> if unat (tn_uiDataLen n) \<le> length d \<and> unat (tn_uiDataLen n) \<le> room then Some (take (unat (tn_uiDataLen n)) d) else None)"

text \<open>The result of \<open>GetTimer\<close>: return code, node and data.\<close>

definition GetTimer :: "nat \<Rightarrow> u32 \<Rightarrow> ('h, 's) MtReportTimer \<Rightarrow> (int \<times> nat option \<times> u8 list \<times> ('h, 's) MtReportTimer) option" where
  "GetTimer room uiKey t =
     (if tm_cIsInit t = 0 then Some (-1, None, [], t)
      else do {
        (pn, t) \<leftarrow> timer_search uiKey t;
        case pn of None \<Rightarrow> Some (-2, None, [], t)
        | Some a \<Rightarrow> do {
            t \<leftarrow> LIST_DEL (Nd a) t;
            let t = t\<lparr>tm_uiCount := tm_uiCount t - 1\<rparr>;
            d \<leftarrow> timer_data room (tm_nodes t a);
            let len = (if tn_pDataPtr (tm_nodes t a) \<noteq> None then tn_uiDataLen (tm_nodes t a) else 0);
            Some (if len \<noteq> tn_uiDataLen (tm_nodes t a) then -4 else 0, Some a, d, upd_timer a (\<lambda>n. n\<lparr>tn_pDataPtr := None\<rparr>) t)
          }
      })"

definition GetTimerData :: "nat \<Rightarrow> u32 \<Rightarrow> ('h, 's) MtReportTimer \<Rightarrow> (int \<times> u8 list \<times> ('h, 's) MtReportTimer) option" where
  "GetTimerData room uiKey t = do {
     (pn, t) \<leftarrow> timer_search uiKey t;
     case pn of None \<Rightarrow> Some (-2, [], t)
     | Some a \<Rightarrow> do {
         d \<leftarrow> timer_data room (tm_nodes t a);
         Some (0, d, upd_timer a (\<lambda>n. n\<lparr>tn_pDataPtr := None\<rparr>) t)
       }
   }"

subsection \<open>Running the wheel\<close>

text \<open>The loop of \<open>CascadeTimers\<close> with \<open>k = 10000 - iLoopCount\<close>.\<close>

fun cascade_loop :: "nat \<Rightarrow> ListRef \<Rightarrow> ListRef \<Rightarrow> ('h, 's) MtReportTimer \<Rightarrow> (int \<times> ('h, 's) MtReportTimer) option" where
  "cascade_loop k pstHead pstCurr t =
     (if pstCurr = pstHead then Some (0, t)
      else case pstCurr of Nd a \<Rightarrow> do {
          let pstNext = tm_next t pstCurr;
          t \<leftarrow> InternalAddTimer a t;
          case k of 0 \<Rightarrow> Some (-1, t\<lparr>tm_cIsAgentRun := 2\<rparr>) | Suc k \<Rightarrow> cascade_loop k pstHead pstNext t
        }
      | _ \<Rightarrow> None)"

declare cascade_loop.simps [simp del]

definition CascadeTimers :: "nat \<Rightarrow> ('h, 's) MtReportTimer \<Rightarrow> (int \<times> ('h, 's) MtReportTimer) option" where
  "CascadeTimers l t = do {
     let pstHead = Vec l (tm_index t l);
     (rc, t) \<leftarrow> cascade_loop 10000 pstHead (tm_next t pstHead) t;
     Some (if rc < 0 then (rc, t)
           else (0, (INIT_LIST_HEAD pstHead t)\<lparr>tm_index := (tm_index t)(l := (tm_index t l + 1) mod 64)\<rparr>))
   }"

text \<open>The loop over the vectors from \<open>tvecs[n]\<close> on; vector \<open>l\<close> is \<open>tvecs[l - 1]\<close>.\<close>

fun cascade_all :: "nat list \<Rightarrow> ('h, 's) MtReportTimer \<Rightarrow> (int \<times> ('h, 's) MtReportTimer) option" where
  "cascade_all [] t = Some (0, t)"
| "cascade_all (l # ls) t = do {
     (rc, t) \<leftarrow> CascadeTimers l t;
     if rc < 0 then Some (rc, t) else if tm_index t l = 1 then cascade_all ls t else Some (0, t)
   }"

definition MAX_TIMER_NODE_PER_TRY :: nat where "MAX_TIMER_NODE_PER_TRY = 10"
definition TIMER_DATA_MAX_LENGTH :: nat where "TIMER_DATA_MAX_LENGTH = 8192"

definition memset_node :: "nat \<Rightarrow> ('h, 's) MtReportTimer \<Rightarrow> ('h, 's) MtReportTimer" where
  "memset_node a t = t\<lparr>tm_nodes := (tm_nodes t)(a := zero_node), tm_next := (tm_next t)(Nd a := Null), tm_prev := (tm_prev t)(Nd a := Null)\<rparr>"

text \<open>
  From the label \<open>repeat\<close> on: the list of the current slot, with the number of nodes handled so far. \<open>call\<close> stands for a call through
  \<open>OnExpire\<close>. The result says whether the outer loop is left, and has the nodes whose functions were called.
\<close>

partial_function (option) run_slot :: "('h \<Rightarrow> nat \<Rightarrow> u8 list \<Rightarrow> ('h, 's) MtReportTimer \<Rightarrow> (int \<times> ('h, 's) MtReportTimer) option) \<Rightarrow> nat \<Rightarrow> nat list
    \<Rightarrow> ('h, 's) MtReportTimer \<Rightarrow> (bool \<times> nat \<times> nat list \<times> ('h, 's) MtReportTimer) option" where
  "run_slot call cnt fired t =
     (let pstHead = Vec 1 (tm_index t 1); pstCurr = tm_next t pstHead in
      if pstCurr = pstHead then Some (False, cnt, fired, t)
      else case pstCurr of Nd a \<Rightarrow> do {
          t \<leftarrow> LIST_DEL pstCurr t;
          let t = t\<lparr>tm_uiCount := tm_uiCount t - 1\<rparr>;
          let cnt = cnt + 1;
          let n = tm_nodes t a;
          if tm_qwCurTime t < tn_qwExpireTime n \<and> ucast (tm_uiCheckInvlUs t) < tn_qwExpireTime n - tm_qwCurTime t
          then Some (True, cnt, fired, t\<lparr>tm_cIsAgentRun := 2\<rparr>)
          else do {
            (rc, d, t) \<leftarrow> GetTimerData TIMER_DATA_MAX_LENGTH (tn_uiKey n) t;
            if rc < 0 then Some (True, cnt, fired, t\<lparr>tm_cIsAgentRun := 2\<rparr>)
            else do {
              (r, t) \<leftarrow> (case tn_OnExpire n of None \<Rightarrow> Some (0, t) | Some h \<Rightarrow> call h a d t);
              let t = (if r \<noteq> 1 then memset_node a t else t);
              if MAX_TIMER_NODE_PER_TRY \<le> cnt then Some (True, cnt, fired @ [a], t) else run_slot call cnt (fired @ [a]) t
            }
          }
        }
      | _ \<Rightarrow> None)"

partial_function (option) run_wheel :: "('h \<Rightarrow> nat \<Rightarrow> u8 list \<Rightarrow> ('h, 's) MtReportTimer \<Rightarrow> (int \<times> ('h, 's) MtReportTimer) option) \<Rightarrow> u32 \<Rightarrow> nat \<Rightarrow> nat list
    \<Rightarrow> ('h, 's) MtReportTimer \<Rightarrow> (nat list \<times> ('h, 's) MtReportTimer) option" where
  "run_wheel call uiCurTime cnt fired t =
     (if tm_uiCheckTime t \<le> uiCurTime \<and> 0 < tm_uiCount t then do {
        (rc, t) \<leftarrow> (if tm_index t 1 = 0 then cascade_all [2, 3, 4, 5] t else Some (0, t));
        if rc < 0 then Some (fired, t)
        else do {
          (stop, cnt, fired, t) \<leftarrow> run_slot call cnt fired t;
          if stop then Some (fired, t)
          else run_wheel call uiCurTime cnt fired
            (t\<lparr>tm_uiCheckTime := tm_uiCheckTime t + 1, tm_index := (tm_index t)(1 := (tm_index t 1 + 1) mod 256)\<rparr>)
        }
      } else Some (fired, t))"

definition RunTimerList :: "('h \<Rightarrow> nat \<Rightarrow> u8 list \<Rightarrow> ('h, 's) MtReportTimer \<Rightarrow> (int \<times> ('h, 's) MtReportTimer) option) \<Rightarrow> u32
    \<Rightarrow> ('h, 's) MtReportTimer \<Rightarrow> (nat list \<times> ('h, 's) MtReportTimer) option" where
  "RunTimerList call uiCurTime t = run_wheel call uiCurTime 0 [] t"

definition CheckTimer :: "('h \<Rightarrow> nat \<Rightarrow> u8 list \<Rightarrow> ('h, 's) MtReportTimer \<Rightarrow> (int \<times> ('h, 's) MtReportTimer) option)
    \<Rightarrow> ('h, 's) MtReportTimer \<Rightarrow> (u32 \<times> nat list \<times> ('h, 's) MtReportTimer) option" where
  "CheckTimer call t =
     (let uiCurTime = ucast ((tm_qwCurTime t - tm_qwBaseTime t) div ucast (tm_uiCheckInvlUs t)) in
      if tm_uiCheckTime t \<le> uiCurTime
      then map_option (\<lambda>(fired, t). (tm_uiCheckInvlUs t, fired, t)) (RunTimerList call uiCurTime t)
      else Some (tm_uiCheckInvlUs t, [], t))"

end
