(* ===== verification/Timer_Wheel.thy ===== *)
theory Timer_Wheel
  imports Timer
begin

text \<open>
  The lists of the timer wheel. \<open>joined\<close> says that the pointers of both directions connect the members of a sequence;
  \<open>wheel_rep\<close> says that the lists at a set of heads hold the nodes of a family of disjoint lists. Adding at the
  end, removing the first or an inner node, and emptying a slot by putting its nodes one after the other into other
  slots are then operations on lists.
\<close>

subsection \<open>Linked sequences\<close>

fun joined :: "(ListRef \<Rightarrow> ListRef) \<Rightarrow> (ListRef \<Rightarrow> ListRef) \<Rightarrow> ListRef list \<Rightarrow> bool" where
  "joined nx pv (a # b # r) \<longleftrightarrow> nx a = b \<and> pv b = a \<and> joined nx pv (b # r)"
| "joined nx pv r \<longleftrightarrow> True"

lemma joined_append: "joined nx pv (xs @ m # ys) \<longleftrightarrow> joined nx pv (xs @ [m]) \<and> joined nx pv (m # ys)"
proof (induction xs)
  case (Cons a xs)
  then show ?case by (cases xs) auto
qed (cases ys; simp)

lemma joined_next_upd: "a \<notin> set (butlast xs) \<Longrightarrow> joined (nx(a := v)) pv xs = joined nx pv xs"
  by (induction nx pv xs rule: joined.induct) auto

lemma joined_prev_upd: "a \<notin> set (tl xs) \<Longrightarrow> joined nx (pv(a := v)) xs = joined nx pv xs"
  by (induction nx pv xs rule: joined.induct) auto

text \<open>The forward pointers alone.\<close>

fun forward_path :: "(ListRef \<Rightarrow> ListRef) \<Rightarrow> ListRef list \<Rightarrow> bool" where
  "forward_path nx (a # b # r) \<longleftrightarrow> nx a = b \<and> forward_path nx (b # r)"
| "forward_path nx r \<longleftrightarrow> True"

lemma forward_path_upd: "a \<notin> set (butlast xs) \<Longrightarrow> forward_path (nx(a := v)) xs = forward_path nx xs"
  by (induction nx xs rule: forward_path.induct) auto

lemma joined_forward: "joined nx pv xs \<Longrightarrow> forward_path nx xs"
  by (induction nx pv xs rule: joined.induct) auto

subsection \<open>The wheel\<close>

definition heads :: "ListRef set" where
  "heads = {Vec l s | l s. 1 \<le> l \<and> l \<le> 5 \<and> s < tv_size l}"

definition circle :: "ListRef \<Rightarrow> nat list \<Rightarrow> ListRef list" where
  "circle h xs = h # map Nd xs @ [h]"

definition wheel_rep :: "ListRef set \<Rightarrow> (ListRef \<Rightarrow> ListRef) \<Rightarrow> (ListRef \<Rightarrow> ListRef) \<Rightarrow> (ListRef \<Rightarrow> nat list) \<Rightarrow> bool" where
  "wheel_rep H nx pv W \<longleftrightarrow> H \<subseteq> heads \<and> (\<forall>h\<in>H. joined nx pv (circle h (W h)) \<and> distinct (W h)) \<and>
     (\<forall>h\<in>H. \<forall>h'\<in>H. h \<noteq> h' \<longrightarrow> set (W h) \<inter> set (W h') = {})"

definition nodes_of :: "ListRef set \<Rightarrow> (ListRef \<Rightarrow> nat list) \<Rightarrow> nat set" where
  "nodes_of H W = (\<Union>h\<in>H. set (W h))"

lemma heads_not [simp]: "Nd a \<notin> heads" "Null \<notin> heads"
  by (auto simp: heads_def)

lemma finite_heads [simp]: "finite heads"
proof -
  have "heads \<subseteq> (\<lambda>(l, s). Vec l s) ` ({..5} \<times> {..256})" by (force simp: heads_def tv_size_def split: if_splits)
  then show ?thesis by (rule finite_subset) simp
qed

lemma wheel_repD:
  assumes "wheel_rep H nx pv W" "h \<in> H"
  shows "joined nx pv (circle h (W h))" "distinct (W h)" "h \<in> heads"
  using assms by (auto simp: wheel_rep_def)

lemma wheel_rep_subset: "wheel_rep H nx pv W \<Longrightarrow> G \<subseteq> H \<Longrightarrow> wheel_rep G nx pv W"
  unfolding wheel_rep_def by blast

lemma finite_nodes_of [simp]: "H \<subseteq> heads \<Longrightarrow> finite (nodes_of H W)"
  by (auto simp: nodes_of_def intro: finite_subset [OF _ finite_heads])

lemma nodes_of_split: "h \<in> H \<Longrightarrow> nodes_of H W = set (W h) \<union> nodes_of (H - {h}) W"
  by (auto simp: nodes_of_def)

lemma nodes_of_upd: "h \<in> H \<Longrightarrow> nodes_of H (W(h := xs)) = set xs \<union> nodes_of (H - {h}) W"
  unfolding nodes_of_split [of h H] by (simp add: nodes_of_def)

lemma circle_set: "set (butlast (circle h xs)) = insert h (Nd ` set xs)" "set (tl (circle h xs)) = insert h (Nd ` set xs)"
  by (auto simp: circle_def butlast_append)

text \<open>The last member of a circle, to which a new node is linked.\<close>

lemma circle_last:
  assumes "joined nx pv (circle h xs)"
  shows "pv h = (if xs = [] then h else Nd (last xs))" "nx (pv h) = h"
proof -
  have "pv h = (if xs = [] then h else Nd (last xs)) \<and> nx (pv h) = h"
  proof (cases xs rule: rev_cases)
    case Nil
    then show ?thesis using assms by (simp add: circle_def)
  next
    case (snoc ys y)
    then have "joined nx pv ((h # map Nd ys) @ Nd y # [h])" using assms by (simp add: circle_def)
    then have "joined nx pv (Nd y # [h])" using joined_append [of nx pv "h # map Nd ys" "Nd y" "[h]"] by blast
    then show ?thesis using snoc by simp
  qed
  then show "pv h = (if xs = [] then h else Nd (last xs))" "nx (pv h) = h" by auto
qed

lemma circle_append:
  assumes l: "joined nx pv (circle h xs)" and a: "a \<notin> set xs" "distinct xs" and h: "h \<in> heads"
  shows "joined (nx(Nd a := h, pv h := Nd a)) (pv(h := Nd a, Nd a := pv h)) (circle h (xs @ [a]))"
proof -
  have ne: "Nd a \<noteq> h" using h heads_not by metis
  let ?nx = "nx(Nd a := h, pv h := Nd a)" and ?pv = "pv(h := Nd a, Nd a := pv h)"
  define us where "us = butlast (h # map Nd xs)"
  have us: "us @ [pv h] = h # map Nd xs" using circle_last(1) [OF l] by (cases xs rule: rev_cases) (auto simp: us_def butlast_append)
  have d: "distinct (us @ [pv h])" unfolding us using a(2) h heads_not by (auto simp: distinct_map inj_on_def)
  have na: "Nd a \<notin> set (us @ [pv h])" unfolding us using a(1) ne by auto
  have hd: "h \<notin> set (tl (us @ [pv h]))" unfolding us using h heads_not by auto
  have "joined nx pv (us @ pv h # [h])" using l us by (metis append.assoc append_Cons append_Nil circle_def)
  then have "joined nx pv (us @ [pv h])" using joined_append [of nx pv us "pv h" "[h]"] by blast
  moreover have "Nd a \<notin> set (tl (us @ [pv h]))" "Nd a \<notin> set (butlast (us @ [pv h]))" "pv h \<notin> set (butlast (us @ [pv h]))"
    using na d list.set_sel(2) [of "us @ [pv h]" "Nd a"] by auto
  ultimately have "joined ?nx ?pv (us @ [pv h])" using hd by (simp only: joined_next_upd joined_prev_upd not_False_eq_True)
  moreover have "joined ?nx ?pv (pv h # [Nd a, h])" using ne na by auto
  ultimately have "joined ?nx ?pv (us @ pv h # [Nd a, h])" using joined_append [of ?nx ?pv us "pv h" "[Nd a, h]"] by blast
  moreover have "circle h (xs @ [a]) = (us @ [pv h]) @ [Nd a, h]" unfolding us by (simp add: circle_def)
  ultimately show ?thesis by simp
qed

lemma member_other:
  assumes "u \<in> insert h (Nd ` A)" "A \<inter> B = {}" "h \<noteq> h'" "h \<in> heads" "h' \<in> heads"
  shows "u \<notin> insert h' (Nd ` B)"
  using assms by (auto simp: heads_def)

lemma circle_other:
  assumes l: "joined nx pv (circle h' ys)" and n: "u \<notin> insert h' (Nd ` set ys)"
  shows "joined (nx(u := x)) pv (circle h' ys)" "joined nx (pv(u := x)) (circle h' ys)"
  using l n by (subst joined_next_upd joined_prev_upd; simp add: circle_set)+

lemma wheel_rep_change:
  assumes "wheel_rep H nx pv W" "h \<in> H" "joined nx' pv' (circle h xs)" "distinct xs"
    and "\<And>h'. h' \<in> H \<Longrightarrow> h' \<noteq> h \<Longrightarrow> joined nx' pv' (circle h' (W h')) \<and> set xs \<inter> set (W h') = {}"
  shows "wheel_rep H nx' pv' (W(h := xs))"
  using assms unfolding wheel_rep_def by (auto 4 3)

lemma wheel_append:
  assumes w: "wheel_rep H nx pv W" and h: "h \<in> H" and a: "a \<notin> nodes_of H W"
  shows "wheel_rep H (nx(Nd a := h, pv h := Nd a)) (pv(h := Nd a, Nd a := pv h)) (W(h := W h @ [a]))"
proof -
  note wh = wheel_repD [OF w]
  have a': "a \<notin> set (W h')" if "h' \<in> H" for h' using a that by (auto simp: nodes_of_def)
  have "joined (nx(Nd a := h, pv h := Nd a)) (pv(h := Nd a, Nd a := pv h)) (circle h' (W h'))" if h': "h' \<in> H" "h' \<noteq> h" for h'
  proof -
    have dis: "set (W h) \<inter> set (W h') = {}" using w h h' by (auto simp: wheel_rep_def)
    have "pv h \<in> insert h (Nd ` set (W h))" using circle_last(1) [OF wh(1) [OF h]] by auto
    then have "pv h \<notin> insert h' (Nd ` set (W h'))" "h \<notin> insert h' (Nd ` set (W h'))" "Nd a \<notin> insert h' (Nd ` set (W h'))"
      using dis h'(2) wh(3) [OF h] wh(3) [OF h'(1)] a' [OF h'(1)] heads_not by auto
    then show ?thesis using wh(1) [OF h'(1)] by (intro circle_other)
  qed
  moreover have "joined (nx(Nd a := h, pv h := Nd a)) (pv(h := Nd a, Nd a := pv h)) (circle h (W h @ [a]))"
    using circle_append [OF wh(1) a' wh(2,3)] h by blast
  ultimately show ?thesis using w a' h unfolding wheel_rep_def by auto
qed

text \<open>Taking a member out.\<close>

lemma joined_delete:
  assumes "joined nx pv ((xs @ [p]) @ x # n # ys)" "p \<notin> set xs \<union> set (butlast (n # ys))" "n \<notin> set (tl (xs @ [p])) \<union> set ys"
  shows "joined (nx(p := n)) (pv(n := p)) ((xs @ [p]) @ n # ys)"
proof -
  have "joined nx pv (xs @ p # x # n # ys)" using assms(1) by simp
  then have j: "joined nx pv (xs @ [p])" "joined nx pv (n # ys)"
    using joined_append [of nx pv xs p "x # n # ys"] by auto
  have "joined (nx(p := n)) (pv(n := p)) (xs @ [p])" "joined (nx(p := n)) (pv(n := p)) (n # ys)"
    using j assms(2,3) by (subst joined_next_upd, simp, subst joined_prev_upd; simp)+
  then show ?thesis using joined_append [of "nx(p := n)" "pv(n := p)" xs p "n # ys"] by simp
qed

lemma circle_delete:
  assumes j: "joined nx pv (circle h (us @ a # vs))" and d: "distinct (us @ a # vs)" and h: "h \<in> heads"
  shows "pv (Nd a) = last (h # map Nd us)" "nx (Nd a) = hd (map Nd vs @ [h])"
    "joined (nx(pv (Nd a) := nx (Nd a))) (pv(nx (Nd a) := pv (Nd a))) (circle h (us @ vs))"
proof -
  define xs q n ys where v: "xs = butlast (h # map Nd us)" "q = last (h # map Nd us)" "n = hd (map Nd vs @ [h])" "ys = tl (map Nd vs @ [h])"
  have e: "h # map Nd us = xs @ [q]" "map Nd vs @ [h] = n # ys" by (simp_all add: v del: last.simps butlast.simps)
  have c: "circle h (us @ a # vs) = (xs @ [q]) @ Nd a # n # ys" "circle h (us @ vs) = (xs @ [q]) @ n # ys"
    by (simp_all add: circle_def e(1,2) [symmetric])
  have nh: "h \<noteq> Nd b" for b using h heads_not by metis
  have q: "q \<in> insert h (Nd ` set us)" "n \<in> insert h (Nd ` set vs)"
    by (cases us rule: rev_cases; simp add: v) (cases vs; simp add: v)
  have s: "set (xs @ [q]) = insert h (Nd ` set us)" "set (tl (xs @ [q])) = Nd ` set us" "set (butlast (n # ys)) = Nd ` set vs" "set (n # ys) = insert h (Nd ` set vs)"
    by (simp_all add: e(1,2) [symmetric])
  have "distinct (xs @ [q])" "distinct (n # ys)" unfolding e(1,2) [symmetric] using d nh by (auto simp: distinct_map inj_on_def)
  moreover have "q \<notin> Nd ` set vs" "n \<notin> Nd ` set us" using q d nh by auto
  ultimately have ok: "q \<notin> set xs \<union> set (butlast (n # ys))" "n \<notin> set (tl (xs @ [q])) \<union> set ys" using s(2,3) by auto
  have "joined nx pv (xs @ q # Nd a # n # ys)" using j c(1) by simp
  then have jq: "joined nx pv (q # Nd a # n # ys)" using joined_append [of nx pv xs q "Nd a # n # ys"] by blast
  then have pn: "pv (Nd a) = q" "nx (Nd a) = n" by simp_all
  then show "pv (Nd a) = last (h # map Nd us)" "nx (Nd a) = hd (map Nd vs @ [h])" unfolding v .
  show "joined (nx(pv (Nd a) := nx (Nd a))) (pv(nx (Nd a) := pv (Nd a))) (circle h (us @ vs))"
    using joined_delete [of nx pv xs q "Nd a" n ys] j ok unfolding c pn by simp
qed

lemma wheel_delete:
  assumes w: "wheel_rep H nx pv W" and h: "h \<in> H" and a: "W h = us @ a # vs"
  shows "wheel_rep H (nx(pv (Nd a) := nx (Nd a))) (pv(nx (Nd a) := pv (Nd a))) (W(h := us @ vs))" "pv (Nd a) \<noteq> Null" "nx (Nd a) \<noteq> Null"
proof -
  note wh = wheel_repD [OF w]
  note c = circle_delete [OF wh(1) [OF h, unfolded a] wh(2) [OF h, unfolded a] wh(3) [OF h]]
  have m: "pv (Nd a) \<in> insert h (Nd ` set (W h))" "nx (Nd a) \<in> insert h (Nd ` set (W h))"
    unfolding c a by (cases us rule: rev_cases; simp) (cases vs; simp)
  show "pv (Nd a) \<noteq> Null" "nx (Nd a) \<noteq> Null" using m wh(3) [OF h] heads_not by auto
  have "joined (nx(pv (Nd a) := nx (Nd a))) (pv(nx (Nd a) := pv (Nd a))) (circle h' (W h'))" if h': "h' \<in> H" "h' \<noteq> h" for h'
  proof -
    have "set (W h) \<inter> set (W h') = {}" using w h h' by (auto simp: wheel_rep_def)
    note m [THEN member_other, OF this h'(2) [symmetric] wh(3) [OF h] wh(3) [OF h'(1)]]
    then show ?thesis using wh(1) [OF h'(1)] by (intro circle_other)
  qed
  moreover have "set (us @ vs) \<inter> set (W h') = {}" if h': "h' \<in> H" "h' \<noteq> h" for h'
  proof -
    have "set (W h) \<inter> set (W h') = {}" using w h h' by (auto simp: wheel_rep_def)
    then show ?thesis using a by auto
  qed
  moreover have "distinct (us @ vs)" using wh(2) [OF h] a by simp
  ultimately show "wheel_rep H (nx(pv (Nd a) := nx (Nd a))) (pv(nx (Nd a) := pv (Nd a))) (W(h := us @ vs))"
    using wheel_rep_change [OF w h c(3)] by blast
qed

subsection \<open>The operations on the wheel\<close>

definition holds :: "ListRef set \<Rightarrow> ('h, 's) MtReportTimer \<Rightarrow> (ListRef \<Rightarrow> nat list) \<Rightarrow> bool" where
  "holds H t W \<longleftrightarrow> wheel_rep H (tm_next t) (tm_prev t) W"

lemma LIST_ADD_tail:
  assumes w: "holds H t W" and h: "h \<in> H" and a: "a \<notin> nodes_of H W"
  shows "LIST_ADD (Nd a) (tm_prev t h) t = Some (t\<lparr>tm_next := (tm_next t)(Nd a := h, tm_prev t h := Nd a), tm_prev := (tm_prev t)(h := Nd a, Nd a := tm_prev t h)\<rparr>)"
    "holds H (t\<lparr>tm_next := (tm_next t)(Nd a := h, tm_prev t h := Nd a), tm_prev := (tm_prev t)(h := Nd a, Nd a := tm_prev t h)\<rparr>) (W(h := W h @ [a]))"
proof -
  note wh = wheel_repD [OF w [unfolded holds_def] h]
  note l = circle_last [OF wh(1)]
  have "tm_prev t h \<noteq> Null" "tm_next t (tm_prev t h) \<noteq> Null" using l wh(3) heads_not by auto
  then show "LIST_ADD (Nd a) (tm_prev t h) t = Some (t\<lparr>tm_next := (tm_next t)(Nd a := h, tm_prev t h := Nd a), tm_prev := (tm_prev t)(h := Nd a, Nd a := tm_prev t h)\<rparr>)"
    using l(2) by (simp add: LIST_ADD_def Let_def)
  show "holds H (t\<lparr>tm_next := (tm_next t)(Nd a := h, tm_prev t h := Nd a), tm_prev := (tm_prev t)(h := Nd a, Nd a := tm_prev t h)\<rparr>) (W(h := W h @ [a]))"
    using wheel_append [OF w [unfolded holds_def] h a] by (simp add: holds_def)
qed

lemma LIST_DEL_member:
  assumes w: "holds H t W" and h: "h \<in> H" and a: "W h = us @ a # vs"
  shows "\<exists>nx pv. LIST_DEL (Nd a) t = Some (t\<lparr>tm_next := nx, tm_prev := pv\<rparr>) \<and> holds H (t\<lparr>tm_next := nx, tm_prev := pv\<rparr>) (W(h := us @ vs))"
  by (rule exI [of _ "(tm_next t)(tm_prev t (Nd a) := tm_next t (Nd a))"], rule exI [of _ "(tm_prev t)(tm_next t (Nd a) := tm_prev t (Nd a))"])
    (use wheel_delete [OF w [unfolded holds_def] h a] in \<open>simp add: LIST_DEL_def Let_def holds_def\<close>)

text \<open>
  Adding a timer puts the node at the end of the list for its expiry tick.
\<close>

lemma InternalAddTimer_appends:
  assumes w: "holds H t W" and h: "timer_vec (tn_uiExpire (tm_nodes t a)) t \<in> H" and a: "a \<notin> nodes_of H W"
  shows "\<exists>nx pv. InternalAddTimer a t = Some ((upd_timer a (\<lambda>n. n\<lparr>tn_dwProcessId := tm_dwProcessId t\<rparr>) t)\<lparr>tm_next := nx, tm_prev := pv\<rparr>) \<and>
    wheel_rep H nx pv (W(timer_vec (tn_uiExpire (tm_nodes t a)) t := W (timer_vec (tn_uiExpire (tm_nodes t a)) t) @ [a])) \<and>
    (\<forall>b. b \<noteq> a \<and> b \<notin> nodes_of H W \<longrightarrow> nx (Nd b) = tm_next t (Nd b))"
proof -
  let ?h = "timer_vec (tn_uiExpire (tm_nodes t a)) t" and ?u = "upd_timer a (\<lambda>n. n\<lparr>tn_dwProcessId := tm_dwProcessId t\<rparr>) t"
  have u: "holds H ?u W" "tm_prev ?u = tm_prev t" "tm_next ?u = tm_next t" using w by (simp_all add: holds_def upd_timer_def)
  have "tm_prev t ?h \<in> insert ?h (Nd ` set (W ?h))"
    using circle_last(1) [OF wheel_repD(1) [OF w [unfolded holds_def] h]] by auto
  then have "tm_prev t ?h \<noteq> Nd b" if "b \<notin> nodes_of H W" for b
    using that h wheel_repD(3) [OF w [unfolded holds_def] h] by (auto simp: nodes_of_def heads_def)
  then show ?thesis
    using LIST_ADD_tail [OF u(1) h a] unfolding InternalAddTimer_def Let_def holds_def u(2,3)
    by (intro exI [of _ "(tm_next t)(Nd a := ?h, tm_prev t ?h := Nd a)"] exI [of _ "(tm_prev t)(?h := Nd a, Nd a := tm_prev t ?h)"])
      (simp; metis)
qed

lemma forward_path_cong: "(\<And>x. x \<in> set (butlast xs) \<Longrightarrow> nx x = nx' x) \<Longrightarrow> forward_path nx xs = forward_path nx' xs"
  by (induction nx xs rule: forward_path.induct) auto

lemma upd_timer_same [simp]: "f (tm_nodes t a) = tm_nodes t a \<Longrightarrow> upd_timer a f t = t"
  by (simp add: upd_timer_def fun_upd_idem)

text \<open>The nodes of a list put one after the other at the end of the lists \<open>v\<close> gives.\<close>

fun spread :: "(nat \<Rightarrow> ListRef) \<Rightarrow> nat list \<Rightarrow> (ListRef \<Rightarrow> nat list) \<Rightarrow> (ListRef \<Rightarrow> nat list)" where
  "spread v [] W = W"
| "spread v (a # as) W = spread v as (W(v a := W (v a) @ [a]))"

lemma nodes_of_append [simp]: "h \<in> H \<Longrightarrow> nodes_of H (W(h := W h @ [a])) = insert a (nodes_of H W)"
  by (auto simp: nodes_of_def split: if_splits)

lemma spread_list: "spread v xs W h = W h @ filter (\<lambda>a. v a = h) xs"
  by (induction xs arbitrary: W) auto

lemma nodes_of_spread: "\<forall>a\<in>set xs. v a \<in> H \<Longrightarrow> nodes_of H (spread v xs W) = nodes_of H W \<union> set xs"
  by (induction xs arbitrary: W) auto

lemma cascade_loop_spreads:
  assumes "holds H t W" "distinct xs" "set xs \<inter> nodes_of H W = {}" "h \<in> heads" "h \<notin> H" "length xs \<le> k"
    and "forward_path (tm_next t) (map Nd xs @ [h])"
    and "\<forall>a\<in>set xs. timer_vec (tn_uiExpire (tm_nodes t a)) t \<in> H \<and> tn_dwProcessId (tm_nodes t a) = tm_dwProcessId t"
  shows "\<exists>nx pv. cascade_loop k h (hd (map Nd xs @ [h])) t = Some (0, t\<lparr>tm_next := nx, tm_prev := pv\<rparr>) \<and>
    wheel_rep H nx pv (spread (\<lambda>a. timer_vec (tn_uiExpire (tm_nodes t a)) t) xs W)"
  using assms
proof (induction xs arbitrary: t W k)
  case Nil
  then show ?case by (intro exI [of _ "tm_next t"] exI [of _ "tm_prev t"]) (simp add: cascade_loop.simps holds_def)
next
  case (Cons a as)
  let ?v = "\<lambda>a. timer_vec (tn_uiExpire (tm_nodes t a)) t"
  obtain k' where k: "k = Suc k'" "length as \<le> k'" using Cons.prems(6) by (cases k) auto
  have va: "?v a \<in> H" "tn_dwProcessId (tm_nodes t a) = tm_dwProcessId t" "a \<notin> nodes_of H W" using Cons.prems(3,8) by auto
  obtain nx pv where add: "InternalAddTimer a t = Some (t\<lparr>tm_next := nx, tm_prev := pv\<rparr>)" "wheel_rep H nx pv (W(?v a := W (?v a) @ [a]))"
    "\<forall>b. b \<noteq> a \<and> b \<notin> nodes_of H W \<longrightarrow> nx (Nd b) = tm_next t (Nd b)"
    using InternalAddTimer_appends [OF Cons.prems(1) va(1,3)] va(2) by auto
  let ?t = "t\<lparr>tm_next := nx, tm_prev := pv\<rparr>"
  have v: "timer_vec e ?t = timer_vec e t" for e by (simp add: timer_vec_def Let_def)
  have fp: "forward_path (tm_next t) (map Nd as @ [h])" "tm_next t (Nd a) = hd (map Nd as @ [h])"
    using Cons.prems(7) by (cases as; simp)+
  have "forward_path nx (map Nd as @ [h]) = forward_path (tm_next t) (map Nd as @ [h])"
    using add(3) Cons.prems(2,3) by (intro forward_path_cong) (auto simp: butlast_append)
  then have "forward_path (tm_next ?t) (map Nd as @ [h])" using fp(1) by simp
  moreover have "holds H ?t (W(?v a := W (?v a) @ [a]))" using add(2) by (simp add: holds_def)
  moreover have "set as \<inter> nodes_of H (W(?v a := W (?v a) @ [a])) = {}" "distinct as" using Cons.prems(2,3) nodes_of_append [OF va(1)] by auto
  moreover have "\<forall>a\<in>set as. timer_vec (tn_uiExpire (tm_nodes ?t a)) ?t \<in> H \<and> tn_dwProcessId (tm_nodes ?t a) = tm_dwProcessId ?t"
    using Cons.prems(8) by (simp add: v)
  ultimately have "\<exists>nx pv. cascade_loop k' h (hd (map Nd as @ [h])) ?t = Some (0, ?t\<lparr>tm_next := nx, tm_prev := pv\<rparr>) \<and>
    wheel_rep H nx pv (spread (\<lambda>a. timer_vec (tn_uiExpire (tm_nodes ?t a)) ?t) as (W(?v a := W (?v a) @ [a])))"
    using Cons.IH [of ?t "W(?v a := W (?v a) @ [a])" k'] Cons.prems(4,5) k(2) by blast
  moreover have "Nd a \<noteq> h" using Cons.prems(4) by (auto simp: heads_def)
  ultimately show ?case using add(1) fp(2) by (simp add: k(1) cascade_loop.simps [of "Suc k'"] v Let_def)
qed

lemma CascadeTimers_spreads:
  assumes w: "holds heads t W" and h: "Vec l (tm_index t l) \<in> heads" and len: "length (W (Vec l (tm_index t l))) \<le> 10000"
    and v: "\<forall>a\<in>set (W (Vec l (tm_index t l))). timer_vec (tn_uiExpire (tm_nodes t a)) t \<in> heads - {Vec l (tm_index t l)} \<and> tn_dwProcessId (tm_nodes t a) = tm_dwProcessId t"
  shows "\<exists>nx pv. CascadeTimers l t = Some (0, t\<lparr>tm_next := nx, tm_prev := pv, tm_index := (tm_index t)(l := (tm_index t l + 1) mod 64)\<rparr>) \<and>
    wheel_rep heads nx pv ((spread (\<lambda>a. timer_vec (tn_uiExpire (tm_nodes t a)) t) (W (Vec l (tm_index t l))) W)(Vec l (tm_index t l) := []))"
proof -
  let ?h = "Vec l (tm_index t l)"
  let ?H = "heads - {?h}" and ?xs = "W ?h" and ?v = "\<lambda>a. timer_vec (tn_uiExpire (tm_nodes t a)) t"
  note wh = wheel_repD [OF w [unfolded holds_def] h]
  have "forward_path (tm_next t) (?h # map Nd ?xs @ [?h])" using joined_forward [OF wh(1)] by (simp add: circle_def)
  then have fp: "tm_next t ?h = hd (map Nd ?xs @ [?h])" "forward_path (tm_next t) (map Nd ?xs @ [?h])" by (cases ?xs; simp)+
  have "set ?xs \<inter> nodes_of ?H W = {}" using w h by (auto simp: holds_def wheel_rep_def nodes_of_def)
  then obtain nx pv where c: "cascade_loop 10000 ?h (tm_next t ?h) t = Some (0, t\<lparr>tm_next := nx, tm_prev := pv\<rparr>)" "wheel_rep ?H nx pv (spread ?v ?xs W)"
    using cascade_loop_spreads [of ?H t W ?xs ?h 10000] w wh(2) h len v fp wheel_rep_subset [of heads _ _ W ?H] by (auto simp: holds_def)
  have other: "joined (nx(?h := ?h)) (pv(?h := ?h)) (circle h' (spread ?v ?xs W h'))" if "h' \<in> heads" "h' \<noteq> ?h" for h'
    using wheel_repD [OF c(2), of h'] that h by (intro circle_other) (auto simp: heads_def)
  have "wheel_rep heads (nx(?h := ?h)) (pv(?h := ?h)) ((spread ?v ?xs W)(?h := []))"
    using c(2) other unfolding wheel_rep_def by (auto simp: circle_def)
  then show ?thesis using c(1)
    by (simp add: CascadeTimers_def INIT_LIST_HEAD_def Let_def) metis
qed

end
