(* ===== verification/Timer_Place.thy ===== *)
theory Timer_Place
  imports Timer_Wheel
begin

text \<open>
  Where a timer is kept. Level 1 has a slot for each of the next 256 ticks; a slot of level \<open>l\<close> from 2 on stands for a block of
  \<open>2 ^ (6 l - 4)\<close> ticks. \<open>next_block\<close> is the block that is moved down next; the levels in \<open>D\<close> have moved the
  block that starts with the current tick. Cascading keeps every timer where its tick will find it.
\<close>

definition block :: "nat \<Rightarrow> nat" where
  "block l = 2 ^ (6 * l - 4)"

definition next_block :: "nat set \<Rightarrow> nat \<Rightarrow> nat \<Rightarrow> nat" where
  "next_block D c l = (if l \<in> D \<or> \<not> block l dvd c then c div block l + 1 else c div block l)"

fun placed :: "nat set \<Rightarrow> nat \<Rightarrow> nat \<Rightarrow> ListRef \<Rightarrow> bool" where
  "placed D c e (Vec l s) \<longleftrightarrow> (if l = 1 then s = e mod 256 \<and> c \<le> e \<and> e < c + 256
     else s = e div block l mod 64 \<and> next_block D c l \<le> e div block l \<and> e div block l \<le> next_block D c l + 63)"
| "placed D c e _ \<longleftrightarrow> False"

lemma block_pos [simp]: "0 < block l" "block l \<noteq> 0"
  by (simp_all add: block_def)

lemma block_Suc: "2 \<le> l \<Longrightarrow> block (Suc l) = 64 * block l"
proof -
  assume "2 \<le> l"
  then have "6 * Suc l - 4 = 6 + (6 * l - 4)" by simp
  then show ?thesis unfolding block_def by (simp only: power_add) simp
qed

lemma block_values: "block 2 = 2 ^ 8" "block 3 = 2 ^ 14" "block 4 = 2 ^ 20" "block 5 = 2 ^ 26"
  by (simp_all add: block_def)

text \<open>A tick at least one and less than 64 blocks ahead is in a block that level \<open>l\<close> has room for.\<close>

lemma block_ahead:
  assumes "c + b \<le> e" "e < c + 64 * b" "0 < (b :: nat)"
  shows "c div b + 1 \<le> e div b" "e div b \<le> c div b + 64" "b dvd c \<Longrightarrow> e div b \<le> c div b + 63"
proof -
  have "(c + b) div b \<le> e div b" using assms(1) by (rule div_le_mono)
  then show "c div b + 1 \<le> e div b" using assms(3) by (simp add: div_add_self2)
  have "e div b \<le> (c + 64 * b) div b" using assms(2) by (intro div_le_mono) simp
  then show "e div b \<le> c div b + 64" using assms(3) by (simp add: div_mult_self3)
  assume "b dvd c"
  then obtain q where q: "c = b * q" by (rule dvdE)
  then have "e < b * (q + 64)" using assms(2) by (simp add: algebra_simps)
  then have "e div b < q + 64" using assms(3) by (simp add: less_mult_imp_div_less mult.commute)
  then show "e div b \<le> c div b + 63" using q assms(3) by simp
qed

lemma placed_level:
  assumes "2 \<le> l" "c + block l \<le> e" "e < c + 64 * block l"
  shows "placed D c e (Vec l (e div block l mod 64))"
  using block_ahead [OF assms(2,3)] assms(1) by (auto simp: next_block_def)

subsection \<open>The list of a tick\<close>

lemma timer_vec_nat:
  fixes t :: "('h, 's) MtReportTimer"
  defines "c \<equiv> unat (tm_uiCheckTime t)"
  assumes "c \<le> unat e" "unat e < 2 ^ 31"
  shows "timer_vec e t = (if unat e - c < 2 ^ 8 then Vec 1 (unat e mod 256) else if unat e - c < 2 ^ 14 then Vec 2 (unat e div 2 ^ 8 mod 64)
    else if unat e - c < 2 ^ 20 then Vec 3 (unat e div 2 ^ 14 mod 64) else if unat e - c < 2 ^ 26 then Vec 4 (unat e div 2 ^ 20 mod 64)
    else Vec 5 (unat e div 2 ^ 26 mod 64))"
proof -
  let ?i = "e - tm_uiCheckTime t"
  have i: "unat ?i = unat e - c" unfolding c_def using assms(2) by (intro unat_sub) (simp add: c_def word_le_nat_alt)
  have lt: "?i < 256 \<longleftrightarrow> unat e - c < 2 ^ 8" "?i < 2 ^ 14 \<longleftrightarrow> unat e - c < 2 ^ 14" "?i < 2 ^ 20 \<longleftrightarrow> unat e - c < 2 ^ 20" "?i < 2 ^ 26 \<longleftrightarrow> unat e - c < 2 ^ 26"
    using i by (simp_all add: word_less_nat_alt)
  have "\<not> sint ?i < 0" using i assms(3) sint_small [of ?i] by simp
  moreover have "x AND 63 = x mod 64" "x AND 255 = x mod 256" "drop_bit n x = x div 2 ^ n" for x n :: nat
    using take_bit_eq_mask [of 6 x] take_bit_eq_mask [of 8 x] by (simp_all add: take_bit_eq_mod mask_eq_exp_minus_1 drop_bit_eq_div)
  then have "unat (drop_bit n e AND 63) = unat e div 2 ^ n mod 64" "unat (e AND 255) = unat e mod 256" for n
    by (simp_all add: unsigned_and_eq unat_drop_bit_eq)
  ultimately show ?thesis unfolding timer_vec_def Let_def lt by simp
qed

lemma timer_vec_placed:
  assumes "unat (tm_uiCheckTime t) \<le> unat e" "unat e < 2 ^ 31"
  shows "timer_vec e t \<in> heads" "placed D (unat (tm_uiCheckTime t)) (unat e) (timer_vec e t)"
    "2 \<le> l \<Longrightarrow> unat e < unat (tm_uiCheckTime t) + block l \<Longrightarrow> timer_vec e t = Vec m s \<Longrightarrow> m < l"
proof -
  let ?c = "unat (tm_uiCheckTime t)" and ?e = "unat e"
  note v = timer_vec_nat [OF assms]
  show "timer_vec e t \<in> heads" unfolding v by (auto simp: heads_def tv_size_def)
  show "placed D ?c ?e (timer_vec e t)"
    unfolding v using assms placed_level [of 2 ?c ?e D] placed_level [of 3 ?c ?e D] placed_level [of 4 ?c ?e D] placed_level [of 5 ?c ?e D]
    by (auto simp: block_values simp del: placed.simps) auto
  show "m < l" if "2 \<le> l" "?e < ?c + block l" "timer_vec e t = Vec m s"
  proof (rule ccontr)
    assume "\<not> m < l"
    then have "block l \<le> block m" by (simp add: block_def power_increasing)
    then have "?e - ?c < block m" using that(2) assms(1) by simp
    moreover have "2 \<le> m" using \<open>\<not> m < l\<close> that(1) by simp
    ultimately show False using that(3) unfolding v by (auto simp: block_values split: if_splits)
  qed
qed

subsection \<open>The invariant\<close>

abbreviation tick_of :: "('h, 's) MtReportTimer \<Rightarrow> nat \<Rightarrow> nat" where
  "tick_of t a \<equiv> unat (tn_uiExpire (tm_nodes t a))"

abbreviation check_tick :: "('h, 's) MtReportTimer \<Rightarrow> nat" where
  "check_tick t \<equiv> unat (tm_uiCheckTime t)"

text \<open>
  The wheel at its current tick, with the levels in \<open>D\<close> already cascaded: lists, indices and count are
  consistent and every node is where its tick belongs.
\<close>

definition node_placed :: "nat set \<Rightarrow> ('h, 's) MtReportTimer \<Rightarrow> ListRef \<Rightarrow> nat \<Rightarrow> bool" where
  "node_placed D t h a \<longleftrightarrow> placed D (check_tick t) (tick_of t a) h \<and> check_tick t \<le> tick_of t a \<and> tick_of t a < 2 ^ 31 \<and>
     tn_dwProcessId (tm_nodes t a) = tm_dwProcessId t"

definition wheel_ok :: "nat set \<Rightarrow> ('h, 's) MtReportTimer \<Rightarrow> (ListRef \<Rightarrow> nat list) \<Rightarrow> bool" where
  "wheel_ok D t W \<longleftrightarrow> holds heads t W \<and> (\<forall>h\<in>heads. \<forall>a\<in>set (W h). node_placed D t h a) \<and>
     tm_index t 1 = check_tick t mod 256 \<and> (\<forall>l\<in>{2..5}. tm_index t l = next_block D (check_tick t) l mod 64) \<and>
     unat (tm_uiCount t) = card (nodes_of heads W) \<and> card (nodes_of heads W) \<le> 10000"

lemma Vec_heads: "Vec l s \<in> heads \<longleftrightarrow> 1 \<le> l \<and> l \<le> 5 \<and> s < tv_size l"
  by (simp add: heads_def)

lemma wheel_okD:
  assumes "wheel_ok D t W"
  shows "holds heads t W" "\<And>h a. h \<in> heads \<Longrightarrow> a \<in> set (W h) \<Longrightarrow> node_placed D t h a"
    "tm_index t 1 = check_tick t mod 256" "\<And>l. 2 \<le> l \<Longrightarrow> l \<le> 5 \<Longrightarrow> tm_index t l = next_block D (check_tick t) l mod 64"
    "unat (tm_uiCount t) = card (nodes_of heads W)" "card (nodes_of heads W) \<le> 10000"
  using assms by (auto simp: wheel_ok_def)

lemma slot_length:
  assumes "wheel_ok D t W" "h \<in> heads"
  shows "length (W h) \<le> 10000"
proof -
  have "set (W h) \<subseteq> nodes_of heads W" using assms(2) by (auto simp: nodes_of_def)
  then have "card (set (W h)) \<le> card (nodes_of heads W)" by (intro card_mono) auto
  moreover have "distinct (W h)" using wheel_okD(1) [OF assms(1)] assms(2) wheel_repD(2) by (auto simp: holds_def)
  ultimately show ?thesis using wheel_okD(6) [OF assms(1)] by (simp add: distinct_card)
qed

text \<open>Only the blocks that start with the current tick distinguish the phases.\<close>

lemma next_block_cong: "\<not> block l dvd c \<Longrightarrow> next_block D c l = next_block D' c l"
  by (simp add: next_block_def)

lemma wheel_ok_phase:
  assumes "wheel_ok D t W" "\<And>l. 2 \<le> l \<Longrightarrow> l \<le> 5 \<Longrightarrow> next_block D (check_tick t) l = next_block D' (check_tick t) l"
  shows "wheel_ok D' t W"
proof -
  have "node_placed D' t h a" if "h \<in> heads" "node_placed D t h a" for h a
    using that assms(2) by (cases h) (auto simp: node_placed_def Vec_heads)
  then show ?thesis using assms unfolding wheel_ok_def by auto
qed

text \<open>The slot that is cascaded holds the nodes of exactly one block.\<close>

lemma slot_block:
  assumes "nb \<le> E" "E \<le> nb + 63" "E mod 64 = nb mod (64 :: nat)"
  shows "E = nb"
proof -
  obtain k where k: "E = nb + k" using assms(1) le_Suc_ex by blast
  then have "64 dvd k" using assms(3) by (metis add_diff_cancel_left' le_add1 mod_eq_dvd_iff_nat)
  then show ?thesis using k assms(2) by (auto elim: dvdE)
qed

definition rearranged :: "('h, 's) MtReportTimer \<Rightarrow> ('h, 's) MtReportTimer \<Rightarrow> bool" where
  "rearranged t t' \<longleftrightarrow> (\<exists>nx pv ix. t' = t\<lparr>tm_next := nx, tm_prev := pv, tm_index := ix\<rparr>)"

lemma rearranged_trans: "rearranged t t' \<Longrightarrow> rearranged t' t'' \<Longrightarrow> rearranged t t''"
proof -
  assume "rearranged t t'" "rearranged t' t''"
  then obtain nx pv ix where "t'' = t\<lparr>tm_next := nx, tm_prev := pv, tm_index := ix\<rparr>" by (auto simp: rearranged_def)
  then show ?thesis unfolding rearranged_def by blast
qed

lemma rearranged_refl: "rearranged t t"
  unfolding rearranged_def by (intro exI [of _ "tm_next t"] exI [of _ "tm_prev t"] exI [of _ "tm_index t"]) simp

lemma rearranged_sel [simp]:
  "rearranged t t' \<Longrightarrow> tm_nodes t' = tm_nodes t" "rearranged t t' \<Longrightarrow> tm_uiCheckTime t' = tm_uiCheckTime t"
  "rearranged t t' \<Longrightarrow> tm_uiCount t' = tm_uiCount t" "rearranged t t' \<Longrightarrow> tm_dwProcessId t' = tm_dwProcessId t"
  "rearranged t t' \<Longrightarrow> tm_qwCurTime t' = tm_qwCurTime t" "rearranged t t' \<Longrightarrow> tm_uiCheckInvlUs t' = tm_uiCheckInvlUs t"
  "rearranged t t' \<Longrightarrow> tm_stHash t' = tm_stHash t" "rearranged t t' \<Longrightarrow> tm_socks t' = tm_socks t" "rearranged t t' \<Longrightarrow> tm_cIsInit t' = tm_cIsInit t"
  "rearranged t t' \<Longrightarrow> tm_qwBaseTime t' = tm_qwBaseTime t"
  by (auto simp: rearranged_def)

subsection \<open>Cascading\<close>

lemma CascadeTimers_keeps:
  assumes ok: "wheel_ok {2..<l} t W" and l: "2 \<le> l" "l \<le> 5" and dv: "block l dvd check_tick t"
  shows "\<exists>t' W'. CascadeTimers l t = Some (0, t') \<and> rearranged t t' \<and> wheel_ok {2..l} t' W' \<and> nodes_of heads W' = nodes_of heads W \<and>
    tm_index t' l = (check_tick t div block l + 1) mod 64"
proof -
  let ?c = "check_tick t" and ?D = "{2..<l}" and ?v = "\<lambda>a. timer_vec (tn_uiExpire (tm_nodes t a)) t"
  define h where "h = Vec l (tm_index t l)"
  note k = wheel_okD [OF ok]
  have nb: "next_block ?D ?c l = ?c div block l" "next_block {2..l} ?c l = ?c div block l + 1" using l dv by (simp_all add: next_block_def)
  have ix: "tm_index t l = ?c div block l mod 64" using k(4) [OF l] nb by simp
  then have h: "h \<in> heads" using l by (simp add: h_def Vec_heads tv_size_def)
  have low: "?c \<le> tick_of t a \<and> tick_of t a < ?c + block l" if "a \<in> set (W h)" for a
  proof -
    have p: "placed ?D ?c (tick_of t a) h" "?c \<le> tick_of t a" using k(2) [OF h that] by (simp_all add: node_placed_def)
    have l1: "l \<noteq> 1" using l by simp
    have "tm_index t l = tick_of t a div block l mod 64" "?c div block l \<le> tick_of t a div block l" "tick_of t a div block l \<le> ?c div block l + 63"
      using p(1) unfolding h_def placed.simps nb(1) by (simp_all only: l1 if_False)
    then have "tick_of t a div block l = ?c div block l" using slot_block ix by metis
    then have "tick_of t a < block l + block l * (?c div block l)" using dividend_less_times_div [of "block l" "tick_of t a"] by simp
    then show ?thesis using p(2) dv by simp
  qed
  have vec: "?v a \<in> heads - {h}" "placed {2..l} ?c (tick_of t a) (?v a)" "tn_dwProcessId (tm_nodes t a) = tm_dwProcessId t" "tick_of t a < 2 ^ 31" if "a \<in> set (W h)" for a
  proof -
    have a: "node_placed ?D t h a" using k(2) [OF h that] .
    then have e: "?c \<le> tick_of t a" "tick_of t a < 2 ^ 31" using low [OF that] by (simp_all add: node_placed_def)
    note tv = timer_vec_placed [OF e]
    show "?v a \<in> heads - {h}" using tv(1) tv(3) [OF l(1)] low [OF that] by (auto simp: h_def)
    show "placed {2..l} ?c (tick_of t a) (?v a)" by (rule tv(2))
    show "tn_dwProcessId (tm_nodes t a) = tm_dwProcessId t" "tick_of t a < 2 ^ 31" using a by (simp_all add: node_placed_def)
  qed
  obtain nx pv where c: "CascadeTimers l t = Some (0, t\<lparr>tm_next := nx, tm_prev := pv, tm_index := (tm_index t)(l := (tm_index t l + 1) mod 64)\<rparr>)"
    "wheel_rep heads nx pv ((spread ?v (W h) W)(h := []))"
    using CascadeTimers_spreads [OF k(1), of l] h vec(1,3) slot_length [OF ok h] unfolding h_def by auto
  define t' W' where d: "t' = t\<lparr>tm_next := nx, tm_prev := pv, tm_index := (tm_index t)(l := (tm_index t l + 1) mod 64)\<rparr>" "W' = (spread ?v (W h) W)(h := [])"
  have mv: "rearranged t t'" unfolding d rearranged_def by blast
  have W': "a \<in> set (W' g) \<longleftrightarrow> g \<noteq> h \<and> (a \<in> set (W g) \<or> a \<in> set (W h) \<and> ?v a = g)" for a g
    by (simp add: d spread_list)
  have "x \<in> nodes_of heads W'" if "x \<in> set (W g)" "g \<in> heads" for x g
    using that vec(1) [of x] W' [of x g] W' [of x "?v x"] by (cases "g = h") (auto simp: nodes_of_def)
  then have nodes: "nodes_of heads W' = nodes_of heads W" using W' h by (auto simp: nodes_of_def)
  have stay: "node_placed {2..l} t' g a" if g: "g \<in> heads" "g \<noteq> h" "a \<in> set (W g)" for g a
  proof -
    have a: "node_placed ?D t g a" using k(2) g by blast
    obtain m s where m: "g = Vec m s" "1 \<le> m" "m \<le> 5" using g(1) by (auto simp: heads_def)
    have "placed {2..l} ?c (tick_of t a) g"
    proof (cases "m = l")
      case True
      then have "tick_of t a div block l \<noteq> ?c div block l" using a m g(2) ix l by (auto simp: node_placed_def h_def)
      then show ?thesis using a True m l nb by (auto simp: node_placed_def)
    next
      case False
      then have "next_block {2..l} ?c m = next_block ?D ?c m" by (auto simp: next_block_def)
      then show ?thesis using a m by (auto simp: node_placed_def)
    qed
    then show ?thesis using a mv by (simp add: node_placed_def)
  qed
  have "node_placed {2..l} t' g a" if "g \<in> heads" "a \<in> set (W' g)" for g a
    using that stay vec low mv unfolding W' by (auto simp: node_placed_def)
  moreover have "tm_index t' m = next_block {2..l} ?c m mod 64" if "2 \<le> m" "m \<le> 5" for m
    using k(4) [OF that] ix nb l by (auto simp: d mod_Suc_eq next_block_def)
  moreover have "tm_index t' 1 = tm_index t 1" using l by (simp add: d)
  ultimately have "wheel_ok {2..l} t' W'"
    using c(2) k(3,5,6) mv nodes by (simp add: wheel_ok_def holds_def d(2)) (simp add: d(1))
  then show ?thesis using c(1) mv nodes ix by (auto simp: d mod_Suc_eq)
qed

lemma next_index_1: "(q + 1) mod 64 = 1 \<longleftrightarrow> 64 dvd (q :: nat)"
  by (simp add: mod_Suc dvd_eq_mod_eq_0)

lemma block_dvd: "m \<le> l \<Longrightarrow> block m dvd block l"
  by (simp add: block_def le_imp_power_dvd)

lemma cascade_all_keeps:
  assumes "wheel_ok {2..<l} t W" "2 \<le> l" "l \<le> 5" "block l dvd check_tick t"
  shows "\<exists>t' W'. cascade_all [l..<6] t = Some (0, t') \<and> rearranged t t' \<and> wheel_ok {2..5} t' W' \<and> nodes_of heads W' = nodes_of heads W"
  using assms
proof (induction "5 - l" arbitrary: l t W)
  case 0
  then have l: "l = 5" by simp
  obtain t1 W1 where "CascadeTimers l t = Some (0, t1)" "rearranged t t1" "wheel_ok {2..l} t1 W1" "nodes_of heads W1 = nodes_of heads W"
    using CascadeTimers_keeps [OF 0(2-)] by blast
  then show ?case using l by (auto simp: upt_rec)
next
  case (Suc k)
  let ?c = "check_tick t"
  obtain t1 W1 where c: "CascadeTimers l t = Some (0, t1)" "rearranged t t1" "wheel_ok {2..l} t1 W1" "nodes_of heads W1 = nodes_of heads W"
    and ix: "tm_index t1 l = (?c div block l + 1) mod 64"
    using CascadeTimers_keeps [OF Suc.prems] by blast
  obtain q where q: "?c = block l * q" using Suc.prems(4) by (rule dvdE)
  have all: "cascade_all [l..<6] t = (if tm_index t1 l = 1 then cascade_all [Suc l..<6] t1 else Some (0, t1))"
    using c(1) Suc.prems(3) by (simp add: upt_conv_Cons)
  have dv: "tm_index t1 l = 1 \<longleftrightarrow> block (Suc l) dvd ?c" unfolding ix next_index_1 by (simp add: block_Suc [OF Suc.prems(2)] q mult.commute)
  show ?case
  proof (cases "tm_index t1 l = 1")
    case True
    then have "block (Suc l) dvd check_tick t1" "wheel_ok {2..<Suc l} t1 W1" using dv c(2,3) by (simp_all add: atLeastLessThanSuc_atLeastAtMost)
    then have "\<exists>t' W'. cascade_all [Suc l..<6] t1 = Some (0, t') \<and> rearranged t1 t' \<and> wheel_ok {2..5} t' W' \<and> nodes_of heads W' = nodes_of heads W1"
      using Suc.hyps(2) Suc.prems(2) by (intro Suc.hyps(1)) simp_all
    then show ?thesis using all True c(2,4) rearranged_trans by metis
  next
    case False
    then have "\<not> block m dvd ?c" if "l < m" for m using dv dvd_trans [OF block_dvd [of "Suc l" m]] that by auto
    then have "wheel_ok {2..5} t1 W1" using c(2,3) Suc.prems(2) by (elim wheel_ok_phase) (auto simp: next_block_def)
    then show ?thesis using all False c(2,4) by auto
  qed
qed

text \<open>What the run does at a tick before it looks at the slot.\<close>

lemma cascade_phase:
  assumes ok: "wheel_ok {} t W"
  shows "\<exists>t' W'. (if tm_index t 1 = 0 then cascade_all [2, 3, 4, 5] t else Some (0, t)) = Some (0, t') \<and> rearranged t t' \<and>
    wheel_ok {2..5} t' W' \<and> nodes_of heads W' = nodes_of heads W"
proof (cases "tm_index t 1 = 0")
  case True
  then have "block 2 dvd check_tick t" using wheel_okD(3) [OF ok] by (simp add: block_values dvd_eq_mod_eq_0)
  moreover have "[2, 3, 4, 5] = [2..<(6::nat)]" by (simp add: upt_rec)
  ultimately show ?thesis using cascade_all_keeps [of 2 t W] ok True by simp
next
  case False
  then have "\<not> block 2 dvd check_tick t" using wheel_okD(3) [OF ok] by (simp add: block_values dvd_eq_mod_eq_0)
  then have "\<not> block m dvd check_tick t" if "2 \<le> m" for m using dvd_trans [OF block_dvd [OF that]] by blast
  then have "wheel_ok {2..5} t W" using ok by (elim wheel_ok_phase) (auto simp: next_block_def)
  then show ?thesis using False rearranged_refl by auto
qed

text \<open>After the cascade the slot of the current tick holds exactly the nodes that expire now.\<close>

lemma slot_due:
  assumes ok: "wheel_ok {2..5} t W"
  shows "set (W (Vec 1 (check_tick t mod 256))) = {a \<in> nodes_of heads W. tick_of t a = check_tick t}"
proof (intro equalityI subsetI CollectI conjI)
  let ?c = "check_tick t"
  have h: "Vec 1 (?c mod 256) \<in> heads" by (simp add: Vec_heads tv_size_def)
  fix a
  assume a: "a \<in> set (W (Vec 1 (?c mod 256)))"
  then show "a \<in> nodes_of heads W" using h by (auto simp: nodes_of_def)
  have "?c mod 256 = tick_of t a mod 256" "?c \<le> tick_of t a" "tick_of t a < ?c + 256" using wheel_okD(2) [OF ok h a] by (auto simp: node_placed_def)
  then show "tick_of t a = ?c" by (metis add_diff_cancel_left' le_add_diff_inverse mod_eq_dvd_iff_nat nat_dvd_not_less nat_add_left_cancel_less neq0_conv add_0_right)
next
  let ?c = "check_tick t"
  fix a
  assume "a \<in> {a \<in> nodes_of heads W. tick_of t a = ?c}"
  then obtain h where a: "h \<in> heads" "a \<in> set (W h)" "tick_of t a = ?c" by (auto simp: nodes_of_def)
  obtain l s where l: "h = Vec l s" "1 \<le> l" "l \<le> 5" using a(1) by (auto simp: heads_def)
  have p: "placed {2..5} ?c ?c h" using wheel_okD(2) [OF ok a(1,2)] a(3) by (simp add: node_placed_def)
  have "l = 1"
  proof (rule ccontr)
    assume "l \<noteq> 1"
    then show False using p l by (auto simp: next_block_def)
  qed
  then show "a \<in> set (W (Vec 1 (?c mod 256)))" using p l a(2) by auto
qed

text \<open>With this slot empty the wheel can turn.\<close>

lemma next_tick:
  assumes ok: "wheel_ok {2..5} t W" and e: "W (Vec 1 (check_tick t mod 256)) = []" and c: "check_tick t + 1 < 2 ^ 32"
  shows "wheel_ok {} (t\<lparr>tm_uiCheckTime := tm_uiCheckTime t + 1, tm_index := (tm_index t)(1 := (tm_index t 1 + 1) mod 256)\<rparr>) W"
proof -
  let ?c = "check_tick t" and ?t = "t\<lparr>tm_uiCheckTime := tm_uiCheckTime t + 1, tm_index := (tm_index t)(1 := (tm_index t 1 + 1) mod 256)\<rparr>"
  note k = wheel_okD [OF ok]
  have c1: "check_tick ?t = ?c + 1" using c by (simp add: unat_add_lem [THEN iffD1])
  have nb: "next_block {} (?c + 1) l = next_block {2..5} ?c l" if "2 \<le> l" "l \<le> 5" for l
  proof (cases "block l dvd ?c + 1")
    case True
    then have "(?c + 1) div block l = ?c div block l + 1" by (simp add: div_Suc dvd_eq_mod_eq_0)
    then show ?thesis using True that by (simp add: next_block_def)
  next
    case False
    then have "(?c + 1) div block l = ?c div block l" by (simp add: div_Suc dvd_eq_mod_eq_0)
    then show ?thesis using False that by (simp add: next_block_def)
  qed
  have "node_placed {} ?t h a" if h: "h \<in> heads" "a \<in> set (W h)" for h a
  proof -
    have a: "node_placed {2..5} t h a" using k(2) h by blast
    obtain l s where l: "h = Vec l s" "1 \<le> l" "l \<le> 5" using h(1) by (auto simp: heads_def)
    have "a \<in> nodes_of heads W" using h by (auto simp: nodes_of_def)
    then have "tick_of t a \<noteq> ?c" using slot_due [OF ok] e by auto
    then have "?c + 1 \<le> tick_of t a" using a by (simp add: node_placed_def)
    moreover have "placed {} (?c + 1) (tick_of t a) h"
      using a l nb [of l] \<open>?c + 1 \<le> tick_of t a\<close> by (auto simp: node_placed_def)
    ultimately show ?thesis using a c1 by (simp add: node_placed_def)
  qed
  then show ?thesis using k nb unfolding wheel_ok_def c1 by (auto simp: holds_def mod_Suc_eq)
qed

end
