(* ===== verification/Timer_Search.thy ===== *)
theory Timer_Search
  imports Timer_Place
begin

text \<open>
  The timers as a set of keyed nodes. A search in the hash table may take the key of nodes that are stale; it finds
  a live node by its key and otherwise a node without key. \<open>timers\<close> is the invariant of the whole state: the wheel, the
  table and the clock. The number \<open>T\<close> is a time in microseconds up to which the state is looked at; no
  node may be overdue for more than five minutes then.
\<close>

subsection \<open>Searching\<close>

fun cand_rows :: "u32 \<Rightarrow> u32 \<Rightarrow> nat \<Rightarrow> u32 list \<Rightarrow> nat list" where
  "cand_rows sz key p [] = []"
| "cand_rows sz key p (n # ns) = (p + unat (sz * (key mod n))) # cand_rows sz key (p + unat (sz * n)) ns"

definition candidates :: "('h, 's) MtReportTimer \<Rightarrow> u32 \<Rightarrow> nat list" where
  "candidates t key = cand_rows (nl_dwNodeSize (tm_stHash t)) key (nl_pHash (tm_stHash t)) (take STATIC_HASH_ROW_MAX (nl_dwNodeNums (tm_stHash t)))"

abbreviation key_of :: "('h, 's) MtReportTimer \<Rightarrow> nat \<Rightarrow> u32" where
  "key_of t a \<equiv> tn_uiKey (tm_nodes t a)"

definition stale :: "('h, 's) MtReportTimer \<Rightarrow> nat \<Rightarrow> bool" where
  "stale t a \<longleftrightarrow> tn_dwProcessId (tm_nodes t a) \<noteq> tm_dwProcessId t \<or> tn_qwExpireTime (tm_nodes t a) + 300000000 < tm_qwCurTime t"

text \<open>What a search may change: stale nodes lose their keys.\<close>

definition scrubbed :: "('h, 's) MtReportTimer \<Rightarrow> ('h, 's) MtReportTimer \<Rightarrow> bool" where
  "scrubbed t t' \<longleftrightarrow> (\<exists>nd. t' = t\<lparr>tm_nodes := nd\<rparr> \<and> (\<forall>b. nd b = tm_nodes t b \<or> stale t b \<and> nd b = (tm_nodes t b)\<lparr>tn_uiKey := 0\<rparr>))"

lemma scrubbedI: "(\<And>b. nd b = tm_nodes t b \<or> stale t b \<and> nd b = (tm_nodes t b)\<lparr>tn_uiKey := 0\<rparr>) \<Longrightarrow> scrubbed t (t\<lparr>tm_nodes := nd\<rparr>)"
  unfolding scrubbed_def by blast

lemma scrubbed_refl: "scrubbed t t"
  using scrubbedI [of "tm_nodes t" t] by simp

lemma scrubbed_trans:
  assumes "scrubbed t t'" "scrubbed t' t''"
  shows "scrubbed t t''"
proof -
  obtain nd where 1: "t' = t\<lparr>tm_nodes := nd\<rparr>" "\<And>b. nd b = tm_nodes t b \<or> stale t b \<and> nd b = (tm_nodes t b)\<lparr>tn_uiKey := 0\<rparr>"
    using assms(1) by (auto simp: scrubbed_def)
  obtain nd' where 2: "t'' = t'\<lparr>tm_nodes := nd'\<rparr>" "\<And>b. nd' b = tm_nodes t' b \<or> stale t' b \<and> nd' b = (tm_nodes t' b)\<lparr>tn_uiKey := 0\<rparr>"
    using assms(2) by (auto simp: scrubbed_def)
  have s: "stale t' b = stale t b" for b using 1(2) [of b] by (auto simp: stale_def 1(1))
  have "nd' b = tm_nodes t b \<or> stale t b \<and> nd' b = (tm_nodes t b)\<lparr>tn_uiKey := 0\<rparr>" for b
    using 1(2) [of b] 2(2) [of b] unfolding s by (auto simp: 1(1))
  then show ?thesis using scrubbedI [of nd' t] by (simp add: 2(1) 1(1))
qed

lemma scrubbed_key:
  assumes "scrubbed t t'"
  shows "key_of t' b = key_of t b \<or> stale t b \<and> key_of t' b = 0" "stale t' b = stale t b" "candidates t' k = candidates t k" "tm_stHash t' = tm_stHash t"
proof -
  obtain nd where t': "t' = t\<lparr>tm_nodes := nd\<rparr>" and nd: "\<And>b. nd b = tm_nodes t b \<or> stale t b \<and> nd b = (tm_nodes t b)\<lparr>tn_uiKey := 0\<rparr>"
    using assms by (auto simp: scrubbed_def)
  show "key_of t' b = key_of t b \<or> stale t b \<and> key_of t' b = 0" using nd [of b] by (auto simp: t')
  show "stale t' b = stale t b" using nd [of b] by (auto simp: stale_def t')
  show "candidates t' k = candidates t k" "tm_stHash t' = tm_stHash t" by (simp_all add: candidates_def t')
qed

lemma TimerHashCmpFun_scrubs:
  "\<exists>t'. TimerHashCmpFun key a t = (if key = key_of t' a then 0 else 1, t') \<and> scrubbed t t'"
proof -
  let ?n = "tm_nodes t a"
  let ?m = "if stale t a then ?n\<lparr>tn_uiKey := 0\<rparr> else ?n"
  have "TimerHashCmpFun key a t = (if key = tn_uiKey ?m then 0 else 1, t\<lparr>tm_nodes := (tm_nodes t)(a := ?m)\<rparr>)"
    by (simp add: TimerHashCmpFun_def Let_def stale_def)
  moreover have "scrubbed t (t\<lparr>tm_nodes := (tm_nodes t)(a := ?m)\<rparr>)" by (rule scrubbedI) simp
  ultimately show ?thesis by (intro exI [of _ "t\<lparr>tm_nodes := (tm_nodes t)(a := ?m)\<rparr>"]) simp
qed

lemma timer_rows_run:
  assumes "\<forall>n\<in>set ns. n \<noteq> 0" "key \<noteq> 0"
  shows "\<exists>r t'. timer_rows key p ns t = Some (r, t') \<and> scrubbed t t' \<and>
    (case r of None \<Rightarrow> \<forall>b\<in>set (cand_rows (nl_dwNodeSize (tm_stHash t)) key p ns). key_of t' b \<noteq> key
     | Some a \<Rightarrow> key_of t' a = key)"
  using assms(1)
proof (induction ns arbitrary: p t)
  case Nil
  then show ?case by (simp add: scrubbed_refl)
next
  case (Cons n ns)
  let ?a = "p + unat (nl_dwNodeSize (tm_stHash t) * (key mod n))"
  obtain t1 where t1: "TimerHashCmpFun key ?a t = (if key = key_of t1 ?a then 0 else 1, t1)" "scrubbed t t1" using TimerHashCmpFun_scrubs by blast
  note s1 = scrubbed_key [OF t1(2)]
  show ?case
  proof (cases "key = key_of t1 ?a")
    case True
    then show ?thesis using t1 Cons.prems by (intro exI [of _ "Some ?a"] exI [of _ t1]) (simp add: Let_def)
  next
    case False
    obtain r t' where r: "timer_rows key (p + unat (nl_dwNodeSize (tm_stHash t) * n)) ns t1 = Some (r, t')" "scrubbed t1 t'"
      "case r of None \<Rightarrow> \<forall>b\<in>set (cand_rows (nl_dwNodeSize (tm_stHash t)) key (p + unat (nl_dwNodeSize (tm_stHash t) * n)) ns). key_of t' b \<noteq> key
       | Some a \<Rightarrow> key_of t' a = key"
      using Cons.IH [of "p + unat (nl_dwNodeSize (tm_stHash t) * n)" t1] Cons.prems unfolding s1(4) by auto
    have "key_of t' ?a \<noteq> key" using scrubbed_key(1) [OF r(2), of ?a] False assms(2) by metis
    moreover have "timer_rows key p (n # ns) t = Some (r, t')" using Cons.prems False unfolding timer_rows.simps Let_def t1(1) by (simp add: s1(4) r(1))
    ultimately show ?thesis using r(3) scrubbed_trans [OF t1(2) r(2)] by (cases r) auto
  qed
qed

lemma timer_rows_ex_run:
  assumes "\<forall>n\<in>set ns. n \<noteq> 0" "key \<noteq> 0" "\<forall>a. em = Some a \<longrightarrow> key_of t a = 0"
  shows "\<exists>r f t'. timer_rows_ex key p em ns t = Some (r, f, t') \<and> scrubbed t t' \<and>
    (if f then \<exists>a. r = Some a \<and> key_of t' a = key
     else (\<forall>b\<in>set (cand_rows (nl_dwNodeSize (tm_stHash t)) key p ns). key_of t' b \<noteq> key) \<and>
       (\<forall>a. r = Some a \<longrightarrow> key_of t' a = 0 \<and> (r = em \<or> a \<in> set (cand_rows (nl_dwNodeSize (tm_stHash t)) key p ns))))"
  using assms(1,3)
proof (induction ns arbitrary: p t em)
  case Nil
  then show ?case by (auto simp: scrubbed_refl intro!: exI [of _ False])
next
  case (Cons n ns)
  let ?sz = "nl_dwNodeSize (tm_stHash t)"
  let ?a = "p + unat (?sz * (key mod n))" and ?p = "p + unat (?sz * n)"
  obtain t1 where t1: "TimerHashCmpFun key ?a t = (if key = key_of t1 ?a then 0 else 1, t1)" "scrubbed t t1" using TimerHashCmpFun_scrubs by blast
  note s1 = scrubbed_key [OF t1(2)]
  show ?case
  proof (cases "key = key_of t1 ?a")
    case True
    then have "timer_rows_ex key p em (n # ns) t = Some (Some ?a, True, t1)" using t1(1) Cons.prems(1) by (simp add: Let_def)
    then show ?thesis using True t1(2) by auto
  next
    case False
    obtain t2 where t2: "TimerHashCmpFun 0 ?a t1 = (if 0 = key_of t2 ?a then 0 else 1, t2)" "scrubbed t1 t2" using TimerHashCmpFun_scrubs by blast
    define tx where "tx = (if em = None then t2 else t1)"
    define em' where "em' = (if em = None then if key_of t2 ?a = 0 then Some ?a else None else em)"
    have sx: "scrubbed t tx" "scrubbed t1 tx" using scrubbed_trans [OF t1(2) t2(2)] t1(2) t2(2) scrubbed_refl by (auto simp: tx_def)
    have step: "timer_rows_ex key p em (n # ns) t = timer_rows_ex key ?p em' ns tx"
      using t1(1) t2(1) False Cons.prems(1) s1(4) by (auto simp: Let_def tx_def em'_def)
    have "\<forall>a. em' = Some a \<longrightarrow> key_of tx a = 0"
      using Cons.prems(2) s1(1) by (auto simp: em'_def tx_def split: if_splits) (metis scrubbed_key(1) t1(2))
    then obtain r f t' where r: "timer_rows_ex key ?p em' ns tx = Some (r, f, t')" "scrubbed tx t'"
      "if f then \<exists>a. r = Some a \<and> key_of t' a = key
       else (\<forall>b\<in>set (cand_rows ?sz key ?p ns). key_of t' b \<noteq> key) \<and>
         (\<forall>a. r = Some a \<longrightarrow> key_of t' a = 0 \<and> (r = em' \<or> a \<in> set (cand_rows ?sz key ?p ns)))"
      using Cons.IH [of em' tx ?p] Cons.prems(1) unfolding scrubbed_key(4) [OF sx(1)] by (metis list.set_intros(2))
    have "key_of tx ?a \<noteq> key" using scrubbed_key(1) [OF sx(2), of ?a] False assms(2) by metis
    then have "key_of t' ?a \<noteq> key" using scrubbed_key(1) [OF r(2), of ?a] assms(2) by metis
    then show ?thesis unfolding step r(1) using r(3) scrubbed_trans [OF sx(1) r(2)]
      by (cases f) (auto simp: em'_def split: if_splits)
  qed
qed

text \<open>Every key stands at one of its candidates, and at one node only.\<close>

definition keyed :: "('h, 's) MtReportTimer \<Rightarrow> bool" where
  "keyed t \<longleftrightarrow> nl_bInitSuccess (tm_stHash t) \<noteq> 0 \<and> (\<forall>n\<in>set (take STATIC_HASH_ROW_MAX (nl_dwNodeNums (tm_stHash t))). n \<noteq> 0) \<and>
     (\<forall>b. key_of t b \<noteq> 0 \<longrightarrow> b \<in> set (candidates t (key_of t b)) \<and> (\<forall>b'. key_of t b' = key_of t b \<longrightarrow> b' = b))"

lemma keyedD:
  assumes "keyed t"
  shows "nl_bInitSuccess (tm_stHash t) \<noteq> 0" "\<forall>n\<in>set (take STATIC_HASH_ROW_MAX (nl_dwNodeNums (tm_stHash t))). n \<noteq> 0"
    "key_of t b \<noteq> 0 \<Longrightarrow> b \<in> set (candidates t (key_of t b))" "key_of t b \<noteq> 0 \<Longrightarrow> key_of t b' = key_of t b \<Longrightarrow> b' = b"
  using assms by (auto simp: keyed_def)

lemma keyed_scrubbed:
  assumes k: "keyed t" and s: "scrubbed t t'"
  shows "keyed t'"
proof -
  note d = scrubbed_key [OF s] and kd = keyedD [OF k]
  have same: "key_of t' b = key_of t b" if "key_of t' b \<noteq> 0" for b using d(1) [of b] that by metis
  have "b \<in> set (candidates t' (key_of t' b))" if "key_of t' b \<noteq> 0" for b
    using kd(3) [of b] that same [OF that] by (simp add: d(3))
  moreover have "b' = b" if "key_of t' b \<noteq> 0" "key_of t' b' = key_of t' b" for b b'
    using kd(4) [of b b'] that same [of b] same [of b'] by metis
  ultimately show ?thesis using kd(1,2) unfolding keyed_def d(4) by blast
qed

lemma timer_search_finds:
  assumes k: "keyed t" and a: "key_of t a \<noteq> 0" "\<not> stale t a"
  shows "\<exists>t'. timer_search (key_of t a) t = Some (Some a, t') \<and> scrubbed t t'"
proof -
  note kd = keyedD [OF k]
  obtain r t' where r: "timer_search (key_of t a) t = Some (r, t')" "scrubbed t t'"
    "case r of None \<Rightarrow> \<forall>b\<in>set (candidates t (key_of t a)). key_of t' b \<noteq> key_of t a | Some b \<Rightarrow> key_of t' b = key_of t a"
    using timer_rows_run [OF kd(2) a(1), of "nl_pHash (tm_stHash t)" t] kd(1) unfolding timer_search_def candidates_def by auto
  note d = scrubbed_key [OF r(2)]
  have "key_of t' a = key_of t a" using d(1) [of a] a(2) by blast
  then obtain b where b: "r = Some b" "key_of t' b = key_of t a" using r(3) kd(3) [OF a(1)] by (cases r) auto
  then have "key_of t b = key_of t a" using d(1) [of b] a(1) by metis
  then show ?thesis using r(1,2) b(1) kd(4) [OF a(1)] by auto
qed

lemma timer_search_ex_result:
  assumes k: "keyed t" and key: "key \<noteq> 0"
  shows "\<exists>r f t'. timer_search_ex key t = Some (r, f, t') \<and> scrubbed t t' \<and>
    (\<not> f \<longrightarrow> (\<forall>b. key_of t' b \<noteq> key) \<and> (\<forall>a. r = Some a \<longrightarrow> key_of t' a = 0 \<and> a \<in> set (candidates t key)))"
proof -
  note kd = keyedD [OF k]
  obtain r f t' where r: "timer_search_ex key t = Some (r, f, t')" "scrubbed t t'"
    "if f then \<exists>a. r = Some a \<and> key_of t' a = key
     else (\<forall>b\<in>set (candidates t key). key_of t' b \<noteq> key) \<and> (\<forall>a. r = Some a \<longrightarrow> key_of t' a = 0 \<and> (r = None \<or> a \<in> set (candidates t key)))"
    using timer_rows_ex_run [OF kd(2) key, of None t "nl_pHash (tm_stHash t)"] kd(1) unfolding timer_search_ex_def candidates_def by auto
  have "key_of t' b \<noteq> key" if "\<not> f" for b
    using r(3) that keyedD(3) [OF keyed_scrubbed [OF k r(2)], of b] key unfolding scrubbed_key(3) [OF r(2)] by auto
  then show ?thesis using r by auto
qed

subsection \<open>The invariant of the timers\<close>

abbreviation now_of :: "('h, 's) MtReportTimer \<Rightarrow> nat" where
  "now_of t \<equiv> unat (tm_qwCurTime t)"

abbreviation base_of :: "('h, 's) MtReportTimer \<Rightarrow> nat" where
  "base_of t \<equiv> unat (tm_qwBaseTime t)"

abbreviation due_of :: "('h, 's) MtReportTimer \<Rightarrow> nat \<Rightarrow> nat" where
  "due_of t a \<equiv> unat (tn_qwExpireTime (tm_nodes t a))"

text \<open>The response times the sockets have seen do not make a time-out overflow.\<close>

definition socks_ok :: "MtSocket list \<Rightarrow> bool" where
  "socks_ok ss \<longleftrightarrow> length ss = 100 \<and> (\<forall>s\<in>set ss. sk_iMaxRespTimeMs s \<le> 4293967)"

definition clock_ok :: "nat \<Rightarrow> ('h, 's) MtReportTimer \<Rightarrow> bool" where
  "clock_ok T t \<longleftrightarrow> tm_cIsInit t \<noteq> 0 \<and> tm_uiCheckInvlUs t = 100000 \<and> base_of t \<le> now_of t \<and> now_of t \<le> T \<and> T \<le> now_of t + 300000000 \<and>
     T < 2 ^ 63 \<and> T + 2 ^ 32 < base_of t + 2 ^ 31 * 100000 \<and> check_tick t \<le> (now_of t - base_of t) div 100000 + 1 \<and> socks_ok (tm_socks t)"

lemma clock_okD:
  assumes "clock_ok T t"
  shows "tm_cIsInit t \<noteq> 0" "tm_uiCheckInvlUs t = 100000" "base_of t \<le> now_of t" "now_of t \<le> T" "T \<le> now_of t + 300000000" "T < 2 ^ 63"
    "T + 2 ^ 32 < base_of t + 2 ^ 31 * 100000" "check_tick t \<le> (now_of t - base_of t) div 100000 + 1" "socks_ok (tm_socks t)"
  using assms unfolding clock_ok_def by blast+

definition data_ok :: "('h, 's) TimerNode \<Rightarrow> bool" where
  "data_ok n \<longleftrightarrow> (case tn_pDataPtr n of None \<Rightarrow> tn_uiDataLen n = 0 | Some d \<Rightarrow> unat (tn_uiDataLen n) = length d \<and> length d \<le> TIMER_DATA_MAX_LENGTH)"

lemma data_ok_upd [simp]:
  "data_ok (n\<lparr>tn_dwProcessId := x\<rparr>) = data_ok n" "data_ok (n\<lparr>tn_uiKey := k\<rparr>) = data_ok n" "data_ok (n\<lparr>tn_uiTimeOut := tmo\<rparr>) = data_ok n"
  by (simp_all add: data_ok_def split: option.split)

definition node_live :: "nat \<Rightarrow> ('h, 's) MtReportTimer \<Rightarrow> nat \<Rightarrow> bool" where
  "node_live T t a \<longleftrightarrow> key_of t a \<noteq> 0 \<and> data_ok (tm_nodes t a) \<and> base_of t \<le> due_of t a \<and> tick_of t a = (due_of t a - base_of t) div 100000 \<and>
     T \<le> due_of t a + 300000000 \<and> unat (tn_uiTimeOut (tm_nodes t a)) \<le> 4294967"

definition timers :: "nat \<Rightarrow> nat set \<Rightarrow> ('h, 's) MtReportTimer \<Rightarrow> (ListRef \<Rightarrow> nat list) \<Rightarrow> bool" where
  "timers T D t W \<longleftrightarrow> wheel_ok D t W \<and> keyed t \<and> clock_ok T t \<and> (\<forall>a\<in>nodes_of heads W. node_live T t a)"

lemma timersD:
  assumes "timers T D t W"
  shows "wheel_ok D t W" "keyed t" "clock_ok T t" "\<And>a. a \<in> nodes_of heads W \<Longrightarrow> node_live T t a"
    "\<And>a. a \<in> nodes_of heads W \<Longrightarrow> tn_dwProcessId (tm_nodes t a) = tm_dwProcessId t \<and> check_tick t \<le> tick_of t a \<and> tick_of t a < 2 ^ 31"
  using assms by (auto simp: timers_def nodes_of_def dest: wheel_okD(2)) (auto simp: node_placed_def dest!: wheel_okD(2))

text \<open>The invariant only looks at the members, the lists, the table and the clock.\<close>

lemma timers_frame:
  assumes t: "timers T D t W" and eq: "tm_next t' = tm_next t" "tm_prev t' = tm_prev t" "tm_index t' = tm_index t" "tm_uiCheckTime t' = tm_uiCheckTime t"
    "tm_uiCount t' = tm_uiCount t" "tm_dwProcessId t' = tm_dwProcessId t" "tm_qwBaseTime t' = tm_qwBaseTime t"
    and nd: "\<And>a. a \<in> nodes_of heads W \<Longrightarrow> tm_nodes t' a = tm_nodes t a" and "keyed t'" "clock_ok T t'"
  shows "timers T D t' W"
proof -
  have "node_placed D t' h a = node_placed D t h a" if "h \<in> heads" "a \<in> set (W h)" for h a
  proof -
    have "a \<in> nodes_of heads W" using that by (auto simp: nodes_of_def)
    then show ?thesis using eq by (simp add: node_placed_def nd)
  qed
  then have "wheel_ok D t' W" using timersD(1) [OF t] eq unfolding wheel_ok_def holds_def by auto
  then show ?thesis using t assms(10,11) nd eq by (auto simp: timers_def node_live_def)
qed

lemma live_not_stale:
  assumes t: "timers T D t W" and a: "a \<in> nodes_of heads W"
  shows "\<not> stale t a"
proof -
  note c = timersD(3) [OF t, unfolded clock_ok_def] and l = timersD(4) [OF t a, unfolded node_live_def] and p = timersD(5) [OF t a]
  have "(due_of t a - base_of t) div 100000 < 2 ^ 31" using l p by auto
  then have "due_of t a - base_of t < 2 ^ 31 * 100000" by (simp add: div_less_iff_less_mult)
  moreover have "base_of t < 2 ^ 63" using c by linarith
  ultimately have "due_of t a < 2 ^ 64 - 300000000" by simp
  then have "unat (tn_qwExpireTime (tm_nodes t a) + 300000000) = due_of t a + 300000000"
    using unat_add_lem [of "tn_qwExpireTime (tm_nodes t a)" "300000000 :: u64"] by simp
  then have "\<not> tn_qwExpireTime (tm_nodes t a) + 300000000 < tm_qwCurTime t" using l c by (simp add: word_less_nat_alt)
  then show ?thesis using p by (simp add: stale_def)
qed

lemma timers_scrubbed:
  assumes t: "timers T D t W" and s: "scrubbed t t'"
  shows "timers T D t' W" "a \<in> nodes_of heads W \<Longrightarrow> tm_nodes t' a = tm_nodes t a"
proof -
  obtain nd where nd: "t' = t\<lparr>tm_nodes := nd\<rparr>" "\<And>b. nd b = tm_nodes t b \<or> stale t b \<and> nd b = (tm_nodes t b)\<lparr>tn_uiKey := 0\<rparr>"
    using s by (auto simp: scrubbed_def)
  then have same: "tm_nodes t' a = tm_nodes t a" if "a \<in> nodes_of heads W" for a using live_not_stale [OF t that] by auto
  show "a \<in> nodes_of heads W \<Longrightarrow> tm_nodes t' a = tm_nodes t a" by (rule same)
  show "timers T D t' W"
    using timersD(3) [OF t] by (intro timers_frame [OF t] same keyed_scrubbed [OF timersD(2) [OF t] s]) (simp_all add: nd(1) clock_ok_def)
qed

end
