(* ===== verification/Timer_Ops.thy ===== *)
theory Timer_Ops
  imports Timer_Search
begin

text \<open>
  Adding, re-arming and taking timers keeps the invariant: the set of members of the wheel grows or shrinks by the
  node of the call, and every other member stays as it is.
\<close>

subsection \<open>The expiry of a node\<close>

lemma TIME_MS_TO_US_nat: "unat ms \<le> 4294967 \<Longrightarrow> unat (TIME_MS_TO_US ms) = 1000 * unat ms"
proof -
  assume "unat ms \<le> 4294967"
  moreover from this have "unat (ms * 1000) = unat ms * 1000" using unat_mult_lem [of ms "1000 :: u32"] by simp
  ultimately show ?thesis by (simp add: TIME_MS_TO_US_def unsigned_ucast_eq take_bit_nat_eq_self)
qed

lemma set_expire_node:
  assumes c: "clock_ok T t" and tmo: "1000 \<le> unat tmo" "unat tmo \<le> 4294967"
  shows "due_of (set_expire a tmo t) a = now_of t + 1000 * unat tmo"
    "tick_of (set_expire a tmo t) a = (now_of t + 1000 * unat tmo - base_of t) div 100000"
    "(now_of t - base_of t) div 100000 + 10 \<le> tick_of (set_expire a tmo t) a" "tick_of (set_expire a tmo t) a < 2 ^ 31"
proof -
  note k = clock_okD [OF c]
  let ?x = "tm_qwCurTime t - tm_qwBaseTime t + TIME_MS_TO_US tmo"
  note us = TIME_MS_TO_US_nat [OF tmo(2)]
  have d: "unat (tm_qwCurTime t - tm_qwBaseTime t) = now_of t - base_of t" using k by (intro unat_sub) (simp add: word_le_nat_alt)
  have "now_of t - base_of t + 1000 * unat tmo < 2 ^ 64" using k(4,7) tmo(2) by simp
  then have x: "unat ?x = now_of t - base_of t + 1000 * unat tmo"
    using unat_add_lem [of "tm_qwCurTime t - tm_qwBaseTime t" "TIME_MS_TO_US tmo"] d us by simp
  have dv: "unat (?x div ucast (tm_uiCheckInvlUs t)) = (now_of t - base_of t + 1000 * unat tmo) div 100000"
    unfolding k(2) unat_div x by simp
  have lt: "(now_of t - base_of t + 1000 * unat tmo) div 100000 < 2 ^ 31"
    using k(4,7) tmo(2) by (simp add: div_less_iff_less_mult)
  have "unat (TIME_MS_TO_US tmo) + now_of t < 2 ^ 64" unfolding us using k(4,6) tmo(2) by simp
  then have "unat (TIME_MS_TO_US tmo + tm_qwCurTime t) = now_of t + 1000 * unat tmo"
    using unat_add_lem [of "TIME_MS_TO_US tmo" "tm_qwCurTime t"] us by simp
  then show "due_of (set_expire a tmo t) a = now_of t + 1000 * unat tmo" by (simp add: set_expire_def upd_timer_def)
  have e: "tick_of (set_expire a tmo t) a = (now_of t - base_of t + 1000 * unat tmo) div 100000"
    using dv lt by (simp add: set_expire_def upd_timer_def unsigned_ucast_eq take_bit_nat_eq_self)
  then show "tick_of (set_expire a tmo t) a = (now_of t + 1000 * unat tmo - base_of t) div 100000" using k(3) by simp
  show "tick_of (set_expire a tmo t) a < 2 ^ 31" unfolding e by (rule lt)
  have "(now_of t - base_of t + 10 * 100000) div 100000 \<le> (now_of t - base_of t + 1000 * unat tmo) div 100000"
    using tmo(1) by (intro div_le_mono) simp
  then show "(now_of t - base_of t) div 100000 + 10 \<le> tick_of (set_expire a tmo t) a" unfolding e by simp
qed

subsection \<open>Putting a node into the wheel\<close>

lemma keyed_cong:
  assumes "tm_stHash t' = tm_stHash t" "\<And>b. key_of t' b = key_of t b"
  shows "keyed t' = keyed t"
  using assms by (simp add: keyed_def candidates_def)

text \<open>The state after \<open>InternalAddTimer\<close> and the counting.\<close>

definition entered :: "nat \<Rightarrow> ('h, 's) MtReportTimer \<Rightarrow> ('h, 's) MtReportTimer \<Rightarrow> bool" where
  "entered a t t' \<longleftrightarrow> tm_nodes t' = (tm_nodes t)(a := (tm_nodes t a)\<lparr>tn_dwProcessId := tm_dwProcessId t\<rparr>) \<and>
     tm_uiCheckTime t' = tm_uiCheckTime t \<and> tm_dwProcessId t' = tm_dwProcessId t \<and> tm_qwCurTime t' = tm_qwCurTime t \<and>
     tm_qwBaseTime t' = tm_qwBaseTime t \<and> tm_stHash t' = tm_stHash t \<and> tm_socks t' = tm_socks t"

lemma InternalAddTimer_enters:
  assumes t: "timers T D t W" and a: "a \<notin> nodes_of heads W" and few: "card (nodes_of heads W) < 10000"
    and n: "node_live T t a" "check_tick t \<le> tick_of t a" "tick_of t a < 2 ^ 31"
  shows "\<exists>t1 W'. InternalAddTimer a t = Some t1 \<and> timers T D (count_timer t1) W' \<and> nodes_of heads W' = insert a (nodes_of heads W) \<and>
    entered a t (count_timer t1)"
proof -
  note w = timersD [OF t] and k = wheel_okD [OF timersD(1) [OF t]] and tv = timer_vec_placed [OF n(2,3)]
  let ?h = "timer_vec (tn_uiExpire (tm_nodes t a)) t" and ?W = "W(timer_vec (tn_uiExpire (tm_nodes t a)) t := W (timer_vec (tn_uiExpire (tm_nodes t a)) t) @ [a])"
  obtain nx pv where add: "InternalAddTimer a t = Some ((upd_timer a (\<lambda>n. n\<lparr>tn_dwProcessId := tm_dwProcessId t\<rparr>) t)\<lparr>tm_next := nx, tm_prev := pv\<rparr>)"
    "wheel_rep heads nx pv ?W"
    using InternalAddTimer_appends [OF k(1) tv(1) a] by blast
  define t1 where "t1 = (upd_timer a (\<lambda>n. n\<lparr>tn_dwProcessId := tm_dwProcessId t\<rparr>) t)\<lparr>tm_next := nx, tm_prev := pv\<rparr>"
  let ?t = "count_timer t1"
  have nodes: "nodes_of heads ?W = insert a (nodes_of heads W)" using nodes_of_append [OF tv(1)] .
  have en: "entered a t ?t" by (simp add: entered_def count_timer_def t1_def upd_timer_def Let_def)
  have sel: "tm_index ?t = tm_index t" "tm_next ?t = nx" "tm_prev ?t = pv" "tm_uiCount ?t = tm_uiCount t + 1" "tm_cIsInit ?t = tm_cIsInit t" "tm_uiCheckInvlUs ?t = tm_uiCheckInvlUs t"
    by (simp_all add: count_timer_def t1_def upd_timer_def Let_def)
  have "node_placed D ?t h b" if "h \<in> heads" "b \<in> set (?W h)" for h b
  proof (cases "b = a")
    case True
    have "h = ?h" using that a True by (auto simp: nodes_of_def split: if_splits)
    then show ?thesis using tv(2) n(2,3) en True by (simp add: node_placed_def entered_def)
  next
    case False
    then have "b \<in> set (W h)" using that(2) by (auto split: if_splits)
    then show ?thesis using k(2) [OF that(1)] en False by (simp add: node_placed_def entered_def)
  qed
  moreover have "unat (tm_uiCount ?t) = card (nodes_of heads ?W)"
    using k(5) few a unat_add_lem [of "tm_uiCount t" "1 :: u32"] unfolding nodes sel by simp
  ultimately have "wheel_ok D ?t ?W"
    using add(2) k(3,4) few a en nodes unfolding wheel_ok_def holds_def sel by (auto simp: entered_def)
  moreover have "keyed ?t" using w(2) en by (subst keyed_cong [of _ t]) (auto simp: entered_def)
  moreover have "clock_ok T ?t" using w(3) en sel by (simp add: clock_ok_def entered_def)
  moreover have "node_live T ?t b" if "b \<in> nodes_of heads ?W" for b
  proof -
    have "node_live T t b" using that w(4) n(1) unfolding nodes by auto
    then show ?thesis using en by (cases "b = a") (simp_all add: node_live_def entered_def)
  qed
  ultimately have "timers T D ?t ?W" by (simp add: timers_def)
  then show ?thesis using add(1) nodes en unfolding t1_def by blast
qed

subsection \<open>Adding and re-arming\<close>

text \<open>What every operation leaves alone; the clock may go on.\<close>

definition stays :: "(ListRef \<Rightarrow> nat list) \<Rightarrow> ('h, 's) MtReportTimer \<Rightarrow> ('h, 's) MtReportTimer \<Rightarrow> bool" where
  "stays W t t' \<longleftrightarrow> (\<forall>b\<in>nodes_of heads W. tm_nodes t' b = tm_nodes t b) \<and> tm_uiCheckTime t' = tm_uiCheckTime t \<and>
     tm_dwProcessId t' = tm_dwProcessId t \<and> tm_qwBaseTime t' = tm_qwBaseTime t \<and> tm_stHash t' = tm_stHash t \<and> now_of t \<le> now_of t'"

lemma stays_refl: "stays W t t"
  by (simp add: stays_def)

lemma stays_trans: "stays W t t' \<Longrightarrow> stays W t' t'' \<Longrightarrow> stays W t t''"
  by (simp add: stays_def)

lemma stays_less: "stays W t t' \<Longrightarrow> nodes_of heads V \<subseteq> nodes_of heads W \<Longrightarrow> stays V t t'"
  by (auto simp: stays_def)

lemma stays_scrubbed:
  assumes "timers T D t W" "scrubbed t t'"
  shows "stays W t t'"
  using timers_scrubbed(2) [OF assms] assms(2) by (auto simp: stays_def scrubbed_def)

lemma clock_SetCurTime:
  assumes "clock_ok T t" "now_of t \<le> unat now" "unat now \<le> T"
  shows "clock_ok T (SetCurTime now t)"
proof -
  note k = clock_okD [OF assms(1)]
  have "(now_of t - base_of t) div 100000 \<le> (unat now - base_of t) div 100000" using assms(2) by (intro div_le_mono) simp
  then have "check_tick t \<le> (unat now - base_of t) div 100000 + 1" using k(8) by linarith
  then show ?thesis using k assms(2,3) by (simp add: clock_ok_def SetCurTime_def)
qed

lemma timers_at:
  assumes t: "timers T D t W" and a: "a \<notin> nodes_of heads W" and k: "keyed (upd_timer a f t)"
  shows "timers T D (upd_timer a f t) W" "stays W t (upd_timer a f t)"
  using timersD(3) [OF t] a k
  by (auto intro!: timers_frame [OF t] simp: upd_timer_def clock_ok_def stays_def)

lemma timers_SetCurTime:
  assumes t: "timers T D t W" and now: "now_of t \<le> unat now" "unat now \<le> T"
  shows "timers T D (SetCurTime now t) W" "stays W t (SetCurTime now t)"
proof -
  have "keyed (SetCurTime now t)" using timersD(2) [OF t] by (subst keyed_cong [of _ t]) (simp_all add: SetCurTime_def)
  then show "timers T D (SetCurTime now t) W"
    using clock_SetCurTime [OF timersD(3) [OF t] now] by (intro timers_frame [OF t]) (simp_all add: SetCurTime_def)
  show "stays W t (SetCurTime now t)" using now(1) by (simp add: stays_def SetCurTime_def)
qed

lemma arm_node:
  assumes t: "timers T D t W" and a: "a \<notin> nodes_of heads W" and few: "card (nodes_of heads W) < 10000"
    and tmo: "1000 \<le> unat tmo" "unat tmo \<le> 4294967"
    and u: "u = upd_timer a g (set_expire a tmo t)" "\<And>n. tn_uiExpire (g n) = tn_uiExpire n" "\<And>n. tn_qwExpireTime (g n) = tn_qwExpireTime n"
    and n: "key_of u a \<noteq> 0" "data_ok (tm_nodes u a)" "keyed u" "unat (tn_uiTimeOut (tm_nodes u a)) \<le> 4294967"
  shows "\<exists>v W'. InternalAddTimer a u = Some v \<and> timers T D (count_timer v) W' \<and> nodes_of heads W' = insert a (nodes_of heads W) \<and>
    stays W t (count_timer v) \<and> (now_of t - base_of t) div 100000 + 10 \<le> tick_of (count_timer v) a \<and> due_of (count_timer v) a = now_of t + 1000 * unat tmo \<and>
    tm_nodes (count_timer v) a = (tm_nodes u a)\<lparr>tn_dwProcessId := tm_dwProcessId t\<rparr> \<and> tm_qwCurTime (count_timer v) = tm_qwCurTime t"
proof -
  note k = clock_okD [OF timersD(3) [OF t]] and e = set_expire_node [OF timersD(3) [OF t] tmo, of a]
  obtain h where u': "u = upd_timer a h t" unfolding u(1) set_expire_def upd_timer_def by auto
  note tu = timers_at [OF t a n(3) [unfolded u'], folded u']
  have sel: "due_of u a = now_of t + 1000 * unat tmo" "tick_of u a = tick_of (set_expire a tmo t) a"
    using e(1) u(2,3) unfolding u(1) by (simp_all add: upd_timer_def)
  have same: "check_tick u = check_tick t" "base_of u = base_of t" "tm_qwCurTime u = tm_qwCurTime t" "tm_dwProcessId u = tm_dwProcessId t"
    by (simp_all add: u' upd_timer_def)
  have "node_live T u a"
    unfolding node_live_def sel same e(2) using n(1,2,4) k(3,5) by simp
  moreover have "check_tick u \<le> tick_of u a" "tick_of u a < 2 ^ 31" unfolding sel same using e(3,4) k(8) by linarith+
  ultimately obtain v W' where v: "InternalAddTimer a u = Some v" "timers T D (count_timer v) W'" "nodes_of heads W' = insert a (nodes_of heads W)" "entered a u (count_timer v)"
    using InternalAddTimer_enters [OF tu(1) a few] by blast
  have "stays W u (count_timer v)" using v(4) a by (auto simp: stays_def entered_def)
  then show ?thesis using v e(3) sel stays_trans [OF tu(2)] same unfolding entered_def by (intro exI [of _ v] exI [of _ W']) simp
qed

text \<open>A node was put into the wheel, to expire at least ten ticks after the time of the call.\<close>

definition armed :: "nat \<Rightarrow> nat set \<Rightarrow> nat \<Rightarrow> ('h, 's) MtReportTimer \<Rightarrow> (ListRef \<Rightarrow> nat list) \<Rightarrow> ('h, 's) MtReportTimer \<Rightarrow> (ListRef \<Rightarrow> nat list) \<Rightarrow> bool" where
  "armed T D a t W t' W' \<longleftrightarrow> timers T D t' W' \<and> nodes_of heads W' = insert a (nodes_of heads W) \<and> stays W t t' \<and>
     (now_of t' - base_of t') div 100000 + 10 \<le> tick_of t' a"

lemma UpdateTimer_keeps:
  fixes t :: "('h, 's) MtReportTimer"
  assumes t: "timers T D t W" and a: "a \<notin> nodes_of heads W" "key_of t a \<noteq> 0" and few: "card (nodes_of heads W) < 10000"
    and now: "now_of t \<le> unat now" "unat now \<le> T" and tmo: "unat (tn_uiTimeOut (tm_nodes t a)) \<le> 4294967"
    and d: "length sData = unat (tn_uiDataLen (tm_nodes t a))" "length sData \<le> TIMER_DATA_MAX_LENGTH"
  shows "\<exists>t'. if sData \<noteq> [] \<and> \<not> malloc_ok then UpdateTimer malloc_ok now a sData t = Some (-1011, t') \<and> timers T D t' W \<and> stays W t t'
    else UpdateTimer malloc_ok now a sData t = Some (0, t') \<and> (\<exists>W'. armed T D a t W t' W') \<and> key_of t' a = key_of t a \<and> unat now = now_of t' \<and>
      due_of t' a = unat now + 1000 * max 1000 (unat (tn_uiTimeOut (tm_nodes t a)))"
proof (cases "sData \<noteq> [] \<and> \<not> malloc_ok")
  case True
  let ?t = "upd_timer a (\<lambda>n. n\<lparr>tn_pDataPtr := None\<rparr>) t"
  have "keyed ?t" using timersD(2) [OF t] by (subst keyed_cong [of _ t]) (simp_all add: upd_timer_def)
  then show ?thesis using True timers_at [OF t a(1), of "\<lambda>n. n\<lparr>tn_pDataPtr := None\<rparr>"] clock_okD(1) [OF timersD(3) [OF t]]
    by (intro exI [of _ ?t]) (simp add: UpdateTimer_def)
next
  case False
  define g where "g = (\<lambda>n :: ('h, 's) TimerNode. n\<lparr>tn_pDataPtr := (if sData \<noteq> [] then Some sData else None), tn_uiTimeOut := (if tn_uiTimeOut n < 1000 then 1000 else tn_uiTimeOut n)\<rparr>)"
  define t1 where "t1 = upd_timer a g t"
  define t2 where "t2 = SetCurTime now t1"
  define m where "m = tn_uiTimeOut (tm_nodes t2 a)"
  have "keyed t1" using timersD(2) [OF t] by (subst keyed_cong [of _ t]) (simp_all add: upd_timer_def t1_def g_def)
  note 1 = timers_at [OF t a(1) this [unfolded t1_def], folded t1_def]
  have now1: "now_of t1 = now_of t" by (simp add: t1_def upd_timer_def)
  note 2 = timers_SetCurTime [OF 1(1) now [folded now1], folded t2_def]
  have n2: "tm_nodes t2 a = g (tm_nodes t a)" "now_of t2 = unat now" by (simp_all add: t2_def t1_def SetCurTime_def upd_timer_def)
  have m: "unat m = max 1000 (unat (tn_uiTimeOut (tm_nodes t a)))" by (simp add: m_def n2 g_def word_less_nat_alt)
  have u: "set_expire a m t2 = upd_timer a (\<lambda>n. n) (set_expire a m t2)" by simp
  have tm: "tn_uiTimeOut (tm_nodes (set_expire a m t2) a) = m" by (simp add: set_expire_def upd_timer_def m_def)
  have keys: "key_of (set_expire a m t2) b = key_of t b" for b by (simp add: set_expire_def t2_def t1_def upd_timer_def SetCurTime_def g_def)
  have "keyed (set_expire a m t2)" using timersD(2) [OF t] keys
    by (subst keyed_cong [of _ t]) (simp_all add: set_expire_def t2_def t1_def upd_timer_def SetCurTime_def)
  moreover have "data_ok (tm_nodes (set_expire a m t2) a)" using d by (auto simp: set_expire_def upd_timer_def n2 g_def data_ok_def unat_eq_zero)
  ultimately obtain v W' where v: "InternalAddTimer a (set_expire a m t2) = Some v" "timers T D (count_timer v) W'" "nodes_of heads W' = insert a (nodes_of heads W)"
    "stays W t2 (count_timer v)" "(now_of t2 - base_of t2) div 100000 + 10 \<le> tick_of (count_timer v) a" "due_of (count_timer v) a = now_of t2 + 1000 * unat m"
    "tm_nodes (count_timer v) a = (tm_nodes (set_expire a m t2) a)\<lparr>tn_dwProcessId := tm_dwProcessId t2\<rparr>" "tm_qwCurTime (count_timer v) = tm_qwCurTime t2"
    using arm_node [OF 2(1) a(1) few _ _ u] keys a(2) m tmo tm by auto
  have "UpdateTimer malloc_ok now a sData t = Some (0, count_timer v)"
    using False clock_okD(1) [OF timersD(3) [OF t]] v(1) unfolding UpdateTimer_def Let_def g_def [symmetric] t1_def [symmetric] t2_def [symmetric] m_def [symmetric] by auto
  moreover have "armed T D a t W (count_timer v) W'"
    unfolding armed_def using v stays_trans [OF stays_trans [OF 1(2) 2(2)] v(4)] by (simp add: stays_def)
  moreover have "key_of (count_timer v) a = key_of t a" using v(7) keys by simp
  ultimately show ?thesis using False v(6,8) n2(2) m by auto
qed

text \<open>What a successful call of \<open>AddTimer\<close> has put into its node.\<close>

definition holds_request :: "u32 \<Rightarrow> 'h option \<Rightarrow> u8 list \<Rightarrow> nat \<Rightarrow> ('h, 's) TimerNode \<Rightarrow> bool" where
  "holds_request uiKey onExpire sData us n \<longleftrightarrow> tn_uiKey n = uiKey \<and> tn_OnExpire n = onExpire \<and>
     tn_pDataPtr n = (if sData = [] then None else Some sData) \<and> unat (tn_qwExpireTime n) = us"

lemma keyed_new:
  assumes k: "keyed t" and u: "tm_stHash u = tm_stHash t" "\<And>b. b \<noteq> a \<Longrightarrow> key_of u b = key_of t b" "key_of u a = key"
    and new: "\<And>b. key_of t b \<noteq> key" "a \<in> set (candidates t key)"
  shows "keyed u"
proof -
  note kd = keyedD [OF k]
  have c: "candidates u = candidates t" by (rule ext) (simp add: candidates_def u(1))
  have "b \<in> set (candidates u (key_of u b))" if "key_of u b \<noteq> 0" for b
    using that u(2,3) new(2) kd(3) [of b] unfolding c by (cases "b = a") auto
  moreover have "b' = b" if "key_of u b \<noteq> 0" "key_of u b' = key_of u b" for b b'
    using that u(2,3) new(1) kd(4) [of b b'] by (cases "b = a"; cases "b' = a") auto
  ultimately show ?thesis using kd(1,2) unfolding keyed_def u(1) by blast
qed

lemma AddTimer_keeps:
  fixes t :: "('h, 's) MtReportTimer"
  assumes t: "timers T D t W" and few: "card (nodes_of heads W) < 10000" and now: "now_of t \<le> unat now" "unat now \<le> T"
    and key: "uiKey \<noteq> 0" and tmo: "unat uiTimeOut \<le> 4294967" and d: "length sData \<le> TIMER_DATA_MAX_LENGTH"
  shows "\<exists>rc t'. AddTimer malloc_ok now uiKey uiTimeOut onExpire pSess len sData t = Some (rc, t') \<and> rc \<in> {0, -2, -4, -5, -1011} \<and>
    (rc \<noteq> 0 \<longrightarrow> timers T D t' W \<and> stays W t t') \<and>
    (rc = 0 \<longrightarrow> (\<exists>a W'. a \<notin> nodes_of heads W \<and> armed T D a t W t' W' \<and>
       holds_request uiKey onExpire sData (unat now + 1000 * max 1000 (unat uiTimeOut)) (tm_nodes t' a)))"
proof -
  have ini: "tm_cIsInit t \<noteq> 0" using clock_okD(1) [OF timersD(3) [OF t]] .
  obtain r f t0 where s: "timer_search_ex uiKey t = Some (r, f, t0)" "scrubbed t t0"
    "\<not> f \<longrightarrow> (\<forall>b. key_of t0 b \<noteq> uiKey) \<and> (\<forall>a. r = Some a \<longrightarrow> key_of t0 a = 0 \<and> a \<in> set (candidates t uiKey))"
    using timer_search_ex_result [OF timersD(2) [OF t] key] by blast
  note 0 = timers_scrubbed(1) [OF t s(2)] stays_scrubbed [OF t s(2)]
  consider "TIMER_NODE_SESS_DATA_LEN < len" | "\<not> TIMER_NODE_SESS_DATA_LEN < len" "f \<or> r = None"
    | a where "\<not> TIMER_NODE_SESS_DATA_LEN < len" "\<not> f" "r = Some a" by blast
  then show ?thesis
  proof cases
    case 1
    then show ?thesis using ini t stays_refl by (auto simp: AddTimer_def)
  next
    case 2
    then show ?thesis using ini s(1) 0 by (cases f) (auto simp: AddTimer_def)
  next
    case (3 a)
    note run = AddTimer_def [of malloc_ok now uiKey uiTimeOut onExpire pSess len sData t]
    have fr: "key_of t0 a = 0" "a \<in> set (candidates t0 uiKey)" "\<And>b. key_of t0 b \<noteq> uiKey"
      using s(3) 3 scrubbed_key(3) [OF s(2)] by auto
    have a: "a \<notin> nodes_of heads W" using timersD(4) [OF 0(1), of a] fr(1) by (auto simp: node_live_def)
    show ?thesis
    proof (cases "sData \<noteq> [] \<and> \<not> malloc_ok")
      case True
      let ?g = "\<lambda>n. n\<lparr>tn_pDataPtr := None\<rparr>"
      have "keyed (upd_timer a ?g t0)" using timersD(2) [OF 0(1)] by (subst keyed_cong [of _ t0]) (simp_all add: upd_timer_def)
      note timers_at [OF 0(1) a this]
      moreover have "AddTimer malloc_ok now uiKey uiTimeOut onExpire pSess len sData t = Some (-1011, upd_timer a ?g t0)"
        using True 3 ini s(1) unfolding run by simp
      ultimately show ?thesis using stays_trans [OF 0(2)] by auto
    next
      case False
      define m where "m = (if uiTimeOut < 1000 then 1000 else uiTimeOut)"
      define t1 where "t1 = upd_timer a (\<lambda>n. n\<lparr>tn_pDataPtr := (if sData \<noteq> [] then Some sData else None)\<rparr>) t0"
      define t2 where "t2 = SetCurTime now t1"
      define g where "g = (\<lambda>n :: ('h, 's) TimerNode. n\<lparr>tn_OnExpire := onExpire, tn_uiDataLen := of_nat (length sData), tn_uiTimeOut := m, tn_uiKey := uiKey,
                      tn_sSessData := Some pSess, tn_iSessDataLen := len\<rparr>)"
      define u where "u = upd_timer a g (set_expire a m t2)"
      have m: "unat m = max 1000 (unat uiTimeOut)" by (simp add: m_def word_less_nat_alt)
      have "keyed t1" using timersD(2) [OF 0(1)] by (subst keyed_cong [of _ t0]) (simp_all add: upd_timer_def t1_def)
      note 1 = timers_at [OF 0(1) a this [unfolded t1_def], folded t1_def]
      have now1: "now_of t1 = now_of t" using s(2) by (auto simp: t1_def upd_timer_def scrubbed_def)
      note 2 = timers_SetCurTime [OF 1(1) now [folded now1], folded t2_def]
      have n2: "tn_pDataPtr (tm_nodes u a) = (if sData = [] then None else Some sData)" "now_of t2 = unat now"
        by (simp_all add: u_def g_def t2_def t1_def set_expire_def SetCurTime_def upd_timer_def)
      have tm: "tn_uiTimeOut (tm_nodes u a) = m" by (simp add: u_def g_def upd_timer_def)
      have ga: "key_of u a = uiKey" "tn_OnExpire (tm_nodes u a) = onExpire" "tn_uiDataLen (tm_nodes u a) = of_nat (length sData)"
        by (simp_all add: u_def g_def upd_timer_def)
      have "unat (of_nat (length sData) :: u32) = length sData" using d by (intro unat_of_nat_small) (simp add: TIMER_DATA_MAX_LENGTH_def)
      then have "data_ok (tm_nodes u a)" using d by (auto simp: data_ok_def n2 ga)
      moreover have "keyed u"
        by (rule keyed_new [OF timersD(2) [OF 0(1)] _ _ ga(1) fr(3,2)])
          (simp_all add: u_def g_def t2_def t1_def set_expire_def SetCurTime_def upd_timer_def)
      ultimately obtain v W' where v: "InternalAddTimer a u = Some v" "timers T D (count_timer v) W'" "nodes_of heads W' = insert a (nodes_of heads W)"
        "stays W t2 (count_timer v)" "(now_of t2 - base_of t2) div 100000 + 10 \<le> tick_of (count_timer v) a" "due_of (count_timer v) a = now_of t2 + 1000 * unat m"
        "tm_nodes (count_timer v) a = (tm_nodes u a)\<lparr>tn_dwProcessId := tm_dwProcessId t2\<rparr>" "tm_qwCurTime (count_timer v) = tm_qwCurTime t2"
        using arm_node [OF 2(1) a few, of m u g] u_def ga(1) key m tmo tm by (auto simp: g_def)
      have "AddTimer malloc_ok now uiKey uiTimeOut onExpire pSess len sData t = Some (0, count_timer v)"
        using False 3 ini s(1) v(1) unfolding run Let_def u_def g_def t2_def t1_def m_def by simp
      moreover have "armed T D a t W (count_timer v) W'"
        unfolding armed_def using v stays_trans [OF stays_trans [OF stays_trans [OF 0(2) 1(2)] 2(2)] v(4)] by (simp add: stays_def)
      moreover have "holds_request uiKey onExpire sData (unat now + 1000 * max 1000 (unat uiTimeOut)) (tm_nodes (count_timer v) a)"
        using v(6,7) n2 ga m by (simp add: holds_request_def)
      ultimately show ?thesis using a by auto
    qed
  qed
qed

subsection \<open>Taking a node out\<close>

lemma LIST_DEL_takes:
  assumes t: "timers T D t W" and a: "a \<in> nodes_of heads W"
  shows "\<exists>nx pv W'. LIST_DEL (Nd a) t = Some (t\<lparr>tm_next := nx, tm_prev := pv\<rparr>) \<and>
    timers T D (t\<lparr>tm_next := nx, tm_prev := pv, tm_uiCount := tm_uiCount t - 1\<rparr>) W' \<and> nodes_of heads W' = nodes_of heads W - {a}"
proof -
  note k = wheel_okD [OF timersD(1) [OF t]]
  obtain h where h: "h \<in> heads" "a \<in> set (W h)" using a by (auto simp: nodes_of_def)
  then obtain us vs where w: "W h = us @ a # vs" by (meson split_list)
  let ?W = "W(h := us @ vs)"
  obtain nx pv where l: "LIST_DEL (Nd a) t = Some (t\<lparr>tm_next := nx, tm_prev := pv\<rparr>)" "holds heads (t\<lparr>tm_next := nx, tm_prev := pv\<rparr>) ?W"
    using LIST_DEL_member [OF k(1) h(1) w] by blast
  let ?t = "t\<lparr>tm_next := nx, tm_prev := pv, tm_uiCount := tm_uiCount t - 1\<rparr>"
  have sub: "set (?W g) \<subseteq> set (W g)" for g using w by auto
  have rep: "wheel_rep heads (tm_next t) (tm_prev t) W" using k(1) by (simp add: holds_def)
  have "a \<notin> set (?W g)" if "g \<in> heads" for g
    using wheel_repD(2) [OF rep h(1)] rep h that w by (cases "g = h") (auto simp: wheel_rep_def)
  then have an: "a \<notin> nodes_of heads ?W" unfolding nodes_of_def by blast
  have nodes: "nodes_of heads ?W = nodes_of heads W - {a}"
    using an unfolding nodes_of_upd [OF h(1)] nodes_of_split [OF h(1), of W] w by auto
  have "card (nodes_of heads W) = Suc (card (nodes_of heads ?W))" unfolding nodes using a card.remove [of "nodes_of heads W" a] by simp
  moreover from this have "tm_uiCount t \<noteq> 0" using k(5) by auto
  ultimately have cnt: "unat (tm_uiCount t - 1) = card (nodes_of heads ?W)" "card (nodes_of heads ?W) \<le> 10000"
    using k(5,6) unat_minus_one [of "tm_uiCount t"] by simp_all
  have "node_placed D ?t g b" if "g \<in> heads" "b \<in> set (?W g)" for g b
    using k(2) [OF that(1)] that(2) sub by (auto simp: node_placed_def)
  then have "wheel_ok D ?t ?W" using l(2) k(3,4) cnt unfolding wheel_ok_def holds_def by simp
  moreover have "keyed ?t" using timersD(2) [OF t] by (subst keyed_cong [of _ t]) simp_all
  moreover have "clock_ok T ?t" "\<And>b. node_live T ?t b = node_live T t b" using timersD(3) [OF t] by (simp_all add: clock_ok_def node_live_def)
  ultimately have "timers T D ?t ?W" using timersD(4) [OF t] nodes by (simp add: timers_def)
  then show ?thesis using l(1) nodes by blast
qed

text \<open>The data of a node is handed out once.\<close>

definition data_of :: "('h, 's) TimerNode \<Rightarrow> u8 list" where
  "data_of n = (case tn_pDataPtr n of None \<Rightarrow> [] | Some d \<Rightarrow> d)"

lemma timer_data_of:
  assumes "data_ok n" "TIMER_DATA_MAX_LENGTH \<le> room"
  shows "timer_data room n = Some (data_of n)" "length (data_of n) = unat (tn_uiDataLen n)" "length (data_of n) \<le> TIMER_DATA_MAX_LENGTH"
  using assms by (auto simp: timer_data_def data_of_def data_ok_def split: option.splits)

lemma scrubbed_live:
  assumes "scrubbed t t'" "\<not> stale t a"
  shows "tm_nodes t' a = tm_nodes t a"
  using assms by (auto simp: scrubbed_def)

lemma keyed_data: "keyed t \<Longrightarrow> keyed (upd_timer a (\<lambda>n. n\<lparr>tn_pDataPtr := x\<rparr>) t)"
  by (subst keyed_cong [of _ t]) (simp_all add: upd_timer_def)

lemma GetTimer_takes:
  assumes t: "timers T D t W" and a: "a \<in> nodes_of heads W" and room: "TIMER_DATA_MAX_LENGTH \<le> room"
  shows "\<exists>t' W'. GetTimer room (key_of t a) t = Some (0, Some a, data_of (tm_nodes t a), t') \<and> timers T D t' W' \<and>
    nodes_of heads W' = nodes_of heads W - {a} \<and> stays W' t t'"
proof -
  note l = timersD(4) [OF t a, unfolded node_live_def] and st = live_not_stale [OF t a]
  obtain t1 where s: "timer_search (key_of t a) t = Some (Some a, t1)" "scrubbed t t1"
    using timer_search_finds [OF timersD(2) [OF t] _ st] l by blast
  note 1 = timers_scrubbed(1) [OF t s(2)] stays_scrubbed [OF t s(2)] scrubbed_live [OF s(2) st]
  obtain nx pv W' where d: "LIST_DEL (Nd a) t1 = Some (t1\<lparr>tm_next := nx, tm_prev := pv\<rparr>)"
    "timers T D (t1\<lparr>tm_next := nx, tm_prev := pv, tm_uiCount := tm_uiCount t1 - 1\<rparr>) W'" "nodes_of heads W' = nodes_of heads W - {a}"
    using LIST_DEL_takes [OF 1(1) a] by blast
  let ?t2 = "t1\<lparr>tm_next := nx, tm_prev := pv, tm_uiCount := tm_uiCount t1 - 1\<rparr>"
  let ?t3 = "upd_timer a (\<lambda>n. n\<lparr>tn_pDataPtr := None\<rparr>) ?t2"
  have 3: "timers T D ?t3 W'" "stays W' ?t2 ?t3" using timers_at [OF d(2) _ keyed_data [OF timersD(2) [OF d(2)]]] d(3) by auto
  have "stays W' t ?t2" using stays_less [OF 1(2), of W'] d(3) by (auto simp: stays_def)
  moreover have "GetTimer room (key_of t a) t = Some (0, Some a, data_of (tm_nodes t a), ?t3)"
    using s(1) d(1) clock_okD(1) [OF timersD(3) [OF t]] timer_data_of [of "tm_nodes t a", OF _ room] l 1(3)
    by (auto simp: GetTimer_def data_ok_def data_of_def split: option.splits)
  ultimately show ?thesis using 3 stays_trans d(3) by blast
qed

end
