(* ===== verification/Timer_Run.thy ===== *)
theory Timer_Run
  imports Timer_Ops
begin

text \<open>
  A run over the wheel. The functions called on expiry are an interface: the locale \<open>timer_handler\<close> says what a
  call may do with the timers. Under it a run with fewer than ten due timers calls the functions of exactly these, in the order
  of their ticks, and keeps the invariant.
\<close>

subsection \<open>Clearing a node\<close>

lemma memset_node_keeps:
  assumes t: "timers T D t W" and a: "a \<notin> nodes_of heads W"
  shows "timers T D (memset_node a t) W" "stays W t (memset_node a t)"
proof -
  let ?t = "memset_node a t"
  note k = wheel_okD [OF timersD(1) [OF t]]
  have rep: "wheel_rep heads (tm_next t) (tm_prev t) W" using k(1) by (simp add: holds_def)
  have "joined (tm_next ?t) (tm_prev ?t) (circle h (W h))" if "h \<in> heads" for h
  proof -
    have "Nd a \<notin> insert h (Nd ` set (W h))" using a that by (auto simp: nodes_of_def)
    then show ?thesis using circle_other wheel_repD(1) [OF rep that] by (simp add: memset_node_def)
  qed
  then have "holds heads ?t W" using rep unfolding holds_def wheel_rep_def by simp
  moreover have "node_placed D ?t h b" if "h \<in> heads" "b \<in> set (W h)" for h b
  proof -
    have "b \<noteq> a" using a that by (auto simp: nodes_of_def)
    then show ?thesis using k(2) [OF that] by (simp add: node_placed_def memset_node_def)
  qed
  ultimately have "wheel_ok D ?t W" using k(3-6) unfolding wheel_ok_def by (simp add: memset_node_def)
  moreover have "keyed ?t"
  proof -
    note kd = keyedD [OF timersD(2) [OF t]]
    have c: "candidates ?t = candidates t" by (rule ext) (simp add: candidates_def memset_node_def)
    have key: "key_of ?t b = (if b = a then 0 else key_of t b)" for b by (simp add: memset_node_def zero_node_def)
    have "tm_stHash ?t = tm_stHash t" by (simp add: memset_node_def)
    then show ?thesis using kd unfolding keyed_def c key by (auto split: if_splits)
  qed
  moreover have "clock_ok T ?t" using timersD(3) [OF t] by (simp add: clock_ok_def memset_node_def)
  moreover have "node_live T ?t b" if "b \<in> nodes_of heads W" for b
  proof -
    have "b \<noteq> a" using a that by auto
    then show ?thesis using timersD(4) [OF t that] by (simp add: node_live_def memset_node_def)
  qed
  ultimately show "timers T D ?t W" by (simp add: timers_def)
  show "stays W t ?t" using a by (auto simp: stays_def memset_node_def)
qed

subsection \<open>The functions called on expiry\<close>

text \<open>A node that was taken out of the wheel, with the data it had.\<close>

definition expired_node :: "('h, 's) MtReportTimer \<Rightarrow> nat \<Rightarrow> u8 list \<Rightarrow> bool" where
  "expired_node t a d \<longleftrightarrow> key_of t a \<noteq> 0 \<and> length d = unat (tn_uiDataLen (tm_nodes t a)) \<and> length d \<le> TIMER_DATA_MAX_LENGTH \<and>
     unat (tn_uiTimeOut (tm_nodes t a)) \<le> 4294967"

definition now_tick :: "('h, 's) MtReportTimer \<Rightarrow> nat" where
  "now_tick t = (now_of t - base_of t) div 100000"

text \<open>A node whose tick has come is not early by more than the length of a tick.\<close>

lemma not_early:
  assumes c: "clock_ok T t" and l: "node_live T t a" and tick: "tick_of t a \<le> (now_of t - base_of t) div 100000"
  shows "\<not> (tm_qwCurTime t < tn_qwExpireTime (tm_nodes t a) \<and> ucast (tm_uiCheckInvlUs t) < tn_qwExpireTime (tm_nodes t a) - tm_qwCurTime t)"
proof
  note k = clock_okD [OF c]
  assume e: "tm_qwCurTime t < tn_qwExpireTime (tm_nodes t a) \<and> ucast (tm_uiCheckInvlUs t) < tn_qwExpireTime (tm_nodes t a) - tm_qwCurTime t"
  then have "now_of t < due_of t a" by (simp add: word_less_nat_alt)
  moreover from this have "unat (tn_qwExpireTime (tm_nodes t a) - tm_qwCurTime t) = due_of t a - now_of t" by (intro unat_sub) (simp add: word_le_nat_alt)
  ultimately have "100000 < due_of t a - now_of t" using e k(2) by (simp add: word_less_nat_alt)
  then have "(now_of t - base_of t) + 1 * 100000 \<le> due_of t a - base_of t" using k(3) by simp
  then have "((now_of t - base_of t) + 1 * 100000) div 100000 \<le> (due_of t a - base_of t) div 100000" by (rule div_le_mono)
  moreover have "tick_of t a = (due_of t a - base_of t) div 100000" using l unfolding node_live_def by blast
  ultimately show False using tick unfolding div_mult_self1 [OF zero_neq_numeral [symmetric]] by linarith
qed

text \<open>
  A function may add timers, which then expire later than now, but takes none away; unless its result is 1 the node
  is free afterwards.
\<close>

locale timer_handler =
  fixes call :: "'h \<Rightarrow> nat \<Rightarrow> u8 list \<Rightarrow> ('h, 's) MtReportTimer \<Rightarrow> (int \<times> ('h, 's) MtReportTimer) option" and T :: nat
  assumes call_keeps: "\<And>D t W a d h. timers T D t W \<Longrightarrow> a \<notin> nodes_of heads W \<Longrightarrow> expired_node t a d \<Longrightarrow> card (nodes_of heads W) < 10000 \<Longrightarrow>
     \<exists>r t' W'. call h a d t = Some (r, t') \<and> timers T D t' W' \<and> stays W t t' \<and> nodes_of heads W \<subseteq> nodes_of heads W' \<and>
       (\<forall>b\<in>nodes_of heads W' - nodes_of heads W. now_tick t < tick_of t' b) \<and> (r \<noteq> 1 \<longrightarrow> a \<notin> nodes_of heads W')"
begin

text \<open>Handling the first node of the slot.\<close>

lemma run_slot_first:
  assumes t: "timers T {2..5} t W" and w: "W (Vec 1 (tm_index t 1)) = a # as" and due: "check_tick t \<le> now_tick t" and cnt: "cnt + 1 < 10"
  shows "\<exists>u V. run_slot call cnt fired t = run_slot call (cnt + 1) (fired @ [a]) u \<and> timers T {2..5} u V \<and> nodes_of heads W - {a} \<subseteq> nodes_of heads V \<and>
    (\<forall>b\<in>nodes_of heads V - (nodes_of heads W - {a}). now_tick t < tick_of u b) \<and> (\<forall>b\<in>nodes_of heads W - {a}. tm_nodes u b = tm_nodes t b) \<and>
    stays (\<lambda>_. []) t u"
proof -
  let ?h = "Vec 1 (tm_index t 1)"
  note k = wheel_okD [OF timersD(1) [OF t]] and ck = clock_okD [OF timersD(3) [OF t]]
  have h: "?h \<in> heads" using k(3) by (simp add: Vec_heads tv_size_def)
  have "a \<in> set (W ?h)" unfolding w by simp
  then have a: "a \<in> nodes_of heads W" unfolding nodes_of_def using h by blast
  have tick: "tick_of t a = check_tick t" using slot_due [OF timersD(1) [OF t]] w unfolding k(3) [symmetric] by auto
  note l = timersD(4) [OF t a, unfolded node_live_def] and st = live_not_stale [OF t a]
  have "joined (tm_next t) (tm_prev t) (circle ?h (a # as))" using wheel_repD(1) [OF k(1) [unfolded holds_def] h] w by simp
  then have nx: "tm_next t ?h = Nd a" by (simp add: circle_def)
  obtain nx pv W2 where d: "LIST_DEL (Nd a) t = Some (t\<lparr>tm_next := nx, tm_prev := pv\<rparr>)"
    "timers T {2..5} (t\<lparr>tm_next := nx, tm_prev := pv, tm_uiCount := tm_uiCount t - 1\<rparr>) W2" "nodes_of heads W2 = nodes_of heads W - {a}"
    using LIST_DEL_takes [OF t a] by blast
  define t2 where "t2 = t\<lparr>tm_next := nx, tm_prev := pv, tm_uiCount := tm_uiCount t - 1\<rparr>"
  note t2 = d(2) [folded t2_def]
  have s2: "stays W2 t t2" "tm_nodes t2 a = tm_nodes t a" "\<not> stale t2 a" using st by (simp_all add: stays_def t2_def stale_def)
  obtain t3 where s: "timer_search (key_of t2 a) t2 = Some (Some a, t3)" "scrubbed t2 t3"
    using timer_search_finds [OF timersD(2) [OF t2] _ s2(3)] l s2(2) by auto
  note 3 = timers_scrubbed(1) [OF t2 s(2)] stays_scrubbed [OF t2 s(2)] scrubbed_live [OF s(2) s2(3)]
  define t4 where "t4 = upd_timer a (\<lambda>n. n\<lparr>tn_pDataPtr := None\<rparr>) t3"
  have a2: "a \<notin> nodes_of heads W2" using d(3) by simp
  note 4 = timers_at [OF 3(1) a2 keyed_data [OF timersD(2) [OF 3(1)]], of None, folded t4_def]
  have s4: "stays W2 t t4" using stays_trans [OF stays_trans [OF s2(1) 3(2)] 4(2)] .
  note dat = timer_data_of [of "tm_nodes t a" TIMER_DATA_MAX_LENGTH]
  have get: "GetTimerData TIMER_DATA_MAX_LENGTH (tn_uiKey (tm_nodes t a)) t2 = Some (0, data_of (tm_nodes t a), t4)"
    using s(1) dat(1) l 3(3) s2(2) by (simp add: GetTimerData_def t4_def)
  have n4: "tm_nodes t4 a = (tm_nodes t a)\<lparr>tn_pDataPtr := None\<rparr>" using 3(3) s2(2) by (simp add: t4_def upd_timer_def)
  have ex: "expired_node t4 a (data_of (tm_nodes t a))" using l dat by (simp add: expired_node_def n4)
  have "card (nodes_of heads W2) < card (nodes_of heads W)" unfolding d(3) using a by (intro card_Diff1_less) auto
  then have few: "card (nodes_of heads W2) < 10000" using k(6) by simp
  have nt4: "now_tick t4 = now_tick t" using s(2) by (auto simp: now_tick_def t4_def upd_timer_def scrubbed_def t2_def)
  obtain r t5 W5 where c: "(case tn_OnExpire (tm_nodes t a) of None \<Rightarrow> Some (0, t4) | Some h \<Rightarrow> call h a (data_of (tm_nodes t a)) t4) = Some (r, t5)"
    "timers T {2..5} t5 W5" "stays W2 t4 t5" "nodes_of heads W2 \<subseteq> nodes_of heads W5" "\<forall>b\<in>nodes_of heads W5 - nodes_of heads W2. now_tick t < tick_of t5 b"
    "r \<noteq> 1 \<longrightarrow> a \<notin> nodes_of heads W5"
  proof (cases "tn_OnExpire (tm_nodes t a)")
    case None
    then show thesis using that [of 0 t4 W2] 4(1) stays_refl [of W2 t4] a2 by simp
  next
    case (Some h)
    then show thesis using call_keeps [OF 4(1) a2 ex few, of h] that unfolding nt4 by auto
  qed
  define u where "u = (if r \<noteq> 1 then memset_node a t5 else t5)"
  have u: "timers T {2..5} u W5" "stays W5 t5 u" using memset_node_keeps [OF c(2)] c(2,6) stays_refl [of W5 t5] by (auto simp: u_def)
  have su: "stays W2 t u" using stays_trans [OF stays_trans [OF s4 c(3)] stays_less [OF u(2) c(4)]] .
  have nf: "\<not> (tm_qwCurTime t < tn_qwExpireTime (tm_nodes t a) \<and> ucast (tm_uiCheckInvlUs t) < tn_qwExpireTime (tm_nodes t a) - tm_qwCurTime t)"
    using not_early [OF timersD(3) [OF t] timersD(4) [OF t a]] due tick by (simp add: now_tick_def)
  have run: "run_slot call cnt fired t = run_slot call (cnt + 1) (fired @ [a]) u"
    using nx d(1) nf get [unfolded t2_def] c(1) cnt
    by (subst run_slot.simps) (auto simp: Let_def u_def MAX_TIMER_NODE_PER_TRY_def)
  show ?thesis
    using run u(1) c(4,5) su u(2) unfolding d(3) [symmetric] by (intro exI [of _ u] exI [of _ W5]) (auto simp: stays_def nodes_of_def)
qed

end

text \<open>
  What a part of a run has done: the functions of the nodes \<open>xs\<close> were called, the other members are as they were, and what was
  added expires after the tick \<open>n\<close>.
\<close>

definition ran :: "nat \<Rightarrow> nat list \<Rightarrow> ('h, 's) MtReportTimer \<Rightarrow> (ListRef \<Rightarrow> nat list) \<Rightarrow> ('h, 's) MtReportTimer \<Rightarrow> (ListRef \<Rightarrow> nat list) \<Rightarrow> bool" where
  "ran n xs t W u V \<longleftrightarrow> distinct xs \<and> set xs \<subseteq> nodes_of heads W \<and> nodes_of heads W - set xs \<subseteq> nodes_of heads V \<and>
     (\<forall>b\<in>nodes_of heads V - (nodes_of heads W - set xs). n < tick_of u b) \<and> (\<forall>b\<in>nodes_of heads W - set xs. tm_nodes u b = tm_nodes t b) \<and>
     now_tick t \<le> now_tick u"

lemma timers_rearranged:
  assumes t: "timers T D t W" and r: "rearranged t t'" "wheel_ok D' t' W'" "nodes_of heads W' = nodes_of heads W"
  shows "timers T D' t' W'"
proof -
  note w = timersD [OF t]
  have "keyed t'" using w(2) r(1) by (subst keyed_cong [of _ t]) simp_all
  moreover have "clock_ok T t'" using w(3) r(1) by (simp add: clock_ok_def)
  moreover have "node_live T t' a = node_live T t a" for a using r(1) by (simp add: node_live_def)
  ultimately show ?thesis using r(2,3) w(4) by (simp add: timers_def)
qed

lemma ran_refl: "ran n [] t W t W"
  by (simp add: ran_def)

lemma ran_trans:
  assumes 1: "ran n xs t W u V" and 2: "ran n ys u V v U" and ys: "set ys \<subseteq> nodes_of heads W - set xs"
  shows "ran n (xs @ ys) t W v U"
proof -
  have "n < tick_of v b" if b: "b \<in> nodes_of heads U - (nodes_of heads W - set (xs @ ys))" for b
  proof (cases "b \<in> nodes_of heads V - set ys")
    case True
    then have "b \<in> nodes_of heads V - (nodes_of heads W - set xs)" "tm_nodes v b = tm_nodes u b" using b 2 by (auto simp: ran_def)
    then show ?thesis using 1 by (simp add: ran_def)
  next
    case False
    then show ?thesis using 2 b by (auto simp: ran_def)
  qed
  moreover have "tm_nodes v b = tm_nodes t b" "b \<in> nodes_of heads U" if b: "b \<in> nodes_of heads W - set (xs @ ys)" for b
  proof -
    have "b \<in> nodes_of heads V - set ys" "tm_nodes u b = tm_nodes t b" using b 1 by (auto simp: ran_def)
    then show "tm_nodes v b = tm_nodes t b" "b \<in> nodes_of heads U" using 2 by (auto simp: ran_def)
  qed
  ultimately show ?thesis using 1 2 ys unfolding ran_def by auto
qed

lemma ran_mono: "ran n xs t W u V \<Longrightarrow> m \<le> n \<Longrightarrow> ran m xs t W u V"
  unfolding ran_def by (auto intro: le_less_trans)

lemma stays_now:
  assumes "stays W t u"
  shows "now_tick t \<le> now_tick u" "check_tick u = check_tick t"
proof -
  have "(now_of t - base_of t) div 100000 \<le> (now_of u - base_of t) div 100000" using assms by (intro div_le_mono) (auto simp: stays_def)
  then show "now_tick t \<le> now_tick u" using assms by (simp add: now_tick_def stays_def)
  show "check_tick u = check_tick t" using assms by (auto simp: stays_def)
qed

definition due_now :: "('h, 's) MtReportTimer \<Rightarrow> (ListRef \<Rightarrow> nat list) \<Rightarrow> nat set" where
  "due_now t W = {a \<in> nodes_of heads W. tick_of t a = check_tick t}"

lemma ran_due_now:
  assumes r: "ran n [a] t W u V" and n: "check_tick t \<le> n" "check_tick u = check_tick t"
  shows "due_now u V = due_now t W - {a}"
proof (rule set_eqI)
  fix b
  show "b \<in> due_now u V \<longleftrightarrow> b \<in> due_now t W - {a}"
  proof (cases "b \<in> nodes_of heads W - {a}")
    case True
    then have "b \<in> nodes_of heads V" "tm_nodes u b = tm_nodes t b" using r by (auto simp: ran_def)
    then show ?thesis using True n(2) by (simp add: due_now_def)
  next
    case False
    then have "n < tick_of u b" if "b \<in> nodes_of heads V" using r that by (auto simp: ran_def)
    then show ?thesis using False n by (auto simp: due_now_def)
  qed
qed

lemma ran_due:
  assumes r: "ran n xs t W u V"
  shows "{a \<in> nodes_of heads V. tick_of u a \<le> n} = {a \<in> nodes_of heads W. tick_of t a \<le> n} - set xs"
proof (rule set_eqI)
  fix b
  show "b \<in> {a \<in> nodes_of heads V. tick_of u a \<le> n} \<longleftrightarrow> b \<in> {a \<in> nodes_of heads W. tick_of t a \<le> n} - set xs"
  proof (cases "b \<in> nodes_of heads W - set xs")
    case True
    then have "b \<in> nodes_of heads V" "tm_nodes u b = tm_nodes t b" using r by (auto simp: ran_def)
    then show ?thesis using True by simp
  next
    case False
    then have "n < tick_of u b" if "b \<in> nodes_of heads V" using r that by (auto simp: ran_def)
    then show ?thesis using False by auto
  qed
qed

lemma now_tick_small: "clock_ok T t \<Longrightarrow> now_tick t < 2 ^ 31"
proof -
  assume "clock_ok T t"
  note k = clock_okD [OF this]
  have "now_of t - base_of t < 2 ^ 31 * 100000" using k(4,7) by simp
  then show ?thesis by (simp add: now_tick_def div_less_iff_less_mult)
qed

lemma turn_wheel:
  assumes u: "timers T {2..5} u V" "V (Vec 1 (c mod 256)) = []" "check_tick u = c"
    and v: "v = u\<lparr>tm_uiCheckTime := tm_uiCheckTime u + 1, tm_index := (tm_index u)(1 := (tm_index u 1 + 1) mod 256)\<rparr>" and c: "c \<le> now_tick u"
  shows "check_tick v = c + 1" "timers T {} v V" "tm_nodes v = tm_nodes u" "now_tick v = now_tick u"
proof -
  note w = timersD [OF u(1)]
  have lt: "c + 1 < 2 ^ 32" using now_tick_small [OF w(3)] c by simp
  then show ct: "check_tick v = c + 1" using u(3) by (simp add: v unat_add_lem [THEN iffD1])
  show sel: "tm_nodes v = tm_nodes u" "now_tick v = now_tick u" by (simp_all add: v now_tick_def)
  have "wheel_ok {} v V" using next_tick [OF w(1)] u(2,3) lt by (simp add: v)
  moreover have "keyed v" using w(2) by (subst keyed_cong [of _ u]) (simp_all add: v)
  moreover have "clock_ok T v" using w(3) ct c unfolding clock_ok_def now_tick_def by (simp add: v)
  moreover have "node_live T v a = node_live T u a" for a by (simp add: node_live_def v)
  ultimately show "timers T {} v V" using w(4) by (simp add: timers_def)
qed

lemma sorted_map_same_value: "(\<And>b. b \<in> set xs \<Longrightarrow> f b = c) \<Longrightarrow> sorted (map f xs)"
  by (induction xs) auto

context timer_handler
begin

lemma run_slot_due:
  assumes "timers T {2..5} t W" "check_tick t \<le> n" "n \<le> now_tick t" "cnt + card (due_now t W) < 10"
  shows "\<exists>xs u V. run_slot call cnt fired t = Some (False, cnt + card (due_now t W), fired @ xs, u) \<and> set xs = due_now t W \<and> ran n xs t W u V \<and>
    timers T {2..5} u V \<and> V (Vec 1 (check_tick t mod 256)) = [] \<and> check_tick u = check_tick t"
  using assms
proof (induction "card (due_now t W)" arbitrary: t W cnt fired)
  case 0
  note k = wheel_okD [OF timersD(1) [OF 0(2)]]
  let ?h = "Vec 1 (tm_index t 1)"
  have fin: "finite (due_now t W)" by (simp add: due_now_def)
  then have e: "due_now t W = {}" using 0(1) by simp
  moreover have "set (W ?h) = due_now t W" unfolding k(3) due_now_def by (rule slot_due [OF timersD(1) [OF 0(2)]])
  ultimately have w: "W ?h = []" by simp
  have h: "?h \<in> heads" using k(3) by (simp add: Vec_heads tv_size_def)
  have "joined (tm_next t) (tm_prev t) (circle ?h [])" using wheel_repD(1) [OF k(1) [unfolded holds_def] h] w by simp
  then have "tm_next t ?h = ?h" by (simp add: circle_def)
  then have "run_slot call cnt fired t = Some (False, cnt, fired, t)" by (subst run_slot.simps) simp
  then show ?case using e w k(3) 0(2) ran_refl [of n t W] by auto
next
  case (Suc k)
  note w = wheel_okD [OF timersD(1) [OF Suc.prems(1)]]
  have sd: "set (W (Vec 1 (tm_index t 1))) = due_now t W" unfolding w(3) due_now_def by (rule slot_due [OF timersD(1) [OF Suc.prems(1)]])
  then obtain a as where a: "W (Vec 1 (tm_index t 1)) = a # as" using Suc.hyps(2) by (cases "W (Vec 1 (tm_index t 1))") auto
  then have ad: "a \<in> due_now t W" using sd by auto
  obtain u V where u: "run_slot call cnt fired t = run_slot call (cnt + 1) (fired @ [a]) u" "timers T {2..5} u V" "nodes_of heads W - {a} \<subseteq> nodes_of heads V"
    "\<forall>b\<in>nodes_of heads V - (nodes_of heads W - {a}). now_tick t < tick_of u b" "\<forall>b\<in>nodes_of heads W - {a}. tm_nodes u b = tm_nodes t b" "stays (\<lambda>_. []) t u"
    using run_slot_first [OF Suc.prems(1) a, of cnt fired] Suc.prems(2-4) Suc.hyps(2) by auto
  note st = stays_now [OF u(6)]
  have r: "ran (now_tick t) [a] t W u V" using u(3-5) st ad by (simp add: ran_def due_now_def)
  have du: "due_now u V = due_now t W - {a}" using ran_due_now [OF r _ st(2)] Suc.prems(2,3) by simp
  have fin: "finite (due_now t W)" by (simp add: due_now_def)
  have c: "card (due_now t W) = Suc (card (due_now u V))" using card.remove [OF fin ad] du by simp
  obtain xs v U where v: "run_slot call (cnt + 1) (fired @ [a]) u = Some (False, (cnt + 1) + card (due_now u V), (fired @ [a]) @ xs, v)" "set xs = due_now u V"
    "ran n xs u V v U" "timers T {2..5} v U" "U (Vec 1 (check_tick u mod 256)) = []" "check_tick v = check_tick u"
    using Suc.hyps(1) [of u V "cnt + 1" "fired @ [a]"] Suc.hyps(2) c u(2) Suc.prems(2-4) st by auto
  have "set xs \<subseteq> nodes_of heads W - set [a]" using v(2) du by (auto simp: due_now_def)
  then have "ran n ([a] @ xs) t W v U" using ran_trans [OF ran_mono [OF r Suc.prems(3)] v(3)] by blast
  moreover have "set ([a] @ xs) = due_now t W" using v(2) du ad by auto
  ultimately show ?case using u(1) v(1,4-6) c st(2) by (intro exI [of _ "[a] @ xs"] exI [of _ v] exI [of _ U]) simp
qed

text \<open>The members that are due by a tick.\<close>

lemma run_wheel_due:
  assumes "timers T {} t W" "unat cur \<le> now_tick t" "cnt + card {a \<in> nodes_of heads W. tick_of t a \<le> unat cur} < 10"
  shows "\<exists>xs u V. run_wheel call cur cnt fired t = Some (fired @ xs, u) \<and> set xs = {a \<in> nodes_of heads W. tick_of t a \<le> unat cur} \<and>
    sorted (map (tick_of t) xs) \<and> ran (unat cur) xs t W u V \<and> timers T {} u V \<and> (check_tick u = max (check_tick t) (unat cur + 1) \<or> nodes_of heads V = {})"
  using assms
proof (induction "unat cur + 1 - check_tick t" arbitrary: t W cnt fired rule: less_induct)
  case less
  let ?due = "\<lambda>t W. {a \<in> nodes_of heads W. tick_of t a \<le> unat cur}"
  note w = timersD [OF less.prems(1)] and k = wheel_okD [OF timersD(1) [OF less.prems(1)]]
  have zero: "tm_uiCount t = 0 \<longleftrightarrow> nodes_of heads W = {}" using k(5) by (simp add: unat_eq_zero [symmetric])
  show ?case
  proof (cases "tm_uiCheckTime t \<le> cur \<and> 0 < tm_uiCount t")
    case False
    then have past: "unat cur < check_tick t \<or> nodes_of heads W = {}" using zero by (auto simp: word_le_nat_alt word_gt_0 not_le)
    moreover have "\<not> tick_of t a \<le> unat cur" if "unat cur < check_tick t" "a \<in> nodes_of heads W" for a using w(5) [OF that(2)] that(1) by linarith
    ultimately have "?due t W = {}" by blast
    moreover have "check_tick t = max (check_tick t) (unat cur + 1) \<or> nodes_of heads W = {}" using past by linarith
    moreover have "run_wheel call cur cnt fired t = Some (fired, t)" using False by (subst run_wheel.simps) auto
    ultimately show ?thesis using ran_refl [of "unat cur" t W] less.prems(1) by (intro exI [of _ "[]"] exI [of _ t] exI [of _ W]) auto
  next
    case True
    then have c: "check_tick t \<le> unat cur" by (simp add: word_le_nat_alt)
    obtain t1 W1 where 1: "(if tm_index t 1 = 0 then cascade_all [2, 3, 4, 5] t else Some (0, t)) = Some (0, t1)" "rearranged t t1" "wheel_ok {2..5} t1 W1"
      "nodes_of heads W1 = nodes_of heads W"
      using cascade_phase [OF w(1)] by blast
    have t1: "timers T {2..5} t1 W1" using timers_rearranged [OF less.prems(1) 1(2-4)] .
    have eq: "due_now t1 W1 \<subseteq> ?due t W" "tick_of t1 = tick_of t" "check_tick t1 = check_tick t" "now_tick t1 = now_tick t"
      using 1(2,4) c by (auto simp: due_now_def now_tick_def)
    have fin: "finite (?due t W)" by simp
    have few: "cnt + card (due_now t1 W1) < 10" using card_mono [OF fin eq(1)] less.prems(3) by linarith
    obtain xs u V where r: "run_slot call cnt fired t1 = Some (False, cnt + card (due_now t1 W1), fired @ xs, u)" "set xs = due_now t1 W1" "ran (unat cur) xs t1 W1 u V"
      "timers T {2..5} u V" "V (Vec 1 (check_tick t1 mod 256)) = []" "check_tick u = check_tick t1"
      using run_slot_due [OF t1, of "unat cur" cnt fired] c less.prems(2) few eq by auto
    define v where "v = u\<lparr>tm_uiCheckTime := tm_uiCheckTime u + 1, tm_index := (tm_index u)(1 := (tm_index u 1 + 1) mod 256)\<rparr>"
    have v: "check_tick v = check_tick t + 1" "timers T {} v V" "ran (unat cur) xs t W v V"
      using turn_wheel [OF r(4-6) [unfolded eq(3)] v_def] r(3) 1(2,4) c less.prems(2) eq(4) by (auto simp: ran_def now_tick_def)
    have due: "?due v V = ?due t W - set xs" using ran_due [OF v(3)] .
    have cd: "card (?due t W) = card (due_now t1 W1) + card (?due v V)"
      unfolding due using eq(1) r(2) fin by (simp add: card_Diff_subset finite_subset card_mono)
    have smaller: "unat cur + 1 - check_tick v < unat cur + 1 - check_tick t" using v(1) c by linarith
    have now: "unat cur \<le> now_tick v" using v(3) less.prems(2) by (simp add: ran_def)
    have few': "(cnt + card (due_now t1 W1)) + card (?due v V) < 10" using less.prems(3) cd by linarith
    obtain ys z U where z: "run_wheel call cur (cnt + card (due_now t1 W1)) (fired @ xs) v = Some ((fired @ xs) @ ys, z)" "set ys = ?due v V"
      "sorted (map (tick_of v) ys)" "ran (unat cur) ys v V z U" "timers T {} z U" "check_tick z = max (check_tick v) (unat cur + 1) \<or> nodes_of heads U = {}"
      using less.hyps [OF smaller v(2) now few', of "fired @ xs"] by blast
    have "run_wheel call cur cnt fired t = Some (fired @ (xs @ ys), z)"
      using True 1(1) r(1) z(1) by (subst run_wheel.simps) (simp add: v_def)
    moreover have "set (xs @ ys) = ?due t W" using z(2) due r(2) eq(1) by auto
    moreover have "ran (unat cur) (xs @ ys) t W z U" using ran_trans [OF v(3) z(4)] z(2) due by auto
    moreover have "sorted (map (tick_of t) (xs @ ys))"
    proof -
      have same: "map (tick_of t) ys = map (tick_of v) ys" using v(3) z(2) unfolding due by (auto simp: ran_def)
      have "tick_of t b = check_tick t" if "b \<in> set xs" for b using that r(2) eq(3) 1(2) by (simp add: due_now_def)
      moreover have "check_tick t \<le> tick_of t b" if "b \<in> set ys" for b using that w(5) [of b] z(2) due by auto
      ultimately show ?thesis using z(3) unfolding map_append sorted_append same [symmetric] by (auto simp: sorted_map_same_value)
    qed
    moreover have "check_tick z = max (check_tick t) (unat cur + 1) \<or> nodes_of heads U = {}" using z(6) v(1) c by auto
    ultimately show ?thesis using z(5) by blast
  qed
qed

end

end
