(* ===== verification/Expire.thy ===== *)
theory Expire
  imports Timer_Run Packet
begin

text \<open>
  The functions the agent calls when the timer of a packet expires (\<open>mtreport_protoc.cpp\<close>), with the part of
  \<open>sv_socket.cpp\<close> they use: the packet is sent again with its counter of tries raised and the timer is set
  again with twice the time, until the tries are used up. The functions satisfy the interface of the timers.
\<close>

subsection \<open>Sockets\<close>

definition PKG_TIMEOUT_MS :: int where "PKG_TIMEOUT_MS = 5000"
definition PKG_TIMEOUT_MAX_MS :: u32 where "PKG_TIMEOUT_MAX_MS = 60000"
definition TRY_MAX_TIMES_PER_SERVER :: u8 where "TRY_MAX_TIMES_PER_SERVER = 2"
definition MT_SOCKET_DEF_COUNT_MAX :: int where "MT_SOCKET_DEF_COUNT_MAX = 100"

definition GetMaxResponseTime :: "int \<Rightarrow> MtSocket list \<Rightarrow> int" where
  "GetMaxResponseTime iSockIdx socks =
     (if iSockIdx < 0 \<or> MT_SOCKET_DEF_COUNT_MAX \<le> iSockIdx then PKG_TIMEOUT_MS
      else if sk_isock (socks ! nat iSockIdx) \<le> 0 then PKG_TIMEOUT_MS
      else if sk_iMaxRespTimeMs (socks ! nat iSockIdx) \<le> 0 then PKG_TIMEOUT_MS - 1000
      else sk_iMaxRespTimeMs (socks ! nat iSockIdx))"

definition ModMaxResponseTime :: "int \<Rightarrow> int \<Rightarrow> MtSocket list \<Rightarrow> MtSocket list" where
  "ModMaxResponseTime iSockIdx iRespTime socks =
     (if iSockIdx < 0 \<or> MT_SOCKET_DEF_COUNT_MAX \<le> iSockIdx then socks
      else if sk_isock (socks ! nat iSockIdx) \<le> 0 then socks
      else if sk_iMaxRespTimeMs (socks ! nat iSockIdx) < iRespTime
      then socks[nat iSockIdx := (socks ! nat iSockIdx)\<lparr>sk_iMaxRespTimeMs := iRespTime\<rparr>]
      else socks)"

text \<open>The result of \<open>sendto\<close> is not used; the caller gets the length of the packet also when it fails.\<close>

definition SendPacket :: "int \<Rightarrow> u8 list \<Rightarrow> ('h, 's) MtReportTimer \<Rightarrow> int \<times> ('h, 's) MtReportTimer" where
  "SendPacket iSockIdx pdata t =
     (if iSockIdx < 0 \<or> MT_SOCKET_DEF_COUNT_MAX \<le> iSockIdx \<or> pdata = [] then (-1, t)
      else let s = tm_socks t ! nat iSockIdx in
        if sk_isock s \<le> 0 then (-2, t)
        else (int (length pdata), t\<lparr>tm_socks := (tm_socks t)[nat iSockIdx := s\<lparr>sk_iSendPacks := sk_iSendPacks s + 1\<rparr>],
               tm_sent := tm_sent t @ [(nat iSockIdx, pdata)]\<rparr>))"

subsection \<open>The session of a packet\<close>

record PKGSESSION =
  ps_iSockIndex :: int
  ps_dwSendTimeSec :: u32
  ps_dwSendTimeUsec :: u32
  ps_bSessStatus :: u8

definition SESS_FLAG_WAIT_RESPONSE :: u8 where "SESS_FLAG_WAIT_RESPONSE = 1"

text \<open>The cast of \<open>sSessData\<close>; a node that was never used has zero bytes there.\<close>

definition pkg_sess :: "('h, PKGSESSION) TimerNode \<Rightarrow> PKGSESSION" where
  "pkg_sess n = (case tn_sSessData n of None \<Rightarrow> \<lparr>ps_iSockIndex = 0, ps_dwSendTimeSec = 0, ps_dwSendTimeUsec = 0, ps_bSessStatus = 0\<rparr> | Some s \<Rightarrow> s)"

text \<open>
  What a call depends on apart from the state: whether \<open>malloc\<close> gives memory, the clock \<open>SetCurTime\<close> reads next, and
  what is in the static buffer of \<open>RunTimerList\<close> behind the data of the node.
\<close>

record ExpireEnv =
  ev_malloc :: bool
  ev_clock :: "u64 \<Rightarrow> u64"
  ev_buf :: "u8 list"

text \<open>\<open>bResendTimes\<close> of the head is the byte 14 of the packet.\<close>

definition resend_ofs :: nat where "resend_ofs = 14"

definition double_timeout :: "nat \<Rightarrow> ('h, 's) MtReportTimer \<Rightarrow> ('h, 's) MtReportTimer" where
  "double_timeout a = upd_timer a (\<lambda>n. n\<lparr>tn_uiTimeOut := (if PKG_TIMEOUT_MAX_MS < tn_uiTimeOut n * 2 then PKG_TIMEOUT_MAX_MS else tn_uiTimeOut n * 2)\<rparr>)"

definition mark_sent :: "nat \<Rightarrow> int \<Rightarrow> nat \<Rightarrow> ('h, PKGSESSION) MtReportTimer \<Rightarrow> ('h, PKGSESSION) MtReportTimer" where
  "mark_sent a iRet uiDataLen t =
     (if iRet \<noteq> int uiDataLen then t
      else upd_timer a (\<lambda>n. n\<lparr>tn_sSessData := Some ((pkg_sess n)\<lparr>ps_dwSendTimeSec := ucast (tm_qwCurTime t div 1000000),
             ps_dwSendTimeUsec := ucast (tm_qwCurTime t mod 1000000), ps_bSessStatus := SESS_FLAG_WAIT_RESPONSE\<rparr>)\<rparr>) t)"

definition update_timer :: "ExpireEnv \<Rightarrow> nat \<Rightarrow> u8 list \<Rightarrow> ('h, 's) MtReportTimer \<Rightarrow> (int \<times> ('h, 's) MtReportTimer) option" where
  "update_timer env a d t = do {
     (rc, t) \<leftarrow> UpdateTimer (ev_malloc env) (ev_clock env (tm_qwCurTime t)) a d t;
     Some (if rc \<noteq> 0 then 0 else 1, t)
   }"

text \<open>Sending the packet, noting the time, and setting the timer again.\<close>

definition send_again :: "ExpireEnv \<Rightarrow> nat \<Rightarrow> u8 list \<Rightarrow> ('h, PKGSESSION) MtReportTimer \<Rightarrow> (int \<times> ('h, PKGSESSION) MtReportTimer) option" where
  "send_again env a d t =
     (case SendPacket (ps_iSockIndex (pkg_sess (tm_nodes t a))) d t of (iRet, t) \<Rightarrow> update_timer env a d (mark_sent a iRet (length d) t))"

subsection \<open>The functions\<close>

text \<open>\<open>uiDataLen\<close> is the length of the data, \<open>pData\<close> the buffer.\<close>

definition OnCmdExpire :: "ExpireEnv \<Rightarrow> nat \<Rightarrow> nat \<Rightarrow> u8 list \<Rightarrow> ('h, PKGSESSION) MtReportTimer \<Rightarrow> (int \<times> ('h, PKGSESSION) MtReportTimer) option" where
  "OnCmdExpire env a uiDataLen pData t =
     (if ps_bSessStatus (pkg_sess (tm_nodes t a)) = SESS_FLAG_WAIT_RESPONSE
      then send_again env a (take uiDataLen (pData[resend_ofs := pData ! resend_ofs + 1])) (double_timeout a t)
      else send_again env a (take uiDataLen (pData[resend_ofs := 0]))
        (upd_timer a (\<lambda>n. n\<lparr>tn_uiTimeOut := word_of_int (GetMaxResponseTime (ps_iSockIndex (pkg_sess n)) (tm_socks t) + 1000)\<rparr>) t))"

definition SendAttrExpire :: "ExpireEnv \<Rightarrow> nat \<Rightarrow> nat \<Rightarrow> u8 list \<Rightarrow> ('h, PKGSESSION) MtReportTimer \<Rightarrow> (int \<times> ('h, PKGSESSION) MtReportTimer) option" where
  "SendAttrExpire env a uiDataLen pData t =
     (let pData = pData[resend_ofs := pData ! resend_ofs + 1] in
      if TRY_MAX_TIMES_PER_SERVER < pData ! resend_ofs then Some (0, t)
      else send_again env a (take uiDataLen pData) (double_timeout a t))"

definition SendAppLogExpire :: "ExpireEnv \<Rightarrow> nat \<Rightarrow> nat \<Rightarrow> u8 list \<Rightarrow> ('h, PKGSESSION) MtReportTimer \<Rightarrow> (int \<times> ('h, PKGSESSION) MtReportTimer) option" where
  "SendAppLogExpire env a uiDataLen pData t =
     (let pData = pData[resend_ofs := pData ! resend_ofs + 1] in
      if TRY_MAX_TIMES_PER_SERVER < pData ! resend_ofs then Some (0, t)
      else send_again env a (take uiDataLen pData) (double_timeout a t))"

definition ReportPluginInfoExpire :: "ExpireEnv \<Rightarrow> nat \<Rightarrow> nat \<Rightarrow> u8 list \<Rightarrow> ('h, PKGSESSION) MtReportTimer \<Rightarrow> (int \<times> ('h, PKGSESSION) MtReportTimer) option" where
  "ReportPluginInfoExpire env a uiDataLen pData t =
     (let pData = pData[resend_ofs := pData ! resend_ofs + 1] in
      if TRY_MAX_TIMES_PER_SERVER < pData ! resend_ofs then Some (0, t)
      else send_again env a (take uiDataLen pData) (double_timeout a t))"

definition HelloFirstExpire :: "ExpireEnv \<Rightarrow> nat \<Rightarrow> nat \<Rightarrow> u8 list \<Rightarrow> ('h, PKGSESSION) MtReportTimer \<Rightarrow> (int \<times> ('h, PKGSESSION) MtReportTimer) option" where
  "HelloFirstExpire env a uiDataLen pData t =
     (let pData = pData[resend_ofs := pData ! resend_ofs + 1] in
      if TRY_MAX_TIMES_PER_SERVER < pData ! resend_ofs then Some (-1, t\<lparr>tm_cIsAgentRun := 2\<rparr>)
      else send_again env a (take uiDataLen pData) (double_timeout a t))"

definition IsHelloValid :: "('h, 's) MtReportTimer \<Rightarrow> bool" where
  "IsHelloValid t \<longleftrightarrow> tm_dwCurTime t < tm_dwLastHelloOkTime t + 2 * 60"

definition CMD_MONI_SEND_HELLO_FIRST :: u32 where "CMD_MONI_SEND_HELLO_FIRST = 201"
definition CMD_MONI_SEND_HELLO :: u32 where "CMD_MONI_SEND_HELLO = 202"
definition CMD_MONI_SEND_ATTR :: u32 where "CMD_MONI_SEND_ATTR = 203"
definition CMD_MONI_CHECK_LOG_CONFIG :: u32 where "CMD_MONI_CHECK_LOG_CONFIG = 206"
definition CMD_MONI_CHECK_APP_CONFIG :: u32 where "CMD_MONI_CHECK_APP_CONFIG = 207"
definition CMD_MONI_SEND_LOG :: u32 where "CMD_MONI_SEND_LOG = 209"
definition CMD_MONI_CHECK_SYSTEM_CONFIG :: u32 where "CMD_MONI_CHECK_SYSTEM_CONFIG = 213"
definition CMD_MONI_SEND_STR_ATTR :: u32 where "CMD_MONI_SEND_STR_ATTR = 214"
definition CMD_MONI_SEND_PLUGIN_INFO :: u32 where "CMD_MONI_SEND_PLUGIN_INFO = 218"

definition OnPkgExpire :: "ExpireEnv \<Rightarrow> nat \<Rightarrow> nat \<Rightarrow> u8 list \<Rightarrow> ('h, PKGSESSION) MtReportTimer \<Rightarrow> (int \<times> ('h, PKGSESSION) MtReportTimer) option" where
  "OnPkgExpire env a uiDataLen pData t =
     (let dwCmd = h_dwCmd (read_head (take sizeof_ReqPkgHead (drop 1 pData))) in
      if dwCmd = CMD_MONI_SEND_HELLO_FIRST then HelloFirstExpire env a uiDataLen pData t
      else if dwCmd \<in> {CMD_MONI_SEND_HELLO, CMD_MONI_CHECK_LOG_CONFIG, CMD_MONI_CHECK_APP_CONFIG, CMD_MONI_CHECK_SYSTEM_CONFIG} then
        if \<not> IsHelloValid t then Some (0, t\<lparr>tm_cIsAgentRun := 2\<rparr>) else OnCmdExpire env a uiDataLen pData t
      else if dwCmd = CMD_MONI_SEND_LOG then SendAppLogExpire env a uiDataLen pData t
      else if dwCmd = CMD_MONI_SEND_PLUGIN_INFO then ReportPluginInfoExpire env a uiDataLen pData t
      else if dwCmd \<in> {CMD_MONI_SEND_STR_ATTR, CMD_MONI_SEND_ATTR} then SendAttrExpire env a uiDataLen pData t
      else Some (0, t))"

text \<open>A call through \<open>OnExpire\<close>: the data lies at the start of the static buffer.\<close>

definition pkg_expire :: "ExpireEnv \<Rightarrow> 'h \<Rightarrow> nat \<Rightarrow> u8 list \<Rightarrow> ('h, PKGSESSION) MtReportTimer \<Rightarrow> (int \<times> ('h, PKGSESSION) MtReportTimer) option" where
  "pkg_expire env h a d t = OnPkgExpire env a (length d) (d @ drop (length d) (ev_buf env)) t"

end
