(* ===== verification/Expire_Props.thy ===== *)
theory Expire_Props
  imports Expire
begin

text \<open>
  The functions for packets satisfy the interface \<open>timer_handler\<close>. The locale \<open>agent_env\<close> has what they need of their
  environment: a clock that does not go back and stays below the time \<open>T\<close>, and the static buffer.
\<close>

text \<open>What the interface asks of a call.\<close>

definition handled :: "nat \<Rightarrow> nat set \<Rightarrow> nat \<Rightarrow> ('h, 's) MtReportTimer \<Rightarrow> (ListRef \<Rightarrow> nat list) \<Rightarrow> (int \<times> ('h, 's) MtReportTimer) option \<Rightarrow> bool" where
  "handled T D a t W res \<longleftrightarrow> (\<exists>r t' W'. res = Some (r, t') \<and> timers T D t' W' \<and> stays W t t' \<and> nodes_of heads W \<subseteq> nodes_of heads W' \<and>
     (\<forall>b\<in>nodes_of heads W' - nodes_of heads W. now_tick t < tick_of t' b) \<and> (r \<noteq> 1 \<longrightarrow> a \<notin> nodes_of heads W'))"

lemma handled_before:
  assumes "handled T D a u W res" "stays W t u"
  shows "handled T D a t W res"
proof -
  obtain r t' W' where r: "res = Some (r, t')" "timers T D t' W'" "stays W u t'" "nodes_of heads W \<subseteq> nodes_of heads W'"
    "\<forall>b\<in>nodes_of heads W' - nodes_of heads W. now_tick u < tick_of t' b" "r \<noteq> 1 \<longrightarrow> a \<notin> nodes_of heads W'"
    using assms(1) unfolding handled_def by blast
  have "\<forall>b\<in>nodes_of heads W' - nodes_of heads W. now_tick t < tick_of t' b" using r(5) le_less_trans [OF stays_now(1) [OF assms(2)]] by blast
  then show ?thesis using r stays_trans [OF assms(2) r(3)] unfolding handled_def by blast
qed

lemma handled_nothing:
  assumes "timers T D u W" "stays W t u" "a \<notin> nodes_of heads W" "r \<noteq> 1"
  shows "handled T D a t W (Some (r, u))"
  using assms unfolding handled_def by auto

text \<open>Changes of the node that leave key and data length alone.\<close>

lemma upd_timer_keeps:
  assumes t: "timers T D t W" "a \<notin> nodes_of heads W" "expired_node t a d"
    and f: "\<And>n. tn_uiKey (f n) = tn_uiKey n" "\<And>n. tn_uiDataLen (f n) = tn_uiDataLen n" "unat (tn_uiTimeOut (f (tm_nodes t a))) \<le> 4294967"
  shows "timers T D (upd_timer a f t) W" "stays W t (upd_timer a f t)" "expired_node (upd_timer a f t) a d"
proof -
  have "keyed (upd_timer a f t)" using timersD(2) [OF t(1)] f(1) by (subst keyed_cong [of _ t]) (simp_all add: upd_timer_def)
  then show "timers T D (upd_timer a f t) W" "stays W t (upd_timer a f t)" using timers_at [OF t(1,2)] by blast+
  show "expired_node (upd_timer a f t) a d" using t(3) f by (simp add: expired_node_def upd_timer_def)
qed

lemma socks_ok_upd:
  assumes "socks_ok ss" "i < 100" "sk_iMaxRespTimeMs s = sk_iMaxRespTimeMs (ss ! i)"
  shows "socks_ok (ss[i := s])"
proof -
  have "sk_iMaxRespTimeMs s \<le> 4293967" using assms by (simp add: socks_ok_def)
  then have "\<forall>x\<in>insert s (set ss). sk_iMaxRespTimeMs x \<le> 4293967" using assms(1) by (simp add: socks_ok_def)
  then show ?thesis using assms(1) set_update_subset_insert [of ss i s] unfolding socks_ok_def by auto
qed

lemma SendPacket_keeps:
  assumes t: "timers T D t W" and s: "SendPacket i d t = (r, u)"
  shows "timers T D u W" "stays W t u" "tm_nodes u = tm_nodes t" "tm_qwCurTime u = tm_qwCurTime t"
proof -
  note k = clock_okD(9) [OF timersD(3) [OF t]]
  have "\<exists>ss sn. u = t\<lparr>tm_socks := ss, tm_sent := sn\<rparr> \<and> socks_ok ss"
  proof (cases "u = t")
    case True
    then show ?thesis using k by (intro exI [of _ "tm_socks t"] exI [of _ "tm_sent t"]) simp
  next
    case False
    then have i: "nat i < 100" and u: "u = t\<lparr>tm_socks := (tm_socks t)[nat i := (tm_socks t ! nat i)\<lparr>sk_iSendPacks := sk_iSendPacks (tm_socks t ! nat i) + 1\<rparr>],
        tm_sent := tm_sent t @ [(nat i, d)]\<rparr>"
      using s by (auto simp: SendPacket_def MT_SOCKET_DEF_COUNT_MAX_def Let_def split: if_splits)
    have "socks_ok ((tm_socks t)[nat i := (tm_socks t ! nat i)\<lparr>sk_iSendPacks := sk_iSendPacks (tm_socks t ! nat i) + 1\<rparr>])" by (rule socks_ok_upd [OF k i]) simp
    then show ?thesis using u by blast
  qed
  then obtain ss sn where u: "u = t\<lparr>tm_socks := ss, tm_sent := sn\<rparr>" "socks_ok ss" by blast
  have "keyed u" using timersD(2) [OF t] by (subst keyed_cong [of _ t]) (simp_all add: u(1))
  moreover have "clock_ok T u" using timersD(3) [OF t] u by (simp add: clock_ok_def)
  ultimately show "timers T D u W" by (intro timers_frame [OF t]) (simp_all add: u(1))
  show "stays W t u" "tm_nodes u = tm_nodes t" "tm_qwCurTime u = tm_qwCurTime t" by (simp_all add: u(1) stays_def)
qed

lemma mark_sent_keeps:
  fixes t :: "('h, PKGSESSION) MtReportTimer"
  assumes "timers T D t W" "a \<notin> nodes_of heads W" "expired_node t a d"
  shows "timers T D (mark_sent a r n t) W" "stays W t (mark_sent a r n t)" "expired_node (mark_sent a r n t) a d" "tm_qwCurTime (mark_sent a r n t) = tm_qwCurTime t"
proof -
  define f where "f = (\<lambda>n :: ('h, PKGSESSION) TimerNode. n\<lparr>tn_sSessData := Some ((pkg_sess n)\<lparr>ps_dwSendTimeSec := ucast (tm_qwCurTime t div 1000000),
             ps_dwSendTimeUsec := ucast (tm_qwCurTime t mod 1000000), ps_bSessStatus := SESS_FLAG_WAIT_RESPONSE\<rparr>)\<rparr>)"
  have m: "mark_sent a r n t = (if r \<noteq> int n then t else upd_timer a f t)" by (simp add: mark_sent_def f_def)
  have "tn_uiKey (f n) = tn_uiKey n" "tn_uiDataLen (f n) = tn_uiDataLen n" "unat (tn_uiTimeOut (f (tm_nodes t a))) \<le> 4294967" for n
    using assms(3) by (simp_all add: expired_node_def f_def)
  note u = upd_timer_keeps [OF assms this]
  show "timers T D (mark_sent a r n t) W" "stays W t (mark_sent a r n t)" "expired_node (mark_sent a r n t) a d"
    unfolding m using assms(1,3) u stays_refl [of W t] by presburger+
  show "tm_qwCurTime (mark_sent a r n t) = tm_qwCurTime t" by (simp add: m upd_timer_def)
qed

lemma double_timeout_keeps:
  assumes "timers T D t W" "a \<notin> nodes_of heads W" "expired_node t a d"
  shows "timers T D (double_timeout a t) W" "stays W t (double_timeout a t)" "expired_node (double_timeout a t) a d"
proof -
  have "unat (tn_uiTimeOut (tm_nodes t a) * 2) = unat (tn_uiTimeOut (tm_nodes t a)) * 2"
    using assms(3) unat_mult_lem [of "tn_uiTimeOut (tm_nodes t a)" "2 :: u32"] by (simp add: expired_node_def)
  then have e: "unat (if PKG_TIMEOUT_MAX_MS < tn_uiTimeOut (tm_nodes t a) * 2 then PKG_TIMEOUT_MAX_MS else tn_uiTimeOut (tm_nodes t a) * 2) \<le> 4294967"
    by (simp add: PKG_TIMEOUT_MAX_MS_def word_less_nat_alt)
  show "timers T D (double_timeout a t) W" "stays W t (double_timeout a t)" "expired_node (double_timeout a t) a d"
    unfolding double_timeout_def by (rule upd_timer_keeps [OF assms]; use e in simp)+
qed

locale agent_env =
  fixes env :: ExpireEnv and T :: nat
  assumes clock: "\<And>x. unat x \<le> T \<Longrightarrow> unat x \<le> unat (ev_clock env x) \<and> unat (ev_clock env x) \<le> T"
    and buf: "length (ev_buf env) = TIMER_DATA_MAX_LENGTH"
begin

lemma update_timer_handled:
  assumes t: "timers T D t W" "a \<notin> nodes_of heads W" "expired_node t a d" "card (nodes_of heads W) < 10000"
  shows "handled T D a t W (update_timer env a d t)"
proof -
  let ?now = "ev_clock env (tm_qwCurTime t)"
  have now: "now_of t \<le> unat ?now" "unat ?now \<le> T" using clock clock_okD(4) [OF timersD(3) [OF t(1)]] by auto
  note e = t(3) [unfolded expired_node_def]
  note u = UpdateTimer_keeps [OF t(1,2) conjunct1 [OF e] t(4) now _ conjunct1 [OF conjunct2 [OF e]] conjunct1 [OF conjunct2 [OF conjunct2 [OF e]]], of "ev_malloc env"]
  have tmo: "unat (tn_uiTimeOut (tm_nodes t a)) \<le> 4294967" using e by blast
  show ?thesis
  proof (cases "d \<noteq> [] \<and> \<not> ev_malloc env")
    case True
    then obtain t' where "UpdateTimer (ev_malloc env) ?now a d t = Some (-1011, t')" "timers T D t' W" "stays W t t'" using u [OF tmo] by auto
    then show ?thesis using handled_nothing [of T D t' W t a 0] t(2) by (simp add: update_timer_def)
  next
    case False
    then obtain t' W' where w: "UpdateTimer (ev_malloc env) ?now a d t = Some (0, t')" "armed T D a t W t' W'" using u [OF tmo] by (auto simp only: if_False)
    note r = w(2) [unfolded armed_def]
    have "now_tick t < tick_of t' a" using stays_now(1) [of W t t'] r unfolding now_tick_def by linarith
    then have "\<forall>b\<in>nodes_of heads W' - nodes_of heads W. now_tick t < tick_of t' b" unfolding conjunct1 [OF conjunct2 [OF r]] by blast
    then have "handled T D a t W (Some (1, t'))" using r unfolding handled_def by blast
    then show ?thesis using w(1) by (simp add: update_timer_def)
  qed
qed

lemma send_again_handled:
  assumes t: "timers T D t W" "a \<notin> nodes_of heads W" "expired_node t a d" "card (nodes_of heads W) < 10000"
  shows "handled T D a t W (send_again env a d t)"
proof -
  obtain r u where s: "SendPacket (ps_iSockIndex (pkg_sess (tm_nodes t a))) d t = (r, u)" by fastforce
  note 1 = SendPacket_keeps [OF t(1) s]
  have e: "expired_node u a d" using t(3) 1(3) by (simp add: expired_node_def)
  note 2 = mark_sent_keeps [OF 1(1) t(2) e, of r "length d"]
  have "handled T D a (mark_sent a r (length d) u) W (update_timer env a d (mark_sent a r (length d) u))"
    by (rule update_timer_handled [OF 2(1) t(2) 2(3) t(4)])
  then show ?thesis using handled_before [OF _ stays_trans [OF 1(2) 2(2)]] s by (simp add: send_again_def)
qed

lemma again_handled:
  assumes u: "timers T D u W" "stays W t u" "expired_node u a d" and a: "a \<notin> nodes_of heads W" "card (nodes_of heads W) < 10000" and d: "length d' = length d"
  shows "handled T D a t W (send_again env a d' u)"
proof -
  have "expired_node u a d'" using u(3) d by (simp add: expired_node_def)
  then show ?thesis using handled_before [OF send_again_handled [OF u(1) a(1) _ a(2)] u(2)] by blast
qed

lemma resend_handled:
  assumes t: "timers T D t W" "a \<notin> nodes_of heads W" "expired_node t a d" "card (nodes_of heads W) < 10000" and b: "length d \<le> length b"
  shows "handled T D a t W (send_again env a (take (length d) b) (double_timeout a t))"
  using again_handled [OF double_timeout_keeps [OF t(1-3)] t(2,4)] b by simp

end

text \<open>The time-out of a socket is in range.\<close>

lemma GetMaxResponseTime_bounds:
  assumes "socks_ok ss"
  shows "0 < GetMaxResponseTime i ss" "GetMaxResponseTime i ss \<le> 4293967"
proof -
  have "sk_iMaxRespTimeMs (ss ! nat i) \<le> 4293967" if "0 \<le> i" "i < 100" using assms that by (simp add: socks_ok_def)
  then show "0 < GetMaxResponseTime i ss" "GetMaxResponseTime i ss \<le> 4293967"
    by (auto simp: GetMaxResponseTime_def PKG_TIMEOUT_MS_def MT_SOCKET_DEF_COUNT_MAX_def)
qed

lemma timeout_small:
  assumes "clock_ok T t"
  shows "unat (word_of_int (GetMaxResponseTime i (tm_socks t) + 1000) :: u32) \<le> 4294967"
proof -
  define x where "x = nat (GetMaxResponseTime i (tm_socks t) + 1000)"
  note b = GetMaxResponseTime_bounds [OF clock_okD(9) [OF assms], of i]
  have x: "x \<le> 4294967" "GetMaxResponseTime i (tm_socks t) + 1000 = int x" using b by (simp_all add: x_def)
  then show ?thesis unfolding x(2) by (simp add: take_bit_nat_eq_self unat_of_nat)
qed

lemma stop_agent_keeps:
  assumes t: "timers T D t W"
  shows "timers T D (t\<lparr>tm_cIsAgentRun := x\<rparr>) W" "stays W t (t\<lparr>tm_cIsAgentRun := x\<rparr>)"
proof -
  have "keyed (t\<lparr>tm_cIsAgentRun := x\<rparr>)" using timersD(2) [OF t] by (subst keyed_cong [of _ t]) simp_all
  moreover have "clock_ok T (t\<lparr>tm_cIsAgentRun := x\<rparr>)" using timersD(3) [OF t] by (simp add: clock_ok_def)
  ultimately show "timers T D (t\<lparr>tm_cIsAgentRun := x\<rparr>) W" by (intro timers_frame [OF t]) simp_all
  show "stays W t (t\<lparr>tm_cIsAgentRun := x\<rparr>)" by (simp add: stays_def)
qed

context agent_env
begin

lemma OnCmdExpire_handled:
  fixes t :: "('a, PKGSESSION) MtReportTimer"
  assumes t: "timers T D t W" "a \<notin> nodes_of heads W" "expired_node t a d" "card (nodes_of heads W) < 10000" and b: "length d \<le> length b"
  shows "handled T D a t W (OnCmdExpire env a (length d) b t)"
proof -
  define tmo where "tmo = (\<lambda>n :: ('a, PKGSESSION) TimerNode. word_of_int (GetMaxResponseTime (ps_iSockIndex (pkg_sess n)) (tm_socks t) + 1000) :: u32)"
  define u where "u = upd_timer a (\<lambda>n. n\<lparr>tn_uiTimeOut := tmo n\<rparr>) t"
  have "unat (tmo n) \<le> 4294967" for n unfolding tmo_def by (rule timeout_small [OF timersD(3) [OF t(1)]])
  then have u: "timers T D u W" "stays W t u" "expired_node u a d" unfolding u_def by (intro upd_timer_keeps [OF t(1-3)]; simp)+
  have "handled T D a t W (send_again env a (take (length d) (b[resend_ofs := 0])) u)" using again_handled [OF u t(2,4)] b by simp
  then show ?thesis using resend_handled [OF t, of "b[resend_ofs := b ! resend_ofs + 1]"] b by (simp add: OnCmdExpire_def u_def tmo_def)
qed

text \<open>The functions that give a packet up after the last try.\<close>

lemma try_handled:
  assumes t: "timers T D t W" "a \<notin> nodes_of heads W" "expired_node t a d" "card (nodes_of heads W) < 10000" and b: "length d \<le> length b"
  shows "handled T D a t W (SendAttrExpire env a (length d) b t)" "handled T D a t W (SendAppLogExpire env a (length d) b t)"
    "handled T D a t W (ReportPluginInfoExpire env a (length d) b t)" "handled T D a t W (HelloFirstExpire env a (length d) b t)"
proof -
  have r: "handled T D a t W (send_again env a (take (length d) (b[resend_ofs := b ! resend_ofs + 1])) (double_timeout a t))"
    using resend_handled [OF t] b by simp
  have n: "handled T D a t W (Some (0, t))" "handled T D a t W (Some (-1, t\<lparr>tm_cIsAgentRun := 2\<rparr>))"
    using handled_nothing [OF t(1) stays_refl t(2)] handled_nothing [OF stop_agent_keeps [OF t(1)] t(2)] by simp_all
  show "handled T D a t W (SendAttrExpire env a (length d) b t)" "handled T D a t W (SendAppLogExpire env a (length d) b t)"
    "handled T D a t W (ReportPluginInfoExpire env a (length d) b t)" "handled T D a t W (HelloFirstExpire env a (length d) b t)"
    using r n by (simp_all add: SendAttrExpire_def SendAppLogExpire_def ReportPluginInfoExpire_def HelloFirstExpire_def Let_def)
qed

text \<open>The head of the packet lies in the buffer, also when the data is shorter.\<close>

lemma head_in_buffer: "resend_ofs < length (d @ drop (length d) (ev_buf env))"
  using buf by (simp add: resend_ofs_def TIMER_DATA_MAX_LENGTH_def)

lemma OnPkgExpire_handled:
  assumes t: "timers T D t W" "a \<notin> nodes_of heads W" "expired_node t a d" "card (nodes_of heads W) < 10000" and b: "length d \<le> length b"
  shows "handled T D a t W (OnPkgExpire env a (length d) b t)"
proof -
  have n: "handled T D a t W (Some (0, t))" "handled T D a t W (Some (0, t\<lparr>tm_cIsAgentRun := 2\<rparr>))"
    using handled_nothing [OF t(1) stays_refl t(2)] handled_nothing [OF stop_agent_keeps [OF t(1)] t(2)] by simp_all
  show ?thesis unfolding OnPkgExpire_def Let_def using n try_handled [OF t b] OnCmdExpire_handled [OF t b] by presburger
qed

end

sublocale agent_env \<subseteq> timer_handler "pkg_expire env" T
proof (unfold_locales, goal_cases)
  case (1 D t W a d h)
  have "length d \<le> length (d @ drop (length d) (ev_buf env))" by simp
  then show ?case using OnPkgExpire_handled [OF 1] unfolding handled_def pkg_expire_def by blast
qed

text \<open>An environment in which memory is there and the clock stands still.\<close>

definition quiet_env :: ExpireEnv where
  "quiet_env = \<lparr>ev_malloc = True, ev_clock = (\<lambda>x. x), ev_buf = replicate TIMER_DATA_MAX_LENGTH 0\<rparr>"

interpretation quiet: agent_env quiet_env T for T
  by unfold_locales (simp_all add: quiet_env_def)

end
