(* ===== verification/Timer_Props.thy ===== *)
theory Timer_Props
  imports Expire_Props
begin

text \<open>
  The properties of the timers: initialisation gives an empty wheel, \<open>AddTimer\<close> keeps the invariant and \<open>GetTimer\<close> gives the data
  back, and a check of the wheel with the functions of the agent calls exactly the timers that are due.
\<close>

subsection \<open>Initialisation\<close>

lemma empty_wheel: "nodes_of H (\<lambda>_. []) = {}" "set ((\<lambda>_. []) h) = {}"
  by (simp_all add: nodes_of_def)

lemma InitTimer_establishes:
  assumes run: "InitTimer now alloc sz cnt cmp warn t p = Some (0, u, q)" and t: "nl_bInitSuccess (tm_stHash t) = 0" "socks_ok (tm_socks t)"
    and T: "now \<le> tm_qwCurTime t" "now_of t \<le> T" "T \<le> now_of t + 300000000" "T < 2 ^ 63" "now_of t < unat now + 2 ^ 46"
  shows "timers T {} u (\<lambda>_. [])"
proof -
  have ini: "tm_cIsInit t = 0" using run by (auto simp: InitTimer_def split: if_splits)
  obtain ad c where u: "u = t\<lparr>tm_next := (\<lambda>r. case r of Vec l s \<Rightarrow> if l \<in> {1..5} \<and> s < tv_size l then r else tm_next t r | _ \<Rightarrow> tm_next t r),
      tm_prev := (\<lambda>r. case r of Vec l s \<Rightarrow> if l \<in> {1..5} \<and> s < tv_size l then r else tm_prev t r | _ \<Rightarrow> tm_prev t r),
      tm_index := (\<lambda>l. if l \<in> {1..5} then 0 else tm_index t l), tm_uiCheckInvlUs := MT_TIMER_CHECK_INTVALUS, tm_qwBaseTime := now, tm_uiCheckTime := 0,
      tm_uiCount := 0, tm_uiMaxCount := 0, tm_stHash := (init_NoList sz cnt c warn)\<lparr>nl_pHash := ad, nl_bInitSuccess := 1\<rparr>, tm_cIsInit := 1,
      tm_nodes := (\<lambda>_. zero_node)\<rparr>" and cnt: "cnt \<noteq> 0"
    using run t(1) ini by (auto simp: InitTimer_def InitHashTable_NoList_Heap_def Let_def bind_eq_Some_conv split: option.splits if_splits)
  have "joined (tm_next u) (tm_prev u) (circle h [])" if "h \<in> heads" for h using that by (auto simp: heads_def circle_def u)
  then have "holds heads u (\<lambda>_. [])" by (simp add: holds_def wheel_rep_def)
  moreover have "tm_index u l = next_block {} 0 l mod 64" if "2 \<le> l" "l \<le> 5" for l using that by (simp add: u next_block_def)
  ultimately have w: "wheel_ok {} u (\<lambda>_. [])" unfolding wheel_ok_def empty_wheel by (simp add: u)
  have "row_size cnt \<noteq> 0" using prime_down_ge [of cnt] cnt by (auto simp: row_size_def min_def unat_eq_zero split: if_splits)
  then have k: "keyed u" by (auto simp: keyed_def u init_NoList_rows zero_node_def dest: in_set_takeD)
  have "clock_ok T u" using t(2) T by (simp add: clock_ok_def u MT_TIMER_CHECK_INTVALUS_def word_le_nat_alt)
  then show ?thesis using w k by (simp add: timers_def empty_wheel)
qed

subsection \<open>An example\<close>

text \<open>
  An empty wheel at the first second, a table of one row with five columns, and a request for the attribute server with the time-out
  of a second.
\<close>

definition demo_timer :: "(unit, PKGSESSION) MtReportTimer" where
  "demo_timer = \<lparr>tm_cIsInit = 1, tm_index = (\<lambda>_. 0), tm_next = (\<lambda>r. r), tm_prev = (\<lambda>r. r), tm_qwBaseTime = 0, tm_uiCheckTime = 0,
     tm_uiCheckInvlUs = 100000, tm_uiCount = 0, tm_uiMaxCount = 0,
     tm_stHash = \<lparr>nl_dwNodeSize = 200, nl_dwNodeCount = 5, nl_dwRealNodeCount = 5, nl_dwShareMemBytes = 1000, nl_dwNodeNums = [5],
       nl_bInitSuccess = 1, nl_fun_cmp = None, nl_fun_war = False, nl_pHash = 4096\<rparr>,
     tm_nodes = (\<lambda>_. zero_node), tm_qwCurTime = 1000000, tm_dwCurTime = 1, tm_dwProcessId = 0, tm_cIsAgentRun = 1, tm_dwLastHelloOkTime = 1,
     tm_socks = replicate 100 \<lparr>sk_isock = 3, sk_iMaxRespTimeMs = -1, sk_iSendPacks = 0\<rparr>, tm_sent = []\<rparr>"

definition demo_packet :: "u8 list" where
  "demo_packet = [1, 0, 0, 0, 203] @ replicate 65 0"

definition demo_session :: PKGSESSION where
  "demo_session = \<lparr>ps_iSockIndex = 4, ps_dwSendTimeSec = 1, ps_dwSendTimeUsec = 0, ps_bSessStatus = 1\<rparr>"

lemma demo_timers: "timers 301000000 {} demo_timer (\<lambda>_. [])"
proof -
  have "wheel_ok {} demo_timer (\<lambda>_. [])" unfolding wheel_ok_def empty_wheel
    by (auto simp: demo_timer_def holds_def wheel_rep_def circle_def next_block_def)
  moreover have "keyed demo_timer" by (simp add: keyed_def demo_timer_def zero_node_def STATIC_HASH_ROW_MAX_def)
  moreover have "clock_ok 301000000 demo_timer" by (simp add: clock_ok_def demo_timer_def socks_ok_def)
  ultimately show ?thesis by (simp add: timers_def empty_wheel)
qed

lemma demo_added:
  "\<exists>t'. AddTimer True 1000000 7 1000 (Some ()) demo_session 40 demo_packet demo_timer = Some (0, t') \<and> tm_qwCurTime t' = 1000000"
  by (simp add: AddTimer_def demo_timer_def TIMER_NODE_SESS_DATA_LEN_def timer_search_ex_def STATIC_HASH_ROW_MAX_def TimerHashCmpFun_def Let_def zero_node_def
      InternalAddTimer_def LIST_ADD_def timer_vec_def set_expire_def SetCurTime_def upd_timer_def TIME_MS_TO_US_def count_timer_def)

text \<open>The conditions on the request.\<close>

lemma demo_request:
  "card (nodes_of heads (\<lambda>_. [])) < 10000" "now_of demo_timer \<le> unat (1000000 :: u64)" "unat (1000000 :: u64) \<le> 301000000" "(7 :: u32) \<noteq> 0" "unat (1000 :: u32) \<le> 4294967"
  "length demo_packet \<le> TIMER_DATA_MAX_LENGTH"
  by (simp_all add: demo_timer_def demo_packet_def TIMER_DATA_MAX_LENGTH_def empty_wheel)

text \<open>Two seconds later.\<close>

lemma demo_armed:
  "\<exists>(t :: (unit, PKGSESSION) MtReportTimer) a W. timers 301000000 {} t W \<and> nodes_of heads W = {a} \<and> now_tick t = 30 \<and> tick_of t a = 20 \<and> tn_OnExpire (tm_nodes t a) = Some ()"
proof -
  obtain t' where a: "AddTimer True 1000000 7 1000 (Some ()) demo_session 40 demo_packet demo_timer = Some (0, t')" and cur: "tm_qwCurTime t' = 1000000"
    using demo_added by blast
  obtain a W where w: "armed 301000000 {} a demo_timer (\<lambda>_. []) t' W"
      "holds_request 7 (Some ()) demo_packet (unat (1000000 :: u64) + 1000 * max 1000 (unat (1000 :: u32))) (tm_nodes t' a)"
    using AddTimer_keeps [OF demo_timers demo_request, of True "Some ()" demo_session 40] a by auto
  note r = w(1) [unfolded armed_def empty_wheel stays_def]
  have base: "base_of t' = 0" using r by (simp add: demo_timer_def)
  have now: "now_of t' = 1000000" using cur by simp
  define u where "u = SetCurTime 3000000 t'"
  have u: "timers 301000000 {} u W" unfolding u_def using r now by (intro timers_SetCurTime) simp_all
  have n: "tm_nodes u = tm_nodes t'" "now_tick u = 30" using base by (simp_all add: u_def SetCurTime_def now_tick_def)
  have "node_live 301000000 u a" using timersD(4) [OF u, of a] r by simp
  moreover have "due_of u a = 2000000" using w(2) by (simp add: n holds_request_def)
  ultimately have "tick_of u a = 20" using base by (simp add: node_live_def u_def SetCurTime_def)
  moreover have "tn_OnExpire (tm_nodes u a) = Some ()" using w(2) by (simp add: n holds_request_def)
  ultimately show ?thesis using u n(2) r by blast
qed

subsection \<open>Adding and taking\<close>

text \<open>
  C10. \<open>AddTimer\<close> returns on every valid state of the timers, with one of five codes, and keeps the invariant: every node stands
  once in the wheel, in the list its tick belongs to, under its own key. When it returns 0 one free
  node was put into the wheel with the key, function and data of the call and the time of expiry; any other result leaves the
  members as they were.
\<close>

theorem AddTimer_keeps_timers:
  assumes "timers T {} t W" "card (nodes_of heads W) < 10000" "now_of t \<le> unat now" "unat now \<le> T" "uiKey \<noteq> 0" "unat uiTimeOut \<le> 4294967"
    "length sData \<le> TIMER_DATA_MAX_LENGTH"
  shows "\<exists>rc t'. AddTimer malloc_ok now uiKey uiTimeOut onExpire pSess len sData t = Some (rc, t') \<and> rc \<in> {0, -2, -4, -5, -1011} \<and>
    (rc \<noteq> 0 \<longrightarrow> timers T {} t' W \<and> (\<forall>b\<in>nodes_of heads W. tm_nodes t' b = tm_nodes t b)) \<and>
    (rc = 0 \<longrightarrow> (\<exists>a W'. a \<notin> nodes_of heads W \<and> timers T {} t' W' \<and> nodes_of heads W' = insert a (nodes_of heads W) \<and>
       holds_request uiKey onExpire sData (unat now + 1000 * max 1000 (unat uiTimeOut)) (tm_nodes t' a) \<and>
       (\<forall>b\<in>nodes_of heads W. tm_nodes t' b = tm_nodes t b)))"
proof -
  obtain rc t' where r: "AddTimer malloc_ok now uiKey uiTimeOut onExpire pSess len sData t = Some (rc, t')" "rc \<in> {0, -2, -4, -5, -1011}"
    "rc \<noteq> 0 \<longrightarrow> timers T {} t' W \<and> stays W t t'"
    "rc = 0 \<longrightarrow> (\<exists>a W'. a \<notin> nodes_of heads W \<and> armed T {} a t W t' W' \<and>
       holds_request uiKey onExpire sData (unat now + 1000 * max 1000 (unat uiTimeOut)) (tm_nodes t' a))"
    using AddTimer_keeps [OF assms, of malloc_ok onExpire pSess len] by (elim exE conjE) (rule that)
  have "rc \<noteq> 0 \<longrightarrow> timers T {} t' W \<and> (\<forall>b\<in>nodes_of heads W. tm_nodes t' b = tm_nodes t b)" using r(3) unfolding stays_def by blast
  moreover have "rc = 0 \<longrightarrow> (\<exists>a W'. a \<notin> nodes_of heads W \<and> timers T {} t' W' \<and> nodes_of heads W' = insert a (nodes_of heads W) \<and>
       holds_request uiKey onExpire sData (unat now + 1000 * max 1000 (unat uiTimeOut)) (tm_nodes t' a) \<and> (\<forall>b\<in>nodes_of heads W. tm_nodes t' b = tm_nodes t b))"
    using r(4) unfolding armed_def stays_def by blast
  ultimately show ?thesis using r(1,2) by (intro exI [of _ rc] exI [of _ t'] conjI)
qed

theorem AddTimer_keeps_timers_witness:
  "\<exists>t' a W'. AddTimer True 1000000 7 1000 (Some ()) demo_session 40 demo_packet demo_timer = Some (0, t') \<and> timers 301000000 {} t' W' \<and>
    nodes_of heads W' = {a} \<and> holds_request 7 (Some ()) demo_packet 2000000 (tm_nodes t' a)"
proof -
  obtain t' where a: "AddTimer True 1000000 7 1000 (Some ()) demo_session 40 demo_packet demo_timer = Some (0, t')" using demo_added by blast
  obtain rc u where u: "AddTimer True 1000000 7 1000 (Some ()) demo_session 40 demo_packet demo_timer = Some (rc, u)"
    "rc = 0 \<longrightarrow> (\<exists>a W'. a \<notin> nodes_of heads (\<lambda>_. []) \<and> timers 301000000 {} u W' \<and> nodes_of heads W' = insert a (nodes_of heads (\<lambda>_. [])) \<and>
       holds_request 7 (Some ()) demo_packet (unat (1000000 :: u64) + 1000 * max 1000 (unat (1000 :: u32))) (tm_nodes u a) \<and>
       (\<forall>b\<in>nodes_of heads (\<lambda>_. []). tm_nodes u b = tm_nodes demo_timer b))"
    using AddTimer_keeps_timers [OF demo_timers demo_request, of True "Some ()" demo_session 40] by (elim exE conjE) (rule that)
  have rc: "rc = 0" "u = t'" using u(1) a by simp_all
  have us: "unat (1000000 :: u64) + 1000 * max 1000 (unat (1000 :: u32)) = 2000000" by simp
  show ?thesis using u(2) a unfolding rc us empty_wheel by blast
qed

text \<open>
  C38. What was added is taken once: after a successful \<open>AddTimer\<close> the call of \<open>GetTimer\<close> with the key finds the node and
  gives the data back, takes exactly this node out of the wheel, and every other timer stays as it was.
\<close>

theorem added_timer_taken:
  assumes "timers T {} t W" "card (nodes_of heads W) < 10000" "now_of t \<le> unat now" "unat now \<le> T" "uiKey \<noteq> 0" "unat uiTimeOut \<le> 4294967"
    "length sData \<le> TIMER_DATA_MAX_LENGTH" "AddTimer malloc_ok now uiKey uiTimeOut onExpire pSess len sData t = Some (0, t')"
  shows "\<exists>a u V. GetTimer TIMER_DATA_MAX_LENGTH uiKey t' = Some (0, Some a, sData, u) \<and> a \<notin> nodes_of heads W \<and> timers T {} u V \<and>
    nodes_of heads V = nodes_of heads W \<and> (\<forall>b\<in>nodes_of heads W. tm_nodes u b = tm_nodes t b)"
proof -
  obtain a W' where a: "a \<notin> nodes_of heads W" "armed T {} a t W t' W'" "holds_request uiKey onExpire sData (unat now + 1000 * max 1000 (unat uiTimeOut)) (tm_nodes t' a)"
    using AddTimer_keeps [OF assms(1-7), of malloc_ok onExpire pSess len] assms(8) by auto
  note w = a(2) [unfolded armed_def] and r = a(3) [unfolded holds_request_def]
  have d: "data_of (tm_nodes t' a) = sData" "key_of t' a = uiKey" using r by (auto simp: data_of_def)
  obtain u V where u: "GetTimer TIMER_DATA_MAX_LENGTH uiKey t' = Some (0, Some a, sData, u)" "timers T {} u V" "nodes_of heads V = nodes_of heads W' - {a}" "stays V t' u"
    using GetTimer_takes [of T "{}" t' W' a TIMER_DATA_MAX_LENGTH] w unfolding d by auto
  have V: "nodes_of heads V = nodes_of heads W" using u(3) w a(1) by auto
  have "\<forall>b\<in>nodes_of heads W. tm_nodes u b = tm_nodes t b" using u(4) w V unfolding stays_def by metis
  then show ?thesis using u(1,2) V a(1) by blast
qed

theorem added_timer_taken_witness:
  "\<exists>t' a u V. AddTimer True 1000000 7 1000 (Some ()) demo_session 40 demo_packet demo_timer = Some (0, t') \<and>
    GetTimer TIMER_DATA_MAX_LENGTH 7 t' = Some (0, Some a, demo_packet, u) \<and> timers 301000000 {} u V \<and> nodes_of heads V = {}"
proof -
  obtain t' where a: "AddTimer True 1000000 7 1000 (Some ()) demo_session 40 demo_packet demo_timer = Some (0, t')" using demo_added by blast
  show ?thesis using added_timer_taken [OF demo_timers demo_request a] a unfolding empty_wheel by blast
qed

subsection \<open>Running\<close>

context timer_handler
begin

lemma CheckTimer_due:
  assumes t: "timers T {} t W" and few: "card {a \<in> nodes_of heads W. tick_of t a \<le> now_tick t} < MAX_TIMER_NODE_PER_TRY"
  shows "\<exists>xs u V. CheckTimer call t = Some (MT_TIMER_CHECK_INTVALUS, xs, u) \<and> set xs = {a \<in> nodes_of heads W. tick_of t a \<le> now_tick t} \<and>
    sorted (map (tick_of t) xs) \<and> timers T {} u V \<and> ran (now_tick t) xs t W u V"
proof -
  note k = clock_okD [OF timersD(3) [OF t]]
  define cur :: u32 where "cur = ucast ((tm_qwCurTime t - tm_qwBaseTime t) div ucast (tm_uiCheckInvlUs t))"
  have "unat (tm_qwCurTime t - tm_qwBaseTime t) = now_of t - base_of t" using k(3) by (intro unat_sub) (simp add: word_le_nat_alt)
  then have "unat ((tm_qwCurTime t - tm_qwBaseTime t) div ucast (tm_uiCheckInvlUs t)) = now_tick t" unfolding k(2) unat_div now_tick_def by simp
  then have cur: "unat cur = now_tick t" using now_tick_small [OF timersD(3) [OF t]] by (simp add: cur_def unsigned_ucast_eq take_bit_nat_eq_self)
  obtain xs u V where r: "run_wheel call cur 0 [] t = Some ([] @ xs, u)" "set xs = {a \<in> nodes_of heads W. tick_of t a \<le> unat cur}"
    "sorted (map (tick_of t) xs)" "ran (unat cur) xs t W u V" "timers T {} u V"
    using run_wheel_due [OF t, of cur 0 "[]"] few unfolding cur MAX_TIMER_NODE_PER_TRY_def by force
  have check: "CheckTimer call t = (if tm_uiCheckTime t \<le> cur then map_option (\<lambda>(fired, t). (tm_uiCheckInvlUs t, fired, t)) (run_wheel call cur 0 [] t)
      else Some (tm_uiCheckInvlUs t, [], t))"
    by (simp add: CheckTimer_def cur_def RunTimerList_def Let_def)
  have "CheckTimer call t = Some (MT_TIMER_CHECK_INTVALUS, xs, u)"
  proof (cases "tm_uiCheckTime t \<le> cur")
    case True
    then show ?thesis using r(1) clock_okD(2) [OF timersD(3) [OF r(5)]]
      by (simp add: check MT_TIMER_CHECK_INTVALUS_def)
  next
    case False
    then have "xs = []" "u = t" using r(1) by (simp_all add: run_wheel.simps)
    then show ?thesis using False k(2) by (simp add: check MT_TIMER_CHECK_INTVALUS_def)
  qed
  then show ?thesis using r(2-5) unfolding cur by blast
qed

end

context agent_env
begin

lemmas pkg_CheckTimer_due = CheckTimer_due

end

text \<open>
  C4. A check of the wheel with fewer than ten due timers returns and calls the functions of exactly the timers whose tick has come, each once and
  in the order of the ticks, with the functions of the agent that send packets again. The other timers stay as they are, every timer set
  meanwhile belongs to a later tick, and the invariant holds again. The clock must not go back, and no timer may be left for five minutes.
\<close>

theorem due_timers_run:
  assumes env: "\<forall>x. unat x \<le> T \<longrightarrow> unat x \<le> unat (ev_clock env x) \<and> unat (ev_clock env x) \<le> T" "length (ev_buf env) = TIMER_DATA_MAX_LENGTH"
    and t: "timers T {} t W" and few: "card {a \<in> nodes_of heads W. tick_of t a \<le> now_tick t} < MAX_TIMER_NODE_PER_TRY"
  shows "\<exists>xs u V. CheckTimer (pkg_expire env) t = Some (MT_TIMER_CHECK_INTVALUS, xs, u) \<and> distinct xs \<and>
    set xs = {a \<in> nodes_of heads W. tick_of t a \<le> now_tick t} \<and> sorted (map (tick_of t) xs) \<and> timers T {} u V \<and>
    (\<forall>b\<in>nodes_of heads W - set xs. b \<in> nodes_of heads V \<and> tm_nodes u b = tm_nodes t b) \<and>
    (\<forall>b\<in>nodes_of heads V - (nodes_of heads W - set xs). now_tick t < tick_of u b)"
proof -
  have "agent_env env T" using env by (simp add: agent_env_def)
  note agent_env.pkg_CheckTimer_due [OF this t few]
  then show ?thesis unfolding ran_def by blast
qed

theorem due_timers_run_witness:
  "\<exists>t W a u. timers 301000000 {} t W \<and> nodes_of heads W = {a} \<and> tn_OnExpire (tm_nodes t a) = Some () \<and>
    CheckTimer (pkg_expire quiet_env) t = Some (100000, [a], u)"
proof -
  obtain t :: "(unit, PKGSESSION) MtReportTimer" and a W where a: "timers 301000000 {} t W" "nodes_of heads W = {a}" "now_tick t = 30" "tick_of t a = 20" "tn_OnExpire (tm_nodes t a) = Some ()"
    using demo_armed by blast
  have due: "{b \<in> nodes_of heads W. tick_of t b \<le> now_tick t} = {a}" using a(2-4) by auto
  have env: "\<forall>x. unat x \<le> 301000000 \<longrightarrow> unat x \<le> unat (ev_clock quiet_env x) \<and> unat (ev_clock quiet_env x) \<le> 301000000"
    "length (ev_buf quiet_env) = TIMER_DATA_MAX_LENGTH" by (simp_all add: quiet_env_def)
  obtain xs u where r: "CheckTimer (pkg_expire quiet_env) t = Some (MT_TIMER_CHECK_INTVALUS, xs, u)" "distinct xs" "set xs = {a}"
    using due_timers_run [OF env a(1)] unfolding due by (auto simp: MAX_TIMER_NODE_PER_TRY_def)
  have "length xs = 1" using distinct_card [OF r(2)] r(3) by simp
  then obtain x where "xs = [x]" by (cases xs) auto
  then have "xs = [a]" using r(3) by simp
  then show ?thesis using r(1) a(1,2,5) unfolding MT_TIMER_CHECK_INTVALUS_def by blast
qed

text \<open>
  The limit of C4 matters. A run that is left after ten nodes stays at its slot; when this is slot 0 the next run cascades the second vector once
  more, one block too early. The nodes found there belong into the list they are in, which the loop appends to and then
  empties: a single node ends up linked to itself, outside of every list, and its function is never called.
\<close>

lemma cascade_again_loses:
  assumes h: "h = Vec 2 (tm_index t 2)" "tm_next t h = Nd x" "tm_prev t h = Nd x" "tm_next t (Nd x) = h" "timer_vec (tn_uiExpire (tm_nodes t x)) t = h"
  shows "\<exists>u. CascadeTimers 2 t = Some (0, u) \<and> tm_next u h = h \<and> tm_prev u h = h \<and> tm_next u (Nd x) = Nd x \<and> tm_prev u (Nd x) = Nd x"
proof -
  let ?t = "(upd_timer x (\<lambda>n. n\<lparr>tn_dwProcessId := tm_dwProcessId t\<rparr>) t)\<lparr>tm_prev := (tm_prev t)(h := Nd x, Nd x := Nd x), tm_next := (tm_next t)(Nd x := Nd x)\<rparr>"
  have ne: "Nd x \<noteq> h" "h \<noteq> Null" using h(1) by auto
  have "InternalAddTimer x t = Some ?t" using h(3-5) ne by (simp add: InternalAddTimer_def LIST_ADD_def upd_timer_def Let_def)
  then have step: "cascade_loop (Suc k) h (Nd x) t = Some (0, ?t)" for k
    using ne(1) h(4) by (simp add: cascade_loop.simps [of _ _ "Nd x"] cascade_loop.simps [of _ h h])
  have loop: "cascade_loop 10000 h (Nd x) t = Some (0, ?t)" using step [of 9999] by simp
  show ?thesis unfolding CascadeTimers_def Let_def h(1) [symmetric] h(2) loop using ne(1) by (simp add: INIT_LIST_HEAD_def)
qed

subsection \<open>Sending again\<close>

lemma UpdateTimer_effect:
  assumes "UpdateTimer malloc_ok now a d t = Some (0, u)" "tm_cIsInit t \<noteq> 0" "d \<noteq> []"
  shows "tm_sent u = tm_sent t" "tn_pDataPtr (tm_nodes u a) = Some d"
  using assms by (auto simp: UpdateTimer_def InternalAddTimer_def LIST_ADD_def upd_timer_def set_expire_def SetCurTime_def count_timer_def Let_def
      bind_eq_Some_conv split: if_splits)

text \<open>The commands whose packets are given up.\<close>

definition limited_cmds :: "u32 set" where
  "limited_cmds = {CMD_MONI_SEND_ATTR, CMD_MONI_SEND_STR_ATTR, CMD_MONI_SEND_LOG, CMD_MONI_SEND_PLUGIN_INFO}"

lemmas cmd_defs = CMD_MONI_SEND_HELLO_FIRST_def CMD_MONI_SEND_HELLO_def CMD_MONI_CHECK_LOG_CONFIG_def CMD_MONI_CHECK_APP_CONFIG_def
  CMD_MONI_CHECK_SYSTEM_CONFIG_def CMD_MONI_SEND_ATTR_def CMD_MONI_SEND_STR_ATTR_def CMD_MONI_SEND_LOG_def CMD_MONI_SEND_PLUGIN_INFO_def

lemma OnPkgExpire_limited:
  assumes "h_dwCmd (read_head (take sizeof_ReqPkgHead (drop 1 b))) \<in> limited_cmds"
  shows "OnPkgExpire env a n b t = (let b' = b[resend_ofs := b ! resend_ofs + 1] in
    if TRY_MAX_TIMES_PER_SERVER < b' ! resend_ofs then Some (0, t) else send_again env a (take n b') (double_timeout a t))"
  using assms unfolding limited_cmds_def OnPkgExpire_def SendAttrExpire_def SendAppLogExpire_def ReportPluginInfoExpire_def
  by (elim insertE emptyE) (simp_all add: cmd_defs)

lemma pkg_expire_limited:
  assumes "of_be (take 4 (drop 1 d)) \<in> limited_cmds" "15 \<le> length d"
  shows "pkg_expire env h a d t = (let d' = d[resend_ofs := d ! resend_ofs + 1] in
    if TRY_MAX_TIMES_PER_SERVER < d' ! resend_ofs then Some (0, t) else send_again env a d' (double_timeout a t))"
proof -
  define b where "b = drop (length d) (ev_buf env)"
  have "h_dwCmd (read_head (take sizeof_ReqPkgHead (drop 1 (d @ b)))) = of_be (take 4 (drop 1 d))"
    using assms(2) by (simp add: read_head_def sizeof_ReqPkgHead_def min_def)
  then have "h_dwCmd (read_head (take sizeof_ReqPkgHead (drop 1 (d @ b)))) \<in> limited_cmds" using assms(1) by simp
  moreover have "(d @ b)[resend_ofs := (d @ b) ! resend_ofs + 1] = d[resend_ofs := d ! resend_ofs + 1] @ b"
    using assms(2) by (simp add: resend_ofs_def nth_append list_update_append)
  ultimately show ?thesis using assms(2) unfolding pkg_expire_def b_def [symmetric] by (simp add: OnPkgExpire_limited Let_def nth_append resend_ofs_def)
qed

lemma double_timeout_node:
  assumes "expired_node t a d"
  shows "unat (tn_uiTimeOut (tm_nodes (double_timeout a t) a)) = min 60000 (2 * unat (tn_uiTimeOut (tm_nodes t a)))"
    "pkg_sess (tm_nodes (double_timeout a t') a) = pkg_sess (tm_nodes t' a)" "tm_socks (double_timeout a t) = tm_socks t" "tm_sent (double_timeout a t) = tm_sent t"
proof -
  have "unat (tn_uiTimeOut (tm_nodes t a) * 2) = unat (tn_uiTimeOut (tm_nodes t a)) * 2"
    using assms unat_mult_lem [of "tn_uiTimeOut (tm_nodes t a)" "2 :: u32"] by (simp add: expired_node_def)
  then show "unat (tn_uiTimeOut (tm_nodes (double_timeout a t) a)) = min 60000 (2 * unat (tn_uiTimeOut (tm_nodes t a)))"
    by (simp add: double_timeout_def upd_timer_def PKG_TIMEOUT_MAX_MS_def word_less_nat_alt)
qed (simp_all add: double_timeout_def upd_timer_def pkg_sess_def)

text \<open>A node that was taken out of the wheel, with the request of the example.\<close>

definition demo_expired :: "(unit, PKGSESSION) MtReportTimer" where
  "demo_expired = upd_timer 4496 (\<lambda>n. n\<lparr>tn_uiKey := 7, tn_uiTimeOut := 1000, tn_uiDataLen := 70, tn_sSessData := Some demo_session\<rparr>) demo_timer"

lemma demo_expired_ok:
  "timers 301000000 {} demo_expired (\<lambda>_. [])" "4496 \<notin> nodes_of heads (\<lambda>_. [])" "expired_node demo_expired 4496 demo_packet" "card (nodes_of heads (\<lambda>_. [])) < 10000"
proof -
  have "keyed demo_expired"
    by (auto simp: keyed_def demo_expired_def upd_timer_def demo_timer_def zero_node_def candidates_def STATIC_HASH_ROW_MAX_def)
  then show "timers 301000000 {} demo_expired (\<lambda>_. [])" unfolding demo_expired_def by (intro timers_at [OF demo_timers]) (simp add: empty_wheel)
  show "expired_node demo_expired 4496 demo_packet"
    by (simp add: expired_node_def demo_expired_def upd_timer_def demo_packet_def TIMER_DATA_MAX_LENGTH_def)
qed (simp_all add: empty_wheel)

text \<open>
  C3. The packets with attributes, logs and plugin data are sent again at most twice: when the timer of such a packet expires its
  counter goes up by one; while it is at most 2 the packet goes out on the socket of its session, and the timer is set
  again with twice the time, at most a minute; otherwise nothing is sent and the timer is given up.
\<close>

theorem resend_limited:
  fixes t :: "('h, PKGSESSION) MtReportTimer"
  assumes env: "\<forall>x. unat x \<le> T \<longrightarrow> unat x \<le> unat (ev_clock env x) \<and> unat (ev_clock env x) \<le> T" "ev_malloc env"
    and t: "timers T D t W" "a \<notin> nodes_of heads W" "expired_node t a d" "card (nodes_of heads W) < 10000"
    and cmd: "of_be (take 4 (drop 1 d)) \<in> limited_cmds" "15 \<le> length d"
    and sock: "0 \<le> ps_iSockIndex (pkg_sess (tm_nodes t a))" "ps_iSockIndex (pkg_sess (tm_nodes t a)) < MT_SOCKET_DEF_COUNT_MAX"
      "0 < sk_isock (tm_socks t ! nat (ps_iSockIndex (pkg_sess (tm_nodes t a))))"
  shows "if d ! resend_ofs + 1 \<le> TRY_MAX_TIMES_PER_SERVER
    then \<exists>u V. pkg_expire env h a d t = Some (1, u) \<and>
      tm_sent u = tm_sent t @ [(nat (ps_iSockIndex (pkg_sess (tm_nodes t a))), d[resend_ofs := d ! resend_ofs + 1])] \<and>
      timers T D u V \<and> nodes_of heads V = insert a (nodes_of heads W) \<and> tn_pDataPtr (tm_nodes u a) = Some (d[resend_ofs := d ! resend_ofs + 1]) \<and>
      due_of u a = now_of u + 1000 * max 1000 (min 60000 (2 * unat (tn_uiTimeOut (tm_nodes t a))))
    else pkg_expire env h a d t = Some (0, t)"
proof (cases "d ! resend_ofs + 1 \<le> TRY_MAX_TIMES_PER_SERVER")
  case False
  then have "TRY_MAX_TIMES_PER_SERVER < d[resend_ofs := d ! resend_ofs + 1] ! resend_ofs" using cmd(2) by (simp add: resend_ofs_def not_le)
  then have "pkg_expire env h a d t = Some (0, t)" unfolding pkg_expire_limited [OF cmd] Let_def by (rule if_P)
  then show ?thesis unfolding if_not_P [OF False] .
next
  case True
  let ?d = "d[resend_ofs := d ! resend_ofs + 1]" and ?i = "ps_iSockIndex (pkg_sess (tm_nodes t a))"
  define t1 where "t1 = double_timeout a t"
  note 1 = double_timeout_keeps [OF t(1-3), folded t1_def] and n1 = double_timeout_node [OF t(3), folded t1_def]
  obtain r t2 where s: "SendPacket ?i ?d t1 = (r, t2)" by fastforce
  have ne: "d \<noteq> []" using cmd(2) by auto
  have sent2: "tm_sent t2 = tm_sent t @ [(nat ?i, ?d)]" using s sock ne n1(3,4) by (auto simp: SendPacket_def Let_def)
  note 2 = SendPacket_keeps [OF 1(1) s]
  have e2: "expired_node t2 a ?d" using 1(3) 2(3) by (simp add: expired_node_def)
  define t3 where "t3 = mark_sent a r (length ?d) t2"
  note 3 = mark_sent_keeps [OF 2(1) t(2) e2, of r "length ?d", folded t3_def]
  have n3: "tm_sent t3 = tm_sent t2" "tn_uiTimeOut (tm_nodes t3 a) = tn_uiTimeOut (tm_nodes t1 a)" using 2(3) by (simp_all add: t3_def mark_sent_def upd_timer_def)
  let ?now = "ev_clock env (tm_qwCurTime t3)"
  have now: "now_of t3 \<le> unat ?now" "unat ?now \<le> T" using env(1) clock_okD(4) [OF timersD(3) [OF 3(1)]] by auto
  note e = 3(3) [unfolded expired_node_def]
  have tmo: "unat (tn_uiTimeOut (tm_nodes t3 a)) \<le> 4294967" using e by blast
  obtain u V where u: "UpdateTimer True ?now a ?d t3 = Some (0, u)" "armed T D a t3 W u V" "unat ?now = now_of u"
      "due_of u a = unat ?now + 1000 * max 1000 (unat (tn_uiTimeOut (tm_nodes t3 a)))"
    using UpdateTimer_keeps [OF 3(1) t(2) conjunct1 [OF e] t(4) now tmo conjunct1 [OF conjunct2 [OF e]] conjunct1 [OF conjunct2 [OF conjunct2 [OF e]]], of True] by auto
  have "?d \<noteq> []" using ne by simp
  note f = UpdateTimer_effect [OF u(1) clock_okD(1) [OF timersD(3) [OF 3(1)]] this]
  have ps: "pkg_sess (tm_nodes t1 a) = pkg_sess (tm_nodes t a)" unfolding t1_def by (rule n1(2))
  have "send_again env a ?d t1 = update_timer env a ?d t3" unfolding send_again_def ps s t3_def prod.case ..
  also have "\<dots> = Some (1, u)" using u(1) env(2) by (simp add: update_timer_def)
  finally have again: "send_again env a ?d t1 = Some (1, u)" .
  have "\<not> TRY_MAX_TIMES_PER_SERVER < ?d ! resend_ofs" using True cmd(2) by (simp add: resend_ofs_def not_less)
  then have "pkg_expire env h a d t = Some (1, u)" unfolding pkg_expire_limited [OF cmd] Let_def again [unfolded t1_def] by (rule if_not_P)
  moreover have "due_of u a = now_of u + 1000 * max 1000 (min 60000 (2 * unat (tn_uiTimeOut (tm_nodes t a))))" using u(3,4) n3(2) n1(1) by simp
  moreover have "tm_sent u = tm_sent t @ [(nat ?i, ?d)]" unfolding f(1) n3(1) by (rule sent2)
  ultimately show ?thesis using u(2) f(2) unfolding if_P [OF True] armed_def by blast
qed

theorem resend_limited_witness:
  "\<exists>u. pkg_expire quiet_env () 4496 demo_packet demo_expired = Some (1, u) \<and> tm_sent u = [(4, demo_packet[14 := 1])] \<and> due_of u 4496 = now_of u + 2000000"
proof -
  have env: "\<forall>x. unat x \<le> 301000000 \<longrightarrow> unat x \<le> unat (ev_clock quiet_env x) \<and> unat (ev_clock quiet_env x) \<le> 301000000" "ev_malloc quiet_env"
    by (simp_all add: quiet_env_def)
  have p: "demo_packet ! resend_ofs = 0" "15 \<le> length demo_packet" "take 4 (drop 1 demo_packet) = [0, 0, 0, 203]"
    by (simp_all add: demo_packet_def resend_ofs_def)
  have cmd: "of_be (take 4 (drop 1 demo_packet)) \<in> limited_cmds" unfolding p(3) by (simp add: of_be_def limited_cmds_def cmd_defs)
  have s: "ps_iSockIndex (pkg_sess (tm_nodes demo_expired 4496)) = 4" "tm_sent demo_expired = []" "sk_isock (tm_socks demo_expired ! 4) = 3"
    "unat (tn_uiTimeOut (tm_nodes demo_expired 4496)) = 1000"
    by (simp_all add: demo_expired_def upd_timer_def pkg_sess_def demo_session_def demo_timer_def)
  have c: "0 \<le> ps_iSockIndex (pkg_sess (tm_nodes demo_expired 4496))" "ps_iSockIndex (pkg_sess (tm_nodes demo_expired 4496)) < MT_SOCKET_DEF_COUNT_MAX"
    "0 < sk_isock (tm_socks demo_expired ! nat (ps_iSockIndex (pkg_sess (tm_nodes demo_expired 4496))))"
    unfolding s(1) by (simp_all add: s(3) MT_SOCKET_DEF_COUNT_MAX_def)
  have le: "demo_packet ! resend_ofs + 1 \<le> TRY_MAX_TIMES_PER_SERVER" unfolding p(1) TRY_MAX_TIMES_PER_SERVER_def by simp
  show ?thesis
    using resend_limited [OF env demo_expired_ok cmd p(2) c, of "()"] unfolding if_P [OF le] s(1,2,4)
    unfolding p(1) by (auto simp: resend_ofs_def)
qed

end
