(* ===== verification/Config_Sync.thy ===== *)
theory Config_Sync
  imports Packet Agent_Attr Log
begin

text \<open>
  The configuration of logs and applications in the shared segment, as the agent keeps it up to date
  (\<open>DealRespCheckLogConfig\<close> and \<open>DealRespCheckAppConfig\<close> of \<open>slog_mtreport_client/mtreport_protoc.cpp\<close>). An answer of the
  server is a list of TLVs, each of which adds, changes or removes an entry of an array sorted by number. The two functions have the
  same loop over different structures; the loop is modelled once, over a record with the differences.
\<close>

subsection \<open>The arrays\<close>

text \<open>\<open>SLogConfig\<close> with the sequence number that only the agent uses, and \<open>AppInfo\<close>.\<close>

record SyncConfig = SLogConfig +
  sc_dwSeq :: u32

record AppInfo =
  ai_iAppId :: u32
  ai_dwAppSrvMaster :: u32
  ai_wLogSrvPort :: u16
  ai_bAppType :: u8
  ai_wModuleCount :: u16
  ai_dwSeq :: u32
  ai_dwLastTrySendLogTime :: u32
  ai_dwTrySendCount :: u32
  ai_dwSendOkCount :: u32
  ai_dwTrySendFailedCount :: u32

text \<open>The part of \<open>MTREPORT_SHM\<close>: number of entries used and array.\<close>

record ConfigShm =
  cs_dwLastSyncAppConfigTime :: u32
  cs_app :: "u16 \<times> AppInfo list"
  cs_dwLastSyncLogConfigTime :: u32
  cs_log :: "u16 \<times> SyncConfig list"

definition MAX_LOG_CONFIG_COUNT :: nat where "MAX_LOG_CONFIG_COUNT = 1050"
definition MAX_APP_COUNT :: nat where "MAX_APP_COUNT = 120"
definition MAX_SLOG_TEST_KEYS_PER_CONFIG :: nat where "MAX_SLOG_TEST_KEYS_PER_CONFIG = 10"

definition TLV_MONI_CONFIG_ADD :: u16 where "TLV_MONI_CONFIG_ADD = 205"
definition TLV_MONI_CONFIG_MOD :: u16 where "TLV_MONI_CONFIG_MOD = 206"
definition TLV_MONI_CONFIG_DEL :: u16 where "TLV_MONI_CONFIG_DEL = 207"
definition ERR_CHECK_DATA_FAILED :: int where "ERR_CHECK_DATA_FAILED = 80"

text \<open>Both comparisons look at the numbers only; the second one subtracts \<open>int32_t\<close>.\<close>

definition CmpSLogConfig :: "u32 \<Rightarrow> u32 \<Rightarrow> int" where
  "CmpSLogConfig a b = (if b < a then 1 else if a < b then -1 else 0)"

definition CmpAppConfig :: "u32 \<Rightarrow> u32 \<Rightarrow> int" where
  "CmpAppConfig a b = sint (a - b)"

subsection \<open>The structures on the wire\<close>

text \<open>\<open>MtSLogConfig\<close> after the change of the byte order; \<open>n_stTestKeys\<close> has the bytes of the first \<open>wTestKeyCount\<close> keys.\<close>

record MtSLogConfig =
  n_dwSeq :: u32
  n_dwCfgId :: u32
  n_iAppId :: u32
  n_iModuleId :: u32
  n_iLogType :: u32
  n_dwSpeedFreq :: u32
  n_wTestKeyCount :: u16
  n_stTestKeys :: "u8 list"

record MtAppInfo =
  n_app_iAppId :: u32
  n_app_bAppType :: u8
  n_app_wModuleCount :: u16
  n_app_dwSeq :: u32
  n_app_wLogSrvPort :: u16
  n_app_dwAppSrvMaster :: u32

definition sizeof_SLogTestKey :: nat where "sizeof_SLogTestKey = 22"

definition LOG_CONFIG_NTOH :: "u8 list \<Rightarrow> MtSLogConfig option" where
  "LOG_CONFIG_NTOH p =
     (if length p < 26 then None
      else let cnt = of_be (take 2 (drop 24 p)) in
        Some \<lparr>n_dwSeq = of_be (take 4 p), n_dwCfgId = of_be (take 4 (drop 4 p)), n_iAppId = of_be (take 4 (drop 8 p)), n_iModuleId = of_be (take 4 (drop 12 p)),
          n_iLogType = of_be (take 4 (drop 16 p)), n_dwSpeedFreq = of_be (take 4 (drop 20 p)), n_wTestKeyCount = cnt,
          n_stTestKeys = take (sizeof_SLogTestKey * unat cnt) (drop 26 p)\<rparr>)"

definition APP_CONFIG_NTOH :: "u8 list \<Rightarrow> MtAppInfo option" where
  "APP_CONFIG_NTOH p =
     (if length p < 17 then None
      else Some \<lparr>n_app_iAppId = of_be (take 4 p), n_app_bAppType = p ! 4, n_app_wModuleCount = of_be (take 2 (drop 5 p)), n_app_dwSeq = of_be (take 4 (drop 7 p)),
          n_app_wLogSrvPort = of_be (take 2 (drop 11 p)), n_app_dwAppSrvMaster = of_be (take 4 (drop 13 p))\<rparr>)"

definition read_key :: "u8 list \<Rightarrow> nat \<Rightarrow> SLogTestKey" where
  "read_key p i = \<lparr>bKeyType = p ! (sizeof_SLogTestKey * i), szKeyValue = take 21 (drop (sizeof_SLogTestKey * i + 1) p)\<rparr>"

text \<open>
  \<open>NET_LOG_CONFIG_TO_LOCAL\<close>: the \<open>memcpy\<close> of the keys stays inside both arrays when \<open>keys_fit\<close>.
\<close>

definition keys_fit :: "MtSLogConfig \<Rightarrow> bool" where
  "keys_fit n \<longleftrightarrow> unat (n_wTestKeyCount n) \<le> MAX_SLOG_TEST_KEYS_PER_CONFIG \<and> length (n_stTestKeys n) = sizeof_SLogTestKey * unat (n_wTestKeyCount n)"

definition NET_LOG_CONFIG_TO_LOCAL :: "MtSLogConfig \<Rightarrow> SyncConfig \<Rightarrow> SyncConfig" where
  "NET_LOG_CONFIG_TO_LOCAL n c =
     (let cnt = unat (n_wTestKeyCount n) in c\<lparr>sc_dwSeq := n_dwSeq n, dwCfgId := n_dwCfgId n, cfg_iAppId := n_iAppId n, cfg_iModuleId := n_iModuleId n,
        cfg_iLogType := n_iLogType n, dwSpeedFreq := n_dwSpeedFreq n, wTestKeyCount := n_wTestKeyCount n,
        stTestKeys := map (read_key (n_stTestKeys n)) [0..<cnt] @ drop cnt (stTestKeys c)\<rparr>)"

definition NET_APP_CONFIG_TO_LOCAL :: "MtAppInfo \<Rightarrow> AppInfo \<Rightarrow> AppInfo" where
  "NET_APP_CONFIG_TO_LOCAL n c = c\<lparr>ai_iAppId := n_app_iAppId n, ai_dwAppSrvMaster := n_app_dwAppSrvMaster n, ai_wLogSrvPort := n_app_wLogSrvPort n,
     ai_bAppType := n_app_bAppType n, ai_wModuleCount := n_app_wModuleCount n, ai_dwSeq := n_app_dwSeq n\<rparr>"

definition zero_SLogConfig :: SyncConfig where
  "zero_SLogConfig = \<lparr>dwCfgId = 0, cfg_iAppId = 0, cfg_iModuleId = 0, cfg_iLogType = 0, wTestKeyCount = 0,
     stTestKeys = replicate MAX_SLOG_TEST_KEYS_PER_CONFIG \<lparr>bKeyType = 0, szKeyValue = replicate 21 0\<rparr>, dwSpeedFreq = 0, bLogFreqUseFlag = 0,
     iWriteLogCount = 0, qwLastFreqTime = 0, sc_dwSeq = 0\<rparr>"

definition zero_AppInfo :: AppInfo where
  "zero_AppInfo = \<lparr>ai_iAppId = 0, ai_dwAppSrvMaster = 0, ai_wLogSrvPort = 0, ai_bAppType = 0, ai_wModuleCount = 0, ai_dwSeq = 0,
     ai_dwLastTrySendLogTime = 0, ai_dwTrySendCount = 0, ai_dwSendOkCount = 0, ai_dwTrySendFailedCount = 0\<rparr>"

subsection \<open>The loop\<close>

text \<open>What the two functions differ in.\<close>

record ('n, 'c) cfg_kind =
  ck_ntoh :: "u8 list \<Rightarrow> 'n option"
  ck_fits :: "'n \<Rightarrow> bool"
  ck_local :: "'n \<Rightarrow> 'c \<Rightarrow> 'c"
  ck_id :: "'n \<Rightarrow> u32"
  ck_key :: "'c \<Rightarrow> u32"
  ck_cmp :: "u32 \<Rightarrow> u32 \<Rightarrow> int"
  ck_zero :: 'c
  ck_max :: nat

definition log_kind :: "(MtSLogConfig, SyncConfig) cfg_kind" where
  "log_kind = \<lparr>ck_ntoh = LOG_CONFIG_NTOH, ck_fits = keys_fit, ck_local = NET_LOG_CONFIG_TO_LOCAL, ck_id = n_dwCfgId, ck_key = dwCfgId, ck_cmp = CmpSLogConfig,
     ck_zero = zero_SLogConfig, ck_max = MAX_LOG_CONFIG_COUNT\<rparr>"

definition app_kind :: "(MtAppInfo, AppInfo) cfg_kind" where
  "app_kind = \<lparr>ck_ntoh = APP_CONFIG_NTOH, ck_fits = (\<lambda>_. True), ck_local = NET_APP_CONFIG_TO_LOCAL, ck_id = n_app_iAppId, ck_key = ai_iAppId, ck_cmp = CmpAppConfig,
     ck_zero = zero_AppInfo, ck_max = MAX_APP_COUNT\<rparr>"

definition cfg_add :: "('n, 'c) cfg_kind \<Rightarrow> 'n \<Rightarrow> u16 \<times> 'c list \<Rightarrow> (u16 \<times> 'c list) option" where
  "cfg_add K c st = (case st of (n, cs) \<Rightarrow>
     if \<not> ck_fits K c then None
     else let cs = cs[unat n := ck_local K c (ck_zero K)]; n = n + 1 in
       Some (n, qsort (\<lambda>a b. ck_cmp K (ck_key K a) (ck_key K b)) (take (unat n) cs) @ drop (unat n) cs))"

definition cfg_mod :: "('n, 'c) cfg_kind \<Rightarrow> 'n \<Rightarrow> nat \<Rightarrow> u16 \<times> 'c list \<Rightarrow> (u16 \<times> 'c list) option" where
  "cfg_mod K c idx st = (case st of (n, cs) \<Rightarrow> if \<not> ck_fits K c then None else Some (n, cs[idx := ck_local K c (cs ! idx)]))"

definition cfg_del :: "nat \<Rightarrow> u16 \<times> 'c list \<Rightarrow> u16 \<times> 'c list" where
  "cfg_del idx st = (case st of (n, cs) \<Rightarrow> (n - 1, take idx cs @ take (unat n - 1 - idx) (drop (idx + 1) cs) @ drop (unat n - 1) cs))"

text \<open>
  Which log lines are printed: a line of the loop prints \<open>pcfg->dwCfgId\<close>, and \<open>pcfg\<close> is null until the first TLV that
  adds or changes an entry.
\<close>

record SyncLog =
  sl_error :: bool
  sl_info :: "int \<Rightarrow> bool"

partial_function (option) cfg_loop :: "('n, 'c) cfg_kind \<Rightarrow> SyncLog \<Rightarrow> u8 list \<Rightarrow> int \<Rightarrow> 'n option \<Rightarrow> u16 \<times> 'c list \<Rightarrow> (u16 \<times> 'c list) option" where
  "cfg_loop K lg b iTlvIdx pcfg st = do {
     (pTlv, iTlvIdx) \<leftarrow> GetWTlvType2_list b iTlvIdx;
     case pTlv of None \<Rightarrow> Some st
     | Some ofs \<Rightarrow> do {
         let wType = tlv_type (drop ofs b);
         let sValue = drop (ofs + sizeof_TWTlv) b;
         pcfg \<leftarrow> (if wType = TLV_MONI_CONFIG_MOD \<or> wType = TLV_MONI_CONFIG_ADD then map_option Some (ck_ntoh K sValue) else Some pcfg);
         if wType = TLV_MONI_CONFIG_ADD then
           if ck_max K \<le> unat (fst st) then Some st
           else do { c \<leftarrow> pcfg; st \<leftarrow> cfg_add K c st; cfg_loop K lg b iTlvIdx pcfg st }
         else do {
           key \<leftarrow> (if wType \<noteq> TLV_MONI_CONFIG_MOD then if length sValue < 4 then None else Some (of_be (take 4 sValue)) else map_option (ck_id K) pcfg);
           case bsearch (\<lambda>c. ck_cmp K key (ck_key K c)) (take (unat (fst st)) (snd st)) of
             None \<Rightarrow> if sl_error lg \<and> pcfg = None then None else cfg_loop K lg b iTlvIdx pcfg st
           | Some idx \<Rightarrow> do {
               st \<leftarrow> (if wType = TLV_MONI_CONFIG_MOD then do { c \<leftarrow> pcfg; cfg_mod K c idx st } else Some (cfg_del idx st));
               if sl_info lg iTlvIdx \<and> pcfg = None then None else cfg_loop K lg b iTlvIdx pcfg st
             }
         }
       }
   }"

subsection \<open>The functions\<close>

text \<open>
  The bytes of the command content up to the end of the buffer they are in, and its length. \<open>decipher\<close> stands for \<open>aes_decipher_data\<close> with the
  key of the segment: what is in the static buffer afterwards, and the length.
\<close>

definition cfg_body :: "bool \<Rightarrow> (u8 list \<Rightarrow> u8 list \<times> u16) \<Rightarrow> 'a CBasicPacket_scheme \<Rightarrow> u8 list \<times> u16" where
  "cfg_body iEnableEncryptData decipher pkg =
     (let content = (case m_pstCmdContent pkg of None \<Rightarrow> [] | Some ofs \<Rightarrow> drop ofs (m_pReqPkg pkg)) in
      if iEnableEncryptData then decipher (take (unat (m_wCmdContentLen pkg)) content) else (content, m_wCmdContentLen pkg))"

definition DealRespCheckLogConfig :: "bool \<Rightarrow> (u8 list \<Rightarrow> u8 list \<times> u16) \<Rightarrow> SyncLog \<Rightarrow> u32 \<Rightarrow> 'a CBasicPacket_scheme \<Rightarrow> ConfigShm \<Rightarrow> (int \<times> ConfigShm) option" where
  "DealRespCheckLogConfig enc decipher lg now pkg s =
     (if int (unat (m_bRetCode pkg)) \<noteq> NO_ERROR then Some (int (unat (m_bRetCode pkg)), s)
      else case cfg_body enc decipher pkg of (b, iBufLen) \<Rightarrow> do {
        rc \<leftarrow> CheckPkgBody b iBufLen;
        if rc < 0 then Some (ERR_CHECK_DATA_FAILED, s)
        else do {
          st \<leftarrow> cfg_loop log_kind lg b 0 None (cs_log s);
          Some (0, s\<lparr>cs_log := st, cs_dwLastSyncLogConfigTime := now\<rparr>)
        }
      })"

definition DealRespCheckAppConfig :: "bool \<Rightarrow> (u8 list \<Rightarrow> u8 list \<times> u16) \<Rightarrow> SyncLog \<Rightarrow> u32 \<Rightarrow> 'a CBasicPacket_scheme \<Rightarrow> ConfigShm \<Rightarrow> (int \<times> ConfigShm) option" where
  "DealRespCheckAppConfig enc decipher lg now pkg s =
     (if int (unat (m_bRetCode pkg)) \<noteq> NO_ERROR then Some (int (unat (m_bRetCode pkg)), s)
      else case cfg_body enc decipher pkg of (b, iBufLen) \<Rightarrow> do {
        rc \<leftarrow> CheckPkgBody b iBufLen;
        if rc < 0 then Some (ERR_CHECK_DATA_FAILED, s)
        else do {
          st \<leftarrow> cfg_loop app_kind lg b 0 None (cs_app s);
          Some (0, s\<lparr>cs_app := st, cs_dwLastSyncAppConfigTime := now\<rparr>)
        }
      })"

end
