(* ===== verification/Config_Sync_Props.thy ===== *)
theory Config_Sync_Props
  imports Config_Sync Agent_Attr_Props Packet_Props
begin

text \<open>
  The arrays of configurations are finite maps from numbers to entries, sorted for the search. An answer of the server that was
  built with \<open>SetWTlv\<close> is applied to the map change by change. The locale \<open>config_kind\<close> has what the loop needs of the
  structures; logs and applications are its two interpretations.
\<close>

subsection \<open>Sorted arrays\<close>

lemma set_insert_by [simp]: "set (insert_by cmp x ys) = insert x (set ys)"
  by (induction ys) auto

lemma set_qsort: "set (qsort cmp xs) = set xs"
  by (rule mset_eq_setD [OF mset_qsort])

lemma sorted_insert_by:
  fixes key :: "'a \<Rightarrow> 'k :: linorder"
  assumes "\<And>y. y \<in> set ys \<Longrightarrow> 0 < cmp x y \<longleftrightarrow> key y < key x" "sorted (map key ys)"
  shows "sorted (map key (insert_by cmp x ys))"
  using assms by (induction ys) (auto simp: not_less intro: order_trans)

lemma sorted_qsort:
  fixes key :: "'a \<Rightarrow> 'k :: linorder"
  assumes "\<And>x y. x \<in> set xs \<Longrightarrow> y \<in> set xs \<Longrightarrow> 0 < cmp x y \<longleftrightarrow> key y < key x"
  shows "sorted (map key (qsort cmp xs))"
  using assms
proof (induction xs)
  case (Cons x xs)
  have "set (foldr (insert_by cmp) xs []) = set xs" using set_qsort [of cmp xs] by (simp add: qsort_def)
  then show ?case using Cons by (auto simp: qsort_def intro!: sorted_insert_by)
qed (simp add: qsort_def)

lemma bsearch_from_misses:
  fixes key :: "'a \<Rightarrow> 'k :: linorder"
  assumes "bsearch_from cmp xs l u = None" "u \<le> length xs" "sorted (map key xs)"
    "\<And>x. x \<in> set xs \<Longrightarrow> (0 < cmp x \<longleftrightarrow> key x < k) \<and> (cmp x < 0 \<longleftrightarrow> k < key x)" "l \<le> j" "j < u"
  shows "key (xs ! j) \<noteq> k"
  using assms(1,2,5,6)
proof (induction "u - l" arbitrary: l u rule: less_induct)
  case less
  let ?i = "(l + u) div 2"
  have i: "l \<le> ?i" "?i < u" using less.prems by auto
  have mono: "p \<le> q \<Longrightarrow> q < length xs \<Longrightarrow> key (xs ! p) \<le> key (xs ! q)" for p q using sorted_nth_mono [OF assms(3), of p q] by simp
  have cmp: "(0 < cmp (xs ! ?i) \<longleftrightarrow> key (xs ! ?i) < k) \<and> (cmp (xs ! ?i) < 0 \<longleftrightarrow> k < key (xs ! ?i))" using assms(4) i less.prems(2) by simp
  consider "cmp (xs ! ?i) < 0" "bsearch_from cmp xs l ?i = None" | "0 < cmp (xs ! ?i)" "bsearch_from cmp xs (Suc ?i) u = None"
    using less.prems(1) i by (subst (asm) (3) bsearch_from.simps) (auto simp: Let_def split: if_splits)
  then show ?case
  proof cases
    case 1
    show ?thesis
    proof (cases "j < ?i")
      case True
      then show ?thesis using less.hyps [of ?i l] 1 i less.prems by simp
    next
      case False
      then have "key (xs ! ?i) \<le> key (xs ! j)" using mono less.prems by simp
      then show ?thesis using 1 cmp by auto
    qed
  next
    case 2
    show ?thesis
    proof (cases "?i < j")
      case True
      then show ?thesis using less.hyps [of u "Suc ?i"] 2 i less.prems by simp
    next
      case False
      then have "key (xs ! j) \<le> key (xs ! ?i)" using mono i less.prems by simp
      then show ?thesis using 2 cmp by auto
    qed
  qed
qed

lemma bsearch_sorted:
  fixes key :: "'a \<Rightarrow> 'k :: linorder"
  assumes "sorted (map key xs)" "\<And>x. x \<in> set xs \<Longrightarrow> (0 < cmp x \<longleftrightarrow> key x < k) \<and> (cmp x < 0 \<longleftrightarrow> k < key x)"
  shows "case bsearch cmp xs of None \<Rightarrow> \<forall>x\<in>set xs. key x \<noteq> k | Some i \<Rightarrow> i < length xs \<and> key (xs ! i) = k"
proof (cases "bsearch cmp xs")
  case None
  then have "key (xs ! j) \<noteq> k" if "j < length xs" for j
    using bsearch_from_misses [of cmp xs 0 "length xs" key k j] assms that by (simp add: bsearch_def)
  then have "\<forall>x\<in>set xs. key x \<noteq> k" by (metis in_set_conv_nth)
  then show ?thesis using None by simp
next
  case (Some i)
  then have "i < length xs" "cmp (xs ! i) = 0" using bsearch_hit by blast+
  then show ?thesis using Some assms(2) [of "xs ! i"] by auto
qed

subsection \<open>Lists of TLVs\<close>

definition enc_tlv :: "u16 \<times> u8 list \<Rightarrow> u8 list" where
  "enc_tlv x = SetWTlv (fst x) (of_nat (length (snd x))) (snd x)"

definition tlv_bytes :: "(u16 \<times> u8 list) list \<Rightarrow> u8 list" where
  "tlv_bytes xs = concat (map enc_tlv xs)"

lemma tlv_bytes_simps [simp]: "tlv_bytes [] = []" "tlv_bytes (x # xs) = enc_tlv x @ tlv_bytes xs"
  by (simp_all add: tlv_bytes_def)

lemma be16_length [simp]: "length (be16 x) = 2"
  by (simp add: be16_def)

lemma enc_tlv_parts:
  assumes "length (snd x) < 2 ^ 16"
  shows "length (enc_tlv x) = 4 + length (snd x)" "tlv_type (enc_tlv x @ r) = fst x" "tlv_len (enc_tlv x @ r) = length (snd x)"
    "drop (4 + length (snd x)) (enc_tlv x @ r) = r" "drop 4 (enc_tlv x @ r) = snd x @ r"
proof -
  have u: "unat (of_nat (length (snd x)) :: u16) = length (snd x)" using assms by (simp add: unat_of_nat)
  have e: "enc_tlv x = be16 (fst x) @ be16 (of_nat (length (snd x))) @ snd x" unfolding enc_tlv_def SetWTlv_def u by simp
  show "length (enc_tlv x) = 4 + length (snd x)" "drop 4 (enc_tlv x @ r) = snd x @ r" by (simp_all add: e)
  then show "drop (4 + length (snd x)) (enc_tlv x @ r) = r" by simp
  show "tlv_type (enc_tlv x @ r) = fst x" "tlv_len (enc_tlv x @ r) = length (snd x)" using u by (simp_all add: e tlv_type_def tlv_len_def)
qed

lemma tlv_scan_nth:
  assumes "\<forall>x\<in>set xs. length (snd x) < 2 ^ 16" "i \<le> s" "s < i + length xs"
  shows "tlv_scan (\<lambda>i t. int s \<le> int i) (length xs) i ofs (tlv_bytes xs @ r) = Some (Some (s, ofs + length (tlv_bytes (take (s - i) xs))))"
  using assms
proof (induction xs arbitrary: i ofs)
  case (Cons x xs)
  have x: "length (snd x) < 2 ^ 16" using Cons.prems(1) by simp
  note e = enc_tlv_parts(1) [OF x] enc_tlv_parts(2-5) [OF x, of "tlv_bytes xs @ r"]
  show ?case
  proof (cases "s = i")
    case True
    then show ?thesis using e(1) by (simp add: sizes)
  next
    case False
    then obtain d where d: "s - i = Suc d" "s - Suc i = d" using Cons.prems(2) by (cases "s - i") auto
    have "tlv_scan (\<lambda>i t. int s \<le> int i) (length xs) (Suc i) (ofs + 4 + length (snd x)) (tlv_bytes xs @ r)
        = Some (Some (s, (ofs + 4 + length (snd x)) + length (tlv_bytes (take d xs))))"
      using Cons.IH [of "Suc i" "ofs + 4 + length (snd x)"] Cons.prems False d by simp
    then show ?thesis using e False Cons.prems(2) d by (simp add: sizes)
  qed
qed simp

lemma GetWTlvType2_list_nth:
  assumes "\<forall>x\<in>set xs. length (snd x) < 2 ^ 16" "length xs < 256" "s \<le> length xs"
  shows "GetWTlvType2_list (of_nat (length xs) # tlv_bytes xs @ r) (int s)
    = Some (if s = length xs then (None, int s) else (Some (1 + length (tlv_bytes (take s xs))), int s + 1))"
proof -
  have n: "unat (of_nat (length xs) :: u8) = length xs" using assms(2) by (simp add: unat_of_nat)
  show ?thesis using tlv_scan_nth [OF assms(1), of 0 s 1 r] assms(3) n by (auto simp: GetWTlvType2_list_def sizes)
qed

lemma drop_tlv_bytes:
  assumes "s < length xs"
  shows "drop (1 + length (tlv_bytes (take s xs))) (h # tlv_bytes xs @ r) = enc_tlv (xs ! s) @ tlv_bytes (drop (Suc s) xs) @ r"
proof -
  have "tlv_bytes xs = tlv_bytes (take s xs) @ tlv_bytes (xs ! s # drop (Suc s) xs)"
    using id_take_nth_drop [OF assms] unfolding tlv_bytes_def by (metis concat_append map_append)
  then show ?thesis by simp
qed

lemma check_tlvs_bytes:
  assumes "\<forall>x\<in>set xs. length (snd x) < 2 ^ 16" "length (tlv_bytes xs) < 2 ^ 16"
  shows "check_tlvs (length xs) (tlv_bytes xs @ r) (of_nat (length (tlv_bytes xs))) = Some 0"
  using assms
proof (induction xs)
  case (Cons x xs)
  have x: "length (snd x) < 2 ^ 16" using Cons.prems(1) by simp
  note e = enc_tlv_parts(1) [OF x] enc_tlv_parts(2-5) [OF x, of "tlv_bytes xs @ r"]
  let ?w = "of_nat (length (tlv_bytes (x # xs))) :: u16"
  have "unat ?w = length (tlv_bytes (x # xs))" using Cons.prems(2) unfolding unat_of_nat by (intro mod_less) simp
  then have w: "unat ?w = 4 + length (snd x) + length (tlv_bytes xs)" using e(1) by simp
  have "?w - of_nat (length (snd x) + 4) = of_nat (length (tlv_bytes xs))" using e(1) by simp
  then show ?case using Cons e w by (simp add: sizes add.commute)
qed simp

subsection \<open>The arrays as maps\<close>

definition cfg_used :: "u16 \<times> 'c list \<Rightarrow> 'c list" where
  "cfg_used st = take (unat (fst st)) (snd st)"

definition cfg_view :: "('n, 'c) cfg_kind \<Rightarrow> u16 \<times> 'c list \<Rightarrow> u32 \<rightharpoonup> 'c" where
  "cfg_view K st = map_of (map (\<lambda>c. (ck_key K c, c)) (cfg_used st))"

text \<open>\<open>ord\<close> is the order of the numbers the comparison follows for the numbers that satisfy \<open>num\<close>.\<close>

definition cfg_table_ok :: "('n, 'c) cfg_kind \<Rightarrow> (u32 \<Rightarrow> int) \<Rightarrow> (u32 \<Rightarrow> bool) \<Rightarrow> u16 \<times> 'c list \<Rightarrow> bool" where
  "cfg_table_ok K ord num st \<longleftrightarrow> length (snd st) = ck_max K \<and> unat (fst st) \<le> ck_max K \<and> (\<forall>c\<in>set (cfg_used st). num (ck_key K c)) \<and>
     sorted_wrt (<) (map (\<lambda>c. ord (ck_key K c)) (cfg_used st))"

datatype 'n cfg_change = CfgAdd 'n | CfgMod 'n | CfgDel u32

fun apply_change :: "('n, 'c) cfg_kind \<Rightarrow> (u32 \<rightharpoonup> 'c) \<Rightarrow> 'n cfg_change \<Rightarrow> u32 \<rightharpoonup> 'c" where
  "apply_change K m (CfgAdd n) = m(ck_id K n \<mapsto> ck_local K n (ck_zero K))"
| "apply_change K m (CfgMod n) = (case m (ck_id K n) of None \<Rightarrow> m | Some c \<Rightarrow> m(ck_id K n \<mapsto> ck_local K n c))"
| "apply_change K m (CfgDel i) = m(i := None)"

lemma strict_keys:
  fixes f :: "'k \<Rightarrow> int"
  assumes "sorted_wrt (<) (map (\<lambda>c. f (g c)) xs)"
  shows "distinct (map g xs)" "sorted (map (\<lambda>c. f (g c)) xs)"
  using assms by (induction xs) (auto simp: less_imp_le)

lemma cfg_table_okD:
  assumes "cfg_table_ok K ord num st"
  shows "length (snd st) = ck_max K" "unat (fst st) \<le> ck_max K" "\<And>c. c \<in> set (cfg_used st) \<Longrightarrow> num (ck_key K c)"
    "sorted_wrt (<) (map (\<lambda>c. ord (ck_key K c)) (cfg_used st))" "distinct (map (ck_key K) (cfg_used st))"
    "sorted (map (\<lambda>c. ord (ck_key K c)) (cfg_used st))"
proof -
  show s: "sorted_wrt (<) (map (\<lambda>c. ord (ck_key K c)) (cfg_used st))" using assms by (simp add: cfg_table_ok_def)
  show "distinct (map (ck_key K) (cfg_used st))" "sorted (map (\<lambda>c. ord (ck_key K c)) (cfg_used st))"
    using strict_keys [of ord "ck_key K", OF s] by blast+
qed (use assms in \<open>auto simp: cfg_table_ok_def\<close>)

lemma view_none: "cfg_view K st i = None \<longleftrightarrow> i \<notin> ck_key K ` set (cfg_used st)"
  by (simp add: cfg_view_def map_of_eq_None_iff image_image)

lemma cfg_used_update:
  assumes "length cs = m" "unat n < m" "m < 2 ^ 16"
  shows "unat (n + 1 :: u16) = unat n + 1" "take (unat n + 1) (cs[unat n := x]) = take (unat n) cs @ [x]"
proof -
  show "unat (n + 1 :: u16) = unat n + 1" using unat_add_lem [of n "1 :: u16"] assms(2,3) by simp
  show "take (unat n + 1) (cs[unat n := x]) = take (unat n) cs @ [x]" using assms(1,2) by (simp add: take_Suc_conv_app_nth)
qed

text \<open>What the loop needs of the structures.\<close>

locale config_kind =
  fixes K :: "('n, 'c) cfg_kind" and wire :: "'n \<Rightarrow> u8 list" and valid :: "'n \<Rightarrow> bool" and ord :: "u32 \<Rightarrow> int" and num :: "u32 \<Rightarrow> bool"
  assumes ntoh_wire: "\<And>n r. valid n \<Longrightarrow> ck_ntoh K (wire n @ r) = Some n"
    and wire_length: "\<And>n. valid n \<Longrightarrow> length (wire n) < 2 ^ 16"
    and valid_fits: "\<And>n. valid n \<Longrightarrow> ck_fits K n \<and> num (ck_id K n)"
    and key_local: "\<And>n c. ck_key K (ck_local K n c) = ck_id K n"
    and cmp_ord: "\<And>a b. num a \<Longrightarrow> num b \<Longrightarrow> (0 < ck_cmp K a b \<longleftrightarrow> ord b < ord a) \<and> (ck_cmp K a b < 0 \<longleftrightarrow> ord a < ord b)"
    and ord_inj: "\<And>a b. num a \<Longrightarrow> num b \<Longrightarrow> ord a = ord b \<Longrightarrow> a = b"
    and max_small: "ck_max K < 2 ^ 16"
begin

lemma search_used:
  assumes t: "cfg_table_ok K ord num st" and i: "num i"
  shows "case bsearch (\<lambda>c. ck_cmp K i (ck_key K c)) (cfg_used st) of None \<Rightarrow> cfg_view K st i = None
    | Some k \<Rightarrow> k < length (cfg_used st) \<and> ck_key K (cfg_used st ! k) = i \<and> cfg_view K st i = Some (cfg_used st ! k)"
proof -
  let ?xs = "cfg_used st"
  note nm = cfg_table_okD(3) [OF t] and st = cfg_table_okD(5,6) [OF t]
  have b: "case bsearch (\<lambda>c. ck_cmp K i (ck_key K c)) ?xs of None \<Rightarrow> \<forall>x\<in>set ?xs. ord (ck_key K x) \<noteq> ord i | Some k \<Rightarrow> k < length ?xs \<and> ord (ck_key K (?xs ! k)) = ord i"
    using cmp_ord [OF i] nm by (intro bsearch_sorted [OF st(2)]) auto
  show ?thesis
  proof (cases "bsearch (\<lambda>c. ck_cmp K i (ck_key K c)) ?xs")
    case None
    then have "i \<notin> ck_key K ` set ?xs" using b by auto
    then show ?thesis using None view_none [of K st i] by simp
  next
    case (Some k)
    then have k: "k < length ?xs" "ord (ck_key K (?xs ! k)) = ord i" using b by auto
    then have key: "ck_key K (?xs ! k) = i" using ord_inj i nm by simp
    have "(i, ?xs ! k) \<in> set (map (\<lambda>c. (ck_key K c, c)) ?xs)" using k(1) key by force
    then have "cfg_view K st i = Some (?xs ! k)" unfolding cfg_view_def using st(1) by (intro map_of_is_SomeI) (simp_all add: comp_def)
    then show ?thesis using Some k(1) key by simp
  qed
qed

lemma cfg_add_applies:
  assumes t: "cfg_table_ok K ord num st" and n: "valid n" "cfg_view K st (ck_id K n) = None" and room: "unat (fst st) < ck_max K"
  shows "\<exists>st'. cfg_add K n st = Some st' \<and> cfg_table_ok K ord num st' \<and> cfg_view K st' = apply_change K (cfg_view K st) (CfgAdd n) \<and> unat (fst st') = unat (fst st) + 1"
proof -
  obtain m cs where st: "st = (m, cs)" by (cases st)
  define x where "x = ck_local K n (ck_zero K)"
  let ?q = "qsort (\<lambda>a b. ck_cmp K (ck_key K a) (ck_key K b)) (cfg_used st @ [x])"
  have len: "length cs = ck_max K" "unat m < ck_max K" using t room by (simp_all add: cfg_table_ok_def st)
  note u = cfg_used_update [OF len max_small]
  define st' where "st' = (m + 1, ?q @ drop (unat m + 1) cs)"
  have add: "cfg_add K n st = Some st'" using valid_fits [OF n(1)] u len by (simp add: cfg_add_def st st'_def x_def cfg_used_def)
  have lq: "length ?q = unat m + 1" using len by (simp add: length_qsort cfg_used_def st)
  have used: "cfg_used st' = ?q" using lq u(1) by (simp add: cfg_used_def st'_def)
  have keys: "ck_key K x = ck_id K n" "num (ck_id K n)" using key_local valid_fits [OF n(1)] by (simp_all add: x_def)
  note stk = cfg_table_okD(5,6) [OF t]
  have nm: "num (ck_key K c)" if "c \<in> set (cfg_used st @ [x])" for c using t that keys by (auto simp: cfg_table_ok_def)
  have fresh: "ck_id K n \<notin> ck_key K ` set (cfg_used st)" using n(2) view_none [of K st] by blast
  have dist: "distinct (map (ck_key K) (cfg_used st @ [x]))" using stk(1) fresh keys(1) by auto
  have "mset (map (ck_key K) ?q) = mset (map (ck_key K) (cfg_used st @ [x]))" unfolding mset_map mset_qsort ..
  then have dq: "distinct (map (ck_key K) ?q)" using dist mset_eq_imp_distinct_iff by blast
  have "inj_on ord (set (map (ck_key K) ?q))" using nm ord_inj unfolding set_map set_qsort inj_on_def by blast
  then have "distinct (map ord (map (ck_key K) ?q))" using dq by (subst distinct_map) blast
  then have "distinct (map (\<lambda>c. ord (ck_key K c)) ?q)" by (simp only: map_map comp_def)
  moreover have "sorted (map (\<lambda>c. ord (ck_key K c)) ?q)" using cmp_ord nm by (intro sorted_qsort) blast
  ultimately have sort: "sorted_wrt (<) (map (\<lambda>c. ord (ck_key K c)) ?q)" using strict_sorted_iff by blast
  have "length (snd st') = ck_max K" "unat (fst st') \<le> ck_max K" using lq len u(1) by (simp_all add: st'_def)
  then have ok: "cfg_table_ok K ord num st'" using sort nm unfolding cfg_table_ok_def used set_qsort by blast
  have "cfg_view K st' = map_of ((ck_id K n, x) # map (\<lambda>c. (ck_key K c, c)) (cfg_used st))"
    unfolding cfg_view_def used using dq stk(1) fresh keys(1) by (subst map_of_inject_set) (auto simp: comp_def set_qsort)
  then have "cfg_view K st' = apply_change K (cfg_view K st) (CfgAdd n)" by (simp add: cfg_view_def x_def)
  then show ?thesis using add ok u(1) by (simp add: st'_def st)
qed

lemma cfg_mod_applies:
  assumes t: "cfg_table_ok K ord num st" and n: "valid n" and k: "k < length (cfg_used st)" "ck_key K (cfg_used st ! k) = ck_id K n"
    "cfg_view K st (ck_id K n) = Some (cfg_used st ! k)"
  shows "\<exists>st'. cfg_mod K n k st = Some st' \<and> cfg_table_ok K ord num st' \<and> cfg_view K st' = apply_change K (cfg_view K st) (CfgMod n) \<and> fst st' = fst st"
proof -
  obtain m cs where st: "st = (m, cs)" by (cases st)
  note d = cfg_table_okD [OF t]
  define x where "x = ck_local K n (cs ! k)"
  define st' where "st' = (m, cs[k := x])"
  have nth: "cfg_used st ! k = cs ! k" using k(1) by (simp add: cfg_used_def st)
  have mod: "cfg_mod K n k st = Some st'" using valid_fits [OF n] by (simp add: cfg_mod_def st st'_def x_def)
  have used: "cfg_used st' = (cfg_used st)[k := x]" by (simp add: cfg_used_def st st'_def take_update_swap)
  have key_x: "ck_key K x = ck_id K n" using key_local by (simp add: x_def)
  then have kx: "ck_key K x = ck_key K (cfg_used st ! k)" using k(2) by simp
  have keys: "map (ck_key K) (cfg_used st') = map (ck_key K) (cfg_used st)" unfolding used map_update kx by (simp add: k(1) list_update_same_conv)
  have ords: "map (\<lambda>c. ord (ck_key K c)) (cfg_used st') = map (\<lambda>c. ord (ck_key K c)) (cfg_used st)"
    using arg_cong [OF keys, of "map ord"] by (simp add: comp_def)
  have "num (ck_key K c)" if "c \<in> set (cfg_used st')" for c
  proof -
    have "ck_key K c \<in> set (map (ck_key K) (cfg_used st'))" using that by simp
    then show ?thesis using d(3) unfolding keys by auto
  qed
  then have ok: "cfg_table_ok K ord num st'" using d(1,2,4) ords unfolding cfg_table_ok_def by (simp add: st st'_def)
  have "cfg_view K st' i = ((cfg_view K st)(ck_id K n \<mapsto> x)) i" for i
  proof (cases "i = ck_id K n")
    case True
    have "(i, x) \<in> set (map (\<lambda>c. (ck_key K c, c)) (cfg_used st'))" using k kx True unfolding used by (force simp: set_update_memI)
    moreover have "distinct (map fst (map (\<lambda>c. (ck_key K c, c)) (cfg_used st')))" using d(5) keys by (simp add: comp_def)
    ultimately have "cfg_view K st' i = Some x" unfolding cfg_view_def by (intro map_of_is_SomeI)
    then show ?thesis using True by simp
  next
    case False
    have "map_of (map (\<lambda>c. (ck_key K c, c)) ((cfg_used st)[k := x])) i = map_of (map (\<lambda>c. (ck_key K c, c)) (cfg_used st)) i"
    proof -
      let ?A = "take k (cfg_used st)" and ?B = "drop (Suc k) (cfg_used st)"
      have 1: "cfg_used st = ?A @ cfg_used st ! k # ?B" by (rule id_take_nth_drop [OF k(1)])
      have 2: "(cfg_used st)[k := x] = ?A @ x # ?B" by (rule upd_conv_take_nth_drop [OF k(1)])
      have h: "map_of (map (\<lambda>c. (ck_key K c, c)) (?A @ y # ?B)) i = map_of (map (\<lambda>c. (ck_key K c, c)) (?A @ ?B)) i" if "ck_key K y = ck_id K n" for y
        using that False by (simp add: map_add_def split: option.split)
      show ?thesis unfolding 2 h [OF key_x] h [OF k(2), symmetric] 1 [symmetric] ..
    qed
    then show ?thesis using False by (simp add: cfg_view_def used)
  qed
  then have "cfg_view K st' = (cfg_view K st)(ck_id K n \<mapsto> x)" by (rule ext)
  moreover have "apply_change K (cfg_view K st) (CfgMod n) = (cfg_view K st)(ck_id K n \<mapsto> x)" using k(3) by (simp add: x_def nth)
  ultimately show ?thesis using mod ok by (simp add: st st'_def)
qed

lemma cfg_del_applies:
  assumes t: "cfg_table_ok K ord num st" and k: "k < length (cfg_used st)" "ck_key K (cfg_used st ! k) = i"
  shows "cfg_table_ok K ord num (cfg_del k st)" "cfg_view K (cfg_del k st) = apply_change K (cfg_view K st) (CfgDel i)"
    "unat (fst (cfg_del k st)) \<le> unat (fst st)"
proof -
  obtain m cs where st: "st = (m, cs)" by (cases st)
  note d = cfg_table_okD [OF t]
  let ?A = "take k (cfg_used st)" and ?B = "drop (Suc k) (cfg_used st)"
  have split: "cfg_used st = ?A @ cfg_used st ! k # ?B" by (rule id_take_nth_drop [OF k(1)])
  have len: "length cs = ck_max K" "unat m \<le> ck_max K" "k < unat m" using d(1,2) k(1) by (simp_all add: st cfg_used_def)
  have m1: "unat (m - 1) = unat m - 1" using len(3) by (simp add: unat_sub word_le_nat_alt)
  have "unat m - 1 \<le> k \<Longrightarrow> unat m - 1 = k" using len(3) by simp
  then have used: "cfg_used (cfg_del k st) = ?A @ ?B" using len m1 by (auto simp: cfg_used_def cfg_del_def st drop_take min_def)
  have "sorted_wrt (<) (map (\<lambda>c. ord (ck_key K c)) (?A @ cfg_used st ! k # ?B))" using d(4) split by metis
  then have sort: "sorted_wrt (<) (map (\<lambda>c. ord (ck_key K c)) (?A @ ?B))" by (simp add: sorted_wrt_append)
  have "distinct (map (ck_key K) (?A @ cfg_used st ! k # ?B))" using d(5) split by metis
  then have out: "i \<notin> ck_key K ` set (?A @ ?B)" using k(2) by auto
  have "set (?A @ ?B) \<subseteq> set (cfg_used st)" using set_take_subset set_drop_subset by fastforce
  then show "cfg_table_ok K ord num (cfg_del k st)"
    using d(3) sort m1 len unfolding cfg_table_ok_def used by (auto simp: cfg_del_def st)
  have "cfg_view K st = map_of (map (\<lambda>c. (ck_key K c, c)) (?A @ cfg_used st ! k # ?B))" using split unfolding cfg_view_def by metis
  then have "cfg_view K st = ((map_of (map (\<lambda>c. (ck_key K c, c)) ?B))(i \<mapsto> cfg_used st ! k)) ++ map_of (map (\<lambda>c. (ck_key K c, c)) ?A)" using k(2) by simp
  moreover have "cfg_view K (cfg_del k st) j = map_of (map (\<lambda>c. (ck_key K c, c)) (?A @ ?B)) j" for j unfolding cfg_view_def used ..
  moreover have "map_of (map (\<lambda>c. (ck_key K c, c)) (?A @ ?B)) i = None" using out by (auto simp: map_of_eq_None_iff)
  ultimately show "cfg_view K (cfg_del k st) = apply_change K (cfg_view K st) (CfgDel i)" by (intro ext) (auto simp: map_add_def split: option.splits)
  show "unat (fst (cfg_del k st)) \<le> unat (fst st)" using m1 by (simp add: cfg_del_def st)
qed

end

subsection \<open>The loop\<close>

definition change_tlv :: "('n \<Rightarrow> u8 list) \<Rightarrow> 'n cfg_change \<Rightarrow> u16 \<times> u8 list" where
  "change_tlv wire ch = (case ch of CfgAdd n \<Rightarrow> (TLV_MONI_CONFIG_ADD, wire n) | CfgMod n \<Rightarrow> (TLV_MONI_CONFIG_MOD, wire n)
     | CfgDel i \<Rightarrow> (TLV_MONI_CONFIG_DEL, be32 i))"

text \<open>The command content the server makes of a list of changes.\<close>

definition changes_body :: "('n \<Rightarrow> u8 list) \<Rightarrow> 'n cfg_change list \<Rightarrow> u8 list" where
  "changes_body wire zs = of_nat (length zs) # tlv_bytes (map (change_tlv wire) zs)"

text \<open>Changes that can be applied one after the other: what is added is new.\<close>

fun admissible :: "('n, 'c) cfg_kind \<Rightarrow> ('n \<Rightarrow> bool) \<Rightarrow> (u32 \<Rightarrow> bool) \<Rightarrow> (u32 \<rightharpoonup> 'c) \<Rightarrow> 'n cfg_change list \<Rightarrow> bool" where
  "admissible K valid num m [] = True"
| "admissible K valid num m (z # zs) \<longleftrightarrow> (case z of CfgAdd n \<Rightarrow> valid n \<and> m (ck_id K n) = None | CfgMod n \<Rightarrow> valid n | CfgDel i \<Rightarrow> num i) \<and>
     admissible K valid num (apply_change K m z) zs"

fun adds :: "'n cfg_change list \<Rightarrow> nat" where
  "adds [] = 0"
| "adds (CfgAdd n # zs) = Suc (adds zs)"
| "adds (z # zs) = adds zs"

text \<open>Nothing is printed, or an entry has been named before the first removal.\<close>

definition quiet_log :: "SyncLog \<Rightarrow> bool" where
  "quiet_log lg \<longleftrightarrow> \<not> sl_error lg \<and> (\<forall>i. \<not> sl_info lg i)"

definition printable :: "SyncLog \<Rightarrow> 'n option \<Rightarrow> 'n cfg_change list \<Rightarrow> bool" where
  "printable lg pcfg zs \<longleftrightarrow> quiet_log lg \<or> pcfg \<noteq> None \<or> (case zs of CfgDel i # _ \<Rightarrow> False | _ \<Rightarrow> True)"

lemma tlv_types [simp]: "TLV_MONI_CONFIG_ADD \<noteq> TLV_MONI_CONFIG_MOD" "TLV_MONI_CONFIG_MOD \<noteq> TLV_MONI_CONFIG_ADD" "TLV_MONI_CONFIG_DEL \<noteq> TLV_MONI_CONFIG_ADD"
    "TLV_MONI_CONFIG_DEL \<noteq> TLV_MONI_CONFIG_MOD"
  by (simp_all add: TLV_MONI_CONFIG_ADD_def TLV_MONI_CONFIG_MOD_def TLV_MONI_CONFIG_DEL_def)

lemma cfg_loop_end:
  assumes "\<forall>x\<in>set xs. length (snd x) < 2 ^ 16" "length xs < 256"
  shows "cfg_loop K lg (of_nat (length xs) # tlv_bytes xs @ r) (int (length xs)) pcfg st = Some st"
  by (subst cfg_loop.simps) (simp add: GetWTlvType2_list_nth [OF assms])

lemma cfg_loop_next:
  assumes xs: "\<forall>x\<in>set xs. length (snd x) < 2 ^ 16" "length xs < 256" and s: "s < length xs" "xs ! s = (ty, v)"
    and b: "b = of_nat (length xs) # tlv_bytes xs @ r"
  shows "\<exists>q. cfg_loop K lg b (int s) pcfg st = do {
     pcfg \<leftarrow> (if ty = TLV_MONI_CONFIG_MOD \<or> ty = TLV_MONI_CONFIG_ADD then map_option Some (ck_ntoh K (v @ q)) else Some pcfg);
     if ty = TLV_MONI_CONFIG_ADD then
       if ck_max K \<le> unat (fst st) then Some st
       else do { c \<leftarrow> pcfg; st \<leftarrow> cfg_add K c st; cfg_loop K lg b (int (Suc s)) pcfg st }
     else do {
       key \<leftarrow> (if ty \<noteq> TLV_MONI_CONFIG_MOD then if length (v @ q) < 4 then None else Some (of_be (take 4 (v @ q))) else map_option (ck_id K) pcfg);
       case bsearch (\<lambda>c. ck_cmp K key (ck_key K c)) (cfg_used st) of
         None \<Rightarrow> if sl_error lg \<and> pcfg = None then None else cfg_loop K lg b (int (Suc s)) pcfg st
       | Some idx \<Rightarrow> do {
           st \<leftarrow> (if ty = TLV_MONI_CONFIG_MOD then do { c \<leftarrow> pcfg; cfg_mod K c idx st } else Some (cfg_del idx st));
           if sl_info lg (int (Suc s)) \<and> pcfg = None then None else cfg_loop K lg b (int (Suc s)) pcfg st
         }
     }
   }"
proof -
  let ?q = "tlv_bytes (drop (Suc s) xs) @ r" and ?o = "1 + length (tlv_bytes (take s xs))"
  have x: "length (snd (ty, v)) < 2 ^ 16" using xs(1) s nth_mem by metis
  note e = enc_tlv_parts(2,5) [OF x, of ?q]
  have o: "drop ?o b = enc_tlv (ty, v) @ ?q" using drop_tlv_bytes [OF s(1)] unfolding b s(2) .
  have o4: "drop (?o + 4) b = v @ ?q" using e(2) unfolding o [symmetric] by (simp add: add.commute)
  have g: "GetWTlvType2_list b (int s) = Some (Some ?o, int (Suc s))" using GetWTlvType2_list_nth [OF xs, of s r] s(1) by (simp add: b)
  show ?thesis
    using e(1) by (intro exI [of _ ?q], subst cfg_loop.simps) (simp only: g o o4 sizeof_TWTlv_def cfg_used_def bind.simps prod.case option.case Let_def fst_conv)
qed

context config_kind
begin

lemma cfg_loop_applies:
  assumes "cfg_table_ok K ord num st" "admissible K valid num (cfg_view K st) zs" "unat (fst st) + adds zs \<le> ck_max K" "printable lg pcfg zs"
    and "xs = map (change_tlv wire) (ys @ zs)" "\<forall>x\<in>set xs. length (snd x) < 2 ^ 16" "length xs < 256" "b = of_nat (length xs) # tlv_bytes xs @ r"
  shows "\<exists>st'. cfg_loop K lg b (int (length ys)) pcfg st = Some st' \<and> cfg_table_ok K ord num st' \<and>
    cfg_view K st' = foldl (apply_change K) (cfg_view K st) zs"
  using assms
proof (induction zs arbitrary: ys st pcfg)
  case Nil
  then show ?case using cfg_loop_end [of xs K lg r pcfg st] by simp
next
  case (Cons z zs)
  note IH = Cons.IH [of _ _ "ys @ [z]"]
  have s: "length ys < length xs" "xs ! length ys = change_tlv wire z" using Cons.prems(5) by (simp_all add: nth_append)
  note nxt = cfg_loop_next [OF Cons.prems(6,7) s(1) _ Cons.prems(8), of _ _ K lg pcfg st, folded cfg_used_def]
  have num: "num (ck_id K n)" if "valid n" for n using valid_fits [OF that] by blast
  show ?case
  proof (cases z)
    case (CfgAdd n)
    have n: "valid n" "cfg_view K st (ck_id K n) = None" using Cons.prems(2) by (simp_all add: CfgAdd)
    obtain st' where a: "cfg_add K n st = Some st'" "cfg_table_ok K ord num st'" "cfg_view K st' = apply_change K (cfg_view K st) z" "unat (fst st') = unat (fst st) + 1"
      using cfg_add_applies [OF Cons.prems(1) n] Cons.prems(3) by (auto simp: CfgAdd)
    have "xs ! length ys = (TLV_MONI_CONFIG_ADD, wire n)" using s(2) by (simp add: change_tlv_def CfgAdd)
    from nxt [OF this] have "cfg_loop K lg b (int (length ys)) pcfg st = cfg_loop K lg b (int (length (ys @ [z]))) (Some n) st'"
      using ntoh_wire [OF n(1)] a(1) Cons.prems(3) by (auto simp: CfgAdd)
    moreover have adm: "admissible K valid num (cfg_view K st') zs" using Cons.prems(2) unfolding a(3) by (cases z) simp_all
    moreover have "\<exists>u. cfg_loop K lg b (int (length (ys @ [z]))) (Some n) st' = Some u \<and> cfg_table_ok K ord num u \<and> cfg_view K u = foldl (apply_change K) (cfg_view K st') zs"
      using Cons.prems(3,5) a(4) by (intro IH [OF a(2) adm _ _ _ Cons.prems(6-8)]) (simp_all add: printable_def CfgAdd)
    ultimately show ?thesis using a(3) by simp
  next
    case (CfgMod n)
    have n: "valid n" using Cons.prems(2) by (simp add: CfgMod)
    have "xs ! length ys = (TLV_MONI_CONFIG_MOD, wire n)" using s(2) by (simp add: change_tlv_def CfgMod)
    note step = nxt [OF this]
    note b = search_used [OF Cons.prems(1) num [OF n]]
    obtain st' where a: "cfg_loop K lg b (int (length ys)) pcfg st = cfg_loop K lg b (int (length (ys @ [z]))) (Some n) st'" "cfg_table_ok K ord num st'"
      "cfg_view K st' = apply_change K (cfg_view K st) z" "fst st' = fst st"
    proof (cases "bsearch (\<lambda>c. ck_cmp K (ck_id K n) (ck_key K c)) (cfg_used st)")
      case None
      then show thesis using that [of st] step b ntoh_wire [OF n] Cons.prems(1) by (auto simp: CfgMod)
    next
      case (Some k)
      then obtain u where "cfg_mod K n k st = Some u" "cfg_table_ok K ord num u" "cfg_view K u = apply_change K (cfg_view K st) z" "fst u = fst st"
        using cfg_mod_applies [OF Cons.prems(1) n, of k] b by (auto simp: CfgMod)
      then show thesis using that [of u] step Some ntoh_wire [OF n] by auto
    qed
    have adm: "admissible K valid num (cfg_view K st') zs" using Cons.prems(2) unfolding a(3) by (cases z) simp_all
    have "\<exists>u. cfg_loop K lg b (int (length (ys @ [z]))) (Some n) st' = Some u \<and> cfg_table_ok K ord num u \<and> cfg_view K u = foldl (apply_change K) (cfg_view K st') zs"
      using Cons.prems(3,5) a(4) by (intro IH [OF a(2) adm _ _ _ Cons.prems(6-8)]) (simp_all add: printable_def CfgMod)
    then show ?thesis using a(1,3) by simp
  next
    case (CfgDel i)
    have i: "num i" using Cons.prems(2) by (simp add: CfgDel)
    have q: "quiet_log lg \<or> pcfg \<noteq> None" using Cons.prems(4) by (simp add: printable_def CfgDel)
    have "xs ! length ys = (TLV_MONI_CONFIG_DEL, be32 i)" using s(2) by (simp add: change_tlv_def CfgDel)
    note step = nxt [OF this]
    have v: "length (be32 i @ q) \<ge> 4" "of_be (take 4 (be32 i @ q)) = i" for q by (simp_all add: be_length)
    note b = search_used [OF Cons.prems(1) i]
    obtain st' where a: "cfg_loop K lg b (int (length ys)) pcfg st = cfg_loop K lg b (int (length (ys @ [z]))) pcfg st'" "cfg_table_ok K ord num st'"
      "cfg_view K st' = apply_change K (cfg_view K st) z" "unat (fst st') \<le> unat (fst st)"
    proof (cases "bsearch (\<lambda>c. ck_cmp K i (ck_key K c)) (cfg_used st)")
      case None
      then have "cfg_view K st i = None" using b by simp
      then have "cfg_view K st = (cfg_view K st)(i := None)" by auto
      then show thesis using None that [of st] step v q Cons.prems(1) by (auto simp: CfgDel quiet_log_def not_less [symmetric])
    next
      case (Some k)
      then show thesis using that [of "cfg_del k st"] cfg_del_applies [OF Cons.prems(1), of k i] step b v q by (auto simp: CfgDel quiet_log_def not_less [symmetric])
    qed
    have adm: "admissible K valid num (cfg_view K st') zs" using Cons.prems(2) unfolding a(3) by (cases z) simp_all
    have "\<exists>u. cfg_loop K lg b (int (length (ys @ [z]))) pcfg st' = Some u \<and> cfg_table_ok K ord num u \<and> cfg_view K u = foldl (apply_change K) (cfg_view K st') zs"
      using Cons.prems(3,5) a(4) q by (intro IH [OF a(2) adm _ _ _ Cons.prems(6-8)]) (auto simp: printable_def CfgDel)
    then show ?thesis using a(1,3) by simp
  qed
qed

lemma change_lengths: "admissible K valid num m zs \<Longrightarrow> x \<in> set (map (change_tlv wire) zs) \<Longrightarrow> length (snd x) < 2 ^ 16"
proof (induction zs arbitrary: m)
  case (Cons z zs)
  then show ?case using wire_length by (cases z) (auto simp: change_tlv_def)
qed simp

text \<open>An answer of the server that was made of changes passes the check and is applied.\<close>

lemma answer_applied:
  assumes t: "cfg_table_ok K ord num st" and zs: "admissible K valid num (cfg_view K st) zs" "unat (fst st) + adds zs \<le> ck_max K" "printable lg None zs"
    and len: "length zs < 256" "length (changes_body wire zs) = unat len"
  shows "CheckPkgBody (changes_body wire zs @ r) len = Some 0"
    "\<exists>st'. cfg_loop K lg (changes_body wire zs @ r) 0 None st = Some st' \<and> cfg_table_ok K ord num st' \<and>
       cfg_view K st' = foldl (apply_change K) (cfg_view K st) zs"
proof -
  define xs where "xs = map (change_tlv wire) zs"
  have xs: "\<forall>x\<in>set xs. length (snd x) < 2 ^ 16" "length xs < 256" using change_lengths [OF zs(1)] len(1) by (simp_all add: xs_def)
  have b: "changes_body wire zs = of_nat (length xs) # tlv_bytes xs" by (simp add: changes_body_def xs_def)
  have l: "unat len = Suc (length (tlv_bytes xs))" using len(2) b by simp
  have lt: "length (tlv_bytes xs) < 2 ^ 16" using l unat_u16_less [of len] by simp
  have "len - of_nat 1 = of_nat (length (tlv_bytes xs))"
    using unat_sub_nat16 [of 1 len] l lt by (intro word_unat_eq_iff [THEN iffD2]) (simp add: unat_of_nat)
  moreover have "unat (of_nat (length xs) :: u8) = length xs" using xs(2) by (simp add: unat_of_nat)
  ultimately show "CheckPkgBody (changes_body wire zs @ r) len = Some 0" using check_tlvs_bytes [OF xs(1) lt, of r] l by (simp add: CheckPkgBody_def b sizes)
  show "\<exists>st'. cfg_loop K lg (changes_body wire zs @ r) 0 None st = Some st' \<and> cfg_table_ok K ord num st' \<and>
       cfg_view K st' = foldl (apply_change K) (cfg_view K st) zs"
    using cfg_loop_applies [OF t zs, of xs "[]" _ r] xs b by (simp add: xs_def)
qed

end

subsection \<open>Logs and applications\<close>

definition wire_log :: "MtSLogConfig \<Rightarrow> u8 list" where
  "wire_log n = be32 (n_dwSeq n) @ be32 (n_dwCfgId n) @ be32 (n_iAppId n) @ be32 (n_iModuleId n) @ be32 (n_iLogType n) @ be32 (n_dwSpeedFreq n)
     @ be16 (n_wTestKeyCount n) @ n_stTestKeys n"

definition wire_app :: "MtAppInfo \<Rightarrow> u8 list" where
  "wire_app n = be32 (n_app_iAppId n) @ [n_app_bAppType n] @ be16 (n_app_wModuleCount n) @ be32 (n_app_dwSeq n) @ be16 (n_app_wLogSrvPort n)
     @ be32 (n_app_dwAppSrvMaster n)"

interpretation logs: config_kind log_kind wire_log keys_fit uint "\<lambda>_. True"
proof
  fix n r
  assume n: "keys_fit n"
  then have "length (n_stTestKeys n) = sizeof_SLogTestKey * unat (n_wTestKeyCount n)" "length (n_stTestKeys n) \<le> 220"
    by (simp_all add: keys_fit_def sizeof_SLogTestKey_def MAX_SLOG_TEST_KEYS_PER_CONFIG_def)
  then show "ck_ntoh log_kind (wire_log n @ r) = Some n" "length (wire_log n) < 2 ^ 16"
    by (simp_all add: log_kind_def wire_log_def LOG_CONFIG_NTOH_def Let_def)
  show "ck_fits log_kind n \<and> True" using n by (simp add: log_kind_def)
qed (auto simp: log_kind_def NET_LOG_CONFIG_TO_LOCAL_def Let_def CmpSLogConfig_def word_less_def MAX_LOG_CONFIG_COUNT_def intro: unsigned_word_eqI)

lemma sint_diff:
  assumes "0 \<le> sint (a :: u32)" "0 \<le> sint b"
  shows "sint (a - b) = sint a - sint b"
proof -
  have "sint a < 2 ^ 31" "sint b < 2 ^ 31" using sint_lt [of a] sint_lt [of b] by simp_all
  then show ?thesis using assms unfolding sint_word_ariths by (intro signed_take_bit_int_eq_self) simp_all
qed

interpretation apps: config_kind app_kind wire_app "\<lambda>n. 0 \<le> sint (n_app_iAppId n)" sint "\<lambda>i. 0 \<le> sint i"
proof
  fix n r
  show "ck_ntoh app_kind (wire_app n @ r) = Some n" "length (wire_app n) < 2 ^ 16"
    by (simp_all add: app_kind_def wire_app_def APP_CONFIG_NTOH_def nth_append)
next
  fix a b :: u32
  assume "0 \<le> sint a" "0 \<le> sint b"
  then show "(0 < ck_cmp app_kind a b \<longleftrightarrow> sint b < sint a) \<and> (ck_cmp app_kind a b < 0 \<longleftrightarrow> sint a < sint b)" by (auto simp: app_kind_def CmpAppConfig_def sint_diff)
qed (auto simp: app_kind_def NET_APP_CONFIG_TO_LOCAL_def MAX_APP_COUNT_def intro: signed_word_eqI)

text \<open>The search of the client library in the array.\<close>

lemma truncate_key [simp]: "dwCfgId (SLogConfig.truncate c) = dwCfgId c"
  by (simp add: SLogConfig.truncate_def)

lemma find_cfg_view:
  assumes "n \<le> length cs"
  shows "\<exists>r. find_cfg cfgid n i (map SLogConfig.truncate cs) = Some r \<and> (\<forall>k. r = Some k \<longrightarrow> i \<le> k) \<and>
    map_option (\<lambda>k. cs ! (k - i)) r = map_of (map (\<lambda>c. (dwCfgId c, c)) (take n cs)) cfgid"
  using assms
proof (induction n arbitrary: i cs)
  case (Suc n)
  then obtain c cs' where cs: "cs = c # cs'" by (cases cs) auto
  obtain r where r: "find_cfg cfgid n (Suc i) (map SLogConfig.truncate cs') = Some r" "\<forall>k. r = Some k \<longrightarrow> Suc i \<le> k"
    "map_option (\<lambda>k. cs' ! (k - Suc i)) r = map_of (map (\<lambda>c. (dwCfgId c, c)) (take n cs')) cfgid"
    using Suc.IH [of cs' "Suc i"] Suc.prems cs by auto
  show ?case
  proof (cases "dwCfgId c = cfgid")
    case True
    then show ?thesis by (simp add: cs)
  next
    case False
    have "map_option (\<lambda>k. cs ! (k - i)) r = map_option (\<lambda>k. cs' ! (k - Suc i)) r" using r(2) by (cases r) (auto simp: cs nth_Cons')
    then have "map_option (\<lambda>k. cs ! (k - i)) r = map_of (map (\<lambda>c. (dwCfgId c, c)) (take (Suc n) cs)) cfgid" using r(3) False by (simp add: cs)
    moreover have "find_cfg cfgid (Suc n) i (map SLogConfig.truncate cs) = Some r" using r(1) False by (simp add: cs)
    ultimately show ?thesis using r(2) Suc_leD by blast
  qed
qed simp

subsection \<open>Handling an answer\<close>

text \<open>The arrays of the segment are valid: no more entries than room, sorted by number without duplicates.\<close>

definition configs_ok :: "ConfigShm \<Rightarrow> bool" where
  "configs_ok s \<longleftrightarrow> cfg_table_ok log_kind uint (\<lambda>_. True) (cs_log s) \<and> cfg_table_ok app_kind sint (\<lambda>i. 0 \<le> sint i) (cs_app s)"

text \<open>A packet whose command content is made of the changes, not enciphered.\<close>

definition carries :: "('n \<Rightarrow> u8 list) \<Rightarrow> 'a CBasicPacket_scheme \<Rightarrow> 'n cfg_change list \<Rightarrow> bool" where
  "carries wire pkg zs \<longleftrightarrow> m_bRetCode pkg = 0 \<and> length zs < 256 \<and> length (changes_body wire zs) = unat (m_wCmdContentLen pkg) \<and>
     (\<exists>ofs r. m_pstCmdContent pkg = Some ofs \<and> drop ofs (m_pReqPkg pkg) = changes_body wire zs @ r)"

lemma app_config_synced:
  assumes s: "configs_ok s" "unat (fst (cs_app s)) + adds zs \<le> MAX_APP_COUNT"
    and zs: "carries wire_app pkg zs" "admissible app_kind (\<lambda>n. 0 \<le> sint (n_app_iAppId n)) (\<lambda>i. 0 \<le> sint i) (cfg_view app_kind (cs_app s)) zs" "printable lg None zs"
  shows "\<exists>s'. DealRespCheckAppConfig False decipher lg now pkg s = Some (0, s') \<and> configs_ok s' \<and> cs_log s' = cs_log s \<and> cs_dwLastSyncAppConfigTime s' = now \<and>
    cfg_view app_kind (cs_app s') = foldl (apply_change app_kind) (cfg_view app_kind (cs_app s)) zs"
proof -
  obtain ofs r where c: "m_bRetCode pkg = 0" "length zs < 256" "length (changes_body wire_app zs) = unat (m_wCmdContentLen pkg)" "m_pstCmdContent pkg = Some ofs"
    "drop ofs (m_pReqPkg pkg) = changes_body wire_app zs @ r"
    using zs(1) by (auto simp: carries_def)
  note t = s(1) [unfolded configs_ok_def]
  have room: "unat (fst (cs_app s)) + adds zs \<le> ck_max app_kind" using s(2) by (simp add: app_kind_def)
  note b = apps.answer_applied [OF conjunct2 [OF t] zs(2) room zs(3) c(2,3), of r]
  then obtain st' where st': "cfg_loop app_kind lg (changes_body wire_app zs @ r) 0 None (cs_app s) = Some st'" "cfg_table_ok app_kind sint (\<lambda>i. 0 \<le> sint i) st'"
    "cfg_view app_kind st' = foldl (apply_change app_kind) (cfg_view app_kind (cs_app s)) zs" by blast
  have "DealRespCheckAppConfig False decipher lg now pkg s = Some (0, s\<lparr>cs_app := st', cs_dwLastSyncAppConfigTime := now\<rparr>)"
    using c b(1) st'(1) by (simp add: DealRespCheckAppConfig_def cfg_body_def NO_ERROR_def)
  then show ?thesis using st' t by (simp add: configs_ok_def)
qed

text \<open>
  C8. The log configuration in the shared segment is a finite map, and an answer of the server changes it change by change: \<open>DealRespCheckLogConfig\<close> on a
  packet made of entries to add, to change and to remove returns 0 and leaves a valid array; afterwards the search of the client library
  finds for every number exactly the entry the changes give, or none. Added entries must be new and have room, and the first change must not be a
  removal, unless nothing is printed.
\<close>

theorem log_config_synced:
  assumes s: "configs_ok s" "unat (fst (cs_log s)) + adds zs \<le> MAX_LOG_CONFIG_COUNT"
    and zs: "carries wire_log pkg zs" "admissible log_kind keys_fit (\<lambda>_. True) (cfg_view log_kind (cs_log s)) zs" "printable lg None zs"
  shows "\<exists>s'. DealRespCheckLogConfig False decipher lg now pkg s = Some (0, s') \<and> configs_ok s' \<and> cs_app s' = cs_app s \<and> cs_dwLastSyncLogConfigTime s' = now \<and>
    (\<forall>cfgid. \<exists>r. find_cfg cfgid (unat (fst (cs_log s'))) 0 (map SLogConfig.truncate (snd (cs_log s'))) = Some r \<and>
       map_option (\<lambda>k. snd (cs_log s') ! k) r = foldl (apply_change log_kind) (cfg_view log_kind (cs_log s)) zs cfgid)"
proof -
  obtain ofs r where c: "m_bRetCode pkg = 0" "length zs < 256" "length (changes_body wire_log zs) = unat (m_wCmdContentLen pkg)" "m_pstCmdContent pkg = Some ofs"
    "drop ofs (m_pReqPkg pkg) = changes_body wire_log zs @ r"
    using zs(1) by (auto simp: carries_def)
  note t = s(1) [unfolded configs_ok_def]
  have room: "unat (fst (cs_log s)) + adds zs \<le> ck_max log_kind" using s(2) by (simp add: log_kind_def)
  note b = logs.answer_applied [OF conjunct1 [OF t] zs(2) room zs(3) c(2,3), of r]
  then obtain st' where st': "cfg_loop log_kind lg (changes_body wire_log zs @ r) 0 None (cs_log s) = Some st'" "cfg_table_ok log_kind uint (\<lambda>_. True) st'"
    "cfg_view log_kind st' = foldl (apply_change log_kind) (cfg_view log_kind (cs_log s)) zs" by blast
  have run: "DealRespCheckLogConfig False decipher lg now pkg s = Some (0, s\<lparr>cs_log := st', cs_dwLastSyncLogConfigTime := now\<rparr>)"
    using c b(1) st'(1) by (simp add: DealRespCheckLogConfig_def cfg_body_def NO_ERROR_def)
  have "\<exists>r. find_cfg cfgid (unat (fst st')) 0 (map SLogConfig.truncate (snd st')) = Some r \<and> map_option (\<lambda>k. snd st' ! k) r = cfg_view log_kind st' cfgid" for cfgid
    using find_cfg_view [of "unat (fst st')" "snd st'" cfgid 0] cfg_table_okD(1,2) [OF st'(2)] by (auto simp: cfg_view_def cfg_used_def log_kind_def)
  then show ?thesis using run st' t by (simp add: configs_ok_def)
qed

text \<open>Two entries are added to an empty array and the first one is removed again.\<close>

definition demo_net :: "u32 \<Rightarrow> u32 \<Rightarrow> MtSLogConfig" where
  "demo_net seq i = \<lparr>n_dwSeq = seq, n_dwCfgId = i, n_iAppId = 2, n_iModuleId = 1, n_iLogType = 255, n_dwSpeedFreq = 60, n_wTestKeyCount = 0, n_stTestKeys = []\<rparr>"

definition demo_changes :: "MtSLogConfig cfg_change list" where
  "demo_changes = [CfgAdd (demo_net 8 5), CfgAdd (demo_net 9 3), CfgDel 5]"

definition demo_pkg :: CBasicPacket where
  "demo_pkg = \<lparr>m_pReqPkg = changes_body wire_log demo_changes, m_dwReqPkgLen = 0, m_pstReqHead = None, m_pstSig = None, m_pstRespSig = [], m_wRespSigLen = 0,
     m_pstCmdContent = Some 0, m_wCmdContentLen = 69, m_pstRespCmdContent = [], m_wRespCmdContentLen = 0,
     m_pstBody = None, m_wBodyLen = 0, m_pstRespBody = [], m_wRespBodyLen = 0, m_dwReqCmd = 0, m_dwReqSeq = 0, m_bRetCode = 0\<rparr>"

definition demo_shm :: ConfigShm where
  "demo_shm = \<lparr>cs_dwLastSyncAppConfigTime = 0, cs_app = (0, replicate MAX_APP_COUNT zero_AppInfo), cs_dwLastSyncLogConfigTime = 0,
     cs_log = (0, replicate MAX_LOG_CONFIG_COUNT zero_SLogConfig)\<rparr>"

lemma demo_carried:
  "configs_ok demo_shm" "unat (fst (cs_log demo_shm)) + adds demo_changes \<le> MAX_LOG_CONFIG_COUNT" "carries wire_log demo_pkg demo_changes"
  "admissible log_kind keys_fit (\<lambda>_. True) (cfg_view log_kind (cs_log demo_shm)) demo_changes" "printable \<lparr>sl_error = True, sl_info = (\<lambda>_. True)\<rparr> None demo_changes"
proof -
  show "configs_ok demo_shm" by (simp add: configs_ok_def cfg_table_ok_def cfg_used_def demo_shm_def log_kind_def app_kind_def)
  show "unat (fst (cs_log demo_shm)) + adds demo_changes \<le> MAX_LOG_CONFIG_COUNT" by (simp add: demo_shm_def demo_changes_def MAX_LOG_CONFIG_COUNT_def)
  have "length (changes_body wire_log demo_changes) = 69"
    by (simp add: changes_body_def demo_changes_def change_tlv_def enc_tlv_def SetWTlv_def wire_log_def demo_net_def)
  then show "carries wire_log demo_pkg demo_changes" by (simp add: carries_def demo_pkg_def demo_changes_def)
  show "admissible log_kind keys_fit (\<lambda>_. True) (cfg_view log_kind (cs_log demo_shm)) demo_changes"
    by (simp add: demo_changes_def demo_shm_def cfg_view_def cfg_used_def log_kind_def demo_net_def keys_fit_def)
  show "printable \<lparr>sl_error = True, sl_info = (\<lambda>_. True)\<rparr> None demo_changes" by (simp add: printable_def demo_changes_def)
qed

theorem log_config_synced_witness:
  "\<exists>s' k. DealRespCheckLogConfig False (\<lambda>x. (x, 0)) \<lparr>sl_error = True, sl_info = (\<lambda>_. True)\<rparr> 77 demo_pkg demo_shm = Some (0, s') \<and>
    find_cfg 3 (unat (fst (cs_log s'))) 0 (map SLogConfig.truncate (snd (cs_log s'))) = Some (Some k) \<and> sc_dwSeq (snd (cs_log s') ! k) = 9 \<and>
    find_cfg 5 (unat (fst (cs_log s'))) 0 (map SLogConfig.truncate (snd (cs_log s'))) = Some None"
proof -
  let ?m = "foldl (apply_change log_kind) (cfg_view log_kind (cs_log demo_shm)) demo_changes"
  have m: "?m 3 = Some (NET_LOG_CONFIG_TO_LOCAL (demo_net 9 3) zero_SLogConfig)" "?m 5 = None"
    by (simp_all add: demo_changes_def demo_shm_def cfg_view_def cfg_used_def log_kind_def demo_net_def)
  obtain s' where s': "DealRespCheckLogConfig False (\<lambda>x. (x, 0)) \<lparr>sl_error = True, sl_info = (\<lambda>_. True)\<rparr> 77 demo_pkg demo_shm = Some (0, s')"
    "\<forall>cfgid. \<exists>r. find_cfg cfgid (unat (fst (cs_log s'))) 0 (map SLogConfig.truncate (snd (cs_log s'))) = Some r \<and> map_option (\<lambda>k. snd (cs_log s') ! k) r = ?m cfgid"
    using log_config_synced [OF demo_carried(1-5), of "\<lambda>x. (x, 0)" 77] by blast
  obtain k where k: "find_cfg 3 (unat (fst (cs_log s'))) 0 (map SLogConfig.truncate (snd (cs_log s'))) = Some (Some k)"
    "snd (cs_log s') ! k = NET_LOG_CONFIG_TO_LOCAL (demo_net 9 3) zero_SLogConfig"
    using spec [OF s'(2), of 3] unfolding m by auto
  have "find_cfg 5 (unat (fst (cs_log s'))) 0 (map SLogConfig.truncate (snd (cs_log s'))) = Some None" using spec [OF s'(2), of 5] unfolding m by auto
  then show ?thesis using s'(1) k by (intro exI [of _ s'] exI [of _ k]) (simp add: NET_LOG_CONFIG_TO_LOCAL_def Let_def demo_net_def)
qed

end
