(* ===== verification/Report_Tool.thy ===== *)
theory Report_Tool
  imports Log_Props
begin

text \<open>
  The command line tool \<open>language/linux_shell/xrkmonitor_report.c\<close>, which reports a number or a log for a shell script: one call of the
  library per run. A run with a configuration file is one of a plugin. The output for people is left out; an
  error of the tool is the negative number of the line it is found in.
\<close>

subsection \<open>What the tool depends on\<close>

text \<open>
  The parameters of the library, and the text that the macros put in front of a log, for a function and a line.
\<close>

record 'k ToolEnv =
  te_os :: "'k ShmOS"
  te_view :: "(nat \<Rightarrow> u8) \<Rightarrow> nat \<Rightarrow> LogWorld \<Rightarrow> LogWorld"
  te_sz :: int
  te_aenv :: AttrEnv
  te_lenv :: LogEnv
  te_plus :: PlusEnv
  te_base :: "string \<Rightarrow> nat \<Rightarrow> u8 list"

definition ERROR_LINE :: "nat \<Rightarrow> int" where
  "ERROR_LINE line = - int line"

text \<open>\<open>strtoul(s, NULL, 10)\<close>.\<close>

definition strtoul10 :: "string \<Rightarrow> u64" where
  "strtoul10 s = (case scan_sign (dropWhile isspace s) of (neg, t) \<Rightarrow>
     let n = digits_val 10 (takeWhile (digit_in 10) t) in if 2 ^ 64 \<le> n then - 1 else if neg then - of_nat n else of_nat n)"

text \<open>\<open>strcasecmp(s, t) == 0\<close> for a \<open>t\<close> of small letters.\<close>

definition tolower :: "char \<Rightarrow> char" where
  "tolower c = (if 65 \<le> (of_char c :: nat) \<and> (of_char c :: nat) \<le> 90 then char_of ((of_char c :: nat) + 32) else c)"

subsection \<open>The reports\<close>

definition tool_attr :: "AttrEnv \<Rightarrow> string \<Rightarrow> u32 \<Rightarrow> u32 \<Rightarrow> u32 \<Rightarrow> nat \<Rightarrow> LogWorld \<Rightarrow> (int \<times> LogWorld) option" where
  "tool_attr env op attr add_value set_value line w =
     (if op = ''add'' then do { (rc, a) \<leftarrow> MtReport_Attr_Add env attr add_value (lw_attr w); Some (rc, w\<lparr>lw_attr := a\<rparr>) }
      else if op = ''set'' then do { (rc, a) \<leftarrow> MtReport_Attr_Set env attr set_value (lw_attr w); Some (rc, w\<lparr>lw_attr := a\<rparr>) }
      else Some (ERROR_LINE line, w))"

definition tool_strattr :: "AttrEnv \<Rightarrow> string \<Rightarrow> u32 \<Rightarrow> u8 list \<Rightarrow> u32 \<Rightarrow> nat \<Rightarrow> LogWorld \<Rightarrow> (int \<times> LogWorld) option" where
  "tool_strattr env op attr str value line w =
     (if op = ''add'' then do { (rc, a) \<leftarrow> MtReport_Str_Attr_Add env attr str value (lw_attr w); Some (rc, w\<lparr>lw_attr := a\<rparr>) }
      else if op = ''set'' then do { (rc, a) \<leftarrow> MtReport_Str_Attr_Set env attr str value (lw_attr w); Some (rc, w\<lparr>lw_attr := a\<rparr>) }
      else Some (ERROR_LINE line, w))"

text \<open>The type of a log and the distance of its call from the first one, in lines.\<close>

definition tool_log_type :: "string \<Rightarrow> (u32 \<times> nat) option" where
  "tool_log_type s =
     (if s = ''debug'' then Some (MTLOG_TYPE_DEBUG, 0) else if s = ''info'' then Some (MTLOG_TYPE_INFO, 2) else if s = ''warn'' then Some (MTLOG_TYPE_WARN, 4)
      else if s = ''reqerr'' then Some (MTLOG_TYPE_REQERR, 6) else if s = ''error'' then Some (MTLOG_TYPE_ERROR, 8)
      else if s = ''fatal'' then Some (MTLOG_TYPE_FATAL, 10) else None)"

definition tool_log :: "'k ToolEnv \<Rightarrow> string \<Rightarrow> nat \<Rightarrow> string \<Rightarrow> u8 list \<Rightarrow> LogWorld \<Rightarrow> (int \<times> LogWorld) option" where
  "tool_log env fn line ty text w = (case tool_log_type ty of None \<Rightarrow> Some (ERROR_LINE (line + 13), w)
     | Some (t, d) \<Rightarrow> MtReport_Log (te_lenv env) t (te_base env fn (line + d) @ text) w)"

subsection \<open>A run without configuration file\<close>

definition tool_init :: "'k ToolEnv \<Rightarrow> u32 \<Rightarrow> LogWorld \<Rightarrow> 'k Proc \<Rightarrow> (int \<times> LogWorld \<times> 'k Proc) option" where
  "tool_init env cfg w p = MtReport_Init (te_os env) (te_view env) (te_sz env) (te_aenv env) cfg None 0 0 w p"

definition no_file_report :: "'k ToolEnv \<Rightarrow> string list \<Rightarrow> LogWorld \<Rightarrow> 'k Proc \<Rightarrow> (int \<times> LogWorld \<times> 'k Proc) option" where
  "no_file_report env argv w p =
     (if length argv = 5 then
        if argv ! 1 = ''attr'' then do {
          (iRet, w, p) \<leftarrow> tool_init env 0 w p;
          if iRet \<noteq> 0 then Some (iRet, w, p)
          else do {
            (rc, w) \<leftarrow> tool_attr (te_aenv env) (argv ! 2) (atoi (argv ! 3)) (atoi (argv ! 4)) (atoi (argv ! 4)) 73 w;
            Some (rc, w, p)
          }
        }
        else if argv ! 1 = ''log'' then do {
          (iRet, w, p) \<leftarrow> tool_init env (ucast (strtoul10 (argv ! 2))) w p;
          if iRet \<noteq> 0 then Some (iRet, w, p)
          else do { (rc, w) \<leftarrow> tool_log env ''no_file_report'' 83 (argv ! 3) (bytes (argv ! 4)) w; Some (rc, w, p) }
        }
        else Some (ERROR_LINE 101, w, p)
      else if length argv = 6 then
        if argv ! 1 = ''strattr'' then do {
          (iRet, w, p) \<leftarrow> tool_init env 0 w p;
          if iRet \<noteq> 0 then Some (iRet, w, p)
          else do {
            (rc, w) \<leftarrow> tool_strattr (te_aenv env) (argv ! 2) (atoi (argv ! 3)) (bytes (argv ! 4)) (atoi (argv ! 5)) 119 w;
            Some (rc, w, p)
          }
        }
        else Some (ERROR_LINE 124, w, p)
      else Some (ERROR_LINE 129, w, p))"

subsection \<open>A run of a plugin\<close>

definition tool_params :: "unit cfg_param list" where
  "tool_params =
     [\<lparr>cp_name = ''XRK_PLUGIN_ID'', cp_var = ''iPluginId'', cp_type = CFG_INT 0\<rparr>,
      \<lparr>cp_name = ''XRK_PLUGIN_NAME'', cp_var = ''szPluginName'', cp_type = CFG_STRING '''' 64\<rparr>,
      \<lparr>cp_name = ''XRK_PLUGIN_HEADER_FILE_VER'', cp_var = ''szPluginVer'', cp_type = CFG_STRING '''' 16\<rparr>]"

text \<open>A number from the file by its name.\<close>

definition tool_id :: "PlusEnv \<Rightarrow> string \<Rightarrow> (int \<times> u32) option" where
  "tool_id env name = do {
     (rc, st) \<leftarrow> LoadConfig (\<lambda>_. ()) (pe_file env) [\<lparr>cp_name = name, cp_var = ''id'', cp_type = CFG_INT 0\<rparr>] Map.empty;
     Some (rc, int_of st ''id'')
   }"

definition file_command :: "'k ToolEnv \<Rightarrow> string list \<Rightarrow> u32 \<Rightarrow> int \<Rightarrow> LogWorld \<Rightarrow> (int \<times> LogWorld) option" where
  "file_command env argv pluginId iRet w =
     (if length argv = 7 then
        if argv ! 3 = ''attr'' then do {
          (rc, iAttrId) \<leftarrow> tool_id (te_plus env) (argv ! 5);
          if rc < 0 \<or> sint iAttrId \<le> 0 then Some (ERROR_LINE 180, w)
          else tool_attr (te_aenv env) (argv ! 4) iAttrId (atoi (argv ! 6)) (atoi (argv ! 4)) 191 w
        }
        else Some (iRet, w)
      else if length argv = 8 then
        if argv ! 3 = ''table'' then do {
          (rc, iTableId) \<leftarrow> tool_id (te_plus env) (argv ! 4);
          if iTableId \<noteq> 0 then do {
            (rc, w) \<leftarrow> MtReport_Plugin_Table (te_lenv env) pluginId iTableId (atoi (argv ! 5)) (atoi (argv ! 6)) (bytes (argv ! 7)) w;
            Some (if rc \<noteq> 0 then ERROR_LINE 202 else 0, w)
          }
          else Some (ERROR_LINE 208, w)
        }
        else if argv ! 3 = ''strattr'' then do {
          (rc, iAttrId) \<leftarrow> tool_id (te_plus env) (argv ! 5);
          if rc < 0 \<or> sint iAttrId \<le> 0 then Some (ERROR_LINE 217, w)
          else tool_strattr (te_aenv env) (argv ! 4) iAttrId (bytes (argv ! 6)) (atoi (argv ! 7)) 228 w
        }
        else Some (ERROR_LINE 233, w)
      else if length argv = 6 then
        if argv ! 3 = ''log'' then tool_log env ''file_report'' 239 (argv ! 4) (bytes (argv ! 5)) w else Some (ERROR_LINE 257, w)
      else Some (ERROR_LINE 262, w))"

definition file_report :: "'k ToolEnv \<Rightarrow> string list \<Rightarrow> LogWorld \<Rightarrow> 'k Proc \<Rightarrow> (int \<times> LogWorld \<times> 'k Proc) option" where
  "file_report env argv w p =
     (if length argv < 3 then Some (ERROR_LINE 151, w, p)
      else do {
        (rc, st) \<leftarrow> LoadConfig (\<lambda>_. ()) (pe_file (te_plus env)) tool_params Map.empty;
        let pluginId = int_of st ''iPluginId'';
        if rc < 0 then Some (ERROR_LINE 162, w, p)
        else if sint pluginId \<le> 0 \<or> str_of st ''szPluginName'' = [] \<or> str_of st ''szPluginVer'' = [] then Some (ERROR_LINE 166, w, p)
        else do {
          (iRet, w, p) \<leftarrow> MtReport_Plus_Init (te_os env) (te_view env) (te_sz env) (te_aenv env) (te_plus env) pluginId
            (Some (str_of st ''szPluginName'')) (Some (str_of st ''szPluginVer'')) w p;
          if iRet < 0 \<or> \<not> vm_attached (lw_vmem w) then Some (ERROR_LINE 171, w, p)
          else do { (rc, w) \<leftarrow> file_command env argv pluginId iRet w; Some (rc, w, p) }
        }
      })"

text \<open>\<open>main\<close>; \<open>argv\<close> starts with the name of the program.\<close>

definition tool_main :: "'k ToolEnv \<Rightarrow> string list \<Rightarrow> LogWorld \<Rightarrow> 'k Proc \<Rightarrow> (int \<times> LogWorld \<times> 'k Proc) option" where
  "tool_main env argv w p =
     (if length argv = 2 \<and> map tolower (argv ! 1) = ''help'' then Some (0, w, p)
      else if length argv = 2 \<and> map tolower (argv ! 1) = ''version'' then Some (0, w, p)
      else if length argv < 2 then Some (ERROR_LINE 282, w, p)
      else if argv ! 1 = ''file'' then file_report env argv w p else no_file_report env argv w p)"

end
