(* ===== verification/Report_Tool_Props.thy ===== *)
theory Report_Tool_Props
  imports Report_Tool Log_Props2
begin

text \<open>
  A run of the tool makes exactly one report, or none.
\<close>

lemma tool_main_attr:
  assumes "tool_init env 0 w p = Some (0, w1, p1)"
  shows "tool_main env [prog, ''attr'', op, i, v] w p
    = map_option (\<lambda>(rc, w). (rc, w, p1)) (tool_attr (te_aenv env) op (atoi i) (atoi v) (atoi v) 73 w1)"
  using assms by (simp add: tool_main_def no_file_report_def map_option_bind) (simp add: map_conv_bind_option split_def comp_def)

text \<open>Other commands do not reach the library.\<close>

lemma tool_main_rejects:
  assumes "2 \<le> length argv" "argv ! 1 \<notin> {''attr'', ''log'', ''strattr'', ''file''}" "length argv \<noteq> 2"
  shows "\<exists>n > 0. tool_main env argv w p = Some (- int n, w, p)"
  using assms by (auto simp: tool_main_def no_file_report_def ERROR_LINE_def)

text \<open>
  C32. The command \<open>attr\<close> of the tool reports what its arguments say, as far as the library could be initialised: with \<open>add\<close> the sum
  recorded for the attribute grows by the value exactly when the tool returns 0 and no other attribute changes, and it returns 0 for positive numbers
  unless the special list is full; with \<open>set\<close> the value is
  stored in a table entry, or added in the special list when no table takes it; any other word gives the error of line 73 and changes nothing.
\<close>

theorem tool_reports_attr:
  assumes ini: "tool_init env 0 w p = Some (0, w1, p1)" and wf: "attr_wf (te_aenv env) (lw_attr w1) ess"
    and spec: "0 \<le> sint (iAttrSpecialCount (lw_attr w1))" "sint (iAttrSpecialCount (lw_attr w1)) \<le> int MTATTR_SPECIAL_COUNT"
  shows "\<exists>rc s' ess'. tool_main env [prog, ''attr'', op, i, v] w p = Some (rc, w1\<lparr>lw_attr := s'\<rparr>, p1) \<and> attr_wf (te_aenv env) s' ess' \<and>
    (op = ''add'' \<longrightarrow> (\<forall>q. reported s' ess' q = reported (lw_attr w1) ess q + (if rc = 0 \<and> q = atoi i then atoi v else 0)) \<and>
       (rc = 0 \<or> rc = -1 \<and> (sint (atoi i) \<le> 0 \<or> sint (atoi v) \<le> 0 \<or> sint (iAttrSpecialCount (lw_attr w1)) = int MTATTR_SPECIAL_COUNT))) \<and>
    (op = ''set'' \<longrightarrow> (\<forall>q. q \<noteq> atoi i \<longrightarrow> reported s' ess' q = reported (lw_attr w1) ess q) \<and>
       (rc = 0 \<longrightarrow> (atoi i, atoi v) \<in> set (concat ess') \<or> ess' = ess \<and> reported s' ess' (atoi i) = reported (lw_attr w1) ess (atoi i) + atoi v)) \<and>
    (op \<notin> {''add'', ''set''} \<longrightarrow> rc = -73 \<and> s' = lw_attr w1)"
proof -
  note run = tool_main_attr [OF ini, of prog op i v, unfolded tool_attr_def]
  consider "op = ''add''" | "op = ''set''" | "op \<notin> {''add'', ''set''}" by blast
  then show ?thesis
  proof cases
    case 1
    obtain rc s' ess' where r: "MtReport_Attr_Add (te_aenv env) (atoi i) (atoi v) (lw_attr w1) = Some (rc, s')" "attr_wf (te_aenv env) s' ess'"
      "\<forall>q. reported s' ess' q = reported (lw_attr w1) ess q + (if rc = 0 \<and> q = atoi i then atoi v else 0)"
      "rc = 0 \<or> rc = -1 \<and> (sint (atoi i) \<le> 0 \<or> sint (atoi v) \<le> 0 \<or> sint (iAttrSpecialCount (lw_attr w1)) = int MTATTR_SPECIAL_COUNT)"
      using Attr_Add_adds [OF wf spec, of "atoi i" "atoi v"] by blast
    have "tool_main env [prog, ''attr'', op, i, v] w p = Some (rc, w1\<lparr>lw_attr := s'\<rparr>, p1)" using run 1 r(1) by simp
    then show ?thesis using r(2-4) 1 by (intro exI [of _ rc] exI [of _ s'] exI [of _ ess']) simp
  next
    case 2
    obtain rc s' ess' where r: "MtReport_Attr_Set (te_aenv env) (atoi i) (atoi v) (lw_attr w1) = Some (rc, s')" "attr_wf (te_aenv env) s' ess'"
      "\<forall>q. q \<noteq> atoi i \<longrightarrow> reported s' ess' q = reported (lw_attr w1) ess q"
      "rc = 0 \<longrightarrow> (atoi i, atoi v) \<in> set (concat ess') \<or> ess' = ess \<and> reported s' ess' (atoi i) = reported (lw_attr w1) ess (atoi i) + atoi v"
      using Attr_Set_sets [OF wf spec, of "atoi i" "atoi v"] by blast
    have "tool_main env [prog, ''attr'', op, i, v] w p = Some (rc, w1\<lparr>lw_attr := s'\<rparr>, p1)" using run 2 r(1) by simp
    then show ?thesis using r(2-4) 2 by (intro exI [of _ rc] exI [of _ s'] exI [of _ ess']) simp
  next
    case 3
    then have "tool_main env [prog, ''attr'', op, i, v] w p = Some (-73, w1\<lparr>lw_attr := lw_attr w1\<rparr>, p1)" using run by (simp add: ERROR_LINE_def)
    then show ?thesis using wf 3 by (intro exI [of _ "-73"] exI [of _ "lw_attr w1"] exI [of _ ess]) simp
  qed
qed

text \<open>A process whose library is initialised already.\<close>

definition demo_tool_env :: "unit ToolEnv" where
  "demo_tool_env = \<lparr>te_os = \<lparr>os_shmget = (\<lambda>_ _ _ k. (-1, k)), os_shmat = (\<lambda>_ _. None)\<rparr>, te_view = (\<lambda>_ _ w. w), te_sz = 0, te_aenv = demo_attr_env,
     te_lenv = demo_lenv, te_plus = \<lparr>pe_file = None, pe_mtime = 0, pe_now = 0, pe_sleep = (\<lambda>_ x. x)\<rparr>, te_base = (\<lambda>_ _. [])\<rparr>"

theorem tool_reports_attr_witness:
  "\<exists>s' ess'. tool_main demo_tool_env [''report'', ''attr'', ''add'', ''17'', '' 5''] demo_lw \<lparr>pr_kernel = (), pr_mem = (\<lambda>_. 0)\<rparr>
     = Some (0, demo_lw\<lparr>lw_attr := s'\<rparr>, \<lparr>pr_kernel = (), pr_mem = (\<lambda>_. 0)\<rparr>) \<and> reported s' ess' 17 = 5 \<and> reported s' ess' 18 = 0"
proof -
  let ?p = "\<lparr>pr_kernel = (), pr_mem = (\<lambda>_. 0)\<rparr>" and ?argv = "[''report'', ''attr'', ''add'', ''17'', '' 5'']"
  have a: "atoi ''17'' = 17" "atoi '' 5'' = 5"
    by (simp_all add: atoi_def scan_int_def scan_sign_def isspace_def digit_in_def digit_of_def digits_val_def saturate_def)
  have w: "lw_attr demo_lw = demo_store 0" unfolding demo_lw_def LogWorld.simps by (rule refl)
  have ini: "tool_init demo_tool_env 0 demo_lw ?p = Some (0, demo_lw, ?p)" by (simp add: tool_init_def MtReport_Init_def demo_lw_sel demo_vmem_def)
  have wf: "attr_wf (te_aenv demo_tool_env) (lw_attr demo_lw) [[], [], [], [], []]" using demo_store_wf by (simp add: w demo_tool_env_def)
  have sp: "0 \<le> sint (iAttrSpecialCount (lw_attr demo_lw))" "sint (iAttrSpecialCount (lw_attr demo_lw)) \<le> int MTATTR_SPECIAL_COUNT"
    by (simp_all add: w demo_store_def MTATTR_SPECIAL_COUNT_def)
  have zero: "reported (demo_store 0) [[], [], [], [], []] q = 0" for q by (simp add: reported_def spec_entries_def demo_store_def)
  obtain rc s' ess' where r: "tool_main demo_tool_env ?argv demo_lw ?p = Some (rc, demo_lw\<lparr>lw_attr := s'\<rparr>, ?p)"
    "\<forall>q. reported s' ess' q = 0 + (if rc = 0 \<and> q = 17 then 5 else 0)"
    "rc = 0 \<or> rc = -1 \<and> (sint (17 :: u32) \<le> 0 \<or> sint (5 :: u32) \<le> 0 \<or> sint (iAttrSpecialCount (demo_store 0)) = int MTATTR_SPECIAL_COUNT)"
    using tool_reports_attr [OF ini wf sp, of "''report''" "''add''" "''17''" "'' 5''"] unfolding a w zero by blast
  have "rc = 0" using r(3) by (auto simp: demo_store_def MTATTR_SPECIAL_COUNT_def)
  then show ?thesis using r by (intro exI [of _ s'] exI [of _ ess']) simp
qed

end
