(* ===== verification/Agent_First.thy ===== *)
theory Agent_First
  imports Agent_Props
begin

text \<open>
  What a call of \<open>ReadAppLog\<close> does for an agent without packets when one record is pending: the special list and the other
  rings are left as they are, the record is read into a packet, and nothing is pending any more.
\<close>

subsection \<open>The first record of a packet\<close>

lemma packet_of_one:
  assumes "item_ok b"
  shows "packet_logs \<lparr>iReadAppId = app, iAppInfoIdx = i, sAppLogBuf = b\<rparr> = [LogInfoNtoH b]"
proof -
  have b: "\<forall>c\<in>set [b]. item_ok c" using assms by simp
  show ?thesis using split_concat(2) [OF b] by (simp add: packet_logs_def)
qed

lemma ReadAppLogToBuf_first:
  assumes "vmem_rep (lw_vmem (ag_lw a)) m" "log_readable cu m l" "log_text m l = Some tx" "full_record l"
    and "iAppId l \<noteq> 0" "iModuleId l \<noteq> 0" "length (ag_buf a) = agent_buf_size"
    and fresh: "stAppLogRead a = []" and app: "iAppId l \<in> set (stAppConfigList a)"
  shows "\<exists>a' st v. ReadAppLogToBuf clk l a = Some (0, taken l, a') \<and> agent_logs a' = [sent cu st tx l] \<and> ag_lw a' = (ag_lw a)\<lparr>lw_vmem := v\<rparr>"
proof -
  obtain rc a' a1 st where r: "ReadAppLogToBuf clk l a = Some (rc, taken l, a')"
    "queue_log (iAppId l) (packed cu st tx l) a1 = Some (rc, a')" "stAppLogRead a1 = []" "stAppConfigList a1 = stAppConfigList a"
    "length (packed cu st tx l) < MAX_APP_LOG_PKG_LENGTH"
    using ReadAppLogToBuf_run [OF assms(1-7), of clk] fresh by auto
  obtain i where "find_app (iAppId l) 0 (stAppConfigList a) = Some i" using find_app_some [OF app] by blast
  then have "rc = 0" "stAppLogRead a' = [\<lparr>iReadAppId = iAppId l, iAppInfoIdx = i, sAppLogBuf = packed cu st tx l\<rparr>]"
    using r(2-5) by (auto simp: queue_log_def MAX_APP_TYPE_READ_PER_EACH_def)
  moreover obtain v where "ag_lw a' = (ag_lw a)\<lparr>lw_vmem := v\<rparr>"
    using ReadAppLogToBuf_logs [OF assms(1-6) app assms(7), of clk] fresh r(1) by auto
  ultimately show ?thesis using r(1) packed_sent [OF r(5)] packet_of_one by (auto simp: agent_logs_def)
qed

subsection \<open>Rings with nothing to read\<close>

definition idle :: "MTLogShm \<Rightarrow> bool" where
  "idle r \<longleftrightarrow> iLogStarIndex r < 0 \<and> 0 \<le> iWriteIndex r"

lemma upd_shm_upd_shm: "k < length (stLogShm (ag_lw a)) \<Longrightarrow> upd_shm k g (upd_shm k f a) = upd_shm k (\<lambda>r. g (f r)) a"
  by (simp add: upd_shm_def upd_lw_def)

lemma upd_shm_same: "f (stLogShm (ag_lw a) ! k) = stLogShm (ag_lw a) ! k \<Longrightarrow> upd_shm k f a = a"
  by (simp add: upd_shm_def upd_lw_def)

lemma read_ring_stops:
  assumes "iLogStarIndex (ring_of k a) < 0 \<or> iLogStarIndex (ring_of k a) = iWriteIndex (ring_of k a)"
  shows "read_ring env k a = Some (False, a)"
  using assms by (subst read_ring.simps) (auto simp: ring_of_def Let_def)

lemma read_rings_idle:
  assumes "\<forall>j\<in>set ks. j < length (stLogShm (ag_lw a)) \<and> idle (ring_of j a)"
  shows "read_rings env (ks @ ys) a = read_rings env ys a"
  using assms
proof (induction ks)
  case (Cons k ks)
  then have k: "k < length (stLogShm (ag_lw a))" "iLogStarIndex (ring_of k a) < 0" "iLogStarIndex (ring_of k a) \<noteq> iWriteIndex (ring_of k a)"
    by (auto simp: idle_def)
  let ?on = "upd_shm k (\<lambda>r. r\<lparr>bTryGetLogIndex := 1\<rparr>) a"
  have "read_ring env k ?on = Some (False, ?on)" using k upd_shm_ring(1) [OF k(1)] by (intro read_ring_stops) simp
  moreover have "upd_shm k (\<lambda>r. r\<lparr>iLogStarIndex := (if iLogStarIndex r = iWriteIndex r then -1 else iLogStarIndex r), bTryGetLogIndex := 0\<rparr>) ?on = a"
    if "bTryGetLogIndex (stLogShm (ag_lw a) ! k) = 0"
    unfolding upd_shm_upd_shm [OF k(1)] by (rule upd_shm_same) (use k that in \<open>simp add: ring_of_def\<close>)
  ultimately show ?case using Cons by simp
qed simp

subsection \<open>One pending record\<close>

lemma read_ring_one:
  assumes rep: "vmem_rep (lw_vmem (ag_lw a)) m" and agent: "length (ag_buf a) = agent_buf_size" "stAppLogRead a = []"
    and k: "k < length (stLogShm (ag_lw a))" "ring_of k a = r" "ring_ok r"
    and i: "iLogStarIndex r = int i" "int i < MTLOG_SHM_RECORDS_COUNT" "iWriteIndex r = (int i + 1) mod MTLOG_SHM_RECORDS_COUNT"
    and l: "l = sLogList r ! i" "dwLogSeq l \<noteq> 0" "log_readable cu m l" "log_text m l = Some tx"
      "iAppId l \<noteq> 0" "iModuleId l \<noteq> 0" "iAppId l \<in> set (stAppConfigList a)"
  shows "\<exists>a' st r' v. read_ring env k a = Some (False, a') \<and> agent_logs a' = [sent cu st tx l] \<and>
    ag_lw a' = (ag_lw a)\<lparr>lw_vmem := v, stLogShm := (stLogShm (ag_lw a))[k := r']\<rparr> \<and> iLogStarIndex r' = iWriteIndex r \<and> iWriteIndex r' = iWriteIndex r"
proof -
  have lt: "i < length (sLogList r)" using k(3) i(2) by (simp add: ring_ok_def)
  then have "full_record l" using k(3) l(1) by (simp add: ring_ok_def)
  then obtain b st v where b: "ReadAppLogToBuf (ge_clk env) l a = Some (0, taken l, b)" "agent_logs b = [sent cu st tx l]"
    "ag_lw b = (ag_lw a)\<lparr>lw_vmem := v\<rparr>"
    using ReadAppLogToBuf_first [OF rep l(3,4) _ l(5,6) agent l(7), of "ge_clk env"] by blast
  define r' where "r' = r\<lparr>sLogList := (sLogList r)[i := taken l], iLogStarIndex := next_idx MTLOG_SHM_RECORDS_COUNT (int i)\<rparr>"
  define a' where "a' = step_ring k (upd_shm k (\<lambda>r. r\<lparr>sLogList := (sLogList r)[i := taken l]\<rparr>) b)"
  have "(int i + 1) mod 10000 \<noteq> int i mod 10000" by (simp add: mod_eq_dvd_iff)
  then have ne: "int i \<noteq> iWriteIndex r" using i(2,3) by (simp add: MTLOG_SHM_RECORDS_COUNT_def)
  have nx: "next_idx MTLOG_SHM_RECORDS_COUNT (int i) = iWriteIndex r" using next_idx_mod [of "int i" MTLOG_SHM_RECORDS_COUNT] i(2,3) by simp
  have "stLogShm (ag_lw b) = stLogShm (ag_lw a)" using b(3) by simp
  then have a': "ag_lw a' = (ag_lw a)\<lparr>lw_vmem := v, stLogShm := (stLogShm (ag_lw a))[k := r']\<rparr>" "agent_logs a' = agent_logs b"
    using k b(3) i(1) by (simp_all add: a'_def step_ring_def r'_def ring_of_def upd_shm_def upd_lw_def agent_logs_def)
  have "read_ring env k a = read_ring env k a'"
    using i(1) ne lt l(1,2) b(1) k(2) by (subst read_ring.simps) (simp add: Let_def ring_of_def a'_def)
  also have "\<dots> = Some (False, a')"
    by (rule read_ring_stops) (use a' k(1) nx in \<open>simp add: ring_of_def r'_def\<close>)
  finally show ?thesis using a' b(2) nx by (auto simp: r'_def)
qed

text \<open>Nothing is pending in the special list.\<close>

abbreviation spec_idle :: "LogWorld \<Rightarrow> bool" where
  "spec_idle w \<equiv> iLogSpecialReadIdx w < 0 \<or> iLogSpecialReadIdx w = iLogSpecialWriteIdx w"

lemma ReadAppLog_one:
  assumes rep: "vmem_rep (lw_vmem (ag_lw a)) m" and agent: "length (ag_buf a) = agent_buf_size" "stAppLogRead a = []"
    and rings: "length (stLogShm (ag_lw a)) = MTLOG_SHM_DEF_COUNT" "k < MTLOG_SHM_DEF_COUNT" "ring_of k a = r" "ring_ok r"
      "\<forall>j<MTLOG_SHM_DEF_COUNT. j \<noteq> k \<longrightarrow> idle (ring_of j a)" "bTryGetLogIndex r = 0" and spec: "spec_idle (ag_lw a)"
    and i: "iLogStarIndex r = int i" "int i < MTLOG_SHM_RECORDS_COUNT" "iWriteIndex r = (int i + 1) mod MTLOG_SHM_RECORDS_COUNT"
    and l: "l = sLogList r ! i" "dwLogSeq l \<noteq> 0" "log_readable cu m l" "log_text m l = Some tx"
      "iAppId l \<noteq> 0" "iModuleId l \<noteq> 0" "iAppId l \<in> set (stAppConfigList a)"
  shows "\<exists>a' st. ReadAppLog env a = Some a' \<and> agent_logs a' = [sent cu st tx l] \<and> (\<forall>r\<in>set (stLogShm (ag_lw a')). iLogStarIndex r < 0)"
proof -
  let ?n = MTLOG_SHM_DEF_COUNT
  define b where "b = upd_lw (\<lambda>w. w\<lparr>iLogSpecialReadIdx := (if iLogSpecialReadIdx w = iLogSpecialWriteIdx w then -1 else iLogSpecialReadIdx w)\<rparr>) a"
  have b: "stLogShm (ag_lw b) = stLogShm (ag_lw a)" "lw_vmem (ag_lw b) = lw_vmem (ag_lw a)" "ag_buf b = ag_buf a" "stAppLogRead b = stAppLogRead a"
    "stAppConfigList b = stAppConfigList a"
    by (simp_all add: b_def upd_lw_def)
  define c where "c = upd_shm k (\<lambda>r. r\<lparr>bTryGetLogIndex := 1\<rparr>) b"
  have kb: "k < length (stLogShm (ag_lw b))" using rings(1,2) b(1) by simp
  note c = upd_shm_ring [OF kb, of "\<lambda>r. r\<lparr>bTryGetLogIndex := 1\<rparr>", folded c_def]
  have rc: "ring_of k c = r\<lparr>bTryGetLogIndex := 1\<rparr>" using c(1) rings(3) b(1) by (simp add: ring_of_def)
  obtain d st r' v where d: "read_ring env k c = Some (False, d)" "agent_logs d = [sent cu st tx l]"
    "ag_lw d = (ag_lw c)\<lparr>lw_vmem := v, stLogShm := (stLogShm (ag_lw c))[k := r']\<rparr>" "iLogStarIndex r' = iWriteIndex r" "iWriteIndex r' = iWriteIndex r"
    using read_ring_one [of c m k "r\<lparr>bTryGetLogIndex := 1\<rparr>" i l cu tx env] rep agent rings(4) rc c b i l kb by (auto simp: ring_ok_def)
  define e where "e = upd_shm k (\<lambda>r. r\<lparr>iLogStarIndex := (if iLogStarIndex r = iWriteIndex r then -1 else iLogStarIndex r), bTryGetLogIndex := 0\<rparr>) d"
  have e: "stLogShm (ag_lw e) = (stLogShm (ag_lw a))[k := r'\<lparr>iLogStarIndex := -1, bTryGetLogIndex := 0\<rparr>]" "agent_logs e = agent_logs d"
    using d(3-5) kb b(1) by (simp_all add: e_def c_def upd_shm_def upd_lw_def agent_logs_def)
  have idle_b: "idle (ring_of j b)" if "j < ?n" "j \<noteq> k" for j using rings(5) that b(1) by (simp add: ring_of_def)
  have idle_e: "idle (ring_of j e)" if "j < ?n" "j \<noteq> k" for j using rings(5) that e(1) by (simp add: ring_of_def)
  have len: "length (stLogShm (ag_lw e)) = ?n" "length (stLogShm (ag_lw b)) = ?n" using e(1) b(1) rings(1) by simp_all
  have split: "[0..<?n] = [0..<k] @ k # [Suc k..<?n]" using rings(2) by (metis less_imp_add_positive upt_add_eq_append upt_conv_Cons zero_le le_add1)
  have "ReadAppLog env a = read_rings env [0..<?n] b"
    unfolding ReadAppLog_def b_def using spec by (subst read_spec.simps) (auto simp: Let_def)
  also have "\<dots> = read_rings env (k # [Suc k..<?n]) b"
    unfolding split by (rule read_rings_idle) (use idle_b len(2) rings(2) in auto)
  also have "\<dots> = read_rings env [Suc k..<?n] e"
    using rings(3,6) b(1) d(1) by (simp add: c_def [symmetric] e_def ring_of_def)
  also have "\<dots> = Some e"
    using read_rings_idle [of "[Suc k..<?n]" e env "[]"] idle_e len(1) by auto
  finally have run: "ReadAppLog env a = Some e" .
  have "iLogStarIndex (stLogShm (ag_lw e) ! j) < 0" if "j < ?n" for j
    using idle_e [OF that] e(1) rings(1,2) by (cases "j = k") (simp_all add: idle_def ring_of_def)
  then have "\<forall>r\<in>set (stLogShm (ag_lw e)). iLogStarIndex r < 0" using len(1) by (auto simp: in_set_conv_nth)
  then show ?thesis using run e(2) d(2) by auto
qed

end
