(* ===== verification/Spec2Isabelle.thy ===== *)
theory Spec2Isabelle
  imports Hash_Props2 Vmem_Props Attr_Props Cfg_Props Plugin_Props Agent_Attr_Props Search_Props Bucket Base64 Packet_Props Timer_Props Config_Sync_Props Report_Tool_Props Agent_First
begin

text \<open>
  Verification of the core of DES-PWD, a monitoring system. Processes link the C client library
  (\<open>src/language/c_cpp\<close>) and report numbers ("attributes") and logs through one shared memory
  segment. An agent on the machine (\<open>src/slog_mtreport_client\<close>) reads the segment and sends packets
  to servers; the log server (\<open>src/slog_server\<close> with \<open>src/lib/mtagent_api_open\<close>) splits the packets and
  stores the logs in rings of its own.

  \<^bold>\<open>Components and theories\<close>

  \<^item> \<open>mt_shared_hash.c/.h\<close>, hash tables in shared memory with a doubly linked list of the used nodes:
    \<open>Hash_Layout\<close> (headers, address arithmetic), \<open>Hash_Ops\<close> (use flag, reads and writes), \<open>Hash_Nodes\<close>
    (insertion at the end, sorted, behind a node; removal; cursors; traversals), \<open>Hash_Check\<close>
    (\<open>CheckHashTable\<close>, \<open>ResetHashTable\<close>), \<open>Hash_Search\<close> (lookups), \<open>Hash_Init\<close> (creation and attaching),
    \<open>Hash_NoList\<close> (tables without list). \<open>Dll\<close> has the abstract doubly linked list; \<open>Hash_Correct\<close> and \<open>Hash_Walk\<close>
    show that the operations implement list operations. The locale \<open>cursor_walk\<close> states
    once what a loop over a cursor visits, for both directions and for the enumeration.
    \<open>Hash_Props\<close> and \<open>Hash_Props2\<close> hold the properties C1, C2, C5, C6, C9, C14, C15, C17, C18 and C22, and
    \<open>Hash_Demo\<close> the small tables the witnesses use.
  \<^item> \<open>mt_shm.c\<close>: \<open>Shm\<close>, segments with guard strings on both sides.
  \<^item> \<open>mt_vmem.c/.h\<close>, the string store: \<open>Vmem\<close> (pools of fixed-size nodes, saving, reading, freeing,
    delayed collection), \<open>Vmem_Pool\<close>, \<open>Vmem_Free\<close> (chains of nodes and the free list), \<open>Vmem_Family\<close> (several pools side by
    side), \<open>Vmem_Store\<close> (the
    store as a map from indices to byte strings; the locale \<open>blob_store\<close> is the interface the log
    theories rest on),
    \<open>Vmem_Props\<close> (C23 to C25, C29, C30).
  \<^item> \<open>mt_attr.c/.h\<close>: \<open>Attr\<close> (reports over tables and special list), \<open>Attr_Table\<close> (what one table
    records; the locale \<open>report_table\<close> covers numbers and strings), \<open>Attr_Props\<close> (C31, C33).
  \<^item> \<open>sv_cfg.c/.h\<close>: \<open>Cfg\<close>, \<open>Cfg_Props\<close> (C35).
  \<^item> \<open>mt_log.c/.h\<close>: \<open>Log_State\<close> (the part of \<open>MTREPORT_SHM\<close> and of the process state for logs), \<open>Log\<close>
    (custom fields, special list, local file, frequency limit, rings, \<open>MtReport_Log\<close>), \<open>Plugin\<close> and
    \<open>Log_Init\<close> (initialisation, plugins), \<open>Log_Props\<close>, \<open>Log_Ring\<close>, \<open>Log_Props2\<close> (C39) and
    \<open>Plugin_Props\<close> (C19).
  \<^item> \<open>linux_shell/xrkmonitor_report.c\<close>, the tool for shell scripts: \<open>Report_Tool\<close>, \<open>Report_Tool_Props\<close> (C32).
  \<^item> \<open>mtreport_client.cpp\<close>, the agent: \<open>Agent\<close> (\<open>ReadAppLogToBuf\<close>, \<open>ReadAppLog\<close>), \<open>Agent_Read\<close> (what is
    packed for a record), \<open>Agent_Drain\<close> (the loop over a ring), \<open>Agent_First\<close> (a whole call of \<open>ReadAppLog\<close> when one record is pending),
    \<open>Agent_Props\<close> (C21, C27, C40);
    \<open>Agent_Attr\<close> (\<open>ReadAttr\<close>, \<open>ReadStrAttr\<close>) and \<open>Agent_Attr_Props\<close> (C7, C16), where the locale \<open>collector\<close> states once that
    nothing recorded is lost between a table and a packet.
  \<^item> \<open>sv_timer.cpp\<close> and \<open>sv_list.h\<close>, the timers of the agent: \<open>Timer\<close> models the wheel of five vectors pointer by
    pointer, with the comparison function of the agent on the hash table. \<open>Timer_Wheel\<close> relates the pointers to lists of nodes,
    \<open>Timer_Place\<close> says which list a tick belongs to and that cascading keeps it, \<open>Timer_Search\<close> has the invariant
    \<open>timers\<close> of wheel, table and clock, \<open>Timer_Ops\<close> adds and takes timers. In \<open>Timer_Run\<close> the locale
    \<open>timer_handler\<close> is the interface of the functions called on expiry, under which a run is followed.
  \<^item> \<open>mtreport_protoc.cpp\<close> and \<open>sv_socket.cpp\<close>: \<open>Expire\<close> (\<open>OnPkgExpire\<close>, the sending of unanswered packets),
    \<open>Expire_Props\<close> (the locale \<open>agent_env\<close> of the clock and the buffer; by a \<open>sublocale\<close> the functions satisfy
    \<open>timer_handler\<close>), \<open>Timer_Props\<close> (C3, C4, C10, C38). \<open>Config_Sync\<close> has the answers that change the configuration of logs and applications in the
    segment, \<open>Config_Sync_Props\<close> (C8) reads the sorted arrays as finite maps; the locale \<open>config_kind\<close> is interpreted for both structures.
  \<^item> \<open>basic_packet.cpp\<close> and \<open>sv_struct.cpp\<close> of agent and servers: \<open>Packet\<close> (heads, signatures, TLVs, the checks of
    received packets; the parameter \<open>log\<close> says whether a message about the packet is written, since the messages
    read the packet too), \<open>Packet_Props\<close> (C11, C34).
  \<^item> \<open>sv_vmem.cpp/.h\<close> and \<open>sv_shm.cpp\<close> of \<open>mtagent_api_open\<close>, the string store of the servers: \<open>Sv_Vmem\<close> (other sizes of pools, another order of tries, a
    counter of the nodes that wait for collection), \<open>Sv_Pool\<close> (one pool), \<open>Sv_Store\<close> (the store as a map; another interpretation of
    \<open>blob_store\<close>). The functions have the names of \<open>mt_vmem.c\<close> in the source and the prefix \<open>Sv_\<close> here.
  \<^item> \<open>slog_server/udp_sock.cpp\<close> and \<open>supper_log.cpp\<close>, the log server: \<open>Server\<close> (packets, rings,
    \<open>WriteAppLogToShm\<close>), \<open>Server_Wire\<close> (what the server finds in the agent's packets),
    \<open>Server_Props\<close> (C26; the locale \<open>line_store\<close> is the interface of the string store to the rings, interpreted
    on the functions of \<open>Sv_Vmem\<close>). \<open>write_app_log\<close> has the function that saves a string as an argument; \<open>WriteAppLogToShm\<close> is its instance
    with \<open>Sv_SaveToVmem\<close>. In the same way \<open>GetShmLog\<close> and \<open>RealTimeLog\<close> below are the instances of \<open>shm_log\<close> and \<open>realtime_log\<close> with \<open>Sv_GetFromVmem\<close>.
  \<^item> The search in the rings, with \<open>oi_bmh.cpp\<close>: \<open>Bmh\<close> (C12), \<open>Search\<close> (keys, terms, \<open>RealTimeLog\<close>), \<open>Search_Props\<close> (C20,
    C37; locale \<open>line_reader\<close>). \<open>Bucket\<close> is the token bucket of the log files (C13), \<open>Base64\<close> the base 64 coder of the agent (C36).
  \<^item> This theory: a log goes from the call through \<open>ReadAppLog\<close> of the agent to the server (C28).

  \<^bold>\<open>State and errors\<close>

  A structure of the source is a record with the names of its members, prefixed where two
  structures share one. Unsigned members that wrap around are words of their width; indices that
  the code compares with -1 are \<open>int\<close>. Results are the numbers the C functions return. An operation
  that the C language does not define (an access behind an array, a failed assertion, a null
  pointer) has the value \<open>None\<close>; a property that states \<open>= Some \<dots>\<close> therefore shows that it does not
  happen. The hash table theories work on addresses, as the macros of the source do: a payload
  pointer is turned into a node head and an index by its distance to the start of the segment.

  \<^bold>\<open>Loops\<close>

  Bounded loops are recursive functions over the bound or the list. The chains of the string store
  and the loops of the agent may run forever on a damaged segment; they are partial functions in
  the option monad, where running forever is \<open>None\<close>. So are the loops of a run over the timers. C25, C30, C21 and C4
  show that they return on well-formed states. The cascade of the timers has the limit of 10000 nodes of the source, which
  the invariant \<open>timers\<close> keeps. The waits for flags have the numbers of tries of the source.

  \<^bold>\<open>Parameters\<close>

  What is not in the repository is a parameter: \<open>shmget\<close>, \<open>shmat\<close> and \<open>shmdt\<close>, the clocks, \<open>atof\<close>, the
  comparison and warning functions a client installs, the effect of other processes on a flag
  during a \<open>usleep\<close>. The timers have the clock, \<open>malloc\<close> and what lies in the static buffer behind the data as parameters; their
  invariant is stated for a time up to which the clock may run, at most five minutes away, because a node overdue for longer
  loses its key. A log text is the text after \<open>vsnprintf\<close>. A call is one step of the model;
  other processes run between calls and during the waits for flags.

  \<^bold>\<open>Not modelled\<close>

  Output for people (\<open>ShowInnerSharedInfo\<close>, statistics), the core dump handler, the bindings for other
  languages, the contents of the packets of agent and servers apart from logs, attributes and configurations, the encryption, the wait for packets, the
  events that make the agent read logs and attributes, the database, the warning servers and the web console: sockets, SQL, protobuf and templates. The vendored
  libraries are third-party code.
\<close>

section \<open>From the process to the server\<close>

lemma sent_text: "drop (unat (li_wCustDataLen (sent cu st tx l))) (li_sLog (sent cu st tx l)) = text_part st tx l"
proof -
  have "length (cust_part cu l) < 2 ^ 16" using cust_bytes_length(1) [of cu] by (simp add: cust_part_def)
  then have "unat (of_nat (length (cust_part cu l)) :: u16) = length (cust_part cu l)" by (rule u16_of_nat)
  then show ?thesis by (simp add: sent_def)
qed

text \<open>What a claim leaves in the rings when nothing was pending.\<close>

lemma claims_idle:
  assumes c: "claims k w w'" and k: "k < length (stLogShm w)"
    and rings: "\<forall>r\<in>set (stLogShm w). ring_ok r \<and> iLogStarIndex r < 0" and spec: "spec_idle w"
  shows "length (stLogShm w') = length (stLogShm w)" "spec_idle w'" "\<And>j. j < length (stLogShm w) \<Longrightarrow> j \<noteq> k \<Longrightarrow> idle (stLogShm w' ! j)"
    "iLogStarIndex (stLogShm w' ! k) = int (nat (iWriteIndex (stLogShm w ! k)))" "bTryGetLogIndex (stLogShm w' ! k) = 0"
proof -
  have ok: "iLogStarIndex (stLogShm w ! j) < 0" "0 \<le> iWriteIndex (stLogShm w ! j)" if "j < length (stLogShm w)" for j
    using rings that by (auto simp: ring_ok_def)
  have m: "map marks (stLogShm w') = (map marks (stLogShm w))
      [k := (iWriteIndex (stLogShm w ! k), (iWriteIndex (stLogShm w ! k) + 1) mod MTLOG_SHM_RECORDS_COUNT, 0)]"
    using c ok(1) [OF k] by (simp add: claims_def Let_def)
  then show len: "length (stLogShm w') = length (stLogShm w)" by (metis length_list_update length_map)
  show "spec_idle w'" using c spec by (simp add: claims_def)
  have at: "marks (stLogShm w' ! j) = (if j = k then (iWriteIndex (stLogShm w ! k), (iWriteIndex (stLogShm w ! k) + 1) mod MTLOG_SHM_RECORDS_COUNT, 0)
      else marks (stLogShm w ! j))" if "j < length (stLogShm w)" for j
    using arg_cong [OF m, of "\<lambda>xs. xs ! j"] that len by (simp add: nth_list_update)
  show "idle (stLogShm w' ! j)" if "j < length (stLogShm w)" "j \<noteq> k" for j
    using at [OF that(1)] that ok [of j] by (simp add: marks_def idle_def)
  show "iLogStarIndex (stLogShm w' ! k) = int (nat (iWriteIndex (stLogShm w ! k)))" "bTryGetLogIndex (stLogShm w' ! k) = 0"
    using at [OF k] ok(2) [OF k] by (simp_all add: marks_def)
qed

text \<open>
  C28. A log goes the whole way. The process is initialised and attached, its configuration is known, accepts the type of the log
  and does not limit it, and one of the three rings has a free flag; nothing is pending in the rings and in the special list; the configuration has
  an application and a module, and the agent, which has no packets yet, knows the application. Then \<open>MtReport_Log\<close>
  returns 0, or -4 for a text of 256 characters or more that the string store cannot take. After 0, \<open>ReadAppLog\<close> of the
  agent returns, nothing is pending any more, and the server that splits the packets of the agent finds one log, with the application, module,
  configuration and type of the call, whose text behind the custom fields is the text of the call, cut to 1055 characters,
  and one byte more. (Without a configuration number, or when the configuration is not known, \<open>MtReport_Log\<close> also returns 0, but writes no record
  to a ring.)
\<close>

theorem log_reaches_server:
  assumes rep: "vmem_rep (lw_vmem w) m" and msg: "0 \<notin> set msg"
    and ini: "cIsInit (lw_vmem w) \<noteq> 0" "vm_attached (lw_vmem w)" "dwLogCfgId w \<noteq> 0"
    and cfg: "pCurConfigInfo w = Some ci" "ci < length (stLogConfig w)" "cfg_iLogType (stLogConfig w ! ci) AND ty \<noteq> 0"
      "\<not> fst (freq_limit (le_now env) (stLogConfig w ! ci))"
    and rings: "length (stLogShm w) = MTLOG_SHM_DEF_COUNT" "\<exists>r\<in>set (stLogShm w). bTryGetLogIndex r = 0"
      "\<forall>r\<in>set (stLogShm w). ring_ok r \<and> iLogStarIndex r < 0" "iLogSpecialReadIdx w < 0 \<or> iLogSpecialReadIdx w = iLogSpecialWriteIdx w"
    and ids: "cfg_iAppId (stLogConfig w ! ci) \<noteq> 0" "cfg_iModuleId (stLogConfig w ! ci) \<noteq> 0"
      "cfg_iAppId (stLogConfig w ! ci) \<in> set (stAppConfigList a)"
    and agent: "length (ag_buf a) = agent_buf_size" "stAppLogRead a = []"
  shows "\<exists>rc w'. MtReport_Log env ty msg w = Some (rc, w') \<and> (rc = 0 \<or> rc = -4 \<and> 256 \<le> length msg) \<and>
    (rc = 0 \<longrightarrow> (\<exists>a' p st. ReadAppLog genv (a\<lparr>ag_lw := w'\<rparr>) = Some a' \<and> agent_logs a' = [p] \<and>
       li_iAppId p = cfg_iAppId (stLogConfig w ! ci) \<and> li_iModuleId p = cfg_iModuleId (stLogConfig w ! ci) \<and>
       li_dwLogConfigId p = dwCfgId (stLogConfig w ! ci) \<and> li_wLogType p = ucast ty \<and>
       drop (unat (li_wCustDataLen p)) (li_sLog p) = take 1055 msg @ [st] \<and>
       (\<forall>r\<in>set (stLogShm (ag_lw a')). iLogStarIndex r < 0)))"
proof -
  let ?c = "stLogConfig w ! ci"
  obtain rc w' k where run: "MtReport_Log env ty msg w = Some (rc, w')" and k: "k < length (stLogShm w)"
    and log: "log_done k (nat (iWriteIndex (stLogShm w ! k))) (stCust w) msg ty ?c rc w'" and cl: "claims k w w'"
    using MtReport_Log_run [OF rep msg ini cfg rings(2)] rings(3) by blast
  note c = claims_idle [OF cl k rings(3,4)]
  let ?i = "nat (iWriteIndex (stLogShm w ! k))" and ?r = "stLogShm w' ! k"
  let ?l = "sLogList ?r ! ?i"
  obtain m' where m': "vmem_rep (lw_vmem w') m'" "logged (stCust w) msg ty ?c rc m' ?l" using log by (auto simp: log_done_def)
  have r: "ring_ok ?r" "iWriteIndex ?r = (int ?i + 1) mod MTLOG_SHM_RECORDS_COUNT" "?i < length (sLogList ?r)" using log by (simp_all add: log_done_def)
  have "ring_ok (stLogShm w ! k)" using rings(3) k by simp
  then have i: "int ?i < MTLOG_SHM_RECORDS_COUNT" by (simp add: ring_ok_def)
  have "\<exists>a' p st. ReadAppLog genv (a\<lparr>ag_lw := w'\<rparr>) = Some a' \<and> agent_logs a' = [p] \<and>
       li_iAppId p = cfg_iAppId ?c \<and> li_iModuleId p = cfg_iModuleId ?c \<and>
       li_dwLogConfigId p = dwCfgId ?c \<and> li_wLogType p = ucast ty \<and>
       drop (unat (li_wCustDataLen p)) (li_sLog p) = take 1055 msg @ [st] \<and> (\<forall>r\<in>set (stLogShm (ag_lw a')). iLogStarIndex r < 0)" if "rc = 0"
  proof -
    have l: "log_readable (stCust w) m' ?l" "log_text m' ?l = Some (take 1055 msg)" "wLogType ?l = ucast ty"
      "iAppId ?l = cfg_iAppId ?c" "iModuleId ?l = cfg_iModuleId ?c" "dwLogConfigId ?l = dwCfgId ?c" "dwLogSeq ?l \<noteq> 0"
      using m'(2) that by (simp_all add: logged_def)
    obtain a' st where "ReadAppLog genv (a\<lparr>ag_lw := w'\<rparr>) = Some a'" "agent_logs a' = [sent (stCust w) st (take 1055 msg) ?l]"
      "\<forall>r\<in>set (stLogShm (ag_lw a')). iLogStarIndex r < 0"
      using ReadAppLog_one [of "a\<lparr>ag_lw := w'\<rparr>" m' k ?r ?i ?l "stCust w" "take 1055 msg" genv] m'(1) agent ids rings(1) k c r(1,2) i l
      by (auto simp: ring_of_def)
    moreover have "drop (unat (li_wCustDataLen (sent (stCust w) st (take 1055 msg) ?l))) (li_sLog (sent (stCust w) st (take 1055 msg) ?l))
      = take 1055 msg @ [if iVarmemIndex ?l < 0 then 0 else st]"
      by (simp add: sent_text text_part_def)
    moreover have "li_iAppId (sent (stCust w) st (take 1055 msg) ?l) = cfg_iAppId ?c"
      "li_iModuleId (sent (stCust w) st (take 1055 msg) ?l) = cfg_iModuleId ?c"
      "li_dwLogConfigId (sent (stCust w) st (take 1055 msg) ?l) = dwCfgId ?c"
      "li_wLogType (sent (stCust w) st (take 1055 msg) ?l) = ucast ty"
      using l(3-6) by (simp_all add: sent_def)
    ultimately show ?thesis by blast
  qed
  moreover have "rc = 0 \<or> rc = -4 \<and> 256 \<le> length msg" using m'(2) by (auto simp: logged_def)
  ultimately show ?thesis using run by blast
qed

theorem log_reaches_server_witness:
  "\<exists>w' a' p st. MtReport_Log demo_lenv 4 [104, 105] demo_lw = Some (0, w') \<and>
    ReadAppLog demo_genv ((demo_agent demo_lw)\<lparr>ag_lw := w'\<rparr>) = Some a' \<and> agent_logs a' = [p] \<and>
    li_iAppId p = 1 \<and> li_iModuleId p = 2 \<and> li_dwLogConfigId p = 9 \<and> li_wLogType p = 4 \<and>
    drop (unat (li_wCustDataLen p)) (li_sLog p) = [104, 105, st]"
proof -
  have lim: "\<not> fst (freq_limit (le_now demo_lenv) demo_cfg)"
    by (simp add: freq_limit_def demo_cfg_def demo_lenv_def Let_def)
  have c: "cfg_iAppId demo_cfg = 1" "cfg_iModuleId demo_cfg = 2" "dwCfgId demo_cfg = 9" "cfg_iLogType demo_cfg AND 4 \<noteq> 0"
    by (simp_all add: demo_cfg_def)
  have s: "iLogSpecialReadIdx demo_lw = -1" unfolding demo_lw_def LogWorld.simps by (rule refl)
  have r: "iLogStarIndex demo_ring = -1" unfolding demo_ring_def MTLogShm.simps by (rule refl)
  show ?thesis
    using log_reaches_server [OF demo_vmem_rep [folded demo_lw_sel(1)], where msg = "[104, 105]" and ci = 0 and ty = 4
        and env = demo_lenv and a = "demo_agent demo_lw" and genv = demo_genv] lim c demo_ring_ok(1,2) s r
    by (simp add: demo_lw_sel demo_vmem_def demo_agent_def agent_buf_size_def MTREPORT_LOG_MAX_LENGTH_def MTLOG_SHM_DEF_COUNT_def) blast
qed

end
